(* ===== verification/Prelude.thy ===== *)
theory Prelude
  imports Main "HOL-Library.AList"
begin

text \<open>
  Shared vocabulary of the development: Rust's \<open>Result\<close> and its \<open>?\<close> operator, saturating and
  checked integer arithmetic, \<open>str\<close> as a list of Unicode scalar values with the string methods
  the sources call, decimal numbers, and \<open>HashMap\<close> as an association list with distinct keys.
  The generic lemmas are declared \<open>[simp]\<close> or collected in the bundles \<open>res_simps\<close> (results),
  \<open>str_simps\<close> (string primitives) and \<open>hmap_simps\<close> (maps), which the component theories use.
\<close>

named_theorems res_simps \<open>unfolding rules for results\<close>
named_theorems str_simps \<open>unfolding rules for the string primitives\<close>
named_theorems hmap_simps \<open>laws of the hash map model\<close>


section \<open>Results\<close>

text \<open>\<open>Result<T, E>\<close> is \<open>'e + 'a\<close>: \<open>Inl\<close> is \<open>Err\<close>, \<open>Inr\<close> is \<open>Ok\<close>. \<open>rbind\<close> is the \<open>?\<close> operator.\<close>

type_synonym ('a, 'e) result = "'e + 'a"

definition rbind :: "('a, 'e) result \<Rightarrow> ('a \<Rightarrow> ('b, 'e) result) \<Rightarrow> ('b, 'e) result" where
  "rbind r f = (case r of Inl e \<Rightarrow> Inl e | Inr a \<Rightarrow> f a)"

definition ok_or :: "'a option \<Rightarrow> 'e \<Rightarrow> ('a, 'e) result" where
  "ok_or x e = (case x of None \<Rightarrow> Inl e | Some a \<Rightarrow> Inr a)"

definition is_ok :: "('a, 'e) result \<Rightarrow> bool" where
  "is_ok r = (case r of Inl _ \<Rightarrow> False | Inr _ \<Rightarrow> True)"

definition map_err :: "('e \<Rightarrow> 'f) \<Rightarrow> ('a, 'e) result \<Rightarrow> ('a, 'f) result" where
  "map_err f r = (case r of Inl e \<Rightarrow> Inl (f e) | Inr a \<Rightarrow> Inr a)"

lemma rbind_simps [simp]: "rbind (Inl e) f = Inl e" "rbind (Inr a) f = f a"
  by (simp_all add: rbind_def)

lemma rbind_Inr_iff [res_simps]: "rbind r f = Inr b \<longleftrightarrow> (\<exists>a. r = Inr a \<and> f a = Inr b)"
  by (cases r) auto

lemma rbind_Inl_iff [res_simps]:
  "rbind r f = Inl e \<longleftrightarrow> r = Inl e \<or> (\<exists>a. r = Inr a \<and> f a = Inl e)"
  by (cases r) auto

lemma ok_or_simps [simp]: "ok_or None e = Inl e" "ok_or (Some a) e = Inr a"
  by (simp_all add: ok_or_def)

lemma ok_or_Inr_iff [res_simps]: "ok_or x e = Inr a \<longleftrightarrow> x = Some a"
  by (cases x) auto

lemma is_ok_simps [simp]: "is_ok (Inr a)" "\<not> is_ok (Inl e)"
  by (simp_all add: is_ok_def)

lemma map_err_simps [simp]: "map_err f (Inl e) = Inl (f e)" "map_err f (Inr a) = Inr a"
  by (simp_all add: map_err_def)

lemma case_three_Inr_iff [res_simps]:
  "(case xs of [a, b, c] \<Rightarrow> f a b c | _ \<Rightarrow> Inl e) = Inr r \<longleftrightarrow> (\<exists>a b c. xs = [a, b, c] \<and> f a b c = Inr r)"
  by (cases xs; cases "tl xs"; cases "tl (tl xs)"; cases "tl (tl (tl xs))") auto

lemma case_list_Inr_iff [res_simps]:
  "(case xs of [] \<Rightarrow> Inl e | x # r \<Rightarrow> f x r) = Inr y \<longleftrightarrow> (\<exists>x r. xs = x # r \<and> f x r = Inr y)"
  by (cases xs) auto

lemma map_err_Inr_iff [res_simps]: "map_err f r = Inr a \<longleftrightarrow> r = Inr a"
  by (cases r) auto


section \<open>Machine integers\<close>

text \<open>
  Unsigned machine integers are naturals; where the code saturates, checks or truncates, the
  bound is written out. \<open>u64\<close> clocks and counters use \<open>sat_add64\<close>, sums that may wrap \<open>wrap_add64\<close>;
  \<open>saturating_sub\<close> is the natural-number subtraction.
\<close>

abbreviation u32_max :: nat where "u32_max \<equiv> 2 ^ 32 - 1"
abbreviation u64_max :: nat where "u64_max \<equiv> 2 ^ 64 - 1"

definition sat_add32 :: "nat \<Rightarrow> nat \<Rightarrow> nat" where
  "sat_add32 a b = min (a + b) u32_max"

definition sat_add64 :: "nat \<Rightarrow> nat \<Rightarrow> nat" where
  "sat_add64 a b = min (a + b) u64_max"

text \<open>\<open>+\<close> on \<open>u64\<close> and on \<open>usize\<close> of 64 bits, as the release build has it: it wraps.\<close>

definition wrap_add64 :: "nat \<Rightarrow> nat \<Rightarrow> nat" where
  "wrap_add64 a b = (a + b) mod 2 ^ 64"

lemma wrap_add64_small: "a + b \<le> u64_max \<Longrightarrow> wrap_add64 a b = a + b"
  by (simp add: wrap_add64_def)

lemma sat_add64_mono: "a \<le> a' \<Longrightarrow> sat_add64 a b \<le> sat_add64 a' b"
  by (simp add: sat_add64_def)

lemma sat_add64_ge: "a \<le> u64_max \<Longrightarrow> a \<le> sat_add64 a b"
  by (simp add: sat_add64_def)

lemma sat_add64_le: "sat_add64 a b \<le> u64_max"
  by (simp add: sat_add64_def)


section \<open>Strings\<close>

text \<open>
  A \<open>&str\<close> is the list of its Unicode scalar values. \<open>str\<close> turns an ASCII literal of the logic
  into such a list; \<open>str_len\<close> is \<open>str::len\<close>, the length of the UTF-8 encoding in bytes, and
  \<open>length\<close> is \<open>chars().count()\<close>. Every byte index the sources compute lies next to an ASCII
  character, so slicing at it is \<open>take\<close>/\<open>drop\<close> on the list.
\<close>

type_synonym ustring = "nat list"

definition str :: "string \<Rightarrow> ustring" where
  [str_simps]: "str s = map of_char s"

abbreviation ch :: "char \<Rightarrow> nat" where "ch c \<equiv> of_char c"

definition utf8_width :: "nat \<Rightarrow> nat" where
  "utf8_width c = (if c < 0x80 then 1 else if c < 0x800 then 2 else if c < 0x10000 then 3 else 4)"

definition str_len :: "ustring \<Rightarrow> nat" where
  [str_simps]: "str_len s = sum_list (map utf8_width s)"

definition is_ascii_digit :: "nat \<Rightarrow> bool" where
  [str_simps]: "is_ascii_digit c \<longleftrightarrow> 48 \<le> c \<and> c \<le> 57"

definition is_ascii_upper :: "nat \<Rightarrow> bool" where
  [str_simps]: "is_ascii_upper c \<longleftrightarrow> 65 \<le> c \<and> c \<le> 90"

definition is_ascii_lower :: "nat \<Rightarrow> bool" where
  [str_simps]: "is_ascii_lower c \<longleftrightarrow> 97 \<le> c \<and> c \<le> 122"

definition is_ascii_alphanumeric :: "nat \<Rightarrow> bool" where
  [str_simps]: "is_ascii_alphanumeric c \<longleftrightarrow> is_ascii_digit c \<or> is_ascii_upper c \<or> is_ascii_lower c"

definition to_ascii_lower :: "nat \<Rightarrow> nat" where
  [str_simps]: "to_ascii_lower c = (if is_ascii_upper c then c + 32 else c)"

text \<open>\<open>char::is_control\<close>: the general category Cc.\<close>

definition is_control :: "nat \<Rightarrow> bool" where
  [str_simps]: "is_control c \<longleftrightarrow> c \<le> 0x1F \<or> 0x7F \<le> c \<and> c \<le> 0x9F"

text \<open>\<open>char::is_whitespace\<close>: the property White_Space.\<close>

definition is_whitespace :: "nat \<Rightarrow> bool" where
  [str_simps]: "is_whitespace c \<longleftrightarrow> 9 \<le> c \<and> c \<le> 13 \<or> c = 0x20 \<or> c = 0x85 \<or> c = 0xA0 \<or> c = 0x1680
    \<or> 0x2000 \<le> c \<and> c \<le> 0x200A \<or> c = 0x2028 \<or> c = 0x2029 \<or> c = 0x202F \<or> c = 0x205F \<or> c = 0x3000"

lemma is_whitespace_code [code]:
  "is_whitespace c = (if c < 128 then 9 \<le> c \<and> c \<le> 13 \<or> c = 0x20
     else c = 0x85 \<or> c = 0xA0 \<or> c = 0x1680
       \<or> 0x2000 \<le> c \<and> c \<le> 0x200A \<or> c = 0x2028 \<or> c = 0x2029 \<or> c = 0x202F \<or> c = 0x205F \<or> c = 0x3000)"
  by (auto simp: is_whitespace_def)

definition trim_start :: "ustring \<Rightarrow> ustring" where
  [str_simps]: "trim_start s = dropWhile is_whitespace s"

definition trim_end :: "ustring \<Rightarrow> ustring" where
  [str_simps]: "trim_end s = rev (dropWhile is_whitespace (rev s))"

definition trim :: "ustring \<Rightarrow> ustring" where
  [str_simps]: "trim s = trim_end (trim_start s)"

fun strip_prefix :: "ustring \<Rightarrow> ustring \<Rightarrow> ustring option" where
  "strip_prefix [] s = Some s"
| "strip_prefix (p # ps) [] = None"
| "strip_prefix (p # ps) (c # cs) = (if p = c then strip_prefix ps cs else None)"

definition strip_suffix :: "ustring \<Rightarrow> ustring \<Rightarrow> ustring option" where
  [str_simps]: "strip_suffix p s = map_option rev (strip_prefix (rev p) (rev s))"

definition starts_with :: "ustring \<Rightarrow> ustring \<Rightarrow> bool" where
  [str_simps]: "starts_with p s \<longleftrightarrow> strip_prefix p s \<noteq> None"

definition ends_with :: "ustring \<Rightarrow> ustring \<Rightarrow> bool" where
  [str_simps]: "ends_with p s \<longleftrightarrow> strip_suffix p s \<noteq> None"

text \<open>\<open>str::split(char)\<close>: the pieces between separators, never an empty list.\<close>

fun split_on :: "nat \<Rightarrow> ustring \<Rightarrow> ustring list" where
  "split_on d [] = [[]]"
| "split_on d (c # cs) =
     (if c = d then [] # split_on d cs
      else (case split_on d cs of [] \<Rightarrow> [[c]] | w # ws \<Rightarrow> (c # w) # ws))"

text \<open>\<open>trim_end_matches(c)\<close>.\<close>

definition trim_end_char :: "nat \<Rightarrow> ustring \<Rightarrow> ustring" where
  "trim_end_char c s = rev (dropWhile (\<lambda>x. x = c) (rev s))"

text \<open>\<open>rsplit(pred).next()\<close>: what follows the last separator.\<close>

definition rsplit_next :: "(nat \<Rightarrow> bool) \<Rightarrow> ustring \<Rightarrow> ustring" where
  [str_simps]: "rsplit_next sep s = rev (takeWhile (\<lambda>c. \<not> sep c) (rev s))"

text \<open>\<open>slice.join(sep)\<close>.\<close>

fun join :: "ustring \<Rightarrow> ustring list \<Rightarrow> ustring" where
  "join sep [] = []"
| "join sep [w] = w"
| "join sep (w # ws) = w @ sep @ join sep ws"

lemma strip_prefix_Some_iff [simp]: "strip_prefix p s = Some r \<longleftrightarrow> s = p @ r"
  by (induction p s rule: strip_prefix.induct) auto

lemma strip_prefix_append [simp]: "strip_prefix p (p @ r) = Some r"
  by simp

lemma strip_suffix_Some_iff [simp]: "strip_suffix p s = Some r \<longleftrightarrow> s = r @ p"
proof -
  have "strip_suffix p s = Some r \<longleftrightarrow> rev s = rev p @ rev r"
    by (auto simp: strip_suffix_def)
  also have "\<dots> \<longleftrightarrow> s = r @ p"
    by (metis rev_append rev_rev_ident)
  finally show ?thesis .
qed

lemma starts_with_iff: "starts_with p s \<longleftrightarrow> (\<exists>r. s = p @ r)"
  by (auto simp: starts_with_def)

lemma ends_with_iff: "ends_with p s \<longleftrightarrow> (\<exists>r. s = r @ p)"
  by (auto simp: ends_with_def)

lemma split_on_nonempty [simp]: "split_on d s \<noteq> []"
  by (induction s) (auto split: list.splits)

lemma split_on_no_sep [simp]: "d \<notin> set s \<Longrightarrow> split_on d s = [s]"
  by (induction s) auto

lemma split_on_append_sep:
  "d \<notin> set u \<Longrightarrow> split_on d (u @ d # v) = u # split_on d v"
  by (induction u) auto

lemma split_on_pieces: "w \<in> set (split_on d s) \<Longrightarrow> d \<notin> set w"
proof (induction s arbitrary: w)
  case Nil
  then show ?case by simp
next
  case (Cons c cs)
  obtain v vs where v: "split_on d cs = v # vs"
    by (cases "split_on d cs") auto
  from Cons.IH have "d \<notin> set v" and "\<And>w. w \<in> set vs \<Longrightarrow> d \<notin> set w"
    by (simp_all add: v)
  with Cons.prems v show ?case by (auto split: if_splits)
qed

lemma join_split_on: "join [d] (split_on d s) = s"
proof (induction s)
  case Nil
  then show ?case by simp
next
  case (Cons c cs)
  obtain v vs where v: "split_on d cs = v # vs"
    by (cases "split_on d cs") auto
  with Cons.IH show ?case by (cases vs) auto
qed

lemma str_len_append [simp]: "str_len (a @ b) = str_len a + str_len b"
  by (simp add: str_len_def)

lemma str_len_Nil [simp]: "str_len [] = 0"
  by (simp add: str_len_def)

lemma utf8_width_bounds: "1 \<le> utf8_width c" "utf8_width c \<le> 4"
  by (simp_all add: utf8_width_def)

lemma length_le_str_len: "length s \<le> str_len s"
proof (induction s)
  case (Cons c s)
  then show ?case using utf8_width_bounds(1)[of c] by (simp add: str_len_def)
qed (simp add: str_len_def)

lemma str_len_ascii: "\<forall>c \<in> set s. c < 0x80 \<Longrightarrow> str_len s = length s"
  by (induction s) (auto simp: str_len_def utf8_width_def)

lemma trim_start_cases: "trim_start s = [] \<or> \<not> is_whitespace (hd (trim_start s))"
  unfolding trim_start_def by (metis hd_dropWhile)

lemma is_ascii_digit_lt: "is_ascii_digit c \<Longrightarrow> c < 0x80"
  by (simp add: is_ascii_digit_def)


subsection \<open>Decimal numbers\<close>

text \<open>The decimal text of \<open>Display for u64\<close>, and the value of a string of digits.\<close>

fun show_nat :: "nat \<Rightarrow> ustring" where
  "show_nat n = (if n < 10 then [48 + n] else show_nat (n div 10) @ [48 + n mod 10])"

declare show_nat.simps [simp del]

definition digits_value :: "ustring \<Rightarrow> nat" where
  "digits_value s = foldl (\<lambda>n d. 10 * n + (d - 48)) 0 s"

text \<open>\<open>str::parse::<u64>\<close>: an optional plus sign, at least one digit, no overflow.\<close>

definition parse_u64 :: "ustring \<Rightarrow> nat option" where
  "parse_u64 s =
     (let ds = (case s of c # cs \<Rightarrow> if c = ch CHR ''+'' then cs else s | [] \<Rightarrow> s) in
      if ds = [] \<or> \<not> list_all is_ascii_digit ds then None
      else if digits_value ds \<le> u64_max then Some (digits_value ds) else None)"

lemma show_nat_digits: "list_all is_ascii_digit (show_nat n)"
proof (induction n rule: show_nat.induct)
  case (1 n)
  then show ?case by (subst show_nat.simps) (auto simp: list_all_iff is_ascii_digit_def)
qed

lemma show_nat_nonempty [simp]: "show_nat n \<noteq> []"
  by (subst show_nat.simps) simp

lemma digits_value_show_nat [simp]: "digits_value (show_nat n) = n"
proof (induction n rule: show_nat.induct)
  case (1 n)
  then show ?case by (subst show_nat.simps) (auto simp: digits_value_def)
qed

lemma show_nat_inject [simp]: "show_nat m = show_nat n \<longleftrightarrow> m = n"
  by (metis digits_value_show_nat)

lemma show_nat_char: "c \<in> set (show_nat n) \<Longrightarrow> is_ascii_digit c"
  using show_nat_digits[of n] by (simp add: list_all_iff)

lemma parse_u64_show_nat: "n \<le> u64_max \<Longrightarrow> parse_u64 (show_nat n) = Some n"
proof -
  assume n: "n \<le> u64_max"
  obtain c cs where s: "show_nat n = c # cs"
    by (cases "show_nat n") auto
  then have "is_ascii_digit c"
    using show_nat_char[of c n] by simp
  then have "c \<noteq> 43"
    by (simp add: is_ascii_digit_def)
  then show ?thesis
    using n show_nat_digits[of n] s digits_value_show_nat[of n]
    by (simp add: parse_u64_def)
qed


section \<open>Paths\<close>

text \<open>
  A \<open>Path\<close> (on Unix) is its text; \<open>path_join\<close> is \<open>Path::join\<close>.
\<close>

definition is_absolute :: "ustring \<Rightarrow> bool" where
  "is_absolute p \<longleftrightarrow> p \<noteq> [] \<and> hd p = ch CHR ''/''"

definition path_join :: "ustring \<Rightarrow> ustring \<Rightarrow> ustring" where
  "path_join base rel =
     (if is_absolute rel \<or> base = [] then rel else if last base = ch CHR ''/'' then base @ rel
      else base @ [ch CHR ''/''] @ rel)"

section \<open>Counting list elements under update\<close>

definition count_if :: "('a \<Rightarrow> bool) \<Rightarrow> 'a list \<Rightarrow> nat" where
  "count_if p xs = length (filter p xs)"

lemma count_if_simps [simp]:
  "count_if p [] = 0"
  "count_if p (x # xs) = (if p x then Suc (count_if p xs) else count_if p xs)"
  by (simp_all add: count_if_def)

lemma count_if_update:
  "i < length xs \<Longrightarrow>
     count_if p (xs[i := x]) + (if p (xs ! i) then 1 else 0) = count_if p xs + (if p x then 1 else 0)"
proof (induction xs arbitrary: i)
  case (Cons y ys)
  then show ?case by (cases i) auto
qed simp

lemma count_if_pos: "i < length xs \<Longrightarrow> p (xs ! i) \<Longrightarrow> 0 < count_if p xs"
  unfolding count_if_def using nth_mem[of i xs] by (auto simp: filter_empty_conv)

lemma count_if_zero: "\<forall>x \<in> set xs. \<not> p x \<Longrightarrow> count_if p xs = 0"
  by (simp add: count_if_def)


section \<open>Hash maps\<close>

text \<open>
  A \<open>HashMap\<close> is an association list whose keys are distinct (\<open>hm_ok\<close>). Only operations whose
  result does not depend on the iteration order are used: \<open>get\<close>, \<open>insert\<close>, \<open>remove\<close>,
  \<open>retain\<close> with a test per entry, and \<open>len\<close>.
\<close>

type_synonym ('k, 'v) hmap = "('k \<times> 'v) list"

definition hm_ok :: "('k, 'v) hmap \<Rightarrow> bool" where
  "hm_ok m \<longleftrightarrow> distinct (map fst m)"

abbreviation hm_get :: "('k, 'v) hmap \<Rightarrow> 'k \<Rightarrow> 'v option" where
  "hm_get \<equiv> map_of"

definition hm_insert :: "'k \<Rightarrow> 'v \<Rightarrow> ('k, 'v) hmap \<Rightarrow> ('k, 'v) hmap" where
  "hm_insert k v m = AList.update k v m"

definition hm_remove :: "'k \<Rightarrow> ('k, 'v) hmap \<Rightarrow> ('k, 'v) hmap" where
  "hm_remove k m = filter (\<lambda>e. fst e \<noteq> k) m"

definition hm_retain :: "('k \<Rightarrow> 'v \<Rightarrow> bool) \<Rightarrow> ('k, 'v) hmap \<Rightarrow> ('k, 'v) hmap" where
  "hm_retain p m = filter (\<lambda>(k, v). p k v) m"

lemma hm_ok_Nil [simp]: "hm_ok []"
  by (simp add: hm_ok_def)

lemma hm_get_insert [hmap_simps]: "hm_get (hm_insert k v m) = (hm_get m)(k \<mapsto> v)"
  by (simp add: hm_insert_def update_conv')

lemma hm_ok_insert [hmap_simps]: "hm_ok m \<Longrightarrow> hm_ok (hm_insert k v m)"
  by (simp add: hm_ok_def hm_insert_def distinct_update)

lemma hm_get_remove [hmap_simps]: "hm_get (hm_remove k m) = (hm_get m)(k := None)"
proof
  fix k'
  show "hm_get (hm_remove k m) k' = ((hm_get m)(k := None)) k'"
    by (induction m) (auto simp: hm_remove_def)
qed

lemma hm_ok_remove [hmap_simps]: "hm_ok m \<Longrightarrow> hm_ok (hm_remove k m)"
  by (simp add: hm_ok_def hm_remove_def distinct_map_filter)

lemma hm_ok_retain [hmap_simps]: "hm_ok m \<Longrightarrow> hm_ok (hm_retain p m)"
  by (simp add: hm_ok_def hm_retain_def distinct_map_filter)

lemma hm_get_retain [hmap_simps]:
  "hm_ok m \<Longrightarrow> hm_get (hm_retain p m) k =
     (case hm_get m k of None \<Rightarrow> None | Some v \<Rightarrow> if p k v then Some v else None)"
proof (induction m)
  case (Cons e m)
  then show ?case
    by (cases e) (auto simp: hm_ok_def hm_retain_def map_of_eq_None_iff image_iff
        split: option.splits)
qed (simp add: hm_retain_def)

lemma length_hm_insert:
  "length (hm_insert k v m) = (if hm_get m k = None then Suc (length m) else length m)"
  unfolding hm_insert_def by (induction m) auto

lemma length_hm_remove: "length (hm_remove k m) \<le> length m"
  by (simp add: hm_remove_def)

lemma length_hm_remove_present:
  "hm_get m k = Some v \<Longrightarrow> length (hm_remove k m) < length m"
proof -
  assume "hm_get m k = Some v"
  then have "(k, v) \<in> set m" by (rule map_of_SomeD)
  then show ?thesis
    unfolding hm_remove_def by (rule length_filter_less) simp
qed

lemma length_hm_retain: "length (hm_retain p m) \<le> length m"
  by (simp add: hm_retain_def)

lemma hm_remove_set: "set (hm_remove k m) = {e \<in> set m. fst e \<noteq> k}"
  by (auto simp: hm_remove_def)

text \<open>\<open>get_mut\<close>: the entry changed in place.\<close>

definition hm_modify :: "'k \<Rightarrow> ('v \<Rightarrow> 'v) \<Rightarrow> ('k, 'v) hmap \<Rightarrow> ('k, 'v) hmap" where
  "hm_modify k f m = map (\<lambda>(k', v). (k', if k' = k then f v else v)) m"

lemma hm_modify_keys [simp]: "map fst (hm_modify k f m) = map fst m"
  by (induction m) (auto simp: hm_modify_def)

lemma length_hm_modify [simp]: "length (hm_modify k f m) = length m"
  by (simp add: hm_modify_def)

lemma hm_ok_modify [hmap_simps]: "hm_ok (hm_modify k f m) = hm_ok m"
  by (simp add: hm_ok_def)

lemma hm_get_modify [hmap_simps]: "hm_get (hm_modify k f m) k' = (if k' = k then map_option f (hm_get m k) else hm_get m k')"
  by (induction m) (auto simp: hm_modify_def)

end
