(* ===== verification/Interfaces.thy ===== *)
theory Interfaces
  imports Prelude
begin

text \<open>
  The contracts components rely on, as locales. Each is interpreted on the model's own
  definitions in the theory of the component that provides it; the lemmas proved here once reach
  the components through those interpretations.

  \<^item> \<open>state_machine\<close>: an operation set that keeps an invariant keeps it along every run
    (circuit breaker and its interleavings, breaker registry, peer ingress, host ledger, held requests, accept loop, grant store,
    network decider, call table, served folder).
  \<^item> \<open>time_window\<close>: a log pruned from the front by a test on time stamps (the breaker's sliding
    window and the ingress rate windows).
  \<^item> \<open>ranked_combine\<close>: escalation of verdicts by rank (permission decisions and gate decisions).
  \<^item> \<open>codec\<close>: a canonical text form (peer addresses, peer modes).
\<close>


section \<open>State machines with an invariant\<close>

locale state_machine =
  fixes step :: "'s \<Rightarrow> 'e \<Rightarrow> 's"
    and inv :: "'s \<Rightarrow> bool"
  assumes step_inv: "inv s \<Longrightarrow> inv (step s e)"
begin

lemma run_inv: "inv s \<Longrightarrow> inv (foldl step s es)"
  by (induction es arbitrary: s) (auto intro: step_inv)

lemma run_inv_prefix: "inv s \<Longrightarrow> inv (foldl step s (take n es))"
  by (rule run_inv)

end


section \<open>Logs pruned by age\<close>

text \<open>
  \<open>expired now t\<close> tells that a stamp \<open>t\<close> has left the window at time \<open>now\<close>. Older stamps expire
  first, so dropping expired entries from the front of a sorted log drops all of them.
\<close>

locale time_window =
  fixes expired :: "'now \<Rightarrow> nat \<Rightarrow> bool"
  assumes expired_older: "t \<le> t' \<Longrightarrow> expired now t' \<Longrightarrow> expired now t"
begin

lemma prune_is_filter:
  "sorted (map stamp q) \<Longrightarrow>
     dropWhile (\<lambda>e. expired now (stamp e)) q = filter (\<lambda>e. \<not> expired now (stamp e)) q"
proof (induction q)
  case (Cons e q)
  show ?case
  proof (cases "expired now (stamp e)")
    case True
    with Cons show ?thesis by simp
  next
    case False
    have "\<not> expired now (stamp x)" if "x \<in> set q" for x
      using Cons.prems that False expired_older[of "stamp e" "stamp x" now] by auto
    with False show ?thesis by simp
  qed
qed simp

lemma pruned_live:
  assumes "sorted (map stamp q)" "e \<in> set (dropWhile (\<lambda>e. expired now (stamp e)) q)"
  shows "\<not> expired now (stamp e)"
proof -
  have "e \<in> set (filter (\<lambda>e. \<not> expired now (stamp e)) q)"
    using assms by (simp only: prune_is_filter)
  then show ?thesis by simp
qed

lemma live_kept:
  assumes "sorted (map stamp q)" "e \<in> set q" "\<not> expired now (stamp e)"
  shows "e \<in> set (dropWhile (\<lambda>e. expired now (stamp e)) q)"
proof -
  have "e \<in> set (filter (\<lambda>e. \<not> expired now (stamp e)) q)"
    using assms(2,3) by simp
  then show ?thesis by (simp only: prune_is_filter[OF assms(1)])
qed

lemma prune_sorted:
  "sorted (map stamp q) \<Longrightarrow> sorted (map stamp (dropWhile (\<lambda>e. expired now (stamp e)) q))"
proof (induction q)
  case (Cons e q)
  then show ?case by (cases "expired now (stamp e)") auto
qed simp

end


section \<open>Escalating verdicts\<close>

text \<open>
  Two optional verdicts are combined by keeping the higher rank, the first one on a tie;
  \<open>None\<close> is no verdict.
\<close>

locale ranked_combine =
  fixes rank :: "'d \<Rightarrow> nat"
    and comb :: "'d option \<Rightarrow> 'd option \<Rightarrow> 'd option"
  assumes comb_None_left: "comb None y = y"
    and comb_None_right: "comb x None = x"
    and comb_Some: "comb (Some a) (Some b) = Some (if rank b \<le> rank a then a else b)"
begin

definition orank :: "'d option \<Rightarrow> nat" where
  "orank x = (case x of None \<Rightarrow> 0 | Some a \<Rightarrow> Suc (rank a))"

lemma comb_cases: "comb x y = x \<or> comb x y = y"
  by (cases x; cases y) (simp_all add: comb_None_left comb_None_right comb_Some)

lemma orank_comb: "orank (comb x y) = max (orank x) (orank y)"
  by (cases x; cases y)
    (simp_all add: orank_def comb_None_left comb_None_right comb_Some max_def)

lemma comb_assoc: "comb (comb x y) z = comb x (comb y z)"
  by (cases x; cases y; cases z)
    (simp_all add: comb_None_left comb_None_right comb_Some)

lemma orank_foldl: "orank (foldl comb d ds) = fold max (map orank ds) (orank d)"
proof (induction ds arbitrary: d)
  case (Cons x ds)
  have "orank (foldl comb d (x # ds)) = fold max (map orank ds) (orank (comb d x))"
    using Cons.IH by simp
  also have "orank (comb d x) = max (orank x) (orank d)"
    by (simp add: orank_comb max.commute)
  finally show ?case by simp
qed simp

lemma orank_foldl_start: "orank d \<le> orank (foldl comb d ds)"
proof (induction ds arbitrary: d)
  case (Cons x ds)
  have "orank d \<le> orank (comb d x)" by (simp add: orank_comb)
  also have "\<dots> \<le> orank (foldl comb (comb d x) ds)" by (rule Cons.IH)
  finally show ?case by simp
qed simp

lemma orank_foldl_member: "x \<in> set ds \<Longrightarrow> orank x \<le> orank (foldl comb d ds)"
proof (induction ds arbitrary: d)
  case (Cons y ds)
  show ?case
  proof (cases "x = y")
    case True
    have "orank y \<le> orank (comb d y)" by (simp add: orank_comb)
    also have "\<dots> \<le> orank (foldl comb (comb d y) ds)" by (rule orank_foldl_start)
    finally show ?thesis using True by simp
  next
    case False
    with Cons show ?thesis by simp
  qed
qed simp

lemma foldl_result: "foldl comb d ds = d \<or> foldl comb d ds \<in> set ds"
proof (induction ds arbitrary: d)
  case (Cons x ds)
  from Cons.IH[of "comb d x"] comb_cases[of d x] show ?case by auto
qed simp

lemma foldl_Some: "d \<noteq> None \<Longrightarrow> foldl comb d ds \<noteq> None"
proof (induction ds arbitrary: d)
  case (Cons x ds)
  then have "comb d x \<noteq> None"
    by (cases d; cases x) (simp_all add: comb_None_left comb_None_right comb_Some)
  then show ?case using Cons.IH by simp
qed simp

lemma foldl_None_iff: "foldl comb d ds = None \<longleftrightarrow> d = None \<and> set ds \<subseteq> {None}"
proof (induction ds arbitrary: d)
  case (Cons x ds)
  have "comb d x = None \<longleftrightarrow> d = None \<and> x = None"
    by (cases d; cases x) (simp_all add: comb_None_left comb_None_right comb_Some)
  then show ?case using Cons.IH by auto
qed simp

end


section \<open>Canonical text forms\<close>

text \<open>
  \<open>dec\<close> accepts exactly the texts \<open>enc\<close> writes for valid values, so a value has one spelling.
\<close>

locale codec =
  fixes enc :: "'a \<Rightarrow> 'w"
    and dec :: "'w \<Rightarrow> 'a option"
    and valid :: "'a \<Rightarrow> bool"
  assumes dec_enc: "valid a \<Longrightarrow> dec (enc a) = Some a"
    and enc_dec: "dec w = Some a \<Longrightarrow> valid a \<and> enc a = w"
begin

lemma dec_iff: "dec w = Some a \<longleftrightarrow> valid a \<and> w = enc a"
  using dec_enc enc_dec by metis

lemma enc_inj: "valid a \<Longrightarrow> valid b \<Longrightarrow> enc a = enc b \<longleftrightarrow> a = b"
  using dec_enc by (metis option.inject)

lemma one_spelling: "dec w = Some a \<Longrightarrow> dec w' = Some a \<Longrightarrow> w = w'"
  using enc_dec by metis

end

end
