(* ===== verification/Float64.thy ===== *)
theory Float64
  imports Complex_Main
begin

text \<open>
  The part of IEEE 754 binary64 the sources use: comparison \<open>>=\<close> on any values, and the quotient
  of two small counters converted by \<open>as f64\<close> (exact below $2^{53}$), rounded to 53 significant
  bits, ties to even. Finite values are rationals.
\<close>

datatype f64 = Fin rat | PInf | NInf | NaN

fun f64_ge :: "f64 \<Rightarrow> f64 \<Rightarrow> bool" where
  "f64_ge NaN _ = False"
| "f64_ge _ NaN = False"
| "f64_ge (Fin a) (Fin b) = (b \<le> a)"
| "f64_ge PInf _ = True"
| "f64_ge _ PInf = False"
| "f64_ge _ NInf = True"
| "f64_ge NInf _ = False"

text \<open>The least scale \<open>k\<close> that brings \<open>a / b\<close> to at least $2^{52}$: the 53 bits of the significand.\<close>

function find_exp :: "nat \<Rightarrow> nat \<Rightarrow> nat \<Rightarrow> nat" where
  "find_exp a b k = (if a = 0 \<or> b * 2 ^ 52 \<le> a * 2 ^ k then k else find_exp a b (Suc k))"
  by pat_completeness auto
termination
proof (relation "measure (\<lambda>(a, b, k). b * 2 ^ 52 - a * 2 ^ k)")
  show "wf (measure (\<lambda>(a, b, k). b * 2 ^ 52 - a * 2 ^ k))" by simp
next
  fix a b k :: nat
  assume g: "\<not> (a = 0 \<or> b * 2 ^ 52 \<le> a * 2 ^ k)"
  then have "a * 2 ^ k < a * 2 ^ Suc k" by simp
  with g show "((a, b, Suc k), a, b, k) \<in> measure (\<lambda>(a, b, k). b * 2 ^ 52 - a * 2 ^ k)"
    by (simp only: in_measure split_conv) linarith
qed

declare find_exp.simps [simp del]

definition round_half_even :: "nat \<Rightarrow> nat \<Rightarrow> nat" where
  "round_half_even n d =
     (let q = n div d; r = n mod d in
      if d < 2 * r \<or> 2 * r = d \<and> odd q then q + 1 else q)"

text \<open>\<open>a as f64 / b as f64\<close> for \<open>0 < b\<close> and \<open>a / b\<close> below $2^{53}$.\<close>

definition f64_div :: "nat \<Rightarrow> nat \<Rightarrow> f64" where
  "f64_div a b =
     (if a = 0 then Fin 0
      else let k = find_exp a b 0 in Fin (of_nat (round_half_even (a * 2 ^ k) b) / 2 ^ k))"

lemma find_exp_reached: "a \<noteq> 0 \<Longrightarrow> b * 2 ^ 52 \<le> a * 2 ^ find_exp a b k"
proof (induction a b k rule: find_exp.induct)
  case (1 a b k)
  then show ?case by (subst find_exp.simps) auto
qed

lemma round_half_even_ge: "0 < d \<Longrightarrow> m * d \<le> n \<Longrightarrow> m \<le> round_half_even n d"
proof -
  assume "0 < d" "m * d \<le> n"
  then have "m \<le> n div d" by (simp add: less_eq_div_iff_mult_less_eq)
  then show ?thesis by (simp add: round_half_even_def Let_def)
qed

lemma round_half_even_le: "2 * d * round_half_even n d \<le> 2 * n + d"
proof -
  define q r where "q = n div d" and "r = n mod d"
  have n: "n = d * q + r" by (simp add: q_def r_def)
  have "round_half_even n d = (if d < 2 * r \<or> 2 * r = d \<and> odd q then q + 1 else q)"
    by (simp add: round_half_even_def q_def r_def Let_def)
  then show ?thesis by (auto simp: n algebra_simps)
qed

text \<open>Against the threshold one half the rounded quotient decides like the exact one.\<close>

theorem f64_div_ge_half:
  assumes "0 < b" "b \<le> 10000" "a \<le> b"
  shows "f64_ge (f64_div a b) (Fin (1 / 2)) \<longleftrightarrow> b \<le> 2 * a"
proof (cases "a = 0")
  case True
  then show ?thesis using assms by (simp add: f64_div_def)
next
  case False
  define k where "k = find_exp a b 0"
  define m where "m = round_half_even (a * 2 ^ k) b"
  have k: "b * 2 ^ 52 \<le> a * 2 ^ k"
    unfolding k_def using False by (rule find_exp_reached)
  have "\<not> k < 52"
  proof
    assume "k < 52"
    then have "(2::nat) ^ k < 2 ^ 52" by (rule power_strict_increasing) simp
    then have "a * 2 ^ k < b * 2 ^ 52"
      using assms(1,3) False by (metis bot_nat_0.not_eq_extremum mult_le_mono1 mult_less_mono2
          order_le_less_trans mult_strict_left_mono)
    with k show False by simp
  qed
  then obtain j where j: "k = Suc j" by (cases k) auto
  have quot: "f64_div a b = Fin (of_nat m / 2 ^ k)"
    using False by (simp add: f64_div_def k_def m_def Let_def)
  have half: "f64_ge (f64_div a b) (Fin (1 / 2)) \<longleftrightarrow> 2 ^ k \<le> 2 * m"
  proof -
    have "f64_ge (f64_div a b) (Fin (1 / 2)) \<longleftrightarrow> (2::rat) ^ k \<le> 2 * of_nat m"
      by (simp add: quot field_simps)
    also have "\<dots> \<longleftrightarrow> (of_nat (2 ^ k) :: rat) \<le> of_nat (2 * m)" by simp
    also have "\<dots> \<longleftrightarrow> 2 ^ k \<le> 2 * m" by (rule of_nat_le_iff)
    finally show ?thesis .
  qed
  show ?thesis
  proof (cases "b \<le> 2 * a")
    case True
    then have "b * 2 ^ j \<le> 2 * a * 2 ^ j" by (rule mult_le_mono1)
    then have "2 ^ j * b \<le> a * 2 ^ k" by (simp add: j ac_simps)
    then have "2 ^ j \<le> m" unfolding m_def by (rule round_half_even_ge[OF assms(1)])
    then show ?thesis using True half by (simp add: j)
  next
    case small: False
    have "b < 2 ^ k"
    proof -
      have "b < (2::nat) ^ 52" using assms(2) by simp
      also have "\<dots> \<le> 2 ^ k" using \<open>\<not> k < 52\<close> by (intro power_increasing) auto
      finally show ?thesis .
    qed
    have "2 * b * m \<le> 2 * (a * 2 ^ k) + b"
      unfolding m_def by (rule round_half_even_le)
    also have "\<dots> < b * 2 ^ k"
    proof -
      have "2 * a + 1 \<le> b" using small by simp
      then have "(2 * a + 1) * 2 ^ k \<le> b * 2 ^ k" by (rule mult_le_mono1)
      then show ?thesis using \<open>b < 2 ^ k\<close> by (simp add: algebra_simps)
    qed
    finally have "b * (2 * m) < b * 2 ^ k" by (simp add: ac_simps)
    then have "2 * m < 2 ^ k" by simp
    then show ?thesis using small half by simp
  qed
qed

end
