(* ===== verification/Breaker_Window.thy ===== *)
theory Breaker_Window
  imports Interfaces Float64
begin

text \<open>
  The sliding window of the circuit breaker (\<^verbatim>\<open>fuigo-circuit-breaker/src/window.rs\<close>): a bounded
  queue of time-stamped samples with an incrementally kept failure count. Instants and durations
  are nanoseconds on the monotonic clock. The main facts are that the count never drifts from the
  queue (\<open>sw_ok\<close>), so its decrements never underflow, that the queue is bounded, and that eviction
  keeps exactly the live samples.
\<close>

definition MAX_WINDOW_ENTRIES :: nat where
  "MAX_WINDOW_ENTRIES = 10000"

record sliding_window =
  sw_entries :: "(nat \<times> bool) list"
  sw_failures :: nat

definition sw_new :: sliding_window where
  "sw_new = \<lparr>sw_entries = [], sw_failures = 0\<rparr>"

definition sw_pop_front :: "sliding_window \<Rightarrow> sliding_window" where
  "sw_pop_front w = (case sw_entries w of
       [] \<Rightarrow> w
     | (_, was_failure) # rest \<Rightarrow>
         \<lparr>sw_entries = rest, sw_failures = (if was_failure then sw_failures w - 1 else sw_failures w)\<rparr>)"

definition sw_push :: "bool \<Rightarrow> nat \<Rightarrow> sliding_window \<Rightarrow> sliding_window" where
  "sw_push is_failure ts w =
     (let w1 = (if MAX_WINDOW_ENTRIES \<le> length (sw_entries w) then sw_pop_front w else w) in
      \<lparr>sw_entries = sw_entries w1 @ [(ts, is_failure)],
       sw_failures = (if is_failure then sw_failures w1 + 1 else sw_failures w1)\<rparr>)"

text \<open>The \<open>while let\<close> loop of \<open>evict\<close>: entries before the cutoff leave from the front.\<close>

fun evict_loop :: "nat \<Rightarrow> (nat \<times> bool) list \<Rightarrow> nat \<Rightarrow> sliding_window" where
  "evict_loop cutoff [] failures = \<lparr>sw_entries = [], sw_failures = failures\<rparr>"
| "evict_loop cutoff ((ts, was_failure) # rest) failures =
     (if ts < cutoff then evict_loop cutoff rest (if was_failure then failures - 1 else failures)
      else \<lparr>sw_entries = (ts, was_failure) # rest, sw_failures = failures\<rparr>)"

text \<open>
  \<open>now.checked_sub(window)\<close> has no result before the clock's origin; nothing is evicted then.
\<close>

definition checked_sub :: "nat \<Rightarrow> nat \<Rightarrow> nat option" where
  "checked_sub a b = (if b \<le> a then Some (a - b) else None)"

definition sw_evict :: "nat \<Rightarrow> nat \<Rightarrow> sliding_window \<Rightarrow> sliding_window" where
  "sw_evict window now w = (case checked_sub now window of
       None \<Rightarrow> w
     | Some cutoff \<Rightarrow> evict_loop cutoff (sw_entries w) (sw_failures w))"

definition sw_error_rate :: "sliding_window \<Rightarrow> f64" where
  "sw_error_rate w =
     (if sw_entries w = [] then Fin 0 else f64_div (sw_failures w) (length (sw_entries w)))"

definition sw_sample_count :: "sliding_window \<Rightarrow> nat" where
  "sw_sample_count w = length (sw_entries w)"

definition sw_clear :: "sliding_window \<Rightarrow> sliding_window" where
  "sw_clear w = \<lparr>sw_entries = [], sw_failures = 0\<rparr>"


section \<open>The counter agrees with the queue\<close>

definition failing :: "(nat \<times> bool) list \<Rightarrow> nat" where
  "failing es = length (filter snd es)"

definition sw_ok :: "sliding_window \<Rightarrow> bool" where
  "sw_ok w \<longleftrightarrow> sw_failures w = failing (sw_entries w) \<and> length (sw_entries w) \<le> MAX_WINDOW_ENTRIES"

lemma failing_simps [simp]:
  "failing [] = 0"
  "failing ((t, f) # es) = (if f then Suc (failing es) else failing es)"
  "failing (es @ fs) = failing es + failing fs"
  by (simp_all add: failing_def)

lemma failing_le: "failing es \<le> length es"
  by (simp add: failing_def)

lemma sw_ok_new [simp]: "sw_ok sw_new"
  by (simp add: sw_ok_def sw_new_def)

lemma sw_ok_clear [simp]: "sw_ok (sw_clear w)"
  by (simp add: sw_ok_def sw_clear_def)

lemma sw_ok_pop_front: "sw_ok w \<Longrightarrow> sw_ok (sw_pop_front w)"
  by (auto simp: sw_ok_def sw_pop_front_def split: list.splits)

lemma sw_ok_push: "sw_ok w \<Longrightarrow> sw_ok (sw_push f t w)"
proof -
  assume ok: "sw_ok w"
  define w1 where "w1 = (if MAX_WINDOW_ENTRIES \<le> length (sw_entries w) then sw_pop_front w else w)"
  have "sw_ok w1"
    using ok sw_ok_pop_front by (simp add: w1_def)
  moreover have "length (sw_entries w1) < MAX_WINDOW_ENTRIES"
  proof (cases "sw_entries w")
    case Nil
    then show ?thesis by (simp add: w1_def MAX_WINDOW_ENTRIES_def)
  next
    case (Cons e es)
    then show ?thesis
      using ok by (cases e) (auto simp: w1_def sw_ok_def sw_pop_front_def)
  qed
  ultimately show ?thesis
    by (simp add: sw_push_def sw_ok_def Let_def flip: w1_def)
qed

lemma evict_loop_eq:
  "evict_loop c es (failing es) =
     \<lparr>sw_entries = dropWhile (\<lambda>e. fst e < c) es, sw_failures = failing (dropWhile (\<lambda>e. fst e < c) es)\<rparr>"
  by (induction es) auto

lemma sw_ok_evict: "sw_ok w \<Longrightarrow> sw_ok (sw_evict d now w)"
  unfolding sw_ok_def sw_evict_def
  by (auto simp: evict_loop_eq split: option.splits intro: order_trans[OF length_dropWhile_le])


section \<open>Eviction keeps the live samples\<close>

definition sample_expired :: "nat option \<Rightarrow> nat \<Rightarrow> bool" where
  "sample_expired cutoff t = (case cutoff of None \<Rightarrow> False | Some c \<Rightarrow> t < c)"

interpretation sw_window: time_window sample_expired
  by unfold_locales (auto simp: sample_expired_def split: option.splits)

lemma sw_evict_entries:
  "sw_ok w \<Longrightarrow> sw_entries (sw_evict d now w) =
     dropWhile (\<lambda>e. sample_expired (checked_sub now d) (fst e)) (sw_entries w)"
proof (cases "checked_sub now d")
  case None
  have "dropWhile (\<lambda>e. False) es = es" for es :: "(nat \<times> bool) list"
    by (induction es) auto
  then show ?thesis using None by (simp add: sw_evict_def sample_expired_def)
next
  case (Some c)
  assume "sw_ok w"
  then show ?thesis
    using Some by (simp add: sw_evict_def sw_ok_def evict_loop_eq sample_expired_def)
qed

lemma sw_evict_live:
  assumes "sw_ok w" "sorted (map fst (sw_entries w))"
  shows "sw_entries (sw_evict d now w) = filter (\<lambda>e. now \<le> fst e + d) (sw_entries w)"
proof -
  have "sw_entries (sw_evict d now w) =
      filter (\<lambda>e. \<not> sample_expired (checked_sub now d) (fst e)) (sw_entries w)"
    using sw_evict_entries[OF assms(1)] sw_window.prune_is_filter[OF assms(2)] by simp
  also have "\<dots> = filter (\<lambda>e. now \<le> fst e + d) (sw_entries w)"
    by (rule filter_cong) (auto simp: sample_expired_def checked_sub_def)
  finally show ?thesis .
qed

lemma sw_push_sorted:
  assumes "sorted (map fst (sw_entries w))" "\<forall>e \<in> set (sw_entries w). fst e \<le> t"
  shows "sorted (map fst (sw_entries (sw_push f t w)))"
proof -
  define w1 where "w1 = (if MAX_WINDOW_ENTRIES \<le> length (sw_entries w) then sw_pop_front w else w)"
  have "sorted (map fst (sw_entries w1)) \<and> set (sw_entries w1) \<subseteq> set (sw_entries w)"
    using assms(1) by (auto simp: w1_def sw_pop_front_def split: list.splits)
  then have "sorted (map fst (sw_entries w1 @ [(t, f)]))"
    using assms(2) by (auto simp: sorted_append)
  then show ?thesis
    by (simp add: sw_push_def Let_def flip: w1_def)
qed

text \<open>The error rate is the share of failures; against the threshold one half it is exact.\<close>

lemma sw_error_rate_half:
  assumes "sw_ok w"
  shows "f64_ge (sw_error_rate w) (Fin (1 / 2)) \<longleftrightarrow>
    sw_entries w \<noteq> [] \<and> sw_sample_count w \<le> 2 * failing (sw_entries w)"
proof (cases "sw_entries w = []")
  case True
  then show ?thesis by (simp add: sw_error_rate_def)
next
  case False
  have "length (sw_entries w) \<le> 10000" "sw_failures w = failing (sw_entries w)"
    using assms by (simp_all add: sw_ok_def MAX_WINDOW_ENTRIES_def)
  moreover have "failing (sw_entries w) \<le> length (sw_entries w)" by (rule failing_le)
  moreover have "0 < length (sw_entries w)" using False by simp
  ultimately show ?thesis
    using False f64_div_ge_half by (simp add: sw_error_rate_def sw_sample_count_def)
qed

end
