(* ===== verification/Breaker.thy ===== *)
theory Breaker
  imports Breaker_Window
begin

text \<open>
  The circuit breaker state machine (\<^verbatim>\<open>fuigo-circuit-breaker/src/breaker.rs\<close>, \<^verbatim>\<open>state.rs\<close>,
  \<^verbatim>\<open>config.rs\<close>, \<^verbatim>\<open>observer.rs\<close>). The shared atomics are the fields of one record; a method is a
  function from the record to the new record and the result. A method that reads the clock more
  than once takes its successive readings as \<open>clk 0\<close>, \<open>clk 1\<close>. Calls to the observer (user code)
  are appended to a log. Here each method runs to its end before the next one starts; the
  interleaving of their atomic actions is the subject of the theory \<^verbatim>\<open>Breaker_Race\<close>.
\<close>

section \<open>States, outcomes, configuration\<close>

datatype breaker_state = Closed | Open | HalfOpen

datatype outcome = Success | Failure

record breaker_open =
  retry_after :: nat

fun as_u8 :: "breaker_state \<Rightarrow> nat" where
  "as_u8 Closed = 0"
| "as_u8 Open = 1"
| "as_u8 HalfOpen = 2"

text \<open>An invalid byte reads as \<open>Closed\<close> (the debug assertion is off in release builds).\<close>

definition from_u8 :: "nat \<Rightarrow> breaker_state" where
  "from_u8 v = (if v = 0 then Closed else if v = 1 then Open else if v = 2 then HalfOpen else Closed)"

lemma from_as_u8 [simp]: "from_u8 (as_u8 s) = s"
  by (cases s) (simp_all add: from_u8_def)

lemma as_u8_inject [simp]: "as_u8 a = as_u8 b \<longleftrightarrow> a = b"
  by (metis from_as_u8)

record breaker_config =
  window_duration :: nat
  min_samples :: nat
  error_rate_threshold :: f64
  open_duration :: nat
  half_open_max_probes :: nat
  failure_codes :: "nat set"
  enabled :: bool

abbreviation secs :: "nat \<Rightarrow> nat" where "secs n \<equiv> n * 10 ^ 9"
abbreviation millis :: "nat \<Rightarrow> nat" where "millis n \<equiv> n * 10 ^ 6"

definition default_failure_codes :: "nat set" where
  "default_failure_codes = {429, 500, 502, 503, 504}"

definition server_config :: breaker_config where
  "server_config = \<lparr>window_duration = secs 60, min_samples = 10, error_rate_threshold = Fin (1 / 2),
     open_duration = secs 10, half_open_max_probes = 1, failure_codes = default_failure_codes,
     enabled = True\<rparr>"

definition client_config :: breaker_config where
  "client_config = \<lparr>window_duration = secs 60, min_samples = 5, error_rate_threshold = Fin (1 / 2),
     open_duration = secs 60, half_open_max_probes = 1, failure_codes = {401}, enabled = True\<rparr>"

definition is_failure_status :: "breaker_config \<Rightarrow> nat \<Rightarrow> bool" where
  "is_failure_status c status \<longleftrightarrow> status \<in> failure_codes c"

text \<open>
  \<open>parse_failure_codes\<close>: the comma-separated entries that parse as \<open>u16\<close>; the rest are dropped.
\<close>

definition parse_u16 :: "ustring \<Rightarrow> nat option" where
  "parse_u16 s = (case parse_u64 s of Some n \<Rightarrow> if n < 65536 then Some n else None | None \<Rightarrow> None)"

definition parse_failure_codes :: "ustring \<Rightarrow> nat set" where
  "parse_failure_codes s =
     set (List.map_filter (\<lambda>c. parse_u16 (trim c)) (split_on (ch CHR '','') s))"

definition lookup_or :: "(ustring \<Rightarrow> 'a option) \<Rightarrow> (ustring \<Rightarrow> ustring option) \<Rightarrow> ustring \<Rightarrow> 'a \<Rightarrow> 'a" where
  "lookup_or parse get key dflt = (case get key of
       Some v \<Rightarrow> (case parse v of Some x \<Rightarrow> x | None \<Rightarrow> dflt)
     | None \<Rightarrow> dflt)"

definition parse_bool :: "ustring \<Rightarrow> bool option" where
  "parse_bool s = (if s = str ''true'' then Some True else if s = str ''false'' then Some False else None)"

text \<open>
  \<open>get\<close> is the environment lookup. The decimal-to-binary64 conversion of the standard library is
  the argument \<open>parse_f64\<close>.
\<close>

definition from_lookup_with_prefix ::
  "(ustring \<Rightarrow> f64 option) \<Rightarrow> ustring \<Rightarrow> (ustring \<Rightarrow> ustring option) \<Rightarrow> breaker_config" where
  "from_lookup_with_prefix parse_f64 prefix get =
     (let key = (\<lambda>k. prefix @ str k);
          codes = (case get (key ''FAILURE_CODES'') of
              Some raw \<Rightarrow> (let cs = parse_failure_codes raw in
                          if cs = {} then default_failure_codes else cs)
            | None \<Rightarrow> default_failure_codes)
      in \<lparr>window_duration = secs (lookup_or parse_u64 get (key ''WINDOW_SECS'') 60),
          min_samples = lookup_or parse_u64 get (key ''MIN_SAMPLES'') 10,
          error_rate_threshold = lookup_or parse_f64 get (key ''ERROR_RATE_THRESHOLD'') (Fin (1 / 2)),
          open_duration = secs (lookup_or parse_u64 get (key ''OPEN_DURATION_SECS'') 10),
          half_open_max_probes = max (lookup_or parse_u64 get (key ''HALF_OPEN_MAX_PROBES'') 1) 1,
          failure_codes = codes,
          enabled = lookup_or parse_bool get (key ''ENABLED'') True\<rparr>)"


section \<open>The breaker\<close>

datatype cb_event =
    StateChange breaker_state breaker_state string
  | ProbeAdmission bool
  | OutcomeSeen outcome breaker_state

text \<open>\<open>cb_observer\<close> is the installed observer, by identity; \<open>None\<close> in the log is the no-op observer.\<close>

record breaker =
  cb_config :: breaker_config
  cb_state :: nat
  cb_baseline :: nat
  cb_opened_at_millis :: nat
  cb_half_open_probes :: nat
  cb_probe_claimed_at_millis :: nat
  cb_is_open_fast :: bool
  cb_window :: sliding_window
  cb_observer :: "nat option"
  cb_log :: "(nat option \<times> cb_event) list"

type_synonym clock = "nat \<Rightarrow> nat"

definition with_clock :: "breaker_config \<Rightarrow> nat \<Rightarrow> breaker" where
  "with_clock config now =
     \<lparr>cb_config = config\<lparr>half_open_max_probes := max (half_open_max_probes config) 1\<rparr>,
      cb_state = as_u8 Closed, cb_baseline = now, cb_opened_at_millis = 0,
      cb_half_open_probes = 0, cb_probe_claimed_at_millis = 0, cb_is_open_fast = False,
      cb_window = sw_new, cb_observer = None, cb_log = []\<rparr>"

definition with_observer :: "nat \<Rightarrow> breaker \<Rightarrow> breaker" where
  "with_observer ob b = (case cb_observer b of None \<Rightarrow> b\<lparr>cb_observer := Some ob\<rparr> | Some _ \<Rightarrow> b)"

definition emit :: "cb_event \<Rightarrow> breaker \<Rightarrow> breaker" where
  "emit ev b = b\<lparr>cb_log := cb_log b @ [(cb_observer b, ev)]\<rparr>"

definition state :: "breaker \<Rightarrow> breaker_state" where
  "state b = from_u8 (cb_state b)"

definition is_open :: "breaker \<Rightarrow> bool" where
  "is_open b = cb_is_open_fast b"

text \<open>Atomic \<open>usize\<close> arithmetic wraps; \<open>as u64\<close> truncates.\<close>

definition fetch_add1 :: "nat \<Rightarrow> nat" where
  "fetch_add1 n = (n + 1) mod 2 ^ 64"

definition fetch_sub1 :: "nat \<Rightarrow> nat" where
  "fetch_sub1 n = (n + (2 ^ 64 - 1)) mod 2 ^ 64"

definition as_millis :: "nat \<Rightarrow> nat" where
  "as_millis d = (d div 10 ^ 6) mod 2 ^ 64"

definition elapsed_millis :: "breaker \<Rightarrow> nat \<Rightarrow> nat" where
  "elapsed_millis b now = as_millis (now - cb_baseline b)"

definition trip :: "breaker_state \<Rightarrow> string \<Rightarrow> nat \<Rightarrow> breaker \<Rightarrow> breaker" where
  "trip prev reason now b =
     (let b1 = b\<lparr>cb_state := as_u8 Open,
                 cb_opened_at_millis := elapsed_millis b now,
                 cb_half_open_probes := 0,
                 cb_is_open_fast := True\<rparr>
      in if prev \<noteq> Open then emit (StateChange prev Open reason) b1 else b1)"

definition close :: "breaker_state \<Rightarrow> string \<Rightarrow> breaker \<Rightarrow> breaker" where
  "close prev reason b =
     (let b1 = b\<lparr>cb_state := as_u8 Closed,
                 cb_window := sw_clear (cb_window b),
                 cb_half_open_probes := 0,
                 cb_is_open_fast := False\<rparr>
      in if prev \<noteq> Closed then emit (StateChange prev Closed reason) b1 else b1)"

text \<open>
  \<open>claim_probe_slot\<close> runs under \<open>probe_gate\<close>. The final compare-exchange of the claim stamp is
  against the value just loaded.
\<close>

definition claim_probe_slot :: "nat \<Rightarrow> breaker \<Rightarrow> bool \<times> breaker" where
  "claim_probe_slot clk b =
     (let now = elapsed_millis b clk;
          prev = cb_half_open_probes b;
          b1 = b\<lparr>cb_half_open_probes := fetch_add1 prev\<rparr>
      in if prev < half_open_max_probes (cb_config b)
         then (True, b1\<lparr>cb_probe_claimed_at_millis := now\<rparr>)
         else
           (let b2 = b1\<lparr>cb_half_open_probes := fetch_sub1 (cb_half_open_probes b1)\<rparr>;
                lease_millis = as_millis (open_duration (cb_config b));
                claimed = cb_probe_claimed_at_millis b2
            in if lease_millis \<le> now - claimed
               then (True, b2\<lparr>cb_probe_claimed_at_millis := now\<rparr>)
               else (False, b2)))"

definition HALF_OPEN_PROBE_BACKOFF :: nat where
  "HALF_OPEN_PROBE_BACKOFF = millis 50"

definition try_half_open_probe :: "nat \<Rightarrow> breaker \<Rightarrow> (unit, breaker_open) result \<times> breaker" where
  "try_half_open_probe clk b =
     (let (admitted, b1) = claim_probe_slot clk b;
          b2 = emit (ProbeAdmission admitted) b1
      in if admitted then (Inr (), b2)
         else (Inl \<lparr>retry_after = min HALF_OPEN_PROBE_BACKOFF (open_duration (cb_config b))\<rparr>, b2))"

definition cas_state :: "breaker_state \<Rightarrow> breaker_state \<Rightarrow> breaker \<Rightarrow> bool \<times> breaker" where
  "cas_state old new b =
     (if cb_state b = as_u8 old then (True, b\<lparr>cb_state := as_u8 new\<rparr>) else (False, b))"

definition since_opened :: "breaker \<Rightarrow> nat \<Rightarrow> nat" where
  "since_opened b clk = millis (elapsed_millis b clk - cb_opened_at_millis b)"

definition check_open :: "clock \<Rightarrow> breaker \<Rightarrow> (unit, breaker_open) result \<times> breaker" where
  "check_open clk b =
     (let elapsed = since_opened b (clk 0) in
      if open_duration (cb_config b) \<le> elapsed then
        (case cas_state Open HalfOpen b of
           (True, b1) \<Rightarrow>
             try_half_open_probe (clk 1)
               (emit (StateChange Open HalfOpen ''open_elapsed'') (b1\<lparr>cb_is_open_fast := False\<rparr>))
         | (False, b1) \<Rightarrow>
             (case state b1 of
                Closed \<Rightarrow> (Inr (), b1)
              | HalfOpen \<Rightarrow> try_half_open_probe (clk 1) b1
              | Open \<Rightarrow> (Inl \<lparr>retry_after = open_duration (cb_config b1) - since_opened b1 (clk 1)\<rparr>, b1)))
      else (Inl \<lparr>retry_after = open_duration (cb_config b) - elapsed\<rparr>, b))"

definition check :: "clock \<Rightarrow> breaker \<Rightarrow> (unit, breaker_open) result \<times> breaker" where
  "check clk b =
     (if \<not> enabled (cb_config b) then (Inr (), b)
      else (case state b of
          Closed \<Rightarrow> (Inr (), b)
        | Open \<Rightarrow> check_open clk b
        | HalfOpen \<Rightarrow> try_half_open_probe (clk 0) b))"

definition should_trip :: "breaker_config \<Rightarrow> sliding_window \<Rightarrow> bool" where
  "should_trip c w \<longleftrightarrow> min_samples c \<le> sw_sample_count w \<and> f64_ge (sw_error_rate w) (error_rate_threshold c)"

definition push_evict :: "bool \<Rightarrow> nat \<Rightarrow> breaker \<Rightarrow> breaker" where
  "push_evict is_failure now b =
     b\<lparr>cb_window := sw_evict (window_duration (cb_config b)) now (sw_push is_failure now (cb_window b))\<rparr>"

definition record_outcome :: "outcome \<Rightarrow> clock \<Rightarrow> breaker \<Rightarrow> breaker" where
  "record_outcome oc clk b =
     (if \<not> enabled (cb_config b) then b
      else
        let is_failure = (oc = Failure);
            prev_state = state b;
            b1 = (case prev_state of
                Closed \<Rightarrow>
                  (let bw = push_evict is_failure (clk 0) b in
                   if should_trip (cb_config bw) (cb_window bw)
                   then trip prev_state ''trip'' (clk 1) bw else bw)
              | HalfOpen \<Rightarrow>
                  (if is_failure then trip prev_state ''probe_failure'' (clk 1) b
                   else close prev_state ''probe_success'' b)
              | Open \<Rightarrow> push_evict is_failure (clk 0) b)
        in emit (OutcomeSeen oc (state b1)) b1)"

definition error_rate :: "nat \<Rightarrow> breaker \<Rightarrow> f64 \<times> breaker" where
  "error_rate now b =
     (let w = sw_evict (window_duration (cb_config b)) now (cb_window b)
      in (sw_error_rate w, b\<lparr>cb_window := w\<rparr>))"

definition force_half_open :: "breaker \<Rightarrow> breaker" where
  "force_half_open b =
     (let prev = state b;
          b1 = b\<lparr>cb_state := as_u8 HalfOpen, cb_is_open_fast := False, cb_half_open_probes := 0\<rparr>
      in if prev \<noteq> HalfOpen then emit (StateChange prev HalfOpen ''force_half_open'') b1 else b1)"


section \<open>Runs and the invariant\<close>

datatype cb_op =
    Check clock
  | Record outcome clock
  | ErrorRate nat
  | InstallObserver nat
  | ForceHalfOpen

fun cb_step :: "breaker \<Rightarrow> cb_op \<Rightarrow> breaker" where
  "cb_step b (Check clk) = snd (check clk b)"
| "cb_step b (Record oc clk) = record_outcome oc clk b"
| "cb_step b (ErrorRate now) = snd (error_rate now b)"
| "cb_step b (InstallObserver ob) = with_observer ob b"
| "cb_step b ForceHalfOpen = force_half_open b"

definition cb_inv :: "breaker \<Rightarrow> bool" where
  "cb_inv b \<longleftrightarrow>
     cb_state b = as_u8 (state b) \<and>
     cb_is_open_fast b = (state b = Open) \<and>
     sw_ok (cb_window b) \<and>
     cb_half_open_probes b \<le> half_open_max_probes (cb_config b) \<and>
     (state b \<noteq> HalfOpen \<longrightarrow> cb_half_open_probes b = 0) \<and>
     1 \<le> half_open_max_probes (cb_config b) \<and> half_open_max_probes (cb_config b) \<le> u64_max"

lemma emit_frame [simp]:
  "cb_config (emit e b) = cb_config b" "cb_state (emit e b) = cb_state b"
  "cb_baseline (emit e b) = cb_baseline b"
  "cb_opened_at_millis (emit e b) = cb_opened_at_millis b"
  "cb_half_open_probes (emit e b) = cb_half_open_probes b"
  "cb_probe_claimed_at_millis (emit e b) = cb_probe_claimed_at_millis b"
  "cb_is_open_fast (emit e b) = cb_is_open_fast b"
  "cb_window (emit e b) = cb_window b" "state (emit e b) = state b"
  "elapsed_millis (emit e b) t = elapsed_millis b t"
  by (simp_all add: emit_def state_def elapsed_millis_def)

lemma cb_inv_emit [simp]: "cb_inv (emit e b) = cb_inv b"
  by (simp add: cb_inv_def)

lemma state_eqI: "cb_state b = as_u8 s \<Longrightarrow> state b = s"
  by (simp add: state_def)

lemma fetch_add_sub: "n \<le> u64_max \<Longrightarrow> fetch_sub1 (fetch_add1 n) = n"
  by (cases "n = u64_max") (simp_all add: fetch_sub1_def fetch_add1_def)

lemma fetch_add1_small: "n < u64_max \<Longrightarrow> fetch_add1 n = n + 1"
  by (simp add: fetch_add1_def)

lemmas cb_unfold = cb_inv_def state_def Let_def

lemma cb_inv_with_clock:
  "half_open_max_probes c \<le> u64_max \<Longrightarrow> cb_inv (with_clock c now)"
  by (simp add: cb_inv_def with_clock_def state_def from_u8_def)

lemma cb_inv_trip: "cb_inv b \<Longrightarrow> cb_inv (trip prev r now b)"
  by (simp add: trip_def cb_unfold from_u8_def)

lemma cb_inv_close: "cb_inv b \<Longrightarrow> cb_inv (close prev r b)"
  by (simp add: close_def cb_unfold from_u8_def)

lemma cb_inv_window: "cb_inv b \<Longrightarrow> sw_ok w \<Longrightarrow> cb_inv (b\<lparr>cb_window := w\<rparr>)"
  by (simp add: cb_unfold)

lemma cb_inv_push_evict: "cb_inv b \<Longrightarrow> cb_inv (push_evict f now b)"
  unfolding push_evict_def
  by (rule cb_inv_window) (simp_all add: sw_ok_evict sw_ok_push cb_inv_def)

lemma claim_probe_slot_cases:
  assumes "cb_inv b"
  obtains
    (free) "cb_half_open_probes b < half_open_max_probes (cb_config b)"
      "claim_probe_slot t b = (True, b\<lparr>cb_half_open_probes := cb_half_open_probes b + 1,
         cb_probe_claimed_at_millis := elapsed_millis b t\<rparr>)"
  | (reclaim) "cb_half_open_probes b = half_open_max_probes (cb_config b)"
      "as_millis (open_duration (cb_config b)) \<le> elapsed_millis b t - cb_probe_claimed_at_millis b"
      "claim_probe_slot t b = (True, b\<lparr>cb_probe_claimed_at_millis := elapsed_millis b t\<rparr>)"
  | (refused) "cb_half_open_probes b = half_open_max_probes (cb_config b)"
      "elapsed_millis b t - cb_probe_claimed_at_millis b < as_millis (open_duration (cb_config b))"
      "claim_probe_slot t b = (False, b)"
proof -
  have bound: "cb_half_open_probes b \<le> half_open_max_probes (cb_config b)"
    "half_open_max_probes (cb_config b) \<le> u64_max"
    using assms by (simp_all add: cb_inv_def)
  consider "cb_half_open_probes b < half_open_max_probes (cb_config b)"
    | "cb_half_open_probes b = half_open_max_probes (cb_config b)"
    using bound by linarith
  then show ?thesis
  proof cases
    case 1
    then have "fetch_add1 (cb_half_open_probes b) = cb_half_open_probes b + 1"
      using bound by (intro fetch_add1_small) linarith
    with 1 show ?thesis by (intro free) (simp_all add: claim_probe_slot_def Let_def)
  next
    case 2
    have undo: "fetch_sub1 (fetch_add1 (cb_half_open_probes b)) = cb_half_open_probes b"
      using bound by (intro fetch_add_sub) linarith
    show ?thesis
    proof (cases "as_millis (open_duration (cb_config b))
        \<le> elapsed_millis b t - cb_probe_claimed_at_millis b")
      case True
      with 2 undo show ?thesis
        by (intro reclaim) (simp_all add: claim_probe_slot_def Let_def)
    next
      case False
      with 2 undo show ?thesis
        by (intro refused) (simp_all add: claim_probe_slot_def Let_def)
    qed
  qed
qed

lemma cb_inv_claim:
  assumes "cb_inv b" "state b = HalfOpen"
  shows "cb_inv (snd (claim_probe_slot t b))"
  using assms
  by (cases rule: claim_probe_slot_cases[OF assms(1), of t]) (auto simp: cb_unfold)

lemma cb_inv_probe:
  assumes "cb_inv b" "state b = HalfOpen"
  shows "cb_inv (snd (try_half_open_probe t b))"
  using cb_inv_claim[OF assms, of t]
  by (cases "claim_probe_slot t b") (simp add: try_half_open_probe_def Let_def)

lemma cb_inv_half_open:
  "cb_inv b \<Longrightarrow> state b = Open \<Longrightarrow>
     cb_inv (b\<lparr>cb_state := as_u8 HalfOpen, cb_is_open_fast := False\<rparr>)"
  by (simp add: cb_unfold from_u8_def)

lemma check_open_elapsed:
  assumes "cb_inv b" "state b = Open" "open_duration (cb_config b) \<le> since_opened b (clk 0)"
  shows "check_open clk b = try_half_open_probe (clk 1)
    (emit (StateChange Open HalfOpen ''open_elapsed'')
      (b\<lparr>cb_state := as_u8 HalfOpen, cb_is_open_fast := False\<rparr>))"
proof -
  have "cb_state b = as_u8 Open" using assms(1,2) by (simp add: cb_inv_def)
  with assms(3) show ?thesis by (simp add: check_open_def cas_state_def Let_def)
qed

lemma cb_inv_check_open:
  assumes "cb_inv b" "state b = Open"
  shows "cb_inv (snd (check_open clk b))"
proof (cases "open_duration (cb_config b) \<le> since_opened b (clk 0)")
  case True
  let ?h = "emit (StateChange Open HalfOpen ''open_elapsed'')
      (b\<lparr>cb_state := as_u8 HalfOpen, cb_is_open_fast := False\<rparr>)"
  have "cb_inv ?h" using cb_inv_half_open[OF assms] by simp
  moreover have "state ?h = HalfOpen" by (simp add: state_def from_u8_def)
  ultimately show ?thesis
    using check_open_elapsed[of b clk, OF assms True] cb_inv_probe by simp
next
  case False
  then show ?thesis using assms(1) by (simp add: check_open_def Let_def)
qed

lemma cb_inv_check: "cb_inv b \<Longrightarrow> cb_inv (snd (check clk b))"
  using cb_inv_check_open cb_inv_probe by (simp add: check_def split: breaker_state.split)

lemma cb_inv_record: "cb_inv b \<Longrightarrow> cb_inv (record_outcome oc clk b)"
  by (auto simp: record_outcome_def Let_def cb_inv_trip cb_inv_close cb_inv_push_evict
      split: breaker_state.split)

lemma cb_inv_error_rate: "cb_inv b \<Longrightarrow> cb_inv (snd (error_rate now b))"
  using cb_inv_window sw_ok_evict by (simp add: error_rate_def Let_def cb_inv_def)

lemma cb_inv_step: "cb_inv b \<Longrightarrow> cb_inv (cb_step b op)"
proof (cases op)
  case (InstallObserver ob)
  assume "cb_inv b"
  then show ?thesis
    using InstallObserver by (auto simp: with_observer_def cb_unfold split: option.splits)
next
  case ForceHalfOpen
  assume "cb_inv b"
  then show ?thesis
    using ForceHalfOpen by (simp add: force_half_open_def cb_unfold from_u8_def)
qed (simp_all add: cb_inv_check cb_inv_record cb_inv_error_rate)

interpretation cb: state_machine cb_step cb_inv
  by unfold_locales (rule cb_inv_step)

end
