(* ===== verification/Breaker_Props.thy ===== *)
theory Breaker_Props
  imports Breaker
begin

text \<open>
  What the circuit breaker promises its callers: the trip rule, shedding while open, bounded
  probing while half-open, and that it cannot be stranded.
\<close>

section \<open>Concrete breakers\<close>

text \<open>A freshly opened and a probing breaker of the server preset, for the witnesses.\<close>

definition opened_example :: breaker where
  "opened_example = trip Closed ''trip'' (secs 1) (with_clock server_config 0)"

definition probing_example :: breaker where
  "probing_example = force_half_open (with_clock server_config 0)"

lemma opened_example_facts:
  "cb_inv opened_example" "enabled (cb_config opened_example)" "state opened_example = Open"
  "open_duration (cb_config opened_example) = secs 10" "cb_opened_at_millis opened_example = 1000"
  "cb_baseline opened_example = 0"
  unfolding opened_example_def
  by (intro cb_inv_trip cb_inv_with_clock)
    (simp_all add: trip_def with_clock_def server_config_def elapsed_millis_def as_millis_def
      Let_def emit_def state_def from_u8_def)

lemma probing_example_facts:
  "cb_inv probing_example" "enabled (cb_config probing_example)" "state probing_example = HalfOpen"
  "open_duration (cb_config probing_example) = secs 10" "cb_opened_at_millis probing_example = 0"
  "cb_baseline probing_example = 0" "cb_probe_claimed_at_millis probing_example = 0"
  "half_open_max_probes (cb_config probing_example) = 1" "cb_half_open_probes probing_example = 0"
proof -
  have "half_open_max_probes server_config \<le> u64_max" by (simp add: server_config_def)
  from cb_inv_step[OF cb_inv_with_clock[OF this], of 0 ForceHalfOpen]
  show "cb_inv probing_example" by (simp add: probing_example_def)
qed (simp_all add: probing_example_def force_half_open_def with_clock_def server_config_def
    state_def from_u8_def Let_def emit_def)


section \<open>Tripping\<close>

lemma record_closed:
  assumes "enabled (cb_config b)" "state b = Closed"
  shows "record_outcome oc clk b =
    (let bw = push_evict (oc = Failure) (clk 0) b;
         b1 = (if should_trip (cb_config b) (cb_window bw) then trip Closed ''trip'' (clk 1) bw else bw)
     in emit (OutcomeSeen oc (state b1)) b1)"
  using assms by (simp add: record_outcome_def push_evict_def Let_def)

lemma trip_state [simp]: "state (trip prev r now b) = Open"
  by (simp add: trip_def state_def from_u8_def Let_def)

lemma close_state [simp]: "state (close prev r b) = Closed"
  by (simp add: close_def state_def from_u8_def Let_def)

lemma push_evict_state [simp]: "state (push_evict f now b) = state b"
  by (simp add: push_evict_def state_def)

lemma push_evict_nonempty:
  "sw_ok (cb_window b) \<Longrightarrow> sw_entries (cb_window (push_evict f now b)) \<noteq> []"
proof -
  assume ok: "sw_ok (cb_window b)"
  let ?w = "sw_push f now (cb_window b)"
  have last: "(now, f) \<in> set (sw_entries ?w)"
    by (simp add: sw_push_def Let_def)
  have "\<not> sample_expired (checked_sub now d) (fst (now, f))" for d
    by (simp add: sample_expired_def checked_sub_def not_less)
  then have "dropWhile (\<lambda>e. sample_expired (checked_sub now d) (fst e)) (sw_entries ?w) \<noteq> []" for d
    using last by (metis dropWhile_eq_Nil_conv)
  then show ?thesis
    using sw_evict_entries[OF sw_ok_push[OF ok]] by (simp add: push_evict_def)
qed

text \<open>
  C35: In the closed state, with the threshold of one half that both presets use, recording an
  outcome opens the breaker exactly when, after the new sample is added and the old ones are
  evicted, there are at least \<open>min_samples\<close> samples and at least half of them failed; otherwise it
  stays closed.
\<close>

theorem record_trips_iff:
  fixes b :: breaker and clk :: clock and oc :: outcome
  assumes "cb_inv b" "enabled (cb_config b)" "state b = Closed"
    and "error_rate_threshold (cb_config b) = Fin (1 / 2)"
  defines "es \<equiv> sw_entries (cb_window (push_evict (oc = Failure) (clk 0) b))"
  shows "state (record_outcome oc clk b) =
    (if min_samples (cb_config b) \<le> length es \<and> length es \<le> 2 * length (filter snd es)
     then Open else Closed)"
proof -
  let ?bw = "push_evict (oc = Failure) (clk 0) b"
  have ok: "sw_ok (cb_window ?bw)"
    using cb_inv_push_evict[OF assms(1)] by (simp add: cb_inv_def)
  have "sw_ok (cb_window b)" using assms(1) by (simp add: cb_inv_def)
  then have ne: "sw_entries (cb_window ?bw) \<noteq> []" by (rule push_evict_nonempty)
  have "should_trip (cb_config b) (cb_window ?bw) \<longleftrightarrow>
      min_samples (cb_config b) \<le> length es \<and> length es \<le> 2 * length (filter snd es)"
    using sw_error_rate_half[OF ok] ne assms(4)
    by (simp add: should_trip_def sw_sample_count_def es_def failing_def)
  then show ?thesis
    using record_closed[OF assms(2,3)] assms(3) by (simp add: Let_def)
qed

definition example_breaker :: breaker where
  "example_breaker = with_clock (client_config\<lparr>min_samples := 2\<rparr>) 0"

theorem record_trips_iff_witness:
  "state (record_outcome Failure (\<lambda>_. 7) (record_outcome Failure (\<lambda>_. 5) example_breaker)) = Open"
proof -
  let ?b = "record_outcome Failure (\<lambda>_. 5) example_breaker"
  have inv0: "cb_inv example_breaker"
    unfolding example_breaker_def by (rule cb_inv_with_clock) (simp add: client_config_def)
  have c0: "state example_breaker = Closed" "enabled (cb_config example_breaker)"
    "error_rate_threshold (cb_config example_breaker) = Fin (1 / 2)"
    by (simp_all add: example_breaker_def with_clock_def client_config_def state_def from_u8_def)
  have inv1: "cb_inv ?b" using inv0 by (rule cb_inv_record)
  have s1: "state ?b = Closed"
    by (simp add: record_trips_iff[OF inv0 c0(2,1,3)])
      (simp add: example_breaker_def with_clock_def client_config_def push_evict_def sw_push_def
        sw_new_def sw_evict_def checked_sub_def MAX_WINDOW_ENTRIES_def)
  have b1: "sw_entries (cb_window (push_evict True 7 ?b)) = [(5, True), (7, True)]"
    "min_samples (cb_config ?b) = 2" "enabled (cb_config ?b)"
    "error_rate_threshold (cb_config ?b) = Fin (1 / 2)"
    using s1
    by (simp_all add: record_closed[OF c0(2,1)] Let_def)
      (simp_all add: example_breaker_def with_clock_def client_config_def push_evict_def sw_push_def
        sw_new_def sw_evict_def checked_sub_def MAX_WINDOW_ENTRIES_def trip_def Let_def)
  show ?thesis
    using record_trips_iff[OF inv1 b1(3) s1 b1(4), of Failure "\<lambda>_. 7"] b1(1,2) by simp
qed

text \<open>
  C32: Every breaker reachable from a fresh one by checks, recorded outcomes, error-rate reads,
  observer installs and forced probes, in any order, keeps its parts consistent: the lock-free
  mirror \<open>is_open\<close> equals \<open>state = Open\<close>, the incremental failure counter equals the number of
  failed samples in the window (so its decrements never underflow), the window holds at most
  10000 samples, at most \<open>half_open_max_probes\<close> probe slots are claimed, and none outside the
  half-open state.
\<close>

theorem breaker_consistent:
  fixes c :: breaker_config and t0 :: nat and ops :: "cb_op list"
  assumes "half_open_max_probes c \<le> u64_max"
  defines "b \<equiv> foldl cb_step (with_clock c t0) ops"
  shows "is_open b = (state b = Open)
    \<and> sw_failures (cb_window b) = length (filter snd (sw_entries (cb_window b)))
    \<and> length (sw_entries (cb_window b)) \<le> 10000
    \<and> cb_half_open_probes b \<le> half_open_max_probes (cb_config b)
    \<and> (state b \<noteq> HalfOpen \<longrightarrow> cb_half_open_probes b = 0)"
proof -
  have "cb_inv b"
    unfolding b_def by (rule cb.run_inv[OF cb_inv_with_clock[OF assms(1)]])
  then show ?thesis
    by (simp add: cb_inv_def is_open_def sw_ok_def failing_def MAX_WINDOW_ENTRIES_def)
qed

theorem breaker_consistent_witness:
  "is_open (foldl cb_step (with_clock server_config 3) [Record Failure (\<lambda>_. 5), Check (\<lambda>_. 9)])
     = (state (foldl cb_step (with_clock server_config 3) [Record Failure (\<lambda>_. 5), Check (\<lambda>_. 9)]) = Open)"
proof -
  have "half_open_max_probes server_config \<le> u64_max" by (simp add: server_config_def)
  from breaker_consistent[OF this] show ?thesis by blast
qed


section \<open>Shedding and probing\<close>

text \<open>
  While the breaker is open and the cool-down has not passed, every check is refused with a
  positive retry time that is exactly the rest of the cool-down, and the breaker is unchanged.
\<close>

theorem open_sheds:
  assumes "enabled (cb_config b)" "state b = Open" "since_opened b (clk 0) < open_duration (cb_config b)"
  shows "check clk b = (Inl \<lparr>retry_after = open_duration (cb_config b) - since_opened b (clk 0)\<rparr>, b)
    \<and> 0 < open_duration (cb_config b) - since_opened b (clk 0)"
  using assms by (simp add: check_def check_open_def Let_def)

theorem open_sheds_witness:
  "check (\<lambda>_. secs 4) opened_example = (Inl \<lparr>retry_after = secs 7\<rparr>, opened_example)"
proof -
  have so: "since_opened opened_example (secs 4) = secs 3"
    unfolding since_opened_def elapsed_millis_def opened_example_facts
    by (simp add: as_millis_def)
  have "since_opened opened_example ((\<lambda>_. secs 4) 0) < open_duration (cb_config opened_example)"
    unfolding so opened_example_facts by simp
  from open_sheds[OF opened_example_facts(2,3) this] show ?thesis
    unfolding so opened_example_facts by simp
qed

lemma probe_admitted_free:
  assumes "cb_inv b" "cb_half_open_probes b < half_open_max_probes (cb_config b)"
  shows "try_half_open_probe t b = (Inr (), emit (ProbeAdmission True)
     (b\<lparr>cb_half_open_probes := cb_half_open_probes b + 1,
        cb_probe_claimed_at_millis := elapsed_millis b t\<rparr>))"
  using assms(2)
  by (cases rule: claim_probe_slot_cases[OF assms(1), of t])
    (auto simp: try_half_open_probe_def)

text \<open>
  The first check after the cool-down moves the breaker to half-open, clears the \<open>is_open\<close>
  mirror and is admitted as the one claimed probe.
\<close>

theorem cool_down_admits_probe:
  assumes "cb_inv b" "enabled (cb_config b)" "state b = Open"
    and "open_duration (cb_config b) \<le> since_opened b (clk 0)"
  shows "fst (check clk b) = Inr ()
    \<and> state (snd (check clk b)) = HalfOpen
    \<and> \<not> is_open (snd (check clk b))
    \<and> cb_half_open_probes (snd (check clk b)) = 1"
proof -
  let ?h = "emit (StateChange Open HalfOpen ''open_elapsed'')
      (b\<lparr>cb_state := as_u8 HalfOpen, cb_is_open_fast := False\<rparr>)"
  have inv: "cb_inv ?h" using cb_inv_half_open[OF assms(1,3)] by simp
  have p0: "cb_half_open_probes b = 0" "1 \<le> half_open_max_probes (cb_config b)"
    using assms(1,3) by (simp_all add: cb_inv_def)
  then have slot: "cb_half_open_probes ?h < half_open_max_probes (cb_config ?h)"
    by simp
  have "check clk b = try_half_open_probe (clk 1) ?h"
    using check_open_elapsed[of b clk, OF assms(1,3,4)] assms(2,3) by (simp add: check_def)
  then show ?thesis
    using probe_admitted_free[OF inv slot] p0
    by (simp add: state_def from_u8_def is_open_def)
qed

theorem cool_down_admits_probe_witness:
  "fst (check (\<lambda>_. secs 11) opened_example) = Inr ()"
proof -
  have "open_duration (cb_config opened_example) \<le> since_opened opened_example ((\<lambda>_. secs 11) 0)"
    unfolding since_opened_def elapsed_millis_def opened_example_facts
    by (simp add: as_millis_def)
  from cool_down_admits_probe[OF opened_example_facts(1-3) this] show ?thesis by blast
qed

text \<open>Successive checks against a half-open breaker, and how many of them are admitted.\<close>

fun probe_calls :: "nat list \<Rightarrow> breaker \<Rightarrow> breaker" where
  "probe_calls [] b = b"
| "probe_calls (t # ts) b = probe_calls ts (snd (check (\<lambda>_. t) b))"

fun admissions :: "nat list \<Rightarrow> breaker \<Rightarrow> nat" where
  "admissions [] b = 0"
| "admissions (t # ts) b =
     (if is_ok (fst (check (\<lambda>_. t) b)) then 1 else 0) + admissions ts (snd (check (\<lambda>_. t) b))"

lemma check_half_open:
  "enabled (cb_config b) \<Longrightarrow> state b = HalfOpen \<Longrightarrow> check clk b = try_half_open_probe (clk 0) b"
  by (simp add: check_def)

text \<open>
  Within one lease (no call a full cool-down after the last claim), however many callers check
  a half-open breaker, exactly as many are admitted as there are free probe slots: never more than
  \<open>half_open_max_probes\<close> in total.
\<close>

theorem probes_bounded:
  assumes "cb_inv b" "enabled (cb_config b)" "state b = HalfOpen"
    and "m \<le> cb_probe_claimed_at_millis b"
    and "\<forall>t \<in> set ts. m \<le> elapsed_millis b t
           \<and> elapsed_millis b t < m + as_millis (open_duration (cb_config b))"
  shows "admissions ts b =
    min (length ts) (half_open_max_probes (cb_config b) - cb_half_open_probes b)"
  using assms
proof (induction ts arbitrary: b)
  case Nil
  then show ?case by simp
next
  case (Cons t ts)
  let ?r = "snd (check (\<lambda>_. t) b)"
  have chk: "check (\<lambda>_. t) b = try_half_open_probe t b"
    using Cons.prems(2,3) by (simp add: check_half_open)
  have same: "m \<le> cb_probe_claimed_at_millis ?r" "cb_config ?r = cb_config b"
    "elapsed_millis ?r t' = elapsed_millis b t'" "state ?r = state b" for t'
    using Cons.prems(4,5) unfolding chk
    by (cases rule: claim_probe_slot_cases[OF Cons.prems(1), of t];
        simp add: try_half_open_probe_def elapsed_millis_def state_def)+
  have "cb_inv ?r" using Cons.prems(1) by (rule cb_inv_check)
  then have IH: "admissions ts ?r =
      min (length ts) (half_open_max_probes (cb_config b) - cb_half_open_probes ?r)"
    using Cons.IH[of ?r] Cons.prems(2,3,5) same by simp
  show ?case
  proof (cases rule: claim_probe_slot_cases
      [OF Cons.prems(1), of t, case_names free reclaim refused])
    case free
    then show ?thesis
      using IH by (simp add: chk try_half_open_probe_def flip: Suc_diff_Suc)
  next
    case reclaim
    then show ?thesis using Cons.prems(4,5) by auto
  next
    case refused
    then show ?thesis
      using IH by (simp add: chk try_half_open_probe_def)
  qed
qed

theorem probes_bounded_witness: "admissions [5, 6, 7] probing_example = 1"
proof -
  have "\<forall>t \<in> set [5, 6, 7]. 0 \<le> elapsed_millis probing_example t
      \<and> elapsed_millis probing_example t < 0 + as_millis (open_duration (cb_config probing_example))"
    by (simp add: elapsed_millis_def as_millis_def probing_example_facts)
  from probes_bounded[OF probing_example_facts(1-3) le0 this] show ?thesis
    by (simp add: probing_example_facts)
qed

text \<open>
  No abandoned probe strands the breaker. In every consistent state, a check made a full
  cool-down after both the last opening and the last probe claim is admitted.
\<close>

theorem breaker_never_stranded:
  assumes "cb_inv b" "\<And>i. open_duration (cb_config b) \<le>
      millis (elapsed_millis b (clk i) - max (cb_opened_at_millis b) (cb_probe_claimed_at_millis b))"
  shows "fst (check clk b) = Inr ()"
proof (cases "enabled (cb_config b)")
  case True
  show ?thesis
  proof (cases "state b")
    case Open
    have "open_duration (cb_config b) \<le> since_opened b (clk 0)"
      using assms(2)[of 0] unfolding since_opened_def
      by (rule order_trans) (simp add: diff_le_mono2)
    with cool_down_admits_probe[OF assms(1) True Open] show ?thesis by simp
  next
    case HalfOpen
    have "open_duration (cb_config b) div 10 ^ 6 \<le>
        elapsed_millis b (clk 0) - cb_probe_claimed_at_millis b"
      using div_le_mono[OF assms(2)[of 0], of "10 ^ 6"] by simp
    then have "as_millis (open_duration (cb_config b)) \<le>
        elapsed_millis b (clk 0) - cb_probe_claimed_at_millis b"
      unfolding as_millis_def by (rule order_trans[OF mod_less_eq_dividend])
    then show ?thesis
      using check_half_open[OF True HalfOpen]
      by (cases rule: claim_probe_slot_cases[OF assms(1), of "clk 0"])
        (simp_all add: try_half_open_probe_def)
  qed (simp add: check_def)
qed (simp add: check_def)

theorem breaker_never_stranded_witness:
  "fst (check (\<lambda>_. secs 20) (snd (check (\<lambda>_. secs 2) probing_example))) = Inr ()"
proof -
  let ?b = "snd (check (\<lambda>_. secs 2) probing_example)"
  have "cb_half_open_probes probing_example < half_open_max_probes (cb_config probing_example)"
    by (simp add: probing_example_facts)
  note admitted = probe_admitted_free[OF probing_example_facts(1) this]
  have "open_duration (cb_config ?b) \<le> millis (elapsed_millis ?b ((\<lambda>_. secs 20) i)
      - max (cb_opened_at_millis ?b) (cb_probe_claimed_at_millis ?b))" for i
    by (simp add: check_half_open[OF probing_example_facts(2,3)] admitted)
      (simp add: elapsed_millis_def as_millis_def probing_example_facts)
  from breaker_never_stranded[OF cb_inv_check[OF probing_example_facts(1)] this]
  show ?thesis by simp
qed

text \<open>
  A probe's outcome ends the half-open phase: success closes the breaker with an empty window,
  failure opens it again and restarts the cool-down from the time of the record; both free every
  probe slot.
\<close>

theorem probe_outcome_ends_phase:
  assumes "enabled (cb_config b)" "state b = HalfOpen"
  shows "state (record_outcome Success clk b) = Closed
    \<and> sw_entries (cb_window (record_outcome Success clk b)) = []
    \<and> state (record_outcome Failure clk b) = Open
    \<and> cb_opened_at_millis (record_outcome Failure clk b) = elapsed_millis b (clk 1)
    \<and> (\<forall>oc. cb_half_open_probes (record_outcome oc clk b) = 0)"
proof -
  have succ: "record_outcome Success clk b =
      emit (OutcomeSeen Success Closed) (close HalfOpen ''probe_success'' b)"
    using assms by (simp add: record_outcome_def)
  have fail: "record_outcome Failure clk b =
      emit (OutcomeSeen Failure Open) (trip HalfOpen ''probe_failure'' (clk 1) b)"
    using assms by (simp add: record_outcome_def)
  have "cb_half_open_probes (record_outcome oc clk b) = 0" for oc
    by (cases oc) (simp_all add: succ fail close_def trip_def Let_def)
  then show ?thesis
    by (simp add: succ fail) (simp add: close_def trip_def Let_def sw_clear_def)
qed

theorem probe_outcome_ends_phase_witness:
  "state (record_outcome Failure (\<lambda>_. 9) probing_example) = Open"
  using probe_outcome_ends_phase[OF probing_example_facts(2,3)] by blast

end
