(* ===== verification/Breaker_Race.thy ===== *)
theory Breaker_Race
  imports Breaker
begin

text \<open>
  The methods \<open>check\<close> and \<open>record\<close> of \<^verbatim>\<open>fuigo-circuit-breaker/src/breaker.rs\<close> run by several
  threads at once. A step is one action on the shared fields (an atomic load, store, \<open>fetch_add\<close>,
  \<open>fetch_sub\<close> or compare-exchange, or a critical section of the window mutex); \<open>probe_gate\<close> is a
  lock with a holder. A schedule is a list of (thread, clock reading) pairs; a blocked or finished
  thread's step does nothing. Atomics are sequentially consistent here, and the observer calls,
  which touch no shared field, are left out. Where \<open>record\<close> finds the breaker open, its load of the
  state and its push into the window are one step.
\<close>

datatype thread =
    TCheck
  | TCheckOpen
  | TCheckOpen2 nat
  | TCas
  | TFast
  | TRecheck
  | TRecheckOpen
  | TGate
  | TAdd nat
  | TStamp nat
  | TSub nat
  | TLoadClaimed nat
  | TCasClaimed nat nat
  | TUnlock bool
  | TDone "(unit, breaker_open) result"
  | TRecord outcome
  | TWindow outcome nat
  | TTrip1 | TTrip2 | TTrip3 | TTrip4
  | TClose1 | TClose2 | TClose3 | TClose4
  | TRecorded

record race =
  rc_cb :: breaker
  rc_gate :: "nat option"
  rc_threads :: "thread list"

definition goto :: "nat \<Rightarrow> thread \<Rightarrow> race \<Rightarrow> race" where
  "goto i t s = s\<lparr>rc_threads := (rc_threads s)[i := t]\<rparr>"

definition shared :: "(breaker \<Rightarrow> breaker) \<Rightarrow> race \<Rightarrow> race" where
  "shared f s = s\<lparr>rc_cb := f (rc_cb s)\<rparr>"

definition backoff :: "breaker \<Rightarrow> (unit, breaker_open) result" where
  "backoff b = Inl \<lparr>retry_after = min HALF_OPEN_PROBE_BACKOFF (open_duration (cb_config b))\<rparr>"

definition tstep :: "race \<Rightarrow> nat \<times> nat \<Rightarrow> race" where
  "tstep s = (\<lambda>(i, clk). if length (rc_threads s) \<le> i then s else
     (let b = rc_cb s in
      case rc_threads s ! i of
        TCheck \<Rightarrow>
          (if \<not> enabled (cb_config b) then goto i (TDone (Inr ())) s
           else case state b of
               Closed \<Rightarrow> goto i (TDone (Inr ())) s
             | Open \<Rightarrow> goto i TCheckOpen s
             | HalfOpen \<Rightarrow> goto i TGate s)
      | TCheckOpen \<Rightarrow> goto i (TCheckOpen2 (cb_opened_at_millis b)) s
      | TCheckOpen2 opened \<Rightarrow>
          (let elapsed = millis (elapsed_millis b clk - opened) in
           if open_duration (cb_config b) \<le> elapsed then goto i TCas s
           else goto i (TDone (Inl \<lparr>retry_after = open_duration (cb_config b) - elapsed\<rparr>)) s)
      | TCas \<Rightarrow>
          (let (won, b') = cas_state Open HalfOpen b in
           goto i (if won then TFast else TRecheck) (shared (\<lambda>_. b') s))
      | TFast \<Rightarrow> goto i TGate (shared (cb_is_open_fast_update (\<lambda>_. False)) s)
      | TRecheck \<Rightarrow>
          (case state b of
             Closed \<Rightarrow> goto i (TDone (Inr ())) s
           | HalfOpen \<Rightarrow> goto i TGate s
           | Open \<Rightarrow> goto i TRecheckOpen s)
      | TRecheckOpen \<Rightarrow>
          goto i (TDone (Inl \<lparr>retry_after = open_duration (cb_config b) - since_opened b clk\<rparr>)) s
      | TGate \<Rightarrow>
          (if rc_gate s = None then goto i (TAdd (elapsed_millis b clk)) (s\<lparr>rc_gate := Some i\<rparr>) else s)
      | TAdd now \<Rightarrow>
          goto i (if cb_half_open_probes b < half_open_max_probes (cb_config b) then TStamp now else TSub now)
            (shared (cb_half_open_probes_update fetch_add1) s)
      | TStamp now \<Rightarrow> goto i (TUnlock True) (shared (cb_probe_claimed_at_millis_update (\<lambda>_. now)) s)
      | TSub now \<Rightarrow> goto i (TLoadClaimed now) (shared (cb_half_open_probes_update fetch_sub1) s)
      | TLoadClaimed now \<Rightarrow>
          (let claimed = cb_probe_claimed_at_millis b in
           if as_millis (open_duration (cb_config b)) \<le> now - claimed
           then goto i (TCasClaimed now claimed) s else goto i (TUnlock False) s)
      | TCasClaimed now claimed \<Rightarrow>
          (if cb_probe_claimed_at_millis b = claimed
           then goto i (TUnlock True) (shared (cb_probe_claimed_at_millis_update (\<lambda>_. now)) s)
           else goto i (TUnlock False) s)
      | TUnlock admitted \<Rightarrow>
          goto i (TDone (if admitted then Inr () else backoff b)) (s\<lparr>rc_gate := None\<rparr>)
      | TDone _ \<Rightarrow> s
      | TRecord oc \<Rightarrow>
          (if \<not> enabled (cb_config b) then goto i TRecorded s
           else case state b of
               Closed \<Rightarrow> goto i (TWindow oc clk) s
             | HalfOpen \<Rightarrow> goto i (if oc = Failure then TTrip1 else TClose1) s
             | Open \<Rightarrow> goto i TRecorded (shared (push_evict (oc = Failure) clk) s))
      | TWindow oc now \<Rightarrow>
          (let bw = push_evict (oc = Failure) now b in
           goto i (if should_trip (cb_config bw) (cb_window bw) then TTrip1 else TRecorded)
             (shared (\<lambda>_. bw) s))
      | TTrip1 \<Rightarrow> goto i TTrip2 (shared (cb_state_update (\<lambda>_. as_u8 Open)) s)
      | TTrip2 \<Rightarrow> goto i TTrip3 (shared (cb_opened_at_millis_update (\<lambda>_. elapsed_millis b clk)) s)
      | TTrip3 \<Rightarrow> goto i TTrip4 (shared (cb_half_open_probes_update (\<lambda>_. 0)) s)
      | TTrip4 \<Rightarrow> goto i TRecorded (shared (cb_is_open_fast_update (\<lambda>_. True)) s)
      | TClose1 \<Rightarrow> goto i TClose2 (shared (cb_state_update (\<lambda>_. as_u8 Closed)) s)
      | TClose2 \<Rightarrow> goto i TClose3 (shared (cb_window_update sw_clear) s)
      | TClose3 \<Rightarrow> goto i TClose4 (shared (cb_half_open_probes_update (\<lambda>_. 0)) s)
      | TClose4 \<Rightarrow> goto i TRecorded (shared (cb_is_open_fast_update (\<lambda>_. False)) s)
      | TRecorded \<Rightarrow> s))"

definition run_threads :: "race \<Rightarrow> (nat \<times> nat) list \<Rightarrow> race" where
  "run_threads s sched = foldl tstep s sched"

definition start :: "breaker \<Rightarrow> thread list \<Rightarrow> race" where
  "start b ts = \<lparr>rc_cb = b, rc_gate = None, rc_threads = ts\<rparr>"


section \<open>The probe gate\<close>

fun in_gate :: "thread \<Rightarrow> bool" where
  "in_gate (TAdd _) = True"
| "in_gate (TStamp _) = True"
| "in_gate (TSub _) = True"
| "in_gate (TLoadClaimed _) = True"
| "in_gate (TCasClaimed _ _) = True"
| "in_gate (TUnlock _) = True"
| "in_gate _ = False"

definition gate_inv :: "race \<Rightarrow> bool" where
  "gate_inv s \<longleftrightarrow> (\<forall>i < length (rc_threads s). in_gate (rc_threads s ! i) \<longleftrightarrow> rc_gate s = Some i)"

lemma goto_simps [simp]:
  "rc_cb (goto i t s) = rc_cb s" "rc_gate (goto i t s) = rc_gate s"
  "rc_threads (goto i t s) = (rc_threads s)[i := t]"
  by (simp_all add: goto_def)

lemma shared_simps [simp]:
  "rc_cb (shared f s) = f (rc_cb s)" "rc_gate (shared f s) = rc_gate s"
  "rc_threads (shared f s) = rc_threads s"
  by (simp_all add: shared_def)

lemma gate_inv_goto_outside:
  "gate_inv s \<Longrightarrow> i < length (rc_threads s) \<Longrightarrow> in_gate t = in_gate (rc_threads s ! i) \<Longrightarrow>
     gate_inv (goto i t (shared f s))"
  by (auto simp: gate_inv_def nth_list_update)

lemma gate_inv_goto:
  "gate_inv s \<Longrightarrow> i < length (rc_threads s) \<Longrightarrow> in_gate t = in_gate (rc_threads s ! i) \<Longrightarrow>
     gate_inv (goto i t s)"
  by (auto simp: gate_inv_def nth_list_update)

lemma gate_inv_step: "gate_inv s \<Longrightarrow> gate_inv (tstep s x)"
proof -
  assume inv: "gate_inv s"
  obtain i clk where x: "x = (i, clk)" by (cases x)
  show ?thesis
  proof (cases "i < length (rc_threads s)")
    case False
    then show ?thesis using inv x by (simp add: tstep_def)
  next
    case True
    note stay = gate_inv_goto[OF inv True] gate_inv_goto_outside[OF inv True]
    show ?thesis
    proof (cases "rc_threads s ! i")
      case TGate
      then show ?thesis
        using inv True x by (auto simp: tstep_def gate_inv_def nth_list_update)
    next
      case (TUnlock a)
      then show ?thesis
        using inv True x by (auto simp: tstep_def gate_inv_def nth_list_update)
    qed (use True x inv stay in
        \<open>auto simp: tstep_def Let_def cas_state_def split: breaker_state.splits\<close>)
  qed
qed

interpretation gate: state_machine tstep gate_inv
  by unfold_locales (rule gate_inv_step)


section \<open>Concurrent probing\<close>

text \<open>A thread that has taken a probe slot, and one that is about to give its increment back.\<close>

fun won :: "thread \<Rightarrow> bool" where
  "won (TStamp _) = True"
| "won (TUnlock a) = a"
| "won (TDone r) = is_ok r"
| "won _ = False"

fun undoing :: "thread \<Rightarrow> bool" where
  "undoing (TSub _) = True"
| "undoing _ = False"

text \<open>The states a caller of \<open>check\<close> goes through on a half-open breaker, within the lease.\<close>

fun probing :: "(nat \<Rightarrow> bool) \<Rightarrow> thread \<Rightarrow> bool" where
  "probing ok TCheck = True"
| "probing ok TGate = True"
| "probing ok (TAdd now) = ok now"
| "probing ok (TStamp now) = ok now"
| "probing ok (TSub now) = ok now"
| "probing ok (TLoadClaimed now) = ok now"
| "probing ok (TUnlock a) = True"
| "probing ok (TDone r) = True"
| "probing ok _ = False"

definition lease_ok :: "nat \<Rightarrow> breaker \<Rightarrow> nat \<Rightarrow> bool" where
  "lease_ok m b now \<longleftrightarrow> m \<le> now \<and> now < m + as_millis (open_duration (cb_config b))"

definition probe_inv :: "nat \<Rightarrow> breaker \<Rightarrow> race \<Rightarrow> bool" where
  "probe_inv m b0 s \<longleftrightarrow>
     gate_inv s \<and> enabled (cb_config b0) \<and>
     (\<forall>t \<in> set (rc_threads s). probing (lease_ok m b0) t) \<and>
     state (rc_cb s) = HalfOpen \<and> cb_config (rc_cb s) = cb_config b0 \<and>
     cb_baseline (rc_cb s) = cb_baseline b0 \<and>
     m \<le> cb_probe_claimed_at_millis (rc_cb s) \<and>
     cb_half_open_probes (rc_cb s) =
       cb_half_open_probes b0 + count_if won (rc_threads s) + count_if undoing (rc_threads s) \<and>
     cb_half_open_probes b0 + count_if won (rc_threads s) \<le> half_open_max_probes (cb_config b0)"

lemma undoing_in_gate: "undoing t \<Longrightarrow> in_gate t"
  by (cases t) auto

lemma no_other_undoing:
  assumes "gate_inv s" "i < length (rc_threads s)" "in_gate (rc_threads s ! i)"
    and "\<not> undoing (rc_threads s ! i)"
  shows "count_if undoing (rc_threads s) = 0"
proof (rule count_if_zero, rule ballI)
  fix t assume "t \<in> set (rc_threads s)"
  then obtain j where j: "j < length (rc_threads s)" "t = rc_threads s ! j"
    by (auto simp: in_set_conv_nth)
  show "\<not> undoing t"
  proof
    assume "undoing t"
    then have "rc_gate s = Some j" using assms(1) j undoing_in_gate by (auto simp: gate_inv_def)
    moreover have "rc_gate s = Some i" using assms(1-3) by (auto simp: gate_inv_def)
    ultimately show False using assms(4) j \<open>undoing t\<close> by simp
  qed
qed

lemma set_list_update_all:
  "(\<forall>x \<in> set xs. P x) \<Longrightarrow> P y \<Longrightarrow> \<forall>x \<in> set (xs[i := y]). P x"
  using set_update_subset_insert[of xs i y] by auto

text \<open>One thread moves on: what its new position owes to the invariant.\<close>

lemma probe_inv_move:
  assumes "probe_inv m b0 s" "i < length (rc_threads s)"
    and "gate_inv s'" "rc_threads s' = (rc_threads s)[i := t]" "probing (lease_ok m b0) t"
    and "state (rc_cb s') = HalfOpen" "cb_config (rc_cb s') = cb_config b0"
    and "cb_baseline (rc_cb s') = cb_baseline b0" "m \<le> cb_probe_claimed_at_millis (rc_cb s')"
    and "cb_half_open_probes (rc_cb s') + of_bool (won (rc_threads s ! i)) + of_bool (undoing (rc_threads s ! i))
       = cb_half_open_probes (rc_cb s) + of_bool (won t) + of_bool (undoing t)"
    and "won t \<Longrightarrow> \<not> won (rc_threads s ! i) \<Longrightarrow>
       cb_half_open_probes b0 + count_if won (rc_threads s) < half_open_max_probes (cb_config b0)"
  shows "probe_inv m b0 s'"
proof -
  note I = assms(1)[unfolded probe_inv_def]
  have "\<forall>x \<in> set ((rc_threads s)[i := t]). probing (lease_ok m b0) x"
    using I assms(5) by (intro set_list_update_all) auto
  moreover note count_if_update[OF assms(2), of won t] count_if_update[OF assms(2), of undoing t]
  ultimately show ?thesis
    using I assms(3,4,6-11) by (cases "won t"; cases "won (rc_threads s ! i)")
      (auto simp: probe_inv_def of_bool_def split: if_splits)
qed

lemma probe_inv_TAdd:
  assumes "probe_inv m b0 s" "i < length (rc_threads s)" "rc_threads s ! i = TAdd now"
    and "half_open_max_probes (cb_config b0) < u64_max"
  shows "cb_half_open_probes b0 + count_if won (rc_threads s) = cb_half_open_probes (rc_cb s)"
    and "fetch_add1 (cb_half_open_probes (rc_cb s)) = cb_half_open_probes (rc_cb s) + 1"
proof -
  note I = assms(1)[unfolded probe_inv_def]
  have none: "count_if undoing (rc_threads s) = 0"
    using I assms(2,3) by (intro no_other_undoing[of s i]) auto
  have "cb_half_open_probes (rc_cb s) < u64_max" using I none assms(4) by linarith
  then show "fetch_add1 (cb_half_open_probes (rc_cb s)) = cb_half_open_probes (rc_cb s) + 1"
    by (rule fetch_add1_small)
  show "cb_half_open_probes b0 + count_if won (rc_threads s) = cb_half_open_probes (rc_cb s)"
    using I none by simp
qed

lemma probe_inv_TSub:
  assumes "probe_inv m b0 s" "i < length (rc_threads s)" "rc_threads s ! i = TSub now"
    and "half_open_max_probes (cb_config b0) < u64_max"
  shows "fetch_sub1 (cb_half_open_probes (rc_cb s)) + 1 = cb_half_open_probes (rc_cb s)"
proof -
  note I = assms(1)[unfolded probe_inv_def]
  have pos: "0 < count_if undoing (rc_threads s)"
    using assms(2,3) by (intro count_if_pos[of i]) auto
  have gate: "gate_inv (goto i (TLoadClaimed now) s)"
    using I assms(2,3) by (intro gate_inv_goto) auto
  have "count_if undoing ((rc_threads s)[i := TLoadClaimed now]) = 0"
    using no_other_undoing[OF gate, of i] assms(2) by simp
  then have "count_if undoing (rc_threads s) \<le> 1"
    using count_if_update[OF assms(2), of undoing "TLoadClaimed now"] assms(3) by simp
  then have "cb_half_open_probes (rc_cb s) \<le> u64_max" "0 < cb_half_open_probes (rc_cb s)"
    using I assms(4) pos by linarith+
  then show ?thesis by (cases "cb_half_open_probes (rc_cb s)") (simp_all add: fetch_sub1_def)
qed

lemma probe_inv_step:
  assumes "probe_inv m b0 s" "lease_ok m b0 (elapsed_millis b0 (snd x))"
    and "half_open_max_probes (cb_config b0) < u64_max"
  shows "probe_inv m b0 (tstep s x)"
proof -
  obtain i clk where x: "x = (i, clk)" by (cases x)
  note I = assms(1)[unfolded probe_inv_def]
  have gate: "gate_inv (tstep s x)" using I gate_inv_step by blast
  have cfg: "cb_config (rc_cb s) = cb_config b0" "state (rc_cb s) = HalfOpen"
    "cb_baseline (rc_cb s) = cb_baseline b0" "m \<le> cb_probe_claimed_at_millis (rc_cb s)"
    using I by simp_all
  show ?thesis
  proof (cases "i < length (rc_threads s)")
    case False
    then show ?thesis using assms(1) x by (simp add: tstep_def)
  next
    case True
    have mine: "probing (lease_ok m b0) (rc_threads s ! i)" using I True by simp
    have elapsed: "elapsed_millis (rc_cb s) clk = elapsed_millis b0 clk"
      using cfg by (simp add: elapsed_millis_def)
    note move = probe_inv_move[OF assms(1) True gate]
    show ?thesis
    proof (cases "rc_threads s ! i")
      case TCheck
      show ?thesis by (rule move[of TGate])
        (use True TCheck x cfg I in \<open>simp_all add: tstep_def\<close>)
    next
      case TGate
      show ?thesis
      proof (cases "rc_gate s")
        case None
        show ?thesis by (rule move[of "TAdd (elapsed_millis b0 clk)"])
          (use True TGate None x cfg elapsed assms(2) in \<open>simp_all add: tstep_def\<close>)
      qed (use True TGate x assms(1) in \<open>simp add: tstep_def\<close>)
    next
      case (TAdd now)
      note add = probe_inv_TAdd[OF assms(1) True TAdd assms(3)]
      show ?thesis
      proof (cases "cb_half_open_probes (rc_cb s) < half_open_max_probes (cb_config b0)")
        case lt: True
        show ?thesis by (rule move[of "TStamp now"])
          (use True TAdd lt x cfg add mine in \<open>simp_all add: tstep_def state_def\<close>)
      next
        case False
        show ?thesis by (rule move[of "TSub now"])
          (use True TAdd False x cfg add mine in \<open>simp_all add: tstep_def state_def\<close>)
      qed
    next
      case (TStamp now)
      show ?thesis by (rule move[of "TUnlock True"])
        (use True TStamp x cfg mine in \<open>simp_all add: tstep_def state_def lease_ok_def\<close>)
    next
      case (TSub now)
      show ?thesis by (rule move[of "TLoadClaimed now"])
        (use True TSub x cfg mine probe_inv_TSub[OF assms(1) True TSub assms(3)] in
          \<open>simp_all add: tstep_def state_def\<close>)
    next
      case (TLoadClaimed now)
      have "\<not> as_millis (open_duration (cb_config b0)) \<le> now - cb_probe_claimed_at_millis (rc_cb s)"
        using cfg mine TLoadClaimed by (auto simp: lease_ok_def)
      then show ?thesis by (intro move[of "TUnlock False"])
        (use True TLoadClaimed x cfg in \<open>simp_all add: tstep_def Let_def\<close>)
    next
      case (TUnlock a)
      show ?thesis by (rule move[of "TDone (if a then Inr () else backoff (rc_cb s))"])
        (use True TUnlock x cfg in \<open>simp_all add: tstep_def backoff_def\<close>)
    qed (use mine True assms(1) x in \<open>simp_all add: tstep_def\<close>)
  qed
qed

lemma probe_inv_run:
  assumes "probe_inv m b0 s" "half_open_max_probes (cb_config b0) < u64_max"
    and "\<forall>x \<in> set sched. lease_ok m b0 (elapsed_millis b0 (snd x))"
  shows "probe_inv m b0 (run_threads s sched)"
  using assms unfolding run_threads_def
proof (induction sched arbitrary: s)
  case (Cons x sched)
  have "probe_inv m b0 (tstep s x)"
    using Cons.prems by (intro probe_inv_step) simp_all
  then show ?case using Cons.IH[of "tstep s x"] Cons.prems by simp
qed simp

text \<open>
  C40: Any number of threads checking a half-open breaker at once, under every interleaving of their
  atomic actions: as long as no clock reading leaves the lease of the last claim, the threads
  admitted so far and the slots claimed before never exceed \<open>half_open_max_probes\<close>, and never two
  threads are inside the probe gate.
\<close>

theorem concurrent_probes_bounded:
  fixes b :: breaker and n m :: nat and sched :: "(nat \<times> nat) list"
  assumes "enabled (cb_config b)" "state b = HalfOpen"
    and "half_open_max_probes (cb_config b) < u64_max"
    and "cb_half_open_probes b \<le> half_open_max_probes (cb_config b)"
    and "m \<le> cb_probe_claimed_at_millis b"
    and "\<forall>(i, clk) \<in> set sched. m \<le> elapsed_millis b clk
           \<and> elapsed_millis b clk < m + as_millis (open_duration (cb_config b))"
  defines "s \<equiv> run_threads (start b (replicate n TCheck)) sched"
  shows "cb_half_open_probes b + count_if (\<lambda>t. t = TDone (Inr ())) (rc_threads s)
      \<le> half_open_max_probes (cb_config b)
    \<and> count_if in_gate (rc_threads s) \<le> 1"
proof -
  have none: "count_if p (replicate n TCheck) = 0" if "\<not> p TCheck" for p
    using that by (intro count_if_zero) auto
  have "probe_inv m b (start b (replicate n TCheck))"
    using assms(1-5) by (simp add: probe_inv_def start_def gate_inv_def none)
  moreover have "\<forall>x \<in> set sched. lease_ok m b (elapsed_millis b (snd x))"
    using assms(6) by (auto simp: lease_ok_def)
  ultimately have inv: "probe_inv m b s"
    unfolding s_def by (intro probe_inv_run assms(3))
  have "count_if (\<lambda>t. t = TDone (Inr ())) (rc_threads s) \<le> count_if won (rc_threads s)"
  proof -
    have "count_if (\<lambda>t. t = TDone (Inr ())) ts \<le> count_if won ts" for ts
      by (induction ts) auto
    then show ?thesis .
  qed
  moreover have "count_if in_gate (rc_threads s) \<le> 1"
  proof -
    have "gate_inv s" using inv by (simp add: probe_inv_def)
    then have "{i. i < length (rc_threads s) \<and> in_gate (rc_threads s ! i)} \<subseteq> set_option (rc_gate s)"
      by (auto simp: gate_inv_def)
    then have "card {i. i < length (rc_threads s) \<and> in_gate (rc_threads s ! i)}
        \<le> card (set_option (rc_gate s))"
      by (intro card_mono) simp_all
    also have "\<dots> \<le> 1" by (cases "rc_gate s") simp_all
    finally show ?thesis by (simp add: count_if_def length_filter_conv_card)
  qed
  ultimately show ?thesis using inv by (auto simp: probe_inv_def)
qed

theorem concurrent_probes_bounded_witness:
  "let b = (with_clock server_config 0)\<lparr>cb_state := as_u8 HalfOpen\<rparr>;
       s = run_threads (start b (replicate 2 TCheck))
         [(0, 5), (1, 6), (0, 7), (1, 7), (0, 8), (0, 9), (0, 9), (1, 9), (1, 9), (1, 9)]
   in count_if (\<lambda>t. t = TDone (Inr ())) (rc_threads s) \<le> 1 \<and> rc_threads s ! 0 = TDone (Inr ())"
proof -
  define b where "b = (with_clock server_config 0)\<lparr>cb_state := as_u8 HalfOpen\<rparr>"
  define sched :: "(nat \<times> nat) list" where
    "sched = [(0, 5), (1, 6), (0, 7), (1, 7), (0, 8), (0, 9), (0, 9), (1, 9), (1, 9), (1, 9)]"
  have "cb_half_open_probes b
      + count_if (\<lambda>t. t = TDone (Inr ())) (rc_threads (run_threads (start b (replicate 2 TCheck)) sched))
      \<le> half_open_max_probes (cb_config b)
    \<and> count_if in_gate (rc_threads (run_threads (start b (replicate 2 TCheck)) sched)) \<le> 1"
    by (rule concurrent_probes_bounded[where m = 0])
      (simp_all add: b_def sched_def with_clock_def server_config_def state_def from_u8_def
        elapsed_millis_def as_millis_def)
  moreover have "half_open_max_probes (cb_config b) = 1"
    by (simp add: b_def with_clock_def server_config_def)
  moreover have "rc_threads (run_threads (start b (replicate 2 TCheck)) sched) ! 0 = TDone (Inr ())"
    by (simp add: b_def sched_def with_clock_def server_config_def state_def from_u8_def
        elapsed_millis_def as_millis_def run_threads_def start_def tstep_def goto_def shared_def
        fetch_add1_def fetch_sub1_def numeral_2_eq_2 Let_def)
  ultimately show ?thesis by (simp add: b_def sched_def Let_def)
qed

lemmas race_eval = with_clock_def server_config_def state_def from_u8_def backoff_def
  elapsed_millis_def as_millis_def run_threads_def start_def tstep_def goto_def shared_def
  fetch_add1_def fetch_sub1_def Let_def

text \<open>
  The comment in \<open>check_open\<close> that \<open>half_open_probes\<close> is 0 whenever the breaker is \<open>Open\<close> does
  not hold under every interleaving. A \<open>check\<close> that read \<open>HalfOpen\<close> just before another thread's
  probe failure tripped the breaker increments the counter afterwards: both calls have returned,
  the breaker is \<open>Open\<close>, the late caller was admitted, and one slot is still counted. A late
  \<open>fetch_sub\<close> after \<open>trip\<close>'s store leaves \<open>usize::MAX\<close>.
\<close>

theorem open_breaker_counter_residue:
  "let b = (with_clock server_config 0)\<lparr>cb_state := as_u8 HalfOpen\<rparr>;
       s = run_threads (start b [TCheck, TRecord Failure])
         [(0, 5), (1, 5), (1, 5), (1, 5), (1, 5), (0, 6), (0, 7), (0, 8), (0, 9), (1, 9)];
       s' = run_threads (start (b\<lparr>cb_half_open_probes := 1\<rparr>) [TCheck, TRecord Failure])
         [(0, 5), (0, 5), (0, 5), (1, 5), (1, 5), (1, 5), (1, 5), (1, 6), (0, 7), (0, 8), (0, 9)]
   in (rc_threads s, state (rc_cb s), cb_half_open_probes (rc_cb s))
        = ([TDone (Inr ()), TRecorded], Open, 1)
    \<and> (rc_threads s', state (rc_cb s'), cb_half_open_probes (rc_cb s'))
        = ([TDone (Inl \<lparr>retry_after = millis 50\<rparr>), TRecorded], Open, u64_max)"
proof -
  define b where "b = (with_clock server_config 0)\<lparr>cb_state := as_u8 HalfOpen\<rparr>"
  define s where "s = run_threads (start b [TCheck, TRecord Failure])
         [(0, 5), (1, 5), (1, 5), (1, 5), (1, 5), (0, 6), (0, 7), (0, 8), (0, 9), (1, 9)]"
  define s' where "s' = run_threads (start (b\<lparr>cb_half_open_probes := 1\<rparr>) [TCheck, TRecord Failure])
         [(0, 5), (0, 5), (0, 5), (1, 5), (1, 5), (1, 5), (1, 5), (1, 6), (0, 7), (0, 8), (0, 9)]"
  note ev = race_eval b_def HALF_OPEN_PROBE_BACKOFF_def
  have "rc_threads s = [TDone (Inr ()), TRecorded]" by (simp add: ev s_def)
  moreover have "state (rc_cb s) = Open" by (simp add: ev s_def)
  moreover have "cb_half_open_probes (rc_cb s) = 1" by (simp add: ev s_def)
  moreover have "rc_threads s' = [TDone (Inl \<lparr>retry_after = millis 50\<rparr>), TRecorded]"
    by (simp add: ev s'_def)
  moreover have "state (rc_cb s') = Open" by (simp add: ev s'_def)
  moreover have "cb_half_open_probes (rc_cb s') = u64_max" by (simp add: ev s'_def)
  ultimately show ?thesis by (simp add: s_def s'_def b_def Let_def)
qed

end
