(* ===== verification/Retry.thy ===== *)
theory Retry
  imports Breaker
begin

text \<open>
  What to do with a failed response (\<^verbatim>\<open>fuigo-circuit-breaker/src/retry_policy.rs\<close> for HTTP,
  \<^verbatim>\<open>grpc.rs\<close> for gRPC codes) and the per-key breaker registry (\<^verbatim>\<open>registry.rs\<close>). An \<open>Arc\<close> is an
  index into an arena of breakers, so that two handles are the same breaker exactly when the
  indices are equal.
\<close>

section \<open>Retry policies\<close>

datatype disposition = Retryable | AuthRefresh | Terminal

record retry_policy =
  rp_retryable :: "nat list"
  rp_auth_refresh :: "nat list"
  rp_terminal :: "nat list"
  rp_default :: disposition

definition classify :: "retry_policy \<Rightarrow> nat \<Rightarrow> disposition option" where
  "classify p status =
     (if 200 \<le> status \<and> status < 300 then None
      else if status \<in> set (rp_auth_refresh p) then Some AuthRefresh
      else if status \<in> set (rp_terminal p) then Some Terminal
      else if status \<in> set (rp_retryable p) \<or> 500 \<le> status \<and> status < 600 then Some Retryable
      else Some (rp_default p))"

definition should_retry :: "retry_policy \<Rightarrow> nat \<Rightarrow> bool" where
  "should_retry p status \<longleftrightarrow> classify p status = Some Retryable"

definition policy_server :: retry_policy where
  "policy_server = \<lparr>rp_retryable = [429], rp_auth_refresh = [], rp_terminal = [], rp_default = Terminal\<rparr>"

definition policy_edge_client :: retry_policy where
  "policy_edge_client =
     \<lparr>rp_retryable = [429], rp_auth_refresh = [], rp_terminal = [525, 526], rp_default = Terminal\<rparr>"

definition policy_client_storage :: retry_policy where
  "policy_client_storage =
     \<lparr>rp_retryable = [], rp_auth_refresh = [401], rp_terminal = [400, 403, 404, 525, 526],
      rp_default = Retryable\<rparr>"

datatype grpc_code =
    GOk | GCancelled | GUnknown | GInvalidArgument | GDeadlineExceeded | GNotFound | GAlreadyExists
  | GPermissionDenied | GResourceExhausted | GFailedPrecondition | GAborted | GOutOfRange
  | GUnimplemented | GInternal | GUnavailable | GDataLoss | GUnauthenticated

definition grpc_default :: "grpc_code list" where
  "grpc_default = [GUnavailable, GUnknown]"

definition grpc_permissive :: "grpc_code list" where
  "grpc_permissive = [GUnavailable, GUnknown, GInternal, GDeadlineExceeded]"

definition grpc_is_retryable :: "grpc_code list \<Rightarrow> grpc_code \<Rightarrow> bool" where
  "grpc_is_retryable p c \<longleftrightarrow> c \<in> set p"

definition grpc_classify :: "grpc_code list \<Rightarrow> grpc_code \<Rightarrow> disposition option" where
  "grpc_classify p c =
     (if c = GOk then None else if grpc_is_retryable p c then Some Retryable else Some Terminal)"


section \<open>The registry\<close>

record registry =
  reg_config :: breaker_config
  reg_breakers :: "(ustring, nat) hmap"
  reg_arena :: "breaker list"

definition registry_new :: "breaker_config \<Rightarrow> registry" where
  "registry_new c = \<lparr>reg_config = c, reg_breakers = [], reg_arena = []\<rparr>"

definition registry_get :: "nat \<Rightarrow> ustring \<Rightarrow> registry \<Rightarrow> nat option \<times> registry" where
  "registry_get now key r =
     (if \<not> enabled (reg_config r) then (None, r)
      else case hm_get (reg_breakers r) key of
          Some cb \<Rightarrow> (Some cb, r)
        | None \<Rightarrow>
            (let cb = length (reg_arena r) in
             (Some cb, r\<lparr>reg_breakers := hm_insert key cb (reg_breakers r),
                          reg_arena := reg_arena r @ [with_clock (reg_config r) now]\<rparr>)))"

text \<open>A caller works on the breaker it holds; the registry's map does not change.\<close>

definition registry_use :: "nat \<Rightarrow> cb_op \<Rightarrow> registry \<Rightarrow> registry" where
  "registry_use cb op r =
     (if cb < length (reg_arena r)
      then r\<lparr>reg_arena := (reg_arena r)[cb := cb_step (reg_arena r ! cb) op]\<rparr> else r)"

datatype reg_event = RegGet nat ustring | RegUse nat cb_op

fun reg_step :: "registry \<Rightarrow> reg_event \<Rightarrow> registry" where
  "reg_step r (RegGet now key) = snd (registry_get now key r)"
| "reg_step r (RegUse cb op) = registry_use cb op r"

definition reg_inv :: "registry \<Rightarrow> bool" where
  "reg_inv r \<longleftrightarrow>
     half_open_max_probes (reg_config r) \<le> u64_max \<and>
     (\<forall>b \<in> set (reg_arena r). cb_inv b) \<and>
     (\<forall>k cb. hm_get (reg_breakers r) k = Some cb \<longrightarrow> cb < length (reg_arena r)) \<and>
     inj_on (hm_get (reg_breakers r)) (dom (hm_get (reg_breakers r)))"

lemma reg_inv_get: "reg_inv r \<Longrightarrow> reg_inv (snd (registry_get now key r))"
proof -
  assume inv: "reg_inv r"
  have fresh: "hm_get (reg_breakers r) k \<noteq> Some (length (reg_arena r))" for k
    using inv by (auto simp: reg_inv_def)
  show ?thesis
  proof (cases "enabled (reg_config r) \<and> hm_get (reg_breakers r) key = None")
    case True
    have "inj_on ((hm_get (reg_breakers r))(key \<mapsto> length (reg_arena r)))
        (insert key (dom (hm_get (reg_breakers r))))"
    proof (rule inj_onI)
      fix k k' assume kk: "k \<in> insert key (dom (hm_get (reg_breakers r)))"
        "k' \<in> insert key (dom (hm_get (reg_breakers r)))"
        "((hm_get (reg_breakers r))(key \<mapsto> length (reg_arena r))) k
          = ((hm_get (reg_breakers r))(key \<mapsto> length (reg_arena r))) k'"
      show "k = k'"
      proof (cases "k = key \<or> k' = key")
        case True
        then show ?thesis using kk(3) fresh[of k] fresh[of k'] by (auto split: if_splits)
      next
        case False
        then show ?thesis using kk inv by (auto simp: reg_inv_def inj_on_def)
      qed
    qed
    with True inv show ?thesis
      by (auto simp: registry_get_def reg_inv_def Let_def hmap_simps less_SucI cb_inv_with_clock)
  next
    case False
    with inv show ?thesis by (auto simp: registry_get_def split: option.split)
  qed
qed

lemma reg_inv_step: "reg_inv r \<Longrightarrow> reg_inv (reg_step r ev)"
proof (cases ev)
  case (RegUse cb op)
  assume inv: "reg_inv r"
  have "\<forall>b \<in> set ((reg_arena r)[cb := cb_step (reg_arena r ! cb) op]). cb_inv b"
    if "cb < length (reg_arena r)"
    using inv that cb_inv_step[of "reg_arena r ! cb" op]
      set_update_subset_insert[of "reg_arena r" cb "cb_step (reg_arena r ! cb) op"]
    by (auto simp: reg_inv_def)
  with RegUse inv show ?thesis by (simp add: registry_use_def reg_inv_def)
qed (simp add: reg_inv_get)

interpretation reg: state_machine reg_step reg_inv
  by unfold_locales (rule reg_inv_step)

lemma reg_step_keeps:
  "hm_get (reg_breakers r) key = Some cb \<Longrightarrow> hm_get (reg_breakers (reg_step r ev)) key = Some cb"
  by (cases ev) (auto simp: registry_get_def registry_use_def Let_def hmap_simps split: option.split)

lemma reg_run_keeps:
  "hm_get (reg_breakers r) key = Some cb \<Longrightarrow>
     hm_get (reg_breakers (foldl reg_step r evs)) key = Some cb"
  by (induction evs arbitrary: r) (auto simp: reg_step_keeps)

lemma reg_step_config [simp]: "reg_config (reg_step r ev) = reg_config r"
  by (cases ev) (auto simp: registry_get_def registry_use_def Let_def split: option.split)

lemma reg_run_config [simp]: "reg_config (foldl reg_step r evs) = reg_config r"
  by (induction evs arbitrary: r) auto

lemma registry_get_stored:
  "fst (registry_get now key r) = Some cb \<Longrightarrow>
     enabled (reg_config r) \<and> hm_get (reg_breakers (snd (registry_get now key r))) key = Some cb"
  by (auto simp: registry_get_def Let_def hmap_simps split: if_splits option.splits)

text \<open>
  Whatever the callers do in between, a registry hands out the same breaker for the same key
  and different breakers for different keys, and every breaker it holds satisfies the breaker
  invariant.
\<close>

theorem registry_identity:
  fixes c :: breaker_config and evs evs' :: "reg_event list" and t t' :: nat and key key' :: ustring
  assumes "half_open_max_probes c \<le> u64_max"
  defines "r \<equiv> foldl reg_step (registry_new c) evs"
  defines "r1 \<equiv> foldl reg_step (snd (registry_get t key r)) evs'"
  assumes got: "fst (registry_get t key r) = Some cb" "fst (registry_get t' key' r1) = Some cb'"
  shows "(cb = cb' \<longleftrightarrow> key = key') \<and> (\<forall>b \<in> set (reg_arena r1). cb_inv b)"
proof -
  have inv0: "reg_inv (registry_new c)"
    using assms(1) by (simp add: reg_inv_def registry_new_def)
  have inv: "reg_inv r1"
    unfolding r1_def r_def by (intro reg.run_inv reg_inv_get inv0)
  let ?r2 = "snd (registry_get t' key' r1)"
  have inv2: "reg_inv ?r2" using inv by (rule reg_inv_get)
  have "hm_get (reg_breakers r1) key = Some cb"
    unfolding r1_def by (rule reg_run_keeps, rule conjunct2[OF registry_get_stored[OF got(1)]])
  then have k: "hm_get (reg_breakers ?r2) key = Some cb"
    using reg_step_keeps[of r1 key cb "RegGet t' key'"] by simp
  have k': "hm_get (reg_breakers ?r2) key' = Some cb'"
    using registry_get_stored[OF got(2)] by simp
  have "inj_on (hm_get (reg_breakers ?r2)) (dom (hm_get (reg_breakers ?r2)))"
    using inv2 by (simp add: reg_inv_def)
  then have "cb = cb' \<longleftrightarrow> key = key'"
    using k k' by (metis domI inj_onD option.inject)
  then show ?thesis using inv by (simp add: reg_inv_def)
qed

theorem registry_identity_witness:
  "\<exists>r. fst (registry_get 0 (str ''a'') (registry_new server_config)) = Some 0
     \<and> r = foldl reg_step (snd (registry_get 0 (str ''a'') (registry_new server_config)))
             [RegUse 0 (Record Failure (\<lambda>_. 3))]
     \<and> (0 = (1::nat) \<longleftrightarrow> str ''a'' = str ''b'') \<and> (\<forall>b \<in> set (reg_arena r). cb_inv b)"
proof -
  have g: "fst (registry_get 0 (str ''a'') (foldl reg_step (registry_new server_config) [])) = Some 0"
    by (simp add: registry_get_def registry_new_def server_config_def Let_def)
  let ?r = "foldl reg_step (snd (registry_get 0 (str ''a'') (foldl reg_step (registry_new server_config) [])))
             [RegUse 0 (Record Failure (\<lambda>_. 3))]"
  have g': "fst (registry_get 5 (str ''b'') ?r) = Some 1"
    by (simp add: registry_get_def registry_new_def server_config_def Let_def registry_use_def
        hm_insert_def str_simps)
  have "(0 = (1::nat) \<longleftrightarrow> str ''a'' = str ''b'') \<and> (\<forall>b \<in> set (reg_arena ?r). cb_inv b)"
    by (rule registry_identity[OF _ g g']) (simp add: server_config_def)
  with g show ?thesis by auto
qed

text \<open>
  The three HTTP presets classify exactly as their documentation says, for every status: success
  is no error, a 5xx is retried unless it is listed, the origin-TLS codes 525 and 526 are final for
  clients behind the edge, and only the storage preset asks for a credential refresh.
\<close>

theorem retry_presets:
  fixes status :: nat
  shows "(should_retry policy_server status \<longleftrightarrow> status = 429 \<or> 500 \<le> status \<and> status < 600)
    \<and> (should_retry policy_edge_client status \<longleftrightarrow>
         should_retry policy_server status \<and> status \<noteq> 525 \<and> status \<noteq> 526)
    \<and> (classify policy_client_storage status =
         (if 200 \<le> status \<and> status < 300 then None
          else if status = 401 then Some AuthRefresh
          else if status \<in> {400, 403, 404, 525, 526} then Some Terminal else Some Retryable))"
  by (auto simp: should_retry_def classify_def policy_server_def policy_edge_client_def
      policy_client_storage_def)

end
