(* ===== verification/Peer_Address.thy ===== *)
theory Peer_Address
  imports Interfaces
begin

text \<open>
  Peer addresses, display names and modes: \<^verbatim>\<open>fuigo-peer/src/address.rs\<close>, \<^verbatim>\<open>mode.rs\<close> and the
  constants of \<^verbatim>\<open>limits.rs\<close> they use. The two text forms are instances of the locale \<open>codec\<close>.
\<close>

section \<open>Limits\<close>

definition MAX_NAME_CHARS :: nat where "MAX_NAME_CHARS = 64"
definition MAX_ADDRESS_SESSION_ID_CHARS :: nat where "MAX_ADDRESS_SESSION_ID_CHARS = 128"


section \<open>Addresses\<close>

definition ADDRESS_PREFIX :: ustring where "ADDRESS_PREFIX = str ''fuigo-peer:''"
definition HOST_ID_LEN :: nat where "HOST_ID_LEN = 32"
definition REF_LEN_RANGE :: "nat \<times> nat" where "REF_LEN_RANGE = (8, 12)"

datatype address_error =
  MissingPrefix | BadHostId | BadSessionId | BadIncarnation | WrongPartCount | InvalidName

record address =
  addr_host_id :: ustring
  addr_session_id :: ustring
  addr_incarnation :: nat

definition valid_session_id :: "ustring \<Rightarrow> bool" where
  "valid_session_id s \<longleftrightarrow> s \<noteq> [] \<and> length s \<le> MAX_ADDRESS_SESSION_ID_CHARS
     \<and> list_all (\<lambda>c. is_ascii_alphanumeric c \<or> c = ch CHR ''-'' \<or> c = ch CHR ''_'') s"

definition is_lower_hex :: "nat \<Rightarrow> bool" where
  "is_lower_hex c \<longleftrightarrow> is_ascii_digit c \<or> ch CHR ''a'' \<le> c \<and> c \<le> ch CHR ''f''"

definition Address_new :: "ustring \<Rightarrow> ustring \<Rightarrow> nat \<Rightarrow> (address, address_error) result" where
  "Address_new host_id session_id incarnation =
     (if str_len host_id \<noteq> HOST_ID_LEN \<or> \<not> list_all is_lower_hex host_id then Inl BadHostId
      else if \<not> valid_session_id session_id then Inl BadSessionId
      else Inr \<lparr>addr_host_id = host_id, addr_session_id = session_id, addr_incarnation = incarnation\<rparr>)"

definition Address_display :: "address \<Rightarrow> ustring" where
  "Address_display a = ADDRESS_PREFIX @ addr_host_id a @ [ch CHR ''/''] @ addr_session_id a
     @ [ch CHR ''/''] @ show_nat (addr_incarnation a)"

definition Address_from_str :: "ustring \<Rightarrow> (address, address_error) result" where
  "Address_from_str s =
     rbind (ok_or (strip_prefix ADDRESS_PREFIX s) MissingPrefix) (\<lambda>rest.
     case split_on (ch CHR ''/'') rest of
       [host, session, incarnation] \<Rightarrow>
         (if incarnation = [] \<or> \<not> list_all is_ascii_digit incarnation then Inl BadIncarnation
          else rbind (ok_or (parse_u64 incarnation) BadIncarnation) (\<lambda>n.
               rbind (Address_new host session n) (\<lambda>addr.
               if Address_display addr \<noteq> s then Inl BadIncarnation else Inr addr)))
     | _ \<Rightarrow> Inl WrongPartCount)"


section \<open>Names\<close>

definition BIDI_CONTROLS :: "nat list" where
  "BIDI_CONTROLS = [0x061C, 0x200E, 0x200F, 0x202A, 0x202B, 0x202C, 0x202D, 0x202E,
     0x2066, 0x2067, 0x2068, 0x2069]"

definition has_address_prefix_any_case :: "ustring \<Rightarrow> bool" where
  "has_address_prefix_any_case s \<longleftrightarrow>
     length ADDRESS_PREFIX \<le> length s \<and>
     map to_ascii_lower (take (length ADDRESS_PREFIX) s) = map to_ascii_lower ADDRESS_PREFIX"

definition is_valid_display_name :: "ustring \<Rightarrow> bool" where
  "is_valid_display_name name \<longleftrightarrow>
     length name \<le> MAX_NAME_CHARS \<and> \<not> has_address_prefix_any_case name
     \<and> \<not> is_ok (Address_from_str name)
     \<and> \<not> list_ex (\<lambda>c. is_control c \<or> c = 0x2028 \<or> c = 0x2029 \<or> c \<in> set BIDI_CONTROLS) name"

record name_ref =
  nr_name :: ustring
  nr_reference :: ustring

text \<open>\<open>rfind\<close> of a character, as the texts before and after it.\<close>

fun rfind_char :: "nat \<Rightarrow> ustring \<Rightarrow> (ustring \<times> ustring) option" where
  "rfind_char d [] = None"
| "rfind_char d (c # cs) = (case rfind_char d cs of
     Some (u, v) \<Rightarrow> Some (c # u, v)
   | None \<Rightarrow> if c = d then Some ([], cs) else None)"

definition parse_name_ref :: "ustring \<Rightarrow> name_ref option" where
  "parse_name_ref s =
     Option.bind (strip_suffix (str '']'') s) (\<lambda>inner.
     Option.bind (rfind_char (ch CHR ''['') inner) (\<lambda>(before, reference).
     Option.bind (strip_suffix (str '' '') before) (\<lambda>name.
       let ok_ref = (fst REF_LEN_RANGE \<le> str_len reference \<and> str_len reference \<le> snd REF_LEN_RANGE
             \<and> list_all (\<lambda>c. is_ascii_alphanumeric c \<or> c = ch CHR ''-'') reference)
       in if trim name = [] \<or> \<not> ok_ref then None
          else Some \<lparr>nr_name = name, nr_reference = reference\<rparr>)))"

datatype target = TargetAddress address | TargetNameRef name_ref | TargetName ustring

definition resolve_target :: "ustring \<Rightarrow> (target, address_error) result" where
  "resolve_target to =
     (if has_address_prefix_any_case to
      then rbind (Address_from_str to) (\<lambda>a. Inr (TargetAddress a))
      else case parse_name_ref to of
          Some nr \<Rightarrow> if \<not> is_valid_display_name (nr_name nr) then Inl InvalidName
                     else Inr (TargetNameRef nr)
        | None \<Rightarrow> if \<not> is_valid_display_name to then Inl InvalidName else Inr (TargetName to))"


section \<open>Modes\<close>

datatype peer_base =
    PBDefault | PBAcceptEdits | PBAuto | PBDontAsk | PBBypassPermissions | PBAllowAnyRule
  | PBYolo | PBAllowAll | PBAlwaysAllow

definition peer_base_all :: "peer_base list" where
  "peer_base_all = [PBDefault, PBAcceptEdits, PBAuto, PBDontAsk, PBBypassPermissions, PBAllowAnyRule,
     PBYolo, PBAllowAll, PBAlwaysAllow]"

fun base_as_str :: "peer_base \<Rightarrow> ustring" where
  "base_as_str PBDefault = str ''default''"
| "base_as_str PBAcceptEdits = str ''acceptEdits''"
| "base_as_str PBAuto = str ''auto''"
| "base_as_str PBDontAsk = str ''dontAsk''"
| "base_as_str PBBypassPermissions = str ''bypassPermissions''"
| "base_as_str PBAllowAnyRule = str ''allowAnyRule''"
| "base_as_str PBYolo = str ''yolo''"
| "base_as_str PBAllowAll = str ''allowAll''"
| "base_as_str PBAlwaysAllow = str ''alwaysAllow''"

definition base_from_name :: "ustring \<Rightarrow> peer_base option" where
  "base_from_name s = find (\<lambda>b. base_as_str b = s) peer_base_all"

record known_peer_mode =
  km_plan_active :: bool
  km_base :: peer_base
  km_session_edit_grant :: bool

datatype peer_mode = Known known_peer_mode | UnknownMode

text \<open>\<open>PartialEq for PeerMode\<close>: not an equivalence, \<open>Unknown\<close> differs from itself.\<close>

fun mode_eq :: "peer_mode \<Rightarrow> peer_mode \<Rightarrow> bool" where
  "mode_eq (Known a) (Known b) = (a = b)"
| "mode_eq _ _ = False"

definition peer_mode_new :: "bool \<Rightarrow> peer_base \<Rightarrow> bool \<Rightarrow> peer_mode" where
  "peer_mode_new plan base grant =
     Known \<lparr>km_plan_active = plan, km_base = base, km_session_edit_grant = grant\<rparr>"

definition all_known :: "peer_mode list" where
  "all_known = concat (map (\<lambda>base. concat (map (\<lambda>plan. map (\<lambda>grant. peer_mode_new plan base grant)
     [False, True]) [False, True])) peer_base_all)"

fun to_wire :: "peer_mode \<Rightarrow> ustring" where
  "to_wire UnknownMode = str ''unknown''"
| "to_wire (Known k) = base_as_str (km_base k)
     @ (if km_plan_active k then str ''+plan'' else [])
     @ (if km_session_edit_grant k then str ''+grant'' else [])"

definition from_wire :: "ustring \<Rightarrow> peer_mode" where
  "from_wire s = (case split_on (ch CHR ''+'') s of
       [] \<Rightarrow> UnknownMode
     | first # rest \<Rightarrow>
         (case base_from_name first of
            None \<Rightarrow> UnknownMode
          | Some base \<Rightarrow>
              if rest = [] then peer_mode_new False base False
              else if rest = [str ''plan''] then peer_mode_new True base False
              else if rest = [str ''grant''] then peer_mode_new False base True
              else if rest = [str ''plan'', str ''grant''] then peer_mode_new True base True
              else UnknownMode))"


section \<open>Round trips\<close>

definition address_ok :: "address \<Rightarrow> bool" where
  "address_ok a \<longleftrightarrow> is_ok (Address_new (addr_host_id a) (addr_session_id a) (addr_incarnation a))
     \<and> addr_incarnation a \<le> u64_max"

definition Address_parse :: "ustring \<Rightarrow> address option" where
  "Address_parse s = (case Address_from_str s of Inl _ \<Rightarrow> None | Inr a \<Rightarrow> Some a)"

lemma Address_new_Inr_iff [res_simps]:
  "Address_new h s n = Inr a \<longleftrightarrow>
     str_len h = HOST_ID_LEN \<and> list_all is_lower_hex h \<and> valid_session_id s
     \<and> a = \<lparr>addr_host_id = h, addr_session_id = s, addr_incarnation = n\<rparr>"
  by (auto simp: Address_new_def)

lemma slash_not_hex: "list_all is_lower_hex h \<Longrightarrow> 47 \<notin> set h"
  by (auto simp: list_all_iff is_lower_hex_def is_ascii_digit_def)

lemma slash_not_session: "valid_session_id s \<Longrightarrow> 47 \<notin> set s"
  by (auto simp: valid_session_id_def list_all_iff str_simps)

lemma slash_not_number: "47 \<notin> set (show_nat n)"
  using show_nat_char[of 47 n] by (auto simp: is_ascii_digit_def)

lemma address_parts:
  assumes "address_ok a"
  shows "split_on 47 (addr_host_id a @ [47] @ addr_session_id a @ [47] @ show_nat (addr_incarnation a))
    = [addr_host_id a, addr_session_id a, show_nat (addr_incarnation a)]"
proof -
  have h: "list_all is_lower_hex (addr_host_id a)" "valid_session_id (addr_session_id a)"
    using assms by (auto simp: address_ok_def Address_new_def split: if_splits)
  show ?thesis
    using split_on_append_sep[OF slash_not_hex[OF h(1)]]
      split_on_append_sep[OF slash_not_session[OF h(2)]]
      split_on_no_sep[OF slash_not_number[of "addr_incarnation a"]] by simp
qed

lemma Address_parse_display: "address_ok a \<Longrightarrow> Address_parse (Address_display a) = Some a"
proof -
  assume ok: "address_ok a"
  have new: "Address_new (addr_host_id a) (addr_session_id a) (addr_incarnation a) = Inr a"
    using ok by (auto simp: address_ok_def Address_new_def split: if_splits)
  have num: "parse_u64 (show_nat (addr_incarnation a)) = Some (addr_incarnation a)"
    using ok by (intro parse_u64_show_nat) (simp add: address_ok_def)
  have "strip_prefix ADDRESS_PREFIX (Address_display a)
    = Some (addr_host_id a @ [47] @ addr_session_id a @ [47] @ show_nat (addr_incarnation a))"
    by (simp add: Address_display_def)
  then show ?thesis
    using new num address_parts[OF ok] show_nat_digits
    by (simp add: Address_parse_def Address_from_str_def)
qed

lemma parse_u64_bound: "parse_u64 s = Some n \<Longrightarrow> n \<le> u64_max"
  unfolding parse_u64_def Let_def by (simp split: if_splits)

lemma Address_display_parse:
  assumes "Address_parse w = Some a"
  shows "address_ok a \<and> Address_display a = w"
proof -
  have "Address_from_str w = Inr a"
    using assms by (simp add: Address_parse_def split: sum.splits)
  then obtain h s i n where n: "parse_u64 i = Some n" "Address_new h s n = Inr a" "Address_display a = w"
    unfolding Address_from_str_def by (auto simp: res_simps split: if_splits)
  then show ?thesis
    using parse_u64_bound[OF n(1)] by (auto simp: address_ok_def Address_new_def split: if_splits)
qed

interpretation addr: codec Address_display Address_parse address_ok
  by unfold_locales (auto intro: Address_parse_display dest: Address_display_parse)

lemma base_from_name_Some: "base_from_name s = Some b \<Longrightarrow> s = base_as_str b"
  by (auto simp: base_from_name_def find_Some_iff)

lemma base_from_name_as_str [simp]: "base_from_name (base_as_str b) = Some b"
  by (cases b) (simp_all add: base_from_name_def peer_base_all_def str_def)

lemma plus_not_base: "43 \<notin> set (base_as_str b)"
  by (cases b) (simp_all add: str_def)

lemma split_to_wire:
  "split_on 43 (to_wire (Known k)) = base_as_str (km_base k)
     # (if km_plan_active k then [str ''plan''] else [])
     @ (if km_session_edit_grant k then [str ''grant''] else [])"
  using split_on_append_sep[OF plus_not_base] split_on_no_sep[OF plus_not_base]
  by (simp add: str_def)

lemma from_to_wire: "from_wire (to_wire (Known k)) = Known k"
proof -
  have ne: "str ''grant'' \<noteq> str ''plan''" by (simp add: str_def)
  show ?thesis unfolding from_wire_def using split_to_wire[of k] ne
    by (cases "km_plan_active k"; cases "km_session_edit_grant k")
      (simp_all add: peer_mode_new_def)
qed

lemma to_from_wire: "from_wire s = Known k \<Longrightarrow> s = to_wire (Known k)"
proof -
  assume k: "from_wire s = Known k"
  obtain u us where us: "split_on 43 s = u # us" by (cases "split_on 43 s") auto
  obtain b where b: "u = base_as_str b" "base_from_name u = Some b"
    using k us base_from_name_Some by (auto simp: from_wire_def split: option.splits)
  have s: "s = join [43] (u # us)" using join_split_on[of 43 s] us by simp
  show ?thesis
    using k us b s by (auto simp: from_wire_def peer_mode_new_def str_def split: if_splits)
qed

definition wire_parse :: "ustring \<Rightarrow> known_peer_mode option" where
  "wire_parse s = (case from_wire s of Known k \<Rightarrow> Some k | UnknownMode \<Rightarrow> None)"

interpretation mode: codec "\<lambda>k. to_wire (Known k)" wire_parse "\<lambda>_. True"
proof unfold_locales
  fix k show "wire_parse (to_wire (Known k)) = Some k"
    unfolding wire_parse_def by (simp only: from_to_wire peer_mode.case)
next
  fix w k
  assume "wire_parse w = Some k"
  then have "from_wire w = Known k" by (simp add: wire_parse_def split: peer_mode.splits)
  then show "True \<and> to_wire (Known k) = w" by (auto dest: to_from_wire simp del: to_wire.simps)
qed


section \<open>Properties\<close>

lemma Address_from_str_parse: "Address_from_str w = Inr a \<longleftrightarrow> Address_parse w = Some a"
  by (simp add: Address_parse_def split: sum.splits)

lemma prefix_any_case_display: "has_address_prefix_any_case (Address_display a)"
  by (simp add: has_address_prefix_any_case_def Address_display_def)

lemma rfind_char_Some: "rfind_char d s = Some (u, v) \<Longrightarrow> s = u @ d # v \<and> d \<notin> set v"
proof (induction s arbitrary: u)
  case (Cons c s)
  show ?case
  proof (cases "rfind_char d s")
    case None
    have "d \<notin> set s" using None by (induction s) (auto split: option.splits if_splits)
    then show ?thesis using Cons.prems None by (auto split: if_splits)
  next
    case (Some p)
    then show ?thesis using Cons by (cases p) auto
  qed
qed simp

lemma parse_name_ref_Some:
  assumes "parse_name_ref s = Some nr"
  shows "s = nr_name nr @ str '' ['' @ nr_reference nr @ str '']''
    \<and> 8 \<le> length (nr_reference nr) \<and> length (nr_reference nr) \<le> 12 \<and> trim (nr_name nr) \<noteq> []"
proof -
  obtain inner before r name where p: "strip_suffix (str '']'') s = Some inner"
    "rfind_char 91 inner = Some (before, r)" "strip_suffix (str '' '') before = Some name"
    "nr = \<lparr>nr_name = name, nr_reference = r\<rparr>" "trim name \<noteq> []"
    "8 \<le> str_len r" "str_len r \<le> 12"
    "list_all (\<lambda>c. is_ascii_alphanumeric c \<or> c = 45) r"
    using assms
    by (auto simp: parse_name_ref_def Option.bind_eq_Some_conv Let_def REF_LEN_RANGE_def split: if_splits)
  have "str_len r = length r"
    using p(8) by (intro str_len_ascii) (auto simp: list_all_iff str_simps)
  then show ?thesis using p rfind_char_Some[OF p(2)] by (auto simp: str_def)
qed

text \<open>
  A text is accepted as an address exactly when it is the canonical text of a valid address, so
  one session has one spelling: no second text (\<open>007\<close>, \<open>+7\<close>, upper-case hex) names the same
  session, and what \<open>Display\<close> writes is always read back.
\<close>

theorem address_canonical:
  fixes w :: ustring and a :: address
  shows "Address_from_str w = Inr a \<longleftrightarrow> address_ok a \<and> w = Address_display a"
  unfolding Address_from_str_parse by (rule addr.dec_iff)

lemma resolve_target_facts:
  fixes to :: ustring
  shows "case resolve_target to of
      Inl e \<Rightarrow> e = InvalidName \<and> \<not> has_address_prefix_any_case to
        \<or> Address_from_str to = Inl e \<and> has_address_prefix_any_case to
    | Inr (TargetAddress a) \<Rightarrow> address_ok a \<and> to = Address_display a
    | Inr (TargetNameRef nr) \<Rightarrow>
        \<not> has_address_prefix_any_case to \<and> is_valid_display_name (nr_name nr)
        \<and> to = nr_name nr @ str '' ['' @ nr_reference nr @ str '']''
        \<and> 8 \<le> length (nr_reference nr) \<and> length (nr_reference nr) \<le> 12
    | Inr (TargetName n) \<Rightarrow>
        n = to \<and> is_valid_display_name to \<and> \<not> has_address_prefix_any_case to \<and> parse_name_ref to = None"
proof (cases "has_address_prefix_any_case to")
  case True
  have "address_ok a \<and> to = Address_display a" if "Address_from_str to = Inr a" for a
    using that by (simp only: Address_from_str_parse addr.dec_iff)
  then show ?thesis
    using True by (cases "Address_from_str to") (simp_all add: resolve_target_def)
next
  case False
  then show ?thesis
    using parse_name_ref_Some by (auto simp: resolve_target_def split: option.split)
qed

text \<open>
  What a model writes in \<open>to\<close> means one thing. A text that begins with the address scheme in any
  letter case is a valid address or an error; a text routed as a name, or as \<open>name [ref]\<close>, is no
  address, its name part is a valid display name (at most 64 characters, none of them a control or
  bidirectional control), and the text is exactly the name and the bracketed reference.
\<close>

theorem resolve_target_sound:
  fixes to :: ustring
  shows "case resolve_target to of
      Inl e \<Rightarrow> e = InvalidName \<and> \<not> has_address_prefix_any_case to
        \<or> Address_from_str to = Inl e \<and> has_address_prefix_any_case to
    | Inr (TargetAddress a) \<Rightarrow> address_ok a \<and> to = Address_display a
    | Inr (TargetNameRef nr) \<Rightarrow>
        \<not> has_address_prefix_any_case to \<and> is_valid_display_name (nr_name nr)
        \<and> to = nr_name nr @ str '' ['' @ nr_reference nr @ str '']''
        \<and> 8 \<le> length (nr_reference nr) \<and> length (nr_reference nr) \<le> 12
    | Inr (TargetName n) \<Rightarrow>
        n = to \<and> is_valid_display_name to \<and> \<not> has_address_prefix_any_case to \<and> parse_name_ref to = None"
  by (rule resolve_target_facts)

text \<open>
  A canonical address always resolves to that address, never to a name.
\<close>

theorem resolve_address_roundtrip:
  fixes a :: address
  assumes "address_ok a"
  shows "resolve_target (Address_display a) = Inr (TargetAddress a)"
proof -
  have "Address_from_str (Address_display a) = Inr a"
    using assms by (simp add: Address_from_str_parse addr.dec_enc)
  then show ?thesis using prefix_any_case_display by (simp add: resolve_target_def)
qed

theorem resolve_address_roundtrip_witness:
  "resolve_target (Address_display \<lparr>addr_host_id = replicate 32 (ch CHR ''a''),
     addr_session_id = str ''s-1'', addr_incarnation = 7\<rparr>)
   = Inr (TargetAddress \<lparr>addr_host_id = replicate 32 (ch CHR ''a''),
     addr_session_id = str ''s-1'', addr_incarnation = 7\<rparr>)"
proof (rule resolve_address_roundtrip)
  have "str_len (replicate 32 (ch CHR ''a'')) = 32"
    by (simp add: str_len_def utf8_width_def sum_list_replicate)
  then show "address_ok \<lparr>addr_host_id = replicate 32 (ch CHR ''a''),
     addr_session_id = str ''s-1'', addr_incarnation = 7\<rparr>"
    by (simp add: address_ok_def Address_new_def HOST_ID_LEN_def list_all_iff is_lower_hex_def
        valid_session_id_def MAX_ADDRESS_SESSION_ID_CHARS_def str_simps)
qed

text \<open>
  Two mode strings received on the wire compare equal exactly when both are readable and they are
  the same string. Each of the 36 readable modes is listed once and survives the trip over the
  wire, and a mode this build cannot read is equal to nothing, itself included.
\<close>

theorem peer_mode_wire:
  fixes s s' :: ustring and md :: peer_mode
  shows "(mode_eq (from_wire s) (from_wire s') \<longleftrightarrow> s = s' \<and> from_wire s \<noteq> UnknownMode)
    \<and> \<not> mode_eq UnknownMode md \<and> \<not> mode_eq md UnknownMode
    \<and> map (\<lambda>md. from_wire (to_wire md)) all_known = all_known
    \<and> length all_known = 36 \<and> distinct all_known
    \<and> (md \<in> set all_known \<longleftrightarrow> md \<noteq> UnknownMode)"
proof -
  have eq: "mode_eq (from_wire s) (from_wire s') \<longleftrightarrow> s = s' \<and> from_wire s \<noteq> UnknownMode"
  proof
    assume "mode_eq (from_wire s) (from_wire s')"
    then obtain k where k: "from_wire s = Known k" "from_wire s' = Known k"
      by (cases "from_wire s"; cases "from_wire s'") auto
    then show "s = s' \<and> from_wire s \<noteq> UnknownMode"
      using to_from_wire[OF k(1)] to_from_wire[OF k(2)] by simp
  next
    assume "s = s' \<and> from_wire s \<noteq> UnknownMode"
    then show "mode_eq (from_wire s) (from_wire s')" by (cases "from_wire s") auto
  qed
  have mem: "md \<in> set all_known \<longleftrightarrow> md \<noteq> UnknownMode" for md
  proof (cases md)
    case (Known k)
    obtain p b g where "k = \<lparr>km_plan_active = p, km_base = b, km_session_edit_grant = g\<rparr>"
      by (cases k) auto
    then show ?thesis using Known
      by (cases b; cases p; cases g) (simp_all add: all_known_def peer_base_all_def peer_mode_new_def)
  qed (simp add: all_known_def peer_base_all_def peer_mode_new_def)
  have "map (\<lambda>md. from_wire (to_wire md)) all_known = all_known"
  proof (rule map_idI)
    fix md assume "md \<in> set all_known"
    then have "md \<noteq> UnknownMode" using mem by blast
    then obtain k where "md = Known k" by (metis peer_mode.exhaust)
    then show "from_wire (to_wire md) = md" by (simp only: from_to_wire)
  qed
  moreover have "length all_known = 36" "distinct all_known"
    by (simp_all add: all_known_def peer_base_all_def peer_mode_new_def)
  moreover have "\<not> mode_eq md UnknownMode" by (cases md) simp_all
  ultimately show ?thesis using eq mem by simp
qed

end
