(* ===== verification/Peer_Wire.thy ===== *)
theory Peer_Wire
  imports Peer_Address
begin

text \<open>
  What travels between hosts and the caps it is checked against: \<^verbatim>\<open>fuigo-peer/src/limits.rs\<close>,
  \<^verbatim>\<open>bounds.rs\<close>, \<^verbatim>\<open>outcome.rs\<close>, \<^verbatim>\<open>envelope.rs\<close>, \<^verbatim>\<open>wire.rs\<close>, \<^verbatim>\<open>tools.rs\<close>. The JSON decoder is not part of
  these files; a decoded value (\<open>RawEnvelope\<close>, \<open>SendMessageArgsRaw\<close>) is the input of the model.
\<close>

section \<open>Caps\<close>

definition MAX_BODY_BYTES :: nat where "MAX_BODY_BYTES = 32 * 1024"
definition MAX_FRAME_BYTES :: nat where "MAX_FRAME_BYTES = 64 * 1024"
definition LIST_PAGE_ROWS :: nat where "LIST_PAGE_ROWS = 64"
definition MAX_LIST_ROWS :: nat where "MAX_LIST_ROWS = 256"
definition DENIAL_RING :: nat where "DENIAL_RING = 16"
definition MAX_KEYS_PER_DENIAL :: nat where "MAX_KEYS_PER_DENIAL = 8"
definition MAX_DENIAL_STAMPS :: nat where "MAX_DENIAL_STAMPS = DENIAL_RING * MAX_KEYS_PER_DENIAL"
definition MAX_REFUSE_REASON_BYTES :: nat where "MAX_REFUSE_REASON_BYTES = 1024"
definition MAX_SUMMARY_BYTES :: nat where "MAX_SUMMARY_BYTES = 512"
definition MAX_TO_BYTES :: nat where "MAX_TO_BYTES = 512"
definition MAX_ID_BYTES :: nat where "MAX_ID_BYTES = 128"
definition MAX_DENIAL_FIELD_BYTES :: nat where "MAX_DENIAL_FIELD_BYTES = 128"
definition WIRE_VERSION :: nat where "WIRE_VERSION = 1"
definition MAX_REASON_BYTES :: nat where "MAX_REASON_BYTES = 256"
definition MAX_LIST_PAGES :: nat where "MAX_LIST_PAGES = MAX_LIST_ROWS div LIST_PAGE_ROWS"

lemmas wire_caps = MAX_BODY_BYTES_def MAX_FRAME_BYTES_def LIST_PAGE_ROWS_def MAX_LIST_ROWS_def
  DENIAL_RING_def MAX_KEYS_PER_DENIAL_def MAX_DENIAL_STAMPS_def MAX_REFUSE_REASON_BYTES_def
  MAX_SUMMARY_BYTES_def MAX_TO_BYTES_def MAX_ID_BYTES_def MAX_DENIAL_FIELD_BYTES_def
  MAX_REASON_BYTES_def MAX_LIST_PAGES_def

datatype bounds_error =
    TooLong string string nat nat
  | TooMany string nat nat
  | BadName string

definition max_bytes :: "string \<Rightarrow> ustring \<Rightarrow> nat \<Rightarrow> (unit, bounds_error) result" where
  "max_bytes field v mx =
     (if mx < str_len v then Inl (TooLong field ''bytes'' mx (str_len v)) else Inr ())"

lemma max_bytes_Inr_iff [res_simps]: "max_bytes field v mx = Inr u \<longleftrightarrow> str_len v \<le> mx"
  by (auto simp: max_bytes_def)

lemma rbind_unit_ok [res_simps]: "rbind r (\<lambda>_. q) = Inr u \<longleftrightarrow> (\<exists>a. r = Inr a) \<and> q = Inr u"
  by (cases r) auto

lemma if_err_Inr_iff [res_simps]: "(if b then Inl e else r) = Inr u \<longleftrightarrow> \<not> b \<and> r = Inr u"
  by simp

text \<open>A loop whose body may return early with an error.\<close>

fun for_all :: "('a \<Rightarrow> (unit, 'e) result) \<Rightarrow> 'a list \<Rightarrow> (unit, 'e) result" where
  "for_all f [] = Inr ()"
| "for_all f (x # xs) = rbind (f x) (\<lambda>_. for_all f xs)"

lemma for_all_Inr_iff [res_simps]: "for_all f xs = Inr () \<longleftrightarrow> (\<forall>x \<in> set xs. f x = Inr ())"
  by (induction xs) (auto simp: res_simps)


section \<open>Outcomes and envelopes\<close>

datatype hold_reason = ModeMismatch | LoopGuard | SenderDenied | Integrity | PolicyHold

datatype reject_reason =
    Unavailable | NoOperator | Saturated | RateLimited | StaleAddress | Ambiguous | PolicyRefused
  | TooLarge

datatype delivery_outcome =
    Delivered
  | Held hold_reason nat
  | Watching
  | Rejected reject_reason
  | UnknownOutcome

datatype operator_kind = OpHuman | OpAuto | OpNone

record denial_stamp =
  ds_tool_kind :: ustring
  ds_target_hash :: ustring

record envelope =
  env_message_id :: ustring
  env_seq :: nat
  env_from :: address
  env_from_name :: ustring
  env_from_auto_title :: "ustring option"
  env_from_ref :: ustring
  env_from_mode :: peer_mode
  env_from_operator :: operator_kind
  env_conversation_id :: ustring
  env_hop :: nat
  env_denied_recently :: "denial_stamp list"
  env_body :: ustring

definition envelope_validate :: "envelope \<Rightarrow> (unit, bounds_error) result" where
  "envelope_validate e =
     rbind (max_bytes ''body'' (env_body e) MAX_BODY_BYTES) (\<lambda>_.
     rbind (max_bytes ''message_id'' (env_message_id e) MAX_ID_BYTES) (\<lambda>_.
     rbind (max_bytes ''conversation_id'' (env_conversation_id e) MAX_ID_BYTES) (\<lambda>_.
     rbind (max_bytes ''from_ref'' (env_from_ref e) MAX_ID_BYTES) (\<lambda>_.
     if \<not> is_valid_display_name (env_from_name e) then Inl (BadName ''from_name'')
     else if (case env_from_auto_title e of Some t \<Rightarrow> \<not> is_valid_display_name t | None \<Rightarrow> False)
       then Inl (BadName ''from_auto_title'')
     else if MAX_DENIAL_STAMPS < length (env_denied_recently e)
       then Inl (TooMany ''denied_recently'' MAX_DENIAL_STAMPS (length (env_denied_recently e)))
     else for_all (\<lambda>d.
       rbind (max_bytes ''denied_recently.tool_kind'' (ds_tool_kind d) MAX_DENIAL_FIELD_BYTES) (\<lambda>_.
         max_bytes ''denied_recently.target_hash'' (ds_target_hash d) MAX_DENIAL_FIELD_BYTES))
       (env_denied_recently e)))))"

text \<open>\<open>TryFrom<RawEnvelope>\<close>: the raw record has the same fields, copied one to one.\<close>

definition envelope_try_from :: "envelope \<Rightarrow> (envelope, bounds_error) result" where
  "envelope_try_from r = rbind (envelope_validate r) (\<lambda>_. Inr r)"


section \<open>The inbox protocol\<close>

datatype wire_error =
    FrameTooLarge nat
  | Bounds bounds_error
  | OutOfRange string

definition check_wire_frame :: "nat \<Rightarrow> (unit, wire_error) result" where
  "check_wire_frame len = (if len \<le> MAX_FRAME_BYTES then Inr () else Inl (FrameTooLarge len))"

datatype host_id = HostId ustring

definition HostId_new :: "ustring \<Rightarrow> (host_id, wire_error) result" where
  "HostId_new text =
     (if str_len text \<noteq> HOST_ID_LEN \<or> \<not> list_all is_lower_hex text then Inl (OutOfRange ''host_id'')
      else Inr (HostId text))"

definition HostId_of :: "address \<Rightarrow> host_id" where
  "HostId_of a = HostId (addr_host_id a)"

definition BoundedId_new :: "ustring \<Rightarrow> (ustring, wire_error) result" where
  "BoundedId_new text =
     (if text = [] then Inl (OutOfRange ''id'')
      else rbind (map_err Bounds (max_bytes ''id'' text MAX_ID_BYTES)) (\<lambda>_. Inr text))"

definition ReasonText_new :: "ustring \<Rightarrow> (ustring, wire_error) result" where
  "ReasonText_new text =
     rbind (map_err Bounds (max_bytes ''reason'' text MAX_REASON_BYTES)) (\<lambda>_. Inr text)"

record hello =
  hello_version :: nat
  hello_host_id :: host_id

definition Hello_new :: "host_id \<Rightarrow> hello" where
  "Hello_new h = \<lparr>hello_version = WIRE_VERSION, hello_host_id = h\<rparr>"

definition version_matches :: "hello \<Rightarrow> bool" where
  "version_matches h \<longleftrightarrow> hello_version h = WIRE_VERSION"

datatype notice_kind =
  NReleased | NExpired | NRefused | NDenied | NIdle | NExited | NUnavailable

datatype wire_op =
    OpList nat
  | OpSend address envelope bool
  | OpNotice ustring notice_kind

fun op_validate :: "wire_op \<Rightarrow> (unit, wire_error) result" where
  "op_validate (OpList page) = (if MAX_LIST_PAGES \<le> page then Inl (OutOfRange ''page'') else Inr ())"
| "op_validate (OpSend to e watch) = map_err Bounds (envelope_validate e)"
| "op_validate (OpNotice i k) = Inr ()"

record session_row =
  sr_address :: address
  sr_name :: ustring
  sr_session_ref :: ustring

datatype wire_reply =
    ReplyList "session_row list" bool
  | ReplySend delivery_outcome
  | ReplyNotice
  | ReplyUnavailable ustring

fun reply_validate :: "wire_reply \<Rightarrow> (unit, wire_error) result" where
  "reply_validate (ReplyList rows has_more) =
     (if LIST_PAGE_ROWS < length rows then Inl (Bounds (TooMany ''rows'' LIST_PAGE_ROWS (length rows)))
      else for_all (\<lambda>r.
        if \<not> is_valid_display_name (sr_name r) then Inl (Bounds (BadName ''rows.name''))
        else map_err Bounds (max_bytes ''rows.session_ref'' (sr_session_ref r) MAX_ID_BYTES)) rows)"
| "reply_validate _ = Inr ()"


section \<open>Tool arguments\<close>

record send_message_args =
  sm_to :: ustring
  sm_message :: "ustring option"
  sm_notify_when_idle :: "bool option"
  sm_summary :: "ustring option"

definition max_bytes_opt :: "string \<Rightarrow> ustring option \<Rightarrow> nat \<Rightarrow> (unit, bounds_error) result" where
  "max_bytes_opt field v mx = (case v of Some s \<Rightarrow> max_bytes field s mx | None \<Rightarrow> Inr ())"

definition send_args_validate :: "send_message_args \<Rightarrow> (unit, bounds_error) result" where
  "send_args_validate a =
     rbind (max_bytes ''to'' (sm_to a) MAX_TO_BYTES) (\<lambda>_.
     rbind (max_bytes_opt ''message'' (sm_message a) MAX_BODY_BYTES) (\<lambda>_.
     max_bytes_opt ''summary'' (sm_summary a) MAX_SUMMARY_BYTES))"

definition send_args_try_from :: "send_message_args \<Rightarrow> (send_message_args, bounds_error) result" where
  "send_args_try_from r = rbind (send_args_validate r) (\<lambda>_. Inr r)"

record refuse_args =
  rf_message_id :: ustring
  rf_reason :: ustring

definition refuse_args_validate :: "refuse_args \<Rightarrow> (unit, bounds_error) result" where
  "refuse_args_validate a =
     rbind (max_bytes ''message_id'' (rf_message_id a) MAX_ID_BYTES) (\<lambda>_.
     max_bytes ''reason'' (rf_reason a) MAX_REFUSE_REASON_BYTES)"

definition refuse_args_try_from :: "refuse_args \<Rightarrow> (refuse_args, bounds_error) result" where
  "refuse_args_try_from r = rbind (refuse_args_validate r) (\<lambda>_. Inr r)"


section \<open>What the checks guarantee\<close>

text \<open>The caps as a predicate on the decoded value, and the bytes of text one envelope can hold.\<close>

definition envelope_caps :: "envelope \<Rightarrow> bool" where
  "envelope_caps e \<longleftrightarrow>
     str_len (env_body e) \<le> 32768 \<and> str_len (env_message_id e) \<le> 128
     \<and> str_len (env_conversation_id e) \<le> 128 \<and> str_len (env_from_ref e) \<le> 128
     \<and> is_valid_display_name (env_from_name e)
     \<and> (\<forall>t. env_from_auto_title e = Some t \<longrightarrow> is_valid_display_name t)
     \<and> length (env_denied_recently e) \<le> 128
     \<and> (\<forall>d \<in> set (env_denied_recently e). str_len (ds_tool_kind d) \<le> 128 \<and> str_len (ds_target_hash d) \<le> 128)"

definition envelope_text_bytes :: "envelope \<Rightarrow> nat" where
  "envelope_text_bytes e =
     str_len (env_body e) + str_len (env_message_id e) + str_len (env_conversation_id e)
     + str_len (env_from_ref e) + str_len (env_from_name e)
     + (case env_from_auto_title e of Some t \<Rightarrow> str_len t | None \<Rightarrow> 0)
     + sum_list (map (\<lambda>d. str_len (ds_tool_kind d) + str_len (ds_target_hash d)) (env_denied_recently e))"

lemma envelope_validate_iff: "envelope_validate e = Inr () \<longleftrightarrow> envelope_caps e"
  by (auto simp: envelope_validate_def envelope_caps_def res_simps wire_caps split: option.splits)

lemma str_len_le_4: "str_len s \<le> 4 * length s"
proof (induction s)
  case (Cons c s)
  then show ?case using utf8_width_bounds(2)[of c] by (simp add: str_len_def)
qed simp

lemma name_bytes: "is_valid_display_name s \<Longrightarrow> str_len s \<le> 256"
  using str_len_le_4[of s] by (simp add: is_valid_display_name_def MAX_NAME_CHARS_def)

lemma sum_list_bounded: "\<forall>x \<in> set xs. f x \<le> k \<Longrightarrow> sum_list (map f xs) \<le> k * length xs"
  for f :: "'a \<Rightarrow> nat"
  by (induction xs) auto

text \<open>
  A decoded envelope becomes an \<open>Envelope\<close> exactly when it is within every cap, unchanged; and then
  all its text together is at most 66,432 bytes, its stamps included. A \<open>send\<close> operation passes
  validation exactly when its envelope does.
\<close>

theorem envelope_bounded:
  fixes r e :: envelope
  shows "(envelope_try_from r = Inr e \<longleftrightarrow> r = e \<and> envelope_caps e)
    \<and> (is_ok (op_validate (OpSend to e w)) \<longleftrightarrow> envelope_caps e)
    \<and> (envelope_text_bytes e \<le> 66432 \<or> envelope_try_from e \<noteq> Inr e)"
proof -
  have dec: "envelope_try_from r = Inr e \<longleftrightarrow> r = e \<and> envelope_caps e" for r e
    using envelope_validate_iff[of r] by (auto simp: envelope_try_from_def res_simps)
  have snd: "is_ok (op_validate (OpSend to e w)) \<longleftrightarrow> envelope_caps e"
    using envelope_validate_iff[of e] by (cases "envelope_validate e") auto
  have "envelope_text_bytes e \<le> 66432" if caps: "envelope_caps e"
  proof -
    have "sum_list (map (\<lambda>d. str_len (ds_tool_kind d) + str_len (ds_target_hash d)) (env_denied_recently e))
        \<le> 256 * length (env_denied_recently e)"
      using caps by (intro sum_list_bounded) (auto simp: envelope_caps_def)
    also have "\<dots> \<le> 256 * 128" using caps by (simp add: envelope_caps_def)
    finally have stamps: "sum_list (map (\<lambda>d. str_len (ds_tool_kind d) + str_len (ds_target_hash d))
        (env_denied_recently e)) \<le> 32768" by simp
    have "str_len (env_from_name e) \<le> 256" using caps by (intro name_bytes) (simp add: envelope_caps_def)
    moreover have "(case env_from_auto_title e of Some t \<Rightarrow> str_len t | None \<Rightarrow> 0) \<le> 256"
      using caps name_bytes by (auto simp: envelope_caps_def split: option.split)
    ultimately show ?thesis using caps stamps
      by (simp add: envelope_text_bytes_def envelope_caps_def)
  qed
  then show ?thesis using dec snd by blast
qed

end
