(* ===== verification/Peer_Ingress.thy ===== *)
theory Peer_Ingress
  imports Peer_Wire
begin

text \<open>
  The bounds every incoming peer message passes (\<^verbatim>\<open>fuigo-peer/src/ingress.rs\<close>): size checks, hop and
  turn budgets, the host-wide ledger of reservations, the rate windows and the replay memory. Times
  are seconds on a monotonic \<open>u64\<close> clock, handed in by the caller as in the code. A \<open>HashMap\<close> is an
  association list, a \<open>VecDeque\<close> a list with its front first.
\<close>

section \<open>Sizes, hops and turns\<close>

definition HOP_BUDGET :: nat where "HOP_BUDGET = 8"
definition PEER_TURN_BUDGET :: nat where "PEER_TURN_BUDGET = 20"
definition RATE_WINDOW_SECS :: nat where "RATE_WINDOW_SECS = 60"
definition MAX_MESSAGES_PER_HOST :: nat where "MAX_MESSAGES_PER_HOST = 256"
definition MAX_BODY_BYTES_PER_HOST :: nat where "MAX_BODY_BYTES_PER_HOST = 4 * 1024 * 1024"
definition RATE_PER_PAIR_PER_MINUTE :: nat where "RATE_PER_PAIR_PER_MINUTE = 10"
definition RATE_PER_HOST_PER_MINUTE :: nat where "RATE_PER_HOST_PER_MINUTE = 60"
definition RATE_TABLE_ENTRIES :: nat where "RATE_TABLE_ENTRIES = 1024"
definition REMEMBERED_MESSAGE_IDS :: nat where "REMEMBERED_MESSAGE_IDS = 1024"
definition MESSAGE_ID_MEMORY_SECS :: nat where "MESSAGE_ID_MEMORY_SECS = 10 * 60"

definition frame_within_limit :: "nat \<Rightarrow> bool" where
  "frame_within_limit len \<longleftrightarrow> len \<le> MAX_FRAME_BYTES"

definition check_frame :: "nat \<Rightarrow> (unit, reject_reason) result" where
  "check_frame len = (if frame_within_limit len then Inr () else Inl TooLarge)"

definition check_body :: "nat \<Rightarrow> (unit, reject_reason) result" where
  "check_body len = (if len \<le> MAX_BODY_BYTES then Inr () else Inl TooLarge)"

datatype turn_origin = TurnHuman | TurnPeer

fun next_hop :: "turn_origin \<Rightarrow> nat \<Rightarrow> nat" where
  "next_hop TurnHuman incoming = 0"
| "next_hop TurnPeer incoming = sat_add32 incoming 1"

definition hop_exhausted :: "nat \<Rightarrow> bool" where
  "hop_exhausted hop \<longleftrightarrow> HOP_BUDGET \<le> hop"

record peer_turn_budget =
  tb_used :: nat

definition human_prompt :: "peer_turn_budget \<Rightarrow> peer_turn_budget" where
  "human_prompt b = b\<lparr>tb_used := 0\<rparr>"

definition turn_exhausted :: "peer_turn_budget \<Rightarrow> bool" where
  "turn_exhausted b \<longleftrightarrow> PEER_TURN_BUDGET \<le> tb_used b"

definition turn_consume :: "peer_turn_budget \<Rightarrow> peer_turn_budget" where
  "turn_consume b = b\<lparr>tb_used := sat_add32 (tb_used b) 1\<rparr>"


section \<open>The host ledger\<close>

record host_ledger =
  hl_max_messages :: nat
  hl_max_bytes :: nat
  hl_used :: "nat \<times> nat"

definition ledger_with_caps :: "nat \<Rightarrow> nat \<Rightarrow> host_ledger" where
  "ledger_with_caps mm mb = \<lparr>hl_max_messages = mm, hl_max_bytes = mb, hl_used = (0, 0)\<rparr>"

definition ledger_default :: host_ledger where
  "ledger_default = ledger_with_caps MAX_MESSAGES_PER_HOST MAX_BODY_BYTES_PER_HOST"

record ticket =
  tk_bytes :: nat

definition ledger_reserve :: "nat \<Rightarrow> host_ledger \<Rightarrow> ticket option \<times> host_ledger" where
  "ledger_reserve bytes l =
     (let (m, b) = hl_used l in
      if hl_max_messages l < wrap_add64 m 1 \<or> hl_max_bytes l < sat_add64 b bytes then (None, l)
      else (Some \<lparr>tk_bytes = bytes\<rparr>, l\<lparr>hl_used := (wrap_add64 m 1, wrap_add64 b bytes)\<rparr>))"

definition ledger_force :: "nat \<Rightarrow> host_ledger \<Rightarrow> ticket \<times> host_ledger" where
  "ledger_force bytes l =
     (let (m, b) = hl_used l in (\<lparr>tk_bytes = bytes\<rparr>, l\<lparr>hl_used := (wrap_add64 m 1, wrap_add64 b bytes)\<rparr>))"

definition ticket_clone :: "ticket \<Rightarrow> host_ledger \<Rightarrow> ticket \<times> host_ledger" where
  "ticket_clone t l = ledger_force (tk_bytes t) l"

definition ticket_drop :: "ticket \<Rightarrow> host_ledger \<Rightarrow> host_ledger" where
  "ticket_drop t l = (let (m, b) = hl_used l in l\<lparr>hl_used := (m - 1, b - tk_bytes t)\<rparr>)"

text \<open>
  A run of the ledger together with the tickets its clients own. Ownership makes a drop happen once
  per ticket: dropping the \<open>i\<close>-th live ticket removes it.
\<close>

datatype ledger_op = LReserve nat | LForce nat | LClone nat | LDrop nat

fun ledger_step :: "host_ledger \<times> ticket list \<Rightarrow> ledger_op \<Rightarrow> host_ledger \<times> ticket list" where
  "ledger_step (l, ts) (LReserve n) = (case ledger_reserve n l of
       (Some t, l') \<Rightarrow> (l', t # ts) | (None, l') \<Rightarrow> (l', ts))"
| "ledger_step (l, ts) (LForce n) = (case ledger_force n l of (t, l') \<Rightarrow> (l', t # ts))"
| "ledger_step (l, ts) (LClone i) = (if i < length ts
     then (case ticket_clone (ts ! i) l of (t, l') \<Rightarrow> (l', t # ts)) else (l, ts))"
| "ledger_step (l, ts) (LDrop i) = (if i < length ts
     then (ticket_drop (ts ! i) l, take i ts @ drop (Suc i) ts) else (l, ts))"

definition ledger_inv :: "host_ledger \<times> ticket list \<Rightarrow> bool" where
  "ledger_inv s \<longleftrightarrow> hl_used (fst s) = (length (snd s), sum_list (map tk_bytes (snd s)))"

text \<open>
  The counters have 64 bits and their additions wrap, so they tell the truth only while the live tickets fit them. A
  watched run remembers whether they always did.
\<close>

definition tickets_fit :: "ticket list \<Rightarrow> bool" where
  "tickets_fit ts \<longleftrightarrow> length ts < u64_max \<and> sum_list (map tk_bytes ts) \<le> u64_max"

definition ledger_watched :: "(host_ledger \<times> ticket list) \<times> bool \<Rightarrow> ledger_op \<Rightarrow> (host_ledger \<times> ticket list) \<times> bool" where
  "ledger_watched w op = (let s = ledger_step (fst w) op in (s, snd w \<and> tickets_fit (snd s)))"

lemma ledger_inv_step:
  assumes inv: "ledger_inv s" and fit: "tickets_fit (snd (ledger_step s op))"
  shows "ledger_inv (ledger_step s op)"
proof -
  obtain l ts where s: "s = (l, ts)" by (cases s)
  show ?thesis
  proof (cases op)
    case (LDrop i)
    show ?thesis
    proof (cases "i < length ts")
      case True
      have split: "ts = take i ts @ ts ! i # drop (Suc i) ts"
        using True by (simp add: id_take_nth_drop)
      have "sum_list (map tk_bytes ts)
          = tk_bytes (ts ! i) + sum_list (map tk_bytes (take i ts @ drop (Suc i) ts))"
        by (subst split) simp
      then show ?thesis using inv s True LDrop
        by (simp add: ledger_inv_def ticket_drop_def)
    qed (use inv s LDrop in simp)
  qed (use inv fit s in \<open>auto simp: ledger_inv_def ledger_reserve_def ledger_force_def ticket_clone_def tickets_fit_def wrap_add64_def Let_def
      split: if_splits\<close>)
qed

interpretation ledger: state_machine ledger_watched "\<lambda>w. snd w \<longrightarrow> ledger_inv (fst w)"
  by unfold_locales (auto simp: ledger_watched_def Let_def intro: ledger_inv_step)

lemma ledger_watched_run: "fst (foldl ledger_watched w ops) = foldl ledger_step (fst w) ops"
  by (induction ops arbitrary: w) (simp_all add: ledger_watched_def Let_def)


section \<open>Rate windows and replay memory\<close>

record ingress_config =
  ic_pair_per_minute :: nat
  ic_host_per_minute :: nat
  ic_pair_table :: nat
  ic_remembered_ids :: nat
  ic_id_memory_secs :: nat

definition ingress_config_default :: ingress_config where
  "ingress_config_default =
     \<lparr>ic_pair_per_minute = RATE_PER_PAIR_PER_MINUTE, ic_host_per_minute = RATE_PER_HOST_PER_MINUTE,
      ic_pair_table = RATE_TABLE_ENTRIES, ic_remembered_ids = REMEMBERED_MESSAGE_IDS,
      ic_id_memory_secs = MESSAGE_ID_MEMORY_SECS\<rparr>"

datatype ingress_verdict =
    Proceed
  | Refuse delivery_outcome
  | Replay delivery_outcome

type_synonym replay_key = "nat \<times> ustring \<times> ustring"

record remembered =
  rm_body_hash :: ustring
  rm_outcome :: delivery_outcome
  rm_expires :: nat

record peer_ingress =
  pi_cfg :: ingress_config
  pi_pairs :: "(nat \<times> ustring, nat list) hmap"
  pi_host_log :: "nat list"
  pi_replay :: "(replay_key, remembered) hmap"
  pi_replay_order :: "(replay_key \<times> nat) list"

definition ingress_new :: "ingress_config \<Rightarrow> peer_ingress" where
  "ingress_new cfg = \<lparr>pi_cfg = cfg, pi_pairs = [], pi_host_log = [], pi_replay = [], pi_replay_order = []\<rparr>"

definition rate_expired :: "nat \<Rightarrow> nat \<Rightarrow> bool" where
  "rate_expired now t \<longleftrightarrow> sat_add64 t RATE_WINDOW_SECS \<le> now"

definition prune :: "nat \<Rightarrow> nat list \<Rightarrow> nat list" where
  "prune now q = dropWhile (rate_expired now) q"

text \<open>\<open>rate_ok\<close>: both windows are checked before either is charged.\<close>

definition rate_ok :: "nat \<Rightarrow> nat \<Rightarrow> ustring \<Rightarrow> peer_ingress \<Rightarrow> bool \<times> peer_ingress" where
  "rate_ok now receiver sender g =
     (let host = prune now (pi_host_log g);
          g1 = g\<lparr>pi_host_log := host\<rparr>;
          cfg = pi_cfg g;
          key = (receiver, sender)
      in if ic_host_per_minute cfg \<le> length host then (False, g1)
         else case hm_get (pi_pairs g1) key of
             Some q0 \<Rightarrow>
               (let q = prune now q0 in
                if ic_pair_per_minute cfg \<le> length q
                then (False, g1\<lparr>pi_pairs := hm_insert key q (pi_pairs g1)\<rparr>)
                else (True, g1\<lparr>pi_pairs := hm_insert key (q @ [now]) (pi_pairs g1),
                               pi_host_log := host @ [now]\<rparr>))
           | None \<Rightarrow>
               (let g2 = (if ic_pair_table cfg \<le> length (pi_pairs g1)
                          then g1\<lparr>pi_pairs := hm_retain (\<lambda>_ q. q \<noteq> [])
                                    (map (\<lambda>(k, q). (k, prune now q)) (pi_pairs g1))\<rparr>
                          else g1)
                in if ic_pair_table cfg \<le> length (pi_pairs g2) then (False, g2)
                   else (True, g2\<lparr>pi_pairs := hm_insert key [now] (pi_pairs g2),
                                  pi_host_log := host @ [now]\<rparr>)))"

definition live_entry :: "('k, remembered) hmap \<Rightarrow> 'k \<times> nat \<Rightarrow> bool" where
  "live_entry replay = (\<lambda>(k, e). case hm_get replay k of Some r \<Rightarrow> rm_expires r = e | None \<Rightarrow> False)"

fun sweep_loop :: "nat \<Rightarrow> ('k, remembered) hmap \<Rightarrow> ('k \<times> nat) list \<Rightarrow>
    ('k, remembered) hmap \<times> ('k \<times> nat) list" where
  "sweep_loop now replay [] = (replay, [])"
| "sweep_loop now replay ((k, exp) # order) =
     (if now < exp then (replay, (k, exp) # order)
      else sweep_loop now (if live_entry replay (k, exp) then hm_remove k replay else replay) order)"

definition sweep_replay :: "nat \<Rightarrow> peer_ingress \<Rightarrow> peer_ingress" where
  "sweep_replay now g =
     (let (replay, order) = sweep_loop now (pi_replay g) (pi_replay_order g)
      in g\<lparr>pi_replay := replay, pi_replay_order := order\<rparr>)"

definition admit :: "nat \<Rightarrow> nat \<Rightarrow> envelope \<Rightarrow> ustring \<Rightarrow> peer_ingress \<Rightarrow> ingress_verdict \<times> peer_ingress" where
  "admit now receiver env body_hash g =
     (case check_body (str_len (env_body env)) of
        Inl reason \<Rightarrow> (Refuse (Rejected reason), g)
      | Inr _ \<Rightarrow>
          (let g1 = sweep_replay now g;
               sender = Address_display (env_from env);
               rkey = (receiver, sender, env_message_id env)
           in case hm_get (pi_replay g1) rkey of
                Some r \<Rightarrow>
                  (if rm_body_hash r = body_hash then (Replay (rm_outcome r), g1)
                   else (Refuse (Rejected Ambiguous), g1))
              | None \<Rightarrow>
                  (let (ok, g2) = rate_ok now receiver sender g1
                   in if ok then (Proceed, g2) else (Refuse (Rejected RateLimited), g2))))"

definition transient :: "delivery_outcome \<Rightarrow> bool" where
  "transient oc \<longleftrightarrow> oc \<in> {Rejected RateLimited, Rejected Saturated, Rejected TooLarge}"

text \<open>The eviction loop of \<open>record\<close>: pop the oldest entries until there is room.\<close>

fun make_room :: "nat \<Rightarrow> ('k, remembered) hmap \<Rightarrow> ('k \<times> nat) list \<Rightarrow>
    ('k, remembered) hmap \<times> ('k \<times> nat) list" where
  "make_room cap replay [] = (replay, [])"
| "make_room cap replay ((k, exp) # order) =
     (if length replay < cap then (replay, (k, exp) # order)
      else make_room cap (if live_entry replay (k, exp) then hm_remove k replay else replay) order)"

definition compact :: "peer_ingress \<Rightarrow> peer_ingress" where
  "compact g =
     (if max (min (ic_remembered_ids (pi_cfg g) * 4) u64_max) 16 < length (pi_replay_order g)
      then g\<lparr>pi_replay_order := filter (live_entry (pi_replay g)) (pi_replay_order g)\<rparr> else g)"

definition record_reply ::
  "nat \<Rightarrow> nat \<Rightarrow> ustring \<Rightarrow> ustring \<Rightarrow> ustring \<Rightarrow> delivery_outcome \<Rightarrow> peer_ingress \<Rightarrow> peer_ingress" where
  "record_reply now receiver sender message_id body_hash oc g =
     (if transient oc then g
      else
        let key = (receiver, sender, message_id) in
        if hm_get (pi_replay g) key \<noteq> None then g
        else
          let (replay, order) = make_room (ic_remembered_ids (pi_cfg g)) (pi_replay g) (pi_replay_order g);
              expires = sat_add64 now (ic_id_memory_secs (pi_cfg g))
          in compact (g\<lparr>
               pi_replay := hm_insert key
                 \<lparr>rm_body_hash = body_hash, rm_outcome = oc, rm_expires = expires\<rparr> replay,
               pi_replay_order := order @ [(key, expires)]\<rparr>))"

definition forget :: "nat \<Rightarrow> ustring \<Rightarrow> ustring \<Rightarrow> peer_ingress \<Rightarrow> peer_ingress" where
  "forget receiver sender message_id g =
     g\<lparr>pi_replay := hm_remove (receiver, sender, message_id) (pi_replay g)\<rparr>"

definition forget_session :: "nat \<Rightarrow> peer_ingress \<Rightarrow> peer_ingress" where
  "forget_session receiver g =
     (let replay = hm_retain (\<lambda>(r, _, _) _. r \<noteq> receiver) (pi_replay g)
      in g\<lparr>pi_pairs := hm_retain (\<lambda>(r, _) _. r \<noteq> receiver) (pi_pairs g),
           pi_replay := replay,
           pi_replay_order := filter (live_entry replay) (pi_replay_order g)\<rparr>)"

end
