(* ===== verification/Peer_Ingress_Props.thy ===== *)
theory Peer_Ingress_Props
  imports Peer_Ingress
begin

text \<open>
  Properties of the peer ingress: the tables stay within their caps, a refusal costs no allowance,
  the rate limits hold over every 60-second window, and a remembered message id is answered with
  its first outcome. Runs are lists of \<open>ingress_op\<close>.
\<close>

section \<open>Runs\<close>

datatype ingress_op =
    IAdmit nat nat envelope ustring
  | IRecord nat nat ustring ustring ustring delivery_outcome
  | IForget nat ustring ustring
  | IForgetSession nat

fun ingress_step :: "peer_ingress \<Rightarrow> ingress_op \<Rightarrow> peer_ingress" where
  "ingress_step g (IAdmit now r env h) = snd (admit now r env h g)"
| "ingress_step g (IRecord now r s i h oc) = record_reply now r s i h oc g"
| "ingress_step g (IForget r s i) = forget r s i g"
| "ingress_step g (IForgetSession r) = forget_session r g"

text \<open>The messages a run lets through: arrival time, receiver, sender.\<close>

fun proceeds :: "peer_ingress \<Rightarrow> ingress_op list \<Rightarrow> (nat \<times> nat \<times> ustring) list" where
  "proceeds g [] = []"
| "proceeds g (op # ops) = (case op of
       IAdmit now r env h \<Rightarrow>
         (if fst (admit now r env h g) = Proceed then [(now, r, Address_display (env_from env))] else [])
     | _ \<Rightarrow> []) @ proceeds (ingress_step g op) ops"


section \<open>The tables\<close>

definition cover :: "('k, remembered) hmap \<Rightarrow> ('k \<times> nat) list \<Rightarrow> bool" where
  "cover replay order \<longleftrightarrow>
     hm_ok replay \<and> (\<forall>k r. hm_get replay k = Some r \<longrightarrow> (k, rm_expires r) \<in> set order)"

definition ingress_inv :: "peer_ingress \<Rightarrow> bool" where
  "ingress_inv g \<longleftrightarrow>
     hm_ok (pi_pairs g) \<and> cover (pi_replay g) (pi_replay_order g) \<and>
     length (pi_pairs g) \<le> ic_pair_table (pi_cfg g) \<and>
     length (pi_host_log g) \<le> ic_host_per_minute (pi_cfg g) \<and>
     (\<forall>(k, q) \<in> set (pi_pairs g). length q \<le> max 1 (ic_pair_per_minute (pi_cfg g))) \<and>
     length (pi_replay g) \<le> max 1 (ic_remembered_ids (pi_cfg g))"

lemma live_entry_iff:
  "live_entry replay (k, e) \<longleftrightarrow> (\<exists>r. hm_get replay k = Some r \<and> rm_expires r = e)"
  by (auto simp: live_entry_def split: option.split)

lemma cover_pop:
  assumes "cover replay ((k, e) # order)"
  shows "cover (if live_entry replay (k, e) then hm_remove k replay else replay) order"
  using assms by (auto simp: cover_def live_entry_iff hmap_simps)

lemma cover_filter: "cover replay order \<Longrightarrow> cover replay (filter (live_entry replay) order)"
  by (auto simp: cover_def live_entry_iff)

lemma cover_insert:
  "cover replay order \<Longrightarrow> cover (hm_insert k r replay) (order @ [(k, rm_expires r)])"
  by (auto simp: cover_def hmap_simps split: if_splits)

lemma cover_remove: "cover replay order \<Longrightarrow> cover (hm_remove k replay) order"
  by (auto simp: cover_def hmap_simps split: if_splits)

lemma cover_retain: "cover replay order \<Longrightarrow> cover (hm_retain p replay) order"
  by (auto simp: cover_def hmap_simps split: option.splits if_splits)

lemma pop_shorter:
  "length (if b then hm_remove k replay else replay) \<le> length replay"
  by (simp add: length_hm_remove)

lemma sweep_loop_cover:
  "cover replay order \<Longrightarrow> cover (fst (sweep_loop now replay order)) (snd (sweep_loop now replay order))
     \<and> length (fst (sweep_loop now replay order)) \<le> length replay"
proof (induction now replay order rule: sweep_loop.induct)
  case (2 now replay k e order)
  show ?case
  proof (cases "now < e")
    case False
    let ?r = "if live_entry replay (k, e) then hm_remove k replay else replay"
    have "cover (fst (sweep_loop now ?r order)) (snd (sweep_loop now ?r order))
      \<and> length (fst (sweep_loop now ?r order)) \<le> length ?r"
      by (rule 2(1)[OF False cover_pop[OF 2(2)]])
    then show ?thesis using False pop_shorter[of "live_entry replay (k, e)" k replay] by simp
  qed (use 2 in simp)
qed simp

lemma make_room_cover:
  "cover replay order \<Longrightarrow> cover (fst (make_room cap replay order)) (snd (make_room cap replay order))
     \<and> (length (fst (make_room cap replay order)) < cap \<or> fst (make_room cap replay order) = [])"
proof (induction cap replay order rule: make_room.induct)
  case (1 cap replay)
  then have none: "hm_get replay k = None" for k
    unfolding cover_def by (cases "hm_get replay k") auto
  have "replay = []"
  proof (cases replay)
    case (Cons e es)
    then show ?thesis using none[of "fst e"] by simp
  qed simp
  with 1 show ?case by simp
next
  case (2 cap replay k e order)
  then show ?case using cover_pop[of replay k e order] by simp
qed

lemma hm_insert_set: "set (hm_insert k v m) \<subseteq> insert (k, v) (set m)"
  unfolding hm_insert_def by (induction m) auto

lemma prune_length: "length (prune now q) \<le> length q"
  by (simp add: prune_def length_dropWhile_le)

lemma hm_ok_map_values: "hm_ok m \<Longrightarrow> hm_ok (map (\<lambda>(k, q). (k, f q)) m)"
  by (simp add: hm_ok_def case_prod_unfold comp_def)

lemma hm_get_map_values: "hm_get (map (\<lambda>(k, q). (k, f q)) m) k = map_option f (hm_get m k)"
  by (induction m) auto

text \<open>The three ways through \<open>rate_ok\<close>, with the pair table each leaves.\<close>

definition pair_log :: "peer_ingress \<Rightarrow> nat \<times> ustring \<Rightarrow> nat list" where
  "pair_log g k = (case hm_get (pi_pairs g) k of None \<Rightarrow> [] | Some q \<Rightarrow> q)"

definition dropped_pairs :: "nat \<Rightarrow> peer_ingress \<Rightarrow> (nat \<times> ustring, nat list) hmap" where
  "dropped_pairs now g =
     hm_retain (\<lambda>_ q. q \<noteq> []) (map (\<lambda>(k, q). (k, prune now q)) (pi_pairs g))"

definition pairs_from :: "nat \<Rightarrow> nat \<times> ustring \<Rightarrow> peer_ingress \<Rightarrow> (nat \<times> ustring, nat list) hmap" where
  "pairs_from now key g = (if hm_get (pi_pairs g) key = None \<and> ic_pair_table (pi_cfg g) \<le> length (pi_pairs g)
     then dropped_pairs now g else pi_pairs g)"

lemma rate_ok_cases:
  obtains
    (host_full) "ic_host_per_minute (pi_cfg g) \<le> length (prune now (pi_host_log g))"
      "rate_ok now r s g = (False, g\<lparr>pi_host_log := prune now (pi_host_log g)\<rparr>)"
  | (pair_full) q0 where "hm_get (pi_pairs g) (r, s) = Some q0"
      "rate_ok now r s g = (False, g\<lparr>pi_host_log := prune now (pi_host_log g),
         pi_pairs := hm_insert (r, s) (prune now q0) (pi_pairs g)\<rparr>)"
  | (table_full) "hm_get (pi_pairs g) (r, s) = None"
      "rate_ok now r s g = (False, g\<lparr>pi_host_log := prune now (pi_host_log g),
         pi_pairs := pairs_from now (r, s) g\<rparr>)"
  | (charged) "length (prune now (pi_host_log g)) < ic_host_per_minute (pi_cfg g)"
      "hm_get (pi_pairs g) (r, s) = None \<Longrightarrow> length (pairs_from now (r, s) g) < ic_pair_table (pi_cfg g)"
      "hm_get (pi_pairs g) (r, s) \<noteq> None \<Longrightarrow>
         length (prune now (pair_log g (r, s))) < ic_pair_per_minute (pi_cfg g)"
      "rate_ok now r s g = (True, g\<lparr>pi_host_log := prune now (pi_host_log g) @ [now],
         pi_pairs := hm_insert (r, s) (prune now (pair_log g (r, s)) @ [now]) (pairs_from now (r, s) g)\<rparr>)"
proof (cases "ic_host_per_minute (pi_cfg g) \<le> length (prune now (pi_host_log g))")
  case True
  then show ?thesis by (intro host_full) (simp_all add: rate_ok_def Let_def)
next
  case host: False
  show ?thesis
  proof (cases "hm_get (pi_pairs g) (r, s)")
    case None
    have log: "prune now (pair_log g (r, s)) = []" by (simp add: pair_log_def None prune_def)
    show ?thesis
    proof (cases "ic_pair_table (pi_cfg g) \<le> length (pairs_from now (r, s) g)")
      case True
      then show ?thesis using host None
        by (intro table_full) (auto simp: rate_ok_def Let_def pairs_from_def dropped_pairs_def split: if_splits)
    next
      case False
      then show ?thesis using host None log
        by (intro charged) (auto simp: rate_ok_def Let_def pairs_from_def dropped_pairs_def split: if_splits)
    qed
  next
    case (Some q0)
    show ?thesis
    proof (cases "ic_pair_per_minute (pi_cfg g) \<le> length (prune now q0)")
      case True
      then show ?thesis using host Some by (intro pair_full[of q0]) (simp_all add: rate_ok_def Let_def)
    next
      case False
      then show ?thesis using host Some
        by (intro charged) (simp_all add: rate_ok_def Let_def pairs_from_def pair_log_def)
    qed
  qed
qed

lemma pairs_from_ok: "hm_ok (pi_pairs g) \<Longrightarrow> hm_ok (pairs_from now k g)"
  by (simp add: pairs_from_def dropped_pairs_def hm_ok_map_values hmap_simps)

lemma pairs_from_length: "length (pairs_from now k g) \<le> length (pi_pairs g)"
  using length_hm_retain[of "\<lambda>_ q. q \<noteq> []" "map (\<lambda>(k, q). (k, prune now q)) (pi_pairs g)"]
  by (simp add: pairs_from_def dropped_pairs_def)

lemma pairs_from_values:
  "(k', q) \<in> set (pairs_from now k g) \<Longrightarrow> \<exists>q0. (k', q0) \<in> set (pi_pairs g) \<and> length q \<le> length q0"
  using prune_length by (fastforce simp: pairs_from_def dropped_pairs_def hm_retain_def split: if_splits)

lemma rate_ok_cfg [simp]: "pi_cfg (snd (rate_ok now r s g)) = pi_cfg g"
  by (cases rule: rate_ok_cases[of g now r s]) simp_all

lemma rate_ok_replay [simp]:
  "pi_replay (snd (rate_ok now r s g)) = pi_replay g"
  "pi_replay_order (snd (rate_ok now r s g)) = pi_replay_order g"
  by (cases rule: rate_ok_cases[of g now r s]; simp)+

lemma ingress_inv_rate_ok:
  assumes "ingress_inv g"
  shows "ingress_inv (snd (rate_ok now r s g))"
proof -
  let ?cap = "max 1 (ic_pair_per_minute (pi_cfg g))"
  have I: "hm_ok (pi_pairs g)" "length (pi_pairs g) \<le> ic_pair_table (pi_cfg g)"
    "length (pi_host_log g) \<le> ic_host_per_minute (pi_cfg g)"
    "\<forall>(k, q) \<in> set (pi_pairs g). length q \<le> ?cap"
    using assms by (simp_all add: ingress_inv_def)
  have host: "length (prune now (pi_host_log g)) \<le> ic_host_per_minute (pi_cfg g)"
    using prune_length[of now "pi_host_log g"] I(3) by simp
  have vals: "length q \<le> ?cap" if "(k', q) \<in> set (pairs_from now (r, s) g)" for k' q
    using pairs_from_values[OF that] I(4) by fastforce
  have got: "length q \<le> ?cap" if "hm_get (pi_pairs g) k' = Some q" for k' q
    using map_of_SomeD[OF that] I(4) by fastforce
  show ?thesis
  proof (cases rule: rate_ok_cases[of g now r s])
    case host_full
    then show ?thesis using assms host by (simp add: ingress_inv_def)
  next
    case (pair_full q0)
    have "length q \<le> ?cap" if "(k', q) \<in> set (hm_insert (r, s) (prune now q0) (pi_pairs g))" for k' q
      using that hm_insert_set[of "(r, s)" "prune now q0" "pi_pairs g"] I(4)
        got[OF pair_full(1)] prune_length[of now q0] by fastforce
    then show ?thesis using assms host pair_full
      by (auto simp: ingress_inv_def hmap_simps length_hm_insert)
  next
    case table_full
    then show ?thesis
      using assms host vals pairs_from_ok[OF I(1)] pairs_from_length[of now "(r, s)" g]
      by (auto simp: ingress_inv_def)
  next
    case charged
    let ?q = "prune now (pair_log g (r, s)) @ [now]"
    have len: "length ?q \<le> ?cap"
      using charged(3) by (cases "hm_get (pi_pairs g) (r, s)") (auto simp: pair_log_def prune_def)
    have "length q \<le> ?cap" if "(k', q) \<in> set (hm_insert (r, s) ?q (pairs_from now (r, s) g))" for k' q
      using that hm_insert_set[of "(r, s)" ?q "pairs_from now (r, s) g"] vals[of k' q] len by auto
    moreover have "length (hm_insert (r, s) ?q (pairs_from now (r, s) g)) \<le> ic_pair_table (pi_cfg g)"
      using charged(2) I(2)
      by (cases "hm_get (pi_pairs g) (r, s)") (auto simp: length_hm_insert pairs_from_def)
    ultimately show ?thesis
      using assms charged(1,4) pairs_from_ok[OF I(1)] by (auto simp: ingress_inv_def hmap_simps)
  qed
qed

lemma ingress_inv_sweep: "ingress_inv g \<Longrightarrow> ingress_inv (sweep_replay now g)"
  using sweep_loop_cover[of "pi_replay g" "pi_replay_order g" now]
  by (cases "sweep_loop now (pi_replay g) (pi_replay_order g)")
    (simp add: ingress_inv_def sweep_replay_def)

lemma sweep_frame [simp]:
  "pi_cfg (sweep_replay now g) = pi_cfg g" "pi_pairs (sweep_replay now g) = pi_pairs g"
  "pi_host_log (sweep_replay now g) = pi_host_log g"
  by (simp_all add: sweep_replay_def case_prod_unfold Let_def)

text \<open>\<open>admit\<close> in terms of its parts.\<close>

lemma admit_cases:
  obtains
    (too_large) "admit now r env h g = (Refuse (Rejected TooLarge), g)" "MAX_BODY_BYTES < str_len (env_body env)"
  | (known) m v where "hm_get (pi_replay (sweep_replay now g)) (r, Address_display (env_from env), env_message_id env) = Some m"
      "admit now r env h g = (v, sweep_replay now g)"
      "v = (if rm_body_hash m = h then Replay (rm_outcome m) else Refuse (Rejected Ambiguous))"
  | (limited) "admit now r env h g =
        (Refuse (Rejected RateLimited), snd (rate_ok now r (Address_display (env_from env)) (sweep_replay now g)))"
      "\<not> fst (rate_ok now r (Address_display (env_from env)) (sweep_replay now g))"
  | (passed) "admit now r env h g =
        (Proceed, snd (rate_ok now r (Address_display (env_from env)) (sweep_replay now g)))"
      "fst (rate_ok now r (Address_display (env_from env)) (sweep_replay now g))"
proof (cases "MAX_BODY_BYTES < str_len (env_body env)")
  case True
  then show ?thesis by (intro too_large) (simp_all add: admit_def check_body_def)
next
  case small: False
  let ?key = "(r, Address_display (env_from env), env_message_id env)"
  show ?thesis
  proof (cases "hm_get (pi_replay (sweep_replay now g)) ?key")
    case (Some m)
    with small show ?thesis by (intro known[of m]) (simp_all add: admit_def check_body_def Let_def)
  next
    case None
    show ?thesis
    proof (cases "rate_ok now r (Address_display (env_from env)) (sweep_replay now g)")
      case (Pair ok g2)
      with None small show ?thesis
        by (cases ok) (simp_all add: limited passed admit_def check_body_def Let_def)
    qed
  qed
qed

lemma ingress_inv_admit: "ingress_inv g \<Longrightarrow> ingress_inv (snd (admit now r env h g))"
  by (cases rule: admit_cases[of now r env h g])
    (simp_all add: ingress_inv_sweep ingress_inv_rate_ok)

lemma compact_frame [simp]:
  "pi_cfg (compact g) = pi_cfg g" "pi_pairs (compact g) = pi_pairs g"
  "pi_host_log (compact g) = pi_host_log g" "pi_replay (compact g) = pi_replay g"
  by (simp_all add: compact_def)

lemma ingress_inv_compact: "ingress_inv g \<Longrightarrow> ingress_inv (compact g)"
  using cover_filter[of "pi_replay g" "pi_replay_order g"]
  by (simp add: compact_def ingress_inv_def)

lemma ingress_inv_record:
  assumes "ingress_inv g"
  shows "ingress_inv (record_reply now r s i h oc g)"
proof (cases "transient oc \<or> hm_get (pi_replay g) (r, s, i) \<noteq> None")
  case True
  with assms show ?thesis by (auto simp: record_reply_def)
next
  case False
  obtain rp od where mr: "make_room (ic_remembered_ids (pi_cfg g)) (pi_replay g) (pi_replay_order g) = (rp, od)"
    by fastforce
  define e where "e = sat_add64 now (ic_id_memory_secs (pi_cfg g))"
  define m where "m = \<lparr>rm_body_hash = h, rm_outcome = oc, rm_expires = e\<rparr>"
  let ?g = "g\<lparr>pi_replay := hm_insert (r, s, i) m rp, pi_replay_order := od @ [((r, s, i), e)]\<rparr>"
  have room: "cover rp od" "length rp < ic_remembered_ids (pi_cfg g) \<or> rp = []"
    using make_room_cover[of "pi_replay g" "pi_replay_order g" "ic_remembered_ids (pi_cfg g)"] assms mr
    by (simp_all add: ingress_inv_def)
  have "length (hm_insert (r, s, i) m rp) \<le> max 1 (ic_remembered_ids (pi_cfg g))"
    using room(2) by (auto simp: length_hm_insert)
  then have "ingress_inv ?g"
    using assms cover_insert[OF room(1), of "(r, s, i)" m] by (simp add: ingress_inv_def m_def)
  moreover have "record_reply now r s i h oc g = compact ?g"
    using False mr by (simp add: record_reply_def Let_def e_def m_def)
  ultimately show ?thesis by (simp add: ingress_inv_compact)
qed

lemma ingress_inv_forget: "ingress_inv g \<Longrightarrow> ingress_inv (forget r s i g)"
  using length_hm_remove[of "(r, s, i)" "pi_replay g"] cover_remove
  by (auto simp: ingress_inv_def forget_def)

lemma ingress_inv_forget_session: "ingress_inv g \<Longrightarrow> ingress_inv (forget_session r g)"
proof -
  assume inv: "ingress_inv g"
  let ?p = "\<lambda>(r', _, _) _. r' \<noteq> r" and ?q = "\<lambda>(r', _) _. r' \<noteq> r"
  have "cover (hm_retain ?p (pi_replay g)) (filter (live_entry (hm_retain ?p (pi_replay g))) (pi_replay_order g))"
    using inv by (intro cover_filter cover_retain) (simp add: ingress_inv_def)
  moreover have "length (hm_retain ?p (pi_replay g)) \<le> length (pi_replay g)"
    "length (hm_retain ?q (pi_pairs g)) \<le> length (pi_pairs g)"
    by (rule length_hm_retain)+
  moreover have "set (hm_retain ?q (pi_pairs g)) \<subseteq> set (pi_pairs g)" by (auto simp: hm_retain_def)
  ultimately show ?thesis
    using inv by (auto simp: ingress_inv_def forget_session_def Let_def hmap_simps)
qed

lemma ingress_inv_step: "ingress_inv g \<Longrightarrow> ingress_inv (ingress_step g op)"
  by (cases op) (simp_all add: ingress_inv_admit ingress_inv_record ingress_inv_forget
      ingress_inv_forget_session)

interpretation ingress: state_machine ingress_step ingress_inv
  by unfold_locales (rule ingress_inv_step)

lemma ingress_step_cfg [simp]: "pi_cfg (ingress_step g op) = pi_cfg g"
proof (cases op)
  case (IAdmit now r env h)
  then show ?thesis by (cases rule: admit_cases[of now r env h g]) simp_all
next
  case (IRecord now r s i h oc)
  then show ?thesis
    by (cases "make_room (ic_remembered_ids (pi_cfg g)) (pi_replay g) (pi_replay_order g)")
      (simp add: record_reply_def Let_def)
qed (simp_all add: forget_def forget_session_def Let_def)

lemma ingress_run_cfg [simp]: "pi_cfg (foldl ingress_step g ops) = pi_cfg g"
  by (induction ops arbitrary: g) auto

lemma ingress_inv_new: "ingress_inv (ingress_new cfg)"
  by (simp add: ingress_inv_def ingress_new_def cover_def)

text \<open>
  C19: Whatever messages arrive, at whatever times, the ingress state stays bounded: at most \<open>pair_table\<close>
  rate entries, at most \<open>host_per_minute\<close> stamps in the host window, at most \<open>pair_per_minute\<close> in each
  pair window, at most \<open>remembered_ids\<close> remembered ids (caps of at least one), and every remembered
  id is queued for expiry.
\<close>

theorem ingress_tables_bounded:
  fixes cfg :: ingress_config and ops :: "ingress_op list"
  assumes "1 \<le> ic_pair_per_minute cfg" "1 \<le> ic_remembered_ids cfg"
  defines "g \<equiv> foldl ingress_step (ingress_new cfg) ops"
  shows "length (pi_pairs g) \<le> ic_pair_table cfg
    \<and> length (pi_host_log g) \<le> ic_host_per_minute cfg
    \<and> (\<forall>(k, q) \<in> set (pi_pairs g). length q \<le> ic_pair_per_minute cfg)
    \<and> length (pi_replay g) \<le> ic_remembered_ids cfg
    \<and> (\<forall>k m. hm_get (pi_replay g) k = Some m \<longrightarrow> (k, rm_expires m) \<in> set (pi_replay_order g))"
proof -
  have inv: "ingress_inv g" unfolding g_def by (intro ingress.run_inv ingress_inv_new)
  have cfg: "pi_cfg g = cfg" unfolding g_def by (simp add: ingress_new_def)
  have "max 1 (ic_pair_per_minute cfg) = ic_pair_per_minute cfg"
    "max 1 (ic_remembered_ids cfg) = ic_remembered_ids cfg" using assms(1,2) by simp_all
  with inv cfg show ?thesis unfolding ingress_inv_def cover_def by metis
qed

definition sample_address :: address where
  "sample_address = \<lparr>addr_host_id = str ''h'', addr_session_id = str ''s'', addr_incarnation = 1\<rparr>"

definition sample_envelope :: "ustring \<Rightarrow> envelope" where
  "sample_envelope i = \<lparr>env_message_id = i, env_seq = 1, env_from = sample_address, env_from_name = [],
     env_from_auto_title = None, env_from_ref = [], env_from_mode = UnknownMode, env_from_operator = OpHuman,
     env_conversation_id = [], env_hop = 0, env_denied_recently = [], env_body = str ''hello''\<rparr>"

lemma sample_facts [simp]:
  "env_from (sample_envelope i) = sample_address" "env_message_id (sample_envelope i) = i"
  "str_len (env_body (sample_envelope i)) = 5"
  by (simp_all add: sample_envelope_def str_simps utf8_width_def)

theorem ingress_tables_bounded_witness:
  "length (pi_replay (foldl ingress_step (ingress_new ingress_config_default)
     [IAdmit 7 1 (sample_envelope (str ''m'')) [], IRecord 7 1 [] (str ''m'') [] Delivered])) \<le> 1024"
  using ingress_tables_bounded[of ingress_config_default
      "[IAdmit 7 1 (sample_envelope (str ''m'')) [], IRecord 7 1 [] (str ''m'') [] Delivered]"]
  by (simp add: ingress_config_default_def RATE_PER_PAIR_PER_MINUTE_def REMEMBERED_MESSAGE_IDS_def)

text \<open>
  C20: The host ledger is exact while its counters can be. Its additions wrap at 64 bits; as long as the live tickets
  and their bytes fit the counters at every moment, after any sequence of reservations, forced entries, clones and
  drops it counts one message per live ticket and the sum of their bytes, so nothing leaks and nothing is freed
  twice, and a reservation is granted exactly when the live tickets leave room for it.
\<close>

theorem ledger_exact:
  fixes mm mb n :: nat and ops :: "ledger_op list"
  assumes "foldl ledger_watched ((ledger_with_caps mm mb, []), True) ops = ((l, ts), True)" "mb < u64_max"
  shows "hl_used l = (length ts, sum_list (map tk_bytes ts))
    \<and> (fst (ledger_reserve n l) \<noteq> None \<longleftrightarrow>
         length ts < mm \<and> sum_list (map tk_bytes ts) + n \<le> mb)"
proof -
  have inv: "ledger_inv (l, ts)"
    using ledger.run_inv[of "((ledger_with_caps mm mb, []), True)" ops] assms(1)
    by (simp add: ledger_inv_def ledger_with_caps_def)
  have fit: "tickets_fit ts"
  proof (cases ops rule: rev_cases)
    case Nil
    then show ?thesis using assms(1) by (simp add: tickets_fit_def)
  next
    case (snoc ops' op)
    then show ?thesis using assms(1) by (auto simp: ledger_watched_def Let_def)
  qed
  have "hl_max_messages (fst (ledger_step s op)) = hl_max_messages (fst s)
      \<and> hl_max_bytes (fst (ledger_step s op)) = hl_max_bytes (fst s)" for s op
    by (cases s; cases op) (auto simp: ledger_reserve_def ledger_force_def ticket_clone_def
        ticket_drop_def Let_def split: prod.splits)
  then have "hl_max_messages (fst (foldl ledger_step s ops)) = hl_max_messages (fst s)
      \<and> hl_max_bytes (fst (foldl ledger_step s ops)) = hl_max_bytes (fst s)" for s
    by (induction ops arbitrary: s) auto
  note caps = this[of "(ledger_with_caps mm mb, [])"]
  have run: "foldl ledger_step (ledger_with_caps mm mb, []) ops = (l, ts)"
    using ledger_watched_run[of "((ledger_with_caps mm mb, []), True)" ops] assms(1) by simp
  have "hl_max_messages l = mm" "hl_max_bytes l = mb"
    using caps unfolding run by (simp_all add: ledger_with_caps_def)
  with inv fit assms(2) show ?thesis
    by (auto simp: ledger_inv_def ledger_reserve_def sat_add64_def wrap_add64_def tickets_fit_def Let_def)
qed

theorem ledger_exact_witness:
  "\<exists>l ts. foldl ledger_watched ((ledger_with_caps 2 100, []), True) [LReserve 60, LClone 0, LDrop 1, LReserve 50] = ((l, ts), True)
     \<and> hl_used l = (1, 60) \<and> fst (ledger_reserve 41 l) = None"
proof -
  let ?ops = "[LReserve 60, LClone 0, LDrop 1, LReserve 50]"
  obtain l ts where run: "foldl ledger_watched ((ledger_with_caps 2 100, []), True) ?ops = ((l, ts), True)"
    by (auto simp: ledger_watched_def ledger_with_caps_def ledger_reserve_def ticket_clone_def ledger_force_def ticket_drop_def
        Let_def sat_add64_def wrap_add64_def tickets_fit_def)
  have ts: "map tk_bytes ts = [60]"
    using run by (auto simp: ledger_watched_def ledger_with_caps_def ledger_reserve_def ticket_clone_def
        ledger_force_def ticket_drop_def Let_def sat_add64_def wrap_add64_def tickets_fit_def)
  then have "length ts = 1" by (metis length_map length_Cons list.size(3) One_nat_def)
  with ledger_exact[OF run, of 41] ts run show ?thesis by auto
qed

text \<open>Past the counters' range the ledger forgets what it holds: two forced entries whose bytes wrap.\<close>

lemma ledger_wraps:
  "hl_used (fst (foldl ledger_step (ledger_with_caps mm mb, []) [LForce u64_max, LForce 1])) = (2, 0)"
  by (simp add: ledger_with_caps_def ledger_force_def wrap_add64_def Let_def)

lemma prune_prune: "now \<le> now' \<Longrightarrow> prune now' (prune now q) = prune now' q"
  unfolding prune_def by (induction q) (auto simp: rate_expired_def)

interpretation rate: time_window rate_expired
  by unfold_locales (auto simp: rate_expired_def dest: sat_add64_mono[of _ _ RATE_WINDOW_SECS])

lemma prune_same: "prune now a = prune now b \<Longrightarrow> now \<le> now' \<Longrightarrow> prune now' a = prune now' b"
  by (metis prune_prune)

lemma pair_log_dropped:
  assumes "hm_ok (pi_pairs g)" "pi_pairs g2 = pairs_from now k g"
  shows "prune now (pair_log g2 k') = prune now (pair_log g k')"
  using assms
  by (cases "hm_get (pi_pairs g) k'")
    (auto simp: pairs_from_def dropped_pairs_def pair_log_def hm_get_retain hm_ok_map_values
      hm_get_map_values prune_prune prune_def[of now "[]"])

text \<open>
  A refusal or a replay costs no allowance: whatever the reason, at every later time the host window
  and every sender's window hold exactly the stamps they would have held without the message.
\<close>

theorem refusal_costs_nothing:
  fixes g g' :: peer_ingress and now now' :: nat and k :: "nat \<times> ustring"
  assumes "admit now r env h g = (v, g')" "v \<noteq> Proceed" "hm_ok (pi_pairs g)" "now \<le> now'"
  shows "prune now' (pi_host_log g') = prune now' (pi_host_log g)
    \<and> prune now' (pair_log g' k) = prune now' (pair_log g k)"
proof -
  have rate: "prune now' (pi_host_log g2) = prune now' (pi_host_log g)
      \<and> prune now' (pair_log g2 k) = prune now' (pair_log g k)"
    if r: "rate_ok now r s (sweep_replay now g) = (False, g2)" for s g2
  proof (cases rule: rate_ok_cases[of "sweep_replay now g" now r s])
    case host_full
    then show ?thesis using r assms(4) by (auto simp: prune_prune pair_log_def)
  next
    case (pair_full q0)
    then show ?thesis using r assms(4) by (auto simp: prune_prune pair_log_def hmap_simps)
  next
    case table_full
    have "prune now (pair_log g2 k) = prune now (pair_log (sweep_replay now g) k)"
      using r table_full(2) assms(3) by (intro pair_log_dropped[where k = "(r, s)"]) auto
    then have "prune now' (pair_log g2 k) = prune now' (pair_log (sweep_replay now g) k)"
      using assms(4) by (rule prune_same)
    then show ?thesis using r table_full(2) assms(4) by (auto simp: prune_prune pair_log_def)
  next
    case charged
    then show ?thesis using r by simp
  qed
  show ?thesis
  proof (cases rule: admit_cases[of now r env h g])
    case limited
    then show ?thesis using assms(1) rate[of "Address_display (env_from env)" g']
      by (cases "rate_ok now r (Address_display (env_from env)) (sweep_replay now g)") simp
  qed (use assms(1,2) in \<open>auto simp: pair_log_def\<close>)
qed

theorem refusal_costs_nothing_witness:
  "let g = ingress_new (ingress_config_default\<lparr>ic_pair_table := 0\<rparr>);
       (v, g') = admit 7 1 (sample_envelope (str ''m'')) [] g
   in v = Refuse (Rejected RateLimited) \<and> prune 9 (pi_host_log g') = []
     \<and> prune 9 (pair_log g' (1, [])) = []"
proof -
  define g where "g = ingress_new (ingress_config_default\<lparr>ic_pair_table := 0\<rparr>)"
  obtain v g' where a: "admit 7 1 (sample_envelope (str ''m'')) [] g = (v, g')" by fastforce
  have v: "v = Refuse (Rejected RateLimited)"
    using a by (simp add: g_def admit_def check_body_def MAX_BODY_BYTES_def Let_def sweep_replay_def
        rate_ok_def ingress_new_def ingress_config_default_def RATE_PER_HOST_PER_MINUTE_def prune_def
        hm_retain_def)
  have "prune 9 (pi_host_log g') = prune 9 (pi_host_log g) \<and> prune 9 (pair_log g' (1, [])) = prune 9 (pair_log g (1, []))"
    by (rule refusal_costs_nothing[OF a]) (simp_all add: v g_def ingress_new_def)
  with a v show ?thesis by (simp add: g_def ingress_new_def prune_def pair_log_def Let_def)
qed


section \<open>Rate limits over every window\<close>

text \<open>
  A queue \<open>q\<close> tracks a full log \<open>G\<close> of charged stamps: it holds the stamps still live at some time not
  after \<open>T\<close>. \<open>spaced\<close> says that each stamp, when it was charged, found room in its window.
\<close>

definition tracks :: "nat \<Rightarrow> nat list \<Rightarrow> nat list \<Rightarrow> bool" where
  "tracks T q G \<longleftrightarrow> sorted G \<and> (\<forall>t \<in> set G. t \<le> T) \<and>
     (\<exists>L \<le> T. q = filter (\<lambda>t. \<not> rate_expired L t) G)"

definition spaced :: "nat \<Rightarrow> nat list \<Rightarrow> bool" where
  "spaced cap G \<longleftrightarrow>
     (\<forall>i < length G. length (filter (\<lambda>x. G ! i < x + 60) (take (Suc i) G)) \<le> cap)"

lemma rate_expired_mono: "L \<le> now \<Longrightarrow> rate_expired L t \<Longrightarrow> rate_expired now t"
  by (simp add: rate_expired_def)

lemma tracks_prune:
  assumes "tracks T q G" "T \<le> now"
  shows "prune now q = filter (\<lambda>t. \<not> rate_expired now t) G" and "tracks now (prune now q) G"
proof -
  obtain L where L: "L \<le> T" "q = filter (\<lambda>t. \<not> rate_expired L t) G" "sorted G"
    using assms(1) by (auto simp: tracks_def)
  have "sorted q" using L by (simp add: sorted_filter[where f = id, simplified])
  then have "prune now q = filter (\<lambda>t. \<not> rate_expired now t) q"
    using rate.prune_is_filter[of id q now] by (simp add: prune_def)
  also have "\<dots> = filter (\<lambda>t. \<not> rate_expired now t) G"
    unfolding L(2) filter_filter using rate_expired_mono[of L now] L(1) assms(2)
    by (intro filter_cong) auto
  finally show "prune now q = filter (\<lambda>t. \<not> rate_expired now t) G" .
  then show "tracks now (prune now q) G" using assms by (auto simp: tracks_def intro: order_trans)
qed

lemma spaced_snoc:
  "spaced cap G \<Longrightarrow> length (filter (\<lambda>x. t < x + 60) (G @ [t])) \<le> cap \<Longrightarrow> spaced cap (G @ [t])"
  by (auto simp: spaced_def nth_append less_Suc_eq)

lemma tracks_push:
  assumes "tracks T q G" "T \<le> now" "spaced cap G" "length (prune now q) < cap" "now + 60 \<le> u64_max"
  shows "tracks now (prune now q @ [now]) (G @ [now]) \<and> spaced cap (G @ [now])"
proof -
  have live: "rate_expired now t \<longleftrightarrow> t + 60 \<le> now" for t
    using assms(5) by (auto simp: rate_expired_def sat_add64_def RATE_WINDOW_SECS_def)
  have q: "prune now q = filter (\<lambda>t. \<not> rate_expired now t) G" by (rule tracks_prune[OF assms(1,2)])
  have "length (filter (\<lambda>x. now < x + 60) (G @ [now])) \<le> cap"
    using assms(4) unfolding q by (simp add: live not_le Suc_le_eq)
  then have "spaced cap (G @ [now])" using assms(3) by (rule spaced_snoc[rotated])
  moreover have "tracks now (prune now q @ [now]) (G @ [now])"
    using assms(1,2) unfolding q tracks_def
    by (auto simp: sorted_append live intro!: exI[of _ now])
  ultimately show ?thesis by simp
qed

lemma spaced_snocD:
  assumes "spaced cap (G @ [u])"
  shows "spaced cap G" and "length (filter (\<lambda>x. u < x + 60) (G @ [u])) \<le> cap"
proof -
  have sp: "length (filter (\<lambda>x. (G @ [u]) ! i < x + 60) (take (Suc i) (G @ [u]))) \<le> cap"
    if "i < Suc (length G)" for i using assms that by (simp add: spaced_def)
  show "length (filter (\<lambda>x. u < x + 60) (G @ [u])) \<le> cap" using sp[of "length G"] by simp
  show "spaced cap G" unfolding spaced_def
  proof (intro allI impI)
    fix i assume "i < length G"
    then show "length (filter (\<lambda>x. G ! i < x + 60) (take (Suc i) G)) \<le> cap"
      using sp[of i] by (simp add: nth_append)
  qed
qed

lemma length_filter_imp: "(\<And>x. x \<in> set xs \<Longrightarrow> P x \<Longrightarrow> Q x) \<Longrightarrow> length (filter P xs) \<le> length (filter Q xs)"
  by (induction xs) (auto intro: le_SucI)

text \<open>A spaced log has at most \<open>cap\<close> stamps in any window of 60 seconds.\<close>

lemma spaced_window:
  assumes "sorted G" "spaced cap G"
  shows "length (filter (\<lambda>x. t \<le> x \<and> x < t + 60) G) \<le> cap"
  using assms
proof (induction G rule: rev_induct)
  case (snoc u G)
  have G: "sorted G" "spaced cap G"
    using snoc.prems spaced_snocD(1) by (auto simp: sorted_append)
  show ?case
  proof (cases "t \<le> u \<and> u < t + 60")
    case True
    have "length (filter (\<lambda>x. t \<le> x \<and> x < t + 60) (G @ [u])) \<le> length (filter (\<lambda>x. u < x + 60) (G @ [u]))"
      by (rule length_filter_imp) (use True in auto)
    also have "\<dots> \<le> cap" by (rule spaced_snocD(2)[OF snoc.prems(2)])
    finally show ?thesis .
  next
    case False
    then show ?thesis using snoc.IH[OF G(1,2)] by auto
  qed
qed simp

lemma tracks_later: "tracks T q G \<Longrightarrow> T \<le> T' \<Longrightarrow> tracks T' q G"
  by (auto simp: tracks_def intro: order_trans)

fun admit_times :: "ingress_op list \<Rightarrow> nat list" where
  "admit_times [] = []"
| "admit_times (IAdmit now _ _ _ # ops) = now # admit_times ops"
| "admit_times (_ # ops) = admit_times ops"

text \<open>What one message does to a tracked queue: the host window, and the window of one pair.\<close>

definition charged_at :: "bool \<Rightarrow> nat \<Rightarrow> nat list" where
  "charged_at b now = (if b then [now] else [])"

lemma admit_host:
  fixes r :: nat and env :: envelope and h :: ustring
  assumes "tracks T (pi_host_log g) G" "spaced (ic_host_per_minute (pi_cfg g)) G" "T \<le> now"
    and "now + 60 \<le> u64_max"
  defines "G' \<equiv> G @ charged_at (fst (admit now r env h g) = Proceed) now"
  shows "tracks now (pi_host_log (snd (admit now r env h g))) G' \<and> spaced (ic_host_per_minute (pi_cfg g)) G'"
proof -
  let ?s = "sweep_replay now g" and ?to = "Address_display (env_from env)"
  have rate: "tracks now (pi_host_log (snd (rate_ok now r ?to ?s))) (G @ charged_at (fst (rate_ok now r ?to ?s)) now)
      \<and> spaced (ic_host_per_minute (pi_cfg g)) (G @ charged_at (fst (rate_ok now r ?to ?s)) now)"
    using tracks_prune(2)[OF assms(1,3)] assms(2) tracks_push[OF assms(1,3,2) _ assms(4)]
    by (cases rule: rate_ok_cases[of ?s now r ?to]) (simp_all add: charged_at_def)
  show ?thesis
    using rate tracks_later[OF assms(1,3)] assms(2) unfolding G'_def
    by (cases rule: admit_cases[of now r env h g]) (auto simp: charged_at_def)
qed

lemma pair_log_from:
  assumes "hm_ok (pi_pairs g)" "pi_pairs g2 = pairs_from now k g"
  shows "pair_log g2 k' = pair_log g k' \<or> pair_log g2 k' = prune now (pair_log g k')"
  using assms
  by (cases "hm_get (pi_pairs g) k'")
    (auto simp: pairs_from_def dropped_pairs_def pair_log_def hm_get_retain hm_ok_map_values
      hm_get_map_values prune_def[of now "[]"])

lemma pair_log_insert:
  assumes "pi_pairs g2 = hm_insert k q m"
  shows "pair_log g2 k' = (if k' = k then q else case hm_get m k' of None \<Rightarrow> [] | Some q \<Rightarrow> q)"
  using assms by (simp add: pair_log_def hmap_simps)

lemma rate_ok_pair:
  fixes r :: nat and s :: ustring
  assumes t: "tracks T (pair_log g k) G" "spaced (ic_pair_per_minute (pi_cfg g)) G" "T \<le> now"
    and "now + 60 \<le> u64_max" "hm_ok (pi_pairs g)" "1 \<le> ic_pair_per_minute (pi_cfg g)"
  defines "G' \<equiv> G @ charged_at (fst (rate_ok now r s g) \<and> (r, s) = k) now"
  shows "tracks now (pair_log (snd (rate_ok now r s g)) k) G' \<and> spaced (ic_pair_per_minute (pi_cfg g)) G'"
proof -
  have stay: "tracks now (pair_log g k) G" "tracks now (prune now (pair_log g k)) G"
    using t by (auto intro: tracks_later tracks_prune(2))
  show ?thesis
  proof (cases rule: rate_ok_cases[of g now r s])
    case host_full
    then show ?thesis using stay t(2) by (simp add: G'_def charged_at_def pair_log_def)
  next
    case (pair_full q0)
    then show ?thesis using stay t(2)
      by (auto simp: G'_def charged_at_def pair_log_def hmap_simps)
  next
    case table_full
    have "pair_log (snd (rate_ok now r s g)) k = pair_log g k
        \<or> pair_log (snd (rate_ok now r s g)) k = prune now (pair_log g k)"
      using table_full(2) by (intro pair_log_from[OF assms(5), where k = "(r, s)"]) simp
    then show ?thesis using stay t(2) table_full(2) by (auto simp: G'_def charged_at_def)
  next
    case charged
    show ?thesis
    proof (cases "(r, s) = k")
      case True
      have "length (prune now (pair_log g k)) < ic_pair_per_minute (pi_cfg g)"
        using charged(3) True assms(6)
        by (cases "hm_get (pi_pairs g) (r, s)") (auto simp: pair_log_def prune_def)
      then show ?thesis using charged(4) True tracks_push[OF t(1,3,2) _ assms(4)]
        by (auto simp: G'_def charged_at_def pair_log_def hmap_simps)
    next
      case False
      have "pair_log (g\<lparr>pi_pairs := pairs_from now (r, s) g\<rparr>) k = pair_log g k
          \<or> pair_log (g\<lparr>pi_pairs := pairs_from now (r, s) g\<rparr>) k = prune now (pair_log g k)"
        by (intro pair_log_from[OF assms(5), where k = "(r, s)"]) simp
      moreover have "pair_log (snd (rate_ok now r s g)) k = pair_log (g\<lparr>pi_pairs := pairs_from now (r, s) g\<rparr>) k"
        using charged(4) False by (auto simp: pair_log_def hmap_simps)
      ultimately show ?thesis using stay t(2) False by (auto simp: G'_def charged_at_def)
    qed
  qed
qed

lemma admit_pair:
  fixes r :: nat and env :: envelope and h :: ustring
  assumes "tracks T (pair_log g k) G" "spaced (ic_pair_per_minute (pi_cfg g)) G" "T \<le> now"
    and "now + 60 \<le> u64_max" "hm_ok (pi_pairs g)" "1 \<le> ic_pair_per_minute (pi_cfg g)"
  defines "G' \<equiv> G @ charged_at (fst (admit now r env h g) = Proceed \<and> (r, Address_display (env_from env)) = k) now"
  shows "tracks now (pair_log (snd (admit now r env h g)) k) G' \<and> spaced (ic_pair_per_minute (pi_cfg g)) G'"
proof -
  let ?s = "sweep_replay now g" and ?to = "Address_display (env_from env)"
  have same: "pair_log ?s k = pair_log g k" by (simp add: pair_log_def)
  have rate: "tracks now (pair_log (snd (rate_ok now r ?to ?s)) k) (G @ charged_at (fst (rate_ok now r ?to ?s) \<and> (r, ?to) = k) now)
      \<and> spaced (ic_pair_per_minute (pi_cfg ?s)) (G @ charged_at (fst (rate_ok now r ?to ?s) \<and> (r, ?to) = k) now)"
    by (rule rate_ok_pair) (use assms same in simp_all)
  have later: "tracks now (pair_log g k) G" using assms(1,3) by (rule tracks_later)
  show ?thesis
    using rate later same assms(2) unfolding G'_def
    by (cases rule: admit_cases[of now r env h g]) (auto simp: charged_at_def)
qed

text \<open>Messages let through that satisfy \<open>p\<close> (all of them, or those of one pair), along a run.\<close>

definition let_through :: "(nat \<times> ustring \<Rightarrow> bool) \<Rightarrow> peer_ingress \<Rightarrow> ingress_op list \<Rightarrow> nat list" where
  "let_through p g ops = map fst (filter (\<lambda>(t, k). p k) (proceeds g ops))"

lemma let_through_Cons:
  "let_through p g (op # ops) = (case op of
       IAdmit now r env h \<Rightarrow>
         charged_at (fst (admit now r env h g) = Proceed \<and> p (r, Address_display (env_from env))) now
     | _ \<Rightarrow> []) @ let_through p (ingress_step g op) ops"
  by (cases op) (auto simp: let_through_def charged_at_def)

lemma record_frame [simp]:
  "pi_host_log (record_reply now r s i h oc g) = pi_host_log g"
  "pi_pairs (record_reply now r s i h oc g) = pi_pairs g"
  by (auto simp: record_reply_def Let_def split: prod.splits)

lemma run_host_spaced:
  assumes "tracks T (pi_host_log g) G" "spaced (ic_host_per_minute (pi_cfg g)) G"
    and "sorted (T # admit_times ops)" "\<forall>t \<in> set (admit_times ops). t + 60 \<le> u64_max"
  shows "sorted (G @ let_through (\<lambda>_. True) g ops)
    \<and> spaced (ic_host_per_minute (pi_cfg g)) (G @ let_through (\<lambda>_. True) g ops)"
  using assms
proof (induction ops arbitrary: g G T)
  case Nil
  then show ?case by (auto simp: let_through_def tracks_def)
next
  case (Cons op ops)
  show ?case
  proof (cases op)
    case (IAdmit now r env h)
    let ?G = "G @ charged_at (fst (admit now r env h g) = Proceed) now"
    have "tracks now (pi_host_log (ingress_step g op)) ?G \<and> spaced (ic_host_per_minute (pi_cfg (ingress_step g op))) ?G"
      using admit_host[OF Cons.prems(1,2), of now r env h] Cons.prems(3,4) IAdmit
        ingress_step_cfg[of g op] by simp
    then show ?thesis using Cons.IH[of now "ingress_step g op" ?G] Cons.prems(3,4) IAdmit
      ingress_step_cfg[of g op] by (simp add: let_through_Cons)
  qed (use Cons.IH[of T "ingress_step g op" G] Cons.prems ingress_step_cfg[of g op] in
      \<open>auto simp: let_through_Cons forget_def forget_session_def Let_def\<close>)
qed

lemma run_pair_spaced:
  assumes "tracks T (pair_log g k) G" "spaced (ic_pair_per_minute (pi_cfg g)) G"
    and "sorted (T # admit_times ops)" "\<forall>t \<in> set (admit_times ops). t + 60 \<le> u64_max"
    and "ingress_inv g" "1 \<le> ic_pair_per_minute (pi_cfg g)" "IForgetSession (fst k) \<notin> set ops"
  shows "sorted (G @ let_through (\<lambda>k'. k' = k) g ops)
    \<and> spaced (ic_pair_per_minute (pi_cfg g)) (G @ let_through (\<lambda>k'. k' = k) g ops)"
  using assms
proof (induction ops arbitrary: g G T)
  case Nil
  then show ?case by (auto simp: let_through_def tracks_def)
next
  case (Cons op ops)
  have inv: "ingress_inv (ingress_step g op)" using Cons.prems(5) by (rule ingress_inv_step)
  show ?case
  proof (cases op)
    case (IAdmit now r env h)
    let ?G = "G @ charged_at (fst (admit now r env h g) = Proceed \<and> (r, Address_display (env_from env)) = k) now"
    have "tracks now (pair_log (ingress_step g op) k) ?G
        \<and> spaced (ic_pair_per_minute (pi_cfg (ingress_step g op))) ?G"
      using admit_pair[OF Cons.prems(1,2), of now r env h] Cons.prems(3-6) IAdmit
        ingress_step_cfg[of g op] by (simp add: ingress_inv_def)
    then show ?thesis using Cons.IH[of now "ingress_step g op" ?G] Cons.prems(3-7) IAdmit inv
      ingress_step_cfg[of g op] by (simp add: let_through_Cons)
  next
    case (IForgetSession r)
    have "hm_get (pi_pairs (ingress_step g op)) k = hm_get (pi_pairs g) k"
      using IForgetSession Cons.prems(5,7)
      by (cases k) (auto simp: forget_session_def Let_def hm_get_retain ingress_inv_def split: option.splits)
    then show ?thesis using Cons.IH[of T "ingress_step g op" G] Cons.prems inv IForgetSession
      ingress_step_cfg[of g op] by (simp add: let_through_Cons pair_log_def)
  qed (use Cons.IH[of T "ingress_step g op" G] Cons.prems inv ingress_step_cfg[of g op] in
      \<open>auto simp: let_through_Cons forget_def pair_log_def\<close>)
qed

text \<open>
  The rate limits hold over every window of 60 seconds, not only over aligned minutes: along any run
  whose clock does not go backwards, at most \<open>host_per_minute\<close> messages are let through in any 60
  seconds, whatever is replayed, refused, recorded or forgotten in between.
\<close>

theorem host_rate_limit:
  fixes cfg :: ingress_config and ops :: "ingress_op list" and t :: nat
  assumes "sorted (admit_times ops)" "\<forall>u \<in> set (admit_times ops). u + 60 \<le> u64_max"
  shows "length (filter (\<lambda>(u, _). t \<le> u \<and> u < t + 60) (proceeds (ingress_new cfg) ops))
    \<le> ic_host_per_minute cfg"
proof -
  let ?G = "let_through (\<lambda>_. True) (ingress_new cfg) ops"
  have "sorted ([] @ ?G) \<and> spaced (ic_host_per_minute (pi_cfg (ingress_new cfg))) ([] @ ?G)"
    by (rule run_host_spaced[where T = 0])
      (use assms in \<open>auto simp: tracks_def spaced_def ingress_new_def\<close>)
  then have "length (filter (\<lambda>x. t \<le> x \<and> x < t + 60) ?G) \<le> ic_host_per_minute cfg"
    using spaced_window[of ?G] by (simp add: ingress_new_def)
  then show ?thesis by (simp add: let_through_def filter_map comp_def case_prod_unfold)
qed

theorem host_rate_limit_witness:
  "length (filter (\<lambda>(u, _). 0 \<le> u \<and> u < 0 + 60) (proceeds (ingress_new ingress_config_default)
     [IAdmit 7 1 (sample_envelope (str ''m'')) [], IForgetSession 1, IAdmit 8 2 (sample_envelope (str ''n'')) []])) \<le> 60"
  using host_rate_limit[of "[IAdmit 7 1 (sample_envelope (str ''m'')) [], IForgetSession 1,
      IAdmit 8 2 (sample_envelope (str ''n'')) []]" 0 ingress_config_default]
  by (simp add: ingress_config_default_def RATE_PER_HOST_PER_MINUTE_def)

text \<open>
  Likewise for one sender to one receiving session: at most \<open>pair_per_minute\<close> of its messages are let
  through in any 60 seconds while that session lives.
\<close>

theorem pair_rate_limit:
  fixes cfg :: ingress_config and ops :: "ingress_op list" and t receiver :: nat and sender :: ustring
  assumes "sorted (admit_times ops)" "\<forall>u \<in> set (admit_times ops). u + 60 \<le> u64_max"
    and "1 \<le> ic_pair_per_minute cfg" "IForgetSession receiver \<notin> set ops"
  shows "length (filter (\<lambda>(u, k). k = (receiver, sender) \<and> t \<le> u \<and> u < t + 60)
      (proceeds (ingress_new cfg) ops)) \<le> ic_pair_per_minute cfg"
proof -
  let ?G = "let_through (\<lambda>k'. k' = (receiver, sender)) (ingress_new cfg) ops"
  have "sorted ([] @ ?G) \<and> spaced (ic_pair_per_minute (pi_cfg (ingress_new cfg))) ([] @ ?G)"
    by (rule run_pair_spaced[where T = 0])
      (use assms ingress_inv_new in \<open>auto simp: tracks_def spaced_def ingress_new_def pair_log_def\<close>)
  then have "length (filter (\<lambda>x. t \<le> x \<and> x < t + 60) ?G) \<le> ic_pair_per_minute cfg"
    using spaced_window[of ?G] by (simp add: ingress_new_def)
  then show ?thesis
    by (simp add: let_through_def filter_map comp_def case_prod_unfold conj_commute conj_left_commute)
qed

theorem pair_rate_limit_witness:
  "length (filter (\<lambda>(u, k). k = (1, Address_display sample_address) \<and> 0 \<le> u \<and> u < 0 + 60)
     (proceeds (ingress_new ingress_config_default)
       [IAdmit 7 1 (sample_envelope (str ''m'')) [], IAdmit 8 1 (sample_envelope (str ''n'')) []])) \<le> 10"
  using pair_rate_limit[of "[IAdmit 7 1 (sample_envelope (str ''m'')) [], IAdmit 8 1 (sample_envelope (str ''n'')) []]"
      ingress_config_default 1 "Address_display sample_address" 0]
  by (simp add: ingress_config_default_def RATE_PER_PAIR_PER_MINUTE_def)


section \<open>Replay memory\<close>

text \<open>
  The entry of one key sits in the expiry queue with \<open>n\<close> entries at most behind it, and nothing before
  it mentions the key.
\<close>

definition queued :: "'k \<Rightarrow> remembered \<Rightarrow> nat \<Rightarrow> ('k, remembered) hmap \<Rightarrow> ('k \<times> nat) list \<Rightarrow> bool" where
  "queued k m n replay order \<longleftrightarrow> hm_get replay k = Some m \<and>
     (\<exists>pre suf. order = pre @ (k, rm_expires m) # suf \<and> k \<notin> fst ` set pre \<and> length suf \<le> n)"

lemma queuedI:
  "hm_get replay k = Some m \<Longrightarrow> k \<notin> fst ` set pre \<Longrightarrow> length suf \<le> n \<Longrightarrow>
     queued k m n replay (pre @ (k, rm_expires m) # suf)"
  unfolding queued_def by blast

lemma queued_pop:
  assumes "queued k m n replay ((k', e) # order)" "k' \<noteq> k"
  shows "queued k m n (if live_entry replay (k', e) then hm_remove k' replay else replay) order"
proof -
  obtain pre suf where p: "(k', e) # order = pre @ (k, rm_expires m) # suf" "k \<notin> fst ` set pre"
    "length suf \<le> n" "hm_get replay k = Some m"
    using assms(1) by (auto simp: queued_def)
  then obtain pre' where "order = pre' @ (k, rm_expires m) # suf" "k \<notin> fst ` set pre'"
    using assms(2) by (cases pre) auto
  then show ?thesis using p assms(2) by (auto simp: queued_def hmap_simps)
qed

lemma queued_head:
  assumes "queued k m n replay ((k, e) # order)"
  shows "e = rm_expires m \<and> length order \<le> n"
proof -
  obtain pre suf where p: "(k, e) # order = pre @ (k, rm_expires m) # suf" "k \<notin> fst ` set pre"
    "length suf \<le> n"
    using assms by (auto simp: queued_def)
  then show ?thesis by (cases pre) auto
qed

lemma sweep_loop_queued:
  "queued k m n replay order \<Longrightarrow> now < rm_expires m \<Longrightarrow>
     queued k m n (fst (sweep_loop now replay order)) (snd (sweep_loop now replay order))"
proof (induction now replay order rule: sweep_loop.induct)
  case (2 now replay k' e order)
  show ?case
  proof (cases "now < e")
    case False
    have "k' \<noteq> k" using queued_head[of k m n replay e order] 2(2,3) False by auto
    then show ?thesis using 2(1)[OF False queued_pop[OF 2(2)] 2(3)] False by simp
  qed (use 2 in simp)
qed simp

text \<open>Every remembered id has an entry, so there are at most as many ids as entries.\<close>

lemma cover_length: "cover replay order \<Longrightarrow> length replay \<le> length order"
proof -
  assume c: "cover replay order"
  have "fst ` set replay \<subseteq> fst ` set order"
  proof
    fix k assume "k \<in> fst ` set replay"
    then obtain m where "hm_get replay k = Some m"
      using map_of_eq_None_iff[of replay k] by (cases "hm_get replay k") auto
    then show "k \<in> fst ` set order" using c by (force simp: cover_def)
  qed
  then have "card (fst ` set replay) \<le> card (fst ` set order)" by (intro card_mono) auto
  also have "card (fst ` set replay) = length replay"
    using c by (metis cover_def distinct_card hm_ok_def length_map set_map)
  also have "card (fst ` set order) \<le> length order"
    by (metis card_image_le card_length finite_set order_trans)
  finally show ?thesis .
qed

lemma make_room_queued:
  "queued k m n replay order \<Longrightarrow> cover replay order \<Longrightarrow> Suc n < cap \<Longrightarrow>
     queued k m n (fst (make_room cap replay order)) (snd (make_room cap replay order))"
proof (induction cap replay order rule: make_room.induct)
  case (2 cap replay k' e order)
  show ?case
  proof (cases "length replay < cap")
    case False
    have "k' \<noteq> k"
      using queued_head[of k m n replay e order] 2(2,4) False cover_length[OF 2(3)] by auto
    then show ?thesis
      using 2(1)[OF False queued_pop[OF 2(2)] cover_pop[OF 2(3)] 2(4)] False by simp
  qed (use 2 in simp)
qed (simp add: queued_def)

lemma queued_filter:
  assumes "queued k m n replay order" "p (k, rm_expires m)"
  shows "queued k m n replay (filter p order)"
proof -
  obtain pre suf where p: "order = pre @ (k, rm_expires m) # suf" "k \<notin> fst ` set pre" "length suf \<le> n"
    using assms(1) by (auto simp: queued_def)
  have "filter p order = filter p pre @ (k, rm_expires m) # filter p suf"
    using assms(2) by (simp add: p(1))
  moreover have "length (filter p suf) \<le> n" by (meson le_trans length_filter_le p(3))
  moreover have "k \<notin> fst ` set (filter p pre)" using p(2) by auto
  moreover have "hm_get replay k = Some m" using assms(1) by (simp add: queued_def)
  ultimately show ?thesis using queuedI by metis
qed

lemma queued_live: "queued k m n replay order \<Longrightarrow> live_entry replay (k, rm_expires m)"
  by (auto simp: queued_def live_entry_iff)

lemma queued_more: "queued k m n replay order \<Longrightarrow> n \<le> n' \<Longrightarrow> queued k m n' replay order"
  unfolding queued_def by (elim conjE exE) (intro conjI exI, assumption+, simp)

lemma queued_other_map:
  "queued k m n replay order \<Longrightarrow> hm_get replay' k = hm_get replay k \<Longrightarrow> queued k m n replay' order"
  by (simp add: queued_def)

lemma queued_snoc: "queued k m n replay order \<Longrightarrow> queued k m (Suc n) replay (order @ [x])"
  unfolding queued_def by fastforce

lemma queued_compact:
  "queued k m n (pi_replay g) (pi_replay_order g) \<Longrightarrow>
     queued k m n (pi_replay g) (pi_replay_order (compact g))"
  by (simp add: compact_def queued_filter queued_live)

lemma record_queued:
  assumes "queued k m n (pi_replay g) (pi_replay_order g)" "cover (pi_replay g) (pi_replay_order g)"
    and "Suc n < ic_remembered_ids (pi_cfg g)"
  shows "queued k m (Suc n) (pi_replay (record_reply now r s i h oc g))
    (pi_replay_order (record_reply now r s i h oc g))"
proof (cases "transient oc \<or> hm_get (pi_replay g) (r, s, i) \<noteq> None")
  case True
  then show ?thesis using queued_more[OF assms(1), of "Suc n"] by (auto simp: record_reply_def)
next
  case False
  obtain rp od where mr: "make_room (ic_remembered_ids (pi_cfg g)) (pi_replay g) (pi_replay_order g) = (rp, od)"
    by fastforce
  have "queued k m n rp od" using make_room_queued[OF assms] mr by simp
  moreover have "k \<noteq> (r, s, i)" using False assms(1) by (auto simp: queued_def)
  ultimately have "queued k m (Suc n) (hm_insert (r, s, i) v rp) (od @ [x])" for v x
    using queued_snoc[of k m n rp od x] queued_other_map[of k m "Suc n" rp "od @ [x]" "hm_insert (r, s, i) v rp"]
    by (auto simp: hmap_simps)
  from queued_compact[of k m "Suc n" "g\<lparr>pi_replay := hm_insert (r, s, i) v rp, pi_replay_order := od @ [x]\<rparr>" for v x]
    this show ?thesis using False mr by (simp add: record_reply_def Let_def)
qed

text \<open>The operations that leave a remembered id alone, and the number of later records.\<close>

fun spares :: "replay_key \<Rightarrow> nat \<Rightarrow> ingress_op \<Rightarrow> bool" where
  "spares k e (IAdmit t _ _ _) = (t < e)"
| "spares k e (IRecord _ _ _ _ _ _) = True"
| "spares k e (IForget r s i) = (k \<noteq> (r, s, i))"
| "spares k e (IForgetSession r) = (fst k \<noteq> r)"

fun is_record :: "ingress_op \<Rightarrow> bool" where
  "is_record (IRecord _ _ _ _ _ _) = True"
| "is_record _ = False"

lemma queued_sweep:
  "queued k m n (pi_replay g) (pi_replay_order g) \<Longrightarrow> now < rm_expires m \<Longrightarrow>
     queued k m n (pi_replay (sweep_replay now g)) (pi_replay_order (sweep_replay now g))"
  using sweep_loop_queued[of k m n "pi_replay g" "pi_replay_order g" now]
  by (simp add: sweep_replay_def case_prod_unfold Let_def)

lemma step_queued:
  assumes "queued k m n (pi_replay g) (pi_replay_order g)" "ingress_inv g" "spares k (rm_expires m) op"
    and "is_record op \<Longrightarrow> Suc n < ic_remembered_ids (pi_cfg g)"
  shows "queued k m (if is_record op then Suc n else n) (pi_replay (ingress_step g op))
    (pi_replay_order (ingress_step g op))"
proof (cases op)
  case (IAdmit now r env h)
  then show ?thesis using queued_sweep[OF assms(1), of now] assms(1,3)
    by (cases rule: admit_cases[of now r env h g]) simp_all
next
  case (IRecord now r s i h oc)
  then show ?thesis using record_queued[OF assms(1)] assms(2,4) by (simp add: ingress_inv_def)
next
  case (IForget r s i)
  then show ?thesis using queued_other_map[OF assms(1)] assms(3) by (simp add: forget_def hmap_simps)
next
  case (IForgetSession r)
  let ?rp = "hm_retain (\<lambda>(r', _, _) _. r' \<noteq> r) (pi_replay g)"
  have "hm_get ?rp k = hm_get (pi_replay g) k"
    using assms(1,2,3) IForgetSession
    by (cases k) (auto simp: hm_get_retain queued_def ingress_inv_def cover_def)
  then have "queued k m n ?rp (pi_replay_order g)" using queued_other_map[OF assms(1)] by simp
  then have "queued k m n ?rp (filter (live_entry ?rp) (pi_replay_order g))"
    by (intro queued_filter queued_live)
  then show ?thesis using IForgetSession by (simp add: forget_session_def Let_def)
qed

lemma run_queued:
  assumes "queued k m n (pi_replay g) (pi_replay_order g)" "ingress_inv g"
    and "\<forall>op \<in> set ops. spares k (rm_expires m) op"
    and "n + count_if is_record ops < ic_remembered_ids (pi_cfg g)"
  shows "\<exists>n'. queued k m n' (pi_replay (foldl ingress_step g ops)) (pi_replay_order (foldl ingress_step g ops))"
  using assms
proof (induction ops arbitrary: g n)
  case (Cons op ops)
  have "queued k m (if is_record op then Suc n else n) (pi_replay (ingress_step g op))
      (pi_replay_order (ingress_step g op))"
    using Cons.prems by (intro step_queued) (auto split: if_splits)
  then show ?case
    using Cons.IH[of "if is_record op then Suc n else n" "ingress_step g op"] Cons.prems
      ingress_inv_step[of g op] by (auto split: if_splits)
qed auto

lemma make_room_subset: "set (snd (make_room cap replay order)) \<subseteq> set order"
  by (induction cap replay order rule: make_room.induct) auto

lemma record_fresh_queued:
  fixes now :: nat and h :: ustring
  assumes "(r, s, i) \<notin> fst ` set (pi_replay_order g)" "cover (pi_replay g) (pi_replay_order g)" "\<not> transient oc"
  defines "m \<equiv> \<lparr>rm_body_hash = h, rm_outcome = oc, rm_expires = sat_add64 now (ic_id_memory_secs (pi_cfg g))\<rparr>"
  shows "queued (r, s, i) m 0 (pi_replay (record_reply now r s i h oc g))
    (pi_replay_order (record_reply now r s i h oc g))"
proof -
  obtain rp od where mr: "make_room (ic_remembered_ids (pi_cfg g)) (pi_replay g) (pi_replay_order g) = (rp, od)"
    by fastforce
  have none: "hm_get (pi_replay g) (r, s, i) = None"
    using assms(1,2) by (cases "hm_get (pi_replay g) (r, s, i)") (force simp: cover_def)+
  have "(r, s, i) \<notin> fst ` set od"
    using make_room_subset[of "ic_remembered_ids (pi_cfg g)" "pi_replay g" "pi_replay_order g"] mr assms(1) by auto
  then have "queued (r, s, i) m 0 (hm_insert (r, s, i) m rp) (od @ [((r, s, i), rm_expires m)])"
    by (auto simp: queued_def hmap_simps)
  with queued_compact[of "(r, s, i)" m 0 "g\<lparr>pi_replay := hm_insert (r, s, i) m rp,
      pi_replay_order := od @ [((r, s, i), rm_expires m)]\<rparr>"]
  show ?thesis using none mr assms(3) by (simp add: record_reply_def Let_def m_def)
qed

lemma admit_known:
  assumes "queued (r, Address_display (env_from env), env_message_id env) m n (pi_replay g) (pi_replay_order g)"
    and "t < rm_expires m" "str_len (env_body env) \<le> MAX_BODY_BYTES"
  shows "admit t r env h g =
    (if rm_body_hash m = h then Replay (rm_outcome m) else Refuse (Rejected Ambiguous), sweep_replay t g)"
proof -
  have "hm_get (pi_replay (sweep_replay t g)) (r, Address_display (env_from env), env_message_id env) = Some m"
    using queued_sweep[OF assms(1,2)] by (simp add: queued_def)
  then show ?thesis using assms(3) by (simp add: admit_def check_body_def Let_def)
qed

text \<open>
  Delivery is idempotent per message id. Once the outcome of a message is recorded, then for as long
  as the memory lasts, and across any other traffic that neither forgets this id or session nor
  records \<open>remembered_ids\<close> further messages, sending it again with the same body answers the first
  outcome and charges no rate window; the same id with another body is refused as ambiguous.
\<close>

theorem replay_idempotent:
  fixes cfg :: ingress_config and ops0 ops :: "ingress_op list" and env :: envelope
    and now t r :: nat and h :: ustring and oc :: delivery_outcome
  defines "key \<equiv> (r, Address_display (env_from env), env_message_id env)"
    and "g \<equiv> foldl ingress_step (ingress_new cfg) ops0"
    and "expires \<equiv> sat_add64 now (ic_id_memory_secs cfg)"
  defines "g1 \<equiv> foldl ingress_step (record_reply now r (Address_display (env_from env)) (env_message_id env) h oc g) ops"
  assumes "\<not> transient oc" "key \<notin> fst ` set (pi_replay_order g)"
    and "\<forall>op \<in> set ops. spares key expires op" "count_if is_record ops < ic_remembered_ids cfg"
    and "t < expires" "str_len (env_body env) \<le> MAX_BODY_BYTES"
  shows "fst (admit t r env h' g1) = (if h' = h then Replay oc else Refuse (Rejected Ambiguous))
    \<and> pi_pairs (snd (admit t r env h' g1)) = pi_pairs g1
    \<and> pi_host_log (snd (admit t r env h' g1)) = pi_host_log g1"
proof -
  have inv: "ingress_inv g" unfolding g_def by (intro ingress.run_inv ingress_inv_new)
  have cfg: "pi_cfg g = cfg" by (simp add: g_def ingress_new_def)
  let ?m = "\<lparr>rm_body_hash = h, rm_outcome = oc, rm_expires = expires\<rparr>"
  let ?gr = "record_reply now r (Address_display (env_from env)) (env_message_id env) h oc g"
  have q: "queued key ?m 0 (pi_replay ?gr) (pi_replay_order ?gr)"
    using record_fresh_queued[of r "Address_display (env_from env)" "env_message_id env" g oc h now] inv assms(5,6)
    by (simp add: ingress_inv_def key_def expires_def cfg)
  have "pi_cfg ?gr = cfg"
    using ingress_step_cfg[of g "IRecord now r (Address_display (env_from env)) (env_message_id env) h oc"] cfg
    by simp
  then obtain n where "queued key ?m n (pi_replay g1) (pi_replay_order g1)"
    unfolding g1_def
    using run_queued[OF q ingress_inv_record[OF inv], of ops] assms(7,8) by auto
  then show ?thesis
    using admit_known[of r env ?m n g1 t h'] assms(9,10) by (auto simp: key_def)
qed

theorem replay_idempotent_witness:
  "fst (admit 300 1 (sample_envelope (str ''m'')) (str ''h'')
     (foldl ingress_step
       (record_reply 7 1 (Address_display sample_address) (str ''m'') (str ''h'') Delivered
         (foldl ingress_step (ingress_new ingress_config_default) []))
       [IAdmit 9 1 (sample_envelope (str ''n'')) [], IForget 1 [] (str ''n''),
        IRecord 9 1 (Address_display sample_address) (str ''n'') [] Delivered]))
   = Replay Delivered"
  using replay_idempotent[of Delivered 1 "sample_envelope (str ''m'')" ingress_config_default "[]"
      "[IAdmit 9 1 (sample_envelope (str ''n'')) [], IForget 1 [] (str ''n''),
        IRecord 9 1 (Address_display sample_address) (str ''n'') [] Delivered]" 7 300 "str ''h''" "str ''h''"]
  by (simp add: transient_def ingress_new_def ingress_config_default_def MESSAGE_ID_MEMORY_SECS_def
      REMEMBERED_MESSAGE_IDS_def sat_add64_def MAX_BODY_BYTES_def str_def)

end
