(* ===== verification/Peer_Locator.thy ===== *)
theory Peer_Locator
  imports Peer_Wire "HOL-Library.Word"
begin

text \<open>
  Locator files and socket paths: \<^verbatim>\<open>fuigo-peer/src/locator_row.rs\<close> and the \<open>Locations\<close> of
  \<^verbatim>\<open>fuigo-shell/src/peer_inbox/dial.rs\<close> that applies its directory rule. A file is a list of bytes. The
  cursor is the rest of the input; every parser returns what it read and the new rest, or the error.
  The two loops are total: the row loop fills one of four fields each round, the file loop stops at
  the row cap.
\<close>

section \<open>Rows\<close>

definition MAX_ROWS_BYTES :: nat where "MAX_ROWS_BYTES = MAX_FRAME_BYTES"
definition MAX_ROWS :: nat where "MAX_ROWS = LIST_PAGE_ROWS"
definition SOCKET_PATH_MAX :: nat where "SOCKET_PATH_MAX = 103"
definition HOME_SUFFIX_LEN :: nat where
  "HOME_SUFFIX_LEN = length (str ''/peers/'') + 32 + length (str ''.sock'')"
definition RUNTIME_SUFFIX_LEN :: nat where
  "RUNTIME_SUFFIX_LEN = length (str ''/fuigo/peers/'') + 32 + length (str ''.sock'')"

datatype host_dir = DirHome | DirRuntime

record host_row =
  row_host_id :: host_id
  row_pid :: nat
  row_started :: nat
  row_dir :: host_dir

datatype rows_error = RowsTooLarge | TooManyRows | DuplicateHost | Malformed

type_synonym bytes = "nat list"


section \<open>The cursor\<close>

definition is_json_ws :: "nat \<Rightarrow> bool" where
  "is_json_ws c \<longleftrightarrow> c = 32 \<or> c = 9 \<or> c = 10 \<or> c = 13"

definition cur_ws :: "bytes \<Rightarrow> bytes" where
  "cur_ws s = dropWhile is_json_ws s"

definition cur_expect :: "nat \<Rightarrow> bytes \<Rightarrow> (bytes, rows_error) result" where
  "cur_expect c s = (case s of x # r \<Rightarrow> if x = c then Inr r else Inl Malformed | [] \<Rightarrow> Inl Malformed)"

fun cur_string_body :: "bytes \<Rightarrow> (bytes \<times> bytes, rows_error) result" where
  "cur_string_body [] = Inl Malformed"
| "cur_string_body (c # s) =
     (if c = ch CHR 0x22 then Inr ([], s)
      else if c = ch CHR 0x5C \<or> c \<le> 0x1f then Inl Malformed
      else rbind (cur_string_body s) (\<lambda>(body, r). Inr (c # body, r)))"

definition cur_string :: "bytes \<Rightarrow> (bytes \<times> bytes, rows_error) result" where
  "cur_string s = rbind (cur_expect (ch CHR 0x22) s) cur_string_body"

definition checked_digit :: "nat option \<Rightarrow> nat \<Rightarrow> nat option" where
  "checked_digit acc d = (case acc of
       None \<Rightarrow> None
     | Some n \<Rightarrow>
         if u64_max < n * 10 then None
         else if u64_max < n * 10 + (d - 48) then None else Some (n * 10 + (d - 48)))"

definition cur_number :: "bytes \<Rightarrow> (nat \<times> bytes, rows_error) result" where
  "cur_number s =
     (let digits = takeWhile is_ascii_digit s; r = dropWhile is_ascii_digit s in
      if digits = [] \<or> 20 < length digits \<or> 1 < length digits \<and> hd digits = 48 then Inl Malformed
      else rbind (ok_or (foldl checked_digit (Some 0) digits) Malformed) (\<lambda>n. Inr (n, r)))"

text \<open>
  The fields of a row under construction. \<open>from_utf8\<close> and \<open>HostId::new\<close> fail with the same error, and a
  byte sequence that is not ASCII is no host id, so the bytes go to \<open>HostId_new\<close> directly.
\<close>

record row_acc =
  acc_host :: "host_id option"
  acc_pid :: "nat option"
  acc_started :: "nat option"
  acc_dir :: "host_dir option"

definition row_field :: "bytes \<Rightarrow> row_acc \<Rightarrow> bytes \<Rightarrow> (row_acc \<times> bytes, rows_error) result" where
  "row_field key acc s =
     (if key = str ''host_id'' \<and> acc_host acc = None then
        rbind (cur_string s) (\<lambda>(t, r).
        rbind (map_err (\<lambda>_. Malformed) (HostId_new t)) (\<lambda>h. Inr (acc\<lparr>acc_host := Some h\<rparr>, r)))
      else if key = str ''pid'' \<and> acc_pid acc = None then
        rbind (cur_number s) (\<lambda>(n, r).
          if u32_max < n then Inl Malformed else Inr (acc\<lparr>acc_pid := Some n\<rparr>, r))
      else if key = str ''started'' \<and> acc_started acc = None then
        rbind (cur_number s) (\<lambda>(n, r). Inr (acc\<lparr>acc_started := Some n\<rparr>, r))
      else if key = str ''dir'' \<and> acc_dir acc = None then
        rbind (cur_string s) (\<lambda>(t, r).
          if t = str ''home'' then Inr (acc\<lparr>acc_dir := Some DirHome\<rparr>, r)
          else if t = str ''runtime'' then Inr (acc\<lparr>acc_dir := Some DirRuntime\<rparr>, r)
          else Inl Malformed)
      else Inl Malformed)"

definition unset :: "row_acc \<Rightarrow> nat" where
  "unset acc = of_bool (acc_host acc = None) + of_bool (acc_pid acc = None)
     + of_bool (acc_started acc = None) + of_bool (acc_dir acc = None)"

lemma row_field_cases:
  assumes "row_field key acc s = Inr (acc', r)"
  obtains
    (host) t h where "key = str ''host_id''" "acc_host acc = None" "cur_string s = Inr (t, r)"
      "HostId_new t = Inr h" "acc' = acc\<lparr>acc_host := Some h\<rparr>"
  | (pid) n where "key = str ''pid''" "acc_pid acc = None" "cur_number s = Inr (n, r)" "n \<le> u32_max"
      "acc' = acc\<lparr>acc_pid := Some n\<rparr>"
  | (started) n where "key = str ''started''" "acc_started acc = None" "cur_number s = Inr (n, r)"
      "acc' = acc\<lparr>acc_started := Some n\<rparr>"
  | (dir) d where "key = str ''dir''" "acc_dir acc = None" "acc' = acc\<lparr>acc_dir := Some d\<rparr>"
proof -
  consider "key = str ''host_id'' \<and> acc_host acc = None"
    | "\<not> (key = str ''host_id'' \<and> acc_host acc = None)" "key = str ''pid'' \<and> acc_pid acc = None"
    | "\<not> (key = str ''host_id'' \<and> acc_host acc = None)" "\<not> (key = str ''pid'' \<and> acc_pid acc = None)"
      "key = str ''started'' \<and> acc_started acc = None"
    | "\<not> (key = str ''host_id'' \<and> acc_host acc = None)" "\<not> (key = str ''pid'' \<and> acc_pid acc = None)"
      "\<not> (key = str ''started'' \<and> acc_started acc = None)" "key = str ''dir'' \<and> acc_dir acc = None"
    | "\<not> (key = str ''host_id'' \<and> acc_host acc = None)" "\<not> (key = str ''pid'' \<and> acc_pid acc = None)"
      "\<not> (key = str ''started'' \<and> acc_started acc = None)" "\<not> (key = str ''dir'' \<and> acc_dir acc = None)"
    by satx
  then show ?thesis
  proof cases
    case 1
    with assms obtain t h where "cur_string s = Inr (t, r)" "HostId_new t = Inr h" "acc' = acc\<lparr>acc_host := Some h\<rparr>"
      by (cases "cur_string s"; cases "HostId_new (fst (projr (cur_string s)))")
        (auto simp: row_field_def)
    with 1 show ?thesis by (intro host) auto
  next
    case 2
    with assms obtain n where "cur_number s = Inr (n, r)" "n \<le> u32_max" "acc' = acc\<lparr>acc_pid := Some n\<rparr>"
      by (cases "cur_number s") (auto simp: row_field_def split: if_splits)
    with 2 show ?thesis by (intro pid) auto
  next
    case 3
    with assms obtain n where "cur_number s = Inr (n, r)" "acc' = acc\<lparr>acc_started := Some n\<rparr>"
      by (cases "cur_number s") (auto simp: row_field_def)
    with 3 show ?thesis by (intro started) auto
  next
    case 4
    with assms obtain d where "acc' = acc\<lparr>acc_dir := Some d\<rparr>"
      by (cases "cur_string s") (auto simp: row_field_def split: if_splits)
    with 4 show ?thesis by (intro dir) auto
  next
    case 5
    with assms show ?thesis unfolding row_field_def by (simp only: if_False sum.distinct)
  qed
qed

lemma row_field_unset: "row_field key acc s = Inr (acc', r) \<Longrightarrow> unset acc' < unset acc"
  by (erule row_field_cases) (simp_all add: unset_def)

lemma rbind_cong [fundef_cong]:
  "r = r' \<Longrightarrow> (\<And>a. r' = Inr a \<Longrightarrow> f a = f' a) \<Longrightarrow> rbind r f = rbind r' f'"
  by (cases r') auto

function row_loop :: "row_acc \<Rightarrow> bytes \<Rightarrow> (row_acc \<times> bytes, rows_error) result" where
  "row_loop acc s =
     rbind (cur_string (cur_ws s)) (\<lambda>(key, s2).
     rbind (cur_expect (ch CHR '':'') (cur_ws s2)) (\<lambda>s3.
     rbind (row_field key acc (cur_ws s3)) (\<lambda>(acc', s4).
     case cur_ws s4 of
       [] \<Rightarrow> Inl Malformed
     | c # s5 \<Rightarrow>
         if c = ch CHR '','' then row_loop acc' s5
         else if c = ch CHR ''}'' then Inr (acc', s5) else Inl Malformed)))"
  by pat_completeness auto
termination
  by (relation "measure (\<lambda>(acc, s). unset acc)") (auto dest: row_field_unset)

declare row_loop.simps [simp del]

definition cur_row :: "bytes \<Rightarrow> (host_row \<times> bytes, rows_error) result" where
  "cur_row s =
     rbind (cur_expect (ch CHR ''{'') s) (\<lambda>s1.
     rbind (row_loop \<lparr>acc_host = None, acc_pid = None, acc_started = None, acc_dir = None\<rparr> s1) (\<lambda>(acc, r).
     case (acc_host acc, acc_pid acc, acc_started acc, acc_dir acc) of
       (Some h, Some p, Some st, Some d) \<Rightarrow>
         Inr (\<lparr>row_host_id = h, row_pid = p, row_started = st, row_dir = d\<rparr>, r)
     | _ \<Rightarrow> Inl Malformed))"

text \<open>\<open>seen\<close> is the set of the host ids of \<open>rows\<close>.\<close>

function rows_loop :: "host_row list \<Rightarrow> bytes \<Rightarrow> (host_row list \<times> bytes, rows_error) result" where
  "rows_loop rows s =
     (if MAX_ROWS \<le> length rows then Inl TooManyRows
      else
        rbind (cur_row s) (\<lambda>(row, s1).
        if row_host_id row \<in> row_host_id ` set rows then Inl DuplicateHost
        else case cur_ws s1 of
            [] \<Rightarrow> Inl Malformed
          | c # s2 \<Rightarrow>
              if c = ch CHR '','' then rows_loop (rows @ [row]) (cur_ws s2)
              else if c = ch CHR '']'' then Inr (rows @ [row], s2) else Inl Malformed))"
  by pat_completeness auto
termination
  by (relation "measure (\<lambda>(rows, s). MAX_ROWS - length rows)") auto

declare rows_loop.simps [simp del]

definition parse_rows :: "bytes \<Rightarrow> (host_row list, rows_error) result" where
  "parse_rows bytes =
     (if MAX_ROWS_BYTES < length bytes then Inl RowsTooLarge
      else
        rbind (cur_expect (ch CHR ''['') (cur_ws bytes)) (\<lambda>s.
        rbind (case cur_ws s of
            c # r \<Rightarrow> if c = ch CHR '']'' then Inr ([], r) else rows_loop [] (c # r)
          | [] \<Rightarrow> rows_loop [] []) (\<lambda>(rows, r).
        if cur_ws r \<noteq> [] then Inl Malformed else Inr rows)))"


section \<open>Paths\<close>

definition host_id_str :: "host_id \<Rightarrow> bytes" where
  "host_id_str h = (case h of HostId t \<Rightarrow> t)"

definition socket_path :: "bytes \<Rightarrow> host_id \<Rightarrow> bytes" where
  "socket_path dir h = path_join dir (host_id_str h @ str ''.sock'')"

datatype dir_unavailable = NoRuntimeDir | RuntimeTooLong

datatype dir_choice = ChooseHome | ChooseRuntime | DirUnavailable dir_unavailable

definition choose_dir :: "nat \<Rightarrow> nat option \<Rightarrow> dir_choice" where
  "choose_dir home_len runtime_len =
     (if sat_add64 home_len HOME_SUFFIX_LEN \<le> SOCKET_PATH_MAX then ChooseHome
      else case runtime_len of
          None \<Rightarrow> DirUnavailable NoRuntimeDir
        | Some n \<Rightarrow> if sat_add64 n RUNTIME_SUFFIX_LEN \<le> SOCKET_PATH_MAX then ChooseRuntime
                    else DirUnavailable RuntimeTooLong)"

datatype try_result = TryRefused | TryNoSuchFile | TryTimeout | TryVersionMismatch | TryHello host_id | TryOther

datatype reap = Reap | Keep

definition absent :: "try_result \<Rightarrow> bool" where
  "absent t \<longleftrightarrow> t = TryRefused \<or> t = TryNoSuchFile"

definition reap_decision :: "host_dir \<Rightarrow> host_id \<Rightarrow> try_result \<Rightarrow> try_result \<Rightarrow> bool \<Rightarrow> reap" where
  "reap_decision dir expected first second same_runtime_dir =
     (if first = TryRefused \<and> second = TryRefused then Reap
      else if absent first \<and> absent second \<and> (dir = DirHome \<or> same_runtime_dir) then Reap
      else case (first, second) of
          (TryHello a, TryHello b) \<Rightarrow> if a = b \<and> a \<noteq> expected then Reap else Keep
        | _ \<Rightarrow> Keep)"

definition hex_digit :: "nat \<Rightarrow> nat" where
  "hex_digit n = (if n < 10 then 48 + n else 87 + n)"

text \<open>\<open>{h:016x}\<close>: sixteen nibbles, the highest first.\<close>

definition hex16 :: "64 word \<Rightarrow> bytes" where
  "hex16 h = map (\<lambda>i. hex_digit (unat h div 16 ^ (15 - i) mod 16)) [0..<16]"

definition fnv_step :: "64 word \<Rightarrow> nat \<Rightarrow> 64 word" where
  "fnv_step h b = xor h (of_nat b) * 0x100000001b3"

definition hash16 :: "bytes \<Rightarrow> bytes" where
  "hash16 bs = hex16 (foldl fnv_step 0xcbf29ce484222325 bs)"

definition runtime_home_dir :: "bytes \<Rightarrow> bytes \<Rightarrow> bytes" where
  "runtime_home_dir runtime home = path_join (path_join runtime (str ''fuigo'')) (hash16 home)"

definition runtime_peers_dir :: "bytes \<Rightarrow> bytes \<Rightarrow> bytes" where
  "runtime_peers_dir runtime home = path_join (runtime_home_dir runtime home) (str ''peers'')"


section \<open>The dialer's locations\<close>

definition RUNTIME_EXTRA :: nat where "RUNTIME_EXTRA = 17"

record locations =
  loc_home :: bytes
  loc_runtime :: "bytes option"

definition Locations_new :: "bytes \<Rightarrow> bytes option \<Rightarrow> locations" where
  "Locations_new home runtime =
     \<lparr>loc_home = home,
      loc_runtime = (case runtime of Some p \<Rightarrow> if is_absolute p then Some p else None | None \<Rightarrow> None)\<rparr>"

definition runtime_home :: "locations \<Rightarrow> bytes option" where
  "runtime_home l = map_option (\<lambda>rt. runtime_home_dir rt (loc_home l)) (loc_runtime l)"

fun peers_path :: "locations \<Rightarrow> host_dir \<Rightarrow> bytes option" where
  "peers_path l DirHome = Some (path_join (loc_home l) (str ''peers''))"
| "peers_path l DirRuntime = map_option (\<lambda>r. path_join r (str ''peers'')) (runtime_home l)"

definition loc_choose :: "locations \<Rightarrow> dir_choice" where
  "loc_choose l = choose_dir (length (loc_home l))
     (map_option (\<lambda>r. sat_add64 (length r) RUNTIME_EXTRA) (loc_runtime l))"

definition loc_socket :: "locations \<Rightarrow> host_id \<Rightarrow> host_dir \<Rightarrow> bytes option" where
  "loc_socket l h d = map_option (\<lambda>p. socket_path p h) (peers_path l d)"

end
