(* ===== verification/Peer_Locator_Props.thy ===== *)
theory Peer_Locator_Props
  imports Peer_Locator
begin

text \<open>
  Properties of locator files and socket paths: what the parser accepts is within its caps, what
  \<open>serde_json\<close> writes is read back, the chosen directory always gives a path that fits, and a row is
  reaped only on evidence.
\<close>

section \<open>What the parser accepts\<close>

definition row_ok :: "host_row \<Rightarrow> bool" where
  "row_ok r \<longleftrightarrow> is_ok (HostId_new (host_id_str (row_host_id r))) \<and> row_pid r \<le> u32_max \<and> row_started r \<le> u64_max"

definition acc_ok :: "row_acc \<Rightarrow> bool" where
  "acc_ok a \<longleftrightarrow> (\<forall>h. acc_host a = Some h \<longrightarrow> is_ok (HostId_new (host_id_str h)))
     \<and> (\<forall>n. acc_pid a = Some n \<longrightarrow> n \<le> u32_max) \<and> (\<forall>n. acc_started a = Some n \<longrightarrow> n \<le> u64_max)"

lemma checked_digit_None [simp]: "foldl checked_digit None ds = None"
  by (induction ds) (simp_all add: checked_digit_def)

lemma checked_digits_bound: "a \<le> u64_max \<Longrightarrow> foldl checked_digit (Some a) ds = Some n \<Longrightarrow> n \<le> u64_max"
proof (induction ds arbitrary: a)
  case (Cons d ds)
  show ?case
  proof (cases "checked_digit (Some a) d")
    case (Some b)
    then have "b \<le> u64_max" by (auto simp: checked_digit_def split: if_splits)
    then show ?thesis using Cons.IH[of b] Cons.prems(2) Some by simp
  qed (use Cons.prems in simp)
qed simp

lemma cur_number_bound: "cur_number s = Inr (n, r) \<Longrightarrow> n \<le> u64_max"
  using checked_digits_bound[of 0]
  by (auto simp: cur_number_def Let_def rbind_Inr_iff ok_or_Inr_iff split: if_splits)

lemma HostId_new_str: "HostId_new t = Inr h \<Longrightarrow> is_ok (HostId_new (host_id_str h))"
  by (auto simp: HostId_new_def host_id_str_def split: if_splits)

lemma row_field_ok: "row_field key acc s = Inr (acc', r) \<Longrightarrow> acc_ok acc \<Longrightarrow> acc_ok acc'"
  by (erule row_field_cases) (auto simp: acc_ok_def dest: cur_number_bound HostId_new_str)

lemma row_loop_ok: "row_loop acc s = Inr (acc', r) \<Longrightarrow> acc_ok acc \<Longrightarrow> acc_ok acc'"
proof (induction acc s arbitrary: acc' r rule: row_loop.induct)
  case (1 acc s)
  obtain key s2 s3 a1 s4 c s5 where p: "cur_string (cur_ws s) = Inr (key, s2)"
    "cur_expect (ch CHR '':'') (cur_ws s2) = Inr s3" "row_field key acc (cur_ws s3) = Inr (a1, s4)" "cur_ws s4 = c # s5"
    and q: "(if c = 44 then row_loop a1 s5 else if c = ch CHR ''}'' then Inr (a1, s5) else Inl Malformed) = Inr (acc', r)"
    using 1(2) unfolding row_loop.simps[of acc s]
    by (auto simp: rbind_Inr_iff case_list_Inr_iff)
  have a1: "acc_ok a1" using row_field_ok[OF p(3) 1(3)] .
  show ?case
  proof (cases "c = 44")
    case True
    then show ?thesis using 1(1)[OF p(1) refl p(2) p(3) refl p(4)] q a1 by simp
  next
    case False
    then show ?thesis using q a1 by (auto split: if_splits)
  qed
qed

lemma cur_row_ok: "cur_row s = Inr (row, r) \<Longrightarrow> row_ok row"
proof -
  assume c: "cur_row s = Inr (row, r)"
  let ?a0 = "\<lparr>acc_host = None, acc_pid = None, acc_started = None, acc_dir = None\<rparr>"
  obtain s1 acc r' where "row_loop ?a0 s1 = Inr (acc, r')"
    "(case (acc_host acc, acc_pid acc, acc_started acc, acc_dir acc) of
       (Some h, Some p, Some st, Some d) \<Rightarrow>
         Inr (\<lparr>row_host_id = h, row_pid = p, row_started = st, row_dir = d\<rparr>, r')
     | _ \<Rightarrow> Inl Malformed) = Inr (row, r)"
    using c by (auto simp: cur_row_def rbind_Inr_iff)
  moreover have "acc_ok ?a0" by (simp add: acc_ok_def)
  ultimately show ?thesis
    using row_loop_ok by (fastforce simp: row_ok_def acc_ok_def split: option.split_asm)
qed

lemma rows_loop_ok:
  assumes "rows_loop rows s = Inr (rows', r)" "distinct (map row_host_id rows)" "\<forall>x \<in> set rows. row_ok x"
  shows "length rows' \<le> MAX_ROWS \<and> distinct (map row_host_id rows') \<and> (\<forall>x \<in> set rows'. row_ok x)"
  using assms
proof (induction rows s arbitrary: rows' r rule: rows_loop.induct)
  case (1 rows s)
  have lt: "\<not> MAX_ROWS \<le> length rows"
    using 1(2) unfolding rows_loop.simps[of rows s] by (auto split: if_splits)
  obtain row s1 c s2 where p: "cur_row s = Inr (row, s1)" "row_host_id row \<notin> row_host_id ` set rows"
    "cur_ws s1 = c # s2"
    and q: "(if c = 44 then rows_loop (rows @ [row]) (cur_ws s2)
       else if c = ch CHR '']'' then Inr (rows @ [row], s2) else Inl Malformed) = Inr (rows', r)"
    using 1(2) lt unfolding rows_loop.simps[of rows s]
    by (auto simp: rbind_Inr_iff case_list_Inr_iff if_err_Inr_iff)
  have ok: "distinct (map row_host_id (rows @ [row]))" "\<forall>x \<in> set (rows @ [row]). row_ok x"
    using p(2) 1(3,4) cur_row_ok[OF p(1)] by auto
  show ?case
  proof (cases "c = 44")
    case True
    then show ?thesis using 1(1)[OF lt p(1) refl p(2,3) _ _ ok] q by simp
  next
    case False
    then show ?thesis using q ok lt by (auto split: if_splits)
  qed
qed

text \<open>
  What the locator parser accepts is safe to use: at most 64 KiB and 64 rows, no host id twice, and in
  each row a host id of 32 lower-case hex characters, a pid of 32 and a start time of 64 bits.
\<close>

theorem parse_rows_sound:
  fixes b :: bytes and rows :: "host_row list"
  assumes "parse_rows b = Inr rows"
  shows "length b \<le> 65536 \<and> length rows \<le> 64 \<and> distinct (map row_host_id rows) \<and> (\<forall>r \<in> set rows. row_ok r)"
proof -
  obtain s r where s: "\<not> MAX_ROWS_BYTES < length b"
    "(case cur_ws s of c # r \<Rightarrow> if c = ch CHR '']'' then Inr ([], r) else rows_loop [] (c # r)
       | [] \<Rightarrow> rows_loop [] []) = Inr (rows, r)"
    using assms unfolding parse_rows_def by (auto simp: rbind_Inr_iff if_err_Inr_iff)
  then have "rows = [] \<or> (\<exists>s'. rows_loop [] s' = Inr (rows, r))"
    by (auto split: list.split_asm if_split_asm)
  then have "length rows \<le> MAX_ROWS \<and> distinct (map row_host_id rows) \<and> (\<forall>r \<in> set rows. row_ok r)"
    using rows_loop_ok[of "[]"] by auto
  then show ?thesis using s(1) by (simp add: MAX_ROWS_def MAX_ROWS_BYTES_def wire_caps)
qed

section \<open>What \<open>serde_json\<close> writes is read back\<close>

text \<open>The compact JSON form of a row and of a file, in the field order of \<open>HostRow\<close>.\<close>

definition quoted :: "bytes \<Rightarrow> bytes" where
  "quoted t = 34 # t @ [34]"

fun dir_name :: "host_dir \<Rightarrow> bytes" where
  "dir_name DirHome = str ''home''"
| "dir_name DirRuntime = str ''runtime''"

definition json_row :: "host_row \<Rightarrow> bytes" where
  "json_row r = [123] @ quoted (str ''host_id'') @ [58] @ quoted (host_id_str (row_host_id r))
     @ [44] @ quoted (str ''pid'') @ [58] @ show_nat (row_pid r)
     @ [44] @ quoted (str ''started'') @ [58] @ show_nat (row_started r)
     @ [44] @ quoted (str ''dir'') @ [58] @ quoted (dir_name (row_dir r)) @ [125]"

definition json_rows :: "host_row list \<Rightarrow> bytes" where
  "json_rows rows = [91] @ join [44] (map json_row rows) @ [93]"

definition plain :: "bytes \<Rightarrow> bool" where
  "plain t \<longleftrightarrow> (\<forall>c \<in> set t. c \<noteq> 34 \<and> c \<noteq> 92 \<and> 0x1f < c)"

lemma cur_string_quoted: "plain t \<Longrightarrow> cur_string (quoted t @ r) = Inr (t, r)"
proof -
  assume "plain t"
  then have "cur_string_body (t @ 34 # r) = Inr (t, r)"
    by (induction t) (auto simp: plain_def)
  then show ?thesis by (simp add: cur_string_def cur_expect_def quoted_def)
qed

lemma ws_id [simp]: "\<not> is_json_ws c \<Longrightarrow> cur_ws (c # s) = c # s"
  by (simp add: cur_ws_def)

lemma digit_ws: "is_ascii_digit c \<Longrightarrow> \<not> is_json_ws c"
  by (auto simp: is_ascii_digit_def is_json_ws_def)

lemma ws_show_nat [simp]: "cur_ws (show_nat n @ s) = show_nat n @ s"
proof -
  obtain c cs where "show_nat n = c # cs" by (cases "show_nat n") auto
  then show ?thesis using show_nat_char[of c n] digit_ws[of c] by simp
qed

lemma ws_quoted [simp]: "cur_ws (quoted t @ s) = quoted t @ s"
  by (simp add: quoted_def is_json_ws_def)

lemma digits_fold_ge: "a \<le> foldl (\<lambda>n d. 10 * n + (d - 48)) a ds" for a :: nat
proof (induction ds arbitrary: a)
  case (Cons d ds)
  have "a \<le> 10 * a + (d - 48)" by simp
  also have "\<dots> \<le> foldl (\<lambda>n d. 10 * n + (d - 48)) (10 * a + (d - 48)) ds" by (rule Cons.IH)
  finally show ?case by simp
qed simp

lemma checked_digits_value:
  "foldl (\<lambda>n d. 10 * n + (d - 48)) a ds \<le> u64_max \<Longrightarrow>
     foldl checked_digit (Some a) ds = Some (foldl (\<lambda>n d. 10 * n + (d - 48)) a ds)"
proof (induction ds arbitrary: a)
  case (Cons d ds)
  have "10 * a + (d - 48) \<le> u64_max"
    using Cons.prems digits_fold_ge[of "10 * a + (d - 48)" ds] by simp
  then have "checked_digit (Some a) d = Some (10 * a + (d - 48))"
    by (simp add: checked_digit_def mult.commute)
  then show ?case using Cons.IH[of "10 * a + (d - 48)"] Cons.prems by simp
qed simp

lemma show_nat_length: "n < 10 ^ k \<Longrightarrow> 0 < k \<Longrightarrow> length (show_nat n) \<le> k"
proof (induction n arbitrary: k rule: show_nat.induct)
  case (1 n)
  show ?case
  proof (cases "n < 10")
    case True
    then show ?thesis using 1(3) by (subst show_nat.simps) simp
  next
    case False
    then obtain j where k: "k = Suc j" "0 < j" using 1(2,3) by (cases k; cases "k - 1") auto
    have "length (show_nat (n div 10)) \<le> j" using 1(1)[OF False, of j] 1(2) k by simp
    then show ?thesis using False k by (subst show_nat.simps) simp
  qed
qed

lemma show_nat_hd: "hd (show_nat n) = 48 \<longleftrightarrow> n = 0"
proof (induction n rule: show_nat.induct)
  case (1 n)
  show ?case
  proof (cases "n < 10")
    case True
    then show ?thesis by (subst show_nat.simps) simp
  next
    case False
    then show ?thesis using 1[OF False] by (subst show_nat.simps) (simp add: hd_append)
  qed
qed

lemma cur_number_show_nat:
  assumes "n \<le> u64_max" "r = [] \<or> \<not> is_ascii_digit (hd r)"
  shows "cur_number (show_nat n @ r) = Inr (n, r)"
proof -
  have tw: "takeWhile is_ascii_digit (show_nat n @ r) = show_nat n" "dropWhile is_ascii_digit (show_nat n @ r) = r"
    using assms(2) show_nat_char by (cases r; simp add: takeWhile_append dropWhile_append)+
  have len: "length (show_nat n) \<le> 20" using assms(1) by (intro show_nat_length) auto
  have lead: "\<not> (1 < length (show_nat n) \<and> hd (show_nat n) = 48)"
    using show_nat_length[of 0 1] by (cases "n = 0") (simp_all add: show_nat_hd)
  have "foldl checked_digit (Some 0) (show_nat n) = Some n"
    using checked_digits_value[of 0 "show_nat n"] assms(1) digits_value_show_nat[of n]
    by (simp add: digits_value_def)
  then show ?thesis using tw len lead by (auto simp: cur_number_def Let_def)
qed

lemma plain_consts: "plain (str ''host_id'')" "plain (str ''pid'')" "plain (str ''started'')" "plain (str ''dir'')"
  "plain (dir_name d)"
  by (simp_all add: plain_def str_def) (cases d; simp add: str_def)

lemma plain_host: "is_ok (HostId_new t) \<Longrightarrow> plain t"
  by (auto simp: HostId_new_def plain_def list_all_iff is_lower_hex_def is_ascii_digit_def split: if_splits)

lemma key_neqs: "str ''pid'' \<noteq> str ''host_id''" "str ''started'' \<noteq> str ''host_id''" "str ''dir'' \<noteq> str ''host_id''"
  "str ''started'' \<noteq> str ''pid''" "str ''dir'' \<noteq> str ''pid''" "str ''dir'' \<noteq> str ''started''"
  "str ''runtime'' \<noteq> str ''home''"
  by (simp_all add: str_def)

lemma row_loop_more:
  assumes "plain key" "row_field key acc v = Inr (acc', 44 # s)" "cur_ws v = v"
  shows "row_loop acc (quoted key @ 58 # v) = row_loop acc' s"
proof -
  have "cur_string (cur_ws (quoted key @ 58 # v)) = Inr (key, 58 # v)"
    using cur_string_quoted[OF assms(1)] by simp
  then show ?thesis
    using assms(2,3) by (subst row_loop.simps) (simp add: cur_expect_def is_json_ws_def)
qed

lemma row_loop_last:
  assumes "plain key" "row_field key acc v = Inr (acc', 125 # s)" "cur_ws v = v"
  shows "row_loop acc (quoted key @ 58 # v) = Inr (acc', s)"
proof -
  have "cur_string (cur_ws (quoted key @ 58 # v)) = Inr (key, 58 # v)"
    using cur_string_quoted[OF assms(1)] by simp
  then show ?thesis
    using assms(2,3) by (subst row_loop.simps) (simp add: cur_expect_def is_json_ws_def)
qed

lemma cur_row_json:
  assumes "row_ok x"
  shows "cur_row (json_row x @ r) = Inr (x, r)"
proof -
  let ?a0 = "\<lparr>acc_host = None, acc_pid = None, acc_started = None, acc_dir = None\<rparr>"
  let ?a1 = "?a0\<lparr>acc_host := Some (row_host_id x)\<rparr>"
  let ?a2 = "?a1\<lparr>acc_pid := Some (row_pid x)\<rparr>"
  let ?a3 = "?a2\<lparr>acc_started := Some (row_started x)\<rparr>"
  let ?a4 = "?a3\<lparr>acc_dir := Some (row_dir x)\<rparr>"
  let ?h = "host_id_str (row_host_id x)"
  let ?s3 = "quoted (str ''dir'') @ 58 # quoted (dir_name (row_dir x)) @ 125 # r"
  let ?s2 = "quoted (str ''started'') @ 58 # show_nat (row_started x) @ 44 # ?s3"
  let ?s1 = "quoted (str ''pid'') @ 58 # show_nat (row_pid x) @ 44 # ?s2"
  let ?s0 = "quoted (str ''host_id'') @ 58 # quoted ?h @ 44 # ?s1"
  have ok: "is_ok (HostId_new ?h)" "row_pid x \<le> u32_max" "row_started x \<le> u64_max"
    using assms by (simp_all add: row_ok_def)
  have "HostId_new ?h = Inr (row_host_id x)"
    using ok(1) by (cases "row_host_id x") (auto simp: HostId_new_def host_id_str_def split: if_splits)
  then have "row_field (str ''host_id'') ?a0 (quoted ?h @ 44 # ?s1) = Inr (?a1, 44 # ?s1)"
    using cur_string_quoted[OF plain_host[OF ok(1)], of "44 # ?s1"] by (simp add: row_field_def)
  then have "row_loop ?a0 ?s0 = row_loop ?a1 ?s1" by (intro row_loop_more plain_consts) simp_all
  also have "\<dots> = row_loop ?a2 ?s2"
  proof (intro row_loop_more plain_consts)
    have "cur_number (show_nat (row_pid x) @ 44 # ?s2) = Inr (row_pid x, 44 # ?s2)"
      using ok(2) by (intro cur_number_show_nat) (auto simp: is_ascii_digit_def)
    then show "row_field (str ''pid'') ?a1 (show_nat (row_pid x) @ 44 # ?s2) = Inr (?a2, 44 # ?s2)"
      using ok(2) by (simp add: row_field_def key_neqs)
  qed simp
  also have "\<dots> = row_loop ?a3 ?s3"
  proof (intro row_loop_more plain_consts)
    have "cur_number (show_nat (row_started x) @ 44 # ?s3) = Inr (row_started x, 44 # ?s3)"
      using ok(3) by (intro cur_number_show_nat) (auto simp: is_ascii_digit_def)
    then show "row_field (str ''started'') ?a2 (show_nat (row_started x) @ 44 # ?s3) = Inr (?a3, 44 # ?s3)"
      by (simp add: row_field_def key_neqs)
  qed simp
  also have "\<dots> = Inr (?a4, r)"
  proof (intro row_loop_last plain_consts)
    show "row_field (str ''dir'') ?a3 (quoted (dir_name (row_dir x)) @ 125 # r) = Inr (?a4, 125 # r)"
      using cur_string_quoted[OF plain_consts(5), of "row_dir x" "125 # r"]
      by (cases "row_dir x") (simp_all add: row_field_def key_neqs)
  qed simp
  finally have "row_loop ?a0 ?s0 = Inr (?a4, r)" .
  then show ?thesis by (simp add: cur_row_def json_row_def cur_expect_def)
qed

lemma json_row_Cons: "\<exists>t. json_row x = 123 # t"
  by (simp add: json_row_def)

lemma ws_json_rows: "cur_ws (join [44] (map json_row (y # ys)) @ r) = join [44] (map json_row (y # ys)) @ r"
proof -
  obtain t where "json_row y = 123 # t" using json_row_Cons by blast
  then show ?thesis by (cases ys) (simp_all add: is_json_ws_def)
qed

lemma rows_loop_json:
  assumes "\<forall>y \<in> set (x # xs). row_ok y" "distinct (map row_host_id (acc @ x # xs))"
    and "length (acc @ x # xs) \<le> MAX_ROWS"
  shows "rows_loop acc (join [44] (map json_row (x # xs)) @ 93 # r) = Inr (acc @ x # xs, r)"
  using assms
proof (induction xs arbitrary: acc x)
  case Nil
  then show ?case
    by (subst rows_loop.simps) (auto simp: cur_row_json is_json_ws_def)
next
  case (Cons y ys)
  let ?tail = "join [44] (map json_row (y # ys)) @ 93 # r"
  have split: "join [44] (map json_row (x # y # ys)) @ 93 # r = json_row x @ 44 # ?tail" by simp
  have "rows_loop acc (json_row x @ 44 # ?tail) = rows_loop (acc @ [x]) ?tail"
    using Cons.prems ws_json_rows[of y ys "93 # r"]
    by (subst rows_loop.simps) (auto simp: cur_row_json is_json_ws_def simp del: join.simps)
  also have "\<dots> = Inr ((acc @ [x]) @ y # ys, r)"
    using Cons.prems by (intro Cons.IH) simp_all
  finally show ?case unfolding split by simp
qed

lemma parse_json_rows:
  fixes rows :: "host_row list"
  assumes "\<forall>r \<in> set rows. row_ok r" "distinct (map row_host_id rows)" "length rows \<le> 64"
    and "length (json_rows rows) \<le> 65536"
  shows "parse_rows (json_rows rows) = Inr rows"
proof (cases rows)
  case Nil
  then show ?thesis
    by (simp add: parse_rows_def json_rows_def cur_expect_def is_json_ws_def MAX_ROWS_BYTES_def wire_caps
        cur_ws_def)
next
  case (Cons x xs)
  obtain t where t: "json_row x = 123 # t" using json_row_Cons by blast
  have "rows_loop [] (join [44] (map json_row rows) @ [93]) = Inr ([] @ x # xs, [])"
    unfolding Cons using assms Cons by (intro rows_loop_json) (simp_all add: MAX_ROWS_def wire_caps)
  moreover obtain t' where "join [44] (map json_row rows) @ [93] = 123 # t'"
    using t Cons by (cases xs) auto
  moreover have "\<not> MAX_ROWS_BYTES < length (json_rows rows)"
    using assms(4) by (simp add: MAX_ROWS_BYTES_def wire_caps)
  ultimately show ?thesis
    by (simp add: parse_rows_def json_rows_def cur_expect_def is_json_ws_def Cons)
      (simp add: cur_ws_def)
qed

text \<open>
  A locator file of valid rows, in the compact form \<open>serde_json\<close> writes for \<open>HostRow\<close>, is read back
  as exactly those rows, as long as it is within the row and size caps and no host appears twice.
\<close>

theorem locator_roundtrip:
  fixes rows :: "host_row list"
  assumes "\<forall>r \<in> set rows. row_ok r" "distinct (map row_host_id rows)" "length rows \<le> 64"
    and "length (json_rows rows) \<le> 65536"
  shows "parse_rows (json_rows rows) = Inr rows"
  using assms by (rule parse_json_rows)

definition sample_row :: host_row where
  "sample_row = \<lparr>row_host_id = HostId (replicate 32 97), row_pid = 7, row_started = 12, row_dir = DirRuntime\<rparr>"

lemma sample_row_ok: "row_ok sample_row"
proof -
  have "str_len (replicate 32 97) = 32" by (simp add: str_len_def utf8_width_def sum_list_replicate)
  then show ?thesis
    by (simp add: row_ok_def sample_row_def host_id_str_def HostId_new_def HOST_ID_LEN_def
        list_all_iff is_lower_hex_def)
qed

lemma sample_json_length: "length (json_rows [sample_row]) \<le> 65536"
proof -
  have "length (show_nat 7) \<le> 2" "length (show_nat 12) \<le> 2" by (rule show_nat_length; simp)+
  then show ?thesis
    by (simp add: json_rows_def json_row_def sample_row_def quoted_def host_id_str_def str_def)
qed

theorem locator_roundtrip_witness: "parse_rows (json_rows [sample_row]) = Inr [sample_row]"
  by (rule locator_roundtrip) (simp_all add: sample_row_ok sample_json_length)

theorem parse_rows_sound_witness: "\<exists>b rows. parse_rows b = Inr rows \<and> rows \<noteq> [] \<and> length rows \<le> 64"
proof -
  have p: "parse_rows (json_rows [sample_row]) = Inr [sample_row]"
    by (rule parse_json_rows) (simp_all add: sample_row_ok sample_json_length)
  show ?thesis using parse_rows_sound[OF p] p by blast
qed


section \<open>Socket paths and reaping\<close>

lemma path_join_length: "length (path_join a b) \<le> length a + 1 + length b"
  by (simp add: path_join_def)

lemma path_join_child: "\<exists>pre. path_join a b = pre @ b \<and> (pre = [] \<or> last pre = ch CHR ''/'')"
  by (auto simp: path_join_def)

lemma hash16_length [simp]: "length (hash16 b) = 16"
  by (simp add: hash16_def hex16_def)

lemma host_id_len: "is_ok (HostId_new t) \<Longrightarrow> length t = 32"
  using str_len_ascii[of t]
  by (auto simp: HostId_new_def HOST_ID_LEN_def list_all_iff is_lower_hex_def is_ascii_digit_def split: if_splits)
    force

lemma sat_add64_le_small: "sat_add64 n k \<le> 103 \<Longrightarrow> n + k \<le> 103"
  by (simp add: sat_add64_def min_def split: if_splits)

lemma socket_path_bound:
  assumes "is_ok (HostId_new (host_id_str h))"
  shows "length (socket_path d h) \<le> length d + 38"
  using path_join_length[of d "host_id_str h @ str ''.sock''"] host_id_len[OF assms]
  by (simp add: socket_path_def str_def)

text \<open>
  The directory rule never picks a directory whose socket path does not fit: whatever the home and
  the runtime directory, the path that the chosen directory gives for any host id exists, is at most
  103 bytes and is a direct child of the peers directory, its name free of slashes.
\<close>

theorem chosen_socket_fits:
  fixes home :: bytes and runtime :: "bytes option" and h :: host_id
  defines "l \<equiv> Locations_new home runtime"
  assumes "is_ok (HostId_new (host_id_str h))"
    and "d = DirHome \<and> loc_choose l = ChooseHome \<or> d = DirRuntime \<and> loc_choose l = ChooseRuntime"
  shows "\<exists>p pre. loc_socket l h d = Some p \<and> length p \<le> 103
    \<and> p = pre @ host_id_str h @ str ''.sock'' \<and> (pre = [] \<or> last pre = ch CHR ''/'')
    \<and> ch CHR ''/'' \<notin> set (host_id_str h @ str ''.sock'')"
proof -
  have slash: "ch CHR ''/'' \<notin> set (host_id_str h @ str ''.sock'')"
    using assms(2) by (auto simp: HostId_new_def list_all_iff is_lower_hex_def is_ascii_digit_def str_def
        split: if_splits)
  have "\<exists>dir. peers_path l d = Some dir \<and> length dir + 38 \<le> 103"
  proof (cases d)
    case DirHome
    then have "sat_add64 (length (loc_home l)) 44 \<le> 103"
      using assms(3) by (auto simp: loc_choose_def choose_dir_def HOME_SUFFIX_LEN_def SOCKET_PATH_MAX_def str_def
          split: if_splits option.splits)
    then show ?thesis
      using DirHome sat_add64_le_small path_join_length[of "loc_home l" "str ''peers''"]
      by (fastforce simp: str_def)
  next
    case DirRuntime
    then obtain rt where rt: "loc_runtime l = Some rt" "sat_add64 (sat_add64 (length rt) 17) 50 \<le> 103"
      using assms(3) by (auto simp: loc_choose_def choose_dir_def RUNTIME_SUFFIX_LEN_def SOCKET_PATH_MAX_def
          RUNTIME_EXTRA_def str_def split: if_splits option.splits)
    then have "length rt + 67 \<le> 103"
      using sat_add64_le_small[of "sat_add64 (length rt) 17" 50] sat_add64_le_small[of "length rt" 17] by
        (auto simp: sat_add64_def min_def split: if_splits)
    then show ?thesis
      using DirRuntime rt(1) path_join_length[of "runtime_home_dir rt (loc_home l)" "str ''peers''"]
        path_join_length[of "path_join rt (str ''fuigo'')" "hash16 (loc_home l)"]
        path_join_length[of rt "str ''fuigo''"]
      by (simp add: runtime_home_def runtime_home_dir_def str_def)
  qed
  then obtain dir where dir: "peers_path l d = Some dir" "length dir + 38 \<le> 103" by blast
  then have "length (socket_path dir h) \<le> 103" using socket_path_bound[OF assms(2), of dir] by simp
  moreover obtain pre where "socket_path dir h = pre @ host_id_str h @ str ''.sock''"
    "pre = [] \<or> last pre = ch CHR ''/''"
    using path_join_child[of dir "host_id_str h @ str ''.sock''"] by (auto simp: socket_path_def)
  ultimately show ?thesis using dir slash by (auto simp: loc_socket_def)
qed

theorem chosen_socket_fits_witness:
  "\<exists>p pre. loc_socket (Locations_new (str ''/home/a'') None) (row_host_id sample_row) DirHome = Some p
     \<and> length p \<le> 103 \<and> p = pre @ host_id_str (row_host_id sample_row) @ str ''.sock''
     \<and> (pre = [] \<or> last pre = ch CHR ''/'')
     \<and> ch CHR ''/'' \<notin> set (host_id_str (row_host_id sample_row) @ str ''.sock'')"
proof (rule chosen_socket_fits)
  show "is_ok (HostId_new (host_id_str (row_host_id sample_row)))"
    using sample_row_ok by (simp add: row_ok_def)
  show "DirHome = DirHome \<and> loc_choose (Locations_new (str ''/home/a'') None) = ChooseHome
    \<or> DirHome = DirRuntime \<and> loc_choose (Locations_new (str ''/home/a'') None) = ChooseRuntime"
    by (simp add: loc_choose_def choose_dir_def Locations_new_def HOME_SUFFIX_LEN_def SOCKET_PATH_MAX_def
        sat_add64_def str_def)
qed

text \<open>
  A locator row is removed only on evidence in both tries: two refused connects, two absent sockets
  where absence proves something (a home row, or the same runtime directory), or the same foreign
  host answering twice. A time-out, a version mismatch, an unclear failure or one greeting of the
  expected host always keeps the row.
\<close>

theorem reap_only_on_evidence:
  fixes d :: host_dir and e :: host_id and f s :: try_result and same :: bool
  shows "(reap_decision d e f s same = Reap \<longleftrightarrow>
       f = TryRefused \<and> s = TryRefused
       \<or> absent f \<and> absent s \<and> (d = DirHome \<or> same)
       \<or> (\<exists>x. x \<noteq> e \<and> f = TryHello x \<and> s = TryHello x))
    \<and> (\<forall>t \<in> {TryTimeout, TryVersionMismatch, TryOther, TryHello e}.
         reap_decision d e t s same = Keep \<and> reap_decision d e f t same = Keep)"
  by (cases f; cases s) (auto simp: reap_decision_def absent_def)

theorem reap_only_on_evidence_witness:
  "reap_decision DirHome (HostId []) TryNoSuchFile TryRefused False = Reap
   \<and> reap_decision DirHome (HostId []) TryNoSuchFile TryTimeout False = Keep"
  using reap_only_on_evidence[of DirHome "HostId []" TryNoSuchFile TryRefused False]
  by (simp add: absent_def)

end
