(* ===== verification/Peer_Host.thy ===== *)
theory Peer_Host
  imports Peer_Wire
begin

text \<open>
  What models and people see of other sessions, and how a \<open>to\<close> is resolved against the listed rows:
  \<^verbatim>\<open>fuigo-peer/src/host.rs\<close>. The trait \<open>PeerHost\<close> itself is implemented by the shell and is not modelled.
\<close>

definition DISPLAY_CAP :: nat where "DISPLAY_CAP = 64"
definition NOTICE_ADDR_CAP :: nat where "NOTICE_ADDR_CAP = 200"
definition WATCH_EXPIRY_SECS :: nat where "WATCH_EXPIRY_SECS = 12 * 60 * 60"

datatype relation = Family | SameHost | Peer

fun relation_label :: "relation \<Rightarrow> ustring" where
  "relation_label Family = str ''own-subagent''"
| "relation_label SameHost = str ''same-host''"
| "relation_label Peer = str ''peer''"

record peer_row =
  pr_address :: address
  pr_name :: ustring
  pr_session_ref :: ustring
  pr_relation :: relation

record peer_page =
  pp_rows :: "peer_row list"
  pp_more :: bool

record self_info =
  si_address :: address
  si_name :: ustring
  si_session_ref :: ustring
  si_is_subagent :: bool


section \<open>Neutral display of peer-supplied text\<close>

text \<open>\<open>{:X}\<close> of a number.\<close>

definition upper_hex :: "nat \<Rightarrow> nat" where
  "upper_hex n = (if n < 10 then 48 + n else 55 + n)"

fun show_hex :: "nat \<Rightarrow> ustring" where
  "show_hex n = (if n < 16 then [upper_hex n] else show_hex (n div 16) @ [upper_hex (n mod 16)])"

declare show_hex.simps [simp del]

definition hidden_char :: "nat \<Rightarrow> bool" where
  "hidden_char c \<longleftrightarrow> is_control c \<or> c = 0x2028 \<or> c = 0x2029 \<or> c \<in> set BIDI_CONTROLS
     \<or> 0x200B \<le> c \<and> c \<le> 0x200D \<or> c = 0x2060 \<or> c = 0xFEFF"

definition escape_char :: "nat \<Rightarrow> ustring" where
  "escape_char c =
     (if c = ch CHR ''&'' then str ''&amp;''
      else if c = ch CHR ''<'' then str ''&lt;''
      else if c = ch CHR ''>'' then str ''&gt;''
      else if c = ch CHR 0x22 then str ''&quot;''
      else if c = ch CHR 0x27 then str ''&#39;''
      else if hidden_char c then str ''&#x'' @ show_hex c @ str '';''
      else [c])"

fun display_escape :: "ustring \<Rightarrow> nat \<Rightarrow> ustring" where
  "display_escape [] cap = []"
| "display_escape (c # s) 0 = [0x2026]"
| "display_escape (c # s) (Suc n) = escape_char c @ display_escape s n"


section \<open>Resolution\<close>

datatype resolve_error = Invalid | Unknown | AmbiguousRefs "ustring list"

definition pick :: "peer_row list \<Rightarrow> (address, resolve_error) result" where
  "pick found = (case found of
       [] \<Rightarrow> Inl Unknown
     | [r] \<Rightarrow> Inr (pr_address r)
     | _ \<Rightarrow> Inl (AmbiguousRefs (map pr_session_ref found)))"

definition is_address_target :: "(target, address_error) result \<Rightarrow> bool" where
  "is_address_target t = (case t of Inr (TargetAddress _) \<Rightarrow> True | _ \<Rightarrow> False)"

fun resolve_listed :: "peer_row list \<Rightarrow> target \<Rightarrow> (address, resolve_error) result" where
  "resolve_listed rows (TargetAddress a) = Inr a"
| "resolve_listed rows (TargetNameRef nr) =
     pick (filter (\<lambda>r. pr_session_ref r = nr_reference nr \<and> pr_name r = nr_name nr) rows)"
| "resolve_listed rows (TargetName name) =
     (let named = filter (\<lambda>r. pr_name r = name) rows;
          family = filter (\<lambda>r. pr_relation r = Family) named
      in if length family = 1 then pick family else pick named)"

definition resolve_to :: "ustring \<Rightarrow> peer_row list \<Rightarrow> (address, resolve_error) result" where
  "resolve_to to0 rows =
     (let to = trim to0;
          target = resolve_target to;
          bracket = Option.bind (strip_prefix (str ''['') to) (strip_suffix (str '']''))
      in if bracket \<noteq> None \<and> \<not> is_address_target target
         then pick (filter (\<lambda>r. pr_session_ref r = the bracket) rows)
         else rbind (map_err (\<lambda>_. Invalid) target) (resolve_listed rows))"


section \<open>Texts\<close>

fun resolve_error_text :: "resolve_error \<Rightarrow> ustring" where
  "resolve_error_text Invalid =
     str ''`to` must be a fuigo-peer: address, `name [ref]`, `[ref]` or a session name.''"
| "resolve_error_text Unknown =
     str ''No session matches `to`. Call list_agents to see the sessions you can message.''"
| "resolve_error_text (AmbiguousRefs refs) =
     (let shown = map (\<lambda>r. str ''['' @ display_escape r DISPLAY_CAP @ str '']'') (take 8 refs)
      in str ''`to` matches '' @ show_nat (length refs) @ str '' sessions ('' @ join (str '', '') shown
         @ str ''). Send again with one of these refs, as `[ref]`.'')"

definition notice_text :: "notice_kind option \<Rightarrow> ustring \<Rightarrow> ustring" where
  "notice_text kind target =
     (let t = display_escape target NOTICE_ADDR_CAP;
          what = (case kind of
              Some NReleased \<Rightarrow> str ''your message to '' @ t @ str '' was held and its user released it''
            | Some NExpired \<Rightarrow> str ''your message to '' @ t
                @ str '' was held and expired before its user released it; it was not delivered''
            | Some NRefused \<Rightarrow> str ''your message to '' @ t
                @ str '' was held and then refused; it was not delivered''
            | Some NDenied \<Rightarrow> str ''the model in '' @ t @ str '' refused your message''
            | Some NIdle \<Rightarrow> t @ str '' finished the turn that handled your message and is now idle''
            | Some NExited \<Rightarrow> t @ str '' exited''
            | Some NUnavailable \<Rightarrow> str ''target unavailable (not a confirmed exit): '' @ t
            | None \<Rightarrow> str ''outcome unknown for your message to '' @ t @ str '': no notice arrived within ''
                @ show_nat (WATCH_EXPIRY_SECS div 3600) @ str '' hours'')
      in str ''Fuigo runtime notice (written by Fuigo, not by a peer): '' @ what @ str ''.'')"

fun hold_text :: "hold_reason \<Rightarrow> ustring" where
  "hold_text ModeMismatch = str ''the receiver is in a different permission mode''"
| "hold_text LoopGuard = str ''the conversation reached its loop guard''"
| "hold_text SenderDenied = str ''this session was recently denied an action''"
| "hold_text Integrity = str ''the receiver's integrity check holds new messages''"
| "hold_text PolicyHold = str ''the receiver's policy holds messages for its user''"

fun reject_text :: "reject_reason \<Rightarrow> ustring" where
  "reject_text Unavailable = str ''unavailable''"
| "reject_text NoOperator = str ''no_operator''"
| "reject_text Saturated = str ''saturated''"
| "reject_text RateLimited = str ''rate_limited''"
| "reject_text StaleAddress = str ''stale_address''"
| "reject_text Ambiguous = str ''ambiguous''"
| "reject_text PolicyRefused = str ''policy_refused''"
| "reject_text TooLarge = str ''too_large''"

fun outcome_text :: "delivery_outcome \<Rightarrow> ustring" where
  "outcome_text Delivered = str ''Delivered.''"
| "outcome_text (Held reason _) = str ''Held for the receiver's user: '' @ hold_text reason
     @ str ''. It is not delivered unless they release it.''"
| "outcome_text Watching = str ''Watching: delivered. You will get one notice when the receiver finishes the turn that handles it (or that the target became unavailable, exited, or the outcome is unknown).''"
| "outcome_text (Rejected reason) = str ''Refused by the receiver: '' @ reject_text reason @ str ''.''"
| "outcome_text UnknownOutcome = str ''Unknown: the receiver did not confirm.''"

definition row_line :: "peer_row \<Rightarrow> ustring" where
  "row_line r = str ''- '' @ display_escape (pr_name r) DISPLAY_CAP @ str '' ['' @ display_escape (pr_session_ref r) DISPLAY_CAP
     @ str ''] address='' @ Address_display (pr_address r) @ str '' relation='' @ relation_label (pr_relation r) @ [10]"

definition render_list :: "self_info \<Rightarrow> nat \<Rightarrow> peer_page \<Rightarrow> ustring" where
  "render_list me page p =
     str ''This session is '' @ display_escape (si_name me) DISPLAY_CAP @ str '' [''
     @ display_escape (si_session_ref me) DISPLAY_CAP @ str ''] ('' @ Address_display (si_address me) @ str '')'' @ [10]
     @ (if pp_rows p = [] then str ''No other sessions.'' @ [10] else [])
     @ concat (map row_line (pp_rows p))
     @ (if pp_more p then str ''(more sessions: call list_agents with page='' @ show_nat (page + 1) @ str '')'' @ [10] else [])
     @ str ''Names are the sessions' own claims. Whether another session's transcript is also sent to a backend or relay is not known here: assume that a message you send it may be.''"


section \<open>Properties\<close>

definition hex_char :: "nat \<Rightarrow> bool" where
  "hex_char c \<longleftrightarrow> 48 \<le> c \<and> c \<le> 57 \<or> 65 \<le> c \<and> c \<le> 70"

lemma show_hex_chars: "c \<in> set (show_hex n) \<Longrightarrow> hex_char c"
proof (induction n rule: show_hex.induct)
  case (1 n)
  have up: "hex_char (upper_hex k)" if "k < 16" for k using that by (auto simp: upper_hex_def hex_char_def)
  show ?case
  proof (cases "n < 16")
    case True
    then show ?thesis using 1(2) up[of n] by (subst (asm) show_hex.simps) auto
  next
    case False
    then show ?thesis using 1 up[of "n mod 16"] by (subst (asm) (2) show_hex.simps) auto
  qed
qed

lemma show_hex_length: "n < 16 ^ k \<Longrightarrow> 0 < k \<Longrightarrow> length (show_hex n) \<le> k"
proof (induction n arbitrary: k rule: show_hex.induct)
  case (1 n)
  show ?case
  proof (cases "n < 16")
    case True
    then show ?thesis using 1(3) by (subst show_hex.simps) simp
  next
    case False
    then obtain j where k: "k = Suc j" "0 < j" using 1(2,3) by (cases k; cases "k - 1") auto
    have "length (show_hex (n div 16)) \<le> j" using 1(1)[OF False, of j] 1(2) k by simp
    then show ?thesis using False k by (subst show_hex.simps) simp
  qed
qed

text \<open>Characters that neither mark up, hide, reorder nor break a line.\<close>

definition safe_char :: "nat \<Rightarrow> bool" where
  "safe_char c \<longleftrightarrow> \<not> hidden_char c \<and> c \<notin> {ch CHR ''<'', ch CHR ''>'', ch CHR 0x22, ch CHR 0x27}"

lemma safe_ascii: "32 \<le> c \<Longrightarrow> c \<le> 126 \<Longrightarrow> c \<notin> {34, 39, 60, 62} \<Longrightarrow> safe_char c"
  by (auto simp: safe_char_def hidden_char_def is_control_def BIDI_CONTROLS_def)

lemma hidden_bound: "hidden_char c \<Longrightarrow> c < 16 ^ 4"
  by (auto simp: hidden_char_def is_control_def BIDI_CONTROLS_def)

lemma escape_char_safe: "x \<in> set (escape_char c) \<Longrightarrow> safe_char x"
proof -
  assume x: "x \<in> set (escape_char c)"
  consider "32 \<le> x \<and> x \<le> 126 \<and> x \<notin> {34, 39, 60, 62}" | "x = c" "\<not> hidden_char c" "c \<notin> {34, 39, 60, 62}"
    using x show_hex_chars[of x c] by (auto simp: escape_char_def str_def hex_char_def split: if_splits)
  then show ?thesis
  proof cases
    case 1
    then show ?thesis by (intro safe_ascii) auto
  next
    case 2
    then show ?thesis by (auto simp: safe_char_def)
  qed
qed

lemma escape_char_length: "length (escape_char c) \<le> 8"
  using show_hex_length[of c 4] hidden_bound[of c] by (auto simp: escape_char_def str_def)

lemma display_escape_safe: "x \<in> set (display_escape s cap) \<Longrightarrow> safe_char x"
proof (induction s cap rule: display_escape.induct)
  case (2 c s)
  then show ?case by (simp add: safe_char_def hidden_char_def is_control_def BIDI_CONTROLS_def)
qed (auto dest: escape_char_safe)

lemma display_escape_length: "length (display_escape s cap) \<le> 8 * cap + 1"
proof (induction s cap rule: display_escape.induct)
  case (3 c s n)
  then show ?case using escape_char_length[of c] by simp
qed simp_all

text \<open>
  Peer-supplied text is neutral once displayed: whatever the string, no markup character, control,
  line separator, bidirectional or invisible character is left, and the output is at most eight
  characters per shown character and an ellipsis.
\<close>

theorem display_escape_neutral:
  fixes s :: ustring and cap :: nat
  shows "list_all safe_char (display_escape s cap) \<and> length (display_escape s cap) \<le> 8 * cap + 1"
  using display_escape_safe display_escape_length by (auto simp: list_all_iff)

lemma count_if_append [simp]: "count_if p (a @ b) = count_if p a + count_if p b"
  by (simp add: count_if_def)

lemma no_newline_escape [simp]: "count_if (\<lambda>c. c = 10) (display_escape s cap) = 0"
proof (rule count_if_zero, rule ballI)
  fix x assume "x \<in> set (display_escape s cap)"
  then have "safe_char x" by (rule display_escape_safe)
  then show "x \<noteq> 10" by (auto simp: safe_char_def hidden_char_def is_control_def)
qed

lemma no_newline_number [simp]: "count_if (\<lambda>c. c = 10) (show_nat n) = 0"
  using show_nat_char[of 10 n] by (intro count_if_zero) (auto simp: is_ascii_digit_def)

lemma no_newline_address: "address_ok a \<Longrightarrow> count_if (\<lambda>c. c = 10) (Address_display a) = 0"
proof -
  assume "address_ok a"
  then have "list_all is_lower_hex (addr_host_id a)" "valid_session_id (addr_session_id a)"
    by (auto simp: address_ok_def Address_new_def split: if_splits)
  then have "count_if (\<lambda>c. c = 10) (addr_host_id a) = 0" "count_if (\<lambda>c. c = 10) (addr_session_id a) = 0"
    by (intro count_if_zero; force simp: list_all_iff is_lower_hex_def valid_session_id_def str_simps)+
  then show ?thesis by (simp add: Address_display_def ADDRESS_PREFIX_def str_def)
qed

lemma row_line_newlines: "address_ok (pr_address r) \<Longrightarrow> count_if (\<lambda>c. c = 10) (row_line r) = 1"
  by (cases "pr_relation r") (simp_all add: row_line_def no_newline_address str_def)

text \<open>
  A peer cannot forge a line of the listing: whatever names and references the other sessions claim,
  \<open>list_agents\<close> shows one line for the asking session, one per listed session (or the line saying that
  there is none), one for a further page, and the closing sentence.
\<close>

theorem listing_lines:
  fixes me :: self_info and p :: peer_page and page :: nat
  assumes "address_ok (si_address me)" "\<forall>r \<in> set (pp_rows p). address_ok (pr_address r)"
  shows "count_if (\<lambda>c. c = 10) (render_list me page p)
    = 1 + max 1 (length (pp_rows p)) + of_bool (pp_more p)"
proof -
  have "count_if (\<lambda>c. c = 10) (concat (map row_line rows)) = length rows"
    if "\<forall>r \<in> set rows. address_ok (pr_address r)" for rows
    using that by (induction rows) (simp_all add: row_line_newlines)
  with assms(2) have rows: "count_if (\<lambda>c. c = 10) (concat (map row_line (pp_rows p))) = length (pp_rows p)"
    by blast
  show ?thesis
    using rows no_newline_address[OF assms(1)]
    by (cases "pp_rows p") (simp_all add: render_list_def str_def)
qed

definition sample_peer :: "ustring \<Rightarrow> ustring \<Rightarrow> relation \<Rightarrow> peer_row" where
  "sample_peer name ref rel =
     \<lparr>pr_address = \<lparr>addr_host_id = replicate 32 (ch CHR ''a''), addr_session_id = str ''s-1'', addr_incarnation = 7\<rparr>,
      pr_name = name, pr_session_ref = ref, pr_relation = rel\<rparr>"

lemma sample_peer_ok: "address_ok (pr_address (sample_peer n r rel))"
proof -
  have "str_len (replicate 32 (ch CHR ''a'')) = 32"
    by (simp add: str_len_def utf8_width_def sum_list_replicate)
  then show ?thesis
    by (simp add: address_ok_def Address_new_def HOST_ID_LEN_def list_all_iff is_lower_hex_def
        valid_session_id_def MAX_ADDRESS_SESSION_ID_CHARS_def str_simps sample_peer_def)
qed

theorem listing_lines_witness:
  "count_if (\<lambda>c. c = 10) (render_list \<lparr>si_address = pr_address (sample_peer [] [] Peer), si_name = [],
       si_session_ref = [], si_is_subagent = False\<rparr> 0
     \<lparr>pp_rows = [sample_peer (str ''evil'' @ [10] @ str ''- forged'') [] Peer], pp_more = False\<rparr>) = 2"
  using listing_lines[of "\<lparr>si_address = pr_address (sample_peer [] [] Peer), si_name = [],
       si_session_ref = [], si_is_subagent = False\<rparr>"
     "\<lparr>pp_rows = [sample_peer (str ''evil'' @ [10] @ str ''- forged'') [] Peer], pp_more = False\<rparr>" 0]
  by (simp add: sample_peer_ok)

lemma pick_Inr_iff: "pick found = Inr a \<longleftrightarrow> (\<exists>r. found = [r] \<and> a = pr_address r)"
  by (auto simp: pick_def split: list.split)

lemma filter_single: "filter P xs = [r] \<Longrightarrow> P r"
  using filter_set[of P xs] by auto

text \<open>
  A message is never sent on a guess. When \<open>resolve_to\<close> yields an address, either the text is that
  address in its canonical form, or exactly one listed session matches: by its reference alone, by
  name and reference, as the only own subagent of that name, or as the only session of that name.
\<close>

theorem resolve_to_unique:
  fixes to :: ustring and rows :: "peer_row list" and a :: address
  assumes "resolve_to to rows = Inr a"
  shows "trim to = Address_display a \<and> address_ok a
    \<or> (\<exists>r. a = pr_address r \<and>
        (trim to = str ''['' @ pr_session_ref r @ str '']''
           \<and> filter (\<lambda>x. pr_session_ref x = pr_session_ref r) rows = [r]
         \<or> trim to = pr_name r @ str '' ['' @ pr_session_ref r @ str '']''
           \<and> filter (\<lambda>x. pr_session_ref x = pr_session_ref r \<and> pr_name x = pr_name r) rows = [r]
         \<or> trim to = pr_name r
           \<and> (filter (\<lambda>x. pr_name x = pr_name r) rows = [r]
              \<or> pr_relation r = Family
                \<and> filter (\<lambda>x. pr_name x = pr_name r \<and> pr_relation x = Family) rows = [r])))"
proof -
  let ?to = "trim to"
  let ?br = "Option.bind (strip_prefix (str ''['') ?to) (strip_suffix (str '']''))"
  show ?thesis
  proof (cases "?br \<noteq> None \<and> \<not> is_address_target (resolve_target ?to)")
    case True
    then obtain inner where br: "?br = Some inner" by auto
    then have to: "?to = str ''['' @ inner @ str '']''" by (auto simp: Option.bind_eq_Some_conv)
    have "pick (filter (\<lambda>r. pr_session_ref r = inner) rows) = Inr a"
      using assms True br by (simp add: resolve_to_def Let_def)
    then obtain r where r: "filter (\<lambda>r. pr_session_ref r = inner) rows = [r]" "a = pr_address r"
      by (auto simp: pick_Inr_iff)
    from filter_single[OF r(1)] have "pr_session_ref r = inner" .
    with r to show ?thesis by auto
  next
    case False
    obtain t where t: "resolve_target ?to = Inr t" and res: "resolve_listed rows t = Inr a"
      using assms False by (auto simp: resolve_to_def Let_def rbind_Inr_iff map_err_Inr_iff)
    note sound = resolve_target_facts[of ?to, unfolded t, simplified]
    show ?thesis
    proof (cases t)
      case (TargetAddress b)
      then show ?thesis using res sound by simp
    next
      case (TargetNameRef nr)
      then obtain r where r: "filter (\<lambda>r. pr_session_ref r = nr_reference nr \<and> pr_name r = nr_name nr) rows = [r]"
        "a = pr_address r"
        using res by (auto simp: pick_Inr_iff)
      from filter_single[OF r(1)] have "pr_session_ref r = nr_reference nr" "pr_name r = nr_name nr" by auto
      with r sound TargetNameRef show ?thesis by auto
    next
      case (TargetName name)
      then obtain r where r: "a = pr_address r" "filter (\<lambda>r. pr_name r = name) rows = [r]
          \<or> filter (\<lambda>r. pr_relation r = Family) (filter (\<lambda>r. pr_name r = name) rows) = [r]"
        using res by (auto simp: pick_Inr_iff Let_def split: if_splits)
      then have "pr_name r = name" using filter_single by fastforce
      then show ?thesis using r sound TargetName
        by (auto simp: conj_commute dest: filter_single)
    qed
  qed
qed

lemmas resolve_eval = resolve_to_def resolve_target_def parse_name_ref_def has_address_prefix_any_case_def
  ADDRESS_PREFIX_def REF_LEN_RANGE_def is_valid_display_name_def Address_from_str_def MAX_NAME_CHARS_def
  BIDI_CONTROLS_def is_address_target_def pick_def sample_peer_def utf8_width_def str_simps Let_def

theorem resolve_to_unique_witness:
  "\<exists>a. resolve_to (str '' alpha '') [sample_peer (str ''alpha'') (str ''abcd1234'') Family,
      sample_peer (str ''alpha'') (str ''abcd5678'') Peer] = Inr a
     \<and> (trim (str '' alpha '') = Address_display a \<or> str ''alpha'' = trim (str '' alpha ''))"
proof -
  let ?rows = "[sample_peer (str ''alpha'') (str ''abcd1234'') Family, sample_peer (str ''alpha'') (str ''abcd5678'') Peer]"
  have r: "resolve_to (str '' alpha '') ?rows = Inr (pr_address (sample_peer (str ''alpha'') (str ''abcd1234'') Family))"
    by (simp add: resolve_eval)
  from resolve_to_unique[OF r] show ?thesis using r by (auto simp: str_simps)
qed

text \<open>
  A session whose name begins with a bracket cannot be addressed by the \<open>name [ref]\<close> text the listing
  shows for it. The text reads as a name with a reference and the name is valid, but \<open>resolve_to\<close>
  takes the outer brackets for the \<open>[ref]\<close> form and finds no session, although the documentation says
  that only a trailing \<open>[ref]\<close> counts and other brackets belong to the name.
\<close>

theorem bracketed_name_unresolved:
  "let r = sample_peer (str ''[ci] build'') (str ''abcd1234'') Peer;
       to = str ''[ci] build [abcd1234]''
   in parse_name_ref to = Some \<lparr>nr_name = pr_name r, nr_reference = pr_session_ref r\<rparr>
    \<and> resolve_target to = Inr (TargetNameRef \<lparr>nr_name = pr_name r, nr_reference = pr_session_ref r\<rparr>)
    \<and> resolve_to to [r] = Inl Unknown"
proof -
  have p: "parse_name_ref (str ''[ci] build [abcd1234]'')
      = Some \<lparr>nr_name = str ''[ci] build'', nr_reference = str ''abcd1234''\<rparr>"
    by (simp add: resolve_eval)
  have t: "resolve_target (str ''[ci] build [abcd1234]'')
      = Inr (TargetNameRef \<lparr>nr_name = str ''[ci] build'', nr_reference = str ''abcd1234''\<rparr>)"
    by (simp add: resolve_eval)
  have "trim (str ''[ci] build [abcd1234]'') = str ''[ci] build [abcd1234]''"
    by (simp add: str_simps)
  then have "resolve_to (str ''[ci] build [abcd1234]'') [sample_peer (str ''[ci] build'') (str ''abcd1234'') Peer]
      = Inl Unknown"
    by (simp add: resolve_to_def t is_address_target_def Let_def pick_def sample_peer_def) (simp add: str_simps)
  with p t show ?thesis by (simp add: sample_peer_def Let_def)
qed

end
