(* ===== verification/Perm_Paths.thy ===== *)
theory Perm_Paths
  imports Prelude
begin

text \<open>
  Paths as the permission policy and the file tools match them: \<open>normalize_lexically\<close> of
  \<^verbatim>\<open>fuigo-paths/src/lib.rs\<close>, \<^verbatim>\<open>fuigo-tools/src/util/path_match.rs\<close> and the symlink functions of
  \<^verbatim>\<open>fuigo-workspace/src/permission/policy.rs\<close>, on Unix. The file system is the record \<open>fs\<close> of three
  queries (\<open>canonicalize\<close>, \<open>symlink_metadata\<close>, \<open>read_link\<close>), which the definitions take as an argument;
  the time-bounded variants of the alias resolution are left out.
\<close>

section \<open>Components\<close>

text \<open>
  \<open>components\<close> is \<open>Path::components\<close> and \<open>of_components\<close> collects components into a \<open>PathBuf\<close>. Paths
  compare, start with and strip prefixes by their components; a stripped remainder is spelled from
  its components.
\<close>

datatype component = RootDir | CurDir | ParentDir | Normal ustring

fun part_component :: "ustring \<Rightarrow> component option" where
  "part_component p =
     (if p = [] \<or> p = str ''.'' then None else if p = str ''..'' then Some ParentDir else Some (Normal p))"

definition components :: "ustring \<Rightarrow> component list" where
  "components p =
     (let parts = split_on (ch CHR ''/'') p in
      (if is_absolute p then [RootDir] else if hd parts = str ''.'' then [CurDir] else [])
      @ List.map_filter part_component parts)"

fun component_str :: "component \<Rightarrow> ustring" where
  "component_str RootDir = str ''/''"
| "component_str CurDir = str ''.''"
| "component_str ParentDir = str ''..''"
| "component_str (Normal n) = n"

definition of_components :: "component list \<Rightarrow> ustring" where
  "of_components cs = foldl path_join [] (map component_str cs)"

fun strip_components :: "component list \<Rightarrow> component list \<Rightarrow> component list option" where
  "strip_components [] cs = Some cs"
| "strip_components (b # bs) [] = None"
| "strip_components (b # bs) (c # cs) = (if b = c then strip_components bs cs else None)"

definition normal_name :: "ustring \<Rightarrow> bool" where
  "normal_name n \<longleftrightarrow> n \<noteq> [] \<and> n \<noteq> str ''.'' \<and> n \<noteq> str ''..'' \<and> ch CHR ''/'' \<notin> set n"

lemma strip_components_Some_iff [simp]: "strip_components bs cs = Some r \<longleftrightarrow> cs = bs @ r"
  by (induction bs cs rule: strip_components.induct) auto

lemma Some_strip_components_iff [simp]: "Some r = strip_components bs cs \<longleftrightarrow> cs = bs @ r"
  using strip_components_Some_iff[of bs cs r] by metis

lemma components_names: "Normal n \<in> set (components p) \<Longrightarrow> normal_name n"
proof -
  assume "Normal n \<in> set (components p)"
  then have "n \<in> set (split_on (ch CHR ''/'') p)" "part_component n = Some (Normal n)"
    by (auto simp: components_def Let_def List.map_filter_def split: if_splits)
  then show ?thesis
    using split_on_pieces[of n 47 p] by (auto simp: normal_name_def split: if_splits)
qed


definition normalize_step :: "component list \<Rightarrow> component \<Rightarrow> component list" where
  "normalize_step cs c = (case c of
       CurDir \<Rightarrow> cs
     | ParentDir \<Rightarrow>
         (if cs = [] then cs @ [c]
          else case last cs of Normal _ \<Rightarrow> butlast cs | RootDir \<Rightarrow> cs | _ \<Rightarrow> cs @ [c])
     | _ \<Rightarrow> cs @ [c])"

definition normalize_components :: "component list \<Rightarrow> component list" where
  "normalize_components cs = foldl normalize_step [] cs"

definition normalize_lexically :: "ustring \<Rightarrow> ustring" where
  "normalize_lexically p =
     (let cs = normalize_components (components p) in if cs = [] then str ''.'' else of_components cs)"


section \<open>Following symlinks\<close>

datatype lstat = Link | NoLink | NotFound | NotADirectory | OtherError

record fs =
  fs_canonicalize :: "ustring \<Rightarrow> ustring option"
  fs_lstat :: "ustring \<Rightarrow> lstat"
  fs_read_link :: "ustring \<Rightarrow> ustring option"

text \<open>\<open>Path::parent\<close> and \<open>Path::file_name\<close>.\<close>

definition path_parent :: "ustring \<Rightarrow> ustring option" where
  "path_parent p = (case rev (components p) of
       [] \<Rightarrow> None | RootDir # _ \<Rightarrow> None | _ # r \<Rightarrow> Some (of_components (rev r)))"

definition path_file_name :: "ustring \<Rightarrow> ustring option" where
  "path_file_name p = (case rev (components p) of Normal n # _ \<Rightarrow> Some n | _ \<Rightarrow> None)"

text \<open>
  \<open>walk\<close> with \<open>left\<close> calls left: the code counts the depth up to 40. With \<open>enotdir\<close> a path below a
  regular file is returned as spelled.
\<close>

fun symlink_walk :: "fs \<Rightarrow> bool \<Rightarrow> nat \<Rightarrow> ustring \<Rightarrow> ustring option" where
  "symlink_walk w enotdir 0 p = None"
| "symlink_walk w enotdir (Suc left) p =
     (case fs_canonicalize w p of
        Some c \<Rightarrow> Some c
      | None \<Rightarrow>
          (case (path_parent p, path_file_name p) of
             (Some parent, Some file_name) \<Rightarrow>
               (case symlink_walk w enotdir left parent of
                  None \<Rightarrow> None
                | Some resolved_parent \<Rightarrow>
                    (let candidate = path_join resolved_parent file_name in
                     case fs_lstat w candidate of
                       NotADirectory \<Rightarrow> if enotdir then Some candidate else None
                     | OtherError \<Rightarrow> None
                     | Link \<Rightarrow>
                         (case fs_read_link w candidate of
                            None \<Rightarrow> None
                          | Some target \<Rightarrow>
                              symlink_walk w enotdir left
                                (if is_absolute target then target else path_join resolved_parent target))
                     | _ \<Rightarrow> Some candidate))
           | _ \<Rightarrow> None))"

definition MAX_SYMLINK_DEPTH :: nat where "MAX_SYMLINK_DEPTH = 40"

definition resolve_following_symlinks :: "fs \<Rightarrow> ustring \<Rightarrow> ustring option" where
  "resolve_following_symlinks w p = symlink_walk w False (MAX_SYMLINK_DEPTH + 1) p"

definition resolve_following_symlinks_for_comparison :: "fs \<Rightarrow> ustring \<Rightarrow> ustring option" where
  "resolve_following_symlinks_for_comparison w p = symlink_walk w True (MAX_SYMLINK_DEPTH + 1) p"


section \<open>Rule bases and match forms\<close>

record rule_base =
  rb_lexical :: ustring
  rb_lexical_normalized :: ustring
  rb_withheld :: bool

text \<open>\<open>rb_withheld\<close>: the physical form is fixed to \<open>None\<close> instead of resolved on first use.\<close>

definition RuleBase_new :: "ustring \<Rightarrow> rule_base" where
  "RuleBase_new cwd =
     \<lparr>rb_lexical = cwd, rb_lexical_normalized = normalize_lexically cwd, rb_withheld = False\<rparr>"

definition without_physical :: "rule_base \<Rightarrow> rule_base" where
  "without_physical b = b\<lparr>rb_withheld := True\<rparr>"

definition physical :: "fs \<Rightarrow> rule_base \<Rightarrow> ustring option" where
  "physical w b =
     (if rb_withheld b \<or> \<not> is_absolute (rb_lexical b) then None
      else case resolve_following_symlinks w (rb_lexical b) of
          None \<Rightarrow> None
        | Some p \<Rightarrow>
            (let n = normalize_lexically p in
             if components n \<noteq> components (rb_lexical_normalized b) then Some n else None))"

definition is_tilde_path :: "ustring \<Rightarrow> bool" where
  "is_tilde_path p = (case components p of Normal n # _ \<Rightarrow> starts_with (str ''~'') n | _ \<Rightarrow> False)"

definition path_has_parent_dir :: "ustring \<Rightarrow> bool" where
  "path_has_parent_dir p \<longleftrightarrow> ParentDir \<in> set (components p)"

definition path_match_string :: "ustring \<Rightarrow> ustring" where
  "path_match_string p = map (\<lambda>c. if c = ch CHR 0x5C then ch CHR ''/'' else c) p"

definition cwd_joined :: "ustring \<Rightarrow> ustring option \<Rightarrow> ustring" where
  "cwd_joined p cwd = (case cwd of Some c \<Rightarrow> if is_absolute p then p else path_join c p | None \<Rightarrow> p)"

definition absolute_normalized_path :: "ustring \<Rightarrow> ustring option \<Rightarrow> ustring" where
  "absolute_normalized_path p cwd =
     (if is_tilde_path p then p else normalize_lexically (cwd_joined p cwd))"

definition rel_forms :: "component list \<Rightarrow> ustring list" where
  "rel_forms rel =
     (let s = path_match_string (of_components rel) in
      if s = [] \<or> s = str ''.'' then [str ''.'', str ''./''] else [str ''./'' @ s, s])"

definition path_match_forms :: "fs \<Rightarrow> ustring \<Rightarrow> rule_base option \<Rightarrow> ustring list" where
  "path_match_forms w p base =
     (let abs = absolute_normalized_path p (map_option rb_lexical base) in
      path_match_string abs #
      (case base of
         Some b \<Rightarrow>
           (let rels = (case strip_components (components (rb_lexical_normalized b)) (components abs) of
                          Some rel \<Rightarrow> [rel] | None \<Rightarrow> []);
                physical_rel =
                  (if path_has_parent_dir p then None
                   else case physical w b of
                       None \<Rightarrow> None
                     | Some ph \<Rightarrow>
                         (case strip_components (components ph) (components abs) of
                            Some rel \<Rightarrow> if rel \<in> set rels then None else Some rel
                          | None \<Rightarrow> None))
            in (case physical_rel of
                  Some rel \<Rightarrow> [path_match_string (of_components (components (rb_lexical_normalized b) @ rel))]
                | None \<Rightarrow> [])
               @ concat (map rel_forms (rels @ (case physical_rel of Some rel \<Rightarrow> [rel] | None \<Rightarrow> []))))
       | None \<Rightarrow>
           (if \<not> is_absolute abs \<and> \<not> path_has_parent_dir abs \<and> \<not> is_tilde_path abs
            then (let s = path_match_string abs in if s \<noteq> str ''.'' \<and> s \<noteq> [] then [str ''./'' @ s] else [])
            else [])))"


section \<open>Literal prefixes and physical aliases\<close>

text \<open>
  \<open>literal_prefix_end i end rest\<close>: the scan of \<open>literal_dir_prefix\<close> at position \<open>i\<close>, positions counted in
  characters.
\<close>

fun literal_prefix_end :: "nat \<Rightarrow> nat \<Rightarrow> ustring \<Rightarrow> nat" where
  "literal_prefix_end i e [] = e"
| "literal_prefix_end i e (c # cs) =
     (if c \<in> {ch CHR ''*'', ch CHR ''?'', ch CHR ''['', ch CHR ''{''} then e
      else
        let e1 = (if c = ch CHR ''/'' \<and> 0 < i then i else e);
            e2 = (if cs = [] then i + 1 else e1)
        in literal_prefix_end (i + 1) e2 cs)"

definition literal_dir_prefix :: "ustring \<Rightarrow> (ustring \<times> ustring) option" where
  "literal_dir_prefix pat =
     (if \<not> starts_with (str ''/'') pat then None
      else let e = literal_prefix_end 0 0 pat in if 1 < e then Some (take e pat, drop e pat) else None)"

text \<open>\<open>escape\<close> is \<open>glob::Pattern::escape\<close>.\<close>

definition physical_alias_pattern_string :: "(ustring \<Rightarrow> ustring) \<Rightarrow> fs \<Rightarrow> ustring \<Rightarrow> ustring \<Rightarrow> ustring option" where
  "physical_alias_pattern_string escape w prefix rest =
     (case resolve_following_symlinks w prefix of
        None \<Rightarrow> None
      | Some p \<Rightarrow>
          (let ph = path_match_string p in if ph \<noteq> prefix then Some (escape ph @ rest) else None))"


section \<open>Symlinks of a native tool path\<close>

definition raw_absolute_tool_path :: "ustring \<Rightarrow> ustring option \<Rightarrow> ustring option" where
  "raw_absolute_tool_path p cwd =
     (if is_tilde_path p then None
      else let joined = cwd_joined p cwd in if is_absolute joined then Some (path_match_string joined) else None)"

definition path_has_symlink :: "fs \<Rightarrow> ustring \<Rightarrow> bool" where
  "path_has_symlink w p \<longleftrightarrow>
     is_absolute p \<and>
     list_ex (\<lambda>n. fs_lstat w (of_components (take n (components p))) = Link) [1..<Suc (length (components p))]"

definition resolve_symlink_target :: "fs \<Rightarrow> ustring \<Rightarrow> ustring option" where
  "resolve_symlink_target w p =
     (if \<not> is_absolute p then None
      else map_option (\<lambda>r. path_match_string (normalize_lexically r)) (resolve_following_symlinks w p))"

datatype symlink_follow = FollowNone | FollowTarget ustring | Unresolvable

definition follow_absolute_symlink :: "fs \<Rightarrow> ustring \<Rightarrow> ustring \<Rightarrow> symlink_follow" where
  "follow_absolute_symlink w raw_absolute lexical_absolute =
     (case resolve_symlink_target w raw_absolute of
        Some resolved \<Rightarrow> if resolved \<noteq> lexical_absolute then FollowTarget resolved else FollowNone
      | None \<Rightarrow> if path_has_symlink w raw_absolute then Unresolvable else FollowNone)"

end
