(* ===== verification/Perm_Paths_Props.thy ===== *)
theory Perm_Paths_Props
  imports Perm_Paths
begin

text \<open>
  Normalization leaves no \<open>..\<close> in an absolute path and is idempotent, and the relative spellings a rule
  is matched against exist only for paths inside the workspace.
\<close>

section \<open>Normal forms\<close>

definition nf :: "component list \<Rightarrow> bool" where
  "nf cs \<longleftrightarrow> (\<exists>ns. cs = RootDir # map Normal ns) \<or> (\<exists>k ns. cs = replicate k ParentDir @ map Normal ns)"

lemma nfI: "nf (RootDir # map Normal ns)" "nf (replicate k ParentDir @ map Normal ns)"
  by (auto simp: nf_def)

lemma nf_step:
  assumes "nf cs" "c \<noteq> RootDir"
  shows "nf (normalize_step cs c)"
proof -
  consider (abs) ns where "cs = RootDir # map Normal ns" | (rel) k ns where "cs = replicate k ParentDir @ map Normal ns"
    using assms(1) by (auto simp: nf_def)
  then show ?thesis
  proof cases
    case abs
    show ?thesis
    proof (cases c)
      case (Normal n)
      then show ?thesis using abs nfI(1)[of "ns @ [n]"] by (simp add: normalize_step_def)
    next
      case ParentDir
      show ?thesis
      proof (cases ns rule: rev_cases)
        case Nil
        then show ?thesis using abs ParentDir assms(1) by (simp add: normalize_step_def)
      next
        case (snoc ms m)
        then show ?thesis using abs ParentDir nfI(1)[of ms] by (simp add: normalize_step_def butlast_append)
      qed
    qed (use assms in \<open>simp_all add: normalize_step_def\<close>)
  next
    case rel
    show ?thesis
    proof (cases c)
      case (Normal n)
      then show ?thesis using rel nfI(2)[of k "ns @ [n]"] by (simp add: normalize_step_def)
    next
      case ParentDir
      show ?thesis
      proof (cases ns rule: rev_cases)
        case Nil
        then show ?thesis using rel ParentDir nfI(2)[of "Suc k" "[]"]
          by (cases k) (auto simp: normalize_step_def replicate_append_same last_replicate)
      next
        case (snoc ms m)
        then show ?thesis using rel ParentDir nfI(2)[of k ms]
          by (simp add: normalize_step_def butlast_append)
      qed
    qed (use assms in \<open>simp_all add: normalize_step_def\<close>)
  qed
qed

lemma nf_foldl: "nf cs \<Longrightarrow> RootDir \<notin> set ds \<Longrightarrow> nf (foldl normalize_step cs ds)"
proof (induction ds arbitrary: cs)
  case (Cons d ds)
  then show ?case using Cons.IH[OF nf_step[of cs d]] by auto
qed simp

lemma components_shape: "\<exists>cs. RootDir \<notin> set cs \<and> components p = (if is_absolute p then RootDir # cs else cs)"
  by (auto simp: components_def Let_def List.map_filter_def split: if_splits)

lemma nf_normalize: "nf (normalize_components (components p))"
proof -
  obtain cs where cs: "RootDir \<notin> set cs" "components p = (if is_absolute p then RootDir # cs else cs)"
    using components_shape by blast
  show ?thesis
  proof (cases "is_absolute p")
    case True
    have "nf [RootDir]" using nfI(1)[of "[]"] by simp
    then show ?thesis using True cs nf_foldl[of "[RootDir]" cs]
      by (simp add: normalize_components_def normalize_step_def)
  next
    case False
    have "nf []" using nfI(2)[of 0 "[]"] by simp
    then show ?thesis using False cs nf_foldl[of "[]" cs] by (simp add: normalize_components_def)
  qed
qed

lemma normalize_names:
  "Normal n \<in> set (foldl normalize_step cs ds) \<Longrightarrow> Normal n \<in> set cs \<union> set ds"
proof (induction ds arbitrary: cs)
  case (Cons d ds)
  have "set (normalize_step cs d) \<subseteq> set cs \<union> {d}"
    by (auto simp: normalize_step_def split: component.splits if_splits dest: in_set_butlastD)
  then show ?case using Cons by auto
qed simp

lemma normalize_abs:
  assumes "is_absolute p"
  shows "\<exists>ns. normalize_components (components p) = RootDir # map Normal ns"
proof -
  obtain cs where cs: "RootDir \<notin> set cs" "components p = RootDir # cs"
    using components_shape[of p] assms by auto
  have "hd (foldl normalize_step xs ds) = RootDir \<and> foldl normalize_step xs ds \<noteq> []"
    if "xs \<noteq> []" "hd xs = RootDir" "RootDir \<notin> set ds" for xs ds
    using that
  proof (induction ds arbitrary: xs)
    case (Cons d ds)
    have "normalize_step xs d \<noteq> [] \<and> hd (normalize_step xs d) = RootDir"
      using Cons.prems by (cases xs; cases "tl xs")
        (auto simp: normalize_step_def split: component.splits)
    then show ?case using Cons by simp
  qed simp
  then have h: "hd (normalize_components (components p)) = RootDir" "normalize_components (components p) \<noteq> []"
    using cs by (simp_all add: normalize_components_def normalize_step_def)
  consider ns where "normalize_components (components p) = RootDir # map Normal ns"
    | k ns where "normalize_components (components p) = replicate k ParentDir @ map Normal ns"
    using nf_normalize[of p] by (auto simp: nf_def)
  then show ?thesis
  proof cases
    case 2
    then show ?thesis using h by (cases k; cases ns) auto
  qed blast
qed

lemma nf_fixed: "nf cs \<Longrightarrow> normalize_components cs = cs"
proof -
  assume "nf cs"
  have nr: "foldl normalize_step xs (map Normal ns) = xs @ map Normal ns" for xs ns
    by (induction ns arbitrary: xs) (simp_all add: normalize_step_def)
  have pr: "foldl normalize_step (replicate j ParentDir) (replicate k ParentDir) = replicate (j + k) ParentDir" for j k
  proof (induction k arbitrary: j)
    case (Suc k)
    have "normalize_step (replicate j ParentDir) ParentDir = replicate (Suc j) ParentDir"
      by (cases j) (simp_all add: normalize_step_def replicate_append_same last_replicate)
    then show ?case using Suc[of "Suc j"] by simp
  qed simp
  from \<open>nf cs\<close> show ?thesis unfolding nf_def
  proof (elim disjE exE)
    fix ns assume "cs = RootDir # map Normal ns"
    then show ?thesis using nr[of "[RootDir]" ns] by (simp add: normalize_components_def normalize_step_def)
  next
    fix k ns assume "cs = replicate k ParentDir @ map Normal ns"
    then show ?thesis using nr[of "replicate k ParentDir" ns] pr[of 0 k]
      by (simp add: normalize_components_def)
  qed
qed

section \<open>Spelling a normal form and reading it back\<close>

definition named :: "component list \<Rightarrow> bool" where
  "named cs \<longleftrightarrow> (\<forall>n. Normal n \<in> set cs \<longrightarrow> normal_name n)"

lemma split_on_join:
  "ws \<noteq> [] \<Longrightarrow> \<forall>w \<in> set ws. d \<notin> set w \<Longrightarrow> split_on d (join [d] ws) = ws"
  by (induction ws rule: induct_list012) (auto simp: split_on_append_sep)

lemma join_snoc: "ws \<noteq> [] \<Longrightarrow> join [d] (ws @ [w]) = join [d] ws @ [d] @ w"
  by (induction ws rule: induct_list012) auto

lemma last_join:
  "ws \<noteq> [] \<Longrightarrow> \<forall>w \<in> set ws. w \<noteq> [] \<and> d \<notin> set w \<Longrightarrow> join [d] ws \<noteq> [] \<and> last (join [d] ws) \<noteq> d"
proof (induction ws rule: rev_induct)
  case (snoc w ws)
  have "last w \<noteq> d" using snoc.prems(2) last_in_set[of w] by auto
  then show ?case using snoc by (cases "ws = []") (auto simp: join_snoc)
qed simp

lemma path_join_rel [simp]:
  "\<not> is_absolute rel \<Longrightarrow> base \<noteq> [] \<Longrightarrow> last base \<noteq> 47 \<Longrightarrow> path_join base rel = base @ [47] @ rel"
  "\<not> is_absolute rel \<Longrightarrow> path_join [] rel = rel" "\<not> is_absolute rel \<Longrightarrow> path_join [47] rel = 47 # rel"
  by (simp_all add: path_join_def)

lemma foldl_path_join:
  assumes "\<forall>w \<in> set ws. w \<noteq> [] \<and> 47 \<notin> set w" "ws \<noteq> []"
  shows "foldl path_join [] ws = join [47] ws" and "foldl path_join [47] ws = 47 # join [47] ws"
proof -
  have abs: "\<not> is_absolute w" if "w \<in> set ws" for w
    using assms(1) that by (cases w) (auto simp: is_absolute_def)
  show "foldl path_join [] ws = join [47] ws" using assms abs
  proof (induction ws rule: rev_induct)
    case (snoc w ws)
    show ?case
    proof (cases "ws = []")
      case False
      then have "foldl path_join [] ws = join [47] ws" using snoc by auto
      moreover have "join [47] ws \<noteq> [] \<and> last (join [47] ws) \<noteq> 47"
        using snoc.prems(1) False by (intro last_join) auto
      ultimately show ?thesis using False snoc.prems(3)[of w] by (simp add: join_snoc)
    qed (use snoc.prems(3)[of w] in simp)
  qed simp
  show "foldl path_join [47] ws = 47 # join [47] ws" using assms abs
  proof (induction ws rule: rev_induct)
    case (snoc w ws)
    show ?case
    proof (cases "ws = []")
      case False
      then have "foldl path_join [47] ws = 47 # join [47] ws" using snoc by auto
      moreover have "join [47] ws \<noteq> [] \<and> last (join [47] ws) \<noteq> 47"
        using snoc.prems(1) False by (intro last_join) auto
      ultimately show ?thesis using False snoc.prems(3)[of w] by (simp add: join_snoc)
    qed (use snoc.prems(3)[of w] in simp)
  qed simp
qed

definition plain_component :: "component \<Rightarrow> bool" where
  "plain_component c \<longleftrightarrow> c = ParentDir \<or> (\<exists>n. c = Normal n \<and> normal_name n)"

lemma plain_component_str:
  "plain_component c \<Longrightarrow> component_str c \<noteq> [] \<and> 47 \<notin> set (component_str c)
     \<and> part_component (component_str c) = Some c \<and> component_str c \<noteq> str ''.''"
  by (auto simp: plain_component_def normal_name_def str_def)

lemma map_filter_parts:
  "\<forall>c \<in> set cs. plain_component c \<Longrightarrow> List.map_filter part_component (map component_str cs) = cs"
  by (induction cs) (auto simp: List.map_filter_simps dest: plain_component_str simp del: part_component.simps)

lemma components_of_rel:
  assumes "\<forall>c \<in> set cs. plain_component c" "cs \<noteq> []"
  shows "components (of_components cs) = cs"
proof -
  let ?ws = "map component_str cs"
  have ws: "\<forall>w \<in> set ?ws. w \<noteq> [] \<and> 47 \<notin> set w" "?ws \<noteq> []"
    using assms plain_component_str by auto
  have spelled: "of_components cs = join [47] ?ws"
    unfolding of_components_def by (rule foldl_path_join(1)[OF ws])
  have parts: "split_on 47 (join [47] ?ws) = ?ws" using ws by (intro split_on_join) auto
  have "hd ?ws \<noteq> str ''.''" using assms plain_component_str[of "hd cs"] by (simp add: hd_map)
  moreover have "\<not> is_absolute (join [47] ?ws)"
  proof
    assume "is_absolute (join [47] ?ws)"
    then obtain t where "join [47] ?ws = 47 # t" by (cases "join [47] ?ws") (auto simp: is_absolute_def)
    then have "hd (split_on 47 (join [47] ?ws)) = []" by simp
    then show False using parts ws assms(2) by (auto simp: hd_map)
  qed
  ultimately show ?thesis
    using parts map_filter_parts[OF assms(1)] unfolding spelled components_def by (simp add: Let_def)
qed

lemma components_of_abs:
  assumes "\<forall>c \<in> set cs. plain_component c"
  shows "components (of_components (RootDir # cs)) = RootDir # cs"
proof (cases "cs = []")
  case True
  then show ?thesis
    by (simp add: of_components_def path_join_def is_absolute_def components_def str_def List.map_filter_def)
next
  case False
  let ?ws = "map component_str cs"
  have ws: "\<forall>w \<in> set ?ws. w \<noteq> [] \<and> 47 \<notin> set w" "?ws \<noteq> []"
    using assms False plain_component_str by auto
  have spelled: "of_components (RootDir # cs) = 47 # join [47] ?ws"
    using foldl_path_join(2)[OF ws] by (simp add: of_components_def path_join_def is_absolute_def str_def)
  have parts: "split_on 47 (join [47] ?ws) = ?ws" using ws by (intro split_on_join) auto
  show ?thesis
    using parts map_filter_parts[OF assms] unfolding spelled components_def
    by (simp add: Let_def is_absolute_def List.map_filter_simps)
qed

lemma nf_plain: "nf cs \<Longrightarrow> named cs \<Longrightarrow> (\<exists>ds. cs = RootDir # ds \<and> (\<forall>c \<in> set ds. plain_component c)) \<or> (\<forall>c \<in> set cs. plain_component c)"
  by (auto simp: nf_def named_def plain_component_def)

lemma named_normalize: "named (normalize_components (components p))"
  unfolding named_def normalize_components_def using normalize_names[of _ "[]" "components p"] components_names by auto

lemma components_normalize:
  "components (normalize_lexically p) =
     (let cs = normalize_components (components p) in if cs = [] then [CurDir] else cs)"
proof (cases "normalize_components (components p) = []")
  case True
  then show ?thesis
    by (simp add: normalize_lexically_def components_def str_def is_absolute_def List.map_filter_def)
next
  case False
  from nf_plain[OF nf_normalize named_normalize, of p]
  have "components (of_components (normalize_components (components p))) = normalize_components (components p)"
    using components_of_abs components_of_rel[OF _ False] by metis
  then show ?thesis using False by (simp add: normalize_lexically_def Let_def)
qed

section \<open>Properties\<close>

lemma is_absolute_components: "is_absolute p \<longleftrightarrow> (\<exists>cs. components p = RootDir # cs)"
  using components_shape[of p] by (auto split: if_splits)

lemma normalize_absolute_components:
  "is_absolute p \<Longrightarrow> \<exists>ns. components (normalize_lexically p) = RootDir # map Normal ns"
  using normalize_abs[of p] by (auto simp: components_normalize Let_def)

text \<open>
  Lexical normalization is a normal form: applying it twice changes nothing, and an absolute path
  normalizes to the root followed by plain names, so no \<open>..\<close> or \<open>.\<close> survives that a rule could be
  escaped with.
\<close>

theorem normalize_canonical:
  fixes p :: ustring
  shows "normalize_lexically (normalize_lexically p) = normalize_lexically p
    \<and> (is_absolute p \<longrightarrow> (\<exists>ns. components (normalize_lexically p) = RootDir # map Normal ns))"
proof -
  let ?cs = "normalize_components (components p)"
  have "normalize_components (components (normalize_lexically p)) = ?cs"
    using nf_fixed[OF nf_normalize, of p]
    by (cases "?cs = []") (simp_all add: components_normalize normalize_components_def normalize_step_def)
  then have "normalize_lexically (normalize_lexically p) = normalize_lexically p"
    by (simp add: normalize_lexically_def)
  then show ?thesis using normalize_absolute_components by blast
qed

theorem normalize_canonical_witness:
  "\<exists>ns. components (normalize_lexically (str ''/a/../../b/./c'')) = RootDir # map Normal ns"
  using normalize_canonical[of "str ''/a/../../b/./c''"] by (simp add: is_absolute_def str_def)

lemma absolute_join: "is_absolute base \<Longrightarrow> is_absolute (path_join base rel)"
  by (cases base) (auto simp: path_join_def is_absolute_def)

lemma absolute_normalized_absolute:
  assumes "is_absolute cwd" "\<not> is_tilde_path p"
  shows "is_absolute (absolute_normalized_path p (Some cwd))"
proof -
  have "is_absolute (cwd_joined p (Some cwd))" using assms(1) by (simp add: cwd_joined_def absolute_join)
  then show ?thesis
    using assms(2) normalize_absolute_components
    by (auto simp: absolute_normalized_path_def is_absolute_components)
qed

lemma absolute_match_string: "is_absolute p \<Longrightarrow> starts_with (str ''/'') (path_match_string p)"
  by (cases p) (auto simp: is_absolute_def path_match_string_def starts_with_iff str_def)

lemma absolute_spelling:
  assumes "components q = RootDir # map Normal ns" "components a = components ph @ rel"
    and "components a = RootDir # map Normal ms" "components ph \<noteq> []" "named (components q)" "named (components a)"
  shows "is_absolute (of_components (components q @ rel))"
proof -
  have "set rel \<subseteq> set (map Normal ms)"
    using assms(2,3,4) by (cases "components ph") auto
  then have "\<forall>c \<in> set rel. plain_component c"
    using assms(2,6) by (force simp: plain_component_def named_def)
  moreover have "\<forall>c \<in> set (map Normal ns). plain_component c"
    using assms(1,5) by (auto simp: plain_component_def named_def)
  ultimately have "components (of_components (RootDir # map Normal ns @ rel)) = RootDir # map Normal ns @ rel"
    by (intro components_of_abs) auto
  then show ?thesis using assms(1) by (auto simp: is_absolute_components)
qed

lemma named_components: "named (components p)"
  using components_names by (auto simp: named_def)

text \<open>
  A workspace-relative rule cannot be escaped. Every spelling of a tool path that does not begin with
  a slash (the ones \<open>Read(./**)\<close> or \<open>Read(src/**)\<close> can match) is the part of the normalized absolute
  path below the workspace directory, as written or with its links resolved; the resolved directory
  counts only for a path written without \<open>..\<close>.
\<close>

theorem relative_form_inside:
  fixes w :: fs and p cwd f :: ustring
  assumes "is_absolute cwd" "\<not> is_tilde_path p"
    and "f \<in> set (path_match_forms w p (Some (RuleBase_new cwd)))" "\<not> starts_with (str ''/'') f"
  shows "\<exists>root rel. components (absolute_normalized_path p (Some cwd)) = components root @ rel
      \<and> f \<in> set (rel_forms rel)
      \<and> (root = normalize_lexically cwd
         \<or> physical w (RuleBase_new cwd) = Some root \<and> \<not> path_has_parent_dir p)"
proof -
  let ?b = "RuleBase_new cwd" and ?abs = "absolute_normalized_path p (Some cwd)"
  have abs: "is_absolute ?abs" using assms(1,2) by (rule absolute_normalized_absolute)
  have b: "rb_lexical ?b = cwd" "rb_lexical_normalized ?b = normalize_lexically cwd"
    by (simp_all add: RuleBase_new_def)
  obtain ns where ns: "components (normalize_lexically cwd) = RootDir # map Normal ns"
    using normalize_absolute_components[OF assms(1)] by blast
  have joined: "is_absolute (cwd_joined p (Some cwd))" using assms(1) by (simp add: cwd_joined_def absolute_join)
  obtain ms where ms: "components ?abs = RootDir # map Normal ms"
    using normalize_absolute_components[OF joined] assms(2) by (auto simp: absolute_normalized_path_def)
  have phys_ne: "components ph \<noteq> []" if "physical w ?b = Some ph" for ph
    using that components_normalize by (auto simp: physical_def Let_def split: if_splits option.splits)
  have written: "is_absolute (of_components (components (normalize_lexically cwd) @ rel))"
    if "physical w ?b = Some ph" "components ?abs = components ph @ rel" for ph rel
    using absolute_spelling[OF ns that(2) ms phys_ne[OF that(1)]] named_components by blast
  consider (lex) rel where "components ?abs = components (normalize_lexically cwd) @ rel" "f \<in> set (rel_forms rel)"
    | (phys) ph rel where "physical w ?b = Some ph" "\<not> path_has_parent_dir p"
        "components ?abs = components ph @ rel" "f \<in> set (rel_forms rel)"
    | (abs_form) "f = path_match_string ?abs"
    | (written_form) ph rel where "physical w ?b = Some ph" "components ?abs = components ph @ rel"
        "f = path_match_string (of_components (components (normalize_lexically cwd) @ rel))"
    using assms(3) b unfolding path_match_forms_def Let_def
    by (auto split: option.split_asm if_split_asm)
  then show ?thesis
  proof cases
    case lex
    then show ?thesis by blast
  next
    case phys
    then show ?thesis by blast
  next
    case abs_form
    then show ?thesis using assms(4) absolute_match_string[OF abs] by simp
  next
    case written_form
    then show ?thesis using assms(4) absolute_match_string written by blast
  qed
qed

definition plain_fs :: fs where
  "plain_fs = \<lparr>fs_canonicalize = Some, fs_lstat = (\<lambda>_. NoLink), fs_read_link = (\<lambda>_. None)\<rparr>"

theorem relative_form_inside_witness:
  "\<exists>root rel. components (absolute_normalized_path (str ''x/../a'') (Some (str ''/w''))) = components root @ rel
      \<and> str ''./a'' \<in> set (rel_forms rel)
      \<and> (root = normalize_lexically (str ''/w'')
         \<or> physical plain_fs (RuleBase_new (str ''/w'')) = Some root \<and> \<not> path_has_parent_dir (str ''x/../a''))"
proof (rule relative_form_inside)
  show "is_absolute (str ''/w'')" by (simp add: is_absolute_def str_def)
  show "\<not> is_tilde_path (str ''x/../a'')"
    by (simp add: is_tilde_path_def components_def is_absolute_def str_simps List.map_filter_def)
  show "str ''./a'' \<in> set (path_match_forms plain_fs (str ''x/../a'') (Some (RuleBase_new (str ''/w''))))"
    by (simp add: path_match_forms_def RuleBase_new_def absolute_normalized_path_def is_tilde_path_def
        components_def is_absolute_def List.map_filter_def cwd_joined_def path_join_def normalize_lexically_def
        normalize_components_def normalize_step_def of_components_def rel_forms_def path_match_string_def
        path_has_parent_dir_def Let_def str_simps)
  show "\<not> starts_with (str ''/'') (str ''./a'')" by (simp add: str_simps)
qed

end
