(* ===== verification/Perm_Rules.thy ===== *)
theory Perm_Rules
  imports Prelude
begin

text \<open>
  The permission data of \<^verbatim>\<open>fuigo-workspace/src/permission/types.rs\<close> (access kinds, decisions, rules,
  configuration) and the rule parser of \<^verbatim>\<open>rules.rs\<close>. Positions in a rule text are counted in characters;
  the parser only looks for the ASCII characters parenthesis and backslash.
\<close>

section \<open>Accesses, decisions and rules\<close>

datatype json = JNull | JBool bool | JNumber ustring | JString ustring | JArray "json list" | JObject "(ustring \<times> json) list"

datatype access_kind =
    Read "ustring option"
  | Session
  | Grep "ustring option" "ustring option"
  | Edit ustring
  | Bash ustring
  | MCPTool ustring json
  | WebFetch ustring
  | WebSearch ustring
  | AgentMessage ustring
  | Tool ustring

datatype decision = Allow | Ask | FollowupMessage ustring | Reject ustring | PolicyDeny ustring | Cancelled

datatype prompt_policy = PromptAsk | PromptDeny | PromptAuto | PromptAllow

datatype resolved_base_mode = BaseDefault | BaseAcceptEdits | BaseBypassPermissions

datatype rule_action = AllowRule | DenyRule | AskRule

datatype pattern_mode = Glob | Domain

datatype tool_filter =
    FilterAny | FilterBash | FilterEdit | FilterRead | FilterGrep | FilterMcp | FilterWebFetch | FilterWebSearch
  | FilterAgentMessage

record permission_rule =
  pr_action :: rule_action
  pr_tool :: tool_filter
  pr_pattern :: "ustring option"
  pr_pattern_mode :: pattern_mode

record permission_config =
  pc_rules :: "permission_rule list"
  pc_prompt_policy :: prompt_policy
  pc_default_mode_configured :: bool
  pc_resolved_base :: resolved_base_mode
  pc_launch_rules :: "permission_rule list"

definition PermissionConfig_new :: "permission_rule list \<Rightarrow> permission_config" where
  "PermissionConfig_new rules =
     \<lparr>pc_rules = rules, pc_prompt_policy = PromptAsk, pc_default_mode_configured = False,
      pc_resolved_base = BaseDefault, pc_launch_rules = []\<rparr>"


section \<open>Escapes\<close>

definition is_unescaped :: "ustring \<Rightarrow> nat \<Rightarrow> bool" where
  "is_unescaped s pos \<longleftrightarrow> even (length (takeWhile (\<lambda>c. c = ch CHR 0x5C) (rev (take pos s))))"

definition find_first_unescaped :: "ustring \<Rightarrow> nat \<Rightarrow> nat option" where
  "find_first_unescaped s target = find (\<lambda>i. s ! i = target \<and> is_unescaped s i) [0..<length s]"

definition find_last_unescaped :: "ustring \<Rightarrow> nat \<Rightarrow> nat option" where
  "find_last_unescaped s target = find (\<lambda>i. s ! i = target \<and> is_unescaped s i) (rev [0..<length s])"

text \<open>\<open>str::replace\<close> for a pattern that is not empty.\<close>

lemma strip_prefix_shorter: "strip_prefix pat (c # cs) = Some r \<Longrightarrow> pat \<noteq> [] \<Longrightarrow> length r < Suc (length cs)"
proof -
  assume s: "strip_prefix pat (c # cs) = Some r" and p: "pat \<noteq> []"
  have "length (c # cs) = length pat + length r" using s by simp
  then show ?thesis using p by simp
qed

function str_replace :: "ustring \<Rightarrow> ustring \<Rightarrow> ustring \<Rightarrow> ustring" where
  "str_replace pat rep [] = []"
| "str_replace pat rep (c # cs) =
     (case strip_prefix pat (c # cs) of
        Some r \<Rightarrow> if pat = [] then c # cs else rep @ str_replace pat rep r
      | None \<Rightarrow> c # str_replace pat rep cs)"
  by pat_completeness auto
termination
  by (relation "measure (\<lambda>(_, _, s). length s)") (auto dest!: strip_prefix_shorter)

definition unescape_rule_content :: "ustring \<Rightarrow> ustring" where
  "unescape_rule_content s =
     (if ch CHR 0x5C \<notin> set s then s
      else str_replace [ch CHR 0x5C, ch CHR 0x5C] [ch CHR 0x5C]
             (str_replace [ch CHR 0x5C, ch CHR '')''] [ch CHR '')'']
                (str_replace [ch CHR 0x5C, ch CHR ''(''] [ch CHR ''(''] s)))"

definition strip_domain_prefix :: "ustring \<Rightarrow> ustring \<times> pattern_mode" where
  "strip_domain_prefix pat = (case strip_prefix (str ''domain:'') pat of
       Some domain \<Rightarrow> (domain, Domain) | None \<Rightarrow> (pat, Glob))"

definition strip_bash_colon_wildcard :: "ustring \<Rightarrow> ustring" where
  "strip_bash_colon_wildcard pat = (case strip_suffix (str '':*'') pat of Some p \<Rightarrow> p | None \<Rightarrow> pat)"


section \<open>Parsing a rule\<close>

datatype rule_parse_error =
    UnsupportedToolPrefix ustring
  | UnknownToolPrefix ustring
  | MalformedRule ustring

definition tool_names :: "(string \<times> tool_filter) list" where
  "tool_names =
     [(''Bash'', FilterBash), (''Shell'', FilterBash), (''run_terminal_command'', FilterBash),
      (''Read'', FilterRead), (''read_file'', FilterRead), (''list_dir'', FilterRead),
      (''Edit'', FilterEdit), (''Write'', FilterEdit), (''search_replace'', FilterEdit),
      (''MCPTool'', FilterMcp),
      (''Grep'', FilterGrep), (''Glob'', FilterGrep), (''grep'', FilterGrep),
      (''WebFetch'', FilterWebFetch), (''web_fetch'', FilterWebFetch),
      (''WebSearch'', FilterWebSearch), (''web_search'', FilterWebSearch),
      (''AgentMessage'', FilterAgentMessage), (''SendSubagentMessage'', FilterAgentMessage),
      (''SendAgentMessage'', FilterAgentMessage)]"

definition tool_name_to_filter :: "ustring \<Rightarrow> tool_filter option" where
  "tool_name_to_filter name = map_of (map (\<lambda>(n, f). (str n, f)) tool_names) name"

definition unsupported_tool :: "ustring \<Rightarrow> bool" where
  "unsupported_tool name \<longleftrightarrow> name \<in> set (map str [''EnterWorktree'', ''NotebookEdit'', ''NotebookRead''])"

definition parse_tool_rule :: "ustring \<Rightarrow> nat \<Rightarrow> rule_action \<Rightarrow> (permission_rule, rule_parse_error) result" where
  "parse_tool_rule rule open_paren action =
     (let pre = trim (take open_paren rule);
          content_and_close = drop (open_paren + 1) rule
      in rbind (ok_or (find_last_unescaped content_and_close (ch CHR '')''))
                  (MalformedRule (str ''missing closing parenthesis''))) (\<lambda>close_paren.
         let raw_content = trim (take close_paren content_and_close);
             pat = (if raw_content = [] \<or> raw_content = str ''*'' then [] else unescape_rule_content raw_content)
         in rbind (ok_or (tool_name_to_filter pre)
                     (if unsupported_tool pre then UnsupportedToolPrefix pre else UnknownToolPrefix pre)) (\<lambda>tool.
            let pat' = (if tool = FilterBash then strip_bash_colon_wildcard pat else pat);
                dm = strip_domain_prefix pat'
            in Inr \<lparr>pr_action = action, pr_tool = tool, pr_pattern = (if fst dm = [] then None else Some (fst dm)),
                    pr_pattern_mode = snd dm\<rparr>)))"

text \<open>\<open>rest.contains("__")\<close>\<close>

fun contains_sub :: "ustring \<Rightarrow> ustring \<Rightarrow> bool" where
  "contains_sub pat [] = (pat = [])"
| "contains_sub pat (c # cs) = (starts_with pat (c # cs) \<or> contains_sub pat cs)"

definition parse_bare_rule :: "ustring \<Rightarrow> rule_action \<Rightarrow> (permission_rule, rule_parse_error) result" where
  "parse_bare_rule rule action =
     (if unsupported_tool rule then Inl (UnsupportedToolPrefix rule)
      else if tool_name_to_filter rule \<noteq> None \<and> rule \<noteq> str ''grep'' then
        Inr \<lparr>pr_action = action, pr_tool = the (tool_name_to_filter rule), pr_pattern = None, pr_pattern_mode = Glob\<rparr>
      else if starts_with (str ''mcp__'') rule \<and> drop 5 rule \<noteq> [] then
        (let rest = drop 5 rule in
         Inr \<lparr>pr_action = action, pr_tool = FilterMcp,
              pr_pattern = (if rest = str ''*'' then None
                            else if contains_sub (str ''__'') rest then Some rest
                            else Some (rest @ str ''__*'')),
              pr_pattern_mode = Glob\<rparr>)
      else Inr \<lparr>pr_action = action, pr_tool = FilterAny, pr_pattern = (if rule = [] then None else Some rule),
                pr_pattern_mode = Glob\<rparr>)"

definition parse_permission_rule :: "ustring \<Rightarrow> rule_action \<Rightarrow> (permission_rule, rule_parse_error) result" where
  "parse_permission_rule text_in action =
     (let rule = trim text_in in
      case find_first_unescaped rule (ch CHR ''('') of
        Some open_paren \<Rightarrow> parse_tool_rule rule open_paren action
      | None \<Rightarrow> parse_bare_rule rule action)"


section \<open>The written form of a rule\<close>

text \<open>The escapes the parser undoes: a backslash before every parenthesis and backslash.\<close>

definition rule_escape_char :: "nat \<Rightarrow> ustring" where
  "rule_escape_char c = (if c \<in> {ch CHR ''('', ch CHR '')'', ch CHR 0x5C} then [ch CHR 0x5C, c] else [c])"

definition escape_content :: "ustring \<Rightarrow> ustring" where
  "escape_content s = concat (map rule_escape_char s)"

definition written_rule :: "ustring \<Rightarrow> ustring \<Rightarrow> ustring" where
  "written_rule tool content = tool @ str ''('' @ escape_content content @ str '')''"


section \<open>Domains\<close>

text \<open>\<open>normalize_domain\<close> of the web-fetch tool's \<^verbatim>\<open>domain.rs\<close>; \<open>lower\<close> is \<open>str::to_lowercase\<close>.\<close>

definition normalize_domain :: "(ustring \<Rightarrow> ustring) \<Rightarrow> ustring \<Rightarrow> ustring" where
  "normalize_domain lower raw =
     (let s = trim_end_char (ch CHR ''.'') (trim_end_char (ch CHR ''/'') (trim raw)) in
      lower (case strip_prefix (str ''www.'') s of Some r \<Rightarrow> r | None \<Rightarrow> s))"

end
