(* ===== verification/Perm_Rules_Props.thy ===== *)
theory Perm_Rules_Props
  imports Perm_Rules
begin

text \<open>Rules written with the documented escapes parse back to their tool and content.\<close>

abbreviation bs :: nat where "bs \<equiv> ch CHR 0x5C"

section \<open>Unescaping\<close>

text \<open>\<open>esc_only S\<close> escapes the characters of \<open>S\<close>: the stages the three replacements go through.\<close>

definition esc_only :: "nat set \<Rightarrow> ustring \<Rightarrow> ustring" where
  "esc_only S s = concat (map (\<lambda>c. if c \<in> S then [bs, c] else [c]) s)"

lemma esc_only_simps [simp]:
  "esc_only S [] = []" "esc_only S (c # s) = (if c \<in> S then bs # c # esc_only S s else c # esc_only S s)"
  by (simp_all add: esc_only_def)

lemma escape_content_only: "escape_content s = esc_only {ch CHR ''('', ch CHR '')'', bs} s"
  by (induction s) (simp_all add: escape_content_def rule_escape_char_def)

lemma esc_only_empty: "esc_only {} s = s"
  by (induction s) simp_all

lemma esc_only_head: "c \<in> S \<Longrightarrow> c \<noteq> bs \<Longrightarrow> (case esc_only S s of [] \<Rightarrow> True | x # _ \<Rightarrow> x \<noteq> c)"
  by (cases s) auto

lemma replace_miss: "c \<noteq> p \<Longrightarrow> str_replace [p, q] rep (c # cs) = c # str_replace [p, q] rep cs"
  by simp

lemma replace_miss2:
  "(case cs of [] \<Rightarrow> True | x # _ \<Rightarrow> x \<noteq> q) \<Longrightarrow> str_replace [p, q] rep (p # cs) = p # str_replace [p, q] rep cs"
  by (cases cs) auto

lemma replace_hit: "str_replace [p, q] rep (p # q # cs) = rep @ str_replace [p, q] rep cs"
  by simp

lemma replace_paren:
  assumes "q \<in> S" "q \<noteq> bs" "bs \<in> S"
  shows "str_replace [bs, q] [q] (esc_only S s) = esc_only (S - {q}) s"
proof (induction s)
  case (Cons c s)
  have hd: "case esc_only S s of [] \<Rightarrow> True | x # _ \<Rightarrow> x \<noteq> q" using assms(1,2) by (rule esc_only_head)
  consider "c = q" | "c = bs" | "c \<in> S" "c \<noteq> q" "c \<noteq> bs" | "c \<notin> S" "c \<noteq> bs" using assms by blast
  then show ?case
  proof cases
    case 1
    then show ?thesis using Cons assms by (simp add: replace_hit del: str_replace.simps)
  next
    case 2
    have "str_replace [bs, q] [q] (bs # bs # esc_only S s) = bs # bs # str_replace [bs, q] [q] (esc_only S s)"
      using replace_miss2[where cs = "bs # esc_only S s" and q = q and p = bs and rep = "[q]"] replace_miss2[OF hd, of bs "[q]"] assms(2)
      by (simp del: str_replace.simps)
    then show ?thesis using 2 Cons assms by (simp del: str_replace.simps)
  next
    case 3
    have "str_replace [bs, q] [q] (bs # c # esc_only S s) = bs # c # str_replace [bs, q] [q] (esc_only S s)"
      using replace_miss2[where cs = "c # esc_only S s" and q = q and p = bs and rep = "[q]"] replace_miss[OF 3(3), of q "[q]" "esc_only S s"] 3(2)
      by (simp del: str_replace.simps)
    then show ?thesis using 3 Cons by (simp del: str_replace.simps)
  next
    case 4
    then show ?thesis using Cons replace_miss[OF 4(2)] by (simp del: str_replace.simps)
  qed
qed simp

lemma replace_backslash: "str_replace [bs, bs] [bs] (esc_only {bs} s) = s"
proof (induction s)
  case (Cons c s)
  then show ?case
    by (cases "c = bs") (simp_all add: replace_hit replace_miss del: str_replace.simps)
qed simp

lemma no_backslash_escape: "bs \<notin> set (escape_content s) \<Longrightarrow> escape_content s = s"
  by (induction s) (auto simp: escape_content_def rule_escape_char_def split: if_splits)

lemma unescape_escape: "unescape_rule_content (escape_content s) = s"
proof (cases "bs \<in> set (escape_content s)")
  case True
  have 1: "str_replace [bs, ch CHR ''(''] [ch CHR ''(''] (escape_content s) = esc_only {ch CHR '')'', bs} s"
    using replace_paren[of "ch CHR ''(''" "{ch CHR ''('', ch CHR '')'', bs}" s]
    by (simp add: escape_content_only insert_Diff_if)
  have 2: "str_replace [bs, ch CHR '')''] [ch CHR '')''] (esc_only {ch CHR '')'', bs} s) = esc_only {bs} s"
    using replace_paren[of "ch CHR '')''" "{ch CHR '')'', bs}" s] by (simp add: insert_Diff_if)
  show ?thesis using True unfolding unescape_rule_content_def 1 2 replace_backslash by simp
next
  case False
  then show ?thesis using no_backslash_escape by (simp add: unescape_rule_content_def)
qed

section \<open>Finding the parentheses\<close>

lemma escape_trailing: "even (length (takeWhile (\<lambda>c. c = bs) (rev (escape_content s))))"
proof (induction s rule: rev_induct)
  case (snoc c s)
  have "escape_content (s @ [c]) = escape_content s @ rule_escape_char c" by (simp add: escape_content_def)
  then show ?case using snoc by (auto simp: rule_escape_char_def)
qed (simp add: escape_content_def)

lemma find_last_escaped: "find_last_unescaped (escape_content s @ [ch CHR '')'']) (ch CHR '')'') = Some (length (escape_content s))"
  using escape_trailing[of s] by (simp add: find_last_unescaped_def is_unescaped_def nth_append)

lemma find_upt: "P n \<Longrightarrow> \<forall>i < n. \<not> P i \<Longrightarrow> n < m \<Longrightarrow> find P [0..<m] = Some n"
  by (auto simp: find_Some_iff intro!: exI[of _ n])

lemma find_first_paren:
  assumes "ch CHR ''('' \<notin> set name" "bs \<notin> set name"
  shows "find_first_unescaped (name @ ch CHR ''('' # rest) (ch CHR ''('') = Some (length name)"
proof -
  have "takeWhile (\<lambda>c. c = bs) (rev name) = []"
    using assms(2) by (cases "rev name") (auto simp: rev_swap)
  then show ?thesis
    unfolding find_first_unescaped_def using assms(1)
    by (intro find_upt) (auto simp: is_unescaped_def nth_append dest: nth_mem)
qed

section \<open>Trimming\<close>

definition trimmed :: "ustring \<Rightarrow> bool" where
  "trimmed s \<longleftrightarrow> s = [] \<or> \<not> is_whitespace (hd s) \<and> \<not> is_whitespace (last s)"

lemma trim_trimmed: "trimmed s \<Longrightarrow> trim s = s"
proof (cases "s = []")
  case False
  assume "trimmed s"
  then have h: "\<not> is_whitespace (hd s)" "\<not> is_whitespace (last s)" using False by (auto simp: trimmed_def)
  have "trim_start s = s" using h(1) False by (cases s) (simp_all add: trim_start_def)
  moreover have "trim_end s = s"
    using h(2) False by (cases s rule: rev_cases) (simp_all add: trim_end_def)
  ultimately show ?thesis by (simp add: trim_def)
qed (simp add: trim_def trim_start_def trim_end_def)

lemma not_whitespace_bs: "\<not> is_whitespace bs"
  by (simp add: is_whitespace_def)

lemma escape_ends:
  assumes "s \<noteq> []"
  shows "last (escape_content s) = last s" "hd (escape_content s) \<in> {bs, hd s}" "escape_content s \<noteq> []"
proof -
  show "last (escape_content s) = last s" "escape_content s \<noteq> []"
    using assms by (cases s rule: rev_cases; simp add: escape_content_def rule_escape_char_def)+
  show "hd (escape_content s) \<in> {bs, hd s}"
    using assms by (cases s) (auto simp: escape_content_def rule_escape_char_def)
qed

lemma escape_trimmed: "trimmed s \<Longrightarrow> trimmed (escape_content s)"
  using escape_ends[of s] not_whitespace_bs by (cases "s = []") (auto simp: trimmed_def escape_content_def)

lemma escape_star: "escape_content s = str ''*'' \<longleftrightarrow> s = str ''*''"
proof
  assume e: "escape_content s = str ''*''"
  then have "bs \<notin> set (escape_content s)" by (simp add: str_def)
  then show "s = str ''*''" using no_backslash_escape e by metis
qed (simp add: escape_content_def rule_escape_char_def str_def)

section \<open>Properties\<close>

definition rule_of :: "rule_action \<Rightarrow> tool_filter \<Rightarrow> ustring \<Rightarrow> permission_rule" where
  "rule_of action tool content =
     (let dm = strip_domain_prefix (if tool = FilterBash then strip_bash_colon_wildcard content else content)
      in \<lparr>pr_action = action, pr_tool = tool, pr_pattern = (if fst dm = [] then None else Some (fst dm)),
          pr_pattern_mode = snd dm\<rparr>)"

lemma tool_name_plain:
  assumes "tool_name_to_filter name = Some tool"
  shows "ch CHR ''('' \<notin> set name" "bs \<notin> set name" "trimmed name" "name \<noteq> []" "\<not> is_whitespace (hd name)"
proof -
  have "list_all (\<lambda>(n, f). ch CHR ''('' \<notin> set (str n) \<and> bs \<notin> set (str n) \<and> n \<noteq> ''''
      \<and> \<not> is_whitespace (hd (str n)) \<and> \<not> is_whitespace (last (str n))) tool_names"
    by (simp add: tool_names_def str_def is_whitespace_def)
  moreover obtain n f where "(n, f) \<in> set tool_names" "name = str n"
    using assms map_of_SomeD unfolding tool_name_to_filter_def by fastforce
  ultimately show "ch CHR ''('' \<notin> set name" "bs \<notin> set name" "trimmed name" "name \<noteq> []" "\<not> is_whitespace (hd name)"
    by (auto simp: list_all_iff trimmed_def str_def)
qed

text \<open>
  C38: Every rule can be written down. For a tool name the parser knows and a content without surrounding
  blanks, the name followed by the content in parentheses, with a backslash before each parenthesis
  and backslash, parses to the rule on that tool with exactly that content as its pattern (a content of
  just a star is the tool-wide rule; a \<open>domain:\<close> prefix and a trailing \<open>:*\<close> of a Bash rule are read as
  documented).
\<close>

theorem rule_roundtrip:
  fixes name content :: ustring and action :: rule_action
  assumes "tool_name_to_filter name = Some tool" "trimmed content"
  shows "parse_permission_rule (written_rule name content) action =
    Inr (rule_of action tool (if content = str ''*'' then [] else content))"
proof -
  note plain = tool_name_plain[OF assms(1)]
  let ?w = "written_rule name content" and ?e = "escape_content content"
  have w: "?w = name @ ch CHR ''('' # ?e @ [ch CHR '')'']" by (simp add: written_rule_def str_def)
  have "trimmed ?w" using plain(4,5) unfolding w trimmed_def by (simp add: is_whitespace_def)
  then have t: "trim ?w = ?w" by (rule trim_trimmed)
  have open_at: "find_first_unescaped ?w (ch CHR ''('') = Some (length name)"
    unfolding w using plain(1,2) by (rule find_first_paren)
  have raw: "trim ?e = ?e" using assms(2) by (intro trim_trimmed escape_trimmed)
  have pat: "(if ?e = [] \<or> ?e = str ''*'' then [] else unescape_rule_content ?e)
      = (if content = str ''*'' then [] else content)"
  proof (cases "content = []")
    case False
    then show ?thesis using escape_star[of content] escape_ends(3)[OF False] unescape_escape[of content] by metis
  qed (simp add: escape_content_def)
  have parts: "take (length name) ?w = name" "drop (length name + 1) ?w = ?e @ [ch CHR '')'']"
    by (simp_all add: w)
  have tk: "take (length ?e) (?e @ [ch CHR '')'']) = ?e" by simp
  show ?thesis
    unfolding parse_permission_rule_def Let_def t open_at option.case parse_tool_rule_def parts
      find_last_escaped trim_trimmed[OF plain(3)] ok_or_simps rbind_simps tk raw pat assms(1) rule_of_def ..
qed

theorem rule_roundtrip_witness:
  "parse_permission_rule (written_rule (str ''Edit'') (str ''src/(a)/**'')) DenyRule =
     Inr (rule_of DenyRule FilterEdit (str ''src/(a)/**''))"
proof -
  have "tool_name_to_filter (str ''Edit'') = Some FilterEdit" "trimmed (str ''src/(a)/**'')" "str ''src/(a)/**'' \<noteq> str ''*''"
    by (simp_all add: tool_name_to_filter_def tool_names_def trimmed_def is_whitespace_def str_def)
  then show ?thesis using rule_roundtrip[of "str ''Edit''" FilterEdit "str ''src/(a)/**''" DenyRule] by simp
qed

end
