(* ===== verification/Shell_Words.thy ===== *)
theory Shell_Words
  imports Prelude
begin

text \<open>
  Command words as the permission gates read them: wrapper peeling and its \<open>env\<close> scan from
  \<^verbatim>\<open>fuigo-workspace/src/permission/bash_command_splitting.rs\<close>, and the inline \<open>-c\<close> and program-head
  tests of \<^verbatim>\<open>policy.rs\<close>. A slice \<open>&[String]\<close> is a list of words; a loop over an index into the slice
  recurses over the remaining words and carries the index where the code returns it.
\<close>

section \<open>Words\<close>

text \<open>\<open>w.rsplit(['/', '\\']).next()\<close>\<close>

definition base_name :: "ustring \<Rightarrow> ustring" where
  "base_name w = rsplit_next (\<lambda>c. c = ch CHR ''/'' \<or> c = ch CHR 0x5C) w"

definition head_name :: "ustring list \<Rightarrow> ustring option" where
  "head_name cmd = (case cmd of [] \<Rightarrow> None | w # _ \<Rightarrow> Some (base_name w))"

definition is_ascii_alphabetic :: "nat \<Rightarrow> bool" where
  [str_simps]: "is_ascii_alphabetic c \<longleftrightarrow> is_ascii_upper c \<or> is_ascii_lower c"

definition is_setup_command :: "ustring list \<Rightarrow> bool" where
  "is_setup_command cmd \<longleftrightarrow>
     cmd = [] \<or> hd cmd \<in> set (map str [''cd'', ''pushd'', ''popd'', ''export'', ''unset'', ''set'', ''sleep'', ''timeout''])"

definition is_env_assignment :: "ustring \<Rightarrow> bool" where
  "is_env_assignment tok \<longleftrightarrow>
     ch CHR ''='' \<in> set tok \<and>
     (let name = takeWhile (\<lambda>c. c \<noteq> ch CHR ''='') tok in
      name \<noteq> [] \<and> (is_ascii_alphabetic (hd name) \<or> hd name = ch CHR ''_'')
      \<and> list_all (\<lambda>c. is_ascii_alphanumeric c \<or> c = ch CHR ''_'') name)"


section \<open>Quote removal\<close>

fun decode_loop :: "nat option \<Rightarrow> ustring \<Rightarrow> ustring \<Rightarrow> ustring option" where
  "decode_loop quote out [] = (if quote = None then Some out else None)"
| "decode_loop quote out (c # cs) =
     (if quote = None \<and> (c = ch CHR 0x27 \<or> c = ch CHR 0x22) then decode_loop (Some c) out cs
      else if quote = Some c then decode_loop None out cs
      else if quote = None \<and> c = ch CHR 0x5C then
        (case cs of [] \<Rightarrow> None | n # r \<Rightarrow> decode_loop None (out @ [n]) r)
      else if quote = Some (ch CHR 0x22) \<and> c = ch CHR 0x5C then
        (case cs of
           [] \<Rightarrow> None
         | n # r \<Rightarrow>
             decode_loop quote
               (if n \<in> {ch CHR ''$'', ch CHR 0x60, ch CHR 0x22, ch CHR 0x5C, 10} then out @ [n] else out @ [ch CHR 0x5C, n]) r)
      else decode_loop quote (out @ [c]) cs)"

definition decode_shell_literal_spelling :: "ustring \<Rightarrow> ustring option" where
  "decode_shell_literal_spelling raw = decode_loop None [] raw"

definition decode_env_option_token :: "ustring \<Rightarrow> ustring" where
  "decode_env_option_token raw =
     (if ch CHR 0x27 \<notin> set raw \<and> ch CHR 0x22 \<notin> set raw then raw
      else case decode_shell_literal_spelling raw of Some decoded \<Rightarrow> decoded | None \<Rightarrow> raw)"

definition is_high_confidence_env_s_payload :: "ustring \<Rightarrow> bool" where
  "is_high_confidence_env_s_payload s \<longleftrightarrow>
     s \<noteq> [] \<and> 0 \<notin> set s
     \<and> \<not> list_ex (\<lambda>c. c \<in> {ch CHR 0x27, ch CHR 0x22, ch CHR 0x5C, ch CHR ''#'', ch CHR 0x60, ch CHR ''$'', 10, 13}) s"

definition take_high_confidence_payload :: "ustring \<Rightarrow> ustring option" where
  "take_high_confidence_payload raw = (if is_high_confidence_env_s_payload raw then Some raw else None)"


section \<open>The env scan\<close>

datatype env_short =
    SplitStringNext
  | SplitStringGlued ustring
  | SplitStringDetect
  | NoArg
  | ArgNeedNext nat
  | ArgGlued nat
  | Uncertain

fun classify_short_loop :: "ustring \<Rightarrow> env_short" where
  "classify_short_loop [] = NoArg"
| "classify_short_loop (c # cs) =
     (if c \<in> {ch CHR ''i'', ch CHR ''v'', ch CHR ''0''} then classify_short_loop cs
      else if c = ch CHR ''S'' then SplitStringDetect
      else if c \<in> {ch CHR ''u'', ch CHR ''C'', ch CHR ''P'', ch CHR ''a''} then
        (if cs \<noteq> [] then ArgGlued c else ArgNeedNext c)
      else Uncertain)"

definition classify_env_short :: "ustring \<Rightarrow> env_short" where
  "classify_env_short tok =
     (if \<not> starts_with (str ''-'') tok \<or> starts_with (str ''--'') tok \<or> tok = str ''-'' then Uncertain
      else
        let body = drop 1 tok in
        if body = [] then Uncertain
        else case strip_prefix (str ''S'') body of
            Some rest \<Rightarrow> if rest = [] then SplitStringNext else SplitStringGlued rest
          | None \<Rightarrow> classify_short_loop body)"

record env_scan_result =
  es_chdir :: "ustring option"
  es_has_split_string :: bool
  es_options_uncertain :: bool
  es_split_string_script :: "ustring option"
  es_command_start :: nat

text \<open>
  \<open>env_step i tok rest s\<close> is one turn of the loop of \<open>env_scan\<close> at the word \<open>tok\<close> of index \<open>i\<close>, \<open>rest\<close> the
  words after it: either the loop ends, with the scan it returns (\<open>Inl\<close>), or it goes on after the given
  number of words. \<open>get_first\<close> is \<open>cmd.get(i + 1)\<close>.
\<close>

definition es_at :: "nat \<Rightarrow> env_scan_result \<Rightarrow> env_scan_result" where
  "es_at i s = s\<lparr>es_command_start := i\<rparr>"

definition es_split :: "nat \<Rightarrow> ustring option \<Rightarrow> env_scan_result \<Rightarrow> env_scan_result" where
  "es_split i payload s =
     s\<lparr>es_has_split_string := True, es_command_start := i,
       es_split_string_script :=
         (case payload of Some raw \<Rightarrow> take_high_confidence_payload raw | None \<Rightarrow> es_split_string_script s)\<rparr>"

definition es_uncertain :: "nat \<Rightarrow> env_scan_result \<Rightarrow> env_scan_result" where
  "es_uncertain i s = s\<lparr>es_options_uncertain := True, es_command_start := i\<rparr>"

definition get_first :: "ustring list \<Rightarrow> ustring option" where
  "get_first rest = (case rest of [] \<Rightarrow> None | v # _ \<Rightarrow> Some v)"

type_synonym env_turn = "env_scan_result + (nat \<times> env_scan_result)"

text \<open>\<open>take_option_operand\<close>, with what the loop does with the operand or without one.\<close>

definition take_option_operand ::
    "nat \<Rightarrow> ustring list \<Rightarrow> env_scan_result \<Rightarrow> (ustring \<Rightarrow> env_scan_result) \<Rightarrow> env_turn" where
  "take_option_operand i rest s use = (case get_first rest of
       Some v \<Rightarrow> Inr (2, use v)
     | None \<Rightarrow> Inl (es_uncertain i s))"

definition env_long_step :: "nat \<Rightarrow> ustring \<Rightarrow> ustring list \<Rightarrow> env_scan_result \<Rightarrow> env_turn" where
  "env_long_step i tok rest s =
     (if tok = str ''--chdir'' then take_option_operand i rest s (\<lambda>dir. s\<lparr>es_chdir := Some dir\<rparr>)
      else if starts_with (str ''--chdir='') tok then Inr (1, s\<lparr>es_chdir := strip_prefix (str ''--chdir='') tok\<rparr>)
      else if tok \<in> set (map str [''--unset'', ''--path'', ''--argv0'']) then take_option_operand i rest s (\<lambda>_. s)
      else if starts_with (str ''--unset='') tok \<or> starts_with (str ''--path='') tok
           \<or> starts_with (str ''--argv0='') tok then Inr (1, s)
      else if tok \<in> set (map str [''--ignore-environment'', ''--null'', ''--debug'', ''--version'', ''--help'']) then Inr (1, s)
      else if tok = str ''--split-string'' then Inl (es_split i (get_first rest) s)
      else case strip_prefix (str ''--split-string='') tok of
          Some payload \<Rightarrow>
            Inl (es_split i
              (Some (case strip_prefix (str ''--split-string='') (decode_env_option_token tok) of
                       Some p \<Rightarrow> p | None \<Rightarrow> payload)) s)
        | None \<Rightarrow> Inl (es_uncertain i s))"

definition env_short_step :: "nat \<Rightarrow> ustring \<Rightarrow> ustring list \<Rightarrow> env_scan_result \<Rightarrow> env_turn" where
  "env_short_step i tok rest s = (case classify_env_short (decode_env_option_token tok) of
       SplitStringNext \<Rightarrow> Inl (es_split i (get_first rest) s)
     | SplitStringGlued payload \<Rightarrow> Inl (es_split i (Some payload) s)
     | SplitStringDetect \<Rightarrow> Inl (es_split i None s)
     | NoArg \<Rightarrow> Inr (1, s)
     | ArgNeedNext kind \<Rightarrow>
         take_option_operand i rest s
           (\<lambda>operand. if kind = ch CHR ''C'' then s\<lparr>es_chdir := Some operand\<rparr> else s)
     | ArgGlued kind \<Rightarrow>
         Inr (1, if kind = ch CHR ''C''
                 then s\<lparr>es_chdir := Some (case strip_prefix (str ''-C'') tok of Some d \<Rightarrow> d | None \<Rightarrow> [])\<rparr> else s)
     | Uncertain \<Rightarrow> Inl (es_uncertain i s))"

definition env_step :: "nat \<Rightarrow> ustring \<Rightarrow> ustring list \<Rightarrow> env_scan_result \<Rightarrow> env_turn" where
  "env_step i tok rest s =
     (if tok = str ''--'' then Inl (es_at (i + 1) s)
      else if tok = str ''-'' then Inr (1, s)
      else if \<not> starts_with (str ''-'') tok then (if is_env_assignment tok then Inr (1, s) else Inl (es_at i s))
      else if starts_with (str ''--'') tok then env_long_step i tok rest s
      else env_short_step i tok rest s)"

fun env_loop :: "nat \<Rightarrow> ustring list \<Rightarrow> env_scan_result \<Rightarrow> env_scan_result" where
  "env_loop i [] s = es_at i s"
| "env_loop i (tok # rest) s = (case env_step i tok rest s of
       Inl r \<Rightarrow> r
     | Inr (k, s') \<Rightarrow> env_loop (i + k) (drop (k - 1) rest) s')"

definition env_scan :: "ustring list \<Rightarrow> env_scan_result" where
  "env_scan cmd = env_loop 1 (drop 1 cmd)
     \<lparr>es_chdir = None, es_has_split_string = False, es_options_uncertain = False,
      es_split_string_script = None, es_command_start = 1\<rparr>"

definition env_split_string_script :: "ustring list \<Rightarrow> ustring option" where
  "env_split_string_script words =
     (if head_name words \<noteq> Some (str ''env'') then None
      else
        let scan = env_scan words in
        if \<not> es_has_split_string scan then None else es_split_string_script scan)"


section \<open>Wrappers\<close>

definition attached_option :: "ustring \<Rightarrow> ustring \<Rightarrow> bool" where
  "attached_option word option \<longleftrightarrow>
     (if starts_with (str ''--'') option
      then (case strip_prefix option word of Some rest \<Rightarrow> starts_with (str ''='') rest | None \<Rightarrow> False)
      else str_len option < str_len word \<and> starts_with option word)"

fun options_end :: "ustring list \<Rightarrow> ustring list \<Rightarrow> nat \<Rightarrow> ustring list \<Rightarrow> nat option" where
  "options_end flags valued i [] = Some i"
| "options_end flags valued i (word # rest) =
     (if word = str ''--'' then Some (i + 1)
      else if \<not> starts_with (str ''-'') word \<or> word = str ''-'' then Some i
      else if word \<in> set flags then options_end flags valued (i + 1) rest
      else if word \<in> set valued then
        (case rest of [] \<Rightarrow> None | _ # r \<Rightarrow> options_end flags valued (i + 2) r)
      else if list_ex (attached_option word) valued then options_end flags valued (i + 1) rest
      else None)"

definition wrapper_options_end :: "ustring list \<Rightarrow> string list \<Rightarrow> string list \<Rightarrow> nat option" where
  "wrapper_options_end cmd flags valued = options_end (map str flags) (map str valued) 1 (drop 1 cmd)"

text \<open>
  The test on \<open>w[1..]\<close> in the \<open>nice\<close> arm slices bytes: it panics when the first character of a word of
  more than one byte is not ASCII. \<open>nice_slice_panics\<close> is that case; \<open>strip_wrapper_command\<close> describes
  the calls that return, and \<open>normalize_panics\<close> below follows the panic through the peeling loops.
\<close>

definition nice_slice_panics :: "ustring list \<Rightarrow> bool" where
  "nice_slice_panics cmd \<longleftrightarrow>
     head_name cmd = Some (str ''nice'') \<and> 1 < length cmd \<and> 1 < str_len (cmd ! 1) \<and> 0x80 \<le> hd (cmd ! 1)"

definition nice_historical :: "ustring list \<Rightarrow> bool" where
  "nice_historical cmd \<longleftrightarrow> 1 < length cmd \<and> 1 < str_len (cmd ! 1) \<and> list_all is_ascii_digit (drop 1 (cmd ! 1))"

definition wrapper_inner_start :: "ustring list \<Rightarrow> nat option" where
  "wrapper_inner_start cmd = (case head_name cmd of None \<Rightarrow> None | Some head \<Rightarrow>
     (if head = str ''timeout'' then
        (case wrapper_options_end cmd [''-v'', ''--verbose'', ''--preserve-status'', ''--foreground'']
                [''-k'', ''-s'', ''--kill-after'', ''--signal''] of
           None \<Rightarrow> None | Some i \<Rightarrow> if length cmd \<le> i then None else Some (i + 1))
      else if head = str ''nice'' then
        (if nice_historical cmd then Some 2 else wrapper_options_end cmd [] [''-n'', ''--adjustment''])
      else if head = str ''ionice'' then
        wrapper_options_end cmd [''-t'', ''--ignore'']
          [''-c'', ''-n'', ''-p'', ''-P'', ''-u'', ''--class'', ''--classdata'', ''--pid'', ''--pgid'', ''--uid'']
      else if head = str ''chrt'' then
        (case wrapper_options_end cmd
                [''-a'', ''-b'', ''-d'', ''-e'', ''-f'', ''-i'', ''-o'', ''-r'', ''-R'', ''-v'', ''--all-tasks'', ''--batch'',
                 ''--deadline'', ''--fifo'', ''--idle'', ''--other'', ''--rr'', ''--reset-on-fork'', ''--verbose'']
                [''-T'', ''-P'', ''-D'', ''--sched-runtime'', ''--sched-period'', ''--sched-deadline''] of
           None \<Rightarrow> None | Some i \<Rightarrow> if length cmd \<le> i then None else Some (i + 1))
      else if head = str ''stdbuf'' then
        wrapper_options_end cmd [] [''-i'', ''-o'', ''-e'', ''--input'', ''--output'', ''--error'']
      else if head = str ''env'' then
        (let scan = env_scan cmd in
         if es_has_split_string scan \<or> es_options_uncertain scan then None else Some (es_command_start scan))
      else None))"

definition strip_wrapper_command :: "ustring list \<Rightarrow> ustring list option" where
  "strip_wrapper_command cmd = (case wrapper_inner_start cmd of
       None \<Rightarrow> None
     | Some i \<Rightarrow> if length cmd \<le> i then None else Some (drop i cmd))"

definition wrapper_names :: "ustring list" where
  "wrapper_names = map str [''timeout'', ''nice'', ''ionice'', ''chrt'', ''stdbuf'', ''env'']"

definition is_wrapper_command :: "ustring list \<Rightarrow> bool" where
  "is_wrapper_command words = (case head_name words of Some h \<Rightarrow> h \<in> set wrapper_names | None \<Rightarrow> False)"

definition MAX_WRAPPER_DEPTH :: nat where "MAX_WRAPPER_DEPTH = 8"
definition MAX_INLINE_SHELL_DEPTH :: nat where "MAX_INLINE_SHELL_DEPTH = 8"
definition MAX_TRANSPARENT_PREFIX_DEPTH :: nat where "MAX_TRANSPARENT_PREFIX_DEPTH = 8"
definition MAX_NORMALIZE_ROUNDS :: nat where
  "MAX_NORMALIZE_ROUNDS = MAX_WRAPPER_DEPTH + MAX_TRANSPARENT_PREFIX_DEPTH"

record checked_wrapper_peel =
  cw_words :: "ustring list"
  cw_has_chdir :: bool
  cw_has_split_string :: bool
  cw_env_options_uncertain :: bool
  cw_exhausted :: bool

definition scan_env_layer :: "checked_wrapper_peel \<Rightarrow> checked_wrapper_peel" where
  "scan_env_layer p =
     (if head_name (cw_words p) = Some (str ''env'') then
        let scan = env_scan (cw_words p) in
        p\<lparr>cw_has_chdir := cw_has_chdir p \<or> es_chdir scan \<noteq> None,
          cw_has_split_string := cw_has_split_string p \<or> es_has_split_string scan,
          cw_env_options_uncertain := cw_env_options_uncertain p \<or> es_options_uncertain scan\<rparr>
      else p)"

fun unwrap_loop :: "nat \<Rightarrow> checked_wrapper_peel \<Rightarrow> checked_wrapper_peel" where
  "unwrap_loop 0 p =
     p\<lparr>cw_exhausted := is_wrapper_command (cw_words p) \<and> strip_wrapper_command (cw_words p) \<noteq> None\<rparr>"
| "unwrap_loop (Suc n) p =
     (let q = scan_env_layer p in
      case strip_wrapper_command (cw_words q) of
        Some inner \<Rightarrow> unwrap_loop n (q\<lparr>cw_words := inner\<rparr>)
      | None \<Rightarrow> q\<lparr>cw_exhausted := False\<rparr>)"

definition unwrap_wrappers_checked :: "ustring list \<Rightarrow> checked_wrapper_peel" where
  "unwrap_wrappers_checked words =
     unwrap_loop MAX_WRAPPER_DEPTH
       \<lparr>cw_words = words, cw_has_chdir = False, cw_has_split_string = False,
        cw_env_options_uncertain = False, cw_exhausted = False\<rparr>"

definition unwrap_wrappers :: "ustring list \<Rightarrow> ustring list" where
  "unwrap_wrappers words = cw_words (unwrap_wrappers_checked words)"


section \<open>Transparent prefixes\<close>

datatype transparent_strip = NotPrefix | Peeled "ustring list" | StripAmbiguous

definition peeled_or_not :: "ustring list \<Rightarrow> transparent_strip" where
  "peeled_or_not inner = (if inner \<noteq> [] then Peeled inner else NotPrefix)"

text \<open>The loops run over the words after the head; \<open>''\0''\<close> is the word of one NUL.\<close>

fun exec_loop :: "ustring list \<Rightarrow> transparent_strip" where
  "exec_loop [] = NotPrefix"
| "exec_loop (tok # rest) =
     (if tok = str ''--'' then peeled_or_not rest
      else if tok = str ''-'' \<or> \<not> starts_with (str ''-'') tok then peeled_or_not (tok # rest)
      else if tok \<in> set (map str [''-c'', ''-l'', ''-cl'', ''-lc'']) then exec_loop rest
      else if tok = str ''-a'' then
        (case rest of
           v # r \<Rightarrow> if v \<noteq> [0] \<and> v \<noteq> [] then exec_loop r else StripAmbiguous
         | [] \<Rightarrow> StripAmbiguous)
      else if starts_with (str ''-a'') tok then
        (if drop 2 tok = [0] then StripAmbiguous else exec_loop rest)
      else if \<not> starts_with (str ''--'') tok \<and> list_all (\<lambda>c. c = ch CHR ''c'' \<or> c = ch CHR ''l'') (drop 1 tok)
        then exec_loop rest
      else StripAmbiguous)"

definition strip_exec_prefix :: "ustring list \<Rightarrow> transparent_strip" where
  "strip_exec_prefix cmd = exec_loop (drop 1 cmd)"

fun command_loop :: "ustring list \<Rightarrow> transparent_strip" where
  "command_loop [] = NotPrefix"
| "command_loop (tok # rest) =
     (if tok = str ''--'' then peeled_or_not rest
      else if tok = str ''-'' \<or> \<not> starts_with (str ''-'') tok then peeled_or_not (tok # rest)
      else if tok \<in> set (map str [''-v'', ''-V'', ''--help'', ''--version''])
           \<or> \<not> starts_with (str ''--'') tok \<and> list_ex (\<lambda>c. c = ch CHR ''v'' \<or> c = ch CHR ''V'') (drop 1 tok)
        then NotPrefix
      else if tok = str ''-p'' \<or> \<not> starts_with (str ''--'') tok \<and> list_all (\<lambda>c. c = ch CHR ''p'') (drop 1 tok)
        then command_loop rest
      else StripAmbiguous)"

definition strip_command_prefix :: "ustring list \<Rightarrow> transparent_strip" where
  "strip_command_prefix cmd = command_loop (drop 1 cmd)"

definition strip_builtin_prefix :: "ustring list \<Rightarrow> transparent_strip" where
  "strip_builtin_prefix cmd = (case drop 1 cmd of
       [] \<Rightarrow> NotPrefix
     | tok # rest \<Rightarrow>
         (if starts_with (str ''-'') tok \<and> tok \<noteq> str ''-'' then StripAmbiguous else Peeled (tok # rest)))"

definition strip_transparent_prefix :: "ustring list \<Rightarrow> transparent_strip" where
  "strip_transparent_prefix cmd = (case cmd of
       [] \<Rightarrow> NotPrefix
     | h # _ \<Rightarrow>
         (if h = [] \<or> h = [0] then NotPrefix
          else if base_name h = str ''exec'' then strip_exec_prefix cmd
          else if base_name h = str ''command'' then strip_command_prefix cmd
          else if base_name h = str ''builtin'' then strip_builtin_prefix cmd
          else NotPrefix))"

datatype transparent_prefix_peel = Ready "ustring list" | PeelAmbiguous

fun peel_loop :: "nat \<Rightarrow> ustring list \<Rightarrow> transparent_prefix_peel" where
  "peel_loop 0 cur = (case strip_transparent_prefix cur of NotPrefix \<Rightarrow> Ready cur | _ \<Rightarrow> PeelAmbiguous)"
| "peel_loop (Suc n) cur = (case strip_transparent_prefix cur of
       NotPrefix \<Rightarrow> Ready cur | Peeled inner \<Rightarrow> peel_loop n inner | StripAmbiguous \<Rightarrow> PeelAmbiguous)"

definition peel_transparent_prefixes :: "ustring list \<Rightarrow> transparent_prefix_peel" where
  "peel_transparent_prefixes words = peel_loop MAX_TRANSPARENT_PREFIX_DEPTH words"

definition peel_one_wrapper_layer :: "ustring list \<Rightarrow> ustring list option" where
  "peel_one_wrapper_layer cmd = (case strip_wrapper_command cmd of
       Some inner \<Rightarrow> Some inner
     | None \<Rightarrow> (case strip_transparent_prefix cmd of
         Peeled inner \<Rightarrow> if inner \<noteq> [] then Some inner else None | _ \<Rightarrow> None))"


section \<open>Normalization\<close>

record normalized_command_peel =
  nc_words :: "ustring list"
  nc_has_chdir :: bool
  nc_has_split_string :: bool
  nc_env_options_uncertain :: bool
  nc_exhausted :: bool
  nc_ambiguous :: bool

text \<open>
  One round unwraps wrappers, then transparent prefixes. The slices are suffixes of one array, so the
  code's test that length and start pointer are unchanged is the test on the length.
\<close>

definition absorb_peel :: "checked_wrapper_peel \<Rightarrow> normalized_command_peel \<Rightarrow> normalized_command_peel" where
  "absorb_peel w s =
     s\<lparr>nc_words := cw_words w, nc_has_chdir := nc_has_chdir s \<or> cw_has_chdir w,
       nc_has_split_string := nc_has_split_string s \<or> cw_has_split_string w,
       nc_env_options_uncertain := nc_env_options_uncertain s \<or> cw_env_options_uncertain w,
       nc_exhausted := nc_exhausted s \<or> cw_exhausted w\<rparr>"

fun normalize_loop :: "nat \<Rightarrow> normalized_command_peel \<Rightarrow> normalized_command_peel" where
  "normalize_loop 0 s = s"
| "normalize_loop (Suc n) s =
     (let t = absorb_peel (unwrap_wrappers_checked (nc_words s)) s in
      if nc_has_split_string t \<or> nc_env_options_uncertain t then t
      else case peel_transparent_prefixes (nc_words t) of
          PeelAmbiguous \<Rightarrow> t\<lparr>nc_ambiguous := True\<rparr>
        | Ready inner \<Rightarrow>
            (let u = t\<lparr>nc_words := inner\<rparr> in
             if length inner = length (nc_words s) then u else normalize_loop n u))"

definition finish_normalize :: "normalized_command_peel \<Rightarrow> normalized_command_peel" where
  "finish_normalize s =
     (if nc_ambiguous s \<or> nc_has_split_string s \<or> nc_env_options_uncertain s then s
      else
        let cur = nc_words s;
            still_wrapper = (is_wrapper_command cur \<and> strip_wrapper_command cur \<noteq> None);
            unpeelable_wrapper = (is_wrapper_command cur \<and> 1 < length cur \<and> strip_wrapper_command cur = None
                                  \<and> head_name cur \<noteq> Some (str ''env''));
            still_transparent = (strip_transparent_prefix cur \<noteq> NotPrefix)
        in s\<lparr>nc_ambiguous := unpeelable_wrapper, nc_exhausted := nc_exhausted s \<or> still_wrapper \<or> still_transparent\<rparr>)"

definition normalize_command_words :: "ustring list \<Rightarrow> normalized_command_peel" where
  "normalize_command_words words =
     finish_normalize (normalize_loop MAX_NORMALIZE_ROUNDS
       \<lparr>nc_words = words, nc_has_chdir = False, nc_has_split_string = False, nc_env_options_uncertain = False,
        nc_exhausted = False, nc_ambiguous = False\<rparr>)"

text \<open>The same loops, asked whether one of their calls of \<open>strip_wrapper_command\<close> panics.\<close>

fun unwrap_panics :: "nat \<Rightarrow> ustring list \<Rightarrow> bool" where
  "unwrap_panics 0 words = nice_slice_panics words"
| "unwrap_panics (Suc n) words =
     (if nice_slice_panics words then True
      else case strip_wrapper_command words of Some inner \<Rightarrow> unwrap_panics n inner | None \<Rightarrow> False)"

fun normalize_loop_panics :: "nat \<Rightarrow> normalized_command_peel \<Rightarrow> bool" where
  "normalize_loop_panics 0 s = nice_slice_panics (nc_words s)"
| "normalize_loop_panics (Suc n) s =
     (if unwrap_panics MAX_WRAPPER_DEPTH (nc_words s) then True
      else
        let t = absorb_peel (unwrap_wrappers_checked (nc_words s)) s in
        if nc_has_split_string t \<or> nc_env_options_uncertain t then False
        else case peel_transparent_prefixes (nc_words t) of
            PeelAmbiguous \<Rightarrow> False
          | Ready inner \<Rightarrow>
              (if length inner = length (nc_words s) then nice_slice_panics inner
               else normalize_loop_panics n (t\<lparr>nc_words := inner\<rparr>)))"

definition normalize_panics :: "ustring list \<Rightarrow> bool" where
  "normalize_panics words =
     normalize_loop_panics MAX_NORMALIZE_ROUNDS
       \<lparr>nc_words = words, nc_has_chdir = False, nc_has_split_string = False, nc_env_options_uncertain = False,
        nc_exhausted = False, nc_ambiguous = False\<rparr>"



section \<open>Plain program words\<close>

definition program_word_is_plain :: "ustring \<Rightarrow> bool" where
  "program_word_is_plain word \<longleftrightarrow>
     word \<noteq> [] \<and> hd word \<noteq> ch CHR ''-'' \<and> hd word \<noteq> ch CHR ''.'' \<and> \<not> ends_with (str ''.exe'') word
     \<and> list_all (\<lambda>c. is_ascii_lower c \<or> is_ascii_digit c
                   \<or> c \<in> {ch CHR ''.'', ch CHR ''_'', ch CHR ''+'', ch CHR ''-''}) word"

fun identity_loop :: "nat \<Rightarrow> ustring list \<Rightarrow> bool" where
  "identity_loop 0 cur = False"
| "identity_loop (Suc n) cur =
     (case cur of
        [] \<Rightarrow> True
      | head # _ \<Rightarrow>
          (if \<not> program_word_is_plain head then False
           else case strip_wrapper_command cur of
               Some inner \<Rightarrow> identity_loop n inner
             | None \<Rightarrow> (case strip_transparent_prefix cur of
                 NotPrefix \<Rightarrow> True | Peeled inner \<Rightarrow> identity_loop n inner | StripAmbiguous \<Rightarrow> False)))"

definition program_identity_is_plain :: "ustring list \<Rightarrow> bool" where
  "program_identity_is_plain words = identity_loop (MAX_NORMALIZE_ROUNDS + 1) words"

definition argv_starts_with_words :: "ustring list \<Rightarrow> ustring \<Rightarrow> bool \<Rightarrow> bool" where
  "argv_starts_with_words words pat ignore_case \<longleftrightarrow>
     list_all (\<lambda>(i, part).
         i < length words \<and>
         (if ignore_case then map to_ascii_lower (words ! i) = map to_ascii_lower part else words ! i = part))
       (List.enumerate 0 (split_on (ch CHR '' '') pat))"

text \<open>\<open>sh_split_simple\<close>: the state is the pieces so far, the current piece and the two quote flags.\<close>

fun sh_split_loop :: "ustring list \<Rightarrow> ustring \<Rightarrow> bool \<Rightarrow> bool \<Rightarrow> ustring \<Rightarrow> ustring list" where
  "sh_split_loop res cur in_single in_double [] = (if cur \<noteq> [] then res @ [cur] else res)"
| "sh_split_loop res cur in_single in_double (c # cs) =
     (if c = ch CHR 0x27 \<and> \<not> in_double then sh_split_loop res cur (\<not> in_single) in_double cs
      else if c = ch CHR 0x22 \<and> \<not> in_single then sh_split_loop res cur in_single (\<not> in_double) cs
      else if c = ch CHR 0x5C then
        (case cs of [] \<Rightarrow> sh_split_loop res cur in_single in_double []
                  | n # r \<Rightarrow> sh_split_loop res (cur @ [n]) in_single in_double r)
      else if is_whitespace c \<and> \<not> in_single \<and> \<not> in_double then
        (if cur \<noteq> [] then sh_split_loop (res @ [cur]) [] in_single in_double cs
         else sh_split_loop res cur in_single in_double cs)
      else sh_split_loop res (cur @ [c]) in_single in_double cs)"

definition sh_split_simple :: "ustring \<Rightarrow> ustring list" where
  "sh_split_simple s = sh_split_loop [] [] False False s"


section \<open>Inline scripts and program heads\<close>

datatype shell_word = Literal ustring | Untrusted

datatype inline_shell_script = NotInline | InlineLiteral nat | InlineUntrusted | Unrecognized

definition dash_ambiguous :: "bool \<Rightarrow> inline_shell_script" where
  "dash_ambiguous saw_c = (if saw_c then InlineUntrusted else Unrecognized)"

definition finish_literal :: "bool \<Rightarrow> nat \<Rightarrow> inline_shell_script" where
  "finish_literal dynamic_head index = (if dynamic_head then InlineUntrusted else InlineLiteral index)"

definition no_script :: "bool \<Rightarrow> inline_shell_script" where
  "no_script unrecognized = (if unrecognized then Unrecognized else NotInline)"

fun dash_c_loop :: "bool \<Rightarrow> nat \<Rightarrow> bool \<Rightarrow> bool \<Rightarrow> shell_word list \<Rightarrow> inline_shell_script" where
  "dash_c_loop dyn i saw_c unrec [] = (if saw_c then InlineUntrusted else no_script unrec)"
| "dash_c_loop dyn i saw_c unrec (Untrusted # rest) = dash_ambiguous saw_c"
| "dash_c_loop dyn i saw_c unrec (Literal word # rest) =
     (if word = str ''--'' \<or> word = str ''-'' then
        (if \<not> saw_c then no_script unrec
         else case rest of Literal _ # _ \<Rightarrow> finish_literal dyn (i + 1) | _ \<Rightarrow> InlineUntrusted)
      else if \<not> starts_with (str ''-'') word \<and> \<not> starts_with (str ''+'') word then
        (if saw_c then finish_literal dyn i else no_script unrec)
      else if word = str ''--init-file'' \<or> word = str ''--rcfile'' then
        (case rest of Literal _ # r \<Rightarrow> dash_c_loop dyn (i + 2) saw_c unrec r | _ \<Rightarrow> dash_ambiguous saw_c)
      else if starts_with (str ''--'') word then
        (if word \<in> set (map str [''--noprofile'', ''--norc'', ''--posix'']) then dash_c_loop dyn (i + 1) saw_c unrec rest
         else if saw_c then InlineUntrusted
         else dash_c_loop dyn (i + 1) saw_c True rest)
      else if word \<in> set (map str [''-o'', ''+o'', ''-O'', ''+O'']) then
        (case rest of
           Literal v # r \<Rightarrow>
             (if \<not> starts_with (str ''-'') v then dash_c_loop dyn (i + 2) saw_c unrec r else dash_ambiguous saw_c)
         | _ \<Rightarrow> dash_ambiguous saw_c)
      else if starts_with (str ''-O'') word \<and> 2 < str_len word then dash_c_loop dyn (i + 1) saw_c unrec rest
      else if (starts_with (str ''+O'') word \<or> starts_with (str ''+o'') word) \<and> 2 < str_len word
        then dash_c_loop dyn (i + 1) saw_c unrec rest
      else if starts_with (str ''-o'') word \<and> 2 < str_len word then dash_ambiguous saw_c
      else if starts_with (str ''+'') word then dash_c_loop dyn (i + 1) saw_c unrec rest
      else
        let flags = drop 1 word in
        if ch CHR ''o'' \<in> set flags \<or> ch CHR ''O'' \<in> set flags then dash_ambiguous saw_c
        else dash_c_loop dyn (i + 1) (saw_c \<or> ch CHR ''c'' \<in> set flags) unrec rest)"

definition shell_dash_c_script :: "shell_word list \<Rightarrow> inline_shell_script" where
  "shell_dash_c_script words = (case words of
       [] \<Rightarrow> NotInline
     | Literal program # rest \<Rightarrow>
         (if base_name program \<notin> set (map str [''bash'', ''sh'', ''dash'', ''zsh'', ''ksh'']) then NotInline
          else dash_c_loop False 1 False False rest)
     | Untrusted # rest \<Rightarrow> dash_c_loop True 1 False False rest)"

definition is_potential_inline :: "inline_shell_script \<Rightarrow> bool" where
  "is_potential_inline s = (case s of InlineLiteral _ \<Rightarrow> True | InlineUntrusted \<Rightarrow> True | _ \<Rightarrow> False)"

definition EXEC_VEHICLE_HEADS :: "ustring list" where
  "EXEC_VEHICLE_HEADS = map str
     [''sh'', ''bash'', ''zsh'', ''dash'', ''ksh'', ''fish'',
      ''deno'', ''bun'', ''julia'', ''rscript'', ''awk'', ''gawk'', ''mawk'', ''nawk'', ''nodejs'', ''luajit'', ''phpdbg'',
      ''php-cgi'', ''pythonw'', ''npx'', ''bunx'', ''pipx'', ''uvx'', ''uv'',
      ''xargs'', ''find'', ''sudo'', ''doas'', ''su'', ''ssh'', ''watch'', ''setsid'', ''flock'', ''chroot'', ''nsenter'',
      ''docker'', ''podman'']"

definition EXEC_VEHICLE_HEAD_FAMILIES :: "ustring list" where
  "EXEC_VEHICLE_HEAD_FAMILIES = map str [''python'', ''node'', ''ruby'', ''perl'', ''php'', ''lua'']"

definition normalized_command_head :: "ustring list \<Rightarrow> ustring option" where
  "normalized_command_head words = (case words of
       [] \<Rightarrow> None
     | w # _ \<Rightarrow>
         (let head = map to_ascii_lower (base_name w) in
          Some (case strip_suffix (str ''.exe'') head of Some h \<Rightarrow> h | None \<Rightarrow> head)))"

definition head_is_exec_vehicle :: "ustring list \<Rightarrow> bool" where
  "head_is_exec_vehicle words = (case normalized_command_head words of
       None \<Rightarrow> False
     | Some head \<Rightarrow>
         head \<in> set EXEC_VEHICLE_HEADS
         \<or> list_ex (\<lambda>family. case strip_prefix family head of
               None \<Rightarrow> False
             | Some rest \<Rightarrow>
                 (let core = (case strip_suffix (str ''t'') rest of Some c \<Rightarrow> c | None \<Rightarrow> rest) in
                  list_all (\<lambda>c. is_ascii_digit c \<or> c = ch CHR ''.'') core))
             EXEC_VEHICLE_HEAD_FAMILIES)"

end
