(* ===== verification/Glob_Meet.thy ===== *)
theory Glob_Meet
  imports Prelude
begin

text \<open>
  The glob intersection test of \<^verbatim>\<open>fuigo-workspace/src/permission/policy.rs\<close>, with which a shell glob is
  checked against deny and ask rules: globs as step lists, the worklist search over pairs of positions,
  and its correctness against the language of the steps. \<open>char::to_lowercase\<close> is the argument \<open>lower\<close>.
\<close>

section \<open>Glob steps\<close>

datatype glob_chars = GLiteral nat | GNotSlash | GAny

record glob_step =
  gs_chars :: glob_chars
  gs_repeat :: bool

definition glob_chars_meet :: "(nat \<Rightarrow> ustring) \<Rightarrow> glob_chars \<Rightarrow> glob_chars \<Rightarrow> bool" where
  "glob_chars_meet lower a b = (case (a, b) of
       (GLiteral x, GLiteral y) \<Rightarrow> lower x = lower y
     | (GLiteral c, GNotSlash) \<Rightarrow> c \<noteq> ch CHR ''/''
     | (GNotSlash, GLiteral c) \<Rightarrow> c \<noteq> ch CHR ''/''
     | _ \<Rightarrow> True)"

text \<open>\<open>class_end\<close> is \<open>skip(1).position(']')\<close>: the characters up to and including the closing bracket.\<close>

definition class_end :: "ustring \<Rightarrow> nat option" where
  "class_end cs =
     (let r = drop 1 cs; n = length (takeWhile (\<lambda>c. c \<noteq> ch CHR '']'') r) in
      if n < length r then Some (n + 2) else None)"

definition glob_wild :: "bool \<Rightarrow> glob_chars" where
  "glob_wild shell = (if shell then GNotSlash else GAny)"

function glob_steps :: "bool \<Rightarrow> ustring \<Rightarrow> glob_step list" where
  "glob_steps shell [] = []"
| "glob_steps shell (c # cs) =
     (if c = ch CHR ''*'' then \<lparr>gs_chars = glob_wild shell, gs_repeat = True\<rparr> # glob_steps shell cs
      else if c = ch CHR ''?'' then \<lparr>gs_chars = glob_wild shell, gs_repeat = False\<rparr> # glob_steps shell cs
      else if c = ch CHR ''['' then
        (case class_end cs of
           Some n \<Rightarrow> \<lparr>gs_chars = glob_wild shell, gs_repeat = False\<rparr> # glob_steps shell (drop n cs)
         | None \<Rightarrow> \<lparr>gs_chars = GLiteral (ch CHR ''[''), gs_repeat = False\<rparr> # glob_steps shell cs)
      else \<lparr>gs_chars = GLiteral c, gs_repeat = False\<rparr> # glob_steps shell cs)"
  by pat_completeness auto
termination by (relation "measure (\<lambda>(_, s). length s)") auto


section \<open>The search\<close>

type_synonym pos = "nat \<times> nat"

text \<open>
  \<open>push_next\<close> is what one position pushes on the stack, top first. A wrong index into \<open>seen\<close> would
  panic: the value is then \<open>None\<close>.
\<close>

definition meet_next :: "glob_step list \<Rightarrow> glob_step list \<Rightarrow> pos \<Rightarrow> pos" where
  "meet_next a b ij = (case ij of (i, j) \<Rightarrow>
     (if gs_repeat (a ! i) then i else i + 1, if gs_repeat (b ! j) then j else j + 1))"

definition push_next :: "(nat \<Rightarrow> ustring) \<Rightarrow> glob_step list \<Rightarrow> glob_step list \<Rightarrow> pos \<Rightarrow> pos list" where
  "push_next lower a b ij = (case ij of (i, j) \<Rightarrow>
     (if i < length a \<and> j < length b \<and> glob_chars_meet lower (gs_chars (a ! i)) (gs_chars (b ! j))
         \<and> meet_next a b (i, j) \<noteq> (i, j) then [meet_next a b (i, j)] else [])
     @ (if j < length b \<and> gs_repeat (b ! j) then [(i, j + 1)] else [])
     @ (if i < length a \<and> gs_repeat (a ! i) then [(i + 1, j)] else []))"

function meet_loop ::
    "(nat \<Rightarrow> ustring) \<Rightarrow> glob_step list \<Rightarrow> glob_step list \<Rightarrow> bool list \<Rightarrow> pos list \<Rightarrow> bool option" where
  "meet_loop lower a b seen [] = Some False"
| "meet_loop lower a b seen ((i, j) # stack) =
     (let k = i * (length b + 1) + j in
      if length seen \<le> k then None
      else if seen ! k then meet_loop lower a b seen stack
      else if i = length a \<and> j = length b then Some True
      else meet_loop lower a b (seen[k := True]) (push_next lower a b (i, j) @ stack))"
  by pat_completeness auto
termination
proof (relation "measures [\<lambda>(_, _, _, seen, _). count_if Not seen, \<lambda>(_, _, _, _, stack). length stack]", goal_cases)
  case (3 lower a b seen i j stack k)
  then have "count_if Not (seen[k := True]) + 1 = count_if Not seen"
    using count_if_update[of k seen Not True] by simp
  then show ?case by simp
qed auto

definition glob_steps_intersect :: "(nat \<Rightarrow> ustring) \<Rightarrow> glob_step list \<Rightarrow> glob_step list \<Rightarrow> bool option" where
  "glob_steps_intersect lower a b =
     meet_loop lower a b (replicate ((length a + 1) * (length b + 1)) False) [(0, 0)]"

text \<open>\<open>rule.trim_end_matches('/')\<close>\<close>

definition trim_end_slashes :: "ustring \<Rightarrow> ustring" where
  "trim_end_slashes s = rev (dropWhile (\<lambda>c. c = ch CHR ''/'') (rev s))"

text \<open>
  The byte at index 1 is a colon just when the first character is one byte and the second is a colon.
\<close>

definition loosened_rules :: "ustring \<Rightarrow> ustring list" where
  "loosened_rules rule =
     [rule]
     @ (if starts_with (str ''~'') rule then [str ''**'' @ drop 1 rule]
        else if \<not> starts_with (str ''/'') rule
             \<and> \<not> (1 < length rule \<and> hd rule < 0x80 \<and> rule ! 1 = ch CHR '':'') then [str ''**/'' @ rule]
        else [])
     @ [trim_end_slashes rule @ str ''/**'']"

definition glob_patterns_may_intersect :: "(nat \<Rightarrow> ustring) \<Rightarrow> ustring \<Rightarrow> ustring \<Rightarrow> bool" where
  "glob_patterns_may_intersect lower shell rule \<longleftrightarrow>
     list_ex (\<lambda>r. glob_steps_intersect lower (glob_steps True shell) (glob_steps False r) = Some True)
       (loosened_rules rule)"


section \<open>The language of a step list\<close>

definition char_in :: "(nat \<Rightarrow> ustring) \<Rightarrow> glob_chars \<Rightarrow> nat \<Rightarrow> bool" where
  "char_in lower g c = (case g of GLiteral x \<Rightarrow> lower c = lower x | GNotSlash \<Rightarrow> c \<noteq> ch CHR ''/'' | GAny \<Rightarrow> True)"

fun accepts :: "(nat \<Rightarrow> ustring) \<Rightarrow> glob_step list \<Rightarrow> ustring \<Rightarrow> bool" where
  "accepts lower [] s = (s = [])"
| "accepts lower (g # gs) [] = (gs_repeat g \<and> accepts lower gs [])"
| "accepts lower (g # gs) (c # s) =
     (if gs_repeat g then accepts lower gs (c # s) \<or> char_in lower (gs_chars g) c \<and> accepts lower (g # gs) s
      else char_in lower (gs_chars g) c \<and> accepts lower gs s)"

definition slash_caseless :: "(nat \<Rightarrow> ustring) \<Rightarrow> bool" where
  "slash_caseless lower \<longleftrightarrow> (\<forall>c. lower c = lower (ch CHR ''/'') \<longrightarrow> c = ch CHR ''/'')"

lemma chars_meet_iff:
  assumes "slash_caseless lower"
  shows "glob_chars_meet lower a b \<longleftrightarrow> (\<exists>c. char_in lower a c \<and> char_in lower b c)"
proof (cases a; cases b)
  fix x y assume "a = GLiteral x" "b = GLiteral y"
  then show ?thesis by (auto simp: glob_chars_meet_def char_in_def)
next
  fix x assume "a = GLiteral x" "b = GNotSlash"
  then show ?thesis using assms by (auto simp: glob_chars_meet_def char_in_def slash_caseless_def)
next
  fix x assume "a = GNotSlash" "b = GLiteral x"
  then show ?thesis using assms by (auto simp: glob_chars_meet_def char_in_def slash_caseless_def)
qed (auto simp: glob_chars_meet_def char_in_def intro: exI[of _ "0 :: nat"])

section \<open>Reachability decides intersection\<close>

definition meet_step :: "(nat \<Rightarrow> ustring) \<Rightarrow> glob_step list \<Rightarrow> glob_step list \<Rightarrow> pos \<Rightarrow> pos \<Rightarrow> bool" where
  "meet_step lower a b p q \<longleftrightarrow> q \<in> set (push_next lower a b p)"

definition common :: "(nat \<Rightarrow> ustring) \<Rightarrow> glob_step list \<Rightarrow> glob_step list \<Rightarrow> pos \<Rightarrow> ustring \<Rightarrow> bool" where
  "common lower a b p s \<longleftrightarrow> accepts lower (drop (fst p) a) s \<and> accepts lower (drop (snd p) b) s"

lemma accepts_skip:
  "i < length a \<Longrightarrow> gs_repeat (a ! i) \<Longrightarrow> accepts lower (drop (i + 1) a) s \<Longrightarrow> accepts lower (drop i a) s"
  by (cases s) (simp_all add: Cons_nth_drop_Suc[symmetric])

lemma accepts_take:
  assumes "i < length a" "char_in lower (gs_chars (a ! i)) c"
    and "accepts lower (drop (if gs_repeat (a ! i) then i else i + 1) a) s"
  shows "accepts lower (drop i a) (c # s)"
  using assms by (simp add: Cons_nth_drop_Suc[symmetric] split: if_splits)

lemma accepts_inv:
  assumes "accepts lower (drop i a) s" "i \<le> length a"
  obtains (finish) "i = length a" "s = []"
    | (skip) "i < length a" "gs_repeat (a ! i)" "accepts lower (drop (i + 1) a) s"
    | (eat) c s' where "i < length a" "s = c # s'" "char_in lower (gs_chars (a ! i)) c"
        "accepts lower (drop (if gs_repeat (a ! i) then i else i + 1) a) s'"
proof (cases "i = length a")
  case True
  then show ?thesis using assms finish by simp
next
  case False
  then have i: "i < length a" using assms(2) by simp
  then have d: "drop i a = a ! i # drop (Suc i) a" by (simp add: Cons_nth_drop_Suc)
  show ?thesis
    using assms(1) i skip eat by (cases s) (auto simp: d split: if_splits)
qed

lemma step_common:
  assumes "meet_step lower a b p q" "common lower a b q s" "slash_caseless lower"
  shows "\<exists>s'. common lower a b p s'"
proof -
  obtain i j where p: "p = (i, j)" by (cases p)
  consider (both) "q = meet_next a b (i, j)" "i < length a" "j < length b"
      "glob_chars_meet lower (gs_chars (a ! i)) (gs_chars (b ! j))"
    | (right) "q = (i, j + 1)" "j < length b" "gs_repeat (b ! j)"
    | (left) "q = (i + 1, j)" "i < length a" "gs_repeat (a ! i)"
    using assms(1) unfolding meet_step_def push_next_def p by (auto split: if_splits)
  then show ?thesis
  proof cases
    case both
    then obtain c where c: "char_in lower (gs_chars (a ! i)) c" "char_in lower (gs_chars (b ! j)) c"
      using chars_meet_iff[OF assms(3)] by blast
    have "common lower a b p (c # s)"
      using assms(2) accepts_take[OF both(2) c(1)] accepts_take[OF both(3) c(2)]
      by (simp add: common_def p both(1) meet_next_def)
    then show ?thesis ..
  next
    case right
    then show ?thesis using assms(2) accepts_skip[of j b] by (auto simp: common_def p)
  next
    case left
    then show ?thesis using assms(2) accepts_skip[of i a] by (auto simp: common_def p)
  qed
qed

abbreviation reach :: "(nat \<Rightarrow> ustring) \<Rightarrow> glob_step list \<Rightarrow> glob_step list \<Rightarrow> pos \<Rightarrow> pos \<Rightarrow> bool" where
  "reach lower a b \<equiv> (meet_step lower a b)\<^sup>*\<^sup>*"

lemma reach_common:
  assumes "reach lower a b p (length a, length b)" "slash_caseless lower"
  shows "\<exists>s. common lower a b p s"
  using assms(1)
proof (induction rule: converse_rtranclp_induct)
  case base
  then show ?case by (auto simp: common_def)
next
  case (step p q)
  then show ?case using step_common assms(2) by blast
qed

lemma meet_step_left: "i < length a \<Longrightarrow> gs_repeat (a ! i) \<Longrightarrow> meet_step lower a b (i, j) (i + 1, j)"
  and meet_step_right: "j < length b \<Longrightarrow> gs_repeat (b ! j) \<Longrightarrow> meet_step lower a b (i, j) (i, j + 1)"
  by (simp_all add: meet_step_def push_next_def)

lemma meet_step_both:
  "i < length a \<Longrightarrow> j < length b \<Longrightarrow> glob_chars_meet lower (gs_chars (a ! i)) (gs_chars (b ! j)) \<Longrightarrow>
     meet_next a b (i, j) = (i, j) \<or> meet_step lower a b (i, j) (meet_next a b (i, j))"
  by (simp add: meet_step_def push_next_def)

lemma common_reach:
  assumes "common lower a b (i, j) s" "i \<le> length a" "j \<le> length b" "slash_caseless lower"
  shows "reach lower a b (i, j) (length a, length b)"
  using assms(1-3)
proof (induction "length s + (length a - i) + (length b - j)" arbitrary: s i j rule: less_induct)
  case less
  have A: "accepts lower (drop i a) s" and B: "accepts lower (drop j b) s"
    using less.prems(1) by (simp_all add: common_def)
  have go: "reach lower a b (i, j) (length a, length b)"
    if "q = (i', j')" "q = (i, j) \<or> meet_step lower a b (i, j) q" "common lower a b q s'" "i' \<le> length a" "j' \<le> length b"
      "length s' + (length a - i') + (length b - j') < length s + (length a - i) + (length b - j)" for q i' j' s'
    using less.hyps[of s' i' j'] that by (auto intro: converse_rtranclp_into_rtranclp)
  have skip_left: ?case if "i < length a" "gs_repeat (a ! i)" "accepts lower (drop (i + 1) a) s"
    using go[of "(i + 1, j)" "i + 1" j s] that less.prems(3) B meet_step_left by (simp add: common_def)
  have skip_right: ?case if "j < length b" "gs_repeat (b ! j)" "accepts lower (drop (j + 1) b) s"
    using go[of "(i, j + 1)" i "j + 1" s] that less.prems(2) A meet_step_right by (simp add: common_def)
  from A less.prems(2) show ?case
  proof (cases rule: accepts_inv)
    case fa: finish
    from B less.prems(3) show ?thesis
      by (cases rule: accepts_inv) (use fa skip_right in auto)
  next
    case ea: (eat c s')
    from B less.prems(3) show ?thesis
    proof (cases rule: accepts_inv)
      case (eat d t)
      have "glob_chars_meet lower (gs_chars (a ! i)) (gs_chars (b ! j))"
        using chars_meet_iff[OF assms(4)] ea eat by auto
      then have "meet_next a b (i, j) = (i, j) \<or> meet_step lower a b (i, j) (meet_next a b (i, j))"
        using meet_step_both ea(1) eat(1) by blast
      moreover have "common lower a b (meet_next a b (i, j)) s'"
        using ea eat by (simp add: common_def meet_next_def)
      moreover obtain i' j' where q: "meet_next a b (i, j) = (i', j')" "i \<le> i'" "i' \<le> length a" "j \<le> j'" "j' \<le> length b"
        using ea(1) eat(1) by (auto simp: meet_next_def)
      ultimately show ?thesis
        using go[of "meet_next a b (i, j)" i' j' s'] ea(2) by simp
    qed (use ea skip_right in auto)
  qed (rule skip_left)
qed

section \<open>The search finds what is reachable\<close>

definition in_range :: "glob_step list \<Rightarrow> glob_step list \<Rightarrow> pos \<Rightarrow> bool" where
  "in_range a b p \<longleftrightarrow> fst p \<le> length a \<and> snd p \<le> length b"

definition pos_index :: "glob_step list \<Rightarrow> pos \<Rightarrow> nat" where
  "pos_index b p = fst p * (length b + 1) + snd p"

lemma pos_index_inj:
  assumes "in_range a b p" "in_range a b q" "pos_index b p = pos_index b q"
  shows "p = q"
proof -
  have "fst p = pos_index b p div (length b + 1)" "snd p = pos_index b p mod (length b + 1)"
    "fst q = pos_index b q div (length b + 1)" "snd q = pos_index b q mod (length b + 1)"
    using assms(1,2) by (simp_all add: pos_index_def in_range_def del: add_Suc_right mult_Suc_right)
  then show ?thesis using assms(3) by (metis prod.collapse)
qed

lemma pos_index_less: "in_range a b p \<Longrightarrow> pos_index b p < (length a + 1) * (length b + 1)"
proof -
  assume r: "in_range a b p"
  have "pos_index b p < (fst p + 1) * (length b + 1)" using r by (simp add: pos_index_def in_range_def)
  also have "\<dots> \<le> (length a + 1) * (length b + 1)" using r by (intro mult_right_mono) (simp_all add: in_range_def)
  finally show ?thesis .
qed

lemma meet_step_range: "in_range a b p \<Longrightarrow> meet_step lower a b p q \<Longrightarrow> in_range a b q"
  by (cases p) (auto simp: meet_step_def push_next_def meet_next_def in_range_def split: if_splits)

definition visited :: "glob_step list \<Rightarrow> glob_step list \<Rightarrow> bool list \<Rightarrow> pos \<Rightarrow> bool" where
  "visited a b seen p \<longleftrightarrow> in_range a b p \<and> seen ! pos_index b p"

text \<open>The state of the search, with the start position visited or waiting.\<close>

definition search_inv :: "(nat \<Rightarrow> ustring) \<Rightarrow> glob_step list \<Rightarrow> glob_step list \<Rightarrow> bool list \<Rightarrow> pos list \<Rightarrow> bool" where
  "search_inv lower a b seen stack \<longleftrightarrow>
     length seen = (length a + 1) * (length b + 1)
     \<and> (\<forall>p \<in> set stack. in_range a b p \<and> reach lower a b (0, 0) p)
     \<and> (\<forall>p. visited a b seen p \<longrightarrow> p \<noteq> (length a, length b)
          \<and> (\<forall>q. meet_step lower a b p q \<longrightarrow> visited a b seen q \<or> q \<in> set stack))
     \<and> (visited a b seen (0, 0) \<or> (0, 0) \<in> set stack)"

lemma search_invD:
  assumes "search_inv lower a b seen stack"
  shows "length seen = (length a + 1) * (length b + 1)"
    and "p \<in> set stack \<Longrightarrow> in_range a b p \<and> reach lower a b (0, 0) p"
    and "visited a b seen p \<Longrightarrow> p \<noteq> (length a, length b)"
    and "visited a b seen p \<Longrightarrow> meet_step lower a b p q \<Longrightarrow> visited a b seen q \<or> q \<in> set stack"
    and "visited a b seen (0, 0) \<or> (0, 0) \<in> set stack"
  using assms unfolding search_inv_def by blast+

lemma visited_update:
  assumes "length seen = (length a + 1) * (length b + 1)" "in_range a b p"
  shows "visited a b (seen[pos_index b p := True]) q \<longleftrightarrow> visited a b seen q \<or> q = p"
proof (cases "q = p")
  case True
  then show ?thesis using assms pos_index_less[OF assms(2)] by (simp add: visited_def)
next
  case False
  then have "pos_index b q \<noteq> pos_index b p" if "in_range a b q"
    using that assms(2) pos_index_inj by metis
  then show ?thesis using False by (auto simp: visited_def)
qed

lemma search_exhausted:
  assumes "search_inv lower a b seen []"
  shows "\<not> reach lower a b (0, 0) (length a, length b)"
proof
  assume "reach lower a b (0, 0) (length a, length b)"
  moreover have "visited a b seen p" if "reach lower a b (0, 0) p" for p
    using that
  proof (induction rule: rtranclp_induct)
    case base
    then show ?case using search_invD(5)[OF assms] by simp
  next
    case (step p q)
    then show ?case using search_invD(4)[OF assms] by fastforce
  qed
  ultimately show False using search_invD(3)[OF assms] by blast
qed

lemma search_drop:
  assumes "search_inv lower a b seen (p # stack)" "visited a b seen p"
  shows "search_inv lower a b seen stack"
  unfolding search_inv_def
proof (intro conjI allI impI ballI)
  show "length seen = (length a + 1) * (length b + 1)" by (rule search_invD(1)[OF assms(1)])
  show "visited a b seen (0, 0) \<or> (0, 0) \<in> set stack" using search_invD(5)[OF assms(1)] assms(2) by auto
next
  fix q assume "q \<in> set stack"
  then show "in_range a b q" "reach lower a b (0, 0) q" using search_invD(2)[OF assms(1)] by simp_all
next
  fix q assume v: "visited a b seen q"
  then show "q \<noteq> (length a, length b)" using search_invD(3)[OF assms(1)] by blast
  fix r assume "meet_step lower a b q r"
  from search_invD(4)[OF assms(1) v this] assms(2) show "visited a b seen r \<or> r \<in> set stack" by auto
qed

lemma search_expand:
  assumes "search_inv lower a b seen (p # stack)" "p \<noteq> (length a, length b)"
  shows "search_inv lower a b (seen[pos_index b p := True]) (push_next lower a b p @ stack)"
proof -
  note inv = search_invD[OF assms(1)]
  have p: "in_range a b p" "reach lower a b (0, 0) p" using inv(2) by simp_all
  note upd = visited_update[OF inv(1) p(1)]
  have push: "q \<in> set (push_next lower a b p) \<longleftrightarrow> meet_step lower a b p q" for q by (simp add: meet_step_def)
  have new: "in_range a b q \<and> reach lower a b (0, 0) q" if "meet_step lower a b p q" for q
    using that p meet_step_range rtranclp.rtrancl_into_rtrancl by metis
  show ?thesis unfolding search_inv_def upd set_append Un_iff push
  proof (intro conjI allI impI ballI)
    show "length (seen[pos_index b p := True]) = (length a + 1) * (length b + 1)" using inv(1) by simp
    show "(visited a b seen (0, 0) \<or> (0, 0) = p) \<or> meet_step lower a b p (0, 0) \<or> (0, 0) \<in> set stack"
      using inv(5) by auto
  next
    fix q assume "q \<in> set (push_next lower a b p) \<union> set stack"
    then show "in_range a b q" "reach lower a b (0, 0) q"
      using new[of q] inv(2)[of q] by (simp_all add: push) blast+
  next
    fix q assume v: "visited a b seen q \<or> q = p"
    then show "q \<noteq> (length a, length b)" using inv(3) assms(2) by blast
    fix r assume s: "meet_step lower a b q r"
    show "(visited a b seen r \<or> r = p) \<or> meet_step lower a b p r \<or> r \<in> set stack"
      using v inv(4)[OF _ s] s by auto
  qed
qed

lemma meet_loop_correct:
  "search_inv lower a b seen stack \<Longrightarrow>
     meet_loop lower a b seen stack = Some (reach lower a b (0, 0) (length a, length b))"
proof (induction lower a b seen stack rule: meet_loop.induct)
  case (1 lower a b seen)
  then show ?case using search_exhausted by simp
next
  case (2 lower a b seen i j stack)
  let ?k = "i * (length b + 1) + j"
  have k: "pos_index b (i, j) = ?k" by (simp add: pos_index_def)
  have r: "in_range a b (i, j)" "length seen = (length a + 1) * (length b + 1)" "reach lower a b (0, 0) (i, j)"
    using 2(3) by (auto simp: search_inv_def)
  have lt: "\<not> length seen \<le> ?k" using pos_index_less[OF r(1)] r(2) k by simp
  consider "seen ! ?k" | "\<not> seen ! ?k" "i = length a \<and> j = length b" | "\<not> seen ! ?k" "\<not> (i = length a \<and> j = length b)"
    by blast
  then show ?case
  proof cases
    case 1
    then have "visited a b seen (i, j)" using r(1) k by (simp add: visited_def)
    then show ?thesis using 2(1)[OF refl lt 1] search_drop[OF 2(3)] lt 1 by simp
  next
    case fin: 2
    then show ?thesis using lt r(3) by simp
  next
    case 3
    have "search_inv lower a b (seen[?k := True]) (push_next lower a b (i, j) @ stack)"
      using search_expand[OF 2(3)] 3(2) k by simp
    then show ?thesis using 2(2)[OF refl lt 3] lt 3 unfolding meet_loop.simps Let_def by (simp only: if_False)
  qed
qed

lemma search_start: "search_inv lower a b (replicate ((length a + 1) * (length b + 1)) False) [(0, 0)]"
proof -
  have "\<not> visited a b (replicate ((length a + 1) * (length b + 1)) False) p" for p
    using pos_index_less[of a b p] unfolding visited_def by (metis nth_replicate)
  then show ?thesis unfolding search_inv_def by (simp add: in_range_def)
qed

lemma reach_iff_common:
  "slash_caseless lower \<Longrightarrow>
     reach lower a b (0, 0) (length a, length b) \<longleftrightarrow> (\<exists>s. accepts lower a s \<and> accepts lower b s)"
  using reach_common[of lower a b "(0, 0)"] common_reach[of lower a b 0 0] by (simp add: common_def) blast

lemma intersect_reach: "glob_steps_intersect lower a b = Some (reach lower a b (0, 0) (length a, length b))"
  unfolding glob_steps_intersect_def by (rule meet_loop_correct[OF search_start])

section \<open>Properties\<close>

text \<open>
  C36: The glob intersection test is exact. The search over pairs of positions always ends, never indexes
  its visited table out of range, and answers yes just when some text is accepted by both step lists
  (letters compared by their lower-case form, of which only the slash's uniqueness is assumed).
\<close>

theorem glob_intersection_exact:
  fixes lower :: "nat \<Rightarrow> ustring" and a b :: "glob_step list"
  assumes "slash_caseless lower"
  shows "glob_steps_intersect lower a b = Some (\<exists>s. accepts lower a s \<and> accepts lower b s)"
  by (simp add: intersect_reach reach_iff_common[OF assms])

theorem glob_intersection_exact_witness:
  "glob_steps_intersect (\<lambda>c. [to_ascii_lower c]) (glob_steps True (str ''/w/*'')) (glob_steps False (str ''**/.env'')) =
     Some (\<exists>s. accepts (\<lambda>c. [to_ascii_lower c]) (glob_steps True (str ''/w/*'')) s
             \<and> accepts (\<lambda>c. [to_ascii_lower c]) (glob_steps False (str ''**/.env'')) s)"
  by (rule glob_intersection_exact) (auto simp: slash_caseless_def to_ascii_lower_def is_ascii_upper_def)

lemma may_intersect_iff:
  assumes "slash_caseless lower"
  shows "glob_patterns_may_intersect lower shell rule \<longleftrightarrow>
    (\<exists>r \<in> set (loosened_rules rule). \<exists>s. accepts lower (glob_steps True shell) s \<and> accepts lower (glob_steps False r) s)"
  by (simp add: glob_patterns_may_intersect_def list_ex_iff intersect_reach reach_iff_common[OF assms])

end
