(* ===== verification/Shell_Words_Props.thy ===== *)
theory Shell_Words_Props
  imports Shell_Words "HOL-Library.Sublist"
begin

text \<open>
  What the peelers guarantee: every peel drops a non-empty prefix, so the normalized words are a suffix
  of the command; without a fail-closed flag they are the end of the layer-by-layer peel; an inline
  script index is in range and follows a \<open>-c\<close>.
\<close>

section \<open>Each peel drops a prefix\<close>

lemma env_step_start:
  "env_step i tok rest s = Inl r \<Longrightarrow> i \<le> es_command_start r"
  unfolding env_step_def env_long_step_def env_short_step_def take_option_operand_def
    es_at_def es_split_def es_uncertain_def
  by (auto split: if_splits option.splits env_short.splits)

lemma env_loop_start: "i \<le> es_command_start (env_loop i toks s)"
proof (induction i toks s rule: env_loop.induct)
  case (2 i tok rest s)
  show ?case
  proof (cases "env_step i tok rest s")
    case (Inl r)
    then show ?thesis using env_step_start by simp
  next
    case (Inr ks)
    obtain k s' where ks: "ks = (k, s')" by (cases ks)
    show ?thesis using 2[OF Inr ks[symmetric]] Inr ks by simp
  qed
qed (simp add: es_at_def)

lemma options_end_start: "options_end flags valued i rest = Some j \<Longrightarrow> i \<le> j"
  by (induction flags valued i rest rule: options_end.induct)
    (auto split: if_splits list.splits simp del: One_nat_def)

lemma wrapper_inner_start_pos:
  assumes "wrapper_inner_start cmd = Some i"
  shows "1 \<le> i"
proof -
  have opts: "1 \<le> j" if "wrapper_options_end cmd fs vs = Some j" for fs vs j
    using that options_end_start unfolding wrapper_options_end_def by blast
  have scan: "1 \<le> es_command_start (env_scan cmd)" unfolding env_scan_def by (rule env_loop_start)
  show ?thesis using assms scan unfolding wrapper_inner_start_def Let_def
    by (auto split: option.splits if_splits dest: opts)
qed

lemma strip_wrapper_suffix:
  assumes "strip_wrapper_command cmd = Some inner"
  shows "strict_suffix inner cmd" "inner \<noteq> []"
proof -
  obtain i where i: "wrapper_inner_start cmd = Some i" "i < length cmd" "inner = drop i cmd"
    using assms by (auto simp: strip_wrapper_command_def split: option.splits if_splits)
  have "suffix inner cmd" "length inner < length cmd"
    using i wrapper_inner_start_pos[OF i(1)] suffix_drop[of i cmd] by auto
  then show "strict_suffix inner cmd" by (auto simp: strict_suffix_def)
  show "inner \<noteq> []" using i by simp
qed

lemma peeled_or_not_Peeled [simp]: "peeled_or_not ws = Peeled inner \<longleftrightarrow> inner = ws \<and> ws \<noteq> []"
  by (auto simp: peeled_or_not_def)

lemma exec_loop_Peeled: "exec_loop ws = Peeled inner \<Longrightarrow> suffix inner ws \<and> inner \<noteq> []"
  by (induction ws rule: exec_loop.induct)
    (auto split: if_splits list.splits intro: suffix_ConsI simp del: list.map set_simps)

lemma command_loop_Peeled: "command_loop ws = Peeled inner \<Longrightarrow> suffix inner ws \<and> inner \<noteq> []"
  by (induction ws rule: command_loop.induct)
    (auto split: if_splits intro: suffix_ConsI simp del: list.map set_simps)

lemma strip_transparent_suffix:
  assumes "strip_transparent_prefix cmd = Peeled inner"
  shows "strict_suffix inner cmd" "inner \<noteq> []"
proof -
  obtain h rest where cmd: "cmd = h # rest"
    using assms by (cases cmd) (auto simp: strip_transparent_prefix_def)
  have "exec_loop rest = Peeled inner \<or> command_loop rest = Peeled inner \<or> rest = inner \<and> rest \<noteq> []"
    using assms
    by (cases rest) (simp_all add: strip_transparent_prefix_def cmd strip_exec_prefix_def strip_command_prefix_def
        strip_builtin_prefix_def split: if_split_asm del: exec_loop.simps command_loop.simps)
  then have "suffix inner rest \<and> inner \<noteq> []"
    using exec_loop_Peeled command_loop_Peeled by blast
  then show "strict_suffix inner cmd" "inner \<noteq> []"
    using cmd by (auto simp: strict_suffix_def suffix_Cons dest: suffix_length_le)
qed

lemma peel_one_suffix:
  "peel_one_wrapper_layer cmd = Some inner \<Longrightarrow> strict_suffix inner cmd \<and> inner \<noteq> []"
  unfolding peel_one_wrapper_layer_def
  by (auto split: option.splits transparent_strip.splits if_splits dest: strip_wrapper_suffix strip_transparent_suffix)

lemma peel_one_shorter: "peel_one_wrapper_layer cmd = Some inner \<Longrightarrow> length inner < length cmd"
  using peel_one_suffix[of cmd inner] by (auto simp: strict_suffix_def suffix_def)

section \<open>Reference: peel one layer at a time\<close>

function peel_chain :: "ustring list \<Rightarrow> ustring list list" where
  "peel_chain cmd = cmd # (case peel_one_wrapper_layer cmd of None \<Rightarrow> [] | Some inner \<Rightarrow> peel_chain inner)"
  by pat_completeness auto
termination by (relation "measure length") (auto dest: peel_one_shorter)

declare peel_chain.simps [simp del]

definition peel_all :: "ustring list \<Rightarrow> ustring list" where
  "peel_all cmd = last (peel_chain cmd)"

lemma peel_chain_nonempty [simp]: "peel_chain cmd \<noteq> []"
  by (subst peel_chain.simps) simp

lemma peel_all_Some: "peel_one_wrapper_layer cmd = Some inner \<Longrightarrow> peel_all cmd = peel_all inner"
  by (simp add: peel_all_def peel_chain.simps[of cmd])

lemma peel_all_None: "peel_one_wrapper_layer cmd = None \<Longrightarrow> peel_all cmd = cmd"
  by (simp add: peel_all_def peel_chain.simps[of cmd])

lemma strip_transparent_head:
  assumes "strip_transparent_prefix cmd \<noteq> NotPrefix"
  shows "head_name cmd \<in> Some ` str ` {''exec'', ''command'', ''builtin''}"
  using assms by (cases cmd) (auto simp: strip_transparent_prefix_def head_name_def split: if_splits)

lemma not_wrapper_start:
  assumes "\<not> is_wrapper_command cmd"
  shows "strip_wrapper_command cmd = None"
  using assms unfolding strip_wrapper_command_def wrapper_inner_start_def is_wrapper_command_def wrapper_names_def
  by (auto split: option.splits)

lemma transparent_not_wrapper:
  assumes "strip_transparent_prefix cmd \<noteq> NotPrefix"
  shows "strip_wrapper_command cmd = None"
proof (rule not_wrapper_start)
  show "\<not> is_wrapper_command cmd"
    using strip_transparent_head[OF assms]
    by (auto simp: is_wrapper_command_def wrapper_names_def str_def)
qed

lemma strip_wrapper_peel_all: "strip_wrapper_command cmd = Some inner \<Longrightarrow> peel_all cmd = peel_all inner"
  by (intro peel_all_Some) (simp add: peel_one_wrapper_layer_def)

lemma strip_transparent_peel_all:
  "strip_transparent_prefix cmd = Peeled inner \<Longrightarrow> peel_all cmd = peel_all inner"
  by (intro peel_all_Some)
    (simp add: peel_one_wrapper_layer_def transparent_not_wrapper strip_transparent_suffix(2))

text \<open>\<open>reduces v w\<close>: peeling has led from \<open>v\<close> to \<open>w\<close>.\<close>

definition reduces :: "ustring list \<Rightarrow> ustring list \<Rightarrow> bool" where
  "reduces v w \<longleftrightarrow> suffix w v \<and> peel_all v = peel_all w \<and> (v \<noteq> [] \<longrightarrow> w \<noteq> [])"

lemma reduces_refl [simp]: "reduces v v"
  by (simp add: reduces_def)

lemma reduces_trans: "reduces u v \<Longrightarrow> reduces v w \<Longrightarrow> reduces u w"
  by (auto simp: reduces_def dest: suffix_order.trans)

lemma reduces_wrapper: "strip_wrapper_command v = Some w \<Longrightarrow> reduces v w"
  using strip_wrapper_suffix[of v w] strip_wrapper_peel_all[of v w] by (simp add: reduces_def strict_suffix_def)

lemma reduces_transparent: "strip_transparent_prefix v = Peeled w \<Longrightarrow> reduces v w"
  using strip_transparent_suffix[of v w] strip_transparent_peel_all[of v w] by (simp add: reduces_def strict_suffix_def)

lemma scan_env_layer_words [simp]: "cw_words (scan_env_layer p) = cw_words p"
  by (simp add: scan_env_layer_def Let_def)

lemma unwrap_loop_reduces: "reduces (cw_words p) (cw_words (unwrap_loop n p))"
proof (induction n p rule: unwrap_loop.induct)
  case (2 n p)
  show ?case
  proof (cases "strip_wrapper_command (cw_words p)")
    case (Some inner)
    then show ?thesis
      using 2[OF refl, of inner] reduces_trans[OF reduces_wrapper[OF Some]] by simp
  qed simp
qed simp

lemma peel_loop_reduces: "peel_loop n v = Ready w \<Longrightarrow> reduces v w"
proof (induction n v rule: peel_loop.induct)
  case (2 n v)
  then show ?case
    by (auto split: transparent_strip.splits intro: reduces_trans dest: reduces_transparent)
qed (auto split: transparent_strip.splits)

lemma normalize_loop_reduces: "reduces (nc_words s) (nc_words (normalize_loop n s))"
proof (induction n arbitrary: s)
  case (Suc n)
  let ?t = "absorb_peel (unwrap_wrappers_checked (nc_words s)) s"
  have t: "reduces (nc_words s) (nc_words ?t)"
    using unwrap_loop_reduces[of "\<lparr>cw_words = nc_words s, cw_has_chdir = False, cw_has_split_string = False,
        cw_env_options_uncertain = False, cw_exhausted = False\<rparr>" MAX_WRAPPER_DEPTH]
    by (simp add: absorb_peel_def unwrap_wrappers_checked_def)
  show ?case
  proof (cases "nc_has_split_string ?t \<or> nc_env_options_uncertain ?t")
    case False
    show ?thesis
    proof (cases "peel_transparent_prefixes (nc_words ?t)")
      case (Ready inner)
      then have u: "reduces (nc_words s) (nc_words (?t\<lparr>nc_words := inner\<rparr>))"
        using reduces_trans[OF t] peel_loop_reduces unfolding peel_transparent_prefixes_def by simp
      show ?thesis
      proof (cases "length inner = length (nc_words s)")
        case True
        then show ?thesis using u False Ready by (simp add: Let_def)
      next
        case neq: False
        have "nc_words (normalize_loop (Suc n) s) = nc_words (normalize_loop n (?t\<lparr>nc_words := inner\<rparr>))"
          using neq False Ready by (simp add: Let_def)
        then show ?thesis using reduces_trans[OF u Suc.IH] by metis
      qed
    qed (use t False in \<open>simp add: Let_def\<close>)
  qed (use t in \<open>simp add: Let_def\<close>)
qed simp

lemma normalize_reduces: "reduces words (nc_words (normalize_command_words words))"
proof -
  have fin: "nc_words (finish_normalize s) = nc_words s" for s
    by (simp add: finish_normalize_def Let_def)
  show ?thesis unfolding normalize_command_words_def fin
    using normalize_loop_reduces[of "\<lparr>nc_words = words, nc_has_chdir = False, nc_has_split_string = False,
        nc_env_options_uncertain = False, nc_exhausted = False, nc_ambiguous = False\<rparr>"] by simp
qed

definition peel_trusted :: "normalized_command_peel \<Rightarrow> bool" where
  "peel_trusted n \<longleftrightarrow>
     \<not> nc_exhausted n \<and> \<not> nc_ambiguous n \<and> \<not> nc_has_split_string n \<and> \<not> nc_env_options_uncertain n"

lemma finish_trusted:
  assumes "peel_trusted (finish_normalize s)"
  shows "peel_one_wrapper_layer (nc_words (finish_normalize s)) = None"
    and "strip_transparent_prefix (nc_words (finish_normalize s)) = NotPrefix"
    and "is_wrapper_command (nc_words (finish_normalize s)) \<Longrightarrow>
           length (nc_words (finish_normalize s)) \<le> 1 \<or> head_name (nc_words (finish_normalize s)) = Some (str ''env'')"
proof -
  have f: "\<not> nc_ambiguous s" "\<not> nc_has_split_string s" "\<not> nc_env_options_uncertain s"
    using assms by (auto simp: peel_trusted_def finish_normalize_def Let_def split: if_splits)
  let ?c = "nc_words s"
  have c: "nc_words (finish_normalize s) = ?c" by (simp add: finish_normalize_def Let_def)
  have w: "\<not> is_wrapper_command ?c \<or> strip_wrapper_command ?c = None"
    and u: "is_wrapper_command ?c \<Longrightarrow> length ?c \<le> 1 \<or> strip_wrapper_command ?c \<noteq> None \<or> head_name ?c = Some (str ''env'')"
    and t: "strip_transparent_prefix ?c = NotPrefix"
    using assms f by (auto simp: peel_trusted_def finish_normalize_def Let_def)
  have none: "strip_wrapper_command ?c = None" using w not_wrapper_start by blast
  show "peel_one_wrapper_layer (nc_words (finish_normalize s)) = None"
    using none t by (simp add: peel_one_wrapper_layer_def c)
  show "strip_transparent_prefix (nc_words (finish_normalize s)) = NotPrefix" using t by (simp add: c)
  show "length (nc_words (finish_normalize s)) \<le> 1 \<or> head_name (nc_words (finish_normalize s)) = Some (str ''env'')"
    if "is_wrapper_command (nc_words (finish_normalize s))"
    using u none that by (simp add: c)
qed

lemma trusted_peel_all:
  assumes "peel_trusted (normalize_command_words words)"
  shows "nc_words (normalize_command_words words) = peel_all words"
proof -
  have "peel_one_wrapper_layer (nc_words (normalize_command_words words)) = None"
    using assms finish_trusted(1) unfolding normalize_command_words_def by blast
  then show ?thesis using normalize_reduces[of words] peel_all_None by (simp add: reduces_def)
qed

section \<open>Properties\<close>

text \<open>
  No program hides behind a wrapper. The normalized words are always a suffix of the command and
  never lose its last program word; and unless one of the fail-closed flags is raised they are exactly
  where peeling one layer at a time ends, with no wrapper or transparent prefix left in front.
\<close>

theorem normalize_peels_all:
  fixes words :: "ustring list"
  shows "suffix (nc_words (normalize_command_words words)) words
    \<and> (words \<noteq> [] \<longrightarrow> nc_words (normalize_command_words words) \<noteq> [])
    \<and> (peel_trusted (normalize_command_words words) \<longrightarrow>
         nc_words (normalize_command_words words) = peel_all words
         \<and> strip_wrapper_command (peel_all words) = None
         \<and> strip_transparent_prefix (peel_all words) = NotPrefix
         \<and> (is_wrapper_command (peel_all words) \<longrightarrow>
              length (peel_all words) \<le> 1 \<or> head_name (peel_all words) = Some (str ''env'')))"
proof -
  let ?n = "normalize_command_words words"
  have r: "reduces words (nc_words ?n)" by (rule normalize_reduces)
  have "nc_words ?n = peel_all words" if "peel_trusted ?n" using that by (rule trusted_peel_all)
  moreover have "strip_wrapper_command (nc_words ?n) = None" if "peel_trusted ?n"
    using that finish_trusted(1) unfolding normalize_command_words_def
    by (metis (no_types, lifting) option.case_eq_if peel_one_wrapper_layer_def option.distinct(1))
  moreover have "strip_transparent_prefix (nc_words ?n) = NotPrefix" if "peel_trusted ?n"
    using that finish_trusted(2) unfolding normalize_command_words_def by blast
  moreover have "length (nc_words ?n) \<le> 1 \<or> head_name (nc_words ?n) = Some (str ''env'')"
    if "peel_trusted ?n" "is_wrapper_command (nc_words ?n)"
    using that finish_trusted(3) unfolding normalize_command_words_def by blast
  ultimately show ?thesis using r by (auto simp: reduces_def)
qed

lemmas shell_eval =
  str_simps base_name_def head_name_def strip_wrapper_command_def wrapper_inner_start_def wrapper_options_end_def
  nice_historical_def attached_option_def is_wrapper_command_def wrapper_names_def strip_transparent_prefix_def
  peel_one_wrapper_layer_def utf8_width_def

theorem normalize_peels_all_witness:
  "nc_words (normalize_command_words (map str [''timeout'', ''30'', ''rm'', ''-rf''])) =
     peel_all (map str [''timeout'', ''30'', ''rm'', ''-rf''])"
proof -
  have "peel_trusted (normalize_command_words (map str [''timeout'', ''30'', ''rm'', ''-rf'']))"
    by code_simp
  then show ?thesis using normalize_peels_all[of "map str [''timeout'', ''30'', ''rm'', ''-rf'']"] by blast
qed

lemma identity_loop_chain: "identity_loop n cmd \<Longrightarrow> c \<in> set (peel_chain cmd) \<Longrightarrow> c \<noteq> [] \<Longrightarrow> program_word_is_plain (hd c)"
proof (induction n cmd rule: identity_loop.induct)
  case (2 n cmd)
  show ?case
  proof (cases cmd)
    case Nil
    have "peel_one_wrapper_layer [] = None"
      by (simp add: peel_one_wrapper_layer_def strip_wrapper_command_def wrapper_inner_start_def head_name_def
          strip_transparent_prefix_def)
    then show ?thesis using 2(4,5) Nil by (simp add: peel_chain.simps[of "[]"])
  next
    case (Cons head t)
    have plain: "program_word_is_plain head" using 2(3) Cons by (auto split: if_splits)
    show ?thesis
    proof (cases "peel_one_wrapper_layer cmd")
      case None
      then have "peel_chain cmd = [cmd]" by (simp add: peel_chain.simps[of cmd])
      then show ?thesis using 2(4) plain Cons by simp
    next
      case (Some inner)
      have "identity_loop n inner"
        using 2(3) Some plain Cons
        by (auto simp: peel_one_wrapper_layer_def split: option.splits transparent_strip.splits if_splits)
      moreover have "c = cmd \<or> c \<in> set (peel_chain inner)"
        using 2(4) Some by (simp add: peel_chain.simps[of cmd])
      ultimately show ?thesis
        using 2(1)[OF Cons, of inner] 2(2)[OF Cons, of inner] Some plain Cons 2(5)
        by (auto simp: peel_one_wrapper_layer_def split: option.splits transparent_strip.splits if_splits)
    qed
  qed
qed simp

lemma plain_word_base:
  assumes "program_word_is_plain w"
  shows "base_name w = w" "map to_ascii_lower w = w"
proof -
  have c: "c \<noteq> 47 \<and> c \<noteq> 92 \<and> \<not> is_ascii_upper c" if "c \<in> set w" for c
    using assms that by (auto simp: program_word_is_plain_def list_all_iff str_simps)
  show "base_name w = w"
    unfolding base_name_def rsplit_next_def using c by (auto simp: takeWhile_eq_all_conv intro!: rev_swap[THEN iffD2])
  show "map to_ascii_lower w = w" using c by (auto simp: to_ascii_lower_def intro: map_idI)
qed

text \<open>
  A positive approval needs every program of the wrapper chain by its plain name. When
  \<open>program_identity_is_plain\<close> holds, each command met while peeling one layer at a time is headed by a
  word that is its own base name and its own lower-case spelling, so neither \<open>/tmp/x/env\<close> nor \<open>LS\<close>
  can pass for the program on the list.
\<close>

theorem identity_plain_sound:
  fixes words c :: "ustring list"
  assumes "program_identity_is_plain words" "c \<in> set (peel_chain words)" "c \<noteq> []"
  shows "program_word_is_plain (hd c) \<and> base_name (hd c) = hd c \<and> normalized_command_head c = Some (hd c)"
proof -
  have plain: "program_word_is_plain (hd c)"
    using assms identity_loop_chain unfolding program_identity_is_plain_def by blast
  moreover have "strip_suffix (str ''.exe'') (hd c) = None"
    using plain unfolding program_word_is_plain_def ends_with_def by blast
  ultimately show ?thesis
    using plain_word_base[OF plain] assms(3) by (cases c) (simp_all add: normalized_command_head_def)
qed

theorem identity_plain_sound_witness:
  "program_word_is_plain (str ''rm'') \<and> base_name (str ''rm'') = str ''rm''
    \<and> normalized_command_head (map str [''rm'', ''x'']) = Some (str ''rm'')"
proof -
  have "[str ''rm'', str ''x''] \<in> set (peel_chain (map str [''nice'', ''rm'', ''x'']))"
    by (simp add: peel_chain.simps shell_eval)
  moreover have "program_identity_is_plain (map str [''nice'', ''rm'', ''x''])"
    by (simp add: program_identity_is_plain_def program_word_is_plain_def MAX_NORMALIZE_ROUNDS_def
        MAX_WRAPPER_DEPTH_def MAX_TRANSPARENT_PREFIX_DEPTH_def shell_eval eval_nat_numeral)
  ultimately show ?thesis
    using identity_plain_sound[of "map str [''nice'', ''rm'', ''x'']" "[str ''rm'', str ''x'']"] by simp
qed

text \<open>
  The historical \<open>nice -5 COMMAND\<close> form is recognized without looking at its dash: a program name of
  one ASCII character and digits is taken for the adjustment and dropped, with no fail-closed flag, so
  \<open>nice b2 sync\<close> is judged as \<open>sync\<close>; and a word that begins with a non-ASCII character makes the
  byte slice panic.
\<close>

theorem nice_program_misread:
  "strip_wrapper_command (map str [''nice'', ''b2'', ''sync'']) = Some [str ''sync'']
    \<and> nc_words (normalize_command_words (map str [''nice'', ''b2'', ''sync''])) = [str ''sync'']
    \<and> peel_trusted (normalize_command_words (map str [''nice'', ''b2'', ''sync'']))
    \<and> nice_slice_panics [str ''nice'', [0xE9]]"
proof -
  have "nice_slice_panics [str ''nice'', [0xE9]]"
    by (simp add: nice_slice_panics_def shell_eval)
  moreover have "strip_wrapper_command (map str [''nice'', ''b2'', ''sync'']) = Some [str ''sync'']"
    by (simp add: shell_eval)
  moreover have "nc_words (normalize_command_words (map str [''nice'', ''b2'', ''sync''])) = [str ''sync'']
      \<and> peel_trusted (normalize_command_words (map str [''nice'', ''b2'', ''sync'']))"
    by code_simp
  ultimately show ?thesis by blast
qed

section \<open>Inline scripts\<close>

definition c_flag :: "shell_word \<Rightarrow> bool" where
  "c_flag w = (case w of Literal (d # fs) \<Rightarrow> d = ch CHR ''-'' \<and> ch CHR ''c'' \<in> set fs | _ \<Rightarrow> False)"

lemma c_flag_iff: "c_flag (Literal w) \<longleftrightarrow> starts_with (str ''-'') w \<and> ch CHR ''c'' \<in> set (drop 1 w)"
  by (cases w) (auto simp: c_flag_def str_simps)

text \<open>\<open>script_at\<close>: a result of the option loop at index \<open>i\<close> over \<open>ws\<close>.\<close>

definition script_at :: "nat \<Rightarrow> bool \<Rightarrow> shell_word list \<Rightarrow> inline_shell_script \<Rightarrow> bool" where
  "script_at i saw ws r = (case r of
       InlineLiteral k \<Rightarrow> i \<le> k \<and> k - i < length ws \<and> (\<exists>s. ws ! (k - i) = Literal s)
         \<and> (saw \<or> (\<exists>j < k - i. c_flag (ws ! j)))
     | _ \<Rightarrow> True)"

lemma script_at_simps [simp]:
  "script_at i saw ws NotInline" "script_at i saw ws InlineUntrusted" "script_at i saw ws Unrecognized"
  "script_at i saw ws (dash_ambiguous b)" "script_at i saw ws (no_script b)"
  by (simp_all add: script_at_def dash_ambiguous_def no_script_def)

lemma script_at_here: "script_at i True (Literal s # ws) (finish_literal dyn i)"
  by (simp add: script_at_def finish_literal_def)

lemma script_at_next: "script_at i True (w # Literal s # ws) (finish_literal dyn (i + 1))"
  by (simp add: script_at_def finish_literal_def)

lemma script_at_skip:
  assumes "script_at (i + 1) (saw \<or> c_flag w) ws r"
  shows "script_at i saw (w # ws) r"
proof (cases r)
  case (InlineLiteral k)
  have k: "i + 1 \<le> k" "k - (i + 1) < length ws" "\<exists>s. ws ! (k - (i + 1)) = Literal s"
    and flag: "saw \<or> c_flag w \<or> (\<exists>j < k - (i + 1). c_flag (ws ! j))"
    using assms InlineLiteral by (auto simp: script_at_def)
  have d: "k - i = Suc (k - (i + 1))" using k(1) by simp
  from flag have "saw \<or> (\<exists>j < k - i. c_flag ((w # ws) ! j))"
  proof (elim disjE exE conjE)
    fix j assume "j < k - (i + 1)" "c_flag (ws ! j)"
    then show ?thesis by (intro disjI2 exI[of _ "Suc j"]) (simp add: d)
  qed (use d in auto)
  then show ?thesis using InlineLiteral k d by (simp add: script_at_def)
qed (simp_all add: script_at_def)

lemma script_at_weaken: "script_at i saw ws r \<Longrightarrow> (saw \<Longrightarrow> saw') \<Longrightarrow> script_at i saw' ws r"
  by (auto simp: script_at_def split: inline_shell_script.splits)

lemma script_at_skip_plain: "script_at (i + 1) saw ws r \<Longrightarrow> script_at i saw (w # ws) r"
  by (rule script_at_skip) (erule script_at_weaken, simp)

lemma script_at_skip_two: "script_at (i + 2) saw ws r \<Longrightarrow> script_at i saw (w # v # ws) r"
  by (intro script_at_skip_plain) (simp add: numeral_2_eq_2)

lemma script_at_if:
  "(P \<Longrightarrow> script_at i saw ws a) \<Longrightarrow> (\<not> P \<Longrightarrow> script_at i saw ws b) \<Longrightarrow> script_at i saw ws (if P then a else b)"
  by simp

lemma dash_c_loop_sound: "script_at i saw ws (dash_c_loop dyn i saw unrec ws)"
proof (induction ws arbitrary: i saw unrec rule: length_induct)
  case (1 ws)
  then have IH: "script_at i saw vs (dash_c_loop dyn i saw u vs)" if "length vs < length ws" for vs i saw u
    using that by blast
  show ?case
  proof (cases ws)
    case (Cons w rest)
    have one: "script_at i saw (w # rest) (dash_c_loop dyn (i + 1) saw u rest)" for u
      by (intro script_at_skip_plain IH) (simp add: Cons)
    have two: "script_at i saw (w # v # r) (dash_c_loop dyn (i + 2) saw u r)" if "rest = v # r" for v r u
      by (intro script_at_skip_two IH) (simp add: Cons that)
    have flag: "script_at i saw (w # rest) (dash_c_loop dyn (i + 1) (saw \<or> c_flag w) u rest)" for u
      by (intro script_at_skip IH) (simp add: Cons)
    show ?thesis
    proof (cases w)
      case (Literal word)
      have fl: "script_at i saw (w # rest) (dash_c_loop dyn (i + 1) (saw \<or> ch CHR ''c'' \<in> set (drop 1 word)) u rest)"
        if "starts_with (str ''-'') word" for u
        using flag that unfolding Literal c_flag_iff by simp
      show ?thesis unfolding Cons Literal dash_c_loop.simps Let_def
        using one two fl unfolding Literal
        by (intro script_at_if)
          (auto simp: script_at_here[of _ _ rest] script_at_next[simplified]
            simp del: dash_c_loop.simps split: list.splits shell_word.splits)
    qed (simp add: Cons)
  qed simp
qed

lemma if_neq: "(P \<Longrightarrow> a \<noteq> r) \<Longrightarrow> (\<not> P \<Longrightarrow> b \<noteq> r) \<Longrightarrow> (if P then a else b) \<noteq> r"
  by simp

lemma dash_c_dynamic: "dash_c_loop True i saw unrec ws \<noteq> InlineLiteral k"
proof (induction ws arbitrary: i saw unrec rule: length_induct)
  case (1 ws)
  then have IH: "dash_c_loop True i saw u vs \<noteq> InlineLiteral k" if "length vs < length ws" for vs i saw u
    using that by blast
  show ?case
  proof (cases ws)
    case (Cons w rest)
    have one: "dash_c_loop True j s u rest \<noteq> InlineLiteral k" for j s u by (rule IH) (simp add: Cons)
    have two: "dash_c_loop True j s u r \<noteq> InlineLiteral k" if "rest = v # r" for j s u v r
      by (rule IH) (simp add: Cons that)
    show ?thesis
    proof (cases w)
      case (Literal word)
      show ?thesis unfolding Cons Literal dash_c_loop.simps Let_def using one two
        by (intro if_neq) (auto simp: dash_ambiguous_def no_script_def finish_literal_def
            simp del: dash_c_loop.simps split: list.split shell_word.split)
    qed (simp add: Cons dash_ambiguous_def)
  qed (simp add: no_script_def)
qed

definition shell_names :: "ustring list" where
  "shell_names = map str [''bash'', ''sh'', ''dash'', ''zsh'', ''ksh'']"

text \<open>
  The word an inline \<open>-c\<close> classification points at exists, so the gate's index into the words cannot
  panic: it is a literal word after the program, the program is one of the modelled shells by a literal
  name, and an option word before the script carries the \<open>c\<close> flag.
\<close>

theorem dash_c_script_in_range:
  fixes ws :: "shell_word list"
  assumes "shell_dash_c_script ws = InlineLiteral k"
  shows "0 < k \<and> k < length ws \<and> (\<exists>s. ws ! k = Literal s)
    \<and> (\<exists>program. ws ! 0 = Literal program \<and> base_name program \<in> set shell_names)
    \<and> (\<exists>j. 0 < j \<and> j < k \<and> c_flag (ws ! j))"
proof -
  obtain w rest where ws: "ws = w # rest" using assms by (cases ws) (auto simp: shell_dash_c_script_def)
  show ?thesis
  proof (cases w)
    case (Literal program)
    have name: "base_name program \<in> set shell_names" and loop: "dash_c_loop False 1 False False rest = InlineLiteral k"
      using assms by (auto simp: shell_dash_c_script_def ws Literal shell_names_def split: if_splits)
    have "script_at 1 False rest (InlineLiteral k)" using dash_c_loop_sound[of 1 False rest False False] loop by simp
    then obtain j where k: "1 \<le> k" "k - 1 < length rest" "\<exists>s. rest ! (k - 1) = Literal s" "j < k - 1" "c_flag (rest ! j)"
      by (auto simp: script_at_def)
    then have "c_flag (ws ! Suc j) \<and> Suc j < k" by (simp add: ws)
    then show ?thesis using k name by (auto simp: ws Literal nth_Cons' intro!: exI[of _ "Suc j"])
  next
    case Untrusted
    then show ?thesis using assms dash_c_dynamic by (simp add: shell_dash_c_script_def ws Untrusted)
  qed
qed

theorem dash_c_script_in_range_witness:
  "\<exists>s. map Literal (map str [''bash'', ''-lc'', ''rm -rf x'']) ! 2 = Literal s"
proof -
  have "shell_dash_c_script (map Literal (map str [''bash'', ''-lc'', ''rm -rf x''])) = InlineLiteral 2"
    by code_simp
  then show ?thesis using dash_c_script_in_range by blast
qed

section \<open>Quote removal\<close>

lemma decode_single_quoted:
  "ch CHR 0x27 \<notin> set s \<Longrightarrow> decode_loop (Some (ch CHR 0x27)) out (s @ ch CHR 0x27 # r) = decode_loop None (out @ s) r"
  by (induction s arbitrary: out) auto

text \<open>
  Quote removal is the shell's: a word in single quotes decodes to itself with every other character
  literal, backslashes included, also when it is glued between unquoted plain parts, and an unclosed
  quote decodes to nothing.
\<close>

theorem decode_single_quotes:
  fixes a s b :: ustring
  assumes "ch CHR 0x27 \<notin> set s" "\<forall>c \<in> set (a @ b). c \<notin> {ch CHR 0x27, ch CHR 0x22, ch CHR 0x5C}"
  shows "decode_shell_literal_spelling (a @ [ch CHR 0x27] @ s @ [ch CHR 0x27] @ b) = Some (a @ s @ b)
    \<and> decode_shell_literal_spelling (a @ [ch CHR 0x27] @ s) = None"
proof -
  have plain: "decode_loop None out (p @ r) = decode_loop None (out @ p) r"
    if "\<forall>c \<in> set p. c \<notin> {ch CHR 0x27, ch CHR 0x22, ch CHR 0x5C}" for p out r
    using that by (induction p arbitrary: out) auto
  have open_quote: "decode_loop (Some (ch CHR 0x27)) out s = None" for out
    using assms(1) by (induction s arbitrary: out) auto
  show ?thesis
    using decode_single_quoted[OF assms(1)] plain[of a] plain[of b _ "[]"] open_quote assms(2)
    unfolding decode_shell_literal_spelling_def by simp
qed

theorem decode_single_quotes_witness:
  "decode_shell_literal_spelling (str ''-S'' @ [ch CHR 0x27] @ str ''rm x'' @ [ch CHR 0x27] @ []) = Some (str ''-S'' @ str ''rm x'' @ [])"
  using decode_single_quotes[of "str ''rm x''" "str ''-S''" "[]"] by (simp add: str_def)

end
