(* ===== verification/Perm_Policy_Props.thy ===== *)
theory Perm_Policy_Props
  imports Perm_Policy Shell_Words_Props
begin

text \<open>
  The guarantees of the permission policy: precedence and order independence of rules, the conjunctive
  Bash allow, the reach of the command gate through wrappers and inline scripts, its fail-closed floors,
  and the escalate-only symlink re-check.
\<close>

section \<open>An environment to run examples in\<close>

text \<open>Globs match only themselves, a script is one command split at blanks, and there are no links.\<close>

definition plain_env :: "ustring perm_env" where
  "plain_env =
     \<lparr>pe_glob_new = Some, pe_glob_match = (\<lambda>_ g s. g = s), pe_glob_escape = (\<lambda>s. s),
      pe_fs = \<lparr>fs_canonicalize = Some, fs_lstat = (\<lambda>_. NoLink), fs_read_link = (\<lambda>_. None)\<rparr>,
      pe_url_host = Some, pe_to_lowercase = map to_ascii_lower,
      pe_commands = (\<lambda>s. Some [split_on (ch CHR '' '') s]), pe_recovered = (\<lambda>_. None)\<rparr>"

definition one_rule :: "rule_action \<Rightarrow> tool_filter \<Rightarrow> string \<Rightarrow> permission_config" where
  "one_rule act tool pat =
     PermissionConfig_new [\<lparr>pr_action = act, pr_tool = tool, pr_pattern = Some (str pat), pr_pattern_mode = Glob\<rparr>]"

section \<open>What the rule loop finds\<close>

definition act_applies ::
    "('g, 'z) perm_env_scheme \<Rightarrow> ('g, 'y) policy_core_scheme \<Rightarrow> access_kind \<Rightarrow> rule_base option
      \<Rightarrow> (nat \<times> permission_rule \<times> 'g option) list \<Rightarrow> rule_action \<Rightarrow> bool" where
  "act_applies env p access base xs act =
     list_ex (\<lambda>(i, r, m). pr_action r = act \<and> rule_applies env p access base i r m) xs"

abbreviation some_applies ::
    "('g, 'z) perm_env_scheme \<Rightarrow> ('g, 'y) policy_core_scheme \<Rightarrow> access_kind \<Rightarrow> rule_base option \<Rightarrow> rule_action \<Rightarrow> bool" where
  "some_applies env p access base \<equiv> act_applies env p access base (indexed_rules p)"

lemma act_applies_simps [simp]:
  "act_applies env p access base [] act = False"
  "act_applies env p access base ((i, r, m) # xs) act =
     (pr_action r = act \<and> rule_applies env p access base i r m \<or> act_applies env p access base xs act)"
  by (simp_all add: act_applies_def)

lemma rules_loop_deny:
  "act_applies env p access base xs DenyRule \<Longrightarrow> \<exists>reason. rules_loop env p access base xs ask alw = Inl (Reject reason)"
  by (induction env p access base xs ask alw rule: rules_loop.induct) (auto split: rule_action.split)

lemma rules_loop_pass:
  "\<not> act_applies env p access base xs DenyRule \<Longrightarrow>
     rules_loop env p access base xs ask alw =
       Inr (ask \<or> act_applies env p access base xs AskRule, alw \<or> act_applies env p access base xs AllowRule)"
  by (induction env p access base xs ask alw rule: rules_loop.induct) (auto split: rule_action.split)

definition bash_allowed :: "('g, 'z) perm_env_scheme \<Rightarrow> ('g, 'y) policy_core_scheme \<Rightarrow> ustring \<Rightarrow> bool" where
  "bash_allowed env p cmd \<longleftrightarrow>
     cp_has_bash_allow_rules p \<and> bash_chain_fully_allowed env p cmd MAX_INLINE_SHELL_DEPTH ScopeAny"

text \<open>The verdict as a table over which actions have a rule that applies.\<close>

definition allow_granted ::
    "('g, 'z) perm_env_scheme \<Rightarrow> ('g, 'y) policy_core_scheme \<Rightarrow> access_kind \<Rightarrow> rule_base option \<Rightarrow> bool" where
  "allow_granted env p access base = (case access of
       Bash cmd \<Rightarrow> bash_allowed env p cmd | _ \<Rightarrow> some_applies env p access base AllowRule)"

lemma evaluate_cases:
  obtains (deny) reason where "some_applies env p access base DenyRule"
      "evaluate_rules_with_base env p access base = Some (Reject reason)"
    | (ask) "\<not> some_applies env p access base DenyRule" "some_applies env p access base AskRule"
      "evaluate_rules_with_base env p access base = Some Ask"
    | (allow) "\<not> some_applies env p access base DenyRule" "\<not> some_applies env p access base AskRule"
      "allow_granted env p access base" "evaluate_rules_with_base env p access base = Some Allow"
    | (none) "\<not> some_applies env p access base DenyRule" "\<not> some_applies env p access base AskRule"
      "\<not> allow_granted env p access base" "evaluate_rules_with_base env p access base = None"
proof (cases "some_applies env p access base DenyRule")
  case True
  then obtain reason where "rules_loop env p access base (indexed_rules p) False False = Inl (Reject reason)"
    using rules_loop_deny by blast
  then show ?thesis using deny[OF True] by (simp add: evaluate_rules_with_base_def)
next
  case False
  note l = rules_loop_pass[OF False, of False False]
  have v: "evaluate_rules_with_base env p access base =
      (if some_applies env p access base AskRule then Some Ask
       else if allow_granted env p access base then Some Allow else None)"
    by (simp add: evaluate_rules_with_base_def l allow_granted_def bash_allowed_def split: access_kind.split)
  show ?thesis
    using v ask[OF False] allow[OF False] none[OF False]
    by (cases "some_applies env p access base AskRule"; cases "allow_granted env p access base") auto
qed

section \<open>Compiled policies\<close>

definition compiled_from :: "('g, 'z) perm_env_scheme \<Rightarrow> permission_rule list \<Rightarrow> ('g, 'y) policy_core_scheme \<Rightarrow> bool" where
  "compiled_from env rules p \<longleftrightarrow>
     policy_rules p = rules
     \<and> cp_matchers p = map (compile_matcher env) rules
     \<and> cp_catchall p = map (rule_is_catchall env) rules
     \<and> cp_alias_prefix p = map (\<lambda>r. if restricts r then Option.bind (pr_pattern r) literal_dir_prefix else None) rules
     \<and> cp_has_bash_allow_rules p = list_ex (\<lambda>r. pr_action r = AllowRule \<and> pr_tool r \<in> {FilterBash, FilterAny}) rules
     \<and> cp_has_bash_command_restrictions p = list_ex (\<lambda>r. restricts r \<and> pr_tool r \<in> {FilterBash, FilterAny}) rules"

lemma compiled_core: "compiled_from env (pc_rules c) (policy_core_new env c)"
  by (simp add: compiled_from_def policy_core_new_def Let_def)

lemma compiled_full: "compiled_from env (pc_rules c) (CompiledPolicy_new env c)"
  by (simp add: compiled_from_def CompiledPolicy_new_def policy_core_new_def Let_def
      policy_core.extend_def compiled_policy.fields_def)

text \<open>Whether one rule applies, without its index.\<close>

definition alias_matches ::
    "('g, 'z) perm_env_scheme \<Rightarrow> permission_rule \<Rightarrow> access_kind \<Rightarrow> rule_base option \<Rightarrow> bool" where
  "alias_matches env r access base =
     (case native_file_path access of
        None \<Rightarrow> False
      | Some path \<Rightarrow>
          (case (if restricts r then Option.bind (pr_pattern r) literal_dir_prefix else None) of
             None \<Rightarrow> False
           | Some (pre, rest) \<Rightarrow>
               (case Option.bind (physical_alias_pattern_string (pe_glob_escape env) (pe_fs env) pre rest) (pe_glob_new env) of
                  None \<Rightarrow> False | Some alias \<Rightarrow> path_pattern_matches env path alias base)))"

definition applies :: "('g, 'z) perm_env_scheme \<Rightarrow> permission_rule \<Rightarrow> access_kind \<Rightarrow> rule_base option \<Rightarrow> bool" where
  "applies env r access base \<longleftrightarrow>
     rule_reaches access r \<and>
     (let rb = (if pr_action r = AllowRule then map_option without_physical base else base) in
      pattern_matches env access r (compile_matcher env r) rb \<or> alias_matches env r access rb)"

lemma indexed_rules_compiled:
  assumes "compiled_from env rules p"
  shows "set (indexed_rules p) = {(i, rules ! i, compile_matcher env (rules ! i)) | i. i < length rules}"
proof -
  have "indexed_rules p = List.enumerate 0 (zip rules (map (compile_matcher env) rules))"
    using assms by (simp add: compiled_from_def indexed_rules_def)
  then show ?thesis by (auto simp: in_set_enumerate_eq)
qed

lemma rule_applies_compiled:
  assumes "compiled_from env rules p" "i < length rules"
  shows "rule_applies env p access base i (rules ! i) (compile_matcher env (rules ! i)) = applies env (rules ! i) access base"
proof -
  have "alias_pattern_matches env p i access rb = alias_matches env (rules ! i) access rb" for rb
    using assms by (simp add: alias_pattern_matches_def alias_matches_def physical_alias_pattern_def compiled_from_def
        split: option.split)
  then show ?thesis by (simp add: rule_applies_def applies_def Let_def)
qed

lemma some_applies_compiled:
  assumes "compiled_from env rules p"
  shows "some_applies env p access base act \<longleftrightarrow> (\<exists>r \<in> set rules. pr_action r = act \<and> applies env r access base)"
  unfolding act_applies_def list_ex_iff indexed_rules_compiled[OF assms]
  using rule_applies_compiled[OF assms] by (fastforce simp: in_set_conv_nth)

definition allows_words :: "('g, 'z) perm_env_scheme \<Rightarrow> allow_rule_scope \<Rightarrow> ustring list \<Rightarrow> permission_rule \<Rightarrow> bool" where
  "allows_words env scope words r \<longleftrightarrow>
     \<not> (scope = NarrowOnly \<and> rule_is_catchall env r) \<and> pr_action r = AllowRule \<and> pr_tool r \<in> {FilterBash, FilterAny}
     \<and> bash_allow_pattern_matches env (join (str '' '') words) r (compile_matcher env r)"

lemma bash_words_allowed_compiled:
  assumes "compiled_from env rules p"
  shows "bash_words_allowed env p words scope \<longleftrightarrow>
    words \<noteq> [] \<and> \<not> (scope = NarrowOnly \<and> head_is_exec_vehicle words) \<and> (\<exists>r \<in> set rules. allows_words env scope words r)"
proof -
  have "zip (zip rules (map (compile_matcher env) rules)) (map (rule_is_catchall env) rules)
      = map (\<lambda>r. ((r, compile_matcher env r), rule_is_catchall env r)) rules"
    by (induction rules) auto
  then show ?thesis using assms
    by (auto simp: bash_words_allowed_def compiled_from_def list_ex_iff allows_words_def Let_def)
qed

section \<open>The Bash allow walk\<close>

lemma norm_trusted: "\<not> norm_fails_closed n \<longleftrightarrow> peel_trusted n"
  by (auto simp: norm_fails_closed_def peel_trusted_def)

lemma chain_iff:
  "bash_chain_fully_allowed env p cmd depth scope \<longleftrightarrow> (case pe_commands env cmd of
       None \<Rightarrow> (case recovered_commands env p cmd scope of Some (_, covered) \<Rightarrow> covered | None \<Rightarrow> False)
     | Some segments \<Rightarrow>
         segments \<noteq> [] \<and> (\<forall>words \<in> set segments.
            peel_trusted (normalize_command_words words)
            \<and> bash_words_allowed env p (nc_words (normalize_command_words words)) scope
            \<and> (case shell_dash_c_script (map Literal (nc_words (normalize_command_words words))) of
                 InlineLiteral i \<Rightarrow>
                   0 < depth \<and> bash_chain_fully_allowed env p (nc_words (normalize_command_words words) ! i) (depth - 1) scope
               | NotInline \<Rightarrow> True | _ \<Rightarrow> False)))"
proof -
  have i: "(if norm_fails_closed n then False else if \<not> b then False else c) \<longleftrightarrow> peel_trusted n \<and> b \<and> c" for n b c
    using norm_trusted[of n] by auto
  have d: "(if 0 < depth then c else False) \<longleftrightarrow> 0 < depth \<and> c" for c by simp
  have s: "(if segments = [] then False else c) \<longleftrightarrow> segments \<noteq> [] \<and> c" for segments :: "ustring list list" and c by simp
  show ?thesis
    by (subst bash_chain_fully_allowed.simps) (simp only: i d s list_all_iff Let_def)
qed

lemma chain_mono:
  assumes "\<And>words. bash_words_allowed env p words scope \<Longrightarrow> bash_words_allowed env p' words scope'"
  shows "bash_chain_fully_allowed env p cmd depth scope \<Longrightarrow> bash_chain_fully_allowed env p' cmd depth scope'"
proof (induction depth arbitrary: cmd rule: less_induct)
  case (less depth)
  show ?case
  proof (cases "pe_commands env cmd")
    case None
    then show ?thesis using less.prems assms
      by (auto simp: chain_iff[of env p cmd] chain_iff[of env p' cmd] recovered_commands_def list_all_iff
          split: option.splits)
  next
    case (Some segments)
    have inl: "bash_chain_fully_allowed env p' c (depth - Suc 0) scope'"
      if "bash_chain_fully_allowed env p c (depth - Suc 0) scope" "0 < depth" for c
      using less.IH[of "depth - 1" c] that by simp
    show ?thesis
      using less.prems unfolding chain_iff[of env p cmd] chain_iff[of env p' cmd] Some option.case
      by (auto intro: assms inl split: inline_shell_script.split_asm inline_shell_script.split)
  qed
qed

section \<open>Precedence and order\<close>

fun kind :: "decision \<Rightarrow> nat" where
  "kind (Reject _) = 3" | "kind Ask = 2" | "kind Allow = 1" | "kind _ = 0"

text \<open>
  C1: Deny wins over ask, ask over allow. For a policy compiled from a rule list, the decision is
  a rejection just when some deny rule applies to the access, a prompt just when no deny but some ask
  rule applies, and for everything but Bash an allow just when only allow rules apply; without an
  applying rule there is no decision.
\<close>

theorem evaluation_precedence:
  fixes env :: "('g, 'z) perm_env_scheme" and c :: permission_config and access :: access_kind
    and base :: "rule_base option"
  defines "d \<equiv> evaluate_rules_with_base env (CompiledPolicy_new env c) access base"
    and "some_rule \<equiv> \<lambda>act. \<exists>r \<in> set (pc_rules c). pr_action r = act \<and> applies env r access base"
  shows "((\<exists>reason. d = Some (Reject reason)) \<longleftrightarrow> some_rule DenyRule)
    \<and> (d = Some Ask \<longleftrightarrow> \<not> some_rule DenyRule \<and> some_rule AskRule)
    \<and> (d = Some Allow \<longleftrightarrow> \<not> some_rule DenyRule \<and> \<not> some_rule AskRule
         \<and> (case access of Bash cmd \<Rightarrow> bash_allowed env (CompiledPolicy_new env c) cmd | _ \<Rightarrow> some_rule AllowRule))
    \<and> (d = None \<or> d \<in> {Some Ask, Some Allow} \<or> (\<exists>reason. d = Some (Reject reason)))"
proof -
  let ?p = "CompiledPolicy_new env c"
  have s: "some_applies env ?p access base act = some_rule act" for act
    unfolding some_rule_def by (rule some_applies_compiled[OF compiled_full])
  have g: "allow_granted env ?p access base =
      (case access of Bash cmd \<Rightarrow> bash_allowed env ?p cmd | _ \<Rightarrow> some_rule AllowRule)"
    unfolding allow_granted_def s ..
  show ?thesis
    by (cases rule: evaluate_cases[of env ?p access base]) (simp_all add: d_def s g)
qed

lemma evaluate_kind:
  "map_option kind (evaluate_rules_with_base env p access base) =
     (if some_applies env p access base DenyRule then Some 3
      else if some_applies env p access base AskRule then Some 2
      else if allow_granted env p access base then Some 1 else None)"
  by (cases rule: evaluate_cases[of env p access base]) simp_all

lemma bash_words_same_set:
  assumes "compiled_from env rules p" "compiled_from env rules' p'" "set rules = set rules'"
  shows "bash_words_allowed env p words scope = bash_words_allowed env p' words scope"
  using assms(3) bash_words_allowed_compiled[OF assms(1)] bash_words_allowed_compiled[OF assms(2)] by simp

text \<open>
  Rule order does not matter. Two configurations with the same rules in any order, and any number of
  times each, give every access the same verdict under every working directory base; a rejection may
  name a different one of the rules that deny it.
\<close>

theorem rule_order_irrelevant:
  fixes env :: "('g, 'z) perm_env_scheme" and c c' :: permission_config
  assumes "set (pc_rules c) = set (pc_rules c')"
  shows "map_option kind (evaluate_rules_with_base env (CompiledPolicy_new env c) access base) =
    map_option kind (evaluate_rules_with_base env (CompiledPolicy_new env c') access base)"
proof -
  let ?p = "CompiledPolicy_new env c" and ?q = "CompiledPolicy_new env c'"
  have s: "some_applies env ?p access base act = some_applies env ?q access base act" for access act
    using some_applies_compiled[OF compiled_full, of env c] some_applies_compiled[OF compiled_full, of env c'] assms
    by simp
  have "bash_words_allowed env ?p words sc = bash_words_allowed env ?q words sc" for words sc
    using bash_words_same_set[OF compiled_full compiled_full assms] .
  then have "bash_chain_fully_allowed env ?p cmd d sc = bash_chain_fully_allowed env ?q cmd d sc" for cmd d sc
    using chain_mono[of env ?p sc ?q sc cmd d] chain_mono[of env ?q sc ?p sc cmd d] by blast
  moreover have "cp_has_bash_allow_rules ?p = cp_has_bash_allow_rules ?q"
    using assms compiled_full[of env c] compiled_full[of env c'] by (simp add: compiled_from_def list_ex_iff)
  ultimately have "allow_granted env ?p access base = allow_granted env ?q access base"
    by (simp add: allow_granted_def bash_allowed_def s split: access_kind.split)
  then show ?thesis by (simp add: evaluate_kind s)
qed

theorem rule_order_irrelevant_witness:
  "map_option kind (evaluate_rules_with_base plain_env (CompiledPolicy_new plain_env
       (PermissionConfig_new [\<lparr>pr_action = AllowRule, pr_tool = FilterAny, pr_pattern = None, pr_pattern_mode = Glob\<rparr>,
          \<lparr>pr_action = DenyRule, pr_tool = FilterBash, pr_pattern = None, pr_pattern_mode = Glob\<rparr>])) (Bash (str ''rm'')) None)
   = map_option kind (evaluate_rules_with_base plain_env (CompiledPolicy_new plain_env
       (PermissionConfig_new [\<lparr>pr_action = DenyRule, pr_tool = FilterBash, pr_pattern = None, pr_pattern_mode = Glob\<rparr>,
          \<lparr>pr_action = AllowRule, pr_tool = FilterAny, pr_pattern = None, pr_pattern_mode = Glob\<rparr>])) (Bash (str ''rm'')) None)"
  by (rule rule_order_irrelevant) (auto simp: PermissionConfig_new_def)

section \<open>Bash allow is conjunctive\<close>

lemma evaluate_bash: "evaluate env p (Bash cmd) = evaluate_rules_with_base env p (Bash cmd) None"
  by (simp add: evaluate_def evaluate_with_cwd_def evaluate_with_cwd_details_def)

text \<open>
  C3: A Bash command is allowed only when every command of its script is. If a policy allows a script
  that decomposes, the script has at least one command, each one normalizes without a fail-closed flag
  to the program the normalizer finds behind its wrappers, that program's words match an allow rule for
  Bash or for every tool, and it either carries no inline script or carries a literal \<open>-c\<close> script that
  the same walk allows in turn. If it allows a script that does not decompose, the script was recovered
  as eligible and the words of every recovered command match such a rule as they stand; recovered
  commands are not normalized and their flags are not looked at.
\<close>

theorem bash_allow_conjunctive:
  fixes env :: "('g, 'z) perm_env_scheme" and c :: permission_config
  assumes "evaluate env (CompiledPolicy_new env c) (Bash cmd) = Some Allow"
  shows "case pe_commands env cmd of
      Some segments \<Rightarrow> segments \<noteq> [] \<and> (\<forall>words \<in> set segments.
        peel_trusted (normalize_command_words words)
        \<and> nc_words (normalize_command_words words) = peel_all words
        \<and> (\<exists>r \<in> set (pc_rules c). allows_words env ScopeAny (peel_all words) r)
        \<and> (shell_dash_c_script (map Literal (peel_all words)) = NotInline
           \<or> (\<exists>i. shell_dash_c_script (map Literal (peel_all words)) = InlineLiteral i
               \<and> bash_chain_fully_allowed env (CompiledPolicy_new env c) (peel_all words ! i)
                   (MAX_INLINE_SHELL_DEPTH - 1) ScopeAny)))
    | None \<Rightarrow> \<exists>projections. pe_recovered env cmd = Some (projections, True)
        \<and> (\<forall>words \<in> set projections. words \<noteq> [] \<and> (\<exists>r \<in> set (pc_rules c). allows_words env ScopeAny words r))"
proof -
  let ?p = "CompiledPolicy_new env c"
  have "allow_granted env ?p (Bash cmd) None"
    using assms by (cases rule: evaluate_cases[of env ?p "Bash cmd" None]) (simp_all add: evaluate_bash)
  then have chain: "bash_chain_fully_allowed env ?p cmd MAX_INLINE_SHELL_DEPTH ScopeAny"
    by (simp add: allow_granted_def bash_allowed_def)
  note allowed = bash_words_allowed_compiled[OF compiled_full, of env c]
  show ?thesis
  proof (cases "pe_commands env cmd")
    case None
    then show ?thesis
      using chain unfolding chain_iff[of env ?p cmd]
      by (auto simp: recovered_commands_def list_all_iff allowed split: option.splits)
  next
    case (Some segments)
    have seg: "peel_trusted (normalize_command_words words)
        \<and> bash_words_allowed env ?p (nc_words (normalize_command_words words)) ScopeAny
        \<and> (shell_dash_c_script (map Literal (nc_words (normalize_command_words words))) = NotInline
          \<or> (\<exists>i. shell_dash_c_script (map Literal (nc_words (normalize_command_words words))) = InlineLiteral i
              \<and> bash_chain_fully_allowed env ?p (nc_words (normalize_command_words words) ! i) (MAX_INLINE_SHELL_DEPTH - 1) ScopeAny))"
      if "words \<in> set segments" for words
    proof -
      let ?inner = "nc_words (normalize_command_words words)"
      have "peel_trusted (normalize_command_words words) \<and> bash_words_allowed env ?p ?inner ScopeAny
          \<and> (case shell_dash_c_script (map Literal ?inner) of
                InlineLiteral i \<Rightarrow> 0 < MAX_INLINE_SHELL_DEPTH
                  \<and> bash_chain_fully_allowed env ?p (?inner ! i) (MAX_INLINE_SHELL_DEPTH - 1) ScopeAny
              | NotInline \<Rightarrow> True | _ \<Rightarrow> False)"
        using that chain unfolding chain_iff[of env ?p cmd] Some option.case by blast
      then show ?thesis by (cases "shell_dash_c_script (map Literal ?inner)") simp_all
    qed
    have ne: "segments \<noteq> []" using chain unfolding chain_iff[of env ?p cmd] Some option.case by blast
    have "nc_words (normalize_command_words words) = peel_all words" if "words \<in> set segments" for words
      using seg[OF that] trusted_peel_all by blast
    then show ?thesis using seg ne allowed Some by auto
  qed
qed

theorem bash_allow_conjunctive_witness:
  "\<exists>r \<in> set (pc_rules (one_rule AllowRule FilterBash ''git'')).
     allows_words plain_env ScopeAny (peel_all (map str [''nice'', ''git'', ''log''])) r"
proof -
  let ?p = "CompiledPolicy_new plain_env (one_rule AllowRule FilterBash ''git'')"
    and ?ws = "map str [''nice'', ''git'', ''log'']"
  have cmds: "pe_commands plain_env (str ''nice git log'') = Some [?ws]" by code_simp
  have facts: "peel_trusted (normalize_command_words ?ws)"
    "bash_words_allowed plain_env ?p (nc_words (normalize_command_words ?ws)) ScopeAny"
    "shell_dash_c_script (map Literal (nc_words (normalize_command_words ?ws))) = NotInline"
    "cp_has_bash_allow_rules ?p" "rules_loop plain_env ?p (Bash (str ''nice git log'')) None (indexed_rules ?p) False False = Inr (False, False)"
    by code_simp+
  have "bash_chain_fully_allowed plain_env ?p (str ''nice git log'') MAX_INLINE_SHELL_DEPTH ScopeAny"
    unfolding chain_iff[of plain_env ?p "str ''nice git log''"] cmds using facts by simp
  then have "evaluate plain_env ?p (Bash (str ''nice git log'')) = Some Allow"
    using facts by (simp add: evaluate_bash evaluate_rules_with_base_def)
  from bash_allow_conjunctive[OF this] show ?thesis by (simp only: cmds option.case list.set) blast
qed

section \<open>The command gate\<close>

text \<open>
  \<open>reached env cmd words n\<close>: \<open>words\<close> is a command of the script \<open>cmd\<close>, or of an inline \<open>-c\<close> or packed
  \<open>env -S\<close> script in it, at most \<open>n\<close> scripts deep.
\<close>

definition script_commands :: "('g, 'z) perm_env_scheme \<Rightarrow> ustring \<Rightarrow> ustring list list" where
  "script_commands env cmd = (case pe_commands env cmd of
       Some segments \<Rightarrow> segments
     | None \<Rightarrow> (case pe_recovered env cmd of Some (projections, _) \<Rightarrow> projections | None \<Rightarrow> []))"

definition inline_script :: "ustring list \<Rightarrow> ustring \<Rightarrow> bool" where
  "inline_script words script \<longleftrightarrow>
     (let inner = nc_words (normalize_command_words words) in
      (\<exists>i. shell_dash_c_script (map Literal inner) = InlineLiteral i \<and> script = inner ! i)
      \<or> env_split_string_script inner = Some script)"

inductive reached :: "('g, 'z) perm_env_scheme \<Rightarrow> ustring \<Rightarrow> ustring list \<Rightarrow> nat \<Rightarrow> bool" for env where
  here: "words \<in> set (script_commands env cmd) \<Longrightarrow> reached env cmd words n"
| inline: "outer \<in> set (script_commands env cmd) \<Longrightarrow> inline_script outer script \<Longrightarrow> reached env script words n
    \<Longrightarrow> reached env cmd words (Suc n)"

lemma combine_all_member: "x \<in> set ds \<Longrightarrow> gates.orank x \<le> gates.orank (combine_all ds)"
  unfolding combine_all_def by (rule gates.orank_foldl_member)

lemma segments_member:
  assumes "words \<in> set (script_commands env cmd)"
  shows "gates.orank (evaluate_command_words env p words depth)
    \<le> gates.orank (evaluate_bash_command_segments env p cmd depth)"
  using assms
  by (auto simp: script_commands_def evaluate_bash_command_segments.simps recovered_commands_def
      intro!: combine_all_member gates.orank_foldl_member split: option.splits)

lemma words_member:
  "x \<in> set ([ask_floor (nc_exhausted (normalize_command_words words) \<or> nc_ambiguous (normalize_command_words words)
          \<or> nc_env_options_uncertain (normalize_command_words words)),
        ask_floor (nc_has_split_string (normalize_command_words words))]
      @ map (\<lambda>form. escalate_segment env p (join (str '' '') form))
          (command_forms words (nc_words (normalize_command_words words))))
    \<Longrightarrow> gates.orank x \<le> gates.orank (evaluate_command_words env p words depth)"
  unfolding evaluate_command_words.simps Let_def by (rule combine_all_member) auto

lemma words_inline:
  assumes "inline_script words script"
  shows "gates.orank (evaluate_bash_command_segments env p script n)
    \<le> gates.orank (evaluate_command_words env p words (Suc n))"
proof -
  let ?inner = "nc_words (normalize_command_words words)"
  consider i where "shell_dash_c_script (map Literal ?inner) = InlineLiteral i" "script = ?inner ! i"
    | "env_split_string_script ?inner = Some script"
    using assms by (auto simp: inline_script_def Let_def)
  then show ?thesis
    unfolding evaluate_command_words.simps[of env p words] Let_def
    by cases (rule combine_all_member, simp)+
qed

lemma reached_rank:
  "reached env cmd words n \<Longrightarrow> n \<le> depth \<Longrightarrow> \<forall>d. gates.orank x \<le> gates.orank (evaluate_command_words env p words d)
    \<Longrightarrow> gates.orank x \<le> gates.orank (evaluate_bash_command_segments env p cmd depth)"
proof (induction arbitrary: depth rule: reached.induct)
  case (here words cmd n)
  then show ?case using segments_member order_trans by metis
next
  case (inline outer cmd script words n)
  obtain d where d: "depth = Suc d" "n \<le> d" using inline.prems(1) by (cases depth) auto
  have "gates.orank x \<le> gates.orank (evaluate_bash_command_segments env p script d)"
    using inline.IH d(2) inline.prems(2) by blast
  also have "\<dots> \<le> gates.orank (evaluate_command_words env p outer (Suc d))"
    using inline.hyps(2) by (rule words_inline)
  also have "\<dots> \<le> gates.orank (evaluate_bash_command_segments env p cmd (Suc d))"
    using inline.hyps(1) by (rule segments_member)
  finally show ?case by (simp add: d)
qed

lemma orank_reject: "gates.orank (Some (GateReject r)) \<le> gates.orank x \<Longrightarrow> \<exists>r'. x = Some (GateReject r')"
proof -
  assume "gates.orank (Some (GateReject r)) \<le> gates.orank x"
  then obtain g where "x = Some g" "3 \<le> gate_rank g" by (cases x) (simp_all add: gates.orank_def)
  then show ?thesis by (cases g) simp_all
qed

lemma orank_None: "gates.orank x \<le> gates.orank None \<longleftrightarrow> x = None"
  by (cases x) (simp_all add: gates.orank_def)

lemma form_judged:
  assumes "form = words \<or> form = nc_words (normalize_command_words words)"
  shows "form \<in> set (command_forms words (nc_words (normalize_command_words words)))"
proof -
  obtain zs where w: "words = zs @ nc_words (normalize_command_words words)"
    using normalize_reduces[of words] by (auto simp: reduces_def suffix_def)
  have len: "length words = length zs + length (nc_words (normalize_command_words words))"
    using arg_cong[OF w, of length] by (simp only: length_append)
  have "nc_words (normalize_command_words words) = words"
    if "length (nc_words (normalize_command_words words)) = length words"
  proof -
    have "zs = []" using len that by simp
    then show ?thesis using w by simp
  qed
  then show ?thesis using assms by (auto simp: command_forms_def)
qed

text \<open>
  C2: A denied command does not hide behind others. If a script contains, directly or in an inline
  \<open>-c\<close> or packed \<open>env -S\<close> script up to eight levels deep, a command whose words as written, or as
  \<open>normalize_command_words\<close> leaves them after peeling wrappers, are rejected by the rules, and no command
  the gate comes to makes the normalizer panic, then the gate rejects the whole script, whatever else is
  in it. The normalizer's own reading of a wrapper is part of the claim: what it takes for an argument of
  the wrapper (\<open>nice b2 sync\<close>) is not judged as the program.
\<close>

theorem gate_rejects_nested:
  fixes env :: "('g, 'z) perm_env_scheme" and c :: permission_config
  assumes "reached env cmd words MAX_INLINE_SHELL_DEPTH"
    and "form = words \<or> form = nc_words (normalize_command_words words)"
    and "evaluate env (CompiledPolicy_new env c) (Bash (join (str '' '') form)) = Some (Reject reason)"
    and "\<not> gate_may_panic env cmd MAX_INLINE_SHELL_DEPTH"
  shows "\<exists>reason'. evaluate_bash_command_gate env (CompiledPolicy_new env c) cmd = Some (GateReject reason')"
proof -
  let ?p = "CompiledPolicy_new env c"
  have "some_applies env ?p (Bash (join (str '' '') form)) None DenyRule"
    using assms(3) unfolding evaluate_bash by (cases rule: evaluate_cases[of env ?p "Bash (join (str '' '') form)" None]) simp_all
  then obtain r where "r \<in> set (pc_rules c)" "pr_action r = DenyRule" "rule_reaches (Bash (join (str '' '') form)) r"
    unfolding some_applies_compiled[OF compiled_full] by (auto simp: applies_def)
  moreover have "rule_reaches (Bash s) r \<Longrightarrow> pr_tool r \<in> {FilterBash, FilterAny}" for r s
    by (cases "pr_tool r") (simp_all add: rule_reaches_def is_tool_def)
  ultimately have on: "cp_has_bash_command_restrictions ?p"
    using compiled_full[of env c] by (auto simp: compiled_from_def list_ex_iff restricts_def)
  have esc: "escalate_segment env ?p (join (str '' '') form) = Some (GateReject reason)"
    using assms(3) by (simp add: escalate_segment_def)
  have "form \<in> set (command_forms words (nc_words (normalize_command_words words)))"
    using assms(2) by (rule form_judged)
  then have "gates.orank (Some (GateReject reason)) \<le> gates.orank (evaluate_command_words env ?p words d)" for d
    using esc words_member[of "Some (GateReject reason)" words env ?p d] by (auto simp: command_forms_def)
  then have "gates.orank (Some (GateReject reason)) \<le> gates.orank (evaluate_bash_command_segments env ?p cmd MAX_INLINE_SHELL_DEPTH)"
    using reached_rank[OF assms(1)] by blast
  then show ?thesis using on orank_reject by (auto simp: evaluate_bash_command_gate_def)
qed

theorem gate_rejects_nested_witness:
  "\<exists>reason'. evaluate_bash_command_gate plain_env (CompiledPolicy_new plain_env (one_rule DenyRule FilterBash ''rm''))
      (str ''env A=1 bash -c rm'') = Some (GateReject reason')"
proof (rule gate_rejects_nested)
  have "map str [''env'', ''A=1'', ''bash'', ''-c'', ''rm''] \<in> set (script_commands plain_env (str ''env A=1 bash -c rm''))"
    by code_simp
  moreover have "inline_script (map str [''env'', ''A=1'', ''bash'', ''-c'', ''rm'']) (str ''rm'')"
  proof -
    have "shell_dash_c_script (map Literal (nc_words (normalize_command_words (map str [''env'', ''A=1'', ''bash'', ''-c'', ''rm''])))) = InlineLiteral 2
        \<and> nc_words (normalize_command_words (map str [''env'', ''A=1'', ''bash'', ''-c'', ''rm''])) ! 2 = str ''rm''"
      by code_simp
    then show ?thesis by (auto simp: inline_script_def Let_def)
  qed
  moreover have "[str ''rm''] \<in> set (script_commands plain_env (str ''rm''))" by code_simp
  ultimately have "reached plain_env (str ''env A=1 bash -c rm'') [str ''rm''] (Suc 7)"
    using reached.here reached.inline by blast
  then show "reached plain_env (str ''env A=1 bash -c rm'') [str ''rm''] MAX_INLINE_SHELL_DEPTH"
    by (simp add: MAX_INLINE_SHELL_DEPTH_def)
  show "[str ''rm''] = [str ''rm''] \<or> [str ''rm''] = nc_words (normalize_command_words [str ''rm''])" by simp
  show "evaluate plain_env (CompiledPolicy_new plain_env (one_rule DenyRule FilterBash ''rm''))
      (Bash (join (str '' '') [str ''rm''])) = Some (Reject (deny_reason (hd (pc_rules (one_rule DenyRule FilterBash ''rm'')))))"
    by code_simp
  show "\<not> gate_may_panic plain_env (str ''env A=1 bash -c rm'') MAX_INLINE_SHELL_DEPTH" by code_simp
qed

text \<open>The excluded case: \<open>nice\<close> before a word that starts with a two-byte character.\<close>

lemma gate_panics_on_nice:
  assumes "pe_commands env cmd = Some [[str ''nice'', [0xE9, ch CHR ''5''], str ''ls'']]"
  shows "gate_may_panic env cmd MAX_INLINE_SHELL_DEPTH"
proof -
  have "normalize_panics [str ''nice'', [0xE9, ch CHR ''5''], str ''ls'']" by code_simp
  then show ?thesis using assms by (simp add: gate_may_panic.simps command_may_panic.simps)
qed

text \<open>
  C4: The gate is silent only on scripts it understood. When the policy restricts Bash and the gate has
  nothing to say, the script was decomposed (or recovered and covered by allow rules), and every command
  reached through inline scripts normalizes without a fail-closed flag and meets no deny or ask rule, as
  written or behind its wrappers.
\<close>

theorem gate_silence_is_clean:
  fixes env :: "('g, 'z) perm_env_scheme" and p :: "'g compiled_policy"
  assumes "evaluate_bash_command_gate env p cmd = None" "cp_has_bash_command_restrictions p"
  shows "(pe_commands env cmd \<noteq> None \<or> (\<exists>ps. recovered_commands env p cmd ScopeAny = Some (ps, True)))
    \<and> (\<forall>words. reached env cmd words MAX_INLINE_SHELL_DEPTH \<longrightarrow>
         peel_trusted (normalize_command_words words)
         \<and> (\<forall>form \<in> set (command_forms words (nc_words (normalize_command_words words))).
              evaluate env p (Bash (join (str '' '') form)) \<in> {None, Some Allow}))"
proof (intro conjI allI impI)
  have silent: "evaluate_bash_command_segments env p cmd MAX_INLINE_SHELL_DEPTH = None"
    using assms by (simp add: evaluate_bash_command_gate_def)
  show "pe_commands env cmd \<noteq> None \<or> (\<exists>ps. recovered_commands env p cmd ScopeAny = Some (ps, True))"
  proof (cases "pe_commands env cmd")
    case None
    obtain ps b where rc: "recovered_commands env p cmd ScopeAny = Some (ps, b)"
      using None silent by (auto simp: evaluate_bash_command_segments.simps split: option.splits)
    have "foldl combine_gate_decisions (ask_floor (\<not> b))
        (map (\<lambda>words. evaluate_command_words env p words MAX_INLINE_SHELL_DEPTH) ps) = None"
      using silent None rc by (simp add: evaluate_bash_command_segments.simps)
    then have "ask_floor (\<not> b) = None" using gates.foldl_Some by blast
    then show ?thesis using rc by (auto simp: ask_floor_def split: if_splits)
  qed simp
  fix words assume r: "reached env cmd words MAX_INLINE_SHELL_DEPTH"
  have none: "x = None" if "\<And>d. gates.orank x \<le> gates.orank (evaluate_command_words env p words d)" for x
    using reached_rank[OF r, of MAX_INLINE_SHELL_DEPTH x p] that silent orank_None by (metis order_refl)
  have "ask_floor (nc_exhausted (normalize_command_words words) \<or> nc_ambiguous (normalize_command_words words)
          \<or> nc_env_options_uncertain (normalize_command_words words)) = None"
    "ask_floor (nc_has_split_string (normalize_command_words words)) = None"
    by (rule none, rule words_member, simp)+
  then show "peel_trusted (normalize_command_words words)"
    by (auto simp: ask_floor_def peel_trusted_def split: if_splits)
  have esc: "escalate_segment env p (join (str '' '') form) = None"
    if "form \<in> set (command_forms words (nc_words (normalize_command_words words)))" for form
    by (rule none, rule words_member) (use that in simp)
  show "\<forall>form \<in> set (command_forms words (nc_words (normalize_command_words words))).
      evaluate env p (Bash (join (str '' '') form)) \<in> {None, Some Allow}"
  proof
    fix form assume "form \<in> set (command_forms words (nc_words (normalize_command_words words)))"
    from esc[OF this] show "evaluate env p (Bash (join (str '' '') form)) \<in> {None, Some Allow}"
      unfolding evaluate_bash escalate_segment_def
      by (cases rule: evaluate_cases[of env p "Bash (join (str '' '') form)" None]) simp_all
  qed
qed

theorem gate_silence_is_clean_witness:
  "peel_trusted (normalize_command_words [str ''nice'', str ''ls''])"
proof -
  let ?p = "CompiledPolicy_new plain_env (one_rule DenyRule FilterBash ''rm'')"
    and ?ws = "[str ''nice'', str ''ls'']"
  have facts: "cp_has_bash_command_restrictions ?p" "\<not> cp_has_bash_allow_rules ?p"
    "rules_loop plain_env ?p (Bash (str ''nice ls'')) None (indexed_rules ?p) False False = Inr (False, False)"
    "rules_loop plain_env ?p (Bash (str ''ls'')) None (indexed_rules ?p) False False = Inr (False, False)"
    by code_simp+
  have words: "pe_commands plain_env (str ''nice ls'') = Some [?ws]"
    "normalize_command_words ?ws = \<lparr>nc_words = [str ''ls''], nc_has_chdir = False, nc_has_split_string = False,
        nc_env_options_uncertain = False, nc_exhausted = False, nc_ambiguous = False\<rparr>"
    "join (str '' '') ?ws = str ''nice ls''" "join (str '' '') [str ''ls''] = str ''ls''"
    "shell_dash_c_script (map Literal [str ''ls'']) = NotInline" "env_split_string_script [str ''ls''] = None"
    by code_simp+
  have "escalate_segment plain_env ?p (str ''nice ls'') = None" "escalate_segment plain_env ?p (str ''ls'') = None"
    using facts by (simp_all add: escalate_segment_def evaluate_bash evaluate_rules_with_base_def)
  then have "evaluate_command_words plain_env ?p ?ws d = None" for d
    using words by (simp add: evaluate_command_words.simps command_forms_def combine_all_def ask_floor_def
        gates.comb_None_left)
  then have "evaluate_bash_command_gate plain_env ?p (str ''nice ls'') = None"
    using facts words by (simp add: evaluate_bash_command_gate_def evaluate_bash_command_segments.simps combine_all_def
        gates.comb_None_left)
  moreover note facts(1)
  moreover have "reached plain_env (str ''nice ls'') [str ''nice'', str ''ls''] MAX_INLINE_SHELL_DEPTH"
    by (rule reached.here) code_simp
  ultimately show ?thesis using gate_silence_is_clean by blast
qed

end
