(* ===== verification/Perm_Access_Props.thy ===== *)
theory Perm_Access_Props
  imports Perm_Policy_Props
begin

text \<open>
  Native file accesses, side-effecting tools, narrow allow rules and shell globs: the symlink re-check
  only escalates, an allow does not follow a link out of the workspace, Edit rules reach tools one way
  only, and the glob pre-check misses nothing.
\<close>

section \<open>Following links\<close>

lemma combine_escalate:
  "combine_decisions d (escalations e) =
     (case escalations e of None \<Rightarrow> d | Some x \<Rightarrow> (case d of None \<Rightarrow> Some x | Some y \<Rightarrow>
        Some (if decision_rank x \<le> decision_rank y then y else x)))"
  by (cases "escalations e"; cases d) (simp_all add: combine_decisions_def)

lemma escalations_cases: "escalations e = None \<or> escalations e = Some Ask \<or> (\<exists>r. escalations e = Some (Reject r))"
  by (auto simp: escalations_def split: option.split decision.split)

lemma evaluate_shape: "evaluate_rules_with_base env p access base \<in> {None, Some Allow, Some Ask} \<or>
    (\<exists>r. evaluate_rules_with_base env p access base = Some (Reject r))"
  by (cases rule: evaluate_cases[of env p access base]) auto

definition binding :: "decision option \<Rightarrow> bool" where
  "binding d \<longleftrightarrow> d = Some Ask \<or> (\<exists>r. d = Some (Reject r))"

text \<open>\<open>followed\<close>: the target the re-check looks at, when there is one.\<close>

definition followed :: "('g, 'z) perm_env_scheme \<Rightarrow> access_kind \<Rightarrow> ustring option \<Rightarrow> symlink_follow" where
  "followed env access cwd = (case native_file_path access of
       None \<Rightarrow> FollowNone
     | Some path \<Rightarrow>
         (case raw_absolute_tool_path path cwd of
            None \<Rightarrow> FollowNone
          | Some raw \<Rightarrow> symlink_target env path raw (path_match_string (absolute_normalized_path path cwd))))"

lemma details_followed:
  "evaluate_with_cwd_details env p access cwd =
     (let base = map_option RuleBase_new cwd; direct = evaluate_rules_with_base env p access base in
      case followed env access cwd of
        FollowNone \<Rightarrow> (direct, False)
      | Unresolvable \<Rightarrow>
          if native_path_restrictions_apply p access then (combine_decisions direct (Some Ask), True) else (direct, False)
      | FollowTarget resolved \<Rightarrow>
          (combine_decisions
             (allow_after_link env p (the (native_file_path access)) (access_with_path access resolved) resolved base direct)
             (escalations (evaluate_rules_with_base env p (access_with_path access resolved) base)), False))"
proof (cases "native_file_path access")
  case (Some path)
  show ?thesis
  proof (cases "raw_absolute_tool_path path cwd")
    case raw: (Some raw)
    show ?thesis
      by (cases "symlink_target env path raw (path_match_string (absolute_normalized_path path cwd))")
        (simp_all add: evaluate_with_cwd_details_def followed_def Let_def Some raw)
  qed (simp add: evaluate_with_cwd_details_def followed_def Let_def Some)
qed (simp add: evaluate_with_cwd_details_def followed_def Let_def)

text \<open>
  C37: Following links only escalates. A rejection by the direct path stays that rejection, a prompt is
  at most turned into a rejection, and an allow is the outcome only when the direct path was allowed;
  a rejection of the link's target rejects, a prompt for the target prompts or rejects, and a link that
  cannot be resolved prompts or rejects when some deny or ask rule is for this kind of access. Without such
  a rule, and without a link, the decision is the direct one.
\<close>

theorem symlink_recheck_escalates:
  fixes env :: "('g, 'z) perm_env_scheme" and p :: "'g compiled_policy" and access :: access_kind and cwd :: "ustring option"
  defines "base \<equiv> map_option RuleBase_new cwd"
    and "direct \<equiv> evaluate_rules_with_base env p access (map_option RuleBase_new cwd)"
    and "d \<equiv> evaluate_with_cwd env p access cwd"
  shows "(\<forall>r. direct = Some (Reject r) \<longrightarrow> d = Some (Reject r))
    \<and> (direct = Some Ask \<longrightarrow> binding d)
    \<and> (d = Some Allow \<longrightarrow> direct = Some Allow)
    \<and> (\<forall>resolved r. followed env access cwd = FollowTarget resolved
         \<and> evaluate_rules_with_base env p (access_with_path access resolved) base = Some (Reject r) \<longrightarrow>
         (\<exists>r'. d = Some (Reject r')))
    \<and> (\<forall>resolved. followed env access cwd = FollowTarget resolved
         \<and> evaluate_rules_with_base env p (access_with_path access resolved) base = Some Ask \<longrightarrow> binding d)
    \<and> (followed env access cwd = Unresolvable \<and> native_path_restrictions_apply p access \<longrightarrow>
         binding d \<and> snd (evaluate_with_cwd_details env p access cwd))
    \<and> (followed env access cwd = FollowNone \<or> followed env access cwd = Unresolvable \<and> \<not> native_path_restrictions_apply p access
         \<longrightarrow> d = direct)"
proof (cases "followed env access cwd")
  case FollowNone
  then show ?thesis unfolding d_def direct_def base_def evaluate_with_cwd_def details_followed by (simp add: Let_def binding_def)
next
  case Unresolvable
  have "direct \<in> {None, Some Allow, Some Ask} \<or> (\<exists>r. direct = Some (Reject r))"
    unfolding direct_def by (rule evaluate_shape)
  then show ?thesis using Unresolvable
    unfolding d_def direct_def base_def evaluate_with_cwd_def details_followed Let_def
    by (auto simp: binding_def combine_decisions_def)
next
  case (FollowTarget resolved)
  let ?e = "evaluate_rules_with_base env p (access_with_path access resolved) base"
  define d0 where "d0 =
    allow_after_link env p (the (native_file_path access)) (access_with_path access resolved) resolved base direct"
  have d: "d = combine_decisions d0 (escalations ?e)"
    using FollowTarget unfolding d_def direct_def base_def evaluate_with_cwd_def details_followed d0_def by (simp add: Let_def)
  have d0: "d0 = direct \<or> d0 = None \<and> direct = Some Allow"
    unfolding d0_def allow_after_link_def by (auto split: option.split decision.split)
  have shape: "direct \<in> {None, Some Allow, Some Ask} \<or> (\<exists>r. direct = Some (Reject r))"
    unfolding direct_def by (rule evaluate_shape)
  have esc: "?e = Some (Reject r) \<Longrightarrow> escalations ?e = Some (Reject r)" "?e = Some Ask \<Longrightarrow> escalations ?e = Some Ask" for r
    by (simp_all add: escalations_def)
  show ?thesis
    using d0 shape escalations_cases[of ?e] esc FollowTarget
    unfolding d combine_escalate by (auto simp: binding_def)
qed

text \<open>In this file system \<open>/w/l\<close> is a link to \<open>/secret\<close> and \<open>/w/x\<close> a link that cannot be read.\<close>

definition link_env :: "ustring perm_env" where
  "link_env = plain_env\<lparr>pe_fs := \<lparr>fs_canonicalize = (\<lambda>s. if s = str ''/w/l'' then Some (str ''/secret'') else if s = str ''/w'' then Some s else None),
     fs_lstat = (\<lambda>s. if s = str ''/w/x'' then Link else NotFound), fs_read_link = (\<lambda>_. None)\<rparr>\<rparr>"

theorem symlink_recheck_escalates_witness:
  "\<exists>r'. evaluate_with_cwd link_env (CompiledPolicy_new link_env (one_rule DenyRule FilterRead ''/secret''))
     (Read (Some (str ''l''))) (Some (str ''/w'')) = Some (Reject r')"
proof -
  have "followed link_env (Read (Some (str ''l''))) (Some (str ''/w'')) = FollowTarget (str ''/secret'')"
    by code_simp
  moreover have "evaluate_rules_with_base link_env (CompiledPolicy_new link_env (one_rule DenyRule FilterRead ''/secret''))
      (access_with_path (Read (Some (str ''l''))) (str ''/secret'')) (map_option RuleBase_new (Some (str ''/w'')))
      = Some (Reject (deny_reason (hd (pc_rules (one_rule DenyRule FilterRead ''/secret'')))))"
    by code_simp
  ultimately show ?thesis
    using symlink_recheck_escalates[of link_env "CompiledPolicy_new link_env (one_rule DenyRule FilterRead ''/secret'')"
        "Read (Some (str ''l''))" "Some (str ''/w'')"] by blast
qed

section \<open>Allows and the workspace\<close>

text \<open>
  An allow does not leave the workspace through a link. When an access inside the workspace follows a
  link and is still allowed, the target lies inside the physical workspace, or an allow rule covers the
  target itself or one of its spellings through a linked ancestor of the workspace.
\<close>

theorem allow_stays_in_workspace:
  fixes env :: "('g, 'z) perm_env_scheme" and p :: "'g compiled_policy" and cwd path :: ustring
  assumes "evaluate_with_cwd env p access (Some cwd) = Some Allow" "native_file_path access = Some path"
    and "followed env access (Some cwd) = FollowTarget resolved"
    and "path_starts_with (absolute_normalized_path path (Some cwd)) (normalize_lexically cwd)"
  defines "root \<equiv> (case physical (pe_fs env) (RuleBase_new cwd) of Some x \<Rightarrow> x | None \<Rightarrow> normalize_lexically cwd)"
  shows "path_starts_with resolved root
    \<or> allow_rule_matches env p (access_with_path access resolved) (without_physical (RuleBase_new root))
    \<or> (\<exists>ancestor alias. alias_spelling (pe_fs env) resolved ancestor = Some alias
         \<and> allow_rule_matches env p (access_with_path access (path_match_string alias)) (without_physical (RuleBase_new root)))"
proof (rule ccontr)
  assume bad: "\<not> ?thesis"
  have awp: "access_with_path (access_with_path access resolved) q = access_with_path access q" for q
    using assms(2) by (cases access) auto
  let ?b = "RuleBase_new cwd" and ?direct = "evaluate_rules_with_base env p access (Some (RuleBase_new cwd))"
  have b: "rb_lexical ?b = cwd" "rb_lexical_normalized ?b = normalize_lexically cwd" by (simp_all add: RuleBase_new_def)
  have "allow_leaves_workspace env p path (access_with_path access resolved) resolved ?b"
    using bad assms(4) unfolding allow_leaves_workspace_def b Let_def root_def awp
    by (auto simp: list_ex_iff split: option.splits)
  then have d: "evaluate_with_cwd env p access (Some cwd) =
      combine_decisions (if ?direct = Some Allow then None else ?direct)
        (escalations (evaluate_rules_with_base env p (access_with_path access resolved) (Some ?b)))"
    using assms(2,3) unfolding evaluate_with_cwd_def details_followed
    by (simp add: Let_def allow_after_link_def split: option.split decision.split)
  then show False
    using assms(1) escalations_cases[of "evaluate_rules_with_base env p (access_with_path access resolved) (Some ?b)"]
    unfolding d combine_escalate by (auto split: option.splits if_splits)
qed

definition two_rules :: permission_config where
  "two_rules = PermissionConfig_new
     [\<lparr>pr_action = AllowRule, pr_tool = FilterRead, pr_pattern = Some (str ''l''), pr_pattern_mode = Glob\<rparr>,
      \<lparr>pr_action = AllowRule, pr_tool = FilterRead, pr_pattern = Some (str ''/secret''), pr_pattern_mode = Glob\<rparr>]"

theorem allow_stays_in_workspace_witness:
  "path_starts_with (str ''/secret'') (str ''/w'')
    \<or> allow_rule_matches link_env (CompiledPolicy_new link_env two_rules) (Read (Some (str ''/secret'')))
        (without_physical (RuleBase_new (str ''/w'')))
    \<or> (\<exists>ancestor alias. alias_spelling (pe_fs link_env) (str ''/secret'') ancestor = Some alias
         \<and> allow_rule_matches link_env (CompiledPolicy_new link_env two_rules) (Read (Some (path_match_string alias)))
             (without_physical (RuleBase_new (str ''/w''))))"
proof -
  have facts: "evaluate_with_cwd link_env (CompiledPolicy_new link_env two_rules) (Read (Some (str ''l''))) (Some (str ''/w'')) = Some Allow"
    "native_file_path (Read (Some (str ''l''))) = Some (str ''l'')"
    "followed link_env (Read (Some (str ''l''))) (Some (str ''/w'')) = FollowTarget (str ''/secret'')"
    "path_starts_with (absolute_normalized_path (str ''l'') (Some (str ''/w''))) (normalize_lexically (str ''/w''))"
    by code_simp+
  have root: "physical (pe_fs link_env) (RuleBase_new (str ''/w'')) = None" "normalize_lexically (str ''/w'') = str ''/w''"
    by code_simp+
  show ?thesis using allow_stays_in_workspace[OF facts] unfolding root by simp
qed

section \<open>Tools and Edit rules\<close>

text \<open>
  Edit rules reach side-effecting tools one way only. On such a tool an Edit rule applies just when
  it is a tool-wide deny or ask; an Edit allow, or an Edit rule with a path pattern, never does. A Read
  rule reaches Grep, but no rule of one tool other than \<open>any\<close> reaches session bookkeeping.
\<close>

theorem edit_reaches_tools_one_way:
  fixes env :: "('g, 'z) perm_env_scheme"
  shows "(pr_tool r = FilterEdit \<longrightarrow>
      (applies env r (Tool name) base \<longleftrightarrow> restricts r \<and> is_tool_wide_pattern (pr_pattern r)))
    \<and> (applies env r Session base \<longrightarrow> pr_tool r = FilterAny \<and> is_tool_wide_pattern (pr_pattern r))
    \<and> (pr_tool r = FilterRead \<longrightarrow> rule_reaches (Grep path g) r)"
proof (intro conjI impI)
  assume e: "pr_tool r = FilterEdit"
  then show "applies env r (Tool name) base \<longleftrightarrow> restricts r \<and> is_tool_wide_pattern (pr_pattern r)"
    by (cases "pr_action r")
      (auto simp: applies_def rule_reaches_def is_tool_def restricts_def is_tool_wide_pattern_def pattern_matches_def
        alias_matches_def split: option.splits)
next
  assume a: "applies env r Session base"
  then show "pr_tool r = FilterAny"
    by (cases "pr_tool r") (simp_all add: applies_def rule_reaches_def is_tool_def)
  show "is_tool_wide_pattern (pr_pattern r)"
    using a by (cases "pr_pattern r")
      (auto simp: applies_def is_tool_wide_pattern_def pattern_matches_def alias_matches_def Let_def split: if_splits)
qed (simp add: rule_reaches_def is_tool_def)

theorem edit_reaches_tools_one_way_witness:
  "applies plain_env \<lparr>pr_action = DenyRule, pr_tool = FilterEdit, pr_pattern = None, pr_pattern_mode = Glob\<rparr>
     (Tool (str ''scheduler_create'')) None"
  using edit_reaches_tools_one_way[of "\<lparr>pr_action = DenyRule, pr_tool = FilterEdit, pr_pattern = None, pr_pattern_mode = Glob\<rparr>"
      plain_env "str ''scheduler_create''" None None None]
  by (simp add: restricts_def is_tool_wide_pattern_def)

section \<open>Narrow allow rules\<close>

lemma narrow_words:
  "compiled_from env rules p \<Longrightarrow> bash_words_allowed env p words NarrowOnly \<Longrightarrow> bash_words_allowed env p words ScopeAny"
  using bash_words_allowed_compiled[of env rules p words] by (auto simp: allows_words_def)

text \<open>
  What auto mode lets past its classifier is already allowed. If narrow allow rules alone authorize a
  Bash command and no deny or ask rule applies, the full evaluation allows it; and every command of the
  script is then covered by an allow rule that is not a catch-all and is not headed by a program that
  runs code handed to it.
\<close>

theorem narrow_implies_allow:
  fixes env :: "('g, 'z) perm_env_scheme" and c :: permission_config
  assumes "narrow_allow_authorizes env (CompiledPolicy_new env c) (Bash cmd)"
    and "\<forall>r \<in> set (pc_rules c). restricts r \<longrightarrow> \<not> applies env r (Bash cmd) None"
  shows "evaluate env (CompiledPolicy_new env c) (Bash cmd) = Some Allow
    \<and> (\<forall>segments words. pe_commands env cmd = Some segments \<and> words \<in> set segments \<longrightarrow>
         \<not> head_is_exec_vehicle (peel_all words)
         \<and> (\<exists>r \<in> set (pc_rules c). \<not> rule_is_catchall env r \<and> allows_words env ScopeAny (peel_all words) r))"
proof (intro conjI allI impI)
  let ?p = "CompiledPolicy_new env c"
  have chain: "bash_chain_fully_allowed env ?p cmd MAX_INLINE_SHELL_DEPTH NarrowOnly" and on: "cp_has_bash_allow_rules ?p"
    using assms(1) by (simp_all add: narrow_allow_authorizes_def)
  have "bash_allowed env ?p cmd"
    unfolding bash_allowed_def using chain_mono[OF narrow_words[OF compiled_full] chain] on by blast
  moreover have "\<not> some_applies env ?p (Bash cmd) None act" if "act \<noteq> AllowRule" for act
    unfolding some_applies_compiled[OF compiled_full] using assms(2) that by (cases act) (auto simp: restricts_def)
  ultimately show "evaluate env ?p (Bash cmd) = Some Allow"
    unfolding evaluate_bash
    by (cases rule: evaluate_cases[of env ?p "Bash cmd" None]) (auto simp: allow_granted_def)
  fix segments words assume s: "pe_commands env cmd = Some segments \<and> words \<in> set segments"
  then have w: "peel_trusted (normalize_command_words words)"
      "bash_words_allowed env ?p (nc_words (normalize_command_words words)) NarrowOnly"
    using chain chain_iff[of env ?p cmd] by auto
  note cov = w(2)[unfolded trusted_peel_all[OF w(1)] bash_words_allowed_compiled[OF compiled_full]]
  show "\<not> head_is_exec_vehicle (peel_all words)" using cov by simp
  show "\<exists>r \<in> set (pc_rules c). \<not> rule_is_catchall env r \<and> allows_words env ScopeAny (peel_all words) r"
    using cov by (auto simp: allows_words_def)
qed

theorem narrow_implies_allow_witness:
  "evaluate plain_env (CompiledPolicy_new plain_env (one_rule AllowRule FilterBash ''git'')) (Bash (str ''git log'')) = Some Allow"
proof -
  let ?p = "CompiledPolicy_new plain_env (one_rule AllowRule FilterBash ''git'')" and ?ws = "map str [''git'', ''log'']"
  have cmds: "pe_commands plain_env (str ''git log'') = Some [?ws]" by code_simp
  have facts: "peel_trusted (normalize_command_words ?ws)"
    "bash_words_allowed plain_env ?p (nc_words (normalize_command_words ?ws)) NarrowOnly"
    "shell_dash_c_script (map Literal (nc_words (normalize_command_words ?ws))) = NotInline"
    "cp_has_bash_allow_rules ?p"
    by code_simp+
  have "narrow_allow_authorizes plain_env ?p (Bash (str ''git log''))"
    unfolding narrow_allow_authorizes_def access_kind.case chain_iff[of plain_env ?p "str ''git log''"] cmds
    using facts by simp
  then show ?thesis using narrow_implies_allow[of plain_env "one_rule AllowRule FilterBash ''git''" "str ''git log''"]
    by (simp add: one_rule_def PermissionConfig_new_def restricts_def)
qed

section \<open>Colon rules and globs\<close>

text \<open>
  A \<open>Bash(git:*)\<close> rule is a raw prefix only when it restricts. Its pattern is the bare prefix; a deny
  or ask rule with it matches \<open>gitleaks detect\<close>, but an allow rule with it falls back to the glob of the
  literal, because allow matching asks for a word boundary.
\<close>

theorem colon_rule_boundary:
  fixes env :: "('g, 'z) perm_env_scheme" and g :: 'g
  defines "rule \<equiv> \<lambda>act. \<lparr>pr_action = act, pr_tool = FilterBash, pr_pattern = Some (str ''git''), pr_pattern_mode = Glob\<rparr>"
  shows "parse_permission_rule (str ''Bash(git:*)'') act = Inr (rule act)
    \<and> pattern_matches env (Bash (str ''gitleaks detect'')) (rule DenyRule) (Some g) base
    \<and> bash_allow_pattern_matches env (str ''gitleaks detect'') (rule AllowRule) (Some g) =
        pe_glob_match env False g (str ''gitleaks detect'')"
proof (intro conjI)
  have "parse_permission_rule (str ''Bash(git:*)'') act = Inr (rule act)" for act
    unfolding rule_def by (cases act; code_simp)
  then show "parse_permission_rule (str ''Bash(git:*)'') act = Inr (rule act)" .
  show "pattern_matches env (Bash (str ''gitleaks detect'')) (rule DenyRule) (Some g) base"
    by (simp add: rule_def pattern_matches_def str_simps)
  show "bash_allow_pattern_matches env (str ''gitleaks detect'') (rule AllowRule) (Some g) =
        pe_glob_match env False g (str ''gitleaks detect'')"
    by (simp add: rule_def bash_allow_pattern_matches_def bash_command_matches_pattern_def matches_command_prefix_def
        glob_matches_def str_simps)
qed

text \<open>
  The glob pre-check of read targets misses nothing. If it finds no restricting rule a shell glob
  could meet, then no text the shell glob expands to is accepted by any deny or ask rule that reaches the
  access, read with wildcards that may cross a slash, at any depth for a relative rule, and for
  everything below a directory it names; and a tool-wide restriction never passes it.
\<close>

theorem glob_precheck_complete:
  fixes env :: "('g, 'z) perm_env_scheme" and p :: "'g compiled_policy"
  assumes "slash_caseless (\<lambda>c. pe_to_lowercase env [c])" "\<not> restricted_pattern_may_match env p probe pat"
    and "r \<in> set (policy_rules p)" "restricts r" "rule_reaches probe r"
  shows "\<exists>rp. pr_pattern r = Some rp \<and>
    (\<forall>loose \<in> set (loosened_rules rp). \<forall>s. accepts (\<lambda>c. pe_to_lowercase env [c]) (glob_steps True pat) s \<longrightarrow>
       \<not> accepts (\<lambda>c. pe_to_lowercase env [c]) (glob_steps False loose) s)"
proof -
  have "\<not> (case pr_pattern r of None \<Rightarrow> True
      | Some rp \<Rightarrow> rp = str ''*'' \<or> glob_patterns_may_intersect (\<lambda>c. pe_to_lowercase env [c]) pat rp)"
    using assms(2-5) by (auto simp: restricted_pattern_may_match_def list_ex_iff)
  then obtain rp where rp: "pr_pattern r = Some rp" "\<not> glob_patterns_may_intersect (\<lambda>c. pe_to_lowercase env [c]) pat rp"
    by (cases "pr_pattern r") auto
  then show ?thesis using may_intersect_iff[OF assms(1)] by blast
qed

theorem glob_precheck_complete_witness:
  "\<exists>rp. pr_pattern (hd (pc_rules (one_rule DenyRule FilterRead ''**/.env''))) = Some rp \<and>
    (\<forall>loose \<in> set (loosened_rules rp). \<forall>s. accepts (\<lambda>c. pe_to_lowercase plain_env [c]) (glob_steps True (str ''/w/*.md'')) s \<longrightarrow>
       \<not> accepts (\<lambda>c. pe_to_lowercase plain_env [c]) (glob_steps False loose) s)"
proof (rule glob_precheck_complete)
  show "slash_caseless (\<lambda>c. pe_to_lowercase plain_env [c])"
    by (auto simp: slash_caseless_def plain_env_def to_ascii_lower_def is_ascii_upper_def)
  show "\<not> restricted_pattern_may_match plain_env (CompiledPolicy_new plain_env (one_rule DenyRule FilterRead ''**/.env''))
      (Read None) (str ''/w/*.md'')"
    by code_simp
  show "hd (pc_rules (one_rule DenyRule FilterRead ''**/.env''))
      \<in> set (policy_rules (CompiledPolicy_new plain_env (one_rule DenyRule FilterRead ''**/.env'')))"
    using compiled_full[of plain_env "one_rule DenyRule FilterRead ''**/.env''"]
    by (simp add: compiled_from_def one_rule_def PermissionConfig_new_def)
qed (simp_all add: one_rule_def PermissionConfig_new_def restricts_def rule_reaches_def is_tool_def)

end
