(* ===== verification/Perm_Modes.thy ===== *)
theory Perm_Modes
  imports Perm_Access_Props Peer_Address
begin

text \<open>
  Permission modes: \<open>permissions.defaultMode\<close> of \<^verbatim>\<open>rules.rs\<close>, the mode a configuration puts a session in,
  and its report to peers, both of \<^verbatim>\<open>types.rs\<close>, over the peer modes of \<^verbatim>\<open>fuigo-peer/src/mode.rs\<close>.
\<close>

section \<open>Default modes\<close>

datatype default_permission_mode = DMDefault | DMAcceptEdits | DMPlan | DMAuto | DMDontAsk | DMBypassPermissions

definition default_mode_names :: "(string \<times> default_permission_mode) list" where
  "default_mode_names =
     [(''default'', DMDefault), (''acceptEdits'', DMAcceptEdits), (''plan'', DMPlan), (''auto'', DMAuto),
      (''dontAsk'', DMDontAsk), (''bypassPermissions'', DMBypassPermissions)]"

definition default_mode_from_str :: "ustring \<Rightarrow> (default_permission_mode, ustring) result" where
  "default_mode_from_str s = ok_or (map_of (map (\<lambda>(n, m). (str n, m)) default_mode_names) s) s"

fun resolved_base :: "default_permission_mode \<Rightarrow> resolved_base_mode" where
  "resolved_base DMAcceptEdits = BaseAcceptEdits"
| "resolved_base DMBypassPermissions = BaseBypassPermissions"
| "resolved_base _ = BaseDefault"

record default_mode_effects =
  dme_prompt_policy :: prompt_policy
  dme_accept_edits :: bool
  dme_bypass_permissions :: bool

definition no_effects :: default_mode_effects where
  "no_effects = \<lparr>dme_prompt_policy = PromptAsk, dme_accept_edits = False, dme_bypass_permissions = False\<rparr>"

fun mode_effects :: "default_permission_mode \<Rightarrow> default_mode_effects" where
  "mode_effects DMAcceptEdits = no_effects\<lparr>dme_accept_edits := True\<rparr>"
| "mode_effects DMBypassPermissions = no_effects\<lparr>dme_bypass_permissions := True\<rparr>"
| "mode_effects DMDefault = no_effects"
| "mode_effects DMPlan = no_effects"
| "mode_effects DMDontAsk = no_effects\<lparr>dme_prompt_policy := PromptDeny\<rparr>"
| "mode_effects DMAuto = no_effects\<lparr>dme_prompt_policy := PromptAuto\<rparr>"


section \<open>The reported mode\<close>

datatype effective_permission_mode =
    EMDefault | EMAcceptEdits | EMAuto | EMDontAsk | EMBypassPermissions | EMAllowAnyRule | EMYolo | EMAllowAll
  | EMAlwaysAllow

definition effective_modes_all :: "effective_permission_mode list" where
  "effective_modes_all = [EMDefault, EMAcceptEdits, EMAuto, EMDontAsk, EMBypassPermissions, EMAllowAnyRule, EMYolo,
     EMAllowAll, EMAlwaysAllow]"

record effective_peer_mode =
  em_plan_active :: bool
  em_base :: effective_permission_mode
  em_session_edit_grant :: bool

fun peer_base_of :: "effective_permission_mode \<Rightarrow> peer_base" where
  "peer_base_of EMDefault = PBDefault"
| "peer_base_of EMAcceptEdits = PBAcceptEdits"
| "peer_base_of EMAuto = PBAuto"
| "peer_base_of EMDontAsk = PBDontAsk"
| "peer_base_of EMBypassPermissions = PBBypassPermissions"
| "peer_base_of EMAllowAnyRule = PBAllowAnyRule"
| "peer_base_of EMYolo = PBYolo"
| "peer_base_of EMAllowAll = PBAllowAll"
| "peer_base_of EMAlwaysAllow = PBAlwaysAllow"

fun effective_of_base :: "peer_base \<Rightarrow> effective_permission_mode" where
  "effective_of_base PBDefault = EMDefault"
| "effective_of_base PBAcceptEdits = EMAcceptEdits"
| "effective_of_base PBAuto = EMAuto"
| "effective_of_base PBDontAsk = EMDontAsk"
| "effective_of_base PBBypassPermissions = EMBypassPermissions"
| "effective_of_base PBAllowAnyRule = EMAllowAnyRule"
| "effective_of_base PBYolo = EMYolo"
| "effective_of_base PBAllowAll = EMAllowAll"
| "effective_of_base PBAlwaysAllow = EMAlwaysAllow"

definition peer_mode_of :: "effective_peer_mode \<Rightarrow> peer_mode" where
  "peer_mode_of m = peer_mode_new (em_plan_active m) (peer_base_of (em_base m)) (em_session_edit_grant m)"

fun effective_of_peer_mode :: "peer_mode \<Rightarrow> (effective_peer_mode, unit) result" where
  "effective_of_peer_mode UnknownMode = Inl ()"
| "effective_of_peer_mode (Known k) =
     Inr \<lparr>em_plan_active = km_plan_active k, em_base = effective_of_base (km_base k),
          em_session_edit_grant = km_session_edit_grant k\<rparr>"

definition has_allow_any :: "('g, 'z) perm_env_scheme \<Rightarrow> permission_config \<Rightarrow> bool" where
  "has_allow_any env c =
     list_ex (\<lambda>r. pr_action r = AllowRule \<and> pr_tool r = FilterAny \<and> rule_is_catchall env r) (pc_rules c)"

definition base_mode_of :: "('g, 'z) perm_env_scheme \<Rightarrow> permission_config option \<Rightarrow> effective_permission_mode" where
  "base_mode_of env config = (case config of
       None \<Rightarrow> EMDefault
     | Some c \<Rightarrow>
         (if pc_prompt_policy c = PromptAllow then EMAlwaysAllow
          else if pc_resolved_base c = BaseBypassPermissions then EMBypassPermissions
          else if has_allow_any env c then EMAllowAnyRule
          else if pc_prompt_policy c = PromptDeny then EMDontAsk
          else case pc_resolved_base c of BaseAcceptEdits \<Rightarrow> EMAcceptEdits | _ \<Rightarrow> EMDefault))"


section \<open>Properties\<close>

lemma base_roundtrip [simp]: "effective_of_base (peer_base_of m) = m" "peer_base_of (effective_of_base b) = b"
  by (cases m; simp) (cases b; simp)

lemma effective_roundtrip: "effective_of_peer_mode (peer_mode_of m) = Inr m"
  by (cases m) (simp add: peer_mode_of_def peer_mode_new_def)

text \<open>
  A session's mode report loses nothing on its way to a peer. Reported, written on the wire, read and
  converted back, it is the same three dimensions; two sessions' reports compare equal as peer modes
  exactly when all three agree; and a mode the receiver cannot read converts to no local mode.
\<close>

theorem mode_report_roundtrip:
  fixes m m' :: effective_peer_mode
  shows "effective_of_peer_mode (from_wire (to_wire (peer_mode_of m))) = Inr m
    \<and> (mode_eq (peer_mode_of m) (peer_mode_of m') \<longleftrightarrow> m = m')
    \<and> effective_of_peer_mode UnknownMode = Inl ()"
proof -
  obtain k where k: "peer_mode_of m = Known k" unfolding peer_mode_of_def peer_mode_new_def by blast
  have "from_wire (to_wire (peer_mode_of m)) = peer_mode_of m" unfolding k by (rule from_to_wire)
  then have "effective_of_peer_mode (from_wire (to_wire (peer_mode_of m))) = Inr m" by (simp only: effective_roundtrip)
  moreover have "mode_eq (peer_mode_of m) (peer_mode_of m') \<longleftrightarrow> m = m'"
  proof -
    have "mode_eq (peer_mode_of m) (peer_mode_of m') \<longleftrightarrow> peer_mode_of m = peer_mode_of m'"
      unfolding peer_mode_of_def peer_mode_new_def by simp
    also have "\<dots> \<longleftrightarrow> m = m'" using effective_roundtrip sum.inject(2) by metis
    finally show ?thesis .
  qed
  moreover have "effective_of_peer_mode UnknownMode = Inl ()" by simp
  ultimately show ?thesis by blast
qed

lemma tool_wide_matches: "is_tool_wide_pattern (pr_pattern r) \<Longrightarrow> pattern_matches env a r m b"
  by (auto simp: is_tool_wide_pattern_def pattern_matches_def)

text \<open>
  A base that prompts is never reported for a configuration that approves everything. When a
  configuration reports one of the bases default, accept-edits or don't-ask, its prompt policy is not
  allow, it does not bypass permissions, and it holds no tool-wide allow rule for every tool.
\<close>

theorem prompting_base_honest:
  fixes env :: "('g, 'z) perm_env_scheme" and c :: permission_config
  assumes "base_mode_of env (Some c) \<in> {EMDefault, EMAcceptEdits, EMDontAsk}"
  shows "pc_prompt_policy c \<noteq> PromptAllow \<and> pc_resolved_base c \<noteq> BaseBypassPermissions
    \<and> (\<forall>r \<in> set (pc_rules c). pr_action r = AllowRule \<and> pr_tool r = FilterAny \<longrightarrow> \<not> is_tool_wide_pattern (pr_pattern r))"
proof (intro conjI ballI impI)
  show "pc_prompt_policy c \<noteq> PromptAllow" "pc_resolved_base c \<noteq> BaseBypassPermissions"
    using assms by (auto simp: base_mode_of_def split: if_splits)
  fix r assume r: "r \<in> set (pc_rules c)" "pr_action r = AllowRule \<and> pr_tool r = FilterAny"
  have "\<not> has_allow_any env c"
    using assms by (auto simp: base_mode_of_def split: if_splits)
  then have "\<not> rule_is_catchall env r" using r by (auto simp: has_allow_any_def list_ex_iff)
  then show "\<not> is_tool_wide_pattern (pr_pattern r)"
    using r(2) tool_wide_matches[of r] by (auto simp: rule_is_catchall_def Let_def list_all_iff)
qed

theorem prompting_base_honest_witness:
  "base_mode_of plain_env (Some (one_rule AllowRule FilterAny ''git'')) = EMDefault
   \<and> \<not> is_tool_wide_pattern (pr_pattern (hd (pc_rules (one_rule AllowRule FilterAny ''git''))))"
proof -
  have e: "base_mode_of plain_env (Some (one_rule AllowRule FilterAny ''git'')) = EMDefault" by code_simp
  have "\<not> is_tool_wide_pattern (pr_pattern (hd (pc_rules (one_rule AllowRule FilterAny ''git''))))"
    using prompting_base_honest[of plain_env "one_rule AllowRule FilterAny ''git''"] e
    by (simp add: one_rule_def PermissionConfig_new_def)
  with e show ?thesis by simp
qed

end
