(* ===== verification/Egress_Origin.thy ===== *)
theory Egress_Origin
  imports Prelude
begin

text \<open>
  Which website a request names and whether it may be reached: \<open>WebsiteOrigin\<close> and \<open>WebsitePolicy\<close> of
  \<^verbatim>\<open>fuigo-sandbox/src/network_policy.rs\<close>, \<open>split_host_port\<close> of \<^verbatim>\<open>fuigo-sandbox/src/command/grants.rs\<close>,
  and the vendor guard of \<^verbatim>\<open>fuigo-extra-ca/src/egress.rs\<close>. The \<open>url\<close> crate is the parameter \<open>url_parse\<close>,
  and the environment variable of the guard is an argument.
\<close>


section \<open>String helpers\<close>

definition lower_ascii :: "ustring \<Rightarrow> ustring" where
  "lower_ascii s = map to_ascii_lower s"

definition eq_ignore_ascii_case :: "ustring \<Rightarrow> ustring \<Rightarrow> bool" where
  "eq_ignore_ascii_case a b \<longleftrightarrow> lower_ascii a = lower_ascii b"

text \<open>\<open>strip_suffix(c).unwrap_or(s)\<close> and \<open>split_once(c)\<close>.\<close>

definition drop_last_char :: "nat \<Rightarrow> ustring \<Rightarrow> ustring" where
  "drop_last_char c s = (case strip_suffix [c] s of Some r \<Rightarrow> r | None \<Rightarrow> s)"

definition split_once :: "nat \<Rightarrow> ustring \<Rightarrow> (ustring \<times> ustring) option" where
  "split_once c s = (if c \<in> set s then Some (takeWhile (\<lambda>x. x \<noteq> c) s, drop (length (takeWhile (\<lambda>x. x \<noteq> c) s) + 1) s) else None)"


section \<open>Website origins\<close>

datatype url_host = HostDomain ustring | HostIp

record url_view =
  uv_scheme :: ustring
  uv_host :: "url_host option"
  uv_port :: "nat option"   \<comment> \<open>\<open>port_or_known_default\<close>\<close>

type_synonym url_parser = "ustring \<Rightarrow> url_view option"

record website_origin =
  wo_scheme :: ustring
  wo_hostname :: ustring
  wo_port :: nat

datatype website_origin_error =
  InvalidSyntax | InvalidOrigin ustring | Userinfo | Wildcard | IpLiteral | InvalidHost ustring | PortZero

definition validate_raw_origin :: "ustring \<Rightarrow> (unit, website_origin_error) result" where
  "validate_raw_origin v =
     (if list_ex (\<lambda>c. c \<le> 0x20 \<or> c = 0x7F) v then Inl InvalidSyntax
      else if ch CHR 0x5C \<in> set v then Inl InvalidSyntax
      else rbind (ok_or (case strip_prefix (str ''http://'') v of Some r \<Rightarrow> Some r | None \<Rightarrow> strip_prefix (str ''https://'') v)
                    InvalidSyntax) (\<lambda>rest.
        let authority = drop_last_char (ch CHR ''/'') rest in
        if authority = [] \<or> ch CHR ''/'' \<in> set authority \<or> ch CHR ''?'' \<in> set authority \<or> ch CHR ''#'' \<in> set authority
        then Inl InvalidSyntax
        else if ch CHR ''@'' \<in> set authority then Inl Userinfo
        else if ch CHR ''*'' \<in> set authority then Inl Wildcard
        else Inr ()))"

definition valid_label :: "ustring \<Rightarrow> bool" where
  "valid_label l \<longleftrightarrow> l \<noteq> [] \<and> str_len l \<le> 63 \<and> list_all (\<lambda>c. is_ascii_alphanumeric c \<or> c = ch CHR ''-'') l
     \<and> is_ascii_alphanumeric (hd l) \<and> is_ascii_alphanumeric (last l)"

definition valid_dns_hostname :: "ustring \<Rightarrow> bool" where
  "valid_dns_hostname h \<longleftrightarrow> h \<noteq> [] \<and> str_len h \<le> 253 \<and> list_all valid_label (split_on (ch CHR ''.'') h)"

text \<open>
  \<open>hostname.parse::<IpAddr>().is_ok()\<close> on a valid DNS name: it has no colon, so only the IPv4 form is
  left, four decimal numbers of at most three digits and 255, without leading zeros.
\<close>

definition ipv4_number :: "ustring \<Rightarrow> bool" where
  "ipv4_number w \<longleftrightarrow> w \<noteq> [] \<and> length w \<le> 3 \<and> list_all is_ascii_digit w \<and> digits_value w \<le> 255
     \<and> (length w = 1 \<or> hd w \<noteq> ch CHR ''0'')"

definition parses_as_ip :: "ustring \<Rightarrow> bool" where
  "parses_as_ip h \<longleftrightarrow> (let ws = split_on (ch CHR ''.'') h in length ws = 4 \<and> list_all ipv4_number ws)"

definition WebsiteOrigin_parse :: "url_parser \<Rightarrow> ustring \<Rightarrow> (website_origin, website_origin_error) result" where
  "WebsiteOrigin_parse url_parse v =
     rbind (validate_raw_origin v) (\<lambda>_.
     rbind (ok_or (url_parse v) (InvalidOrigin v)) (\<lambda>url.
     rbind (case uv_host url of
              Some (HostDomain h) \<Rightarrow> Inr (drop_last_char (ch CHR ''.'') h)
            | Some HostIp \<Rightarrow> Inl IpLiteral
            | None \<Rightarrow> Inl InvalidSyntax) (\<lambda>h.
       let hostname = lower_ascii h in
       if \<not> valid_dns_hostname hostname \<or> parses_as_ip hostname then Inl (InvalidHost hostname)
       else rbind (ok_or (uv_port url) InvalidSyntax) (\<lambda>port.
         if port = 0 then Inl PortZero
         else Inr \<lparr>wo_scheme = uv_scheme url, wo_hostname = hostname, wo_port = port\<rparr>))))"

datatype website_action = WebAllow | WebDeny

record website_policy =
  wp_default :: website_action
  wp_allow :: "website_origin list"
  wp_deny :: "website_origin list"

definition policy_evaluate :: "website_policy \<Rightarrow> website_origin \<Rightarrow> website_action" where
  "policy_evaluate p origin =
     (if origin \<in> set (wp_deny p) then WebDeny
      else if origin \<in> set (wp_allow p) then WebAllow
      else wp_default p)"

text \<open>\<open>split_host_port\<close>: the host and the port written after it.\<close>

definition split_host_port :: "ustring \<Rightarrow> ustring \<times> ustring option" where
  "split_host_port v = (case strip_prefix (str ''['') v of
       Some rest \<Rightarrow>
         (case split_once (ch CHR '']'') rest of
            Some (host, tail) \<Rightarrow>
              if tail = [] then (host, None)
              else (case strip_prefix (str '':'') tail of Some port \<Rightarrow> (host, Some port) | None \<Rightarrow> (v, None))
          | None \<Rightarrow> (v, None))
     | None \<Rightarrow>
         (case split_once (ch CHR '':'') v of
            Some (host, port) \<Rightarrow> if ch CHR '':'' \<notin> set port then (host, Some port) else (v, None)
          | None \<Rightarrow> (v, None)))"


section \<open>The vendor guard\<close>

definition BLOCKED_DOMAINS :: "ustring list" where
  "BLOCKED_DOMAINS = map str [''x.ai'', ''grok.com'', ''mixpanel.com'']"

definition is_blocked_host :: "ustring \<Rightarrow> bool" where
  "is_blocked_host host0 =
     (let host = lower_ascii (trim_end_char (ch CHR ''.'') host0) in
      list_ex (\<lambda>blocked. host = blocked
        \<or> (case strip_suffix blocked host of Some pre \<Rightarrow> ends_with (str ''.'') pre | None \<Rightarrow> False)) BLOCKED_DOMAINS)"

datatype upstream_allowance = AllowanceNone | AllowanceAll | AllowanceHosts "ustring list"

definition valid_allow_host :: "ustring \<Rightarrow> bool" where
  "valid_allow_host h \<longleftrightarrow> str_len h \<le> 253 \<and> ch CHR ''.'' \<in> set h
     \<and> \<not> list_all (\<lambda>c. is_ascii_digit c \<or> c = ch CHR ''.'') h
     \<and> list_all (\<lambda>l. l \<noteq> [] \<and> str_len l \<le> 63 \<and> \<not> starts_with (str ''-'') l \<and> \<not> ends_with (str ''-'') l
         \<and> list_all (\<lambda>c. is_ascii_alphanumeric c \<or> c = ch CHR ''-'') l) (split_on (ch CHR ''.'') h)"

fun allow_list_loop :: "ustring list \<Rightarrow> ustring list \<Rightarrow> ustring list option" where
  "allow_list_loop [] hosts = Some hosts"
| "allow_list_loop (entry # rest) hosts =
     (let host = lower_ascii (drop_last_char (ch CHR ''.'') (trim entry)) in
      if \<not> valid_allow_host host then None
      else allow_list_loop rest (if host \<in> set hosts then hosts else hosts @ [host]))"

definition parse_upstream_allowance :: "ustring option \<Rightarrow> upstream_allowance option" where
  "parse_upstream_allowance raw0 = (case raw0 of
       None \<Rightarrow> Some AllowanceNone
     | Some raw \<Rightarrow>
         (let trimmed = trim raw; lower = lower_ascii trimmed in
          if lower \<in> set (map str [''1'', ''true'', ''yes'', ''on'']) then Some AllowanceAll
          else if lower \<in> set (map str ['''', ''0'', ''false'', ''no'', ''off'']) then Some AllowanceNone
          else map_option AllowanceHosts (allow_list_loop (split_on (ch CHR '','') trimmed) [])))"

definition upstream_allowance_of :: "ustring option \<Rightarrow> upstream_allowance" where
  "upstream_allowance_of raw = (case parse_upstream_allowance raw of Some a \<Rightarrow> a | None \<Rightarrow> AllowanceNone)"

definition refuses_under :: "ustring \<Rightarrow> ustring option \<Rightarrow> upstream_allowance \<Rightarrow> bool" where
  "refuses_under host allowed allowance =
     (if \<not> is_blocked_host host \<or> allowed = Some host then False
      else case allowance of
          AllowanceAll \<Rightarrow> False
        | AllowanceNone \<Rightarrow> True
        | AllowanceHosts hosts \<Rightarrow> lower_ascii (drop_last_char (ch CHR ''.'') host) \<notin> set hosts)"

text \<open>The environment variable \<open>FUIGO_ALLOW_UPSTREAM_HOSTS\<close> is the first argument.\<close>

definition is_refused_host :: "ustring option \<Rightarrow> ustring \<Rightarrow> bool" where
  "is_refused_host env_value host = refuses_under host None (upstream_allowance_of env_value)"


section \<open>Blocking follows label boundaries\<close>

lemma split_on_append:
  "split_on d (u @ d # v) = split_on d u @ split_on d v"
proof (induction u)
  case (Cons c u)
  then show ?case by (cases "split_on d u") auto
qed simp

lemma split_suffix_iff:
  assumes "split_on d w = pre @ split_on d v"
  shows "w = v \<or> (\<exists>u. w = u @ d # v)"
proof -
  have "w = join [d] (pre @ split_on d v)" using join_split_on[of d w] assms by simp
  also have "join [d] (pre @ split_on d v) = v \<or> (\<exists>u. join [d] (pre @ split_on d v) = u @ d # v)"
  proof (induction pre)
    case Nil
    then show ?case by (simp add: join_split_on)
  next
    case (Cons x pre)
    obtain y ys where "pre @ split_on d v = y # ys" by (cases "pre @ split_on d v") auto
    then have "join [d] ((x # pre) @ split_on d v) = x @ d # join [d] (pre @ split_on d v)" by simp
    with Cons show ?case by (metis append.assoc append_Cons)
  qed
  finally show ?thesis .
qed

text \<open>
  The vendor guard matches whole labels. A host is blocked exactly when its labels, lower-cased and
  without trailing dots, end with the labels of a blocked domain: the domain itself and every subdomain,
  but neither \<open>prefixx.ai\<close> nor \<open>api.x.ai.evil.example\<close>; and with an allow list only the hosts written in
  it are let through.
\<close>

theorem blocked_host_labels:
  fixes host :: ustring and hosts :: "ustring list"
  defines "labels \<equiv> \<lambda>h. split_on (ch CHR ''.'') (lower_ascii (trim_end_char (ch CHR ''.'') h))"
  shows "(is_blocked_host host \<longleftrightarrow> (\<exists>d \<in> set BLOCKED_DOMAINS. \<exists>pre. labels host = pre @ split_on (ch CHR ''.'') d))
    \<and> (refuses_under host None (AllowanceHosts hosts) \<longleftrightarrow>
      is_blocked_host host \<and> lower_ascii (drop_last_char (ch CHR ''.'') host) \<notin> set hosts)"
proof (intro conjI)
  let ?h = "lower_ascii (trim_end_char (ch CHR ''.'') host)"
  have "?h = d \<or> (case strip_suffix d ?h of Some pre \<Rightarrow> ends_with (str ''.'') pre | None \<Rightarrow> False) \<longleftrightarrow>
      (\<exists>pre. split_on (ch CHR ''.'') ?h = pre @ split_on (ch CHR ''.'') d)" (is "?l \<longleftrightarrow> ?r") for d
  proof
    assume ?l
    then have "?h = d \<or> (\<exists>u. ?h = u @ ch CHR ''.'' # d)"
      by (auto split: option.splits simp: ends_with_iff str_def)
    then show ?r
    proof (elim disjE exE)
      fix u assume "?h = u @ ch CHR ''.'' # d"
      then show ?r using split_on_append[of "ch CHR ''.''" u d] by metis
    qed (auto intro: exI[of _ "[]"])
  next
    assume ?r
    then obtain pre where "split_on (ch CHR ''.'') ?h = pre @ split_on (ch CHR ''.'') d" by blast
    from split_suffix_iff[OF this] show ?l
    proof (elim disjE exE)
      fix u assume "?h = u @ ch CHR ''.'' # d"
      then have "strip_suffix d ?h = Some (u @ str ''.'')" by (simp add: str_def)
      then have "case strip_suffix d ?h of Some pre \<Rightarrow> ends_with (str ''.'') pre | None \<Rightarrow> False"
        by (simp only: option.case ends_with_iff) blast
      then show ?l by blast
    qed simp
  qed
  then show "is_blocked_host host \<longleftrightarrow> (\<exists>d \<in> set BLOCKED_DOMAINS. \<exists>pre. labels host = pre @ split_on (ch CHR ''.'') d)"
    unfolding is_blocked_host_def labels_def Let_def list_ex_iff by simp
  show "refuses_under host None (AllowanceHosts hosts) \<longleftrightarrow>
      is_blocked_host host \<and> lower_ascii (drop_last_char (ch CHR ''.'') host) \<notin> set hosts"
    by (auto simp: refuses_under_def)
qed

end
