(* ===== verification/Egress_Request.thy ===== *)
theory Egress_Request
  imports Egress_Origin
begin

text \<open>
  Reading and rewriting the proxy's HTTP messages: \<^verbatim>\<open>fuigo-egress-proxy/src/request.rs\<close> and the response
  half of \<^verbatim>\<open>http.rs\<close>. A stream is the list of the chunks it will deliver; the \<open>httparse\<close> crate is a
  parameter that yields the pieces of a message head.
\<close>


section \<open>Bytes and streams\<close>

type_synonym octets = "nat list"

definition utf8_cont :: "nat \<Rightarrow> bool" where
  "utf8_cont b \<longleftrightarrow> 0x80 \<le> b \<and> b \<le> 0xBF"

text \<open>\<open>std::str::from_utf8\<close>: shortest forms only, no surrogates, at most \<open>U+10FFFF\<close>.\<close>

fun from_utf8 :: "octets \<Rightarrow> ustring option" where
  "from_utf8 [] = Some []"
| "from_utf8 (b # bs) =
     (if b < 0x80 then map_option (\<lambda>s. b # s) (from_utf8 bs)
      else case bs of [] \<Rightarrow> None | c1 # bs1 \<Rightarrow>
        if 0xC2 \<le> b \<and> b \<le> 0xDF then
          (if utf8_cont c1 then map_option (\<lambda>s. ((b - 0xC0) * 64 + (c1 - 0x80)) # s) (from_utf8 bs1) else None)
        else case bs1 of [] \<Rightarrow> None | c2 # bs2 \<Rightarrow>
          if 0xE0 \<le> b \<and> b \<le> 0xEF then
            (if (if b = 0xE0 then 0xA0 \<le> c1 \<and> c1 \<le> 0xBF else if b = 0xED then 0x80 \<le> c1 \<and> c1 \<le> 0x9F else utf8_cont c1)
                \<and> utf8_cont c2
             then map_option (\<lambda>s. ((b - 0xE0) * 4096 + (c1 - 0x80) * 64 + (c2 - 0x80)) # s) (from_utf8 bs2) else None)
          else case bs2 of [] \<Rightarrow> None | c3 # bs3 \<Rightarrow>
            if 0xF0 \<le> b \<and> b \<le> 0xF4
               \<and> (if b = 0xF0 then 0x90 \<le> c1 \<and> c1 \<le> 0xBF else if b = 0xF4 then 0x80 \<le> c1 \<and> c1 \<le> 0x8F else utf8_cont c1)
               \<and> utf8_cont c2 \<and> utf8_cont c3
            then map_option (\<lambda>s. ((b - 0xF0) * 262144 + (c1 - 0x80) * 4096 + (c2 - 0x80) * 64 + (c3 - 0x80)) # s) (from_utf8 bs3)
            else None)"

datatype chunk = Arrives octets | IoFailure

type_synonym stream = "chunk list"

text \<open>\<open>stream.read(&mut buffer[..limit])\<close>: at most \<open>limit\<close> bytes; no bytes is the end of the stream.\<close>

fun stream_read :: "nat \<Rightarrow> stream \<Rightarrow> (octets, unit) result \<times> stream" where
  "stream_read limit [] = (Inr [], [])"
| "stream_read limit (IoFailure # cs) = (Inl (), cs)"
| "stream_read limit (Arrives bs # cs) =
     (Inr (take limit bs), if length bs \<le> limit then cs else Arrives (drop limit bs) # cs)"

text \<open>What a stream still delivers before it ends or fails, and whether it ends.\<close>

fun data :: "stream \<Rightarrow> octets" where
  "data [] = []"
| "data (IoFailure # cs) = []"
| "data (Arrives bs # cs) = (if bs = [] then [] else bs @ data cs)"

fun ends_cleanly :: "stream \<Rightarrow> bool" where
  "ends_cleanly [] = True"
| "ends_cleanly (IoFailure # cs) = False"
| "ends_cleanly (Arrives bs # cs) = (if bs = [] then True else ends_cleanly cs)"


section \<open>Errors\<close>

datatype proxy_error =
  InvalidOptions | Malformed | TooLarge | BodyUnsupported | Authentication | PolicyDenied | HoldTimeout | ClientGone
  | AddressDenied | Dns | Connect | Timeout | Overloaded | TlsClientHello | TlsSni | TlsEch | ShutdownTimeout | DownstreamIo

definition error_status :: "proxy_error \<Rightarrow> nat \<times> string" where
  "error_status e = (case e of
       Authentication \<Rightarrow> (407, ''proxy_authentication_required'')
     | PolicyDenied \<Rightarrow> (403, ''denied'') | HoldTimeout \<Rightarrow> (403, ''denied'') | AddressDenied \<Rightarrow> (403, ''denied'')
     | TlsSni \<Rightarrow> (403, ''denied'') | TlsEch \<Rightarrow> (403, ''denied'')
     | TlsClientHello \<Rightarrow> (400, ''malformed'')
     | Dns \<Rightarrow> (502, ''upstream_failure'') | Connect \<Rightarrow> (502, ''upstream_failure'')
     | ClientGone \<Rightarrow> (400, ''malformed'') | DownstreamIo \<Rightarrow> (400, ''malformed'')
     | Overloaded \<Rightarrow> (503, ''overloaded'')
     | Timeout \<Rightarrow> (504, ''timeout'') | ShutdownTimeout \<Rightarrow> (504, ''timeout'')
     | InvalidOptions \<Rightarrow> (400, ''malformed'') | Malformed \<Rightarrow> (400, ''malformed'')
     | TooLarge \<Rightarrow> (400, ''malformed'') | BodyUnsupported \<Rightarrow> (400, ''malformed''))"


section \<open>Requests\<close>

datatype httparse_error = TooManyHeaders | OtherHttpError

record http_request_view =
  hq_complete :: bool
  hq_version :: "nat option"
  hq_method :: "ustring option"
  hq_path :: "ustring option"
  hq_headers :: "(ustring \<times> octets) list"

type_synonym request_parser = "nat \<Rightarrow> octets \<Rightarrow> (http_request_view, httparse_error) result"

type_synonym header = "ustring \<times> ustring"

record parsed_request =
  rq_method :: ustring
  rq_target :: ustring
  rq_headers :: "header list"

fun read_headers :: "proxy_error \<Rightarrow> (ustring \<times> octets) list \<Rightarrow> (header list, proxy_error) result" where
  "read_headers e [] = Inr []"
| "read_headers e ((name, raw) # rest) =
     rbind (ok_or (from_utf8 raw) e) (\<lambda>v.
       if list_ex (\<lambda>b. b < 0x20 \<and> b \<noteq> 9) raw then Inl e
       else rbind (read_headers e rest) (\<lambda>hs. Inr ((name, trim v) # hs)))"

definition ParsedRequest_parse :: "request_parser \<Rightarrow> octets \<Rightarrow> nat \<Rightarrow> (parsed_request, proxy_error) result" where
  "ParsedRequest_parse httparse bytes max_headers =
     rbind (map_err (\<lambda>e. case e of TooManyHeaders \<Rightarrow> TooLarge | _ \<Rightarrow> Malformed) (httparse max_headers bytes)) (\<lambda>request.
       if \<not> hq_complete request \<or> hq_version request \<noteq> Some 1 then Inl Malformed
       else rbind (ok_or (hq_method request) Malformed) (\<lambda>meth.
         if \<not> list_all (\<lambda>c. is_ascii_upper c \<or> c = ch CHR ''-'') meth then Inl Malformed
         else rbind (ok_or (hq_path request) Malformed) (\<lambda>target.
           rbind (read_headers Malformed (hq_headers request)) (\<lambda>headers.
             Inr \<lparr>rq_method = meth, rq_target = target, rq_headers = headers\<rparr>))))"

definition single_header :: "proxy_error \<Rightarrow> header list \<Rightarrow> ustring \<Rightarrow> (ustring option, proxy_error) result" where
  "single_header e headers name = (case filter (\<lambda>(h, _). eq_ignore_ascii_case h name) headers of
       [] \<Rightarrow> Inr None
     | [(_, v)] \<Rightarrow> Inr (Some v)
     | _ \<Rightarrow> Inl e)"

definition parse_content_length :: "ustring \<Rightarrow> (nat, proxy_error) result" where
  "parse_content_length v =
     (if v = [] \<or> \<not> list_all is_ascii_digit v then Inl Malformed else ok_or (parse_u64 v) Malformed)"

definition critical_connection_token :: "ustring \<Rightarrow> bool" where
  "critical_connection_token token \<longleftrightarrow> token \<in> set (map str [''host'', ''content-length'', ''transfer-encoding'', ''expect'',
     ''proxy-authorization'', ''proxy-connection'', ''connection'', ''te'', ''trailer'', ''upgrade''])"

definition static_hop_by_hop :: "ustring \<Rightarrow> bool" where
  "static_hop_by_hop name \<longleftrightarrow> name \<in> set (map str [''connection'', ''keep-alive'', ''proxy-authenticate'',
     ''proxy-authentication-info'', ''proxy-authorization'', ''proxy-connection'', ''te'', ''trailer'',
     ''transfer-encoding'', ''upgrade''])"

definition bad_connection_token :: "ustring \<Rightarrow> bool" where
  "bad_connection_token token \<longleftrightarrow> token = [] \<or> \<not> list_all (\<lambda>c. is_ascii_alphanumeric c \<or> c = ch CHR ''-'') token
     \<or> critical_connection_token token"

definition token_pieces :: "header list \<Rightarrow> ustring list" where
  "token_pieces headers = concat (map (\<lambda>(_, v). map (\<lambda>t. lower_ascii (trim t)) (split_on (ch CHR '','') v))
     (filter (\<lambda>(name, _). eq_ignore_ascii_case name (str ''connection'')) headers))"

definition connection_tokens :: "parsed_request \<Rightarrow> (ustring list, proxy_error) result" where
  "connection_tokens r =
     (if list_ex bad_connection_token (token_pieces (rq_headers r)) then Inl Malformed else Inr (token_pieces (rq_headers r)))"

definition framing :: "parsed_request \<Rightarrow> (nat option, proxy_error) result" where
  "framing r =
     rbind (single_header Malformed (rq_headers r) (str ''transfer-encoding'')) (\<lambda>te.
       if te \<noteq> None then Inl Malformed
       else rbind (single_header Malformed (rq_headers r) (str ''expect'')) (\<lambda>ex.
         if ex \<noteq> None then Inl Malformed
         else rbind (single_header Malformed (rq_headers r) (str ''content-length'')) (\<lambda>cl.
           rbind (case cl of None \<Rightarrow> Inr None | Some v \<Rightarrow> rbind (parse_content_length v) (\<lambda>n. Inr (Some n))) (\<lambda>len.
             rbind (connection_tokens r) (\<lambda>_. Inr len)))))"

definition dropped_header :: "ustring list \<Rightarrow> ustring \<Rightarrow> bool" where
  "dropped_header tokens name =
     (let lower = lower_ascii name in
      static_hop_by_hop lower \<or> lower = str ''host'' \<or> lower = str ''content-length'' \<or> lower = str ''proxy-authorization''
      \<or> lower = str ''forwarded'' \<or> lower = str ''via'' \<or> starts_with (str ''x-forwarded-'') lower \<or> lower \<in> set tokens)"

definition sanitized_headers :: "parsed_request \<Rightarrow> ustring \<Rightarrow> nat option \<Rightarrow> (header list, proxy_error) result" where
  "sanitized_headers r authority content_length =
     rbind (connection_tokens r) (\<lambda>tokens.
       Inr ((str ''Host'', authority) # filter (\<lambda>(name, _). \<not> dropped_header tokens name) (rq_headers r)
            @ (case content_length of Some n \<Rightarrow> [(str ''Content-Length'', show_nat n)] | None \<Rightarrow> [])
            @ [(str ''Connection'', str ''close'')]))"

fun find_sub :: "octets \<Rightarrow> octets \<Rightarrow> nat option" where
  "find_sub pat [] = (if pat = [] then Some 0 else None)"
| "find_sub pat (b # bs) = (if take (length pat) (b # bs) = pat then Some 0 else map_option Suc (find_sub pat bs))"

definition CRLF2 :: octets where
  "CRLF2 = [13, 10, 13, 10]"

function read_head_loop :: "nat \<Rightarrow> octets \<Rightarrow> stream \<Rightarrow> (octets \<times> octets, proxy_error) result \<times> stream" where
  "read_head_loop cap bytes s = (case find_sub CRLF2 bytes of
       Some index \<Rightarrow>
         (if index + 4 > cap then (Inl TooLarge, s) else (Inr (take (index + 4) bytes, drop (index + 4) bytes), s))
     | None \<Rightarrow>
         (if cap \<le> length bytes then (Inl TooLarge, s)
          else case stream_read (min (cap - length bytes) 4096) s of
              (Inl _, s') \<Rightarrow> (Inl DownstreamIo, s')
            | (Inr got, s') \<Rightarrow>
                (if got = [] then (Inl Malformed, s') else read_head_loop cap (bytes @ got) s')))"
  by pat_completeness auto

termination by (relation "measure (\<lambda>(cap, bytes, _). cap - length bytes)") (auto intro!: diff_less_mono2)

declare read_head_loop.simps [simp del]

definition read_head :: "nat \<Rightarrow> stream \<Rightarrow> (octets \<times> octets, proxy_error) result \<times> stream" where
  "read_head cap s = read_head_loop cap [] s"

definition normalize_authority :: "url_parser \<Rightarrow> ustring \<Rightarrow> ustring \<Rightarrow> (ustring, proxy_error) result" where
  "normalize_authority url_parse v scheme =
     rbind (map_err (\<lambda>_. Malformed) (WebsiteOrigin_parse url_parse (scheme @ str ''://'' @ v))) (\<lambda>origin.
       Inr (wo_hostname origin @ str '':'' @ show_nat (wo_port origin)))"

definition parse_http_target :: "url_parser \<Rightarrow> ustring \<Rightarrow> (ustring \<times> ustring, proxy_error) result" where
  "parse_http_target url_parse v =
     rbind (ok_or (strip_prefix (str ''http://'') v) Malformed) (\<lambda>rest.
       if ch CHR ''#'' \<in> set rest \<or> ch CHR ''@'' \<in> set rest \<or> ch CHR 0x5C \<in> set rest \<or> starts_with (str '':'') rest
       then Inl Malformed
       else
         let raw_authority = takeWhile (\<lambda>c. c \<noteq> ch CHR ''/'' \<and> c \<noteq> ch CHR ''?'') rest;
             suffix = drop (length raw_authority) rest
         in if raw_authority = [] then Inl Malformed
            else rbind (normalize_authority url_parse raw_authority (str ''http'')) (\<lambda>authority.
              Inr (authority, if suffix = [] then str ''/''
                              else if starts_with (str ''?'') suffix then str ''/'' @ suffix else suffix)))"

text \<open>\<open>port.parse::<u16>()\<close>.\<close>

definition parse_u16 :: "ustring \<Rightarrow> nat option" where
  "parse_u16 s = (case parse_u64 s of Some n \<Rightarrow> if n \<le> 65535 then Some n else None | None \<Rightarrow> None)"

definition strict_connect_authority :: "url_parser \<Rightarrow> ustring \<Rightarrow> (ustring, proxy_error) result" where
  "strict_connect_authority url_parse v =
     (if v = [] \<or> ch CHR ''/'' \<in> set v \<or> ch CHR ''@'' \<in> set v \<or> ch CHR ''['' \<in> set v \<or> ch CHR '']'' \<in> set v
         \<or> starts_with (str '':'') v \<or> ch CHR ''?'' \<in> set v \<or> ch CHR ''#'' \<in> set v \<or> ch CHR 0x5C \<in> set v
         \<or> list_ex (\<lambda>c. c \<le> 0x20 \<or> c = 0x7F) v
      then Inl Malformed
      else case split_host_port v of (host, port0) \<Rightarrow>
        rbind (ok_or port0 Malformed) (\<lambda>port_text.
          rbind (ok_or (parse_u16 port_text) Malformed) (\<lambda>port.
            if host = [] \<or> port = 0 then Inl Malformed
            else normalize_authority url_parse v (str ''https''))))"


section \<open>Responses\<close>

record http_response_view =
  hs_complete :: bool
  hs_version :: "nat option"
  hs_code :: "nat option"
  hs_reason :: "ustring option"
  hs_headers :: "(ustring \<times> octets) list"

type_synonym response_parser = "nat \<Rightarrow> octets \<Rightarrow> (http_response_view, httparse_error) result"

record parsed_response =
  rp_status :: nat
  rp_reason :: ustring
  rp_headers :: "header list"

datatype response_body = BodyNone "nat option" | BodyReset bool | BodyLength nat

definition ParsedResponse_parse :: "response_parser \<Rightarrow> octets \<Rightarrow> nat \<Rightarrow> (parsed_response, proxy_error) result" where
  "ParsedResponse_parse httparse bytes max_headers =
     rbind (map_err (\<lambda>e. case e of TooManyHeaders \<Rightarrow> TooLarge | _ \<Rightarrow> Connect) (httparse max_headers bytes)) (\<lambda>response.
       if \<not> hs_complete response \<or> hs_version response \<noteq> Some 1 then Inl Connect
       else rbind (ok_or (hs_code response) Connect) (\<lambda>status.
         if status < 200 then Inl Connect
         else rbind (read_headers Connect (hs_headers response)) (\<lambda>headers.
           Inr \<lparr>rp_status = status,
                rp_reason = (case hs_reason response of
                    Some reason \<Rightarrow> if list_all (\<lambda>c. c = 9 \<or> 0x20 \<le> c \<and> c \<le> 0x7E) reason then reason else str ''Response''
                  | None \<Rightarrow> str ''Response''),
                rp_headers = headers\<rparr>)))"

definition representation_length :: "parsed_response \<Rightarrow> (nat option, proxy_error) result" where
  "representation_length r =
     rbind (single_header Connect (rp_headers r) (str ''transfer-encoding'')) (\<lambda>te.
       if te \<noteq> None then Inl Connect
       else rbind (single_header Connect (rp_headers r) (str ''content-length'')) (\<lambda>cl. case cl of
           None \<Rightarrow> Inr None
         | Some v \<Rightarrow>
             (if v = [] \<or> \<not> list_all is_ascii_digit v then Inl Connect
              else rbind (ok_or (parse_u64 v) Connect) (\<lambda>n. Inr (Some n)))))"

definition body_mode :: "parsed_response \<Rightarrow> ustring \<Rightarrow> bool \<Rightarrow> (response_body, proxy_error) result" where
  "body_mode r request_method buffered_body =
     rbind (representation_length r) (\<lambda>len.
       if eq_ignore_ascii_case request_method (str ''HEAD'') \<or> rp_status r = 304 then
         (if buffered_body then Inl Connect else Inr (BodyNone len))
       else if rp_status r = 204 then
         (if buffered_body \<or> len \<noteq> None then Inl Connect else Inr (BodyNone None))
       else if rp_status r = 205 then
         (if len \<noteq> None \<and> len \<noteq> Some 0 then Inl Connect else Inr (BodyReset buffered_body))
       else rbind (ok_or len Connect) (\<lambda>n. Inr (BodyLength n)))"

definition response_headers :: "parsed_response \<Rightarrow> response_body \<Rightarrow> (header list, proxy_error) result" where
  "response_headers r body =
     (let tokens = token_pieces (rp_headers r) in
      if [] \<in> set tokens then Inl Connect
      else Inr (filter (\<lambda>(name, _). let lower = lower_ascii name in
                  \<not> (lower = str ''content-length'' \<or> static_hop_by_hop lower \<or> lower \<in> set tokens)) (rp_headers r)
           @ (case body of BodyNone (Some n) \<Rightarrow> [(str ''Content-Length'', show_nat n)]
                | BodyLength n \<Rightarrow> [(str ''Content-Length'', show_nat n)]
                | _ \<Rightarrow> [])
           @ [(str ''Connection'', str ''close'')]))"

end
