(* ===== verification/Egress_Admit.thy ===== *)
theory Egress_Admit
  imports Egress_Request Interfaces
begin

text \<open>
  Who may use the proxy and which origins it opens: call credentials (\<^verbatim>\<open>fuigo-egress-proxy/src/credential.rs\<close>),
  the hold budget and the admission of a request (\<^verbatim>\<open>decider.rs\<close>). Random tokens, the decider's answers and
  what happens while a request is held are arguments; the \<open>base64\<close> crate is the parameter \<open>b64\<close>.
\<close>


section \<open>Credentials\<close>

type_synonym command_tag = ustring

record proxy_credential =
  cr_tag :: command_tag
  cr_token :: ustring

record credential_registry =
  rg_session_token :: ustring
  rg_calls :: "proxy_credential list"

definition credentials_new :: "ustring \<Rightarrow> credential_registry" where
  "credentials_new session_token = \<lparr>rg_session_token = session_token, rg_calls = []\<rparr>"

definition mint :: "command_tag \<Rightarrow> ustring \<Rightarrow> credential_registry \<Rightarrow> proxy_credential \<times> credential_registry" where
  "mint tag token r =
     (let credential = \<lparr>cr_tag = tag, cr_token = token\<rparr> in
      (credential, r\<lparr>rg_calls := filter (\<lambda>existing. cr_tag existing \<noteq> tag) (rg_calls r) @ [credential]\<rparr>))"

definition revoke :: "command_tag \<Rightarrow> credential_registry \<Rightarrow> bool \<times> credential_registry" where
  "revoke tag r =
     (let calls = filter (\<lambda>existing. cr_tag existing \<noteq> tag) (rg_calls r) in
      (length calls \<noteq> length (rg_calls r), r\<lparr>rg_calls := calls\<rparr>))"

definition revoke_exact :: "proxy_credential \<Rightarrow> credential_registry \<Rightarrow> bool \<times> credential_registry" where
  "revoke_exact credential r =
     (let calls = filter (\<lambda>existing. existing \<noteq> credential) (rg_calls r) in
      (length calls \<noteq> length (rg_calls r), r\<lparr>rg_calls := calls\<rparr>))"

definition presented_token :: "(ustring \<Rightarrow> octets option) \<Rightarrow> ustring \<Rightarrow> ustring option" where
  "presented_token b64 header = (case split_once (ch CHR '' '') (trim header) of
       None \<Rightarrow> None
     | Some (scheme, v0) \<Rightarrow>
         (let v = trim v0 in
          if v = [] then None
          else if eq_ignore_ascii_case scheme (str ''bearer'') then Some v
          else if \<not> eq_ignore_ascii_case scheme (str ''basic'') then None
          else case b64 v of
              None \<Rightarrow> None
            | Some decoded \<Rightarrow>
                (case from_utf8 decoded of
                   None \<Rightarrow> None
                 | Some t \<Rightarrow>
                     (case split_once (ch CHR '':'') t of
                        None \<Rightarrow> None
                      | Some (_, password) \<Rightarrow> if password = [] then None else Some password))))"

definition authenticate_token :: "credential_registry \<Rightarrow> ustring \<Rightarrow> (command_tag option, proxy_error) result" where
  "authenticate_token r token =
     (if rg_session_token r = token then Inr None
      else case find (\<lambda>credential. cr_token credential = token) (rg_calls r) of
          Some credential \<Rightarrow> Inr (Some (cr_tag credential))
        | None \<Rightarrow> Inl Authentication)"

definition authenticate :: "(ustring \<Rightarrow> octets option) \<Rightarrow> credential_registry \<Rightarrow> ustring \<Rightarrow> (command_tag option, proxy_error) result" where
  "authenticate b64 r header = rbind (ok_or (presented_token b64 header) Authentication) (authenticate_token r)"


section \<open>Decisions and the hold budget\<close>

datatype deny_source = DenyRow | WebFetchDenylist

datatype would_be = WouldAllowed | WouldDenied deny_source | WouldAsked

datatype decider_decision = DecideAllow | AllowAndRecord would_be | DecideDeny | DecideAsk

datatype decider_outcome = OutcomeAllowed | OutcomeDenied | OutcomeTimeout | OutcomeObserved would_be | OutcomeAbandoned

record blocked_request =
  br_host :: ustring
  br_port :: nat
  br_call :: "command_tag option"
  br_decided :: decider_outcome
  br_hold_ms :: nat
  br_deadline_unix :: "int option"

definition DEFAULT_MAX_HELD :: nat where "DEFAULT_MAX_HELD = 16"
definition DEFAULT_MAX_HELD_PER_CALL :: nat where "DEFAULT_MAX_HELD_PER_CALL = 8"
definition MAX_HELD_CLIENT_BYTES :: nat where "MAX_HELD_CLIENT_BYTES = 64 * 1024"

record hold_budget =
  hb_per_call :: nat
  hb_held :: "(command_tag option, nat) hmap"

definition budget_new :: "nat \<Rightarrow> hold_budget" where
  "budget_new per_call = \<lparr>hb_per_call = per_call, hb_held = []\<rparr>"

text \<open>\<open>entry(key).or_insert(0)\<close> leaves a zero entry behind when the share is refused at once.\<close>

definition try_take :: "command_tag option \<Rightarrow> hold_budget \<Rightarrow> bool \<times> hold_budget" where
  "try_take call b =
     (let held = (case hm_get (hb_held b) call of Some _ \<Rightarrow> hb_held b | None \<Rightarrow> hm_insert call 0 (hb_held b));
          count = the (hm_get held call)
      in if hb_per_call b \<le> count then (False, b\<lparr>hb_held := held\<rparr>)
         else (True, b\<lparr>hb_held := hm_insert call (count + 1) held\<rparr>))"

definition permit_drop :: "command_tag option \<Rightarrow> hold_budget \<Rightarrow> hold_budget" where
  "permit_drop call b = (case hm_get (hb_held b) call of
       None \<Rightarrow> b
     | Some count \<Rightarrow>
         b\<lparr>hb_held := (if count - 1 = 0 then hm_remove call (hb_held b) else hm_insert call (count - 1) (hb_held b))\<rparr>)"

text \<open>The part of \<open>ProxyState\<close> an admission changes: budget, free permits of the \<open>holds\<close> semaphore, records sent.\<close>

record hold_state =
  hs_budget :: hold_budget
  hs_permits :: nat
  hs_blocked :: "blocked_request list"

definition hold_state_new :: "nat \<Rightarrow> nat \<Rightarrow> hold_state" where
  "hold_state_new max_held max_held_per_call =
     \<lparr>hs_budget = budget_new (min max_held_per_call max_held), hs_permits = max_held, hs_blocked = []\<rparr>"

definition publish :: "website_origin \<Rightarrow> command_tag option \<Rightarrow> decider_outcome \<Rightarrow> nat \<Rightarrow> int option \<Rightarrow> hold_state \<Rightarrow> hold_state" where
  "publish origin call decided hold_ms deadline st =
     st\<lparr>hs_blocked := hs_blocked st @ [\<lparr>br_host = wo_hostname origin, br_port = wo_port origin, br_call = call,
          br_decided = decided, br_hold_ms = hold_ms, br_deadline_unix = deadline\<rparr>]\<rparr>"

text \<open>
  Taking both shares of a hold. When the proxy-wide permit is missing, the credential's share is dropped
  again as the function returns.
\<close>

definition park :: "command_tag option \<Rightarrow> hold_state \<Rightarrow> bool \<times> hold_state" where
  "park call st =
     (let (ok, b) = try_take call (hs_budget st) in
      if \<not> ok then (False, st\<lparr>hs_budget := b\<rparr>)
      else if hs_permits st = 0 then (False, st\<lparr>hs_budget := permit_drop call b\<rparr>)
      else (True, st\<lparr>hs_budget := b, hs_permits := hs_permits st - 1\<rparr>))"

definition unpark :: "command_tag option \<Rightarrow> hold_state \<Rightarrow> hold_state" where
  "unpark call st = st\<lparr>hs_budget := permit_drop call (hs_budget st), hs_permits := hs_permits st + 1\<rparr>"

text \<open>
  While a request is held, \<open>select!\<close> reports the answer (a dropped sender is no answer), the proxy stopping,
  the deadline, or a read from the client. The events come in the order they win the race; the deadline is
  always pending, so a list without a decisive event ends with it.
\<close>

datatype hold_event = Answered "bool option" | Stopping | Deadline | ClientRead "octets option"

fun hold :: "hold_event list \<Rightarrow> octets \<Rightarrow> (decider_outcome, proxy_error) result \<times> octets" where
  "hold [] buffered = (Inr OutcomeTimeout, buffered)"
| "hold (Answered a # _) buffered = (Inr (if a = Some True then OutcomeAllowed else OutcomeDenied), buffered)"
| "hold (Stopping # _) buffered = (Inr OutcomeDenied, buffered)"
| "hold (Deadline # _) buffered = (Inr OutcomeTimeout, buffered)"
| "hold (ClientRead r # rest) buffered = (case r of
       None \<Rightarrow> (Inr OutcomeAbandoned, buffered)
     | Some bytes \<Rightarrow>
         (if bytes = [] then (Inr OutcomeAbandoned, buffered)
          else if MAX_HELD_CLIENT_BYTES < length buffered + length bytes then (Inl TooLarge, buffered)
          else hold rest (buffered @ bytes)))"

definition settle_hold :: "(decider_outcome, proxy_error) result \<Rightarrow> decider_outcome \<times> (unit, proxy_error) result" where
  "settle_hold held = (case held of
       Inr OutcomeAllowed \<Rightarrow> (OutcomeAllowed, Inr ())
     | Inr OutcomeDenied \<Rightarrow> (OutcomeDenied, Inl PolicyDenied)
     | Inr OutcomeTimeout \<Rightarrow> (OutcomeTimeout, Inl HoldTimeout)
     | Inr OutcomeAbandoned \<Rightarrow> (OutcomeAbandoned, Inl ClientGone)
     | Inr (OutcomeObserved _) \<Rightarrow> (OutcomeDenied, Inl PolicyDenied)
     | Inl e \<Rightarrow> (OutcomeDenied, Inl e))"

text \<open>
  The answers of the environment to one admission: the decision (\<open>None\<close>: not within the request timeout),
  whether raising the hold itself timed out, the events while held, how long it took and its deadline.
\<close>

record admit_env =
  ae_upstream_hosts :: "ustring option"
  ae_policy :: website_policy
  ae_decide :: "website_origin \<Rightarrow> command_tag option \<Rightarrow> decider_decision option"
  ae_hold_late :: bool
  ae_hold_events :: "hold_event list"
  ae_hold_ms :: nat
  ae_deadline_unix :: int

definition admit_origin ::
    "admit_env \<Rightarrow> website_origin \<Rightarrow> command_tag option \<Rightarrow> octets \<Rightarrow> hold_state \<Rightarrow> (unit, proxy_error) result \<times> octets \<times> hold_state" where
  "admit_origin e origin call buffered st =
     (if is_refused_host (ae_upstream_hosts e) (wo_hostname origin) then (Inl PolicyDenied, buffered, st)
      else if policy_evaluate (ae_policy e) origin \<noteq> WebAllow then (Inl PolicyDenied, buffered, st)
      else case ae_decide e origin call of
          None \<Rightarrow> (Inl Timeout, buffered, st)
        | Some DecideAllow \<Rightarrow> (Inr (), buffered, st)
        | Some (AllowAndRecord would) \<Rightarrow> (Inr (), buffered, publish origin call (OutcomeObserved would) 0 None st)
        | Some DecideDeny \<Rightarrow> (Inl PolicyDenied, buffered, publish origin call OutcomeDenied 0 None st)
        | Some DecideAsk \<Rightarrow>
            (case park call st of
               (False, st1) \<Rightarrow> (Inl Overloaded, buffered, st1)
             | (True, st1) \<Rightarrow>
                 (let (held, buffered') =
                        (if ae_hold_late e then (Inr OutcomeTimeout, buffered) else hold (ae_hold_events e) buffered);
                      (decided, result) = settle_hold held
                  in (result, buffered',
                      unpark call (publish origin call decided (ae_hold_ms e) (Some (ae_deadline_unix e)) st1)))))"

end
