(* ===== verification/Egress_Addr.thy ===== *)
theory Egress_Addr
  imports Main "HOL-Library.Word"
begin

text \<open>
  Which resolved addresses the egress proxy may connect to: \<^verbatim>\<open>fuigo-egress-proxy/src/ip.rs\<close>, with
  the classification methods of \<open>std::net::Ipv4Addr\<close> and \<open>Ipv6Addr\<close> it calls. The theorem says that the
  octet and segment tests are the table of special-purpose address blocks.
\<close>

unbundle bit_operations_syntax


section \<open>Addresses\<close>

datatype ipv4 = Ipv4 "8 word" "8 word" "8 word" "8 word"

datatype ipv6 = Ipv6 "16 word" "16 word" "16 word" "16 word" "16 word" "16 word" "16 word" "16 word"

datatype ip_addr = V4 ipv4 | V6 ipv6

fun octets4 :: "ipv4 \<Rightarrow> 8 word list" where
  "octets4 (Ipv4 a b c d) = [a, b, c, d]"

fun segments :: "ipv6 \<Rightarrow> 16 word list" where
  "segments (Ipv6 a b c d e f g h) = [a, b, c, d, e, f, g, h]"

definition seg_octets :: "16 word \<Rightarrow> 8 word list" where
  "seg_octets s = [ucast (drop_bit 8 s), ucast s]"

definition octets6 :: "ipv6 \<Rightarrow> 8 word list" where
  "octets6 ip = concat (map seg_octets (segments ip))"

text \<open>\<open>u128::from_be_bytes\<close>.\<close>

definition from_be_bytes :: "8 word list \<Rightarrow> nat" where
  "from_be_bytes bs = foldl (\<lambda>n b. 256 * n + unat b) 0 bs"


section \<open>The standard library's classification\<close>

fun is_private :: "ipv4 \<Rightarrow> bool" where
  "is_private (Ipv4 a b _ _) \<longleftrightarrow> a = 10 \<or> a = 172 \<and> 16 \<le> b \<and> b \<le> 31 \<or> a = 192 \<and> b = 168"

fun is_loopback4 :: "ipv4 \<Rightarrow> bool" where
  "is_loopback4 (Ipv4 a _ _ _) \<longleftrightarrow> a = 127"

fun is_link_local :: "ipv4 \<Rightarrow> bool" where
  "is_link_local (Ipv4 a b _ _) \<longleftrightarrow> a = 169 \<and> b = 254"

fun is_documentation :: "ipv4 \<Rightarrow> bool" where
  "is_documentation (Ipv4 a b c _) \<longleftrightarrow> a = 192 \<and> b = 0 \<and> c = 2 \<or> a = 198 \<and> b = 51 \<and> c = 100 \<or> a = 203 \<and> b = 0 \<and> c = 113"

fun is_broadcast :: "ipv4 \<Rightarrow> bool" where
  "is_broadcast (Ipv4 a b c d) \<longleftrightarrow> a = 255 \<and> b = 255 \<and> c = 255 \<and> d = 255"

fun is_multicast4 :: "ipv4 \<Rightarrow> bool" where
  "is_multicast4 (Ipv4 a _ _ _) \<longleftrightarrow> 224 \<le> a \<and> a \<le> 239"

definition is_unspecified6 :: "ipv6 \<Rightarrow> bool" where
  "is_unspecified6 ip \<longleftrightarrow> segments ip = [0, 0, 0, 0, 0, 0, 0, 0]"

definition is_loopback6 :: "ipv6 \<Rightarrow> bool" where
  "is_loopback6 ip \<longleftrightarrow> segments ip = [0, 0, 0, 0, 0, 0, 0, 1]"

fun is_multicast6 :: "ipv6 \<Rightarrow> bool" where
  "is_multicast6 (Ipv6 a _ _ _ _ _ _ _) \<longleftrightarrow> a AND 0xff00 = 0xff00"

fun is_unique_local :: "ipv6 \<Rightarrow> bool" where
  "is_unique_local (Ipv6 a _ _ _ _ _ _ _) \<longleftrightarrow> a AND 0xfe00 = 0xfc00"

fun is_unicast_link_local :: "ipv6 \<Rightarrow> bool" where
  "is_unicast_link_local (Ipv6 a _ _ _ _ _ _ _) \<longleftrightarrow> a AND 0xffc0 = 0xfe80"


section \<open>ip.rs\<close>

fun is_public_ipv4 :: "ipv4 \<Rightarrow> bool" where
  "is_public_ipv4 (Ipv4 o0 o1 o2 o3) \<longleftrightarrow>
     (let ip = Ipv4 o0 o1 o2 o3 in
      \<not> (o0 = 0
         \<or> is_private ip
         \<or> (o0 = 100 \<and> o1 AND 0xc0 = 0x40)
         \<or> is_loopback4 ip
         \<or> is_link_local ip
         \<or> (o0 = 192 \<and> o1 = 0 \<and> o2 = 0 \<and> o3 \<noteq> 9 \<and> o3 \<noteq> 10)
         \<or> (o0 = 192 \<and> o1 = 88 \<and> o2 = 99)
         \<or> is_documentation ip
         \<or> (o0 = 198 \<and> o1 AND 0xfe = 18)
         \<or> (o0 AND 0xf0 = 0xf0 \<and> \<not> is_broadcast ip)
         \<or> is_broadcast ip
         \<or> is_multicast4 ip))"

definition embedded_ipv4 :: "ipv6 \<Rightarrow> ipv4 option" where
  "embedded_ipv4 ip = (case ip of Ipv6 a b c d e f g h \<Rightarrow>
     if (a = 0 \<and> b = 0 \<and> c = 0 \<and> d = 0 \<and> e = 0 \<and> (f = 0 \<or> f = 0xffff))
        \<or> (a = 0x64 \<and> b = 0xff9b \<and> c = 0 \<and> d = 0 \<and> e = 0 \<and> f = 0)
     then Some (Ipv4 (octets6 ip ! 12) (octets6 ip ! 13) (octets6 ip ! 14) (octets6 ip ! 15))
     else None)"

definition special_ipv6 :: "ipv6 \<Rightarrow> bool" where
  "special_ipv6 ip = (case ip of Ipv6 a b c d e f g h \<Rightarrow>
     is_unspecified6 ip
     \<or> is_loopback6 ip
     \<or> is_multicast6 ip
     \<or> (a = 0x64 \<and> b = 0xff9b \<and> c = 1)
     \<or> (a = 0x100 \<and> b = 0 \<and> c = 0 \<and> (d = 0 \<or> d = 1))
     \<or> a AND 0xffc0 = 0xfec0
     \<or> ((a = 0x2001 \<and> b < 0x200)
        \<and> \<not> (from_be_bytes (octets6 ip) = 0x20010001000000000000000000000001
             \<or> from_be_bytes (octets6 ip) = 0x20010001000000000000000000000002
             \<or> (a = 0x2001 \<and> b = 3)
             \<or> (a = 0x2001 \<and> b = 4 \<and> c = 0x112)
             \<or> (a = 0x2001 \<and> 0x20 \<le> b \<and> b \<le> 0x3f)))
     \<or> a = 0x2002
     \<or> (a = 0x2001 \<and> b = 0xdb8 \<or> a = 0x3fff \<and> b \<le> 0x0fff)
     \<or> a = 0x5f00
     \<or> is_unique_local ip
     \<or> is_unicast_link_local ip)"

definition is_public_ipv6 :: "ipv6 \<Rightarrow> bool" where
  "is_public_ipv6 ip = (case embedded_ipv4 ip of
       Some ipv4 \<Rightarrow> is_public_ipv4 ipv4
     | None \<Rightarrow> \<not> special_ipv6 ip)"

fun is_public_ip :: "ip_addr \<Rightarrow> bool" where
  "is_public_ip (V4 ip) = is_public_ipv4 ip"
| "is_public_ip (V6 ip) = is_public_ipv6 ip"


section \<open>The reference: tables of address blocks\<close>

text \<open>
  An address is a number of \<open>w\<close> bits, a block a first address and a prefix length. The tables are the
  special-purpose registries as the code means them: blocks that are not global, and inside them the
  parts that are.
\<close>

type_synonym cidr = "nat \<times> nat"

definition in_block :: "nat \<Rightarrow> nat \<Rightarrow> cidr \<Rightarrow> bool" where
  "in_block w a b \<longleftrightarrow> a div 2 ^ (w - snd b) = fst b div 2 ^ (w - snd b)"

fun ipv4_bits :: "ipv4 \<Rightarrow> nat" where
  "ipv4_bits (Ipv4 a b c d) = 2 ^ 24 * unat a + 2 ^ 16 * unat b + 2 ^ 8 * unat c + unat d"

fun ipv6_bits :: "ipv6 \<Rightarrow> nat" where
  "ipv6_bits (Ipv6 a b c d e f g h) =
     2 ^ 112 * unat a + 2 ^ 96 * unat b + 2 ^ 80 * unat c + 2 ^ 64 * unat d
     + 2 ^ 48 * unat e + 2 ^ 32 * unat f + 2 ^ 16 * unat g + unat h"

definition v4_special :: "cidr list" where
  "v4_special =
    [(0x00000000, 8),   \<comment> \<open>this network\<close>
     (0x0a000000, 8), (0xac100000, 12), (0xc0a80000, 16),   \<comment> \<open>private use\<close>
     (0x64400000, 10),   \<comment> \<open>shared address space\<close>
     (0x7f000000, 8),   \<comment> \<open>loopback\<close>
     (0xa9fe0000, 16),   \<comment> \<open>link local\<close>
     (0xc0000000, 24),   \<comment> \<open>protocol assignments\<close>
     (0xc0586300, 24),   \<comment> \<open>6to4 relays\<close>
     (0xc0000200, 24), (0xc6336400, 24), (0xcb007100, 24),   \<comment> \<open>documentation\<close>
     (0xc6120000, 15),   \<comment> \<open>benchmarking\<close>
     (0xe0000000, 4),   \<comment> \<open>multicast\<close>
     (0xf0000000, 4)]"  \<comment> \<open>reserved and broadcast\<close>

definition v4_global_parts :: "cidr list" where
  "v4_global_parts = [(0xc0000009, 32), (0xc000000a, 32)]"

definition v6_embedding :: "cidr list" where
  "v6_embedding = [(0, 96), (0xffff * 2 ^ 32, 96), (0x64 * 2 ^ 112 + 0xff9b * 2 ^ 96, 96)]"

definition v6_special :: "cidr list" where
  "v6_special =
    [(0xff00 * 2 ^ 112, 8),
     (0x64 * 2 ^ 112 + 0xff9b * 2 ^ 96 + 2 ^ 80, 48),
     (0x100 * 2 ^ 112, 63),
     (0xfec0 * 2 ^ 112, 10), (0xfe80 * 2 ^ 112, 10), (0xfc00 * 2 ^ 112, 7),
     (0x2001 * 2 ^ 112, 23), (0x2001 * 2 ^ 112 + 0xdb8 * 2 ^ 96, 32), (0x2002 * 2 ^ 112, 16),
     (0x3fff * 2 ^ 112, 20),
     (0x5f00 * 2 ^ 112, 16)]"

definition v6_global_parts :: "cidr list" where
  "v6_global_parts =
    [(0x2001 * 2 ^ 112 + 2 ^ 96 + 1, 128), (0x2001 * 2 ^ 112 + 2 ^ 96 + 2, 128),
     (0x2001 * 2 ^ 112 + 3 * 2 ^ 96, 32), (0x2001 * 2 ^ 112 + 4 * 2 ^ 96 + 0x112 * 2 ^ 80, 48),
     (0x2001 * 2 ^ 112 + 0x20 * 2 ^ 96, 27)]"

definition special_in :: "nat \<Rightarrow> cidr list \<Rightarrow> cidr list \<Rightarrow> nat \<Rightarrow> bool" where
  "special_in w blocks parts a \<longleftrightarrow> list_ex (in_block w a) blocks \<and> \<not> list_ex (in_block w a) parts"

fun special_purpose :: "ip_addr \<Rightarrow> bool" where
  "special_purpose (V4 ip) = special_in 32 v4_special v4_global_parts (ipv4_bits ip)"
| "special_purpose (V6 ip) =
     (if list_ex (in_block 128 (ipv6_bits ip)) v6_embedding
      then special_in 32 v4_special v4_global_parts (ipv6_bits ip mod 2 ^ 32)
      else special_in 128 v6_special v6_global_parts (ipv6_bits ip))"


section \<open>The tests are the tables\<close>

lemma and_high_eq:
  fixes x p :: "'a::len word"
  assumes "p AND mask n = 0"
  shows "x AND NOT (mask n) = p \<longleftrightarrow> drop_bit n x = drop_bit n p"
proof
  assume "x AND NOT (mask n) = p"
  then show "drop_bit n x = drop_bit n p"
    by (auto intro!: bit_eqI simp: bit_simps dest: bit_imp_le_length)
next
  assume eq: "drop_bit n x = drop_bit n p"
  show "x AND NOT (mask n) = p"
  proof (rule bit_eqI)
    fix i
    show "bit (x AND NOT (mask n)) i = bit p i"
    proof (cases "n \<le> i")
      case True
      then have "bit x i = bit p i" using eq bit_drop_bit_eq[of n x] bit_drop_bit_eq[of n p]
        by (metis comp_apply le_add_diff_inverse)
      with True show ?thesis by (auto simp: bit_simps dest: bit_imp_le_length)
    next
      case False
      have "\<not> bit (p AND mask n) i" using assms by simp
      with False have "\<not> bit p i" by (auto simp: bit_simps dest: bit_imp_le_length)
      with False show ?thesis by (simp add: bit_simps)
    qed
  qed
qed

lemma high_test:
  fixes x p :: "'a::len word"
  assumes "p AND mask n = 0" "m = NOT (mask n)"
  shows "x AND m = p \<longleftrightarrow> unat x div 2 ^ n = unat p div 2 ^ n"
  unfolding assms(2) and_high_eq[OF assms(1)] by (simp add: word_unat_eq_iff unat_drop_bit_eq flip: drop_bit_eq_div)

lemma digit_split: "(b::nat) < B \<Longrightarrow> B * a + b = q \<longleftrightarrow> a = q div B \<and> b = q mod B"
  by auto

lemma div_range: "0 < k \<Longrightarrow> (x::nat) div k = q \<longleftrightarrow> k * q \<le> x \<and> x < k * q + k"
proof
  assume k: "0 < k"
  show "x div k = q \<Longrightarrow> k * q \<le> x \<and> x < k * q + k"
    using dividend_less_times_div[OF k, of x] times_div_less_eq_dividend[of k x] by auto
  show "k * q \<le> x \<and> x < k * q + k \<Longrightarrow> x div k = q"
    by (intro div_nat_eqI) (auto simp: mult.commute)
qed

lemma unat8: "unat (x :: 8 word) < 256" using unsigned_less[of x] by simp

lemma unat16: "unat (x :: 16 word) < 65536" using unsigned_less[of x] by simp

lemma ipv4_bits_div:
  "ipv4_bits (Ipv4 a b c d) div 2 ^ 24 = unat a"
  "ipv4_bits (Ipv4 a b c d) div 2 ^ 16 = 256 * unat a + unat b"
  "ipv4_bits (Ipv4 a b c d) div 2 ^ 8 = 256 * (256 * unat a + unat b) + unat c"
  "ipv4_bits (Ipv4 a b c d) = 256 * (256 * (256 * unat a + unat b) + unat c) + unat d"
  using unat8[of a] unat8[of b] unat8[of c] unat8[of d] by simp_all

declare ipv4_bits.simps [simp del]

lemma mask_tests8:
  "(x :: 8 word) AND 0xc0 = 0x40 \<longleftrightarrow> unat x div 2 ^ 6 = 1"
  "(x :: 8 word) AND 0xfe = 18 \<longleftrightarrow> unat x div 2 = 9"
  "(x :: 8 word) AND 0xf0 = 0xf0 \<longleftrightarrow> unat x div 2 ^ 4 = 15"
  using high_test[where p = "0x40 :: 8 word" and n = 6 and m = "0xc0" and x = x] high_test[where p = "18 :: 8 word" and n = 1 and m = "0xfe" and x = x]
    high_test[where p = "0xf0 :: 8 word" and n = 4 and m = "0xf0" and x = x]
  by (simp_all add: mask_eq_decr_exp)

lemma mask_tests16:
  "(x :: 16 word) AND 0xff00 = 0xff00 \<longleftrightarrow> unat x div 2 ^ 8 = 0xff"
  "(x :: 16 word) AND 0xfe00 = 0xfc00 \<longleftrightarrow> unat x div 2 ^ 9 = 0x7e"
  "(x :: 16 word) AND 0xffc0 = 0xfe80 \<longleftrightarrow> unat x div 2 ^ 6 = 0x3fa"
  "(x :: 16 word) AND 0xffc0 = 0xfec0 \<longleftrightarrow> unat x div 2 ^ 6 = 0x3fb"
  using high_test[where p = "0xff00 :: 16 word" and n = 8 and m = "0xff00" and x = x] high_test[where p = "0xfc00 :: 16 word" and n = 9 and m = "0xfe00" and x = x]
    high_test[where p = "0xfe80 :: 16 word" and n = 6 and m = "0xffc0" and x = x] high_test[where p = "0xfec0 :: 16 word" and n = 6 and m = "0xffc0" and x = x]
  by (simp_all add: mask_eq_decr_exp)


lemma in_block4:
  "n \<le> 8 \<Longrightarrow> in_block 32 (ipv4_bits (Ipv4 a b c d)) (p, n) \<longleftrightarrow> unat a div 2 ^ (8 - n) = p div 2 ^ (32 - n)"
  "8 < n \<Longrightarrow> n \<le> 16 \<Longrightarrow> in_block 32 (ipv4_bits (Ipv4 a b c d)) (p, n) \<longleftrightarrow>
     unat a = p div 2 ^ (32 - n) div 2 ^ (n - 8) \<and> unat b div 2 ^ (16 - n) = p div 2 ^ (32 - n) mod 2 ^ (n - 8)"
  "in_block 32 (ipv4_bits (Ipv4 a b c d)) (p, 24) \<longleftrightarrow>
     unat a = p div 256 div 256 div 256 \<and> unat b = p div 256 div 256 mod 256 \<and> unat c = p div 256 mod 256"
  "in_block 32 (ipv4_bits (Ipv4 a b c d)) (p, 32) \<longleftrightarrow>
     unat a = p div 256 div 256 div 256 \<and> unat b = p div 256 div 256 mod 256 \<and> unat c = p div 256 mod 256 \<and> unat d = p mod 256"
proof -
  have shift: "x div 2 ^ (k + m) = x div 2 ^ k div 2 ^ m" for x k m :: nat
    by (simp only: power_add div_mult2_eq)
  show "n \<le> 8 \<Longrightarrow> in_block 32 (ipv4_bits (Ipv4 a b c d)) (p, n) \<longleftrightarrow> unat a div 2 ^ (8 - n) = p div 2 ^ (32 - n)"
    using shift[of "ipv4_bits (Ipv4 a b c d)" 24 "8 - n"] ipv4_bits_div(1)[of a b c d]
    by (simp add: in_block_def)
  assume n: "8 < n" "n \<le> 16"
  have "256 = (2::nat) ^ (16 - n) * 2 ^ (n - 8)" using n by (simp flip: power_add)
  then have "(256 * unat a + unat b) div 2 ^ (16 - n) = 2 ^ (n - 8) * unat a + unat b div 2 ^ (16 - n)"
    by (simp only: mult.assoc) simp
  moreover have "unat b div 2 ^ (16 - n) < 2 ^ (n - 8)"
    using unat8[of b] \<open>256 = _\<close> by (simp add: less_mult_imp_div_less mult.commute)
  moreover have "32 - n = 16 + (16 - n)" using n by simp
  ultimately show "in_block 32 (ipv4_bits (Ipv4 a b c d)) (p, n) \<longleftrightarrow>
     unat a = p div 2 ^ (32 - n) div 2 ^ (n - 8) \<and> unat b div 2 ^ (16 - n) = p div 2 ^ (32 - n) mod 2 ^ (n - 8)"
    using shift[of "ipv4_bits (Ipv4 a b c d)" 16 "16 - n"]
    by (simp only: in_block_def fst_conv snd_conv ipv4_bits_div(2) digit_split)
next
  have "in_block 32 (ipv4_bits (Ipv4 a b c d)) (p, 24) \<longleftrightarrow> ipv4_bits (Ipv4 a b c d) div 2 ^ 8 = p div 256"
    by (simp add: in_block_def)
  then show "in_block 32 (ipv4_bits (Ipv4 a b c d)) (p, 24) \<longleftrightarrow>
     unat a = p div 256 div 256 div 256 \<and> unat b = p div 256 div 256 mod 256 \<and> unat c = p div 256 mod 256"
    unfolding ipv4_bits_div(3) by (simp only: digit_split unat8 conj_assoc)
  have "in_block 32 (ipv4_bits (Ipv4 a b c d)) (p, 32) \<longleftrightarrow> ipv4_bits (Ipv4 a b c d) = p"
    by (simp add: in_block_def)
  then show "in_block 32 (ipv4_bits (Ipv4 a b c d)) (p, 32) \<longleftrightarrow>
     unat a = p div 256 div 256 div 256 \<and> unat b = p div 256 div 256 mod 256 \<and> unat c = p div 256 mod 256 \<and> unat d = p mod 256"
    unfolding ipv4_bits_div(4) by (simp only: digit_split unat8 conj_assoc)
qed

lemma v4_blocks:
  fixes a b c d :: "8 word"
  defines "N \<equiv> ipv4_bits (Ipv4 a b c d)"
  shows "in_block 32 N (0, 8) \<longleftrightarrow> a = 0"
    "in_block 32 N (0x0a000000, 8) \<longleftrightarrow> a = 10"
    "in_block 32 N (0xac100000, 12) \<longleftrightarrow> a = 172 \<and> 16 \<le> b \<and> b \<le> 31"
    "in_block 32 N (0xc0a80000, 16) \<longleftrightarrow> a = 192 \<and> b = 168"
    "in_block 32 N (0x64400000, 10) \<longleftrightarrow> a = 100 \<and> unat b div 2 ^ 6 = 1"
    "in_block 32 N (0x7f000000, 8) \<longleftrightarrow> a = 127"
    "in_block 32 N (0xa9fe0000, 16) \<longleftrightarrow> a = 169 \<and> b = 254"
    "in_block 32 N (0xc0000000, 24) \<longleftrightarrow> a = 192 \<and> b = 0 \<and> c = 0"
    "in_block 32 N (0xc0586300, 24) \<longleftrightarrow> a = 192 \<and> b = 88 \<and> c = 99"
    "in_block 32 N (0xc0000200, 24) \<longleftrightarrow> a = 192 \<and> b = 0 \<and> c = 2"
    "in_block 32 N (0xc6336400, 24) \<longleftrightarrow> a = 198 \<and> b = 51 \<and> c = 100"
    "in_block 32 N (0xcb007100, 24) \<longleftrightarrow> a = 203 \<and> b = 0 \<and> c = 113"
    "in_block 32 N (0xc6120000, 15) \<longleftrightarrow> a = 198 \<and> unat b div 2 = 9"
    "in_block 32 N (0xe0000000, 4) \<longleftrightarrow> 224 \<le> a \<and> a \<le> 239"
    "in_block 32 N (0xf0000000, 4) \<longleftrightarrow> unat a div 2 ^ 4 = 15"
    "in_block 32 N (0xc0000009, 32) \<longleftrightarrow> a = 192 \<and> b = 0 \<and> c = 0 \<and> d = 9"
    "in_block 32 N (0xc000000a, 32) \<longleftrightarrow> a = 192 \<and> b = 0 \<and> c = 0 \<and> d = 10"
  unfolding N_def using unat8[of a] unat8[of b]
  by (auto simp: in_block4 word_unat_eq_iff word_le_nat_alt div_range)


lemma broadcast_reserved: "is_broadcast (Ipv4 a b c d) \<Longrightarrow> unat a div 2 ^ 4 = 15"
  by simp

lemma v4_special_iff:
  "special_in 32 v4_special v4_global_parts (ipv4_bits (Ipv4 a b c d)) \<longleftrightarrow>
     (a = 0 \<or> a = 10 \<or> a = 172 \<and> 16 \<le> b \<and> b \<le> 31 \<or> a = 192 \<and> b = 168 \<or> a = 100 \<and> unat b div 2 ^ 6 = 1
      \<or> a = 127 \<or> a = 169 \<and> b = 254 \<or> a = 192 \<and> b = 0 \<and> c = 0 \<or> a = 192 \<and> b = 88 \<and> c = 99
      \<or> a = 192 \<and> b = 0 \<and> c = 2 \<or> a = 198 \<and> b = 51 \<and> c = 100 \<or> a = 203 \<and> b = 0 \<and> c = 113
      \<or> a = 198 \<and> unat b div 2 = 9 \<or> 224 \<le> a \<and> a \<le> 239 \<or> unat a div 2 ^ 4 = 15)
     \<and> \<not> (a = 192 \<and> b = 0 \<and> c = 0 \<and> d = 9 \<or> a = 192 \<and> b = 0 \<and> c = 0 \<and> d = 10)"
  unfolding special_in_def v4_special_def v4_global_parts_def
  by (simp only: list_ex_iff list.set bex_simps bex_empty v4_blocks simp_thms)

lemma public_ipv4_tests:
  "is_public_ipv4 (Ipv4 a b c d) \<longleftrightarrow> \<not> (a = 0 \<or> (a = 10 \<or> a = 172 \<and> 16 \<le> b \<and> b \<le> 31 \<or> a = 192 \<and> b = 168)
     \<or> a = 100 \<and> unat b div 2 ^ 6 = 1 \<or> a = 127 \<or> a = 169 \<and> b = 254
     \<or> a = 192 \<and> b = 0 \<and> c = 0 \<and> d \<noteq> 9 \<and> d \<noteq> 10 \<or> a = 192 \<and> b = 88 \<and> c = 99
     \<or> (a = 192 \<and> b = 0 \<and> c = 2 \<or> a = 198 \<and> b = 51 \<and> c = 100 \<or> a = 203 \<and> b = 0 \<and> c = 113)
     \<or> a = 198 \<and> unat b div 2 = 9 \<or> unat a div 2 ^ 4 = 15 \<or> 224 \<le> a \<and> a \<le> 239)"
proof -
  have "P \<and> \<not> is_broadcast (Ipv4 a b c d) \<or> is_broadcast (Ipv4 a b c d) \<or> Q \<longleftrightarrow> P \<or> Q"
    if "P = (unat a div 2 ^ 4 = 15)" for P Q
    using broadcast_reserved[of a b c d] that by blast
  then show ?thesis
    by (simp only: is_public_ipv4.simps Let_def is_private.simps is_loopback4.simps is_link_local.simps
        is_documentation.simps is_multicast4.simps mask_tests8)
qed

lemma public_ipv4_iff: "is_public_ipv4 ip \<longleftrightarrow> \<not> special_in 32 v4_special v4_global_parts (ipv4_bits ip)"
proof (cases ip)
  case (Ipv4 a b c d)
  show ?thesis
  proof (cases "a = 192 \<and> b = 0 \<and> c = 0")
    case True
    then show ?thesis unfolding Ipv4 public_ipv4_tests v4_special_iff by simp
  next
    case False
    then show ?thesis unfolding Ipv4 public_ipv4_tests v4_special_iff by argo
  qed
qed

lemma ipv6_bits_horner:
  "ipv6_bits (Ipv6 a b c d e f g h) = 65536 * (65536 * (65536 * (65536 * (65536 * (65536 * (65536 * unat a + unat b)
     + unat c) + unat d) + unat e) + unat f) + unat g) + unat h"
  by simp

lemma div_16: "(65536 * n + unat (x :: 16 word)) div 65536 = n"
  using unat16[of x] by simp

lemma div_pow_16: "n div 2 ^ (16 + k) = (n div 65536) div 2 ^ k" for n k :: nat
  by (simp add: power_add div_mult2_eq)

declare ipv6_bits.simps [simp del]

lemma ipv6_bits_div:
  "ipv6_bits (Ipv6 a b c d e f g h) div 2 ^ 112 = unat a"
  "ipv6_bits (Ipv6 a b c d e f g h) div 2 ^ 96 = 65536 * unat a + unat b"
  "ipv6_bits (Ipv6 a b c d e f g h) div 2 ^ 80 = 65536 * (65536 * unat a + unat b) + unat c"
  "ipv6_bits (Ipv6 a b c d e f g h) div 2 ^ 64 = 65536 * (65536 * (65536 * unat a + unat b) + unat c) + unat d"
  "ipv6_bits (Ipv6 a b c d e f g h) div 2 ^ 32 =
     65536 * (65536 * (65536 * (65536 * (65536 * unat a + unat b) + unat c) + unat d) + unat e) + unat f"
proof -
  let ?N = "ipv6_bits (Ipv6 a b c d e f g h)"
  have "(112::nat) = 16 + (16 + (16 + (16 + (16 + (16 + (16 + 0))))))" "(96::nat) = 16 + (16 + (16 + (16 + (16 + (16 + 0)))))"
    "(80::nat) = 16 + (16 + (16 + (16 + (16 + 0))))" "(64::nat) = 16 + (16 + (16 + (16 + 0)))" "(32::nat) = 16 + (16 + 0)" by simp_all
  note pows = this
  show "?N div 2 ^ 112 = unat a" unfolding pows(1) div_pow_16 ipv6_bits_horner div_16 by simp
  show "?N div 2 ^ 96 = 65536 * unat a + unat b" unfolding pows(2) div_pow_16 ipv6_bits_horner div_16 by simp
  show "?N div 2 ^ 80 = 65536 * (65536 * unat a + unat b) + unat c" unfolding pows(3) div_pow_16 ipv6_bits_horner div_16 by simp
  show "?N div 2 ^ 64 = 65536 * (65536 * (65536 * unat a + unat b) + unat c) + unat d"
    unfolding pows(4) div_pow_16 ipv6_bits_horner div_16 by simp
  show "?N div 2 ^ 32 = 65536 * (65536 * (65536 * (65536 * (65536 * unat a + unat b) + unat c) + unat d) + unat e) + unat f"
    unfolding pows(5) div_pow_16 ipv6_bits_horner div_16 by simp
qed

lemma div_two_digits:
  assumes "k \<le> 16"
  shows "(65536 * n + unat (x :: 16 word)) div 2 ^ k = q \<longleftrightarrow> n = q div 2 ^ (16 - k) \<and> unat x div 2 ^ k = q mod 2 ^ (16 - k)"
proof -
  have e: "65536 = (2::nat) ^ k * 2 ^ (16 - k)" using assms by (simp flip: power_add)
  then have "(65536 * n + unat x) div 2 ^ k = 2 ^ (16 - k) * n + unat x div 2 ^ k"
    by (simp only: mult.assoc) simp
  moreover have "unat x div 2 ^ k < 2 ^ (16 - k)"
    using unat16[of x] e by (simp add: less_mult_imp_div_less mult.commute)
  ultimately show ?thesis by (simp only: digit_split)
qed

lemma in_block6:
  fixes a b c d e f g h :: "16 word"
  defines "N \<equiv> ipv6_bits (Ipv6 a b c d e f g h)"
  shows "n \<le> 16 \<Longrightarrow> in_block 128 N (p, n) \<longleftrightarrow> unat a div 2 ^ (16 - n) = p div 2 ^ (128 - n)"
    "16 < n \<Longrightarrow> n \<le> 32 \<Longrightarrow> in_block 128 N (p, n) \<longleftrightarrow>
       unat a = p div 2 ^ (128 - n) div 2 ^ (n - 16) \<and> unat b div 2 ^ (32 - n) = p div 2 ^ (128 - n) mod 2 ^ (n - 16)"
    "in_block 128 N (p, 48) \<longleftrightarrow> unat a = p div 2 ^ 80 div 65536 div 65536
       \<and> unat b = p div 2 ^ 80 div 65536 mod 65536 \<and> unat c = p div 2 ^ 80 mod 65536"
    "in_block 128 N (p, 63) \<longleftrightarrow> unat a = p div 2 ^ 65 div 2 ^ 15 div 65536 div 65536
       \<and> unat b = p div 2 ^ 65 div 2 ^ 15 div 65536 mod 65536 \<and> unat c = p div 2 ^ 65 div 2 ^ 15 mod 65536
       \<and> unat d div 2 = p div 2 ^ 65 mod 2 ^ 15"
    "in_block 128 N (p, 96) \<longleftrightarrow> (let q = p div 2 ^ 32 in unat a = q div 65536 div 65536 div 65536 div 65536 div 65536
       \<and> unat b = q div 65536 div 65536 div 65536 div 65536 mod 65536 \<and> unat c = q div 65536 div 65536 div 65536 mod 65536
       \<and> unat d = q div 65536 div 65536 mod 65536 \<and> unat e = q div 65536 mod 65536 \<and> unat f = q mod 65536)"
    "in_block 128 N (p, 128) \<longleftrightarrow> N = p"
proof -
  have shift: "N div 2 ^ (k + m) = N div 2 ^ k div 2 ^ m" for k m :: nat
    by (simp only: power_add div_mult2_eq)
  have in_block_at: "in_block 128 N (p, n) \<longleftrightarrow> N div 2 ^ k div 2 ^ m = p div 2 ^ (128 - n)" if "128 - n = k + m" for k m n
    unfolding in_block_def fst_conv snd_conv that by (simp only: shift)
  show "in_block 128 N (p, n) \<longleftrightarrow> unat a div 2 ^ (16 - n) = p div 2 ^ (128 - n)" if "n \<le> 16"
    using in_block_at[of n 112 "16 - n"] that unfolding N_def ipv6_bits_div by simp
  show "in_block 128 N (p, n) \<longleftrightarrow>
       unat a = p div 2 ^ (128 - n) div 2 ^ (n - 16) \<and> unat b div 2 ^ (32 - n) = p div 2 ^ (128 - n) mod 2 ^ (n - 16)"
    if "16 < n" "n \<le> 32"
    using in_block_at[of n 96 "32 - n"] that div_two_digits[of "32 - n" "unat a" b "p div 2 ^ (128 - n)"]
    unfolding N_def ipv6_bits_div by simp
  have "in_block 128 N (p, 48) \<longleftrightarrow> N div 2 ^ 80 = p div 2 ^ 80" by (simp add: in_block_def)
  then show "in_block 128 N (p, 48) \<longleftrightarrow> unat a = p div 2 ^ 80 div 65536 div 65536
       \<and> unat b = p div 2 ^ 80 div 65536 mod 65536 \<and> unat c = p div 2 ^ 80 mod 65536"
    unfolding N_def ipv6_bits_div by (simp only: digit_split unat16 conj_assoc)
  have one_le: "(1::nat) \<le> 16" by simp
  have "in_block 128 N (p, 63) \<longleftrightarrow> N div 2 ^ 64 div 2 ^ 1 = p div 2 ^ 65"
    unfolding shift[of 64 1, symmetric] by (simp add: in_block_def)
  then show "in_block 128 N (p, 63) \<longleftrightarrow> unat a = p div 2 ^ 65 div 2 ^ 15 div 65536 div 65536
       \<and> unat b = p div 2 ^ 65 div 2 ^ 15 div 65536 mod 65536 \<and> unat c = p div 2 ^ 65 div 2 ^ 15 mod 65536
       \<and> unat d div 2 = p div 2 ^ 65 mod 2 ^ 15"
    unfolding N_def ipv6_bits_div div_two_digits[OF one_le] digit_split[OF unat16] conj_assoc by simp
  have "in_block 128 N (p, 96) \<longleftrightarrow> N div 2 ^ 32 = p div 2 ^ 32" by (simp add: in_block_def)
  then show "in_block 128 N (p, 96) \<longleftrightarrow> (let q = p div 2 ^ 32 in unat a = q div 65536 div 65536 div 65536 div 65536 div 65536
       \<and> unat b = q div 65536 div 65536 div 65536 div 65536 mod 65536 \<and> unat c = q div 65536 div 65536 div 65536 mod 65536
       \<and> unat d = q div 65536 div 65536 mod 65536 \<and> unat e = q div 65536 mod 65536 \<and> unat f = q mod 65536)"
    unfolding N_def ipv6_bits_div Let_def by (simp only: digit_split unat16 conj_assoc)
  show "in_block 128 N (p, 128) \<longleftrightarrow> N = p" by (simp add: in_block_def)
qed

lemma v6_blocks:
  fixes a b c d e f g h :: "16 word"
  defines "N \<equiv> ipv6_bits (Ipv6 a b c d e f g h)"
  shows "in_block 128 N (0xff00 * 2 ^ 112, 8) \<longleftrightarrow> unat a div 2 ^ 8 = 0xff"
    "in_block 128 N (0x64 * 2 ^ 112 + 0xff9b * 2 ^ 96 + 2 ^ 80, 48) \<longleftrightarrow> a = 0x64 \<and> b = 0xff9b \<and> c = 1"
    "in_block 128 N (0x100 * 2 ^ 112, 63) \<longleftrightarrow> a = 0x100 \<and> b = 0 \<and> c = 0 \<and> (d = 0 \<or> d = 1)"
    "in_block 128 N (0xfec0 * 2 ^ 112, 10) \<longleftrightarrow> unat a div 2 ^ 6 = 0x3fb"
    "in_block 128 N (0xfe80 * 2 ^ 112, 10) \<longleftrightarrow> unat a div 2 ^ 6 = 0x3fa"
    "in_block 128 N (0xfc00 * 2 ^ 112, 7) \<longleftrightarrow> unat a div 2 ^ 9 = 0x7e"
    "in_block 128 N (0x2001 * 2 ^ 112, 23) \<longleftrightarrow> a = 0x2001 \<and> b < 0x200"
    "in_block 128 N (0x2001 * 2 ^ 112 + 0xdb8 * 2 ^ 96, 32) \<longleftrightarrow> a = 0x2001 \<and> b = 0xdb8"
    "in_block 128 N (0x2002 * 2 ^ 112, 16) \<longleftrightarrow> a = 0x2002"
    "in_block 128 N (0x3fff * 2 ^ 112, 20) \<longleftrightarrow> a = 0x3fff \<and> b \<le> 0x0fff"
    "in_block 128 N (0x5f00 * 2 ^ 112, 16) \<longleftrightarrow> a = 0x5f00"
    "in_block 128 N (0x2001 * 2 ^ 112 + 3 * 2 ^ 96, 32) \<longleftrightarrow> a = 0x2001 \<and> b = 3"
    "in_block 128 N (0x2001 * 2 ^ 112 + 4 * 2 ^ 96 + 0x112 * 2 ^ 80, 48) \<longleftrightarrow> a = 0x2001 \<and> b = 4 \<and> c = 0x112"
    "in_block 128 N (0x2001 * 2 ^ 112 + 0x20 * 2 ^ 96, 27) \<longleftrightarrow> a = 0x2001 \<and> 0x20 \<le> b \<and> b \<le> 0x3f"
    "in_block 128 N (0, 96) \<longleftrightarrow> a = 0 \<and> b = 0 \<and> c = 0 \<and> d = 0 \<and> e = 0 \<and> f = 0"
    "in_block 128 N (0xffff * 2 ^ 32, 96) \<longleftrightarrow> a = 0 \<and> b = 0 \<and> c = 0 \<and> d = 0 \<and> e = 0 \<and> f = 0xffff"
    "in_block 128 N (0x64 * 2 ^ 112 + 0xff9b * 2 ^ 96, 96) \<longleftrightarrow> a = 0x64 \<and> b = 0xff9b \<and> c = 0 \<and> d = 0 \<and> e = 0 \<and> f = 0"
  unfolding N_def
  by (auto simp: in_block6 word_unat_eq_iff word_le_nat_alt word_less_nat_alt div_range)

lemma seg_octets_value: "256 * unat (ucast (drop_bit 8 s) :: 8 word) + unat (ucast s :: 8 word) = unat (s :: 16 word)"
proof -
  have "unat (ucast (drop_bit 8 s) :: 8 word) = unat s div 256"
    using unat16[of s] unat_drop_bit_eq[of 8 s] by (simp add: unsigned_ucast_eq take_bit_eq_mod drop_bit_eq_div)
  moreover have "unat (ucast s :: 8 word) = unat s mod 256"
    by (simp add: unsigned_ucast_eq take_bit_eq_mod)
  ultimately show ?thesis by simp
qed

lemma be_bytes_bits: "from_be_bytes (octets6 (Ipv6 a b c d e f g h)) = ipv6_bits (Ipv6 a b c d e f g h)"
proof -
  have step: "256 * (256 * n + unat (ucast (drop_bit 8 s) :: 8 word)) + unat (ucast s :: 8 word) = 65536 * n + unat s"
    for n and s :: "16 word"
    using seg_octets_value[of s] by simp
  show ?thesis
    unfolding from_be_bytes_def octets6_def segments.simps list.map concat.simps seg_octets_def append.simps foldl.simps
      ipv6_bits_horner
    by (simp only: step mult_0_right add_0 seg_octets_value)
qed

lemma embedded_octets:
  "Ipv4 (octets6 (Ipv6 a b c d e f g h) ! 12) (octets6 (Ipv6 a b c d e f g h) ! 13)
     (octets6 (Ipv6 a b c d e f g h) ! 14) (octets6 (Ipv6 a b c d e f g h) ! 15) =
   Ipv4 (ucast (drop_bit 8 g)) (ucast g) (ucast (drop_bit 8 h)) (ucast h)"
  by (simp add: octets6_def seg_octets_def)

lemma embedded_bits:
  "ipv4_bits (Ipv4 (ucast (drop_bit 8 g)) (ucast g) (ucast (drop_bit 8 h)) (ucast h)) = ipv6_bits (Ipv6 a b c d e f g h) mod 2 ^ 32"
proof -
  have "ipv4_bits (Ipv4 (ucast (drop_bit 8 g)) (ucast g) (ucast (drop_bit 8 h)) (ucast h)) = 65536 * unat g + unat h"
    using seg_octets_value[of g] seg_octets_value[of h] by (simp add: ipv4_bits.simps)
  moreover have "ipv6_bits (Ipv6 a b c d e f g h) mod 2 ^ 32 = 65536 * unat g + unat h"
  proof -
    let ?n = "65536 * (65536 * (65536 * (65536 * (65536 * unat a + unat b) + unat c) + unat d) + unat e) + unat f"
    have "ipv6_bits (Ipv6 a b c d e f g h) = 65536 * unat g + unat h + ?n * 2 ^ 32"
      unfolding ipv6_bits_horner by simp
    moreover have "65536 * unat g + unat h < 2 ^ 32" using unat16[of g] unat16[of h] by simp
    ultimately show ?thesis by (simp only: mod_mult_self1 mod_less)
  qed
  ultimately show ?thesis by simp
qed

lemma v6_special_iff:
  fixes a b c d e f g h :: "16 word"
  defines "N \<equiv> ipv6_bits (Ipv6 a b c d e f g h)"
  shows "special_in 128 v6_special v6_global_parts N \<longleftrightarrow>
    (unat a div 2 ^ 8 = 0xff \<or> a = 0x64 \<and> b = 0xff9b \<and> c = 1 \<or> a = 0x100 \<and> b = 0 \<and> c = 0 \<and> (d = 0 \<or> d = 1)
     \<or> unat a div 2 ^ 6 = 0x3fb \<or> unat a div 2 ^ 6 = 0x3fa \<or> unat a div 2 ^ 9 = 0x7e
     \<or> a = 0x2001 \<and> b < 0x200 \<or> a = 0x2001 \<and> b = 0xdb8 \<or> a = 0x2002 \<or> a = 0x3fff \<and> b \<le> 0x0fff \<or> a = 0x5f00)
    \<and> \<not> (N = 0x2001 * 2 ^ 112 + 2 ^ 96 + 1 \<or> N = 0x2001 * 2 ^ 112 + 2 ^ 96 + 2 \<or> a = 0x2001 \<and> b = 3
         \<or> a = 0x2001 \<and> b = 4 \<and> c = 0x112 \<or> a = 0x2001 \<and> 0x20 \<le> b \<and> b \<le> 0x3f)"
  unfolding special_in_def v6_special_def v6_global_parts_def N_def list_ex_iff
  by (simp only: list.set bex_simps bex_empty v6_blocks in_block6(6) simp_thms)

lemma special_ipv6_iff:
  fixes a b c d e f g h :: "16 word"
  defines "x \<equiv> Ipv6 a b c d e f g h"
  assumes "embedded_ipv4 x = None"
  shows "special_ipv6 x \<longleftrightarrow> special_in 128 v6_special v6_global_parts (ipv6_bits x)"
proof -
  define N where "N = ipv6_bits x"
  have not_low: "\<not> is_unspecified6 x" "\<not> is_loopback6 x"
    using assms by (auto simp: is_unspecified6_def is_loopback6_def embedded_ipv4_def split: if_splits)
  have code: "special_ipv6 x \<longleftrightarrow> unat a div 2 ^ 8 = 0xff \<or> a = 0x64 \<and> b = 0xff9b \<and> c = 1
     \<or> a = 0x100 \<and> b = 0 \<and> c = 0 \<and> (d = 0 \<or> d = 1) \<or> unat a div 2 ^ 6 = 0x3fb
     \<or> (a = 0x2001 \<and> b < 0x200) \<and> \<not> (N = 0x2001 * 2 ^ 112 + 2 ^ 96 + 1 \<or> N = 0x2001 * 2 ^ 112 + 2 ^ 96 + 2
          \<or> a = 0x2001 \<and> b = 3 \<or> a = 0x2001 \<and> b = 4 \<and> c = 0x112 \<or> a = 0x2001 \<and> 0x20 \<le> b \<and> b \<le> 0x3f)
     \<or> a = 0x2002 \<or> (a = 0x2001 \<and> b = 0xdb8 \<or> a = 0x3fff \<and> b \<le> 0x0fff) \<or> a = 0x5f00
     \<or> unat a div 2 ^ 9 = 0x7e \<or> unat a div 2 ^ 6 = 0x3fa"
    using not_low unfolding special_ipv6_def x_def ipv6.case is_multicast6.simps is_unique_local.simps
      is_unicast_link_local.simps mask_tests16 be_bytes_bits N_def
    by simp
  have hole: "a = 0x2001 \<and> b = 1" if "N = 0x2001 * 2 ^ 112 + 2 ^ 96 + 1 \<or> N = 0x2001 * 2 ^ 112 + 2 ^ 96 + 2"
  proof -
    have "in_block 128 N (0x2001 * 2 ^ 112 + 2 ^ 96, 32)" using that by (auto simp: in_block_def)
    then show ?thesis unfolding N_def x_def by (simp add: in_block6 word_unat_eq_iff)
  qed
  show ?thesis
  proof (cases "a = 0x2001 \<and> b = 0xdb8")
    case True
    with hole have "N \<noteq> 0x2001 * 2 ^ 112 + 2 ^ 96 + 1" "N \<noteq> 0x2001 * 2 ^ 112 + 2 ^ 96 + 2" by auto
    with True show ?thesis
      unfolding code unfolding x_def v6_special_iff unfolding N_def[symmetric, unfolded x_def] by simp
  next
    case False
    show ?thesis
    proof (cases "a = 0x2001")
      case True
      with False show ?thesis
        unfolding code unfolding x_def v6_special_iff unfolding N_def[symmetric, unfolded x_def] by simp
    next
      case no2001: False
      with hole have "N \<noteq> 0x2001 * 2 ^ 112 + 2 ^ 96 + 1" "N \<noteq> 0x2001 * 2 ^ 112 + 2 ^ 96 + 2" by auto
      with no2001 show ?thesis
        unfolding code unfolding x_def v6_special_iff unfolding N_def[symmetric, unfolded x_def] by argo
    qed
  qed
qed

text \<open>
  C30: The address filter is the special-purpose registry. An address may be connected to exactly when it
  is not in one of the special-purpose blocks (private, shared, loopback, link-local, documentation,
  benchmarking, multicast, reserved, unique-local and so on) or is one of the globally reachable
  exceptions inside them; an IPv6 address that embeds an IPv4 address is judged by that one.
\<close>

theorem public_ip_exact: "is_public_ip ip \<longleftrightarrow> \<not> special_purpose ip"
proof (cases ip)
  case (V4 x)
  then show ?thesis by (simp add: public_ipv4_iff)
next
  case (V6 x)
  obtain a b c d e f g h where x: "x = Ipv6 a b c d e f g h" by (cases x)
  have emb: "list_ex (in_block 128 (ipv6_bits x)) v6_embedding \<longleftrightarrow>
      a = 0 \<and> b = 0 \<and> c = 0 \<and> d = 0 \<and> e = 0 \<and> (f = 0 \<or> f = 0xffff)
      \<or> a = 0x64 \<and> b = 0xff9b \<and> c = 0 \<and> d = 0 \<and> e = 0 \<and> f = 0"
    unfolding x v6_embedding_def list_ex_iff by (simp only: list.set bex_simps bex_empty v6_blocks) blast
  show ?thesis
  proof (cases "list_ex (in_block 128 (ipv6_bits x)) v6_embedding")
    case True
    then have "embedded_ipv4 x = Some (Ipv4 (ucast (drop_bit 8 g)) (ucast g) (ucast (drop_bit 8 h)) (ucast h))"
      unfolding emb unfolding embedded_ipv4_def x embedded_octets by auto
    then show ?thesis
      using True embedded_bits[of g h a b c d e f] by (simp add: V6 is_public_ipv6_def public_ipv4_iff x)
  next
    case False
    then have none: "embedded_ipv4 x = None" unfolding emb unfolding embedded_ipv4_def x by auto
    show ?thesis using False none special_ipv6_iff[of a b c d e f g h] by (simp add: V6 is_public_ipv6_def x)
  qed
qed
end
