(* ===== verification/Grant_Store.thy ===== *)
theory Grant_Store
  imports Grant_Hosts Perm_Paths
begin

text \<open>
  The store of expiring allow-list rows: \<^verbatim>\<open>fuigo-sandbox/src/command/grant_store.rs\<close> with the path spellings of
  \<^verbatim>\<open>canonical.rs\<close>, the floor tests of \<^verbatim>\<open>protected.rs\<close>, the symlink check of \<^verbatim>\<open>policy/apply.rs\<close> and the breadth cap of
  \<^verbatim>\<open>violation/propose.rs\<close>, as on Linux (names compare byte for byte, no firmlinks). The file system, the
  \<open>globset\<close> crate and the TOML crate are arguments; a rows file is what reading it gives and its signature.
\<close>


section \<open>Spellings\<close>

definition fold_dots_step :: "component list \<Rightarrow> component \<Rightarrow> component list" where
  "fold_dots_step out c = (case c of
       CurDir \<Rightarrow> out
     | ParentDir \<Rightarrow>
         (if out \<noteq> [] \<and> last out \<noteq> RootDir \<and> last out \<noteq> ParentDir then butlast out
          else if out = [] \<or> hd out \<noteq> RootDir then out @ [c] else out)
     | _ \<Rightarrow> out @ [c])"

definition fold_dots :: "ustring \<Rightarrow> ustring" where
  "fold_dots p = of_components (foldl fold_dots_step [] (components p))"

text \<open>The longest prefix that resolves, the names after it appended; the prefix is kept last component first.\<close>

fun resolve_prefix_loop :: "fs \<Rightarrow> component list \<Rightarrow> ustring list \<Rightarrow> ustring option" where
  "resolve_prefix_loop w [] tail = map_option (\<lambda>r. foldl path_join r tail) (fs_canonicalize w [])"
| "resolve_prefix_loop w (c # rp) tail =
     (case fs_canonicalize w (of_components (rev (c # rp))) of
        Some r \<Rightarrow> Some (foldl path_join r tail)
      | None \<Rightarrow> (case c of Normal n \<Rightarrow> resolve_prefix_loop w rp (n # tail) | _ \<Rightarrow> None))"

definition resolve_existing_prefix :: "fs \<Rightarrow> ustring \<Rightarrow> ustring" where
  "resolve_existing_prefix w p = (case resolve_prefix_loop w (rev (components p)) [] of Some r \<Rightarrow> r | None \<Rightarrow> p)"

definition canonical_path :: "fs \<Rightarrow> ustring \<Rightarrow> ustring" where
  "canonical_path w p =
     (let folded = fold_dots p in if \<not> is_absolute folded then folded else resolve_existing_prefix w folded)"

definition is_within :: "ustring \<Rightarrow> ustring \<Rightarrow> bool" where
  "is_within path root \<longleftrightarrow> strip_components (components root) (components path) \<noteq> None"

definition is_same_path :: "ustring \<Rightarrow> ustring \<Rightarrow> bool" where
  "is_same_path a b \<longleftrightarrow> components a = components b"

definition depth :: "ustring \<Rightarrow> nat" where
  "depth p = length (filter (\<lambda>c. case c of Normal _ \<Rightarrow> True | _ \<Rightarrow> False) (components p))"

fun ancestor_components :: "component list \<Rightarrow> component list list" where
  "ancestor_components [] = []"
| "ancestor_components (c # rp) = rev (c # rp) # ancestor_components rp"

text \<open>\<open>Path::ancestors\<close> of a path that is spelled by its components; a relative path ends with the empty one.\<close>

definition path_ancestors :: "ustring \<Rightarrow> ustring list" where
  "path_ancestors p = map of_components (ancestor_components (rev (components p))) @ (if is_absolute p then [] else [[]])"


section \<open>The floor\<close>

datatype protected =
    ProtectedPath ustring
  | ProtectedGlob ustring
  | TreeExcept ustring ustring
  | ProtectedNode ustring

text \<open>\<open>globset\<close>: \<open>None\<close> for a glob that does not parse.\<close>

type_synonym glob_parser = "ustring \<Rightarrow> (ustring \<Rightarrow> bool) option"

definition is_glob :: "ustring \<Rightarrow> bool" where
  "is_glob entry \<longleftrightarrow> ch CHR ''*'' \<in> set entry \<or> ch CHR ''?'' \<in> set entry \<or> ch CHR ''['' \<in> set entry"

definition protected_covers :: "glob_parser \<Rightarrow> protected \<Rightarrow> ustring \<Rightarrow> bool" where
  "protected_covers globset entry path = (case entry of
       ProtectedPath root \<Rightarrow> is_within path root
     | ProtectedNode node \<Rightarrow> is_same_path path node
     | ProtectedGlob glob \<Rightarrow> (case globset glob of None \<Rightarrow> False | Some matcher \<Rightarrow> list_ex matcher (path_ancestors path))
     | TreeExcept tree except \<Rightarrow> is_within path tree \<and> \<not> is_within path except)"

definition protected_anchor :: "protected \<Rightarrow> ustring" where
  "protected_anchor entry = (case entry of
       ProtectedPath path \<Rightarrow> path
     | ProtectedNode path \<Rightarrow> path
     | TreeExcept tree _ \<Rightarrow> tree
     | ProtectedGlob glob \<Rightarrow> of_components (takeWhile (\<lambda>c. \<not> is_glob (component_str c)) (components glob)))"

definition is_protected :: "glob_parser \<Rightarrow> fs \<Rightarrow> ustring \<Rightarrow> protected list \<Rightarrow> bool" where
  "is_protected globset w path floor =
     (let folded = fold_dots path; canonical = canonical_path w path in
      list_ex (\<lambda>entry. protected_covers globset entry folded \<or> protected_covers globset entry canonical) floor)"

definition is_ungrantable :: "glob_parser \<Rightarrow> fs \<Rightarrow> ustring \<Rightarrow> protected list \<Rightarrow> bool" where
  "is_ungrantable globset w root floor =
     (if is_protected globset w root floor then True
      else
        let spellings = [fold_dots root, canonical_path w root] in
        list_ex (\<lambda>entry. case entry of
            ProtectedGlob _ \<Rightarrow> list_ex (\<lambda>spelling. is_within spelling (protected_anchor entry)) spellings
          | _ \<Rightarrow> False) floor)"

datatype policy_error = SymlinkedRoot ustring | UninspectableRoot ustring

text \<open>The components of the folded root from the second one below the root directory on, each looked at where it is.\<close>

fun symlink_free_walk :: "fs \<Rightarrow> ustring \<Rightarrow> component list \<Rightarrow> nat \<Rightarrow> component list \<Rightarrow> policy_error option" where
  "symlink_free_walk w folded walk index [] = None"
| "symlink_free_walk w folded walk index (c # cs) =
     (let walk' = walk @ [c] in
      if index \<le> 1 then symlink_free_walk w folded walk' (index + 1) cs
      else case fs_lstat w (of_components walk') of
          Link \<Rightarrow> Some (SymlinkedRoot folded)
        | NoLink \<Rightarrow> symlink_free_walk w folded walk' (index + 1) cs
        | NotFound \<Rightarrow> None
        | _ \<Rightarrow> Some (UninspectableRoot folded))"

definition symlink_free_spelling :: "fs \<Rightarrow> ustring \<Rightarrow> (ustring, policy_error) result" where
  "symlink_free_spelling w root =
     (let folded = fold_dots root in
      case symlink_free_walk w folded [] 0 (components folded) of None \<Rightarrow> Inr folded | Some e \<Rightarrow> Inl e)"

definition NEVER_PROPOSED :: "ustring list" where
  "NEVER_PROPOSED = map str [''/'', ''/Users'', ''/home'', ''/opt'', ''/usr'', ''/var'', ''/etc'', ''/private'', ''/Library'', ''/System'']"

definition MIN_PROPOSED_COMPONENTS :: nat where "MIN_PROPOSED_COMPONENTS = 3"

definition is_too_broad_anywhere :: "ustring \<Rightarrow> ustring option \<Rightarrow> bool" where
  "is_too_broad_anywhere dir user_home \<longleftrightarrow>
     list_ex (\<lambda>never. is_same_path never dir) NEVER_PROPOSED
     \<or> (case user_home of Some home \<Rightarrow> is_same_path home dir | None \<Rightarrow> False)
     \<or> depth dir < MIN_PROPOSED_COMPONENTS"


section \<open>Subjects\<close>

datatype grant_error =
    GrantProtected ustring
  | NotAbsolute ustring
  | TooBroad ustring
  | GrantRoot policy_error
  | GrantNotFound ustring
  | CallScoped
  | SessionScoped
  | NotSessionScoped grant_scope
  | GrantSerialize
  | GrantUnreadable
  | GrantParse
  | GrantIo

record row_rules =
  rr_protected :: "protected list"
  rr_user_home :: "ustring option"
  rr_globset :: glob_parser
  rr_fs :: fs

definition refused_root :: "row_rules \<Rightarrow> ustring \<Rightarrow> grant_error option" where
  "refused_root rules root =
     (if \<not> is_absolute root then Some (NotAbsolute root)
      else if is_ungrantable (rr_globset rules) (rr_fs rules) root (rr_protected rules) then Some (GrantProtected root)
      else case symlink_free_spelling (rr_fs rules) root of
          Inl e \<Rightarrow> Some (GrantRoot e)
        | Inr _ \<Rightarrow>
            (let canonical = canonical_path (rr_fs rules) root in
             if is_too_broad_anywhere canonical (rr_user_home rules) then Some (TooBroad canonical) else None))"

definition refused_subject :: "row_rules \<Rightarrow> grant_subject \<Rightarrow> grant_error option" where
  "refused_subject rules subject = (case subject of
       FsWriteRoot root \<Rightarrow> refused_root rules root
     | FsRead root \<Rightarrow> refused_root rules root
     | NetHost _ _ \<Rightarrow> None
     | BuildCaches \<Rightarrow> None)"

definition canonical_subject :: "fs \<Rightarrow> grant_subject \<Rightarrow> grant_subject" where
  "canonical_subject w subject = (case subject of
       FsWriteRoot root \<Rightarrow> FsWriteRoot (canonical_path w root)
     | FsRead root \<Rightarrow> FsRead (canonical_path w root)
     | other \<Rightarrow> other)"

definition subject_covers :: "grant_subject \<Rightarrow> grant_subject \<Rightarrow> bool" where
  "subject_covers deny allow = (case (deny, allow) of
       (FsWriteRoot d, FsWriteRoot a) \<Rightarrow> is_within a d \<or> is_within d a
     | (FsRead d, FsRead a) \<Rightarrow> is_within a d \<or> is_within d a
     | (NetHost d d_port, NetHost a a_port) \<Rightarrow> is_covered_by a d \<and> (d_port = None \<or> d_port = a_port)
     | (BuildCaches, BuildCaches) \<Rightarrow> True
     | _ \<Rightarrow> False)"

definition subject_cuts :: "grant_subject \<Rightarrow> grant_subject \<Rightarrow> bool" where
  "subject_cuts deny allow = (case (deny, allow) of
       (NetHost d d_port, NetHost a a_port) \<Rightarrow>
         (is_covered_by a d \<or> is_covered_by d a) \<and> (d_port = None \<or> a_port = None \<or> d_port = a_port)
     | (FsWriteRoot _, BuildCaches) \<Rightarrow> True
     | (BuildCaches, FsWriteRoot _) \<Rightarrow> True
     | _ \<Rightarrow> False)"

definition allows_not_denied :: "grant list \<Rightarrow> grant list" where
  "allows_not_denied live =
     (let denies = filter (\<lambda>g. gr_decision g = GrantDeny) live;
          allows = filter (\<lambda>g. gr_decision g \<noteq> GrantDeny) live;
          kept = filter (\<lambda>a. \<not> list_ex (\<lambda>d. subject_covers (gr_subject d) (gr_subject a)) denies) allows;
          cutting = filter (\<lambda>d. list_ex (\<lambda>a. subject_cuts (gr_subject d) (gr_subject a)) kept) denies
      in kept @ cutting)"


section \<open>Rows files\<close>

datatype file_read = ReadNotFound | ReadRefused | ReadText ustring

type_synonym file_signature = "nat option"

text \<open>The TOML crate and the operating system under one edit.\<close>

record store_env =
  se_toml_parse :: "ustring \<Rightarrow> grant list option"
  se_toml_print :: "grant list \<Rightarrow> ustring option"
  se_dir_ok :: bool   \<comment> \<open>the directories open, the lock opens and is taken in time\<close>
  se_write_ok :: bool
  se_new_signature :: file_signature   \<comment> \<open>of the file a write leaves\<close>

record rows_file =
  rf_read :: file_read
  rf_signature :: file_signature

record persisted_rows =
  pr_signature :: file_signature
  pr_rows :: "grant list option"

definition clamp_granted_at :: "int \<Rightarrow> grant \<Rightarrow> grant" where
  "clamp_granted_at now g = g\<lparr>gr_granted_at := min (gr_granted_at g) now\<rparr>"

definition parse_grant_rows :: "store_env \<Rightarrow> row_rules \<Rightarrow> int \<Rightarrow> file_read \<Rightarrow> (grant list, grant_error) result" where
  "parse_grant_rows e rules now r = (case r of
       ReadNotFound \<Rightarrow> Inr []
     | ReadRefused \<Rightarrow> Inl GrantUnreadable
     | ReadText t \<Rightarrow>
         (case se_toml_parse e t of
            None \<Rightarrow> Inl GrantParse
          | Some grants \<Rightarrow>
              (let kept = filter (\<lambda>g. refused_subject rules (gr_subject g) = None) grants
               in Inr (map (clamp_granted_at now) (map (\<lambda>g. g\<lparr>gr_subject := canonical_subject (rr_fs rules) (gr_subject g)\<rparr>) kept)))))"

definition rows_or_none :: "('a, 'e) result \<Rightarrow> 'a option" where
  "rows_or_none r = (case r of Inl _ \<Rightarrow> None | Inr rows \<Rightarrow> Some rows)"

definition persisted_load :: "store_env \<Rightarrow> row_rules \<Rightarrow> int \<Rightarrow> rows_file \<Rightarrow> persisted_rows" where
  "persisted_load e rules now f =
     \<lparr>pr_signature = rf_signature f, pr_rows = rows_or_none (parse_grant_rows e rules now (rf_read f))\<rparr>"

definition persisted_live :: "int \<Rightarrow> persisted_rows \<Rightarrow> grant list option" where
  "persisted_live now p = map_option (filter (is_live now)) (pr_rows p)"

datatype store_mode = StoreCreate | ExistingOnly

definition edit_rows_locked ::
    "store_env \<Rightarrow> row_rules \<Rightarrow> int \<Rightarrow> store_mode \<Rightarrow> (grant list \<Rightarrow> bool \<times> grant list) \<Rightarrow> persisted_rows \<Rightarrow> rows_file
       \<Rightarrow> (bool, grant_error) result \<times> persisted_rows \<times> rows_file" where
  "edit_rows_locked e rules now mode edit p f =
     (if mode = ExistingOnly \<and> rf_read f = ReadNotFound then (Inr False, p, f)
      else if \<not> se_dir_ok e then (Inl GrantIo, p, f)
      else case parse_grant_rows e rules now (rf_read f) of
          Inl err \<Rightarrow> (Inl err, p, f)
        | Inr rows \<Rightarrow>
            (case edit rows of
               (False, rows') \<Rightarrow> (Inr False, \<lparr>pr_signature = rf_signature f, pr_rows = Some rows'\<rparr>, f)
             | (True, rows') \<Rightarrow>
                 (let live = filter (is_live now) rows' in
                  case se_toml_print e live of
                    None \<Rightarrow> (Inl GrantSerialize, p, f)
                  | Some contents \<Rightarrow>
                      (if \<not> se_write_ok e then (Inl GrantIo, p, f)
                       else (Inr True, \<lparr>pr_signature = se_new_signature e, pr_rows = Some live\<rparr>,
                             \<lparr>rf_read = ReadText contents, rf_signature = se_new_signature e\<rparr>)))))"

definition persisted_reload :: "store_env \<Rightarrow> row_rules \<Rightarrow> int \<Rightarrow> rows_file \<Rightarrow> persisted_rows \<Rightarrow> bool \<times> persisted_rows" where
  "persisted_reload e rules now f p =
     (if rf_signature f = pr_signature p then (False, p) else (True, persisted_load e rules now f))"


section \<open>The store\<close>

record grant_store =
  gs_workspace :: persisted_rows
  gs_global :: persisted_rows
  gs_session :: "(ustring \<times> grant) list"

text \<open>The two files on disk, which other stores and processes change as well.\<close>

record grant_disk =
  gd_workspace :: rows_file
  gd_global :: rows_file

definition open_in :: "store_env \<Rightarrow> row_rules \<Rightarrow> int \<Rightarrow> grant_disk \<Rightarrow> grant_store" where
  "open_in e rules now d =
     \<lparr>gs_workspace = persisted_load e rules now (gd_workspace d), gs_global = persisted_load e rules now (gd_global d), gs_session = []\<rparr>"

definition store_live :: "int \<Rightarrow> grant_store \<Rightarrow> grant list" where
  "store_live now st =
     filter (is_live now) (map snd (gs_session st))
     @ (case persisted_live now (gs_workspace st) of Some rows \<Rightarrow> rows | None \<Rightarrow> [])
     @ (case persisted_live now (gs_global st) of Some rows \<Rightarrow> rows | None \<Rightarrow> [])"

definition live_allows :: "int \<Rightarrow> grant_store \<Rightarrow> grant list" where
  "live_allows now st = filter (\<lambda>g. gr_decision g = GrantAllow) (allows_not_denied (store_live now st))"

definition live_shared :: "int \<Rightarrow> grant_store \<Rightarrow> grant list" where
  "live_shared now st =
     (let workspace = persisted_live now (gs_workspace st); global = persisted_live now (gs_global st);
          readable = (workspace \<noteq> None \<and> global \<noteq> None);
          live = (case workspace of Some rows \<Rightarrow> rows | None \<Rightarrow> []) @ (case global of Some rows \<Rightarrow> rows | None \<Rightarrow> [])
      in if readable then live else filter (\<lambda>g. gr_decision g = GrantDeny) live)"

definition live_session_rows :: "int \<Rightarrow> grant_store \<Rightarrow> (ustring \<times> grant) list" where
  "live_session_rows now st = filter (\<lambda>(_, g). is_live now g) (gs_session st)"

definition store_add ::
    "store_env \<Rightarrow> row_rules \<Rightarrow> int \<Rightarrow> grant \<Rightarrow> grant_store \<Rightarrow> grant_disk \<Rightarrow> (ustring, grant_error) result \<times> grant_store \<times> grant_disk" where
  "store_add e rules now g0 st d = (case refused_subject rules (gr_subject g0) of
       Some err \<Rightarrow> (Inl err, st, d)
     | None \<Rightarrow>
         (let g = clamp_granted_at now (g0\<lparr>gr_subject := canonical_subject (rr_fs rules) (gr_subject g0)\<rparr>);
              push = (\<lambda>rows. (True, rows @ [g])) in
          case gr_scope g of
            ScopeCall \<Rightarrow> (Inl CallScoped, st, d)
          | ScopeSession \<Rightarrow> (Inl SessionScoped, st, d)
          | ScopeWorkspace _ \<Rightarrow>
              (let (r, p, f) = edit_rows_locked e rules now StoreCreate push (gs_workspace st) (gd_workspace d)
               in (case r of Inl err \<Rightarrow> Inl err | Inr _ \<Rightarrow> Inr (gr_id g), st\<lparr>gs_workspace := p\<rparr>, d\<lparr>gd_workspace := f\<rparr>))
          | ScopeGlobal \<Rightarrow>
              (let (r, p, f) = edit_rows_locked e rules now StoreCreate push (gs_global st) (gd_global d)
               in (case r of Inl err \<Rightarrow> Inl err | Inr _ \<Rightarrow> Inr (gr_id g), st\<lparr>gs_global := p\<rparr>, d\<lparr>gd_global := f\<rparr>))))"

definition add_session :: "row_rules \<Rightarrow> int \<Rightarrow> ustring \<Rightarrow> grant \<Rightarrow> grant_store \<Rightarrow> (ustring, grant_error) result \<times> grant_store" where
  "add_session rules now session_id g st =
     (if gr_scope g \<noteq> ScopeSession then (Inl (NotSessionScoped (gr_scope g)), st)
      else case refused_subject rules (gr_subject g) of
          Some err \<Rightarrow> (Inl err, st)
        | None \<Rightarrow>
            (let g' = clamp_granted_at now (g\<lparr>gr_subject := canonical_subject (rr_fs rules) (gr_subject g)\<rparr>)
             in (Inr (gr_id g'), st\<lparr>gs_session := gs_session st @ [(session_id, g')]\<rparr>)))"

definition remove_by_id :: "ustring \<Rightarrow> grant list \<Rightarrow> bool \<times> grant list" where
  "remove_by_id gid rows = (let rows' = filter (\<lambda>g. gr_id g \<noteq> gid) rows in (length rows' \<noteq> length rows, rows'))"

text \<open>Whether an error of one file lets \<open>revoke\<close> go on to the next.\<close>

definition revoke_skips :: "grant_error \<Rightarrow> bool" where
  "revoke_skips err \<longleftrightarrow> err = GrantUnreadable \<or> err = GrantParse"

definition store_revoke ::
    "store_env \<Rightarrow> row_rules \<Rightarrow> int \<Rightarrow> ustring \<Rightarrow> grant_store \<Rightarrow> grant_disk \<Rightarrow> (unit, grant_error) result \<times> grant_store \<times> grant_disk" where
  "store_revoke e rules now gid st d =
     (let session = filter (\<lambda>(_, g). gr_id g \<noteq> gid) (gs_session st) in
      if length session \<noteq> length (gs_session st) then (Inr (), st\<lparr>gs_session := session\<rparr>, d)
      else
        let (r1, p1, f1) = edit_rows_locked e rules now ExistingOnly (remove_by_id gid) (gs_workspace st) (gd_workspace d);
            st1 = st\<lparr>gs_workspace := p1\<rparr>; d1 = d\<lparr>gd_workspace := f1\<rparr> in
        if r1 = Inr True then (Inr (), st1, d1)
        else if (case r1 of Inl err \<Rightarrow> \<not> revoke_skips err | Inr _ \<Rightarrow> False) then (rbind r1 (\<lambda>_. Inr ()), st1, d1)
        else
          let (r2, p2, f2) = edit_rows_locked e rules now ExistingOnly (remove_by_id gid) (gs_global st1) (gd_global d1);
              st2 = st1\<lparr>gs_global := p2\<rparr>; d2 = d1\<lparr>gd_global := f2\<rparr> in
          (case r2 of
             Inr True \<Rightarrow> (Inr (), st2, d2)
           | Inr False \<Rightarrow> (Inl (GrantNotFound gid), st2, d2)
           | Inl err \<Rightarrow> (if revoke_skips err then Inl (GrantNotFound gid) else Inl err, st2, d2)))"

definition reload_if_changed :: "store_env \<Rightarrow> row_rules \<Rightarrow> int \<Rightarrow> grant_store \<Rightarrow> grant_disk \<Rightarrow> bool \<times> grant_store" where
  "reload_if_changed e rules now st d =
     (let (c1, p1) = persisted_reload e rules now (gd_workspace d) (gs_workspace st);
          (c2, p2) = persisted_reload e rules now (gd_global d) (gs_global st)
      in (c1 \<or> c2, st\<lparr>gs_workspace := p1, gs_global := p2\<rparr>))"

definition clear_session :: "ustring \<Rightarrow> grant_store \<Rightarrow> nat \<times> grant_store" where
  "clear_session session_id st =
     (let session = filter (\<lambda>(s, _). s \<noteq> session_id) (gs_session st)
      in (length (gs_session st) - length session, st\<lparr>gs_session := session\<rparr>))"

end
