(* ===== verification/Net_Decider.thy ===== *)
theory Net_Decider
  imports Egress_Admit Grant_Store Perm_Rules
begin

text \<open>
  Network hold-and-ask, \<^verbatim>\<open>fuigo-workspace/src/permission/sandbox_network.rs\<close>: the egress proxy's decider over the
  folder's rows, its web-fetch lists and its mode. The books of pending cards are a map under one lock, so each
  critical section is one function; what happens between two of them (posting a card, dropping a park) is a step of
  its own. A parked connection is the number of its waiter; the answers sent to waiters are kept in order, \<open>None\<close>
  being a sender dropped without an answer. What the decider reads is the record \<open>net_view\<close>.
\<close>


section \<open>What a decision reads\<close>

datatype sandbox_mode = ModeOff | ModeObserve | ModeEnforce

datatype hold_answer = HoldAllow | HoldDeny

record web_fetch_domains =
  wd_allowed :: "ustring list"
  wd_disallowed :: "ustring list"

record net_view =
  nv_now :: int
  nv_rows :: "command_tag option \<Rightarrow> grant list"
  nv_call_mode :: "command_tag option \<Rightarrow> sandbox_mode option"
  nv_call_epoch :: "command_tag option \<Rightarrow> nat option"
  nv_call_runs :: "command_tag \<Rightarrow> bool"
  nv_any_enforced :: bool
  nv_mode :: sandbox_mode
  nv_domains :: web_fetch_domains
  nv_sink :: bool
  nv_hold_timeout :: nat
  nv_lower :: "ustring \<Rightarrow> ustring"
  nv_receiver_gone :: "nat \<Rightarrow> bool"

text \<open>\<open>web_fetch_deny_key\<close> and \<open>denied_web_fetch_domain\<close> of the permission manager.\<close>

definition web_fetch_deny_key :: "(ustring \<Rightarrow> ustring) \<Rightarrow> ustring \<Rightarrow> ustring" where
  "web_fetch_deny_key lower host = lower (trim_end_char (ch CHR ''.'') (trim host))"

definition denied_web_fetch_domain :: "(ustring \<Rightarrow> ustring) \<Rightarrow> ustring \<Rightarrow> ustring list \<Rightarrow> ustring option" where
  "denied_web_fetch_domain lower host disallowed =
     (let domain = web_fetch_deny_key lower host in
      find (\<lambda>denied. denied \<noteq> [] \<and> (domain = denied
        \<or> (length denied + 1 < length domain \<and> ends_with denied domain \<and> domain ! (length domain - length denied - 1) = ch CHR ''.'')))
      disallowed)"

record verdict =
  vd_deny :: bool
  vd_allow :: bool

definition would_be_of :: "verdict \<Rightarrow> verdict \<Rightarrow> would_be" where
  "would_be_of rows domains =
     (if vd_deny rows then WouldDenied DenyRow
      else if vd_deny domains then WouldDenied WebFetchDenylist
      else if vd_allow rows \<or> vd_allow domains then WouldAllowed
      else WouldAsked)"

definition domains_verdict_in :: "(ustring \<Rightarrow> ustring) \<Rightarrow> ustring \<Rightarrow> web_fetch_domains \<Rightarrow> verdict" where
  "domains_verdict_in lower host domains =
     \<lparr>vd_deny = (denied_web_fetch_domain lower host (wd_disallowed domains) \<noteq> None),
      vd_allow = (normalize_domain lower host \<in> set (wd_allowed domains))\<rparr>"

text \<open>Whether a row speaks about a connection.\<close>

definition row_applies :: "int \<Rightarrow> ustring \<Rightarrow> nat \<Rightarrow> grant \<Rightarrow> bool" where
  "row_applies now host port g \<longleftrightarrow> is_live now g \<and> (case gr_subject g of
       NetHost pattern grant_port \<Rightarrow> (grant_port = None \<or> grant_port = Some port) \<and> host_matches pattern host
     | _ \<Rightarrow> False)"

fun rows_verdict_loop :: "int \<Rightarrow> ustring \<Rightarrow> nat \<Rightarrow> grant list \<Rightarrow> verdict \<Rightarrow> verdict" where
  "rows_verdict_loop now host port [] v = v"
| "rows_verdict_loop now host port (g # gs) v =
     (if \<not> row_applies now host port g then rows_verdict_loop now host port gs v
      else case gr_decision g of
          GrantDeny \<Rightarrow> rows_verdict_loop now host port gs (v\<lparr>vd_deny := True\<rparr>)
        | GrantAllow \<Rightarrow> rows_verdict_loop now host port gs (v\<lparr>vd_allow := True\<rparr>))"

definition rows_verdict :: "net_view \<Rightarrow> ustring \<Rightarrow> nat \<Rightarrow> command_tag option \<Rightarrow> verdict" where
  "rows_verdict v host port call = rows_verdict_loop (nv_now v) host port (nv_rows v call) \<lparr>vd_deny = False, vd_allow = False\<rparr>"

definition domains_verdict :: "net_view \<Rightarrow> ustring \<Rightarrow> verdict" where
  "domains_verdict v host = domains_verdict_in (nv_lower v) host (nv_domains v)"

definition admits_unauthenticated :: "net_view \<Rightarrow> bool" where
  "admits_unauthenticated v \<longleftrightarrow> nv_mode v \<noteq> ModeEnforce \<and> \<not> nv_any_enforced v"

definition mode_for :: "net_view \<Rightarrow> command_tag option \<Rightarrow> sandbox_mode" where
  "mode_for v call = (case nv_call_mode v call of
       Some mode \<Rightarrow> mode
     | None \<Rightarrow> (if call \<noteq> None \<and> \<not> admits_unauthenticated v then ModeEnforce else nv_mode v))"


section \<open>The books\<close>

datatype parked = ParkedHold "nat list" | ParkedInformational

definition is_hold :: "parked \<Rightarrow> bool" where
  "is_hold p \<longleftrightarrow> (case p of ParkedHold _ \<Rightarrow> True | ParkedInformational \<Rightarrow> False)"

definition into_waiters :: "parked \<Rightarrow> nat list" where
  "into_waiters p = (case p of ParkedHold waiters \<Rightarrow> waiters | ParkedInformational \<Rightarrow> [])"

record pending_hold =
  ph_call :: "command_tag option"
  ph_epoch :: "nat option"
  ph_host :: ustring
  ph_port :: nat
  ph_posted_unix :: int
  ph_parked :: parked

definition is_for :: "command_tag option \<Rightarrow> ustring \<Rightarrow> nat \<Rightarrow> pending_hold \<Rightarrow> bool" where
  "is_for call host port h \<longleftrightarrow> ph_call h = call \<and> ph_port h = port \<and> eq_ignore_ascii_case (ph_host h) host"

record decider =
  dc_holds :: "(ustring, pending_hold) hmap"
  dc_closed :: bool
  dc_answers :: "(nat \<times> bool option) list"
  dc_cards :: "(ustring \<times> bool) list"   \<comment> \<open>the violations posted; \<open>True\<close>: grantable\<close>
  dc_cancelled :: "ustring list"   \<comment> \<open>the card tokens cancelled\<close>

definition decider_new :: decider where
  "decider_new = \<lparr>dc_holds = [], dc_closed = False, dc_answers = [], dc_cards = [], dc_cancelled = []\<rparr>"

definition MAX_PENDING_CARDS :: nat where "MAX_PENDING_CARDS = 64"

definition send_answer :: "bool option \<Rightarrow> nat list \<Rightarrow> decider \<Rightarrow> decider" where
  "send_answer a waiters d = d\<lparr>dc_answers := dc_answers d @ map (\<lambda>n. (n, a)) waiters\<rparr>"

text \<open>Released by its own answer, or withdrawn by anything else.\<close>

definition release_hold :: "pending_hold \<Rightarrow> hold_answer \<Rightarrow> decider \<Rightarrow> decider" where
  "release_hold h answer d = send_answer (Some (answer = HoldAllow)) (into_waiters (ph_parked h)) d"

definition withdraw :: "ustring \<Rightarrow> pending_hold \<Rightarrow> hold_answer \<Rightarrow> decider \<Rightarrow> decider" where
  "withdraw hold_id h answer d = release_hold h answer (d\<lparr>dc_cancelled := dc_cancelled d @ [hold_id]\<rparr>)"

definition drain :: "ustring \<Rightarrow> hold_answer \<Rightarrow> decider \<Rightarrow> decider" where
  "drain hold_id answer d = (case hm_get (dc_holds d) hold_id of
       None \<Rightarrow> d
     | Some h \<Rightarrow> withdraw hold_id h answer (d\<lparr>dc_holds := hm_remove hold_id (dc_holds d)\<rparr>))"

definition drain_holds :: "(pending_hold \<Rightarrow> hold_answer option) \<Rightarrow> decider \<Rightarrow> decider" where
  "drain_holds pick d =
     foldl (\<lambda>d' (hold_id, h). case pick h of None \<Rightarrow> d' | Some answer \<Rightarrow> withdraw hold_id h answer d')
       (d\<lparr>dc_holds := hm_retain (\<lambda>_ h. pick h = None) (dc_holds d)\<rparr>) (dc_holds d)"

definition release_call_holds :: "command_tag \<Rightarrow> nat \<Rightarrow> decider \<Rightarrow> decider" where
  "release_call_holds call epoch =
     drain_holds (\<lambda>h. if ph_call h = Some call \<and> (case ph_epoch h of Some e \<Rightarrow> e \<le> epoch | None \<Rightarrow> False) then Some HoldDeny else None)"

definition release_all :: "hold_answer \<Rightarrow> decider \<Rightarrow> decider" where
  "release_all answer = drain_holds (\<lambda>_. Some answer)"

definition mark_closed :: "decider \<Rightarrow> decider" where
  "mark_closed d = d\<lparr>dc_closed := True\<rparr>"

definition close_books :: "decider \<Rightarrow> decider" where
  "close_books d = release_all HoldDeny (mark_closed d)"

definition verdict_now :: "net_view \<Rightarrow> pending_hold \<Rightarrow> would_be" where
  "verdict_now v h = would_be_of (rows_verdict v (ph_host h) (ph_port h) (ph_call h)) (domains_verdict v (ph_host h))"

definition covered_answer :: "net_view \<Rightarrow> pending_hold \<Rightarrow> hold_answer option" where
  "covered_answer v h =
     (if \<not> is_hold (ph_parked h) then None
      else case verdict_now v h of WouldDenied _ \<Rightarrow> Some HoldDeny | WouldAllowed \<Rightarrow> Some HoldAllow | WouldAsked \<Rightarrow> None)"

definition release_holds_now_covered :: "net_view \<Rightarrow> decider \<Rightarrow> decider" where
  "release_holds_now_covered v = drain_holds (covered_answer v)"

text \<open>\<open>settle_hold\<close> takes the card under the lock and then, off it, releases what the rows now cover.\<close>

definition settle_taken :: "net_view \<Rightarrow> ustring \<Rightarrow> hold_answer \<Rightarrow> decider \<Rightarrow> hold_answer option \<times> decider" where
  "settle_taken v hold_id answer d = (case hm_get (dc_holds d) hold_id of
       Some h \<Rightarrow>
         (if is_hold (ph_parked h) then
            (let applied = (case verdict_now v h of WouldDenied _ \<Rightarrow> HoldDeny | _ \<Rightarrow> answer)
             in (Some applied, release_hold h applied (d\<lparr>dc_holds := hm_remove hold_id (dc_holds d)\<rparr>)))
          else (None, d))
     | None \<Rightarrow> (None, d))"

definition settle_card :: "net_view \<Rightarrow> ustring \<Rightarrow> hold_answer \<Rightarrow> decider \<Rightarrow> hold_answer option \<times> decider" where
  "settle_card v hold_id answer d =
     (let (applied, d1) = settle_taken v hold_id answer d in (applied, release_holds_now_covered v d1))"


section \<open>Parking\<close>

text \<open>\<open>now < posted + timeout\<close> in \<open>i64\<close>.\<close>

definition within_deadline :: "net_view \<Rightarrow> pending_hold \<Rightarrow> bool" where
  "within_deadline v h \<longleftrightarrow> nv_now v < i64_sat_add (ph_posted_unix h) (min i64_max (int (nv_hold_timeout v)))"

definition live_waiters :: "net_view \<Rightarrow> pending_hold \<Rightarrow> pending_hold" where
  "live_waiters v h = (case ph_parked h of
       ParkedHold waiters \<Rightarrow> h\<lparr>ph_parked := ParkedHold (filter (\<lambda>n. \<not> nv_receiver_gone v n) waiters)\<rparr>
     | ParkedInformational \<Rightarrow> h)"

definition keeps_card :: "net_view \<Rightarrow> pending_hold \<Rightarrow> bool" where
  "keeps_card v h \<longleftrightarrow> into_waiters (ph_parked (live_waiters v h)) \<noteq> [] \<or> within_deadline v h"

definition sweep_expired :: "net_view \<Rightarrow> decider \<Rightarrow> decider" where
  "sweep_expired v d =
     d\<lparr>dc_holds := map (\<lambda>(i, h). (i, live_waiters v h)) (hm_retain (\<lambda>_ h. keeps_card v h) (dc_holds d)),
       dc_cancelled := dc_cancelled d @ map fst (filter (\<lambda>(_, h). \<not> keeps_card v h) (dc_holds d))\<rparr>"

definition cards_for :: "command_tag option \<Rightarrow> ustring \<Rightarrow> nat \<Rightarrow> decider \<Rightarrow> (ustring \<times> pending_hold) list" where
  "cards_for call host port d = filter (\<lambda>(_, h). is_for call host port h) (dc_holds d)"

text \<open>What the park leaves to do once the lock is released.\<close>

datatype park_next = ParkDone | ParkInform | ParkBooked ustring

definition add_waiter :: "ustring \<Rightarrow> nat \<Rightarrow> decider \<Rightarrow> decider" where
  "add_waiter hold_id n d = (case hm_get (dc_holds d) hold_id of
       Some h \<Rightarrow> d\<lparr>dc_holds := map (\<lambda>(i, h'). if i = hold_id then (i, h'\<lparr>ph_parked := ParkedHold (into_waiters (ph_parked h') @ [n])\<rparr>) else (i, h')) (dc_holds d)\<rparr>
     | None \<Rightarrow> d)"

definition book_card :: "net_view \<Rightarrow> ustring \<Rightarrow> command_tag option \<Rightarrow> ustring \<Rightarrow> nat \<Rightarrow> parked \<Rightarrow> decider \<Rightarrow> decider" where
  "book_card v card_id call host port p d =
     d\<lparr>dc_holds := hm_insert card_id \<lparr>ph_call = call, ph_epoch = nv_call_epoch v call, ph_host = host, ph_port = port,
        ph_posted_unix = nv_now v, ph_parked = p\<rparr> (dc_holds d)\<rparr>"

definition park_lists :: "net_view \<Rightarrow> nat \<Rightarrow> ustring \<Rightarrow> ustring \<Rightarrow> nat \<Rightarrow> command_tag option \<Rightarrow> verdict \<Rightarrow> decider \<Rightarrow> park_next \<times> decider" where
  "park_lists v n fresh host port call domains d0 =
     (if dc_closed d0 then (ParkDone, send_answer None [n] d0)
      else
        let d = sweep_expired v d0 in
        case would_be_of (rows_verdict v host port call) domains of
          WouldAllowed \<Rightarrow> (ParkDone, send_answer (Some True) [n] d)
        | WouldDenied DenyRow \<Rightarrow> (ParkDone, send_answer (Some False) [n] d)
        | WouldDenied WebFetchDenylist \<Rightarrow> (ParkInform, send_answer None [n] d)
        | WouldAsked \<Rightarrow>
            (if (case call of Some c \<Rightarrow> \<not> nv_call_runs v c | None \<Rightarrow> False) then (ParkDone, send_answer None [n] d)
             else case find (\<lambda>(_, h). is_hold (ph_parked h)) (cards_for call host port d) of
                 Some (hold_id, _) \<Rightarrow> (ParkDone, add_waiter hold_id n d)
               | None \<Rightarrow>
                   (if \<not> nv_sink v \<or> MAX_PENDING_CARDS \<le> length (dc_holds d) then (ParkDone, send_answer None [n] d)
                    else (ParkBooked fresh, book_card v fresh call host port (ParkedHold [n]) d))))"

definition post_card :: "net_view \<Rightarrow> ustring \<Rightarrow> decider \<Rightarrow> decider" where
  "post_card v hold_id d =
     (if nv_sink v \<and> hm_get (dc_holds d) hold_id \<noteq> None then d\<lparr>dc_cards := dc_cards d @ [(hold_id, True)]\<rparr> else d)"

definition inform_book :: "net_view \<Rightarrow> ustring \<Rightarrow> ustring \<Rightarrow> nat \<Rightarrow> command_tag option \<Rightarrow> decider \<Rightarrow> bool \<times> decider" where
  "inform_book v fresh host port call d0 =
     (if \<not> nv_sink v \<or> dc_closed d0 then (False, d0)
      else
        let d = sweep_expired v d0 in
        if cards_for call host port d \<noteq> [] \<or> MAX_PENDING_CARDS \<le> length (dc_holds d) then (False, d)
        else (True, book_card v fresh call host port ParkedInformational d))"

definition post_inform :: "ustring \<Rightarrow> decider \<Rightarrow> decider" where
  "post_inform card_id d = d\<lparr>dc_cards := dc_cards d @ [(card_id, False)]\<rparr>"


section \<open>The decision\<close>

definition decide :: "net_view \<Rightarrow> ustring \<Rightarrow> website_origin \<Rightarrow> command_tag option \<Rightarrow> decider \<Rightarrow> decider_decision \<times> decider" where
  "decide v fresh origin call d =
     (let host = wo_hostname origin; port = wo_port origin; domains = domains_verdict v host; mode = mode_for v call in
      if mode = ModeOff then (DecideAllow, d)
      else
        let would = would_be_of (rows_verdict v host port call) domains in
        if mode = ModeObserve then (AllowAndRecord would, d)
        else case would of
            WouldAllowed \<Rightarrow> (DecideAllow, d)
          | WouldDenied DenyRow \<Rightarrow> (DecideDeny, d)
          | WouldDenied WebFetchDenylist \<Rightarrow>
              (let (booked, d1) = inform_book v fresh host port call d
               in (DecideDeny, if booked then post_inform fresh d1 else d1))
          | WouldAsked \<Rightarrow> (if nv_sink v then DecideAsk else DecideDeny, d))"

end
