(* ===== verification/Grant_Hosts_Props.thy ===== *)
theory Grant_Hosts_Props
  imports Grant_Hosts
begin

text \<open>
  Host patterns mean what the rows say: the three forms of a pattern and the hosts they match, coverage of one
  pattern by another, and that two patterns with a common host are ordered.
\<close>


section \<open>Normal forms\<close>

abbreviation dot :: nat where "dot \<equiv> ch CHR ''.''"
abbreviation star :: nat where "star \<equiv> ch CHR ''*''"

lemma pattern_chars [simp]: "str ''*'' = [star]" "str ''*.'' = [star, dot]" "dot = 46" "star = 42"
  by (simp_all add: str_def)

lemma lower_fixed [simp]: "to_ascii_lower c = 46 \<longleftrightarrow> c = 46" "to_ascii_lower c = 42 \<longleftrightarrow> c = 42" "42 = to_ascii_lower c \<longleftrightarrow> c = 42"
  "46 = to_ascii_lower c \<longleftrightarrow> c = 46"
  by (auto simp: to_ascii_lower_def is_ascii_upper_def)

lemma lower_idem [simp]: "lower_ascii (lower_ascii s) = lower_ascii s"
  by (simp add: lower_ascii_def to_ascii_lower_def is_ascii_upper_def)

lemma lower_append: "lower_ascii (a @ b) = lower_ascii a @ lower_ascii b"
  by (simp add: lower_ascii_def)

lemma trim_snoc: "trim_end_char c (s @ [x]) = (if x = c then trim_end_char c s else s @ [x])"
  by (simp add: trim_end_char_def)

lemma trim_end_cases: "\<exists>k. s = trim_end_char c s @ replicate k c"
proof (induction s rule: rev_induct)
  case (snoc x s)
  then obtain k where k: "s = trim_end_char c s @ replicate k c" by blast
  show ?case
  proof (cases "x = c")
    case True
    have "s @ [x] = trim_end_char c s @ replicate (Suc k) c"
      using k True by (metis append_assoc replicate_append_same replicate_Suc)
    then show ?thesis using True unfolding trim_snoc by (intro exI[of _ "Suc k"]) simp
  next
    case False
    then show ?thesis unfolding trim_snoc by (auto intro: exI[of _ 0])
  qed
qed (simp add: trim_end_char_def)

lemma trim_append: "trim_end_char c (a @ b) = (if trim_end_char c b = [] then trim_end_char c a else a @ trim_end_char c b)"
proof (induction b rule: rev_induct)
  case (snoc x b)
  then show ?case by (simp add: trim_snoc flip: append_assoc)
qed (simp add: trim_end_char_def)

lemma trim_lower: "trim_end_char 46 (lower_ascii s) = lower_ascii (trim_end_char 46 s)"
  by (induction s rule: rev_induct) (simp_all add: trim_snoc lower_append, simp_all add: trim_end_char_def lower_ascii_def)

lemma normalized_idem [simp]: "normalized_host (normalized_host h) = normalized_host h"
proof -
  have "trim_end_char 46 (trim_end_char 46 h) = trim_end_char 46 h"
    by (induction h rule: rev_induct) (simp_all add: trim_snoc, simp add: trim_end_char_def)
  then show ?thesis by (simp add: normalized_host_def trim_lower)
qed

lemma normalized_wild:
  "normalized_host (42 # 46 # s) = (if normalized_host s = [] then [42] else 42 # 46 # normalized_host s)"
proof -
  have "trim_end_char 46 (42 # 46 # s) = (if trim_end_char 46 s = [] then [42] else 42 # 46 # trim_end_char 46 s)"
    using trim_append[of 46 "[42, 46]" s] by (simp add: trim_end_char_def)
  then show ?thesis by (simp add: normalized_host_def lower_ascii_def to_ascii_lower_def is_ascii_upper_def)
qed

lemma normalized_not_wild: "strip_prefix [42, 46] p = None \<Longrightarrow> strip_prefix [42, 46] (normalized_host p) = None"
proof (rule ccontr)
  assume n: "strip_prefix [42, 46] p = None" "strip_prefix [42, 46] (normalized_host p) \<noteq> None"
  then obtain r where r: "lower_ascii (trim_end_char 46 p) = 42 # 46 # r" by (auto simp: normalized_host_def)
  then obtain r' where "trim_end_char 46 p = 42 # 46 # r'" by (auto simp: lower_ascii_def map_eq_Cons_conv)
  then have "\<exists>q. p = 42 # 46 # q" using trim_end_cases[of p 46] by auto
  then show False using n(1) by auto
qed

text \<open>No text that begins with something other than a hexadecimal digit, a colon or a bracket is an address.\<close>

lemma first_char_no_ip:
  assumes "to_digit 16 c = None" "c \<noteq> ch CHR '':''" "c \<noteq> ch CHR ''[''"
  shows "ip_literal (c # r) = None"
proof -
  have "to_digit 10 c = None" using assms(1) unfolding to_digit_def by (auto split: if_splits)
  then have "read_number 10 3 False 255 (c # r) = None" "read_number 16 4 True 65535 (c # r) = None"
    using assms(1) by (simp_all add: read_number_def)
  then have "read_ipv4_addr (c # r) = None" "read_groups 8 0 (c # r) = ([], False, c # r)"
    by (simp_all add: read_ipv4_addr_def read_separator_def read_groups.simps)
  then have "parse_ip_addr (c # r) = None" using assms(2) by (simp add: parse_ip_addr_def read_ipv6_addr_def)
  then show ?thesis using assms(3) by (simp add: ip_literal_def str_def)
qed

lemma star_no_ip: "ip_literal (42 # r) = None"
  by (rule first_char_no_ip) (simp_all add: to_digit_def)

lemma normalized_no_star: "42 \<notin> set h \<Longrightarrow> 42 \<notin> set (normalized_host h)"
proof -
  assume "42 \<notin> set h"
  then have "42 \<notin> set (trim_end_char 46 h)" by (auto simp: trim_end_char_def dest: set_dropWhileD)
  then show ?thesis by (simp add: normalized_host_def lower_ascii_def image_iff)
qed


section \<open>What the three forms match\<close>

lemma matches_wild:
  assumes "normalized_host s \<noteq> []"
  shows "host_matches (42 # 46 # s) h \<longleftrightarrow>
    ip_literal (normalized_host h) = None \<and> (\<exists>x. x \<noteq> [] \<and> normalized_host h = x @ 46 # normalized_host s)"
proof -
  let ?h = "normalized_host h" and ?s = "normalized_host s"
  have "?s \<noteq> [] \<and> length ?s + 1 < length ?h \<and> ends_with ?s ?h \<and> ?h ! (length ?h - length ?s - 1) = 46 \<longleftrightarrow>
      (\<exists>x. x \<noteq> [] \<and> ?h = x @ 46 # ?s)" (is "?l \<longleftrightarrow> ?r")
  proof
    assume l: ?l
    then obtain y where y: "?h = y @ ?s" by (auto simp: ends_with_iff)
    have n: "1 < length y" using l y by simp
    then have "length y - 1 < length y" by simp
    then have "?h ! (length ?h - length ?s - 1) = y ! (length y - 1)" by (simp add: y nth_append)
    moreover have "y \<noteq> []" using n by auto
    ultimately have "last y = 46" using l by (simp add: last_conv_nth)
    then have "y = butlast y @ [46]" using n by (metis append_butlast_last_id list.size(3) not_less_zero)
    moreover have "butlast y \<noteq> []" using n by (cases y) auto
    ultimately show ?r using y by (metis append.assoc append_Cons append_Nil)
  next
    assume ?r
    then show ?l using assms by (auto simp: ends_with_iff nth_append)
  qed
  then show ?thesis using star_no_ip assms by (auto simp: host_matches_def is_all_def normalized_wild Let_def split: option.splits)
qed

lemma matches_bare_star: "normalized_host s = [] \<Longrightarrow> host_matches (42 # 46 # s) h \<longleftrightarrow> normalized_host h = [42]"
  using star_no_ip[of "[]"] star_no_ip
  by (auto simp: host_matches_def is_all_def normalized_wild Let_def split: option.splits)

lemma matches_exact:
  assumes "strip_prefix [42, 46] p = None" "\<not> is_all p"
  shows "host_matches p h \<longleftrightarrow> (case ip_literal (normalized_host h) of
      Some a \<Rightarrow> (\<exists>b. ip_literal (normalized_host p) = Some b \<and> to_canonical b = to_canonical a)
    | None \<Rightarrow> normalized_host h = normalized_host p)"
  using assms normalized_not_wild[OF assms(1)] by (auto simp: host_matches_def Let_def split: option.splits)

text \<open>Matching looks only at the normal form of the host, and of a pattern that is not \<open>*\<close>.\<close>

lemma matches_normalized: "normalized_host h = normalized_host h' \<Longrightarrow> host_matches p h = host_matches p h'"
  by (simp add: host_matches_def)

lemma matches_same_pattern:
  "normalized_host p = normalized_host q \<Longrightarrow> \<not> is_all p \<Longrightarrow> \<not> is_all q \<Longrightarrow> host_matches p h = host_matches q h"
  by (simp add: host_matches_def)

lemma pattern_cases:
  obtains (All) "is_all p" | (Wild) s where "p = 42 # 46 # s" "\<not> is_all p"
    | (Exact) "strip_prefix [42, 46] p = None" "\<not> is_all p"
  by (cases "is_all p"; cases "strip_prefix [42, 46] p") auto


section \<open>Coverage\<close>

text \<open>
  Coverage is sound. When the store takes one pattern to be covered by another, every host without a star in
  its name that the first matches is matched by the second.
\<close>

lemma covered_matches:
  assumes c: "is_covered_by p q" and m: "host_matches p h" and ns: "42 \<notin> set h"
  shows "host_matches q h"
proof (cases "is_all q")
  case True
  then show ?thesis by (simp add: host_matches_def)
next
  case nq: False
  show ?thesis
  proof (cases p rule: pattern_cases)
    case All
    then show ?thesis using c nq by (simp add: is_covered_by_def)
  next
    case Exact
    then have q: "host_matches q p" using c nq by (simp add: is_covered_by_def)
    show ?thesis
    proof (cases "ip_literal (normalized_host h)")
      case None
      then have "normalized_host h = normalized_host p" using m matches_exact[OF Exact] by simp
      then show ?thesis using q matches_normalized by blast
    next
      case (Some a)
      then obtain b where b: "ip_literal (normalized_host p) = Some b" "to_canonical b = to_canonical a"
        using m matches_exact[OF Exact] by auto
      then show ?thesis using q nq Some by (auto simp: host_matches_def Let_def split: option.splits)
    qed
  next
    case (Wild s)
    then have "normalized_host q = normalized_host p \<or> (\<exists>t. q = 42 # 46 # t \<and> host_matches q s)"
      using c nq by (auto simp: is_covered_by_def starts_with_iff)
    then show ?thesis
    proof (elim disjE exE conjE)
      assume "normalized_host q = normalized_host p"
      then show ?thesis using m matches_same_pattern[of q p] nq Wild(2) by blast
    next
      fix t assume t: "q = 42 # 46 # t" "host_matches q s"
      have nh: "42 \<notin> set (normalized_host h)" using ns by (rule normalized_no_star)
      have s: "normalized_host s \<noteq> []"
        using m nh Wild(1) matches_bare_star[of s h] by (metis list.set_intros(1))
      obtain x where x: "normalized_host h = x @ 46 # normalized_host s" "ip_literal (normalized_host h) = None"
        using m Wild(1) matches_wild[OF s] by blast
      have "42 \<notin> set (normalized_host s)" using nh unfolding x(1) by simp
      then have n: "normalized_host t \<noteq> []" using t matches_bare_star[of t s] by (metis list.set_intros(1))
      obtain y where "normalized_host s = y @ 46 # normalized_host t" using t matches_wild[OF n, of s] by blast
      then have "normalized_host h = (x @ 46 # y) @ 46 # normalized_host t" using x(1) by simp
      then show ?thesis using x(2) unfolding t(1) matches_wild[OF n] by blast
    qed
  qed
qed


text \<open>
  Patterns that meet are ordered: of two patterns that match one DNS name, one covers the other, provided no
  wildcard is written over an address.
\<close>

definition over_address :: "host_pattern \<Rightarrow> bool" where
  "over_address p \<longleftrightarrow> (\<exists>s. p = 42 # 46 # s \<and> ip_literal (normalized_host s) \<noteq> None)"

lemma no_empty_label:
  assumes "list_all valid_label (split_on 46 h)"
  shows "h \<noteq> x @ 46 # 46 # y" "42 \<notin> set h" "h = [] \<or> last h \<noteq> 46"
proof -
  have ne: "[] \<notin> set (split_on 46 h)" using assms by (auto simp: list_all_iff valid_label_def)
  show "h \<noteq> x @ 46 # 46 # y"
  proof
    assume "h = x @ 46 # 46 # y"
    then have "[] \<in> set (split_on 46 h)" using split_on_append[of 46 x "46 # y"] by simp
    then show False using ne by contradiction
  qed
  have "set (join [46] ws) \<subseteq> insert 46 (\<Union> (set ` set ws))" for ws by (induction "[46 :: nat]" ws rule: join.induct) auto
  from this[of "split_on 46 h"] have "set h \<subseteq> insert 46 (\<Union> (set ` set (split_on 46 h)))" by (simp add: join_split_on)
  moreover have "42 \<notin> set l" if "l \<in> set (split_on 46 h)" for l
    using assms that by (force simp: list_all_iff valid_label_def is_ascii_alphanumeric_def is_ascii_digit_def is_ascii_upper_def is_ascii_lower_def)
  ultimately show "42 \<notin> set h" by auto
  show "h = [] \<or> last h \<noteq> 46"
  proof (rule ccontr)
    assume "\<not> ?thesis"
    then have "h = butlast h @ 46 # []" by (metis append_butlast_last_id)
    then have "[] \<in> set (split_on 46 h)" using split_on_append[of 46 "butlast h" "[]"] by (metis UnCI list.set_intros(1) set_append split_on.simps(1))
    then show False using ne by contradiction
  qed
qed

lemma normalized_dns:
  assumes "valid_dns_hostname h"
  shows "normalized_host h = lower_ascii h" "lower_ascii h \<noteq> x @ 46 # 46 # y" "42 \<notin> set h"
proof -
  note v = no_empty_label[of h, OF assms[unfolded valid_dns_hostname_def pattern_chars, THEN conjunct2, THEN conjunct2]]
  have "trim_end_char 46 h = h" using v(3) by (cases h rule: rev_cases) (auto simp: trim_snoc, simp add: trim_end_char_def)
  then show "normalized_host h = lower_ascii h" by (simp add: normalized_host_def)
  show "42 \<notin> set h" by (rule v(2))
  show "lower_ascii h \<noteq> x @ 46 # 46 # y"
  proof
    let ?n = "length x"
    assume e: "lower_ascii h = x @ 46 # 46 # y"
    then have n: "length h = ?n + 2 + length y" by (metis add_2_eq_Suc' add_Suc_right add_Suc_shift length_Cons length_append length_map lower_ascii_def)
    have "lower_ascii h ! ?n = 46" "lower_ascii h ! Suc ?n = 46" unfolding e by (simp_all add: nth_append)
    then have "h ! ?n = 46" "h ! Suc ?n = 46" using n by (simp_all add: lower_ascii_def)
    moreover have "drop ?n h = h ! ?n # h ! Suc ?n # drop (Suc (Suc ?n)) h" using n by (simp add: Cons_nth_drop_Suc)
    ultimately have "h = take ?n h @ 46 # 46 # drop (Suc (Suc ?n)) h" by (metis append_take_drop_id)
    then show False using v(1) by blast
  qed
qed

lemma wild_order:
  assumes "h = x @ 46 # s" "h = y @ 46 # t" "length t < length s" "\<And>a b. h \<noteq> a @ 46 # 46 # b"
  obtains z where "s = z @ 46 # t" "z \<noteq> []"
proof -
  have "\<exists>z. s = z @ 46 # t"
  proof -
    have "x @ 46 # s = y @ 46 # t" using assms by simp
    then obtain us where "(x = y @ us \<and> us @ 46 # s = 46 # t) \<or> (x @ us = y \<and> 46 # s = us @ 46 # t)"
      by (auto simp: append_eq_append_conv2)
    then show ?thesis
    proof
      assume "x = y @ us \<and> us @ 46 # s = 46 # t"
      then have "length us + length s = length t" by (metis add_Suc_right length_Cons length_append nat.inject)
      then show ?thesis using assms(3) by simp
    next
      assume "x @ us = y \<and> 46 # s = us @ 46 # t"
      then show ?thesis using assms(3) by (cases us) auto
    qed
  qed
  then obtain z where z: "s = z @ 46 # t" by blast
  moreover have "z \<noteq> []" using z assms(1) assms(4)[of x t] by auto
  ultimately show ?thesis using that by blast
qed

lemma wild_meet:
  assumes m: "host_matches (42 # 46 # s) h" "host_matches (42 # 46 # t) h" and v: "valid_dns_hostname h"
    and a: "ip_literal (normalized_host s) = None" and l: "length (normalized_host t) < length (normalized_host s)"
  shows "is_covered_by (42 # 46 # s) (42 # 46 # t)"
proof -
  note d = normalized_dns[OF v]
  have ns: "normalized_host s \<noteq> []" "normalized_host t \<noteq> []"
    using m matches_bare_star d(3) normalized_no_star by (metis list.set_intros(1))+
  obtain x y where xy: "normalized_host h = x @ 46 # normalized_host s" "normalized_host h = y @ 46 # normalized_host t"
    using m matches_wild[OF ns(1)] matches_wild[OF ns(2)] by blast
  obtain z where "normalized_host s = z @ 46 # normalized_host t" "z \<noteq> []"
    using wild_order[OF xy l] d(1,2) by metis
  then have "host_matches (42 # 46 # t) s" unfolding matches_wild[OF ns(2)] using a by blast
  then show ?thesis by (simp add: is_covered_by_def is_all_def starts_with_iff)
qed

lemma meeting_ordered:
  assumes m: "host_matches p h" "host_matches q h" and v: "valid_dns_hostname h" and a: "\<not> over_address p" "\<not> over_address q"
  shows "is_covered_by p q \<or> is_covered_by q p"
proof (cases "is_all p \<or> is_all q")
  case True
  then show ?thesis by (auto simp: is_covered_by_def)
next
  case na: False
  have exact: "is_covered_by p' q'" if p': "strip_prefix [42, 46] p' = None" "\<not> is_all p'" "\<not> is_all q'"
    and mm: "host_matches p' h" "host_matches q' h" for p' q'
  proof (cases "ip_literal (normalized_host h)")
    case None
    then have "normalized_host p' = normalized_host h" using mm matches_exact[OF p'(1,2)] by simp
    then have "host_matches q' p'" using mm(2) matches_normalized by blast
    then show ?thesis using p' by (simp add: is_covered_by_def)
  next
    case (Some b)
    then obtain c where c: "ip_literal (normalized_host p') = Some c" "to_canonical c = to_canonical b"
      using mm(1) matches_exact[OF p'(1,2)] by auto
    then have "host_matches q' p'" using mm(2) p'(3) Some by (auto simp: host_matches_def Let_def split: option.splits)
    then show ?thesis using p' by (simp add: is_covered_by_def)
  qed
  show ?thesis
  proof (cases "strip_prefix [42, 46] p = None \<or> strip_prefix [42, 46] q = None")
    case True
    then show ?thesis using exact[of p q] exact[of q p] m na by blast
  next
    case False
    then obtain s t where st: "p = 42 # 46 # s" "q = 42 # 46 # t" by auto
    have nip: "ip_literal (normalized_host s) = None" "ip_literal (normalized_host t) = None"
      using a unfolding over_address_def st by auto
    consider "length (normalized_host t) < length (normalized_host s)" | "length (normalized_host s) < length (normalized_host t)"
      | "length (normalized_host s) = length (normalized_host t)" by linarith
    then show ?thesis
    proof cases
      case 1
      then show ?thesis using wild_meet[of s h t] m v nip st by blast
    next
      case 2
      then show ?thesis using wild_meet[of t h s] m v nip st by blast
    next
      case 3
      note d = normalized_dns[OF v]
      have ns: "normalized_host s \<noteq> []" "normalized_host t \<noteq> []"
        using m matches_bare_star d(3) normalized_no_star unfolding st by (metis list.set_intros(1))+
      have "normalized_host s = normalized_host t"
        using m 3 unfolding st matches_wild[OF ns(1)] matches_wild[OF ns(2)] by auto
      then have "normalized_host p = normalized_host q" by (simp add: st normalized_wild)
      then show ?thesis using na st by (simp add: is_covered_by_def)
    qed
  qed
qed

end
