(* ===== verification/Net_Decider_Props.thy ===== *)
theory Net_Decider_Props
  imports Net_Decider Grant_Hosts_Props "HOL-Library.Multiset"
begin

text \<open>
  Correctness of the network decider: the books as a state machine of its critical sections, with their invariant
  (bounded cards, one per key, every connection answered at most once); what a yes to a connection rests on; that
  no waiting connection is forgotten; and that the rows a command's policy is built from decide like the live rows.
\<close>


section \<open>The books as a state machine\<close>

text \<open>
  One event is one critical section. A park is given the verdict of the lists it read before the lock and an
  identifier for its card; its connection is the number of parks before it.
\<close>

datatype net_event =
    EvPark net_view ustring ustring nat "command_tag option" verdict
  | EvPost net_view ustring
  | EvBookingDropped ustring
  | EvInform net_view ustring ustring nat "command_tag option"
  | EvInformed ustring
  | EvSettle net_view ustring hold_answer
  | EvCovered net_view
  | EvCallEnded command_tag nat
  | EvMarkClosed
  | EvReleaseAll

record net_machine =
  nm_dec :: decider
  nm_asked :: "(command_tag option \<times> ustring \<times> nat) list"

definition machine_new :: net_machine where
  "machine_new = \<lparr>nm_dec = decider_new, nm_asked = []\<rparr>"

fun dec_step :: "nat \<Rightarrow> decider \<Rightarrow> net_event \<Rightarrow> decider" where
  "dec_step n d (EvPark v fresh host port call domains) = snd (park_lists v n fresh host port call domains d)"
| "dec_step n d (EvPost v hold_id) = post_card v hold_id d"
| "dec_step n d (EvBookingDropped hold_id) = drain hold_id HoldDeny d"
| "dec_step n d (EvInform v fresh host port call) = snd (inform_book v fresh host port call d)"
| "dec_step n d (EvInformed card_id) = post_inform card_id d"
| "dec_step n d (EvSettle v hold_id answer) = snd (settle_taken v hold_id answer d)"
| "dec_step n d (EvCovered v) = release_holds_now_covered v d"
| "dec_step n d (EvCallEnded call epoch) = release_call_holds call epoch d"
| "dec_step n d EvMarkClosed = mark_closed d"
| "dec_step n d EvReleaseAll = release_all HoldDeny d"

fun asks :: "net_event \<Rightarrow> (command_tag option \<times> ustring \<times> nat) list" where
  "asks (EvPark v fresh host port call domains) = [(call, host, port)]"
| "asks _ = []"

definition net_step :: "net_machine \<Rightarrow> net_event \<Rightarrow> net_machine" where
  "net_step m e = \<lparr>nm_dec = dec_step (length (nm_asked m)) (nm_dec m) e, nm_asked = nm_asked m @ asks e\<rparr>"

abbreviation net_run :: "net_event list \<Rightarrow> net_machine" where
  "net_run es \<equiv> foldl net_step machine_new es"

text \<open>The connections waiting on a list of cards, and all that wait or have been answered.\<close>

definition waiting :: "(ustring \<times> pending_hold) list \<Rightarrow> nat multiset" where
  "waiting hs = mset (concat (map (into_waiters \<circ> ph_parked \<circ> snd) hs))"

definition booked :: "decider \<Rightarrow> nat multiset" where
  "booked d = waiting (dc_holds d) + mset (map fst (dc_answers d))"

lemma waiting_simps [simp]: "waiting [] = {#}" "waiting (e # hs) = mset (into_waiters (ph_parked (snd e))) + waiting hs"
  "waiting (hs @ hs') = waiting hs + waiting hs'"
  by (simp_all add: waiting_def)

lemma image_fst_pair [simp]: "image_mset fst (image_mset (\<lambda>n. (n, a)) A) = A"
  by (simp add: image_mset.compositionality comp_def)

lemma waiting_filter: "waiting (filter P hs) \<subseteq># waiting hs"
  by (induction hs) (auto intro: subset_mset.add_mono subset_mset.add_increasing)

lemma waiting_remove:
  assumes "hm_ok hs" "hm_get hs k = Some h"
  shows "waiting hs = waiting (hm_remove k hs) + mset (into_waiters (ph_parked h))"
  using assms
proof (induction hs)
  case (Cons e hs)
  show ?case
  proof (cases "fst e = k")
    case True
    then have "filter (\<lambda>e. fst e \<noteq> k) hs = hs" using Cons.prems(1) by (intro filter_True) (auto simp: hm_ok_def image_iff)
    then show ?thesis using True Cons.prems(2) by (cases e) (simp add: hm_remove_def)
  next
    case False
    then show ?thesis using Cons by (cases e) (simp add: hm_ok_def hm_remove_def)
  qed
qed simp

lemma waiting_insert:
  assumes "hm_ok hs"
  shows "waiting (hm_insert k h hs) = waiting (hm_remove k hs) + mset (into_waiters (ph_parked h))"
  using assms
proof (induction hs)
  case (Cons e hs)
  show ?case
  proof (cases "fst e = k")
    case True
    then have "filter (\<lambda>e. fst e \<noteq> k) hs = hs" using Cons.prems by (intro filter_True) (auto simp: hm_ok_def image_iff)
    then show ?thesis using True by (cases e) (simp add: hm_remove_def hm_insert_def)
  next
    case False
    then show ?thesis using Cons by (cases e) (simp add: hm_ok_def hm_remove_def hm_insert_def)
  qed
qed (simp add: hm_insert_def hm_remove_def)


section \<open>What each critical section does to the books\<close>

lemma send_answer_simps [simp]:
  "dc_holds (send_answer a ns d) = dc_holds d" "dc_closed (send_answer a ns d) = dc_closed d"
  "dc_answers (send_answer a ns d) = dc_answers d @ map (\<lambda>n. (n, a)) ns"
  "booked (send_answer a ns d) = booked d + mset ns"
  by (simp_all add: send_answer_def booked_def comp_def)

lemma withdraw_simps [simp]:
  "dc_holds (withdraw i h a d) = dc_holds d" "dc_closed (withdraw i h a d) = dc_closed d"
  "dc_answers (withdraw i h a d) = dc_answers d @ map (\<lambda>n. (n, Some (a = HoldAllow))) (into_waiters (ph_parked h))"
  by (simp_all add: withdraw_def release_hold_def)

definition drained :: "(pending_hold \<Rightarrow> hold_answer option) \<Rightarrow> (ustring \<times> pending_hold) list \<Rightarrow> (nat \<times> bool option) list" where
  "drained pick hs = concat (map (\<lambda>(_, h). case pick h of None \<Rightarrow> []
     | Some a \<Rightarrow> map (\<lambda>n. (n, Some (a = HoldAllow))) (into_waiters (ph_parked h))) hs)"

lemma drain_fold:
  "dc_holds (foldl (\<lambda>d' (i, h). case pick h of None \<Rightarrow> d' | Some a \<Rightarrow> withdraw i h a d') d hs) = dc_holds d"
  "dc_closed (foldl (\<lambda>d' (i, h). case pick h of None \<Rightarrow> d' | Some a \<Rightarrow> withdraw i h a d') d hs) = dc_closed d"
  "dc_answers (foldl (\<lambda>d' (i, h). case pick h of None \<Rightarrow> d' | Some a \<Rightarrow> withdraw i h a d') d hs) = dc_answers d @ drained pick hs"
proof (induction hs arbitrary: d)
  case (Cons e hs)
  { case 1 show ?case using Cons.IH(1) by (cases e) (simp split: option.splits) }
  { case 2 show ?case using Cons.IH(2) by (cases e) (simp split: option.splits) }
  { case 3 show ?case using Cons.IH(3) by (cases e) (simp add: drained_def split: option.splits) }
qed (simp_all add: drained_def)

lemma drain_holds_simps [simp]:
  "dc_holds (drain_holds pick d) = hm_retain (\<lambda>_ h. pick h = None) (dc_holds d)"
  "dc_closed (drain_holds pick d) = dc_closed d"
  "dc_answers (drain_holds pick d) = dc_answers d @ drained pick (dc_holds d)"
  by (simp_all add: drain_holds_def drain_fold)

lemma drained_waiting: "waiting (hm_retain (\<lambda>_ h. pick h = None) hs) + mset (map fst (drained pick hs)) = waiting hs"
  by (induction hs) (auto simp: hm_retain_def drained_def split: option.splits)

lemma booked_drain_holds [simp]: "booked (drain_holds pick d) = booked d"
  by (simp add: booked_def flip: drained_waiting[of pick "dc_holds d"])

lemma booked_drain [simp]: "hm_ok (dc_holds d) \<Longrightarrow> booked (drain i a d) = booked d"
  by (auto simp: drain_def booked_def waiting_remove[of "dc_holds d" i] split: option.splits)

lemma booked_settle [simp]: "hm_ok (dc_holds d) \<Longrightarrow> booked (snd (settle_taken v i a d)) = booked d"
  by (auto simp: settle_taken_def Let_def release_hold_def booked_def waiting_remove[of "dc_holds d" i] split: option.splits)

lemma live_waiters_simps [simp]:
  "ph_call (live_waiters v h) = ph_call h" "ph_host (live_waiters v h) = ph_host h" "ph_port (live_waiters v h) = ph_port h"
  "is_hold (ph_parked (live_waiters v h)) = is_hold (ph_parked h)"
  "into_waiters (ph_parked (live_waiters v h)) = filter (\<lambda>n. \<not> nv_receiver_gone v n) (into_waiters (ph_parked h))"
  by (simp_all add: live_waiters_def is_hold_def into_waiters_def split: parked.splits)

definition swept :: "net_view \<Rightarrow> (ustring \<times> pending_hold) list \<Rightarrow> (ustring \<times> pending_hold) list" where
  "swept v hs = map (\<lambda>(i, h). (i, live_waiters v h)) (hm_retain (\<lambda>_ h. keeps_card v h) hs)"

lemma sweep_simps [simp]:
  "dc_holds (sweep_expired v d) = swept v (dc_holds d)" "dc_closed (sweep_expired v d) = dc_closed d"
  "dc_answers (sweep_expired v d) = dc_answers d"
  by (simp_all add: sweep_expired_def swept_def)

lemma waiting_swept: "waiting (swept v hs) = filter_mset (\<lambda>n. \<not> nv_receiver_gone v n) (waiting hs)"
proof (induction hs)
  case (Cons e hs)
  have "filter_mset (\<lambda>n. \<not> nv_receiver_gone v n) (mset (into_waiters (ph_parked (snd e)))) = {#}" if "\<not> keeps_card v (snd e)"
    using that by (simp add: keeps_card_def flip: mset_filter)
  then show ?case using Cons by (cases e) (auto simp: swept_def hm_retain_def simp flip: mset_filter)
qed (simp add: swept_def hm_retain_def)

lemma booked_sweep: "booked (sweep_expired v d) \<subseteq># booked d"
  by (simp add: booked_def waiting_swept)

lemma booked_sweep_all: "(\<And>n. \<not> nv_receiver_gone v n) \<Longrightarrow> booked (sweep_expired v d) = booked d"
  by (simp add: booked_def waiting_swept)

lemma list_all_insert: "list_all P hs \<Longrightarrow> P (k, x) \<Longrightarrow> list_all P (hm_insert k x hs)"
  unfolding hm_insert_def by (induction hs) auto

lemma add_waiter_holds:
  assumes "hm_get (dc_holds d) i = Some h"
  shows "dc_holds (add_waiter i n d) = map (\<lambda>(j, h'). if j = i then (j, h'\<lparr>ph_parked := ParkedHold (into_waiters (ph_parked h') @ [n])\<rparr>) else (j, h')) (dc_holds d)"
    "dc_closed (add_waiter i n d) = dc_closed d" "dc_answers (add_waiter i n d) = dc_answers d"
  using assms by (simp_all add: add_waiter_def)

lemma waiting_joined:
  assumes "hm_ok hs" "hm_get hs i = Some h"
  shows "waiting (map (\<lambda>(j, h'). if j = i then (j, h'\<lparr>ph_parked := ParkedHold (into_waiters (ph_parked h') @ [n])\<rparr>) else (j, h')) hs)
    = waiting hs + {#n#}"
  using assms
proof (induction hs)
  case (Cons e hs)
  have "map (\<lambda>(j, h'). if j = i then (j, h'\<lparr>ph_parked := ParkedHold (into_waiters (ph_parked h') @ [n])\<rparr>) else (j, h')) hs = hs" if "fst e = i"
    using that Cons.prems(1) by (intro map_idI) (auto simp: hm_ok_def image_iff)
  then show ?case using Cons by (cases e) (auto simp: hm_ok_def into_waiters_def)
qed simp

lemma book_card_simps [simp]:
  "dc_closed (book_card v i call host port p d) = dc_closed d" "dc_answers (book_card v i call host port p d) = dc_answers d"
  "dc_holds (book_card v i call host port p d) = hm_insert i \<lparr>ph_call = call, ph_epoch = nv_call_epoch v call, ph_host = host,
     ph_port = port, ph_posted_unix = nv_now v, ph_parked = p\<rparr> (dc_holds d)"
  by (simp_all add: book_card_def)

lemma booked_book:
  assumes "hm_ok (dc_holds d)"
  shows "booked (book_card v i call host port p d) \<subseteq># booked d + mset (into_waiters p)"
    "hm_get (dc_holds d) i = None \<Longrightarrow> booked (book_card v i call host port p d) = booked d + mset (into_waiters p)"
proof -
  have "waiting (hm_remove i (dc_holds d)) \<subseteq># waiting (dc_holds d)" by (simp add: hm_remove_def waiting_filter)
  then show "booked (book_card v i call host port p d) \<subseteq># booked d + mset (into_waiters p)"
    using assms by (simp add: booked_def book_card_def waiting_insert)
  assume "hm_get (dc_holds d) i = None"
  then have "hm_remove i (dc_holds d) = dc_holds d" by (auto simp: hm_remove_def map_of_eq_None_iff intro!: filter_True)
  then show "booked (book_card v i call host port p d) = booked d + mset (into_waiters p)"
    using assms by (simp add: booked_def book_card_def waiting_insert)
qed


section \<open>The invariant\<close>

text \<open>
  Cards have distinct identifiers and are at most \<open>MAX_PENDING_CARDS\<close>; one hold at most per call, port and host;
  a connection is parked once or answered once, never both; and it waits under a card for what it asked.
\<close>

definition card_key :: "pending_hold \<Rightarrow> command_tag option \<times> nat \<times> ustring" where
  "card_key h = (ph_call h, ph_port h, lower_ascii (ph_host h))"

definition hold_keys :: "(ustring \<times> pending_hold) list \<Rightarrow> (command_tag option \<times> nat \<times> ustring) list" where
  "hold_keys hs = map (card_key \<circ> snd) (filter (is_hold \<circ> ph_parked \<circ> snd) hs)"

definition cards_ok :: "(ustring \<times> pending_hold) list \<Rightarrow> bool" where
  "cards_ok hs \<longleftrightarrow> hm_ok hs \<and> length hs \<le> MAX_PENDING_CARDS \<and> distinct (hold_keys hs)"

definition waits_for :: "(command_tag option \<times> ustring \<times> nat) list \<Rightarrow> pending_hold \<Rightarrow> bool" where
  "waits_for asked h \<longleftrightarrow> (\<forall>n \<in> set (into_waiters (ph_parked h)).
     n < length asked \<and> (case asked ! n of (call, host, port) \<Rightarrow> is_for call host port h))"

definition books_at :: "(command_tag option \<times> ustring \<times> nat) list \<Rightarrow> decider \<Rightarrow> bool" where
  "books_at asked d \<longleftrightarrow> cards_ok (dc_holds d) \<and> list_all (waits_for asked \<circ> snd) (dc_holds d)
     \<and> booked d \<subseteq># mset [0..<length asked]"

definition books_ok :: "net_machine \<Rightarrow> bool" where
  "books_ok m \<longleftrightarrow> books_at (nm_asked m) (nm_dec m)"

lemma is_for_key: "is_for call host port h \<longleftrightarrow> card_key h = (call, port, lower_ascii host)"
  by (auto simp: is_for_def card_key_def eq_ignore_ascii_case_def)

lemma hold_keys_filter: "distinct (hold_keys hs) \<Longrightarrow> distinct (hold_keys (filter P hs))"
proof -
  assume "distinct (hold_keys hs)"
  then have "distinct (map (card_key \<circ> snd) (filter P (filter (is_hold \<circ> ph_parked \<circ> snd) hs)))"
    unfolding hold_keys_def by (rule distinct_map_filter)
  then show ?thesis by (simp add: hold_keys_def conj_commute)
qed

lemma cards_ok_filter [simp]: "cards_ok hs \<Longrightarrow> cards_ok (filter P hs)"
  by (auto simp: cards_ok_def hold_keys_filter hm_ok_def distinct_map_filter intro: le_trans[OF length_filter_le])

lemma cards_ok_remove [simp]: "cards_ok hs \<Longrightarrow> cards_ok (hm_remove i hs)"
  by (simp add: hm_remove_def)

lemma cards_ok_retain [simp]: "cards_ok hs \<Longrightarrow> cards_ok (hm_retain P hs)"
  by (simp add: hm_retain_def)

lemma hold_keys_Cons [simp]: "hold_keys (e # hs) = (if is_hold (ph_parked (snd e)) then [card_key (snd e)] else []) @ hold_keys hs"
  "hold_keys [] = []"
  by (simp_all add: hold_keys_def)

text \<open>Changing what is parked under a card, not its key or kind.\<close>

lemma hold_keys_map:
  assumes "\<And>i h. (i, h) \<in> set hs \<Longrightarrow> card_key (f i h) = card_key h \<and> is_hold (ph_parked (f i h)) = is_hold (ph_parked h)"
  shows "hold_keys (map (\<lambda>(i, h). (i, f i h)) hs) = hold_keys hs"
  using assms by (induction hs) auto

lemma cards_ok_map:
  assumes "cards_ok hs" "\<And>i h. (i, h) \<in> set hs \<Longrightarrow> card_key (f i h) = card_key h \<and> is_hold (ph_parked (f i h)) = is_hold (ph_parked h)"
  shows "cards_ok (map (\<lambda>(i, h). (i, f i h)) hs)"
proof -
  have "map fst (map (\<lambda>(i, h). (i, f i h)) hs) = map fst hs" by (induction hs) auto
  moreover have "hold_keys (map (\<lambda>(i, h). (i, f i h)) hs) = hold_keys hs" by (rule hold_keys_map) (rule assms(2))
  ultimately show ?thesis using assms(1) unfolding cards_ok_def hm_ok_def by (metis length_map)
qed

lemma cards_ok_swept [simp]: "cards_ok hs \<Longrightarrow> cards_ok (swept v hs)"
  unfolding swept_def by (rule cards_ok_map) (simp_all add: card_key_def)

lemma cards_ok_insert:
  assumes "cards_ok hs" "length hs < MAX_PENDING_CARDS" "is_hold (ph_parked h) \<Longrightarrow> card_key h \<notin> set (hold_keys hs)"
  shows "cards_ok (hm_insert i h hs)"
proof -
  have "distinct (hold_keys (hm_insert i h hs))" if "distinct (hold_keys hs)" "is_hold (ph_parked h) \<Longrightarrow> card_key h \<notin> set (hold_keys hs)"
    using that
  proof (induction hs)
    case (Cons e hs)
    have "set (hold_keys (hm_insert i h hs)) \<subseteq> set (hold_keys hs) \<union> (if is_hold (ph_parked h) then {card_key h} else {})"
      by (induction hs) (auto simp: hm_insert_def)
    then show ?case using Cons by (cases e) (auto simp: hm_insert_def split: if_splits)
  qed (simp add: hm_insert_def)
  then show ?thesis using assms by (simp add: cards_ok_def hm_ok_insert length_hm_insert)
qed

lemma waits_for_append: "waits_for asked h \<Longrightarrow> waits_for (asked @ xs) h"
  by (auto simp: waits_for_def nth_append)

lemma waits_for_parked:
  "ph_call h' = ph_call h \<Longrightarrow> ph_host h' = ph_host h \<Longrightarrow> ph_port h' = ph_port h
    \<Longrightarrow> set (into_waiters (ph_parked h')) \<subseteq> set (into_waiters (ph_parked h)) \<Longrightarrow> waits_for asked h \<Longrightarrow> waits_for asked h'"
  unfolding waits_for_def is_for_def by (simp add: subset_iff)

lemma waits_for_join:
  assumes "waits_for asked h" "n < length asked" "asked ! n = (call, host, port)" "is_for call host port h"
  shows "waits_for asked (h\<lparr>ph_parked := ParkedHold (into_waiters (ph_parked h) @ [n])\<rparr>)"
proof -
  have same: "is_for c ho po (h\<lparr>ph_parked := p\<rparr>) = is_for c ho po h" for c ho po p by (simp add: is_for_def)
  have "into_waiters (ParkedHold ns) = ns" for ns by (simp add: into_waiters_def)
  then show ?thesis using assms unfolding waits_for_def same pending_hold.simps by simp
qed

text \<open>Sections that take cards off the books or answer them keep the invariant.\<close>

lemma books_at_less:
  assumes "books_at asked d" "dc_holds d' = filter P (dc_holds d)" "booked d' \<subseteq># booked d"
  shows "books_at asked d'"
  using assms by (auto simp: books_at_def list_all_iff intro: subset_mset.order_trans)

lemma books_at_drain_holds:
  assumes "books_at asked d"
  shows "books_at asked (drain_holds pick d)"
  by (rule books_at_less[OF assms]) (simp_all add: hm_retain_def)

lemma books_at_ok: "books_at asked d \<Longrightarrow> hm_ok (dc_holds d)"
  by (simp add: books_at_def cards_ok_def)

lemma books_at_remove:
  assumes "books_at asked d" "dc_holds d' = hm_remove i (dc_holds d)" "booked d' = booked d"
  shows "books_at asked d'"
  by (rule books_at_less[OF assms(1)]) (simp_all add: assms(2,3) hm_remove_def subset_mset.order_refl)

lemma books_at_drain:
  assumes "books_at asked d"
  shows "books_at asked (drain i a d)"
proof (cases "hm_get (dc_holds d) i")
  case (Some h)
  show ?thesis
    by (rule books_at_remove[OF assms, of _ i]) (simp_all add: Some drain_def booked_drain[OF books_at_ok[OF assms], of i a, unfolded drain_def Some option.case])
qed (simp add: drain_def assms)

lemma books_at_settle:
  assumes "books_at asked d"
  shows "books_at asked (snd (settle_taken v i a d))"
proof -
  have "dc_holds (snd (settle_taken v i a d)) = hm_remove i (dc_holds d) \<or> snd (settle_taken v i a d) = d"
    by (auto simp: settle_taken_def Let_def release_hold_def split: option.splits)
  then show ?thesis
  proof
    assume "dc_holds (snd (settle_taken v i a d)) = hm_remove i (dc_holds d)"
    then show ?thesis by (rule books_at_remove[OF assms]) (rule booked_settle[OF books_at_ok[OF assms]])
  qed (simp add: assms)
qed

lemma books_at_sweep:
  assumes "books_at asked d"
  shows "books_at asked (sweep_expired v d)"
proof -
  have "waits_for asked h" if "(i, h) \<in> set (dc_holds d)" for i h
    using assms that by (auto simp: books_at_def list_all_iff)
  then have "waits_for asked (live_waiters v h)" if "(i, h) \<in> set (dc_holds d)" for i h
    using that waits_for_parked[of "live_waiters v h" h] by force
  then have "list_all (waits_for asked \<circ> snd) (swept v (dc_holds d))"
    by (auto simp: list_all_iff swept_def hm_retain_def)
  moreover have "booked (sweep_expired v d) \<subseteq># mset [0..<length asked]"
    using assms booked_sweep unfolding books_at_def by (blast intro: subset_mset.order_trans)
  ultimately show ?thesis using assms by (simp add: books_at_def)
qed

lemma books_at_append: "books_at asked d \<Longrightarrow> books_at (asked @ xs) d"
proof -
  assume b: "books_at asked d"
  have "mset [0..<length asked] \<subseteq># mset [0..<length (asked @ xs)]"
    using upt_add_eq_append[of 0 "length asked" "length xs"] by simp
  then show ?thesis using b by (auto simp: books_at_def list_all_iff waits_for_append intro: subset_mset.order_trans)
qed

lemma distinct_sub:
  assumes "mset xs \<subseteq># mset ys" "distinct ys"
  shows "distinct xs"
proof -
  have "count (mset xs) a = (if a \<in> set xs then 1 else 0)" for a
  proof (cases "a \<in> set xs")
    case True
    have "count (mset ys) a \<le> 1" using assms(2) by (simp add: distinct_count_atmost_1)
    then have "count (mset xs) a \<le> 1" using mset_subset_eq_count[OF assms(1), of a] by linarith
    then show ?thesis using True by (simp add: Suc_leI le_antisym)
  qed (simp add: count_eq_zero_iff)
  then show ?thesis by (simp add: distinct_count_atmost_1)
qed

lemma find_SomeD: "find P xs = Some x \<Longrightarrow> x \<in> set xs \<and> P x"
  by (metis find_Some_iff nth_mem)

text \<open>A park ends in one of three ways.\<close>

lemma park_cases:
  assumes "books_at asked d"
  obtains (answered) a d1 where "snd (park_lists v n fresh host port call domains d) = send_answer a [n] d1"
      "d1 = d \<or> d1 = sweep_expired v d" "a = Some True \<Longrightarrow> would_be_of (rows_verdict v host port call) domains = WouldAllowed"
  | (joined) i h where "snd (park_lists v n fresh host port call domains d) = add_waiter i n (sweep_expired v d)"
      "hm_get (swept v (dc_holds d)) i = Some h" "is_hold (ph_parked h)" "is_for call host port h"
  | (booked) "snd (park_lists v n fresh host port call domains d) = book_card v fresh call host port (ParkedHold [n]) (sweep_expired v d)"
      "length (swept v (dc_holds d)) < MAX_PENDING_CARDS" "(call, port, lower_ascii host) \<notin> set (hold_keys (swept v (dc_holds d)))"
      "\<not> dc_closed d"
proof -
  let ?s = "swept v (dc_holds d)" and ?p = "park_lists v n fresh host port call domains d"
  have ok: "hm_ok ?s" using books_at_ok[OF books_at_sweep[OF assms]] by simp
  show ?thesis
  proof (cases "dc_closed d \<or> would_be_of (rows_verdict v host port call) domains \<noteq> WouldAsked
      \<or> (case call of Some c \<Rightarrow> \<not> nv_call_runs v c | None \<Rightarrow> False)")
    case True
    have "\<exists>a d1. snd ?p = send_answer a [n] d1 \<and> (d1 = d \<or> d1 = sweep_expired v d)
        \<and> (a = Some True \<longrightarrow> would_be_of (rows_verdict v host port call) domains = WouldAllowed)"
    proof (cases "would_be_of (rows_verdict v host port call) domains")
      case (WouldDenied s)
      then show ?thesis by (cases s) (auto simp: park_lists_def)
    next
      case WouldAsked
      then have "snd ?p = send_answer None [n] d \<or> snd ?p = send_answer None [n] (sweep_expired v d)"
        using True by (auto simp: park_lists_def)
      then show ?thesis by blast
    qed (auto simp: park_lists_def)
    then show ?thesis using answered by blast
  next
    case asked: False
    show ?thesis
    proof (cases "find (\<lambda>(_, h). is_hold (ph_parked h)) (cards_for call host port (sweep_expired v d))")
      case (Some e)
      obtain i h where e: "e = (i, h)" by (cases e)
      have m: "(i, h) \<in> set ?s" "is_hold (ph_parked h)" "is_for call host port h"
        using find_SomeD[OF Some] unfolding e by (auto simp: cards_for_def)
      then have "hm_get ?s i = Some h" using ok by (simp add: hm_ok_def)
      moreover have "snd ?p = add_waiter i n (sweep_expired v d)" using asked Some unfolding e by (simp add: park_lists_def)
      ultimately show ?thesis using joined m by blast
    next
      case None
      then have free: "(call, port, lower_ascii host) \<notin> set (hold_keys ?s)"
        by (auto simp: find_None_iff cards_for_def hold_keys_def is_for_key)
      show ?thesis
      proof (cases "\<not> nv_sink v \<or> MAX_PENDING_CARDS \<le> length ?s")
        case True
        then have "snd ?p = send_answer None [n] (sweep_expired v d)" using asked None by (simp add: park_lists_def)
        then show ?thesis using answered by blast
      next
        case False
        then have "snd ?p = book_card v fresh call host port (ParkedHold [n]) (sweep_expired v d)" using asked None by (simp add: park_lists_def)
        then show ?thesis using booked free False asked by auto
      qed
    qed
  qed
qed

lemma books_at_park:
  assumes "books_at asked d"
  shows "books_at (asked @ [(call, host, port)]) (snd (park_lists v (length asked) fresh host port call domains d))"
proof -
  let ?n = "length asked" and ?s = "sweep_expired v d" and ?a = "asked @ [(call, host, port)]"
  have s: "books_at ?a d" "books_at ?a ?s" using assms books_at_append books_at_sweep by blast+
  have new: "A \<subseteq># mset [0..<length ?a]" if "A \<subseteq># B + {#?n#}" "B \<subseteq># mset [0..<?n]" for A B
    using that(1) subset_mset.add_right_mono[OF that(2), of "{#?n#}"] by (auto intro: subset_mset.order_trans)
  have b: "booked d \<subseteq># mset [0..<?n]" "booked ?s \<subseteq># mset [0..<?n]"
    using assms books_at_sweep[OF assms] by (simp_all add: books_at_def)
  show ?thesis using assms
  proof (cases rule: park_cases[where v = v and n = ?n and fresh = fresh and host = host and port = port and call = call and domains = domains, consumes 1])
    case (answered a d1)
    then show ?thesis using s new[of "booked d1 + {#?n#}" "booked d1"] b by (auto simp: books_at_def)
  next
    case (joined i h)
    let ?f = "\<lambda>j h'. if j = i then h'\<lparr>ph_parked := ParkedHold (into_waiters (ph_parked h') @ [?n])\<rparr> else h'"
    have f: "dc_holds (add_waiter i ?n ?s) = map (\<lambda>(j, h'). (j, ?f j h')) (dc_holds ?s)"
      using joined(2) by (subst add_waiter_holds(1)) (auto intro: map_cong)
    have ok: "hm_ok (dc_holds ?s)" by (rule books_at_ok[OF s(2)])
    then have only: "h' = h" if "(i, h') \<in> set (dc_holds ?s)" for h' using that joined(2) by (simp add: hm_ok_def)
    have "booked (add_waiter i ?n ?s) = booked ?s + {#?n#}"
      using waiting_joined[OF ok, of i h ?n] joined(2) by (simp add: booked_def add_waiter_holds[of ?s i h])
    then have "booked (add_waiter i ?n ?s) \<subseteq># mset [0..<length ?a]" using new[OF _ b(2)] by simp
    moreover have "cards_ok (dc_holds (add_waiter i ?n ?s))" unfolding f
      by (rule cards_ok_map) (use s(2) only joined(3) in \<open>auto simp: books_at_def card_key_def is_hold_def\<close>)
    moreover have "waits_for ?a h'" if "(j, h') \<in> set (dc_holds ?s)" for j h' using s(2) that by (auto simp: books_at_def list_all_iff)
    then have "waits_for ?a (?f j h')" if "(j, h') \<in> set (dc_holds ?s)" for j h'
      using that only[of h'] joined(4) waits_for_join[of ?a h' ?n call host port] by auto
    then have "list_all (waits_for ?a \<circ> snd) (dc_holds (add_waiter i ?n ?s))" unfolding f by (auto simp: list_all_iff)
    ultimately show ?thesis using joined(1) by (simp add: books_at_def)
  next
    case booked
    let ?b = "book_card v fresh call host port (ParkedHold [?n]) ?s"
    have "booked ?b \<subseteq># booked ?s + {#?n#}" using booked_book(1)[OF books_at_ok[OF s(2)], of v fresh call host port "ParkedHold [?n]"] by (simp add: into_waiters_def)
    then have "booked ?b \<subseteq># mset [0..<length ?a]" using new b(2) by blast
    moreover have "cards_ok (dc_holds ?b)" unfolding book_card_def
      using s(2) booked(2,3) by (auto simp: books_at_def card_key_def intro!: cards_ok_insert)
    moreover have "list_all (waits_for ?a \<circ> snd) (dc_holds ?b)" unfolding book_card_simps
      by (rule list_all_insert) (use s(2) in \<open>simp_all add: books_at_def waits_for_def[of ?a "\<lparr>ph_call = _, ph_epoch = _, ph_host = _, ph_port = _, ph_posted_unix = _, ph_parked = _\<rparr>"] into_waiters_def is_for_def eq_ignore_ascii_case_def\<close>)
    ultimately show ?thesis using booked(1) by (simp add: books_at_def)
  qed
qed

lemma books_at_inform:
  assumes "books_at asked d"
  shows "books_at asked (snd (inform_book v fresh host port call d))"
proof -
  let ?s = "sweep_expired v d" and ?b = "book_card v fresh call host port ParkedInformational (sweep_expired v d)"
  have s: "books_at asked ?s" by (rule books_at_sweep[OF assms])
  have "books_at asked ?b" if "length (swept v (dc_holds d)) < MAX_PENDING_CARDS"
  proof -
    have "booked ?b \<subseteq># booked ?s" using booked_book(1)[OF books_at_ok[OF s], of v fresh call host port ParkedInformational] by (simp add: into_waiters_def)
    then have "booked ?b \<subseteq># mset [0..<length asked]" using s by (auto simp: books_at_def intro: subset_mset.order_trans)
    moreover have "cards_ok (dc_holds ?b)" unfolding book_card_def
      using s that by (auto simp: books_at_def is_hold_def intro!: cards_ok_insert)
    moreover have "list_all (waits_for asked \<circ> snd) (dc_holds ?b)" unfolding book_card_simps
      by (rule list_all_insert) (use s in \<open>simp_all add: books_at_def waits_for_def[of _ "\<lparr>ph_call = _, ph_epoch = _, ph_host = _, ph_port = _, ph_posted_unix = _, ph_parked = _\<rparr>"] into_waiters_def\<close>)
    ultimately show ?thesis by (simp add: books_at_def)
  qed
  then show ?thesis using assms s by (auto simp: inform_book_def Let_def not_le)
qed

lemma books_at_step: "books_at asked d \<Longrightarrow> books_at (asked @ asks e) (dec_step (length asked) d e)"
proof (cases e)
  case (EvPost v i)
  assume "books_at asked d"
  then show ?thesis using EvPost by (simp add: post_card_def books_at_def booked_def)
next
  case EvInformed
  assume "books_at asked d"
  then show ?thesis using EvInformed by (simp add: post_inform_def books_at_def booked_def)
next
  case EvMarkClosed
  assume "books_at asked d"
  then show ?thesis using EvMarkClosed by (simp add: mark_closed_def books_at_def booked_def)
qed (simp_all add: books_at_park books_at_drain books_at_inform books_at_settle release_holds_now_covered_def
    release_call_holds_def release_all_def books_at_drain_holds)

interpretation books: state_machine net_step books_ok
  by unfold_locales (simp add: books_ok_def net_step_def books_at_step)

lemma run_books_ok: "books_ok (net_run es)"
  by (rule books.run_inv) (simp add: machine_new_def decider_new_def books_ok_def books_at_def cards_ok_def booked_def)

text \<open>
  C21: The books stay in order, whatever parks, posts, answers, ends of calls and stops interleave: at most 64 cards,
  no two with one identifier, no two grantable ones for the same call, port and host (up to case); and a
  connection is parked under one card or answered once, never both.
\<close>

theorem books_in_order:
  fixes es :: "net_event list"
  defines "d \<equiv> nm_dec (net_run es)"
  defines "parked_now \<equiv> concat (map (\<lambda>(_, h). into_waiters (ph_parked h)) (dc_holds d))"
  shows "length (dc_holds d) \<le> MAX_PENDING_CARDS \<and> distinct (map fst (dc_holds d))
    \<and> distinct (map (\<lambda>(_, h). (ph_call h, ph_port h, lower_ascii (ph_host h))) (filter (\<lambda>(_, h). is_hold (ph_parked h)) (dc_holds d)))
    \<and> distinct (parked_now @ map fst (dc_answers d))"
proof -
  have b: "books_at (nm_asked (net_run es)) d" using run_books_ok by (simp add: books_ok_def d_def)
  have "into_waiters \<circ> ph_parked \<circ> snd = (\<lambda>(_, h). into_waiters (ph_parked h))" "is_hold \<circ> ph_parked \<circ> snd = (\<lambda>(_, h). is_hold (ph_parked h))"
    "card_key \<circ> snd = (\<lambda>(_, h). (ph_call h, ph_port h, lower_ascii (ph_host h)))"
    by (auto simp: card_key_def)
  note eta = this
  have "mset (parked_now @ map fst (dc_answers d)) \<subseteq># mset [0..<length (nm_asked (net_run es))]"
    using b by (simp add: books_at_def booked_def waiting_def eta parked_now_def)
  then have "distinct (parked_now @ map fst (dc_answers d))" by (rule distinct_sub) simp
  then show ?thesis using b by (simp add: books_at_def cards_ok_def hm_ok_def hold_keys_def eta)
qed


section \<open>What a yes rests on\<close>

text \<open>A live row for the connection with the given decision, and what makes the verdict an allow.\<close>

definition row_says :: "grant_decision \<Rightarrow> net_view \<Rightarrow> command_tag option \<Rightarrow> ustring \<Rightarrow> nat \<Rightarrow> bool" where
  "row_says dec v call host port \<longleftrightarrow> (\<exists>g \<in> set (nv_rows v call). row_applies (nv_now v) host port g \<and> gr_decision g = dec)"

definition refuses :: "net_view \<Rightarrow> verdict \<Rightarrow> command_tag option \<Rightarrow> ustring \<Rightarrow> nat \<Rightarrow> bool" where
  "refuses v domains call host port \<longleftrightarrow> row_says GrantDeny v call host port \<or> vd_deny domains"

definition permits :: "net_view \<Rightarrow> verdict \<Rightarrow> command_tag option \<Rightarrow> ustring \<Rightarrow> nat \<Rightarrow> bool" where
  "permits v domains call host port \<longleftrightarrow>
     \<not> refuses v domains call host port \<and> (row_says GrantAllow v call host port \<or> vd_allow domains)"

lemma rows_verdict_loop_is:
  "rows_verdict_loop now host port gs v =
     \<lparr>vd_deny = (vd_deny v \<or> (\<exists>g \<in> set gs. row_applies now host port g \<and> gr_decision g = GrantDeny)),
      vd_allow = (vd_allow v \<or> (\<exists>g \<in> set gs. row_applies now host port g \<and> gr_decision g = GrantAllow))\<rparr>"
  by (induction gs arbitrary: v) (auto split: grant_decision.splits)

lemma rows_verdict_is:
  "rows_verdict v host port call = \<lparr>vd_deny = row_says GrantDeny v call host port, vd_allow = row_says GrantAllow v call host port\<rparr>"
  by (simp add: rows_verdict_def rows_verdict_loop_is row_says_def)

lemma would_be_iff:
  "would_be_of (rows_verdict v host port call) domains = WouldAllowed \<longleftrightarrow> permits v domains call host port"
  "(\<exists>s. would_be_of (rows_verdict v host port call) domains = WouldDenied s) \<longleftrightarrow> refuses v domains call host port"
  by (auto simp: would_be_of_def rows_verdict_is permits_def refuses_def)

definition consent :: "net_machine \<Rightarrow> net_event \<Rightarrow> command_tag option \<Rightarrow> ustring \<Rightarrow> nat \<Rightarrow> bool" where
  "consent m e call host port \<longleftrightarrow> (case e of
       EvPark v _ h p c domains \<Rightarrow> (c, h, p) = (call, host, port) \<and> permits v domains call host port
     | EvCovered v \<Rightarrow> permits v (domains_verdict v host) call host port
     | EvSettle v i answer \<Rightarrow> answer = HoldAllow \<and> \<not> refuses v (domains_verdict v host) call host port
         \<and> (\<exists>h. hm_get (dc_holds (nm_dec m)) i = Some h \<and> is_hold (ph_parked h) \<and> ph_call h = call \<and> ph_host h = host \<and> ph_port h = port)
     | _ \<Rightarrow> False)"

lemma drained_yes:
  "(n, Some True) \<in> set (drained pick hs) \<Longrightarrow> \<exists>i h. (i, h) \<in> set hs \<and> pick h = Some HoldAllow \<and> n \<in> set (into_waiters (ph_parked h))"
  by (fastforce simp: drained_def split: option.splits)

text \<open>A yes is sent only by a park the rows allow, by rows that come to cover a card, or by a card's own answer.\<close>

lemma step_yes:
  assumes b: "books_ok m" and y: "(n, Some True) \<in> set (dc_answers (nm_dec (net_step m e)))" "(n, Some True) \<notin> set (dc_answers (nm_dec m))"
  obtains call asked_host port host where "nm_asked (net_step m e) ! n = (call, asked_host, port)" "n < length (nm_asked (net_step m e))"
    "eq_ignore_ascii_case host asked_host" "consent m e call host port"
proof -
  let ?d = "nm_dec m" and ?asked = "nm_asked m"
  note found = that
  have ba: "books_at ?asked ?d" using b by (simp add: books_ok_def)
  have card: thesis if h: "(i, h) \<in> set (dc_holds ?d)" "n \<in> set (into_waiters (ph_parked h))" "consent m e (ph_call h) (ph_host h) (ph_port h)" for i h
  proof -
    have "waits_for ?asked h" using ba h(1) by (auto simp: books_at_def list_all_iff)
    then have n: "n < length ?asked" "case ?asked ! n of (call, host, port) \<Rightarrow> is_for call host port h" using h(2) by (auto simp: waits_for_def)
    obtain c ho po where a: "?asked ! n = (c, ho, po)" by (cases "?asked ! n")
    then have "is_for c ho po h" using n(2) by simp
    then have "ph_call h = c" "ph_port h = po" "eq_ignore_ascii_case (ph_host h) ho" by (simp_all add: is_for_def)
    then show thesis using found[of c ho po "ph_host h"] a n(1) h(3) by (simp add: net_step_def nth_append)
  qed
  show thesis
  proof (cases e)
    case (EvPark v fresh host port call domains)
    have s: "snd (park_lists v (length ?asked) fresh host port call domains ?d) = nm_dec (net_step m e)" by (simp add: EvPark net_step_def)
    show thesis using ba
    proof (cases rule: park_cases[where v = v and n = "length ?asked" and fresh = fresh and host = host and port = port and call = call and domains = domains, consumes 1])
      case (answered a d1)
      then have "n = length ?asked" "a = Some True" using y s by auto
      then show thesis using found[of call host port host] answered(3) EvPark
        by (simp add: net_step_def consent_def would_be_iff eq_ignore_ascii_case_def)
    next
      case (joined i h)
      then show thesis using y s by (simp add: add_waiter_holds)
    next
      case booked
      then show thesis using y s by simp
    qed
  next
    case (EvSettle v i answer)
    then obtain h where h: "hm_get (dc_holds ?d) i = Some h" "is_hold (ph_parked h)" "n \<in> set (into_waiters (ph_parked h))"
      "(case verdict_now v h of WouldDenied _ \<Rightarrow> HoldDeny | _ \<Rightarrow> answer) = HoldAllow"
      using y by (auto simp: net_step_def settle_taken_def Let_def release_hold_def split: option.splits if_splits)
    then have "answer = HoldAllow" "\<not> refuses v (domains_verdict v (ph_host h)) (ph_call h) (ph_host h) (ph_port h)"
      by (auto simp: verdict_now_def simp flip: would_be_iff(2) split: would_be.splits)
    then show thesis using card[of i h] h EvSettle by (auto simp: consent_def dest: map_of_SomeD)
  next
    case (EvCovered v)
    then have "(n, Some True) \<in> set (drained (covered_answer v) (dc_holds ?d))" using y by (simp add: net_step_def release_holds_now_covered_def)
    then obtain i h where h: "(i, h) \<in> set (dc_holds ?d)" "covered_answer v h = Some HoldAllow" "n \<in> set (into_waiters (ph_parked h))"
      using drained_yes by blast
    then have "verdict_now v h = WouldAllowed" by (auto simp: covered_answer_def split: if_splits would_be.splits)
    then show thesis using card[OF h(1,3)] EvCovered by (simp add: consent_def verdict_now_def would_be_iff)
  next
    case (EvBookingDropped i)
    then show thesis using y by (auto simp: net_step_def drain_def split: option.splits)
  next
    case (EvInform v fresh host port call)
    then show thesis using y by (auto simp: net_step_def inform_book_def Let_def split: if_splits)
  next
    case (EvCallEnded call epoch)
    then have "(n, Some True) \<in> set (dc_answers (release_call_holds call epoch ?d))" using y by (simp add: net_step_def)
    then show thesis using y(2) unfolding release_call_holds_def by (auto dest!: drained_yes split: if_splits)
  next
    case EvReleaseAll
    then show thesis using y by (auto simp: net_step_def release_all_def dest!: drained_yes)
  qed (use y in \<open>simp_all add: net_step_def post_card_def post_inform_def mark_closed_def split: if_splits\<close>)
qed

lemma run_asked_grows: "\<exists>xs. nm_asked (foldl net_step m es) = nm_asked m @ xs"
proof (induction es arbitrary: m)
  case (Cons e es)
  then show ?case using Cons[of "net_step m e"] by (auto simp: net_step_def)
qed simp

lemma run_yes:
  assumes "books_ok m" "(n, Some True) \<in> set (dc_answers (nm_dec (foldl net_step m es)))" "(n, Some True) \<notin> set (dc_answers (nm_dec m))"
  shows "\<exists>before e after call asked_host port host. es = before @ e # after
    \<and> n < length (nm_asked (foldl net_step m es)) \<and> nm_asked (foldl net_step m es) ! n = (call, asked_host, port)
    \<and> eq_ignore_ascii_case host asked_host \<and> consent (foldl net_step m before) e call host port"
  using assms
proof (induction es arbitrary: m)
  case (Cons e es)
  let ?m = "net_step m e"
  show ?case
  proof (cases "(n, Some True) \<in> set (dc_answers (nm_dec ?m))")
    case True
    obtain call asked_host port host where a: "nm_asked ?m ! n = (call, asked_host, port)" "n < length (nm_asked ?m)"
      "eq_ignore_ascii_case host asked_host" "consent m e call host port"
      using step_yes[OF Cons.prems(1) True Cons.prems(3)] by blast
    obtain xs where x: "nm_asked (foldl net_step ?m es) = nm_asked ?m @ xs" using run_asked_grows by blast
    have "e # es = [] @ e # es" "n < length (nm_asked (foldl net_step m (e # es)))"
      "nm_asked (foldl net_step m (e # es)) ! n = (call, asked_host, port)" "consent (foldl net_step m []) e call host port"
      using a x by (simp_all add: nth_append)
    then show ?thesis using a(3) by blast
  next
    case False
    obtain before e' after call asked_host port host where i: "es = before @ e' # after"
      "n < length (nm_asked (foldl net_step ?m es))" "nm_asked (foldl net_step ?m es) ! n = (call, asked_host, port)"
      "eq_ignore_ascii_case host asked_host" "consent (foldl net_step ?m before) e' call host port"
      using Cons.IH[OF books.step_inv[OF Cons.prems(1)] _ False] Cons.prems(2) by auto
    have "e # es = (e # before) @ e' # after" "consent (foldl net_step m (e # before)) e' call host port" using i by simp_all
    then show ?thesis using i(2-4) by (metis foldl_Cons)
  qed
qed simp

text \<open>
  C7: Every yes is justified at the moment it is given. In any history of the decider, a connection answered yes was
  parked for some call, host and port, and at one step of the history either the rows and lists permitted that
  connection (a live allow row or a list entry, no live deny row, not on the deny list) as it parked or as parked
  cards were judged again, or the user answered allow on the card it waited under and nothing refused it then.
\<close>

theorem yes_is_justified:
  fixes es :: "net_event list"
  assumes "(n, Some True) \<in> set (dc_answers (nm_dec (net_run es)))"
  shows "\<exists>before e after call asked_host port host. es = before @ e # after
    \<and> n < length (nm_asked (net_run es)) \<and> nm_asked (net_run es) ! n = (call, asked_host, port)
    \<and> eq_ignore_ascii_case host asked_host \<and> consent (net_run before) e call host port"
  by (rule run_yes[OF _ assms]) (use run_books_ok[of "[]"] in \<open>simp_all add: machine_new_def decider_new_def\<close>)

text \<open>Two connections to one host under one card, which the user answers with allow.\<close>

definition quiet_view :: net_view where
  "quiet_view = \<lparr>nv_now = 1000, nv_rows = (\<lambda>_. []), nv_call_mode = (\<lambda>_. Some ModeEnforce), nv_call_epoch = (\<lambda>_. Some 1),
     nv_call_runs = (\<lambda>_. True), nv_any_enforced = True, nv_mode = ModeEnforce,
     nv_domains = \<lparr>wd_allowed = [], wd_disallowed = []\<rparr>, nv_sink = True, nv_hold_timeout = 300,
     nv_lower = lower_ascii, nv_receiver_gone = (\<lambda>_. False)\<rparr>"

definition no_verdict :: verdict where
  "no_verdict = \<lparr>vd_deny = False, vd_allow = False\<rparr>"

definition sample_history :: "net_event list" where
  "sample_history = [EvPark quiet_view (str ''k'') (str ''a.io'') 443 None no_verdict, EvPost quiet_view (str ''k''),
     EvPark quiet_view (str ''l'') (str ''A.io'') 443 None no_verdict, EvSettle quiet_view (str ''k'') HoldAllow]"

lemma sample_history_answers: "dc_answers (nm_dec (net_run sample_history)) = [(0, Some True), (1, Some True)]"
  unfolding sample_history_def by code_simp

theorem yes_is_justified_witness:
  "\<exists>before e after call asked_host port host. sample_history = before @ e # after
    \<and> 1 < length (nm_asked (net_run sample_history)) \<and> nm_asked (net_run sample_history) ! 1 = (call, asked_host, port)
    \<and> eq_ignore_ascii_case host asked_host \<and> consent (net_run before) e call host port"
  by (rule yes_is_justified) (simp add: sample_history_answers)


section \<open>No connection is forgotten\<close>

fun card_ids :: "net_event \<Rightarrow> ustring list" where
  "card_ids (EvPark v fresh host port call domains) = [fresh]"
| "card_ids (EvInform v fresh host port call) = [fresh]"
| "card_ids _ = []"

fun event_views :: "net_event \<Rightarrow> net_view list" where
  "event_views (EvPark v fresh host port call domains) = [v]"
| "event_views (EvInform v fresh host port call) = [v]"
| "event_views _ = []"

text \<open>Every park and notice has an identifier of its own, and no waiting connection has been let go of.\<close>

definition attended :: "net_event list \<Rightarrow> bool" where
  "attended es \<longleftrightarrow> distinct (concat (map card_ids es)) \<and> (\<forall>e \<in> set es. \<forall>v \<in> set (event_views e). \<forall>n. \<not> nv_receiver_gone v n)"

lemma keys_step:
  assumes "books_at asked d"
  shows "fst ` set (dc_holds (dec_step n d e)) \<subseteq> fst ` set (dc_holds d) \<union> set (card_ids e)"
proof -
  have sub: "fst ` set (hm_retain P hs) \<subseteq> fst ` set hs" "fst ` set (hm_remove i hs) \<subseteq> fst ` set hs" "fst ` set (swept v hs) \<subseteq> fst ` set hs"
    for P i v and hs :: "(ustring \<times> pending_hold) list"
    by (force simp: hm_retain_def hm_remove_def swept_def)+
  have ins: "fst ` set (hm_insert i h hs) = insert i (fst ` set hs)" for i h and hs :: "(ustring \<times> pending_hold) list"
    unfolding hm_insert_def by (induction hs) auto
  show ?thesis
  proof (cases e)
    case (EvPark v fresh host port call domains)
    show ?thesis using assms
    proof (cases rule: park_cases[where v = v and n = n and fresh = fresh and host = host and port = port and call = call and domains = domains, consumes 1])
      case (answered a d1)
      have "fst ` set (dc_holds d1) \<subseteq> fst ` set (dc_holds d)" using answered(2) sub(3) by (elim disjE) simp_all
      then show ?thesis using EvPark answered(1) by (simp add: subset_insertI2)
    next
      case (joined i h)
      have "map fst (dc_holds (add_waiter i n (sweep_expired v d))) = map fst (swept v (dc_holds d))"
        using joined(2) by (auto simp: add_waiter_holds[of _ i h])
      then have "fst ` set (dc_holds (add_waiter i n (sweep_expired v d))) = fst ` set (swept v (dc_holds d))" by (metis list.set_map)
      then show ?thesis using EvPark joined(1) sub(3)[of v "dc_holds d"] by (simp add: subset_insertI2)
    next
      case booked
      then show ?thesis using EvPark sub(3)[of v "dc_holds d"] by (simp add: ins subset_insertI2)
    qed
  next
    case (EvInform v fresh host port call)
    then show ?thesis using sub(3)[of v "dc_holds d"] by (simp add: inform_book_def Let_def ins insert_mono subset_insertI2 subset_insertI)
  next
    case (EvSettle v i answer)
    then show ?thesis using sub(2)[of i "dc_holds d"] by (auto simp: settle_taken_def Let_def release_hold_def split: option.splits)
  qed (use sub(1,2) in \<open>auto simp: post_card_def drain_def post_inform_def release_holds_now_covered_def release_call_holds_def release_all_def mark_closed_def split: option.splits\<close>)
qed

lemma booked_step:
  assumes b: "books_at asked d" and f: "fst ` set (dc_holds d) \<inter> set (card_ids e) = {}"
    and v: "\<And>v n. v \<in> set (event_views e) \<Longrightarrow> \<not> nv_receiver_gone v n"
  shows "booked (dec_step (length asked) d e) = booked d + mset [length asked..<length (asked @ asks e)]"
proof (cases e)
  case (EvPark v fresh host port call domains)
  let ?s = "sweep_expired v d" and ?n = "length asked"
  have s: "booked ?s = booked d" using assms(3) EvPark by (intro booked_sweep_all) simp
  have ok: "hm_ok (swept v (dc_holds d))" using books_at_ok[OF books_at_sweep[OF b]] by simp
  show ?thesis using b
  proof (cases rule: park_cases[where v = v and n = ?n and fresh = fresh and host = host and port = port and call = call and domains = domains, consumes 1])
    case (answered a d1)
    then show ?thesis using EvPark s by auto
  next
    case (joined i h)
    have "booked (add_waiter i ?n ?s) = booked ?s + {#?n#}"
      using waiting_joined[OF ok joined(2)] joined(2) by (simp add: booked_def add_waiter_holds[of ?s i h])
    then show ?thesis using EvPark joined(1) s by simp
  next
    case booked
    have "hm_get (swept v (dc_holds d)) fresh = None" using f EvPark by (auto simp: map_of_eq_None_iff swept_def hm_retain_def image_iff)
    then have "booked (book_card v fresh call host port (ParkedHold [?n]) ?s) = booked ?s + {#?n#}"
      using booked_book(2)[of ?s fresh v call host port "ParkedHold [?n]"] ok by (simp add: into_waiters_def)
    then show ?thesis using EvPark booked(1) s by simp
  qed
next
  case (EvInform v fresh host port call)
  let ?s = "sweep_expired v d"
  have s: "booked ?s = booked d" using assms(3) EvInform by (intro booked_sweep_all) simp
  have ok: "hm_ok (swept v (dc_holds d))" using books_at_ok[OF books_at_sweep[OF b]] by simp
  have "hm_get (swept v (dc_holds d)) fresh = None" using f EvInform by (auto simp: map_of_eq_None_iff swept_def hm_retain_def image_iff)
  then have "booked (book_card v fresh call host port ParkedInformational ?s) = booked ?s"
    using booked_book(2)[of ?s fresh v call host port ParkedInformational] ok by (simp add: into_waiters_def)
  then show ?thesis using EvInform s by (auto simp: inform_book_def Let_def)
qed (use books_at_ok[OF b] in \<open>simp_all add: release_holds_now_covered_def release_call_holds_def release_all_def\<close>,
    simp_all add: post_card_def post_inform_def mark_closed_def booked_def)

lemma run_booked:
  assumes "attended es"
  shows "fst ` set (dc_holds (nm_dec (net_run es))) \<subseteq> set (concat (map card_ids es))
    \<and> booked (nm_dec (net_run es)) = mset [0..<length (nm_asked (net_run es))]"
  using assms
proof (induction es rule: rev_induct)
  case (snoc e es)
  let ?m = "net_run es"
  have a: "attended es" using snoc.prems by (auto simp: attended_def)
  have k: "fst ` set (dc_holds (nm_dec ?m)) \<subseteq> set (concat (map card_ids es))" using snoc.IH[OF a] by simp
  have "fst ` set (dc_holds (nm_dec ?m)) \<inter> set (card_ids e) = {}" using k snoc.prems by (auto simp: attended_def)
  then have b: "booked (nm_dec (net_step ?m e)) = booked (nm_dec ?m) + mset [length (nm_asked ?m)..<length (nm_asked ?m @ asks e)]"
    using booked_step[of "nm_asked ?m" "nm_dec ?m" e] run_books_ok[of es] snoc.prems by (simp add: books_ok_def net_step_def attended_def)
  have "set (concat (map card_ids (es @ [e]))) = set (concat (map card_ids es)) \<union> set (card_ids e)" by simp
  then have "fst ` set (dc_holds (nm_dec (net_step ?m e))) \<subseteq> set (concat (map card_ids (es @ [e])))"
    using k keys_step[of "nm_asked ?m" "nm_dec ?m" "length (nm_asked ?m)" e] run_books_ok[of es, unfolded books_ok_def]
    by (simp only: net_step_def net_machine.simps) blast
  moreover have "booked (nm_dec (net_step ?m e)) = mset [0..<length (nm_asked (net_step ?m e))]"
  proof -
    have "nm_asked (net_step ?m e) = nm_asked ?m @ asks e" by (simp add: net_step_def)
    moreover have "mset [0..<length xs] + mset [length xs..<length (xs @ ys)] = mset [0..<length (xs @ ys)]" for xs ys :: "'b list"
      using upt_add_eq_append[of 0 "length xs" "length ys"] by (simp only: length_append le0 mset_append)
    ultimately show ?thesis using b snoc.IH[OF a] by (simp only:)
  qed
  ultimately show ?case by simp
qed (simp_all add: machine_new_def decider_new_def booked_def)

lemma closed_step: "dc_closed d \<Longrightarrow> dc_holds d = [] \<Longrightarrow> dc_closed (dec_step n d e) \<and> dc_holds (dec_step n d e) = []"
  by (cases e) (simp_all add: park_lists_def post_card_def drain_def inform_book_def post_inform_def settle_taken_def
      release_holds_now_covered_def release_call_holds_def release_all_def mark_closed_def hm_retain_def)

lemma closed_kept: "dc_closed d \<Longrightarrow> dc_closed (dec_step n d e)"
proof (cases e)
  case (EvSettle v i answer)
  assume "dc_closed d"
  then show ?thesis using EvSettle by (auto simp: settle_taken_def release_hold_def Let_def split: option.splits)
qed (auto simp: park_lists_def post_card_def drain_def inform_book_def post_inform_def
      release_holds_now_covered_def release_call_holds_def release_all_def mark_closed_def split: option.splits)

lemma closed_run: "dc_closed (nm_dec m) \<Longrightarrow> dc_closed (nm_dec (foldl net_step m es))"
  by (induction es arbitrary: m) (simp_all add: net_step_def closed_kept)

lemma closed_empty_run:
  "dc_closed (nm_dec m) \<Longrightarrow> dc_holds (nm_dec m) = [] \<Longrightarrow> dc_holds (nm_dec (foldl net_step m es)) = []"
proof (induction es arbitrary: m)
  case (Cons e es)
  then show ?case using closed_step[of "nm_dec m" "length (nm_asked m)" e] by (simp add: net_step_def)
qed simp

text \<open>
  C33: Stopping answers everyone, for good. Once the books have been marked closed and released, in whatever steps of
  other tasks fall between and after, nothing is on them ever again; and if every card had an identifier of its
  own and no connection had hung up, each connection that ever parked, before the stop or after it, has been
  answered, exactly once.
\<close>

theorem stop_answers_everyone:
  fixes before mid after :: "net_event list"
  defines "es \<equiv> before @ [EvMarkClosed] @ mid @ [EvReleaseAll] @ after"
  defines "m \<equiv> net_run es"
  shows "dc_holds (nm_dec m) = []
    \<and> (attended es \<longrightarrow> distinct (map fst (dc_answers (nm_dec m))) \<and> set (map fst (dc_answers (nm_dec m))) = {..<length (nm_asked m)})"
proof -
  let ?m1 = "foldl net_step (net_step (net_run before) EvMarkClosed) mid"
  have c: "dc_closed (nm_dec ?m1)" by (rule closed_run) (simp add: net_step_def mark_closed_def)
  have "dc_holds (nm_dec (foldl net_step (net_step ?m1 EvReleaseAll) after)) = []"
    by (rule closed_empty_run) (use c in \<open>simp_all add: net_step_def release_all_def hm_retain_def\<close>)
  then have h: "dc_holds (nm_dec m) = []" by (simp add: m_def es_def)
  have "mset (map fst (dc_answers (nm_dec m))) = mset [0..<length (nm_asked m)]" if "attended es"
    using run_booked[OF that] h by (simp add: booked_def flip: m_def)
  then have "distinct (map fst (dc_answers (nm_dec m))) \<and> set (map fst (dc_answers (nm_dec m))) = {..<length (nm_asked m)}" if "attended es"
    using that by (metis atLeast_upt distinct_upt mset_eq_imp_distinct_iff mset_eq_setD)
  then show ?thesis using h by blast
qed

theorem stop_answers_everyone_witness:
  "set (map fst (dc_answers (nm_dec (net_run (take 3 sample_history @ [EvMarkClosed] @ [] @ [EvReleaseAll] @ []))))) = {..<2}"
proof -
  have "attended (take 3 sample_history @ [EvMarkClosed] @ [] @ [EvReleaseAll] @ [])"
    by (simp add: attended_def sample_history_def quiet_view_def) code_simp
  moreover have "length (nm_asked (net_run (take 3 sample_history @ [EvMarkClosed] @ [] @ [EvReleaseAll] @ []))) = 2"
    unfolding sample_history_def by (simp add: net_step_def machine_new_def)
  ultimately show ?thesis using stop_answers_everyone[of "take 3 sample_history" "[]" "[]"] by metis
qed


section \<open>The rows of a policy\<close>

text \<open>
  The decider reads all live rows; the policy of a command is built from those \<open>allows_not_denied\<close> keeps: the allows
  no deny covers and the denies that cut one of them. For a connection to a DNS name both decide alike.
\<close>

definition net_allowed :: "int \<Rightarrow> grant list \<Rightarrow> ustring \<Rightarrow> nat \<Rightarrow> bool" where
  "net_allowed now rows host port \<longleftrightarrow>
     (\<exists>a \<in> set rows. row_applies now host port a \<and> gr_decision a = GrantAllow)
     \<and> \<not> (\<exists>d \<in> set rows. row_applies now host port d \<and> gr_decision d = GrantDeny)"

definition plain_row :: "grant \<Rightarrow> bool" where
  "plain_row g \<longleftrightarrow> (case gr_subject g of NetHost pattern _ \<Rightarrow> \<not> over_address pattern | _ \<Rightarrow> True)"

lemma decision_cases: "gr_decision g = GrantDeny \<longleftrightarrow> gr_decision g \<noteq> GrantAllow"
  by (cases "gr_decision g") auto

lemma covered_allow_denied:
  assumes "subject_covers (gr_subject d) (gr_subject a)" "row_applies now host port a" "is_live now d" "42 \<notin> set host"
  shows "row_applies now host port d"
  using assms covered_matches by (auto simp: row_applies_def subject_covers_def split: grant_subject.splits)

lemma meeting_cuts:
  assumes "row_applies now host port d" "row_applies now host port a" "valid_dns_hostname host" "plain_row d" "plain_row a"
  shows "subject_cuts (gr_subject d) (gr_subject a)"
  using assms meeting_ordered by (fastforce simp: row_applies_def subject_cuts_def plain_row_def split: grant_subject.splits)

text \<open>
  C31: The policy and the decider see the same allowances. For a connection to a valid DNS name, the rows
  \<open>allows_not_denied\<close> keeps for a policy allow it exactly when the live rows do (some allow row, no deny row),
  unless a row's wildcard is written over an IP address.
\<close>

theorem filtered_rows_decide_alike:
  fixes rows :: "grant list" and host :: ustring
  assumes v: "valid_dns_hostname host" and live: "\<forall>g \<in> set rows. is_live now g \<and> plain_row g"
  shows "net_allowed now (allows_not_denied rows) host port \<longleftrightarrow> net_allowed now rows host port"
proof -
  let ?kept = "\<lambda>a. a \<in> set rows \<and> gr_decision a = GrantAllow \<and> \<not> (\<exists>d \<in> set rows. gr_decision d = GrantDeny \<and> subject_covers (gr_subject d) (gr_subject a))"
  have in_kept: "g \<in> set (allows_not_denied rows) \<longleftrightarrow> ?kept g
      \<or> g \<in> set rows \<and> gr_decision g = GrantDeny \<and> (\<exists>a. ?kept a \<and> subject_cuts (gr_subject g) (gr_subject a))" for g
    by (auto simp: allows_not_denied_def Let_def list_ex_iff decision_cases)
  have star: "42 \<notin> set host" by (rule normalized_dns(3)[OF v])
  show ?thesis
  proof
    assume n: "net_allowed now (allows_not_denied rows) host port"
    then obtain a where "a \<in> set (allows_not_denied rows)" "gr_decision a = GrantAllow" and r: "row_applies now host port a"
      unfolding net_allowed_def by blast
    then have k: "?kept a" unfolding in_kept decision_cases by blast
    note a = k r
    have "\<not> row_applies now host port d" if d: "d \<in> set rows" "gr_decision d = GrantDeny" for d
    proof
      assume r: "row_applies now host port d"
      have "subject_cuts (gr_subject d) (gr_subject a)" using meeting_cuts[OF r a(2) v] live d(1) a(1) by blast
      then have "d \<in> set (allows_not_denied rows)" using d a(1) unfolding in_kept by blast
      then show False using n d(2) r by (auto simp: net_allowed_def)
    qed
    then show "net_allowed now rows host port" using a unfolding net_allowed_def by blast
  next
    assume n: "net_allowed now rows host port"
    then obtain a where a: "a \<in> set rows" "gr_decision a = GrantAllow" "row_applies now host port a" by (auto simp: net_allowed_def)
    have "\<not> subject_covers (gr_subject d) (gr_subject a)" if "d \<in> set rows" "gr_decision d = GrantDeny" for d
      using covered_allow_denied[OF _ a(3) _ star, of d] that n live by (auto simp: net_allowed_def)
    then have "?kept a" using a by blast
    then have "a \<in> set (allows_not_denied rows)" unfolding in_kept by (rule disjI1)
    moreover have "set (allows_not_denied rows) \<subseteq> set rows" using in_kept by blast
    ultimately show "net_allowed now (allows_not_denied rows) host port" using a n unfolding net_allowed_def by blast
  qed
qed

definition net_row :: "grant_decision \<Rightarrow> string \<Rightarrow> grant" where
  "net_row dec pattern = \<lparr>gr_id = str pattern, gr_subject = NetHost (str pattern) None, gr_scope = ScopeGlobal,
     gr_expires = ExpireNever, gr_decision = dec, gr_granted_at = 0, gr_granted_by = [], gr_via = None\<rparr>"

theorem filtered_rows_decide_alike_witness:
  "net_allowed 5 (allows_not_denied [net_row GrantAllow ''*.io'', net_row GrantDeny ''a.io'']) (str ''b.io'') 443
   = net_allowed 5 [net_row GrantAllow ''*.io'', net_row GrantDeny ''a.io''] (str ''b.io'') 443"
proof (rule filtered_rows_decide_alike)
  show "valid_dns_hostname (str ''b.io'')" by code_simp
  have "str ''*.io'' = 42 # 46 # str ''io''" "hd (str ''a.io'') = 97" "normalized_host (str ''io'') = [105, 111]" by code_simp+
  moreover have "ip_literal [105, 111] = None" by (rule first_char_no_ip) (simp_all add: to_digit_def)
  ultimately have "\<not> over_address (str ''*.io'')" "\<not> over_address (str ''a.io'')" by (auto simp: over_address_def)
  then show "\<forall>g \<in> set [net_row GrantAllow ''*.io'', net_row GrantDeny ''a.io'']. is_live 5 g \<and> plain_row g"
    by (simp add: net_row_def plain_row_def is_live_def expires_at_def)
qed

text \<open>
  Without that condition they differ: a deny on \<open>*.4\<close> neither covers nor cuts an allow on \<open>*.1.2.3.4\<close>, since the
  coverage test reads \<open>1.2.3.4\<close> as an address, yet both rows match \<open>x.1.2.3.4\<close>.
\<close>

lemma address_literal: "ip_literal [49, 46, 50, 46, 51, 46, 52] \<noteq> None"
proof -
  have "Option.bind (strip_prefix (str ''['') [49, 46, 50, 46, 51, 46, 52]) (strip_suffix (str '']'')) = None"
    "read_number 10 3 False 255 [49, 46, 50, 46, 51, 46, 52] = Some (1, [46, 50, 46, 51, 46, 52])"
    "read_number 10 3 False 255 [50, 46, 51, 46, 52] = Some (2, [46, 51, 46, 52])"
    "read_number 10 3 False 255 [51, 46, 52] = Some (3, [46, 52])" "read_number 10 3 False 255 [52] = Some (4, [])" "ch CHR ''.'' = 46"
    by code_simp+
  then show ?thesis by (simp add: ip_literal_def parse_ip_addr_def read_ipv4_addr_def read_separator_def)
qed

lemma address_wildcard_loses_deny:
  "allows_not_denied [net_row GrantAllow ''*.1.2.3.4'', net_row GrantDeny ''*.4''] = [net_row GrantAllow ''*.1.2.3.4'']"
  "host_matches (str ''*.1.2.3.4'') (str ''x.1.2.3.4'')" "host_matches (str ''*.4'') (str ''x.1.2.3.4'')"
proof -
  let ?a = "[49, 46, 50, 46, 51, 46, 52] :: ustring" and ?h = "[120, 46, 49, 46, 50, 46, 51, 46, 52] :: ustring"
  have s: "str ''*.1.2.3.4'' = 42 # 46 # ?a" "str ''*.4'' = 42 # 46 # [52]" "str ''x.1.2.3.4'' = ?h" by code_simp+
  have h: "ip_literal ?h = None" by (rule first_char_no_ip) (simp_all add: to_digit_def)
  have n: "normalized_host ?a = ?a" "normalized_host [52] = [52]" "normalized_host ?h = ?h" by code_simp+
  note n = n h
  have m: "host_matches (42 # 46 # ?a) ?h" "host_matches (42 # 46 # [52]) ?h"
    using n by (subst matches_wild; force intro: exI[of _ "[120]"] exI[of _ "[120, 46, 49, 46, 50, 46, 51]"])+
  then show "host_matches (str ''*.1.2.3.4'') (str ''x.1.2.3.4'')" "host_matches (str ''*.4'') (str ''x.1.2.3.4'')" unfolding s .
  have u: "\<not> host_matches (42 # 46 # [52]) ?a" "\<not> host_matches (42 # 46 # ?a) [52]"
    using n address_literal by (auto simp: matches_wild append_eq_Cons_conv)
  have "normalized_host (42 # 46 # ?a) \<noteq> normalized_host (42 # 46 # [52])" using n by (simp add: normalized_wild)
  then have "\<not> is_covered_by (42 # 46 # ?a) (42 # 46 # [52])" "\<not> is_covered_by (42 # 46 # [52]) (42 # 46 # ?a)"
    using u by (auto simp: is_covered_by_def is_all_def)
  then show "allows_not_denied [net_row GrantAllow ''*.1.2.3.4'', net_row GrantDeny ''*.4''] = [net_row GrantAllow ''*.1.2.3.4'']"
    by (simp add: allows_not_denied_def net_row_def s subject_covers_def subject_cuts_def)
qed

end
