(* ===== verification/Grant_Store_Props.thy ===== *)
theory Grant_Store_Props
  imports Grant_Store Interfaces
begin

text \<open>
  The rows files under several writers, and what a row in memory has passed: no writer loses another's row or
  brings back a revoked one, whatever it remembers; and every row the store hands out was checked against the
  floor, while a file that cannot be read hands out no allow at all.
\<close>


section \<open>One file, many writers\<close>

text \<open>An edit is made by some store, under that store's own row rules, with whatever it remembers, at its own time and under
  its own luck.\<close>

datatype file_op = FileAdd grant | FileRevoke ustring

record file_event =
  fe_env :: store_env
  fe_rules :: row_rules
  fe_now :: int
  fe_memory :: persisted_rows
  fe_op :: file_op

fun op_mode :: "file_op \<Rightarrow> store_mode" where
  "op_mode (FileAdd _) = StoreCreate"
| "op_mode (FileRevoke _) = ExistingOnly"

fun op_edit :: "file_op \<Rightarrow> grant list \<Rightarrow> bool \<times> grant list" where
  "op_edit (FileAdd g) rows = (True, rows @ [g])"
| "op_edit (FileRevoke i) rows = remove_by_id i rows"

definition run_edit :: "file_event \<Rightarrow> rows_file \<Rightarrow> (bool, grant_error) result \<times> persisted_rows \<times> rows_file" where
  "run_edit ev f = edit_rows_locked (fe_env ev) (fe_rules ev) (fe_now ev) (op_mode (fe_op ev)) (op_edit (fe_op ev)) (fe_memory ev) f"

definition file_step :: "rows_file \<Rightarrow> file_event \<Rightarrow> rows_file" where
  "file_step f ev = snd (snd (run_edit ev f))"

text \<open>The rows a reader of the file gets, under the TOML library \<open>parse\<close>.\<close>

definition read_back :: "(ustring \<Rightarrow> grant list option) \<Rightarrow> rows_file \<Rightarrow> grant list option" where
  "read_back parse f = (case rf_read f of ReadNotFound \<Rightarrow> Some [] | ReadRefused \<Rightarrow> None | ReadText t \<Rightarrow> parse t)"

definition toml_of :: "(ustring \<Rightarrow> grant list option) \<Rightarrow> store_env \<Rightarrow> bool" where
  "toml_of parse e \<longleftrightarrow> se_toml_parse e = parse \<and> (\<forall>rows t. se_toml_print e rows = Some t \<longrightarrow> parse t = Some rows)"

definition loaded :: "row_rules \<Rightarrow> int \<Rightarrow> grant list \<Rightarrow> grant list" where
  "loaded rules now grants =
     map (clamp_granted_at now) (map (\<lambda>g. g\<lparr>gr_subject := canonical_subject (rr_fs rules) (gr_subject g)\<rparr>)
       (filter (\<lambda>g. refused_subject rules (gr_subject g) = None) grants))"

lemma parse_loaded:
  "toml_of parse e \<Longrightarrow> parse_grant_rows e rules now (rf_read f) = Inr rows \<Longrightarrow>
     \<exists>grants. read_back parse f = Some grants \<and> rows = loaded rules now grants"
  by (auto simp: parse_grant_rows_def read_back_def loaded_def toml_of_def Let_def split: file_read.splits option.splits)

text \<open>What one edit does to the file: nothing, or the rows read, edited and without the expired ones.\<close>

lemma file_step_cases:
  assumes "toml_of parse (fe_env ev)"
  obtains (same) "file_step f ev = f" "fst (run_edit ev f) \<noteq> Inr True"
  | (written) grants where "read_back parse f = Some grants" "fst (op_edit (fe_op ev) (loaded (fe_rules ev) (fe_now ev) grants))"
      "read_back parse (file_step f ev) = Some (filter (is_live (fe_now ev)) (snd (op_edit (fe_op ev) (loaded (fe_rules ev) (fe_now ev) grants))))"
proof -
  let ?e = "fe_env ev" and ?rules = "fe_rules ev" and ?now = "fe_now ev"
  consider (early) "op_mode (fe_op ev) = ExistingOnly \<and> rf_read f = ReadNotFound \<or> \<not> se_dir_ok ?e \<or> (\<exists>x. parse_grant_rows ?e ?rules ?now (rf_read f) = Inl x)"
    | (rows) rows where "\<not> (op_mode (fe_op ev) = ExistingOnly \<and> rf_read f = ReadNotFound)" "se_dir_ok ?e" "parse_grant_rows ?e ?rules ?now (rf_read f) = Inr rows"
    by (cases "parse_grant_rows ?e ?rules ?now (rf_read f)") auto
  then show ?thesis
  proof cases
    case early
    then show ?thesis using same by (auto simp: file_step_def run_edit_def edit_rows_locked_def split: if_splits)
  next
    case rows
    from parse_loaded[OF assms rows(3)] obtain grants where g: "read_back parse f = Some grants" "rows = loaded ?rules ?now grants" by blast
    obtain changed rows' where ed: "op_edit (fe_op ev) rows = (changed, rows')" by fastforce
    show ?thesis
    proof (cases "changed \<and> se_write_ok ?e \<and> (\<exists>t. se_toml_print ?e (filter (is_live ?now) rows') = Some t)")
      case True
      then obtain t where t: "se_toml_print ?e (filter (is_live ?now) rows') = Some t" by blast
      then have "parse t = Some (filter (is_live ?now) rows')" using assms by (auto simp: toml_of_def)
      then show ?thesis using written[OF g(1)] True t ed rows g(2)
        by (simp add: file_step_def run_edit_def edit_rows_locked_def read_back_def Let_def)
    next
      case False
      then show ?thesis using same ed rows
        by (auto simp: file_step_def run_edit_def edit_rows_locked_def Let_def split: bool.splits option.splits)
    qed
  qed
qed

text \<open>A row no reading changes: its subject passes the check and is canonical, and its date is not ahead.\<close>

definition stable_row :: "row_rules \<Rightarrow> int \<Rightarrow> grant \<Rightarrow> bool" where
  "stable_row rules now g \<longleftrightarrow> refused_subject rules (gr_subject g) = None
     \<and> canonical_subject (rr_fs rules) (gr_subject g) = gr_subject g \<and> gr_granted_at g \<le> now \<and> is_live now g"

lemma stable_loaded: "stable_row rules now g \<Longrightarrow> g \<in> set grants \<Longrightarrow> g \<in> set (loaded rules now grants)"
  by (force simp: stable_row_def loaded_def clamp_granted_at_def image_iff)

lemma loaded_ids: "gr_id ` set (loaded rules now grants) \<subseteq> gr_id ` set grants"
  by (auto simp: loaded_def clamp_granted_at_def)

definition ids_of :: "(ustring \<Rightarrow> grant list option) \<Rightarrow> rows_file \<Rightarrow> ustring set" where
  "ids_of parse f = (case read_back parse f of Some grants \<Rightarrow> gr_id ` set grants | None \<Rightarrow> {})"

fun adds_id :: "ustring \<Rightarrow> file_op \<Rightarrow> bool" where
  "adds_id i (FileAdd g) \<longleftrightarrow> gr_id g = i"
| "adds_id i (FileRevoke _) \<longleftrightarrow> False"

lemma step_keeps_row:
  assumes "toml_of parse (fe_env ev)" "read_back parse f = Some grants" "g \<in> set grants"
    and "stable_row (fe_rules ev) (fe_now ev) g" "fe_op ev \<noteq> FileRevoke (gr_id g)"
  shows "\<exists>grants'. read_back parse (file_step f ev) = Some grants' \<and> g \<in> set grants'"
  using assms(1)
proof (cases rule: file_step_cases[of parse ev f, consumes 1])
  case same
  then show ?thesis using assms(2,3) by simp
next
  case (written gs)
  have "g \<in> set (loaded (fe_rules ev) (fe_now ev) gs)" using stable_loaded[OF assms(4)] assms(2,3) written(1) by simp
  then have "g \<in> set (snd (op_edit (fe_op ev) (loaded (fe_rules ev) (fe_now ev) gs)))"
    using assms(5) by (cases "fe_op ev") (auto simp: remove_by_id_def Let_def)
  then show ?thesis using written(3) assms(4) by (auto simp: stable_row_def)
qed

lemma step_ids:
  assumes "toml_of parse (fe_env ev)" "\<not> adds_id i (fe_op ev)" "i \<notin> ids_of parse f"
  shows "i \<notin> ids_of parse (file_step f ev)"
  using assms(1)
proof (cases rule: file_step_cases[of parse ev f, consumes 1])
  case same
  then show ?thesis using assms(3) by simp
next
  case (written gs)
  have "i \<notin> gr_id ` set (loaded (fe_rules ev) (fe_now ev) gs)"
    using loaded_ids[of "fe_rules ev" "fe_now ev" gs] assms(3) written(1) by (auto simp: ids_of_def)
  then show ?thesis using written(3) assms(2) by (cases "fe_op ev") (auto simp: ids_of_def remove_by_id_def Let_def)
qed

lemma revoke_removes:
  assumes "toml_of parse (fe_env ev)" "fe_op ev = FileRevoke i" "fst (run_edit ev f) = Inr True"
  shows "i \<notin> ids_of parse (file_step f ev)"
  using assms(1)
proof (cases rule: file_step_cases[of parse ev f, consumes 1])
  case same
  then show ?thesis using assms(3) by simp
next
  case (written gs)
  then show ?thesis using assms(2) by (auto simp: ids_of_def remove_by_id_def Let_def)
qed

text \<open>
  C28: Writers do not lose or resurrect rows. Along every sequence of adds and revokes by any number of stores,
  each editing under row rules of its own, with whatever it remembers, and failing or not as it may, a row that is in
  the file, that the rules of every store that edits accept and leave unchanged, that stays unexpired and that nobody
  revokes is still in the file at the end; and an id whose revoke reported success stays out of the file until
  somebody adds it again. This is given that the TOML library reads back the rows it printed. A store whose own rules
  refuse a row does not keep it: its next write leaves the row out.
\<close>

theorem writers_keep_rows:
  fixes f :: rows_file and es :: "file_event list"
  assumes "\<forall>ev \<in> set es. toml_of parse (fe_env ev)"
  shows "(read_back parse f = Some grants \<and> g \<in> set grants
        \<and> (\<forall>ev \<in> set es. stable_row (fe_rules ev) (fe_now ev) g \<and> fe_op ev \<noteq> FileRevoke (gr_id g)) \<longrightarrow>
      (\<exists>grants'. read_back parse (foldl file_step f es) = Some grants' \<and> g \<in> set grants'))
    \<and> (es = ev # es' \<and> fe_op ev = FileRevoke i \<and> fst (run_edit ev f) = Inr True
        \<and> (\<forall>x \<in> set es'. \<not> adds_id i (fe_op x)) \<longrightarrow>
      i \<notin> ids_of parse (foldl file_step f es))"
proof (intro conjI impI)
  assume "read_back parse f = Some grants \<and> g \<in> set grants
    \<and> (\<forall>ev \<in> set es. stable_row (fe_rules ev) (fe_now ev) g \<and> fe_op ev \<noteq> FileRevoke (gr_id g))"
  then show "\<exists>grants'. read_back parse (foldl file_step f es) = Some grants' \<and> g \<in> set grants'"
    using assms
  proof (induction es arbitrary: f grants)
    case (Cons x es)
    from step_keeps_row[of parse x f grants g] Cons.prems
    obtain grants' where "read_back parse (file_step f x) = Some grants'" "g \<in> set grants'" by auto
    then show ?case using Cons.IH[of "file_step f x" grants'] Cons.prems by auto
  qed auto
next
  assume a: "es = ev # es' \<and> fe_op ev = FileRevoke i \<and> fst (run_edit ev f) = Inr True \<and> (\<forall>x \<in> set es'. \<not> adds_id i (fe_op x))"
  have "i \<notin> ids_of parse f' \<Longrightarrow> \<forall>x \<in> set xs. \<not> adds_id i (fe_op x) \<and> toml_of parse (fe_env x) \<Longrightarrow>
      i \<notin> ids_of parse (foldl file_step f' xs)" for f' xs
    by (induction xs arbitrary: f') (auto simp: step_ids)
  then show "i \<notin> ids_of parse (foldl file_step f es)" using a assms revoke_removes[of parse ev i f] by simp
qed


definition sample_row :: "nat \<Rightarrow> grant" where
  "sample_row i = \<lparr>gr_id = [i], gr_subject = NetHost (str ''a.io'') None, gr_scope = ScopeGlobal, gr_expires = ExpireNever,
     gr_decision = GrantAllow, gr_granted_at = 0, gr_granted_by = str ''cli'', gr_via = None\<rparr>"

definition sample_parse :: "ustring \<Rightarrow> grant list option" where
  "sample_parse t = (if t = [1] then Some [sample_row 1] else if t = [2] then Some [sample_row 1, sample_row 2] else None)"

definition sample_store_env :: store_env where
  "sample_store_env = \<lparr>se_toml_parse = sample_parse,
     se_toml_print = (\<lambda>rows. if rows = [sample_row 1] then Some [1] else if rows = [sample_row 1, sample_row 2] then Some [2] else None),
     se_dir_ok = True, se_write_ok = True, se_new_signature = Some 7\<rparr>"

definition empty_rules :: row_rules where
  "empty_rules = \<lparr>rr_protected = [], rr_user_home = None, rr_globset = (\<lambda>_. None),
     rr_fs = \<lparr>fs_canonicalize = (\<lambda>_. None), fs_lstat = (\<lambda>_. NotFound), fs_read_link = (\<lambda>_. None)\<rparr>\<rparr>"

theorem writers_keep_rows_witness:
  "\<exists>grants'. read_back sample_parse (foldl file_step \<lparr>rf_read = ReadText [1], rf_signature = None\<rparr>
       [\<lparr>fe_env = sample_store_env, fe_rules = empty_rules, fe_now = 5, fe_memory = \<lparr>pr_signature = None, pr_rows = Some []\<rparr>, fe_op = FileAdd (sample_row 2)\<rparr>])
     = Some grants' \<and> sample_row 1 \<in> set grants'"
proof -
  let ?ev = "\<lparr>fe_env = sample_store_env, fe_rules = empty_rules, fe_now = 5, fe_memory = \<lparr>pr_signature = None, pr_rows = Some []\<rparr>, fe_op = FileAdd (sample_row 2)\<rparr>"
  have "\<forall>ev \<in> set [?ev]. toml_of sample_parse (fe_env ev)"
    by (auto simp: toml_of_def sample_store_env_def sample_parse_def sample_row_def split: if_splits)
  from writers_keep_rows[OF this, of "\<lparr>rf_read = ReadText [1], rf_signature = None\<rparr>" "[sample_row 1]" "sample_row 1"]
  show ?thesis
    by (simp add: read_back_def sample_parse_def stable_row_def sample_row_def refused_subject_def canonical_subject_def
        is_live_def expires_at_def)
qed

text \<open>A store whose rules refuse a row drops it with its next write, though nobody revoked it.\<close>

lemma refusing_store_drops:
  assumes "toml_of parse (fe_env ev)" "fst (run_edit ev f) = Inr True" "read_back parse f = Some [g]"
    "refused_subject (fe_rules ev) (gr_subject g) \<noteq> None" "\<not> adds_id (gr_id g) (fe_op ev)"
  shows "gr_id g \<notin> ids_of parse (file_step f ev)"
  using assms(1)
proof (cases rule: file_step_cases[of parse ev f, consumes 1])
  case same
  then show ?thesis using assms(2) by simp
next
  case (written gs)
  then have "gs = [g]" using assms(3) by simp
  then show ?thesis using written(3) assms(4,5)
    by (cases "fe_op ev") (auto simp: ids_of_def loaded_def remove_by_id_def Let_def)
qed


section \<open>What the store hands out\<close>

text \<open>The operations of a store, with the files as any process left them and the file system as it is at the time.\<close>

datatype store_op =
    OpAdd store_env int grant
  | OpAddSession int ustring grant
  | OpRevokeRow store_env int ustring
  | OpReload store_env int
  | OpClearSession ustring

definition rules_at :: "row_rules \<Rightarrow> fs \<Rightarrow> row_rules" where
  "rules_at rules w = rules\<lparr>rr_fs := w\<rparr>"

fun store_step :: "row_rules \<Rightarrow> grant_store \<Rightarrow> fs \<times> grant_disk \<times> store_op \<Rightarrow> grant_store" where
  "store_step rules st (w, d, OpAdd e now g) = fst (snd (store_add e (rules_at rules w) now g st d))"
| "store_step rules st (w, d, OpAddSession now sid g) = snd (add_session (rules_at rules w) now sid g st)"
| "store_step rules st (w, d, OpRevokeRow e now i) = fst (snd (store_revoke e (rules_at rules w) now i st d))"
| "store_step rules st (w, d, OpReload e now) = snd (reload_if_changed e (rules_at rules w) now st d)"
| "store_step rules st (w, d, OpClearSession sid) = snd (clear_session sid st)"

definition checked_row :: "row_rules \<Rightarrow> grant \<Rightarrow> bool" where
  "checked_row rules g \<longleftrightarrow> (\<exists>w s. refused_subject (rules_at rules w) s = None \<and> gr_subject g = canonical_subject w s)"

definition checked_file :: "row_rules \<Rightarrow> persisted_rows \<Rightarrow> bool" where
  "checked_file rules p \<longleftrightarrow> (\<forall>rows. pr_rows p = Some rows \<longrightarrow> list_all (checked_row rules) rows)"

definition store_inv :: "row_rules \<Rightarrow> grant_store \<Rightarrow> bool" where
  "store_inv rules st \<longleftrightarrow> checked_file rules (gs_workspace st) \<and> checked_file rules (gs_global st)
     \<and> list_all (\<lambda>(_, g). checked_row rules g) (gs_session st)"

lemma rules_at_fs [simp]: "rr_fs (rules_at rules w) = w"
  by (simp add: rules_at_def)

lemma checked_rowI: "refused_subject (rules_at rules w) s = None \<Longrightarrow> gr_subject g = canonical_subject w s \<Longrightarrow> checked_row rules g"
  unfolding checked_row_def by blast

lemma checked_clamped:
  "refused_subject (rules_at rules w) (gr_subject g) = None \<Longrightarrow>
     checked_row rules (clamp_granted_at now (g\<lparr>gr_subject := canonical_subject w (gr_subject g)\<rparr>))"
  by (rule checked_rowI) (simp_all add: clamp_granted_at_def)

lemma parsed_checked: "parse_grant_rows e (rules_at rules w) now r = Inr rows \<Longrightarrow> list_all (checked_row rules) rows"
  by (auto simp: parse_grant_rows_def list_all_iff Let_def checked_clamped split: file_read.splits option.splits)

lemma edit_checked:
  assumes "edit_rows_locked e (rules_at rules w) now mode edit p f = (r, p', f')" "checked_file rules p"
    and "\<And>rows. list_all (checked_row rules) rows \<Longrightarrow> list_all (checked_row rules) (snd (edit rows))"
  shows "checked_file rules p'"
proof (cases "parse_grant_rows e (rules_at rules w) now (rf_read f)")
  case (Inl err)
  then show ?thesis using assms(1,2) by (auto simp: edit_rows_locked_def split: if_splits)
next
  case (Inr rows)
  have "list_all (checked_row rules) (snd (edit rows))" using assms(3)[OF parsed_checked[OF Inr]] .
  then show ?thesis using assms(1,2) Inr
    by (cases "edit rows") (auto simp: edit_rows_locked_def checked_file_def list_all_iff Let_def split: if_splits bool.splits option.splits)
qed

lemma reload_checked:
  "checked_file rules p \<Longrightarrow> checked_file rules (snd (persisted_reload e (rules_at rules w) now f p))"
  by (auto simp: persisted_reload_def persisted_load_def checked_file_def rows_or_none_def parsed_checked split: sum.splits)

lemma remove_checked: "list_all (checked_row rules) rows \<Longrightarrow> list_all (checked_row rules) (snd (remove_by_id i rows))"
  by (auto simp: remove_by_id_def list_all_iff Let_def)

lemma add_checked:
  assumes "refused_subject (rules_at rules w) (gr_subject g) = None" "store_inv rules st"
  shows "store_inv rules (fst (snd (store_add e (rules_at rules w) now g st d)))"
proof -
  let ?g = "clamp_granted_at now (g\<lparr>gr_subject := canonical_subject w (gr_subject g)\<rparr>)"
  let ?edit = "edit_rows_locked e (rules_at rules w) now StoreCreate (\<lambda>rows. (True, rows @ [?g]))"
  have push: "list_all (checked_row rules) rows \<Longrightarrow> list_all (checked_row rules) (snd (True, rows @ [?g]))" for rows
    using checked_clamped[OF assms(1)] by simp
  obtain r1 p1 f1 where e1: "?edit (gs_workspace st) (gd_workspace d) = (r1, p1, f1)" by (metis prod_cases3)
  obtain r2 p2 f2 where e2: "?edit (gs_global st) (gd_global d) = (r2, p2, f2)" by (metis prod_cases3)
  have "checked_file rules p1" "checked_file rules p2"
    using edit_checked[OF e1 _ push] edit_checked[OF e2 _ push] assms(2) by (auto simp: store_inv_def)
  then show ?thesis using assms e1 e2
    by (cases "gr_scope g") (simp_all add: store_add_def store_inv_def clamp_granted_at_def)
qed

lemma revoke_checked: "store_inv rules st \<Longrightarrow> store_inv rules (fst (snd (store_revoke e (rules_at rules w) now i st d)))"
proof -
  assume inv: "store_inv rules st"
  obtain r1 p1 f1 where e1: "edit_rows_locked e (rules_at rules w) now ExistingOnly (remove_by_id i) (gs_workspace st) (gd_workspace d) = (r1, p1, f1)"
    by (metis prod_cases3)
  obtain r2 p2 f2 where e2: "edit_rows_locked e (rules_at rules w) now ExistingOnly (remove_by_id i) (gs_global st) (gd_global d) = (r2, p2, f2)"
    by (metis prod_cases3)
  have "checked_file rules p1" "checked_file rules p2"
    using edit_checked[OF e1 _ remove_checked] edit_checked[OF e2 _ remove_checked] inv by (auto simp: store_inv_def)
  then show ?thesis using inv e1 e2
    by (auto simp: store_revoke_def store_inv_def list_all_iff Let_def split: sum.splits bool.splits)
qed

interpretation grants: state_machine "store_step rules" "store_inv rules" for rules
proof
  fix st and ev :: "fs \<times> grant_disk \<times> store_op"
  assume inv: "store_inv rules st"
  obtain w d op where ev: "ev = (w, d, op)" by (cases ev)
  show "store_inv rules (store_step rules st ev)"
  proof (cases op)
    case (OpAdd e now g)
    show ?thesis
    proof (cases "refused_subject (rules_at rules w) (gr_subject g)")
      case None
      then show ?thesis using add_checked inv by (simp add: ev OpAdd)
    next
      case (Some err)
      then show ?thesis using inv by (simp add: ev OpAdd store_add_def)
    qed
  next
    case (OpAddSession now sid g)
    then show ?thesis using inv
      by (auto simp: ev add_session_def store_inv_def clamp_granted_at_def Let_def intro: checked_rowI split: option.splits)
  next
    case (OpRevokeRow e now i)
    then show ?thesis using revoke_checked inv by (simp add: ev)
  next
    case (OpReload e now)
    then show ?thesis using inv by (auto simp: ev reload_if_changed_def store_inv_def Let_def case_prod_beta reload_checked)
  next
    case (OpClearSession sid)
    then show ?thesis using inv by (auto simp: ev clear_session_def store_inv_def list_all_iff Let_def)
  qed
qed

text \<open>A root that passed the check, spelled out.\<close>

definition root_allowed :: "row_rules \<Rightarrow> fs \<Rightarrow> ustring \<Rightarrow> bool" where
  "root_allowed rules w root \<longleftrightarrow> is_absolute root
     \<and> (\<forall>entry \<in> set (rr_protected rules). \<not> protected_covers (rr_globset rules) entry (fold_dots root)
          \<and> \<not> protected_covers (rr_globset rules) entry (canonical_path w root))
     \<and> \<not> is_too_broad_anywhere (canonical_path w root) (rr_user_home rules)"

lemma refused_root_allowed: "refused_root (rules_at rules w) root = None \<Longrightarrow> root_allowed rules w root"
  by (auto simp: refused_root_def root_allowed_def is_ungrantable_def is_protected_def list_ex_iff rules_at_def Let_def
      split: if_splits sum.splits)

text \<open>
  No row opens what is protected. However the store is used, and whatever other processes write into its
  files or do to the file system, every row it hands out that names a folder names the canonical spelling of a root that,
  when it was taken in, was absolute, was covered by no entry of the floor in either spelling, and was not too broad;
  and while one of the two files cannot be read, no allow row is shared from either.
\<close>

theorem handed_out_rows_checked:
  fixes rules :: row_rules and st0 :: grant_store and ops :: "(fs \<times> grant_disk \<times> store_op) list"
  assumes "store_inv rules st0"
  defines "st \<equiv> foldl (store_step rules) st0 ops"
  shows "(g \<in> set (store_live now st) \<and> (gr_subject g = FsWriteRoot root \<or> gr_subject g = FsRead root) \<longrightarrow>
        (\<exists>w spelled. root_allowed rules w spelled \<and> root = canonical_path w spelled))
    \<and> (g \<in> set (live_shared now st) \<and> gr_decision g = GrantAllow \<longrightarrow>
        pr_rows (gs_workspace st) \<noteq> None \<and> pr_rows (gs_global st) \<noteq> None)"
proof (intro conjI impI)
  have inv: "store_inv rules st" unfolding st_def using assms(1) by (rule grants.run_inv)
  assume a: "g \<in> set (store_live now st) \<and> (gr_subject g = FsWriteRoot root \<or> gr_subject g = FsRead root)"
  then have "g \<in> snd ` set (gs_session st) \<or> (\<exists>rows. pr_rows (gs_workspace st) = Some rows \<and> g \<in> set rows)
      \<or> (\<exists>rows. pr_rows (gs_global st) = Some rows \<and> g \<in> set rows)"
    by (auto simp: store_live_def persisted_live_def split: option.splits)
  then have "checked_row rules g" using inv by (auto simp: store_inv_def checked_file_def list_all_iff)
  then obtain w s where s: "refused_subject (rules_at rules w) s = None" "gr_subject g = canonical_subject w s"
    unfolding checked_row_def by blast
  then obtain r where "refused_root (rules_at rules w) r = None" "root = canonical_path w r"
    using a by (auto simp: refused_subject_def canonical_subject_def split: grant_subject.splits)
  then show "\<exists>w spelled. root_allowed rules w spelled \<and> root = canonical_path w spelled" using refused_root_allowed by blast
next
  assume "g \<in> set (live_shared now st) \<and> gr_decision g = GrantAllow"
  then show "pr_rows (gs_workspace st) \<noteq> None" "pr_rows (gs_global st) \<noteq> None"
    by (auto simp: live_shared_def persisted_live_def Let_def split: if_splits)
qed


definition folder_row :: grant where
  "folder_row = (sample_row 1)\<lparr>gr_subject := FsWriteRoot (str ''/a/b/c''), gr_scope := ScopeSession\<rparr>"

theorem handed_out_rows_checked_witness:
  "\<exists>w spelled. root_allowed empty_rules w spelled \<and> str ''/a/b/c'' = canonical_path w spelled"
proof -
  let ?st0 = "\<lparr>gs_workspace = \<lparr>pr_signature = None, pr_rows = Some []\<rparr>, gs_global = \<lparr>pr_signature = None, pr_rows = Some []\<rparr>, gs_session = []\<rparr>"
  let ?file = "\<lparr>rf_read = ReadNotFound, rf_signature = None\<rparr>"
  let ?ops = "[(rr_fs empty_rules, \<lparr>gd_workspace = ?file, gd_global = ?file\<rparr>, OpAddSession 0 [9] folder_row)]"
  have "refused_subject empty_rules (FsWriteRoot (str ''/a/b/c'')) = None" "canonical_path (rr_fs empty_rules) (str ''/a/b/c'') = str ''/a/b/c''"
    by code_simp+
  then have "folder_row \<in> set (store_live 0 (foldl (store_step empty_rules) ?st0 ?ops))"
    by (simp add: add_session_def folder_row_def sample_row_def store_live_def clamp_granted_at_def canonical_subject_def is_live_def
        expires_at_def rules_at_def)
  then show ?thesis
    using handed_out_rows_checked[of empty_rules ?st0 folder_row 0 ?ops "str ''/a/b/c''"]
    by (simp add: store_inv_def checked_file_def folder_row_def)
qed

end
