(* ===== verification/Egress_Request_Props.thy ===== *)
theory Egress_Request_Props
  imports Egress_Request "HOL-Library.Sublist"
begin

text \<open>
  Message heads are read exactly, whatever the chunks they arrive in, and what is forwarded upstream names
  one host, has one length and carries nothing meant for the proxy itself.
\<close>


section \<open>Reading a head\<close>

lemma find_sub_append:
  "pat \<noteq> [] \<Longrightarrow> find_sub pat s = Some i \<Longrightarrow> find_sub pat (s @ t) = Some i \<and> i + length pat \<le> length s"
proof (induction s arbitrary: i)
  case (Cons b s)
  show ?case
  proof (cases "take (length pat) (b # s) = pat")
    case True
    then have "length pat \<le> length (b # s)" by (metis length_take min.cobounded1)
    with True Cons.prems show ?thesis by (simp add: take_Cons' split: if_splits)
  next
    case False
    then obtain k where k: "find_sub pat s = Some k" "i = Suc k" using Cons.prems by auto
    note IH = Cons.IH[OF Cons.prems(1) k(1)]
    have "take (length pat) (b # s @ t) \<noteq> pat"
    proof
      assume a: "take (length pat) (b # s @ t) = pat"
      have "length pat \<le> length (b # s)" using IH by simp
      then have "take (length pat) ((b # s) @ t) = take (length pat) (b # s)" by (simp only: take_append) simp
      with a False show False by simp
    qed
    with IH k show ?thesis by simp
  qed
qed simp

lemma find_sub_prefix:
  "pat \<noteq> [] \<Longrightarrow> find_sub pat (s @ t) = Some i \<Longrightarrow> i + length pat \<le> length s \<Longrightarrow> find_sub pat s = Some i"
proof (induction s arbitrary: i)
  case (Cons b s)
  have t: "take (length pat) (b # s @ t) = take (length pat) (b # s)" if "length pat \<le> length (b # s)"
    using that by (simp flip: append_Cons)
  show ?case
  proof (cases "find_sub pat ((b # s) @ t) = Some 0 \<and> take (length pat) (b # s @ t) = pat")
    case True
    then show ?thesis using Cons.prems t by (auto split: if_splits)
  next
    case False
    then obtain k where "find_sub pat (s @ t) = Some k" "i = Suc k" "take (length pat) (b # s @ t) \<noteq> pat"
      using Cons.prems by (auto split: if_splits)
    then show ?thesis using Cons t by auto
  qed
qed simp

lemma stream_read_data:
  assumes "0 < n" "stream_read n s = (r, s')"
  shows "(case r of Inl _ \<Rightarrow> data s = [] | Inr got \<Rightarrow> length got \<le> n \<and> (if got = [] then data s = [] else data s = got @ data s'))"
  using assms by (cases s rule: data.cases) (auto split: if_splits)

text \<open>A stream that keeps delivering, and one read of it.\<close>

definition flowing :: "stream \<Rightarrow> bool" where
  "flowing p \<longleftrightarrow> (\<forall>c \<in> set p. \<exists>bs. c = Arrives bs \<and> bs \<noteq> [])"

lemma stream_read_flowing:
  assumes "flowing p" "p \<noteq> []" "0 < n"
  obtains got p' where "got \<noteq> []" "flowing p'" "data p = got @ data p'" "\<And>rest. stream_read n (p @ rest) = (Inr got, p' @ rest)"
proof -
  obtain bs q where p: "p = Arrives bs # q" "bs \<noteq> []" "flowing q" using assms(1,2) by (cases p) (auto simp: flowing_def)
  show ?thesis
  proof (cases "length bs \<le> n")
    case True
    then show ?thesis using that[of bs q] p by simp
  next
    case False
    then show ?thesis using that[of "take n bs" "Arrives (drop n bs) # q"] p assms(3) by (auto simp: flowing_def)
  qed
qed

lemma read_head_loop_flowing:
  assumes "flowing p" "cap \<le> length bytes + length (data p)"
  shows "\<exists>r p'. \<forall>rest. read_head_loop cap bytes (p @ rest) = (r, p' @ rest)"
  using assms
proof (induction "cap - length bytes" arbitrary: bytes p rule: less_induct)
  case less
  show ?case
  proof (cases "find_sub CRLF2 bytes \<noteq> None \<or> cap \<le> length bytes")
    case True
    then have "read_head_loop cap bytes (p @ rest) = (fst (read_head_loop cap bytes p), p @ rest)" for rest
      by (cases "find_sub CRLF2 bytes") (simp_all add: read_head_loop.simps[of cap bytes])
    then show ?thesis by blast
  next
    case False
    let ?n = "min (cap - length bytes) 4096"
    have "p \<noteq> []" "0 < ?n" using False less.prems(2) by auto
    then obtain got p' where g: "got \<noteq> []" "flowing p'" "data p = got @ data p'" "\<And>rest. stream_read ?n (p @ rest) = (Inr got, p' @ rest)"
      using stream_read_flowing[OF less.prems(1)] by metis
    have "\<exists>r p''. \<forall>rest. read_head_loop cap (bytes @ got) (p' @ rest) = (r, p'' @ rest)"
      by (rule less.hyps) (use False g less.prems(2) in \<open>auto intro!: diff_less_mono2\<close>)
    then show ?thesis using False g by (subst read_head_loop.simps) auto
  qed
qed

lemma read_head_loop_exact:
  assumes "length bytes \<le> cap"
  shows "case find_sub CRLF2 (bytes @ data s) of
      Some i \<Rightarrow> (if i + 4 \<le> cap
        then \<exists>rest. fst (read_head_loop cap bytes s) = Inr (take (i + 4) (bytes @ data s), rest)
          \<and> prefix (take (i + 4) (bytes @ data s) @ rest) (bytes @ data s) \<and> i + 4 + length rest \<le> cap
        else \<exists>e. fst (read_head_loop cap bytes s) = Inl e)
    | None \<Rightarrow> \<exists>e. fst (read_head_loop cap bytes s) = Inl e"
  using assms
proof (induction cap bytes s rule: read_head_loop.induct)
  case (1 cap bytes s)
  have ne: "CRLF2 \<noteq> []" and len: "length CRLF2 = 4" by (simp_all add: CRLF2_def)
  show ?case
  proof (cases "find_sub CRLF2 bytes")
    case (Some i)
    note f = find_sub_append[OF ne Some, of "data s", unfolded len]
    then have "take (i + 4) (bytes @ data s) = take (i + 4) bytes" "take (i + 4) bytes @ drop (i + 4) bytes = bytes" by auto
    moreover have "fst (read_head_loop cap bytes s) = Inr (take (i + 4) bytes, drop (i + 4) bytes)"
      using Some f 1(2) by (subst read_head_loop.simps) simp
    moreover have "prefix bytes (bytes @ data s)" by (rule prefixI) simp
    ultimately show ?thesis using f 1(2) by auto
  next
    case None
    have late: "cap < i + 4" if "find_sub CRLF2 (bytes @ data s) = Some i" "cap \<le> length bytes" for i
      using find_sub_prefix[OF ne that(1), unfolded len] that(2) None by fastforce
    show ?thesis
    proof (cases "cap \<le> length bytes")
      case True
      then show ?thesis using None late
        by (subst (1 2 3) read_head_loop.simps) (fastforce split: option.splits)
    next
      case False
      obtain r s' where rd: "stream_read (min (cap - length bytes) 4096) s = (r, s')" by fastforce
      note d = stream_read_data[OF _ rd]
      show ?thesis
      proof (cases "\<exists>got. r = Inr got \<and> got \<noteq> []")
        case True
        then obtain got where got: "r = Inr got" "got \<noteq> []" by blast
        have len': "length (bytes @ got) \<le> cap" and eq: "data s = got @ data s'" using d False got by auto
        have "read_head_loop cap bytes s = read_head_loop cap (bytes @ got) s'"
          using None False rd got by (subst read_head_loop.simps) simp
        moreover have "bytes @ data s = (bytes @ got) @ data s'" using eq by simp
        ultimately show ?thesis using 1(1)[OF None False rd[symmetric] got(1) got(2) len'] by (simp only:)
      next
        case dead: False
        then have "data s = []" using d False by (cases r) auto
        moreover have "\<exists>e. fst (read_head_loop cap bytes s) = Inl e"
          using None False rd dead by (subst read_head_loop.simps) (auto split: sum.splits)
        ultimately show ?thesis using None by simp
      qed
    qed
  qed
qed

text \<open>
  A message head is found exactly, however its bytes are split into reads. If the terminator's first
  occurrence in what the stream delivers ends within the limit, \<open>read_head\<close> returns precisely the bytes up
  to and including it, plus a prefix of what follows, never more than the limit in all; otherwise it fails.
\<close>

theorem read_head_exact:
  fixes cap :: nat and s :: stream
  shows "case find_sub CRLF2 (data s) of
      Some i \<Rightarrow> (if i + 4 \<le> cap
        then \<exists>rest. fst (read_head cap s) = Inr (take (i + 4) (data s), rest)
          \<and> prefix (take (i + 4) (data s) @ rest) (data s) \<and> i + 4 + length rest \<le> cap
        else \<exists>e. fst (read_head cap s) = Inl e)
    | None \<Rightarrow> \<exists>e. fst (read_head cap s) = Inl e"
  using read_head_loop_exact[of "[]" cap s] unfolding read_head_def append_Nil by simp


section \<open>What is forwarded\<close>

lemma lower_names:
  "lower_ascii (str ''Host'') = str ''host''" "lower_ascii (str ''host'') = str ''host''"
  "lower_ascii (str ''Content-Length'') = str ''content-length''" "lower_ascii (str ''content-length'') = str ''content-length''"
  "lower_ascii (str ''Connection'') = str ''connection''" "lower_ascii (str ''connection'') = str ''connection''"
  by code_simp+

lemma critical_names:
  "critical_connection_token (str ''host'')" "critical_connection_token (str ''content-length'')"
  "critical_connection_token (str ''connection'')" "static_hop_by_hop (str ''connection'')"
  by code_simp+

lemma name_facts:
  "str ''host'' \<noteq> str ''content-length''" "str ''host'' \<noteq> str ''connection''" "str ''content-length'' \<noteq> str ''connection''"
  "\<not> static_hop_by_hop (str ''host'')" "\<not> static_hop_by_hop (str ''content-length'')"
  by code_simp+

text \<open>The headers a forwarded request must not carry: they speak to the proxy, or about it.\<close>

definition proxy_private :: "ustring \<Rightarrow> bool" where
  "proxy_private lower \<longleftrightarrow> static_hop_by_hop lower \<or> lower = str ''proxy-authorization'' \<or> lower = str ''forwarded''
     \<or> lower = str ''via'' \<or> starts_with (str ''x-forwarded-'') lower"

lemma own_names_not_private: "\<not> proxy_private (str ''host'')" "\<not> proxy_private (str ''content-length'')"
  by code_simp+

lemma kept_header:
  "\<not> dropped_header tokens name \<longleftrightarrow> \<not> proxy_private (lower_ascii name) \<and> lower_ascii name \<noteq> str ''host''
     \<and> lower_ascii name \<noteq> str ''content-length'' \<and> lower_ascii name \<notin> set tokens"
  unfolding dropped_header_def proxy_private_def Let_def by blast

lemma named_kept:
  assumes "\<forall>name. lower_ascii name = n \<longrightarrow> dropped_header tokens name"
  shows "filter (\<lambda>(h, _). lower_ascii h = n) (filter (\<lambda>(name, _). \<not> dropped_header tokens name) hs) = []"
  using assms by (auto simp: filter_empty_conv)

text \<open>
  C18: A forwarded request cannot smuggle. Whatever headers the client sent, the ones forwarded name exactly
  one host, the authority that was checked; at most one length, the one that was framed; one connection
  header, \<open>close\<close>; none that speaks to the proxy (hop-by-hop, credentials, forwarding) and none that the
  client's \<open>Connection\<close> header names; and every other header is forwarded unchanged and in order.
\<close>

theorem forwarded_headers_clean:
  fixes r :: parsed_request and out :: "header list"
  assumes "sanitized_headers r authority cl = Inr out"
  defines "named \<equiv> \<lambda>n. filter (\<lambda>(h, _). lower_ascii h = str n) out"
  shows "named ''host'' = [(str ''Host'', authority)]
    \<and> named ''content-length'' = (case cl of None \<Rightarrow> [] | Some n \<Rightarrow> [(str ''Content-Length'', show_nat n)])
    \<and> named ''connection'' = [(str ''Connection'', str ''close'')]
    \<and> (\<forall>(h, v) \<in> set out. proxy_private (lower_ascii h) \<longrightarrow> (h, v) = (str ''Connection'', str ''close''))
    \<and> (\<forall>(h, v) \<in> set out. lower_ascii h \<notin> set (token_pieces (rq_headers r)))
    \<and> subseq (filter (\<lambda>(h, _). \<not> dropped_header (token_pieces (rq_headers r)) h) (rq_headers r)) out"
proof -
  define tokens where "tokens = token_pieces (rq_headers r)"
  define kept where "kept = filter (\<lambda>(name, _). \<not> dropped_header tokens name) (rq_headers r)"
  define len where "len = (case cl of None \<Rightarrow> [] | Some n \<Rightarrow> [(str ''Content-Length'', show_nat n)])"
  have out: "out = (str ''Host'', authority) # kept @ len @ [(str ''Connection'', str ''close'')]"
    and good: "\<not> list_ex bad_connection_token tokens"
    using assms(1) by (auto simp: sanitized_headers_def connection_tokens_def tokens_def kept_def len_def split: if_splits option.splits)
  have free: "str ''host'' \<notin> set tokens" "str ''content-length'' \<notin> set tokens" "str ''connection'' \<notin> set tokens"
    using good critical_names by (auto simp: list_ex_iff bad_connection_token_def)
  have k: "filter (\<lambda>(h, _). lower_ascii h = str n) kept = []" if "n \<in> {''host'', ''content-length'', ''connection''}" for n
    unfolding kept_def using that critical_names(4)
    by (intro named_kept) (auto simp: dropped_header_def Let_def)
  have inkept: "\<not> proxy_private (lower_ascii h) \<and> lower_ascii h \<notin> set tokens" if "(h, v) \<in> set kept" for h v
    using that kept_header unfolding kept_def by auto
  have lens: "h = str ''Content-Length''" if "(h, v) \<in> set len" for h v
    using that by (auto simp: len_def split: option.splits)
  have named: "named n = (if str ''host'' = str n then [(str ''Host'', authority)] else [])
      @ filter (\<lambda>(h, _). lower_ascii h = str n) kept @ filter (\<lambda>(h, _). lower_ascii h = str n) len
      @ (if str ''connection'' = str n then [(str ''Connection'', str ''close'')] else [])" for n
    by (simp add: named_def out lower_names)
  have l: "filter (\<lambda>(h, _). lower_ascii h = str n) len = (if str ''content-length'' = str n then len else [])" for n
    by (simp add: len_def lower_names split: option.split)
  have priv: "(h, v) = (str ''Connection'', str ''close'')" if "(h, v) \<in> set out" "proxy_private (lower_ascii h)" for h v
    using that inkept lens own_names_not_private lower_names unfolding out by auto
  have untold: "lower_ascii h \<notin> set tokens" if "(h, v) \<in> set out" for h v
    using that inkept lens free lower_names unfolding out by auto
  have sub: "subseq kept out" unfolding out by (intro list_emb_Cons prefix_imp_subseq prefixI[OF refl])
  show ?thesis
    unfolding tokens_def[symmetric] kept_def[symmetric] len_def[symmetric] named l
    using name_facts name_facts(1-3)[symmetric] k priv untold sub by auto
qed

definition sample_request :: parsed_request where
  "sample_request = \<lparr>rq_method = str ''GET'', rq_target = str ''http://a/'',
     rq_headers = [(str ''host'', str ''a''), (str ''Accept'', str ''x''), (str ''Connection'', str ''X-Hop''),
                   (str ''x-hop'', str ''1''), (str ''Via'', str ''me'')]\<rparr>"

theorem forwarded_headers_clean_witness:
  "sanitized_headers sample_request (str ''a:80'') (Some 0) =
     Inr [(str ''Host'', str ''a:80''), (str ''Accept'', str ''x''), (str ''Content-Length'', str ''0''), (str ''Connection'', str ''close'')]
   \<and> filter (\<lambda>(h, _). lower_ascii h = str ''host'')
       [(str ''Host'', str ''a:80''), (str ''Accept'', str ''x''), (str ''Content-Length'', str ''0''), (str ''Connection'', str ''close'')]
     = [(str ''Host'', str ''a:80'')]"
proof -
  let ?out = "[(str ''Host'', str ''a:80''), (str ''Accept'', str ''x''), (str ''Content-Length'', str ''0''), (str ''Connection'', str ''close'')]"
  have e: "sanitized_headers sample_request (str ''a:80'') (Some 0) = Inr ?out" by code_simp
  show ?thesis using forwarded_headers_clean[OF e] e by blast
qed

end
