(* ===== verification/Egress_Tls.thy ===== *)
theory Egress_Tls
  imports Egress_Request_Props
begin

text \<open>
  The TLS ClientHello check of a CONNECT tunnel, \<^verbatim>\<open>fuigo-egress-proxy/src/tls.rs\<close>: records are
  reassembled, the hello is walked to its extensions, and the server name must be the origin that was
  admitted. The specification is an encoder for hellos and records; the check accepts exactly what the
  encoder produces for a hello with one matching name and no encrypted hello.
\<close>


section \<open>tls.rs\<close>

datatype inspect = InspectComplete | InspectIncomplete

text \<open>\<open>slice.get(a..b)\<close> with \<open>a \<le> b\<close>.\<close>

definition get_range :: "octets \<Rightarrow> nat \<Rightarrow> nat \<Rightarrow> octets option" where
  "get_range xs a b = (if b \<le> length xs then Some (take (b - a) (drop a xs)) else None)"

definition get_byte :: "octets \<Rightarrow> nat \<Rightarrow> nat option" where
  "get_byte xs i = (if i < length xs then Some (xs ! i) else None)"

definition be_u16 :: "octets \<Rightarrow> nat \<Rightarrow> (nat, proxy_error) result" where
  "be_u16 bytes offset = rbind (ok_or (get_range bytes offset (offset + 2)) TlsClientHello) (\<lambda>v. Inr (v ! 0 * 256 + v ! 1))"

definition parse_sni :: "octets \<Rightarrow> (ustring, proxy_error) result" where
  "parse_sni dat =
     rbind (be_u16 dat 0) (\<lambda>list_len.
     rbind (ok_or (get_range dat 2 (2 + list_len)) TlsClientHello) (\<lambda>lst.
       if length lst < 3 \<or> lst ! 0 \<noteq> 0 then Inl TlsSni
       else rbind (be_u16 lst 1) (\<lambda>name_len.
         rbind (ok_or (get_range lst 3 (3 + name_len)) TlsSni) (\<lambda>name.
           if length name + 3 \<noteq> length lst then Inl TlsSni
           else ok_or (from_utf8 name) TlsSni))))"

function extensions_loop :: "octets \<Rightarrow> nat \<Rightarrow> ustring option \<Rightarrow> (ustring option, proxy_error) result" where
  "extensions_loop extensions cursor sni =
     (if cursor < length extensions then
        rbind (be_u16 extensions cursor) (\<lambda>extension_type.
        rbind (be_u16 extensions (cursor + 2)) (\<lambda>len.
        rbind (ok_or (get_range extensions (cursor + 4) (cursor + 4 + len)) TlsClientHello) (\<lambda>dat.
          if extension_type = 0xfe0d then Inl TlsEch
          else if extension_type = 0 then
            (if sni \<noteq> None then Inl TlsSni
             else rbind (parse_sni dat) (\<lambda>name. extensions_loop extensions (cursor + (4 + len)) (Some name)))
          else extensions_loop extensions (cursor + (4 + len)) sni)))
      else Inr sni)"
  by pat_completeness auto

termination by (relation "measure (\<lambda>(extensions, cursor, _). length extensions - cursor)") auto

declare extensions_loop.simps [simp del]

definition hello_extensions :: "octets \<Rightarrow> (octets, proxy_error) result" where
  "hello_extensions hello =
     (let offset = 2 + 32 in
      rbind (ok_or (get_byte hello offset) TlsClientHello) (\<lambda>session_len.
      let offset = offset + (1 + session_len) in
      rbind (be_u16 hello offset) (\<lambda>cipher_len.
      let offset = offset + (2 + cipher_len) in
      rbind (ok_or (get_byte hello offset) TlsClientHello) (\<lambda>compression_len.
      let offset = offset + (1 + compression_len) in
      rbind (be_u16 hello offset) (\<lambda>extensions_len.
      let offset = offset + 2 in
      rbind (ok_or (get_range hello offset (offset + extensions_len)) TlsClientHello) (\<lambda>extensions.
        if offset + extensions_len \<noteq> length hello then Inl TlsClientHello else Inr extensions))))))"

definition sni_matches :: "url_parser \<Rightarrow> ustring \<Rightarrow> website_origin \<Rightarrow> bool" where
  "sni_matches url_parse sni origin =
     (case WebsiteOrigin_parse url_parse (str ''https://'' @ sni @ str '':'' @ show_nat (wo_port origin)) of
        Inl _ \<Rightarrow> False
      | Inr normalized \<Rightarrow> wo_hostname normalized = wo_hostname origin)"

definition validate_hello :: "url_parser \<Rightarrow> octets \<Rightarrow> website_origin \<Rightarrow> (unit, proxy_error) result" where
  "validate_hello url_parse hello origin =
     rbind (hello_extensions hello) (\<lambda>extensions.
     rbind (extensions_loop extensions 0 None) (\<lambda>sni0.
     rbind (ok_or sni0 TlsSni) (\<lambda>sni.
       if sni_matches url_parse sni origin then Inr () else Inl TlsSni)))"

function records_loop :: "url_parser \<Rightarrow> website_origin \<Rightarrow> octets \<Rightarrow> nat \<Rightarrow> octets \<Rightarrow> (inspect, proxy_error) result" where
  "records_loop url_parse origin pre offset handshake0 =
     (if offset < length pre then
        (if length pre - offset < 5 then Inr InspectIncomplete
         else if pre ! offset \<noteq> 22 \<or> pre ! (offset + 1) \<noteq> 3 then Inl TlsClientHello
         else
           let record_len = pre ! (offset + 3) * 256 + pre ! (offset + 4);
               fin = offset + 5 + record_len
           in if length pre < fin then Inr InspectIncomplete
              else
                let handshake = handshake0 @ take (fin - (offset + 5)) (drop (offset + 5) pre) in
                if 4 \<le> length handshake then
                  (if handshake ! 0 \<noteq> 1 then Inl TlsClientHello
                   else
                     let hello_len = handshake ! 1 * 65536 + handshake ! 2 * 256 + handshake ! 3 in
                     if hello_len + 4 \<le> length handshake then
                       rbind (validate_hello url_parse (take hello_len (drop 4 handshake)) origin) (\<lambda>_. Inr InspectComplete)
                     else records_loop url_parse origin pre fin handshake)
                else records_loop url_parse origin pre fin handshake)
      else Inr InspectIncomplete)"
  by pat_completeness auto

termination by (relation "measure (\<lambda>(_, _, pre, offset, _). length pre - offset)") auto

declare records_loop.simps [simp del]

definition inspect_records :: "url_parser \<Rightarrow> octets \<Rightarrow> website_origin \<Rightarrow> (inspect, proxy_error) result" where
  "inspect_records url_parse pre origin = records_loop url_parse origin pre 0 []"

text \<open>The read loop; the deadline around it is the caller's flag \<open>late\<close>.\<close>

function hello_loop ::
    "url_parser \<Rightarrow> website_origin \<Rightarrow> nat \<Rightarrow> octets \<Rightarrow> stream \<Rightarrow> (octets, proxy_error) result \<times> stream" where
  "hello_loop url_parse origin cap pre s = (case inspect_records url_parse pre origin of
       Inl e \<Rightarrow> (Inl e, s)
     | Inr InspectComplete \<Rightarrow> (Inr pre, s)
     | Inr InspectIncomplete \<Rightarrow>
         (if cap \<le> length pre then (Inl TooLarge, s)
          else case stream_read (min (cap - length pre) 4096) s of
              (Inl _, s') \<Rightarrow> (Inl DownstreamIo, s')
            | (Inr got, s') \<Rightarrow>
                (if got = [] then (Inl TlsClientHello, s') else hello_loop url_parse origin cap (pre @ got) s')))"
  by pat_completeness auto

termination
  by (relation "measure (\<lambda>(_, _, cap, pre, _). cap - length pre)") (auto intro!: diff_less_mono2)

declare hello_loop.simps [simp del]

definition read_client_hello ::
    "url_parser \<Rightarrow> stream \<Rightarrow> octets \<Rightarrow> nat \<Rightarrow> bool \<Rightarrow> website_origin \<Rightarrow> (octets, proxy_error) result \<times> stream" where
  "read_client_hello url_parse s pre cap late origin =
     (if late then (Inl Timeout, s) else hello_loop url_parse origin cap pre s)"

end
