(* ===== verification/Egress_Server.thy ===== *)
theory Egress_Server
  imports Egress_Addr Egress_Tls Egress_Admit
begin

text \<open>
  One connection through the proxy, from its first byte to its end: \<^verbatim>\<open>server.rs\<close> (authentication and
  dispatch), \<^verbatim>\<open>http.rs\<close> (plain requests), \<^verbatim>\<open>connect.rs\<close> (tunnels), the address check of \<^verbatim>\<open>lib.rs\<close> and the
  error paths of \<^verbatim>\<open>error.rs\<close>. The state is what has been read from and written to the two sides; DNS, the
  network, the deadlines and the decider are the environment.
\<close>


section \<open>Outcomes\<close>

datatype proxy_outcome =
  OutOk | OutMalformed | OutUnauthenticated | OutPolicyDenied | OutAddressDenied | OutDnsFailed | OutConnectFailed
  | OutTimeout | OutOverloaded | OutTlsDenied | OutHoldTimeout | OutAbandoned

definition outcome_of :: "proxy_error \<Rightarrow> proxy_outcome" where
  "outcome_of e = (case e of
       Authentication \<Rightarrow> OutUnauthenticated | PolicyDenied \<Rightarrow> OutPolicyDenied | HoldTimeout \<Rightarrow> OutHoldTimeout
     | ClientGone \<Rightarrow> OutAbandoned | AddressDenied \<Rightarrow> OutAddressDenied | Dns \<Rightarrow> OutDnsFailed | Connect \<Rightarrow> OutConnectFailed
     | Timeout \<Rightarrow> OutTimeout | Overloaded \<Rightarrow> OutOverloaded
     | TlsClientHello \<Rightarrow> OutTlsDenied | TlsSni \<Rightarrow> OutTlsDenied | TlsEch \<Rightarrow> OutTlsDenied
     | InvalidOptions \<Rightarrow> OutMalformed | Malformed \<Rightarrow> OutMalformed | TooLarge \<Rightarrow> OutMalformed
     | BodyUnsupported \<Rightarrow> OutMalformed | DownstreamIo \<Rightarrow> OutMalformed | ShutdownTimeout \<Rightarrow> OutTimeout)"

datatype connection_error = Precommit proxy_error | Committed proxy_error

definition from_admit :: "proxy_error \<Rightarrow> connection_error" where
  "from_admit e = (if e = ClientGone then Committed e else Precommit e)"

text \<open>\<open>ProxyMetrics\<close>: one wrapping 64-bit counter for each outcome.\<close>

type_synonym metrics = "proxy_outcome \<Rightarrow> nat"

definition metrics_record :: "proxy_outcome \<Rightarrow> metrics \<Rightarrow> metrics" where
  "metrics_record out m = m(out := (m out + 1) mod 2 ^ 64)"


section \<open>State and environment\<close>

text \<open>\<open>String::as_bytes\<close>.\<close>

definition utf8_char :: "nat \<Rightarrow> octets" where
  "utf8_char c =
     (if c < 0x80 then [c]
      else if c < 0x800 then [0xC0 + c div 64, 0x80 + c mod 64]
      else if c < 0x10000 then [0xE0 + c div 4096, 0x80 + c div 64 mod 64, 0x80 + c mod 64]
      else [0xF0 + c div 262144, 0x80 + c div 4096 mod 64, 0x80 + c div 64 mod 64, 0x80 + c mod 64])"

definition as_bytes :: "ustring \<Rightarrow> octets" where
  "as_bytes s = concat (map utf8_char s)"

type_synonym socket_addr = "ip_addr \<times> nat"

text \<open>
  How tokio's \<open>copy_bidirectional\<close> ends: both directions have reached their end, or an error broke it off after
  so many bytes from the client and so many from the upstream.
\<close>

datatype relay_end = RelayClosed | RelayUnexpectedEof nat nat | RelayFailed nat nat

record proxy_env =
  px_url :: url_parser
  px_http_request :: request_parser
  px_http_response :: response_parser
  px_b64 :: "ustring \<Rightarrow> octets option"
  px_credentials :: credential_registry
  px_admits_unauthenticated :: bool
  px_admit :: admit_env
  px_resolve :: "ustring \<Rightarrow> nat \<Rightarrow> socket_addr list option option"   \<comment> \<open>\<open>None\<close>: too late; \<open>Some None\<close>: failed\<close>
  px_connect :: "socket_addr list \<Rightarrow> stream option option"   \<comment> \<open>what the upstream will send\<close>
  px_relay :: relay_end
  px_max_header_bytes :: nat
  px_max_headers :: nat
  px_max_tls_client_hello_bytes :: nat
  px_head_late :: bool
  px_hello_late :: bool
  px_response_late :: bool
  px_copy_late :: "nat option"   \<comment> \<open>\<open>Some n\<close>: the deadline passes after \<open>n\<close> reads of the body\<close>
  px_client_room :: "nat option"   \<comment> \<open>\<open>Some n\<close>: the client takes \<open>n\<close> bytes, and then writes fail\<close>
  px_upstream_room :: "nat option"

record wire =
  wr_client :: stream
  wr_upstream :: stream
  wr_connected :: "socket_addr list option"
  wr_to_upstream :: octets
  wr_to_client :: octets
  wr_tunnel :: bool
  wr_holds :: hold_state
  wr_metrics :: metrics

definition resolve_public :: "proxy_env \<Rightarrow> website_origin \<Rightarrow> (socket_addr list, proxy_error) result" where
  "resolve_public x origin = (case px_resolve x (wo_hostname origin) (wo_port origin) of
       None \<Rightarrow> Inl Timeout
     | Some None \<Rightarrow> Inl Dns
     | Some (Some addresses) \<Rightarrow>
         (if addresses = [] then Inl Dns
          else if list_ex (\<lambda>a. \<not> is_public_ip (fst a)) addresses then Inl AddressDenied
          else Inr addresses))"

definition connect_addresses :: "proxy_env \<Rightarrow> socket_addr list \<Rightarrow> wire \<Rightarrow> (unit, proxy_error) result \<times> wire" where
  "connect_addresses x addresses w =
     (let w1 = w\<lparr>wr_connected := Some addresses\<rparr> in
      case px_connect x addresses of
        None \<Rightarrow> (Inl Timeout, w1)
      | Some None \<Rightarrow> (Inl Connect, w1)
      | Some (Some upstream) \<Rightarrow> (Inr (), w1\<lparr>wr_upstream := upstream\<rparr>))"

text \<open>\<open>write_all\<close> on a peer that takes \<open>room\<close> bytes in all: what it had room for is delivered before the error.\<close>

definition write_all :: "nat option \<Rightarrow> octets \<Rightarrow> octets \<Rightarrow> bool \<times> octets" where
  "write_all room sent bytes = (case room of
       None \<Rightarrow> (True, sent @ bytes)
     | Some n \<Rightarrow> (length (sent @ bytes) \<le> n, sent @ take (n - length sent) bytes))"

definition write_committed :: "proxy_env \<Rightarrow> octets \<Rightarrow> wire \<Rightarrow> (unit, connection_error) result \<times> wire" where
  "write_committed x bytes w =
     (let (ok, sent) = write_all (px_client_room x) (wr_to_client w) bytes
      in (if ok then Inr () else Inl (Committed DownstreamIo), w\<lparr>wr_to_client := sent\<rparr>))"

definition write_upstream :: "proxy_env \<Rightarrow> octets \<Rightarrow> wire \<Rightarrow> (unit, proxy_error) result \<times> wire" where
  "write_upstream x bytes w =
     (let (ok, sent) = write_all (px_upstream_room x) (wr_to_upstream w) bytes
      in (if ok then Inr () else Inl Connect, w\<lparr>wr_to_upstream := sent\<rparr>))"

definition record_metric :: "proxy_outcome \<Rightarrow> wire \<Rightarrow> wire" where
  "record_metric out w = w\<lparr>wr_metrics := metrics_record out (wr_metrics w)\<rparr>"

text \<open>While a request is held its client is read by \<open>hold\<close>: those bytes come with the events of \<open>px_admit\<close>,
  and \<open>wr_client\<close> is what arrives after the decision.\<close>

definition admit_wire :: "proxy_env \<Rightarrow> website_origin \<Rightarrow> command_tag option \<Rightarrow> octets \<Rightarrow> wire \<Rightarrow> (unit, proxy_error) result \<times> octets \<times> wire" where
  "admit_wire x origin call buffered w =
     (let (r, buffered', st) = admit_origin (px_admit x) origin call buffered (wr_holds w)
      in (r, buffered', w\<lparr>wr_holds := st\<rparr>))"


section \<open>Plain requests\<close>

definition header_line :: "header \<Rightarrow> ustring" where
  "header_line h = fst h @ str '': '' @ snd h @ [13, 10]"

fun outbound_loop :: "nat \<Rightarrow> header list \<Rightarrow> ustring \<Rightarrow> (ustring, proxy_error) result" where
  "outbound_loop cap [] out = Inr out"
| "outbound_loop cap (h # hs) out =
     (let out' = out @ header_line h in if cap < str_len out' then Inl TooLarge else outbound_loop cap hs out')"

function copy_exact :: "proxy_env \<Rightarrow> nat option \<Rightarrow> nat \<Rightarrow> wire \<Rightarrow> (unit, connection_error) result \<times> wire" where
  "copy_exact x late remaining w =
     (if remaining = 0 then (Inr (), w)
      else if late = Some 0 then (Inl (Committed Timeout), w)
      else
        (let limit = min remaining 16384; (got, up) = stream_read limit (wr_upstream w); w1 = w\<lparr>wr_upstream := up\<rparr> in
         case got of
           Inl _ \<Rightarrow> (Inl (Committed Connect), w1)
         | Inr bytes \<Rightarrow>
             (if bytes = [] then (Inl (Committed Connect), w1)
              else case write_committed x bytes w1 of
                  (Inl e, w2) \<Rightarrow> (Inl e, w2)
                | (Inr _, w2) \<Rightarrow> copy_exact x (map_option (\<lambda>n. n - 1) late) (remaining - length bytes) w2)))"
  by pat_completeness auto

termination
  by (relation "measure (\<lambda>(_, _, remaining, _). remaining)") (auto intro!: diff_less)

declare copy_exact.simps [simp del]

definition response_head :: "parsed_response \<Rightarrow> header list \<Rightarrow> ustring" where
  "response_head r headers =
     str ''HTTP/1.1 '' @ show_nat (rp_status r) @ str '' '' @ rp_reason r @ [13, 10] @ concat (map header_line headers) @ [13, 10]"

definition forward_response :: "proxy_env \<Rightarrow> ustring \<Rightarrow> wire \<Rightarrow> (unit, connection_error) result \<times> wire" where
  "forward_response x request_method w =
     (if px_response_late x then (Inl (Precommit Timeout), w)
      else
        let (read, up) = read_head (px_max_header_bytes x) (wr_upstream w); w1 = w\<lparr>wr_upstream := up\<rparr> in
        case read of
          Inl _ \<Rightarrow> (Inl (Precommit Connect), w1)
        | Inr (head, buffered) \<Rightarrow>
            (case rbind (ParsedResponse_parse (px_http_response x) head (px_max_headers x)) (\<lambda>response.
                    rbind (body_mode response request_method (buffered \<noteq> [])) (\<lambda>body.
                      rbind (response_headers response body) (\<lambda>headers. Inr (response, body, headers)))) of
               Inl e \<Rightarrow> (Inl (Precommit e), w1)
             | Inr (response, body, headers) \<Rightarrow>
                 (case write_committed x (as_bytes (response_head response headers)) w1 of
                    (Inl e, w2) \<Rightarrow> (Inl e, w2)
                  | (Inr _, w2) \<Rightarrow>
                      (case body of
                         BodyNone _ \<Rightarrow> (Inr (), record_metric OutOk w2)
                       | BodyReset False \<Rightarrow> (Inr (), record_metric OutOk w2)
                       | BodyReset True \<Rightarrow> (Inl (Committed Connect), w2)
                       | BodyLength len \<Rightarrow>
                           (if len < length buffered then (Inl (Committed Malformed), w2)
                            else case write_committed x buffered w2 of
                                (Inl e, w3) \<Rightarrow> (Inl e, w3)
                              | (Inr _, w3) \<Rightarrow>
                                  (case copy_exact x (px_copy_late x) (len - length buffered) w3 of
                                     (Inl e, w4) \<Rightarrow> (Inl e, w4)
                                   | (Inr _, w4) \<Rightarrow> (Inr (), record_metric OutOk w4)))))))"

text \<open>What a request must satisfy before it may be admitted: its authority, target and framing.\<close>

definition http_request_origin ::
    "proxy_env \<Rightarrow> parsed_request \<Rightarrow> octets \<Rightarrow> (ustring \<times> ustring \<times> website_origin \<times> nat option, proxy_error) result" where
  "http_request_origin x request buffered =
     rbind (parse_http_target (px_url x) (rq_target request)) (\<lambda>(authority, target).
     rbind (map_err (\<lambda>_. Malformed) (WebsiteOrigin_parse (px_url x) (str ''http://'' @ authority))) (\<lambda>origin.
     rbind (single_header Malformed (rq_headers request) (str ''host'')) (\<lambda>host0.
     rbind (ok_or host0 Malformed) (\<lambda>host.
     rbind (normalize_authority (px_url x) host (str ''http'')) (\<lambda>host_authority.
       if host_authority \<noteq> authority then Inl Malformed
       else rbind (framing request) (\<lambda>content_length.
         if (case content_length of Some n \<Rightarrow> 0 < n | None \<Rightarrow> False) then Inl BodyUnsupported
         else if buffered \<noteq> [] then Inl Malformed
         else Inr (authority, target, origin, content_length)))))))"

definition request_head :: "parsed_request \<Rightarrow> ustring \<Rightarrow> ustring" where
  "request_head request target = rq_method request @ str '' '' @ target @ str '' HTTP/1.1'' @ [13, 10]"

definition http_handle :: "proxy_env \<Rightarrow> parsed_request \<Rightarrow> octets \<Rightarrow> command_tag option \<Rightarrow> wire \<Rightarrow> (unit, connection_error) result \<times> wire" where
  "http_handle x request buffered call w = (case http_request_origin x request buffered of
       Inl e \<Rightarrow> (Inl (Precommit e), w)
     | Inr (authority, target, origin, content_length) \<Rightarrow>
         (case admit_wire x origin call buffered w of
            (Inl e, _, w1) \<Rightarrow> (Inl (from_admit e), w1)
          | (Inr _, buffered', w1) \<Rightarrow>
              (if buffered' \<noteq> [] then (Inl (Precommit Malformed), w1)
               else case resolve_public x origin of
                   Inl e \<Rightarrow> (Inl (Precommit e), w1)
                 | Inr addresses \<Rightarrow>
                     (case connect_addresses x addresses w1 of
                        (Inl e, w2) \<Rightarrow> (Inl (Precommit e), w2)
                      | (Inr _, w2) \<Rightarrow>
                          (case rbind (sanitized_headers request authority content_length) (\<lambda>headers.
                                  outbound_loop (px_max_header_bytes x) headers (request_head request target)) of
                             Inl e \<Rightarrow> (Inl (Precommit e), w2)
                           | Inr out \<Rightarrow>
                               (case write_upstream x (as_bytes (out @ [13, 10])) w2 of
                                  (Inl e, w3) \<Rightarrow> (Inl (Precommit e), w3)
                                | (Inr _, w3) \<Rightarrow> forward_response x (rq_method request) w3))))))"


section \<open>Tunnels\<close>

definition connect_request_origin :: "proxy_env \<Rightarrow> parsed_request \<Rightarrow> (website_origin, proxy_error) result" where
  "connect_request_origin x request =
     rbind (framing request) (\<lambda>len.
       if len \<noteq> None then Inl Malformed
       else rbind (strict_connect_authority (px_url x) (rq_target request)) (\<lambda>authority.
         rbind (single_header Malformed (rq_headers request) (str ''host'')) (\<lambda>host0.
           rbind (case host0 of None \<Rightarrow> Inr authority | Some host \<Rightarrow> strict_connect_authority (px_url x) host) (\<lambda>host_authority.
             if host_authority \<noteq> authority then Inl Malformed
             else map_err (\<lambda>_. Malformed) (WebsiteOrigin_parse (px_url x) (str ''https://'' @ authority))))))"

definition established :: octets where
  "established = str ''HTTP/1.1 200 Connection Established'' @ [13, 10, 13, 10]"

text \<open>
  The relay after the ClientHello: bytes of either side go to the other as they are, in their order. It fails
  on an error of the environment's, on a stream that fails and on a peer that stops taking bytes.
\<close>

definition relay_bytes :: "relay_end \<Rightarrow> stream \<Rightarrow> stream \<Rightarrow> bool \<times> octets \<times> octets" where
  "relay_bytes e client upstream = (case e of
       RelayClosed \<Rightarrow> (ends_cleanly client \<and> ends_cleanly upstream, data client, data upstream)
     | RelayUnexpectedEof n m \<Rightarrow> (True, take n (data client), take m (data upstream))
     | RelayFailed n m \<Rightarrow> (False, take n (data client), take m (data upstream)))"

definition relay_tunnel :: "proxy_env \<Rightarrow> wire \<Rightarrow> (unit, connection_error) result \<times> wire" where
  "relay_tunnel x w =
     (let (ended, up, down) = relay_bytes (px_relay x) (wr_client w) (wr_upstream w);
          (sent_up, w1) = write_upstream x up (w\<lparr>wr_tunnel := True, wr_client := [], wr_upstream := []\<rparr>);
          (sent_down, w2) = write_committed x down w1
      in if ended \<and> sent_up = Inr () \<and> sent_down = Inr () then (Inr (), record_metric OutOk w2)
         else (Inl (Committed Connect), w2))"

definition connect_handle :: "proxy_env \<Rightarrow> parsed_request \<Rightarrow> octets \<Rightarrow> command_tag option \<Rightarrow> wire \<Rightarrow> (unit, connection_error) result \<times> wire" where
  "connect_handle x request buffered call w = (case connect_request_origin x request of
       Inl e \<Rightarrow> (Inl (Precommit e), w)
     | Inr origin \<Rightarrow>
         (case admit_wire x origin call buffered w of
            (Inl e, _, w1) \<Rightarrow> (Inl (from_admit e), w1)
          | (Inr _, buffered', w1) \<Rightarrow>
              (case resolve_public x origin of
                 Inl e \<Rightarrow> (Inl (Precommit e), w1)
               | Inr addresses \<Rightarrow>
                   (case connect_addresses x addresses w1 of
                      (Inl e, w2) \<Rightarrow> (Inl (Precommit e), w2)
                    | (Inr _, w2) \<Rightarrow>
                        (case write_committed x established w2 of
                           (Inl e, w3) \<Rightarrow> (Inl e, w3)
                         | (Inr _, w3) \<Rightarrow>
                             (case read_client_hello (px_url x) (wr_client w3) buffered' (px_max_tls_client_hello_bytes x)
                                     (px_hello_late x) origin of
                                (Inl e, s) \<Rightarrow> (Inl (Committed e), w3\<lparr>wr_client := s\<rparr>)
                              | (Inr pre, s) \<Rightarrow>
                                  (case write_upstream x pre (w3\<lparr>wr_client := s\<rparr>) of
                                     (Inl e, w4) \<Rightarrow> (Inl (Committed e), w4)
                                   | (Inr _, w4) \<Rightarrow> relay_tunnel x w4)))))))"


section \<open>A connection\<close>

definition authenticate_request :: "proxy_env \<Rightarrow> parsed_request \<Rightarrow> (command_tag option, proxy_error) result" where
  "authenticate_request x request =
     rbind (single_header Malformed (rq_headers request) (str ''proxy-authorization'')) (\<lambda>header0.
       case rbind (ok_or header0 Authentication) (authenticate (px_b64 x) (px_credentials x)) of
         Inl Authentication \<Rightarrow> (if px_admits_unauthenticated x then Inr None else Inl Authentication)
       | other \<Rightarrow> other)"

definition handle_connection :: "proxy_env \<Rightarrow> wire \<Rightarrow> (unit, connection_error) result \<times> wire" where
  "handle_connection x w =
     (if px_head_late x then (Inl (Precommit Timeout), w)
      else
        let (read, s) = read_head (px_max_header_bytes x) (wr_client w); w1 = w\<lparr>wr_client := s\<rparr> in
        case rbind read (\<lambda>(head, buffered).
               rbind (ParsedRequest_parse (px_http_request x) head (px_max_headers x)) (\<lambda>request.
                 rbind (authenticate_request x request) (\<lambda>call. Inr (request, buffered, call)))) of
          Inl e \<Rightarrow> (Inl (Precommit e), w1)
        | Inr (request, buffered, call) \<Rightarrow>
            (if eq_ignore_ascii_case (rq_method request) (str ''CONNECT'') then connect_handle x request buffered call w1
             else if eq_ignore_ascii_case (rq_method request) (str ''TRACE'') then (Inl (Precommit Malformed), w1)
             else http_handle x request buffered call w1))"

definition write_error :: "proxy_env \<Rightarrow> proxy_error \<Rightarrow> wire \<Rightarrow> wire" where
  "write_error x e w =
     (let (status, reason) = error_status e;
          auth = (if status = 407 then str ''Proxy-Authenticate: Basic realm=\"fuigo-egress\", Bearer'' @ [13, 10] else []);
          body = str reason @ [10];
          response = str ''HTTP/1.1 '' @ show_nat status @ str '' '' @ str reason @ [13, 10] @ auth
            @ str ''Content-Type: text/plain'' @ [13, 10] @ str ''Content-Length: '' @ show_nat (length body) @ [13, 10]
            @ str ''Connection: close'' @ [13, 10, 13, 10] @ body
      in snd (write_committed x response w))"

definition serve_connection :: "proxy_env \<Rightarrow> wire \<Rightarrow> wire" where
  "serve_connection x w = (case handle_connection x w of
       (Inr _, w1) \<Rightarrow> w1
     | (Inl (Precommit e), w1) \<Rightarrow> write_error x e (record_metric (outcome_of e) w1)
     | (Inl (Committed e), w1) \<Rightarrow> record_metric (outcome_of e) w1)"


section \<open>The accept loop\<close>

text \<open>The loop's own state: the semaphore, the tasks it spawned (running, or ended and not yet joined), the
  connections it turned away with what they were sent, and whether holds have been told to stop.\<close>

datatype shutdown_mode = Drain | Abort

record server =
  sv_permits :: nat
  sv_running :: nat
  sv_ended :: nat
  sv_refused :: "wire list"
  sv_metrics :: metrics
  sv_stopping :: bool
  sv_mode :: "shutdown_mode option"   \<comment> \<open>\<open>None\<close> while the loop accepts\<close>

definition server_new :: "nat \<Rightarrow> metrics \<Rightarrow> server" where
  "server_new max_connections m =
     \<lparr>sv_permits = max_connections, sv_running = 0, sv_ended = 0, sv_refused = [], sv_metrics = m,
      sv_stopping = False, sv_mode = None\<rparr>"

datatype serve_event =
    ShutdownMessage "shutdown_mode option"   \<comment> \<open>\<open>None\<close>: every sender is gone\<close>
  | AcceptFailed
  | AcceptedFrom bool wire   \<comment> \<open>whether the peer is a loopback address, and its stream\<close>
  | TaskEnds
  | TaskJoined

definition admit_connection :: "proxy_env \<Rightarrow> wire \<Rightarrow> server \<Rightarrow> server" where
  "admit_connection x w sv =
     (if 0 < sv_permits sv then sv\<lparr>sv_permits := sv_permits sv - 1, sv_running := sv_running sv + 1\<rparr>
      else sv\<lparr>sv_metrics := metrics_record OutOverloaded (sv_metrics sv),
              sv_refused := sv_refused sv @ [write_error x Overloaded w]\<rparr>)"

definition serve_stop :: "shutdown_mode \<Rightarrow> server \<Rightarrow> server" where
  "serve_stop mode sv =
     (let sv1 = sv\<lparr>sv_stopping := True, sv_mode := Some mode\<rparr> in
      case mode of
        Drain \<Rightarrow> sv1
      | Abort \<Rightarrow> sv1\<lparr>sv_permits := sv_permits sv + sv_running sv, sv_running := 0, sv_ended := 0\<rparr>)"

text \<open>A task gives its permit back when it ends, before the loop joins it. Once the loop is left, only tasks
  still end and are joined.\<close>

definition serve_step :: "proxy_env \<Rightarrow> serve_event \<Rightarrow> server \<Rightarrow> server" where
  "serve_step x e sv = (case e of
       TaskEnds \<Rightarrow> (if 0 < sv_running sv
         then sv\<lparr>sv_permits := sv_permits sv + 1, sv_running := sv_running sv - 1, sv_ended := sv_ended sv + 1\<rparr> else sv)
     | TaskJoined \<Rightarrow> sv\<lparr>sv_ended := sv_ended sv - 1\<rparr>
     | ShutdownMessage mode \<Rightarrow>
         (if sv_mode sv = None then serve_stop (case mode of Some m \<Rightarrow> m | None \<Rightarrow> Abort) sv else sv)
     | AcceptFailed \<Rightarrow> (if sv_mode sv = None then serve_stop Abort sv else sv)
     | AcceptedFrom loopback w \<Rightarrow>
         (if sv_mode sv \<noteq> None \<or> \<not> loopback then sv else admit_connection x w sv))"

end
