(* ===== verification/Egress_Tls_Props.thy ===== *)
theory Egress_Tls_Props
  imports Egress_Tls
begin

text \<open>
  The ClientHello check against an encoder: the hellos it accepts are the encodings of hellos with exactly
  one server name that normalizes to the admitted host and no encrypted hello, however the handshake is
  split into records.
\<close>


section \<open>Encodings\<close>

abbreviation octet_list :: "octets \<Rightarrow> bool" where
  "octet_list xs \<equiv> \<forall>b \<in> set xs. b < 256"

definition be16 :: "nat \<Rightarrow> octets" where
  "be16 n = [n div 256, n mod 256]"

record client_hello =
  hl_head :: octets            \<comment> \<open>version and random\<close>
  hl_session :: octets
  hl_ciphers :: octets
  hl_compression :: octets
  hl_extensions :: "(nat \<times> octets) list"

definition encode_extensions :: "(nat \<times> octets) list \<Rightarrow> octets" where
  "encode_extensions es = concat (map (\<lambda>(t, d). be16 t @ be16 (length d) @ d) es)"

definition encode_hello :: "client_hello \<Rightarrow> octets" where
  "encode_hello h = hl_head h @ [length (hl_session h)] @ hl_session h
     @ be16 (length (hl_ciphers h)) @ hl_ciphers h @ [length (hl_compression h)] @ hl_compression h
     @ be16 (length (encode_extensions (hl_extensions h))) @ encode_extensions (hl_extensions h)"

text \<open>The body of the server name extension; bytes after the list are ignored.\<close>

definition sni_body :: "octets \<Rightarrow> octets \<Rightarrow> octets" where
  "sni_body name rest = be16 (length name + 3) @ 0 # be16 (length name) @ name @ rest"

definition names_origin :: "url_parser \<Rightarrow> website_origin \<Rightarrow> client_hello \<Rightarrow> bool" where
  "names_origin url_parse origin h \<longleftrightarrow>
     (\<forall>e \<in> set (hl_extensions h). fst e \<noteq> 0xfe0d)
     \<and> (\<exists>name rest sni. map snd (filter (\<lambda>e. fst e = 0) (hl_extensions h)) = [sni_body name rest]
          \<and> from_utf8 name = Some sni \<and> sni_matches url_parse sni origin)"

definition encode_record :: "nat \<Rightarrow> octets \<Rightarrow> octets" where
  "encode_record minor payload = [22, 3, minor] @ be16 (length payload) @ payload"

definition encode_records :: "(nat \<times> octets) list \<Rightarrow> octets" where
  "encode_records rs = concat (map (\<lambda>(m, p). encode_record m p) rs)"

definition handshake_of :: "octets \<Rightarrow> octets" where
  "handshake_of hello = [1, length hello div 65536, length hello div 256 mod 256, length hello mod 256] @ hello"


section \<open>Slices\<close>

lemma length_be16 [simp]: "length (be16 n) = 2"
  by (simp add: be16_def)

lemma be_u16_iff: "be_u16 xs i = Inr n \<longleftrightarrow> i + 2 \<le> length xs \<and> n = xs ! i * 256 + xs ! (i + 1)"
  by (auto simp: be_u16_def get_range_def ok_or_def split: option.splits)

lemma drop_be16:
  assumes "be_u16 xs i = Inr n" "octet_list xs"
  shows "drop i xs = be16 n @ drop (i + 2) xs \<and> n < 65536"
proof -
  have i: "i + 2 \<le> length xs" "n = xs ! i * 256 + xs ! (i + 1)" using assms(1) by (simp_all add: be_u16_iff)
  then have b: "xs ! i < 256" "xs ! (i + 1) < 256" using assms(2) by simp_all
  have "drop i xs = xs ! i # xs ! (i + 1) # drop (i + 2) xs"
    using i(1) by (metis Cons_nth_drop_Suc Suc_eq_plus1 Suc_le_lessD add_2_eq_Suc' less_imp_le_nat not_less_eq_eq)
  moreover have "be16 n = [xs ! i, xs ! (i + 1)]" using b by (simp add: be16_def i(2))
  ultimately show ?thesis using b i(2) by simp
qed

lemma drop_byte: "get_byte xs i = Some b \<Longrightarrow> drop i xs = b # drop (i + 1) xs"
  by (auto simp: get_byte_def Cons_nth_drop_Suc split: if_splits)

lemma drop_range:
  "get_range xs i (i + n) = Some ys \<Longrightarrow> drop i xs = ys @ drop (i + n) xs \<and> length ys = n"
  by (auto simp: get_range_def split: if_splits) (metis append_take_drop_id drop_drop add.commute)

lemma be_u16_append: "n < 65536 \<Longrightarrow> be_u16 (xs @ be16 n @ ys) (length xs) = Inr n"
  by (simp add: be_u16_iff be16_def nth_append)

lemma get_range_append: "get_range (xs @ ys @ zs) (length xs) (length xs + length ys) = Some ys"
  by (simp add: get_range_def)

lemma get_byte_append: "get_byte (xs @ b # ys) (length xs) = Some b"
  by (simp add: get_byte_def)


section \<open>Server names\<close>

lemma parse_sni_iff:
  assumes "octet_list dat"
  shows "parse_sni dat = Inr sni \<longleftrightarrow> (\<exists>name rest. dat = sni_body name rest \<and> length name + 3 < 65536 \<and> from_utf8 name = Some sni)"
proof
  assume "parse_sni dat = Inr sni"
  then obtain ll lst nl name where
    l: "be_u16 dat 0 = Inr ll" "get_range dat 2 (2 + ll) = Some lst" "\<not> (length lst < 3 \<or> lst ! 0 \<noteq> 0)"
    and n: "be_u16 lst 1 = Inr nl" "get_range lst 3 (3 + nl) = Some name" "length name + 3 = length lst" "from_utf8 name = Some sni"
    by (auto simp: parse_sni_def res_simps split: if_splits)
  have dat: "dat = be16 ll @ drop 2 dat" "ll < 65536" using drop_be16[OF l(1) assms] by (auto simp: numeral_2_eq_2)
  have lst: "drop 2 dat = lst @ drop (2 + ll) dat" "length lst = ll" using drop_range[OF l(2)] by simp_all
  have "set lst \<subseteq> set dat" using lst(1) by (metis set_append set_drop_subset sup.bounded_iff)
  with assms have ol: "octet_list lst" by blast
  have "lst = 0 # drop 1 lst" using l(3) by (cases lst) auto
  also have "drop 1 lst = be16 nl @ drop 3 lst" using drop_be16[OF n(1) ol] by (simp add: numeral_3_eq_3)
  also have "drop 3 lst = name" using drop_range[OF n(2)] n(3) by auto
  finally have "lst = 0 # be16 nl @ name" .
  moreover have "nl = length name" using drop_range[OF n(2)] by simp
  ultimately have "dat = sni_body name (drop (2 + ll) dat)"
    using dat lst n(3) unfolding sni_body_def by (metis append_Cons append_assoc)
  moreover have "length name + 3 < 65536" using n(3) lst(2) dat(2) by linarith
  ultimately show "\<exists>name rest. dat = sni_body name rest \<and> length name + 3 < 65536 \<and> from_utf8 name = Some sni"
    using n(4) by blast
next
  assume "\<exists>name rest. dat = sni_body name rest \<and> length name + 3 < 65536 \<and> from_utf8 name = Some sni"
  then obtain name rest where d: "dat = be16 (length name + 3) @ (0 # be16 (length name) @ name) @ rest"
    and n: "length name + 3 < 65536" "from_utf8 name = Some sni" by (auto simp: sni_body_def)
  let ?l = "0 # be16 (length name) @ name"
  have "be_u16 dat 0 = Inr (length name + 3)" using be_u16_append[of "length name + 3" "[]"] n(1) d by simp
  moreover have "get_range dat 2 (2 + (length name + 3)) = Some ?l"
    by (simp add: d get_range_def be16_def take_Cons')
  moreover have "be_u16 ?l 1 = Inr (length name)" using be_u16_append[of "length name" "[0]" name] n(1) by simp
  moreover have "get_range ?l 3 (3 + length name) = Some name"
    by (simp add: get_range_def be16_def)
  ultimately show "parse_sni dat = Inr sni" by (simp add: parse_sni_def n(2) be16_def)
qed


section \<open>Extensions\<close>

fun walk_extensions :: "(nat \<times> octets) list \<Rightarrow> ustring option \<Rightarrow> (ustring option, proxy_error) result" where
  "walk_extensions [] sni = Inr sni"
| "walk_extensions ((t, d) # es) sni =
     (if t = 0xfe0d then Inl TlsEch
      else if t = 0 then (if sni \<noteq> None then Inl TlsSni else rbind (parse_sni d) (\<lambda>name. walk_extensions es (Some name)))
      else walk_extensions es sni)"

definition exts_ok :: "(nat \<times> octets) list \<Rightarrow> bool" where
  "exts_ok es \<longleftrightarrow> (\<forall>(t, d) \<in> set es. t < 65536 \<and> length d < 65536)"

lemma extensions_loop_encode:
  "exts_ok es \<Longrightarrow> extensions_loop (pre @ encode_extensions es) (length pre) sni = walk_extensions es sni"
proof (induction es arbitrary: pre sni)
  case Nil
  then show ?case by (subst extensions_loop.simps) (simp add: encode_extensions_def)
next
  case (Cons e es)
  obtain t d where e: "e = (t, d)" by (cases e)
  let ?pre = "pre @ be16 t @ be16 (length d) @ d"
  have enc: "pre @ encode_extensions (e # es) = ?pre @ encode_extensions es" by (simp add: encode_extensions_def e)
  have ok: "t < 65536" "length d < 65536" "exts_ok es" using Cons.prems by (auto simp: exts_ok_def e)
  have t: "be_u16 (?pre @ encode_extensions es) (length pre) = Inr t"
    using be_u16_append[OF ok(1), of pre "be16 (length d) @ d @ encode_extensions es"] by simp
  have l: "be_u16 (?pre @ encode_extensions es) (length pre + 2) = Inr (length d)"
    using be_u16_append[OF ok(2), of "pre @ be16 t" "d @ encode_extensions es"] by (simp add: be16_def)
  have d: "get_range (?pre @ encode_extensions es) (length pre + 4) (length pre + 4 + length d) = Some d"
    using get_range_append[of "pre @ be16 t @ be16 (length d)" d "encode_extensions es"] by (simp add: add.assoc)
  have lp: "length ?pre = length pre + (4 + length d)" by simp
  have step: "extensions_loop (?pre @ encode_extensions es) (length pre + (4 + length d)) s = walk_extensions es s" for s
    using Cons.IH[OF ok(3), of ?pre s] unfolding lp .
  have lt: "length pre < length (?pre @ encode_extensions es)" by (simp add: be16_def)
  show ?case
    unfolding enc by (subst extensions_loop.simps) (simp only: lt t l d step e walk_extensions.simps rbind_simps ok_or_simps if_True)
qed

lemma extensions_loop_decode:
  "extensions_loop xs cursor sni = Inr r \<Longrightarrow> cursor \<le> length xs \<Longrightarrow> octet_list xs \<Longrightarrow>
     \<exists>es. drop cursor xs = encode_extensions es \<and> exts_ok es"
proof (induction xs cursor sni rule: extensions_loop.induct)
  case (1 xs cursor sni)
  show ?case
  proof (cases "cursor < length xs")
    case False
    then show ?thesis by (intro exI[of _ "[]"]) (simp add: encode_extensions_def exts_ok_def)
  next
    case True
    have "rbind (be_u16 xs cursor) (\<lambda>t. rbind (be_u16 xs (cursor + 2)) (\<lambda>len.
        rbind (ok_or (get_range xs (cursor + 4) (cursor + 4 + len)) TlsClientHello) (\<lambda>dat.
          if t = 0xfe0d then Inl TlsEch
          else if t = 0 then (if sni \<noteq> None then Inl TlsSni
             else rbind (parse_sni dat) (\<lambda>name. extensions_loop xs (cursor + (4 + len)) (Some name)))
          else extensions_loop xs (cursor + (4 + len)) sni))) = Inr r"
      using 1(3) True by (subst (asm) extensions_loop.simps) simp
    then obtain t len d where t: "be_u16 xs cursor = Inr t" and l: "be_u16 xs (cursor + 2) = Inr len"
      and d: "get_range xs (cursor + 4) (cursor + 4 + len) = Some d" and nech: "t \<noteq> 0xfe0d"
      and rest: "if t = 0 then (if sni \<noteq> None then Inl TlsSni
             else rbind (parse_sni d) (\<lambda>name. extensions_loop xs (cursor + (4 + len)) (Some name))) = Inr r
          else extensions_loop xs (cursor + (4 + len)) sni = Inr r"
      by (auto simp: res_simps split: if_splits)
    have le: "cursor + (4 + len) \<le> length xs" using d by (simp add: get_range_def split: if_splits)
    have "\<exists>es. drop (cursor + (4 + len)) xs = encode_extensions es \<and> exts_ok es"
    proof (cases "t = 0")
      case t0: True
      then obtain name where "sni = None" "parse_sni d = Inr name" "extensions_loop xs (cursor + (4 + len)) (Some name) = Inr r"
        using rest by (auto simp: res_simps split: if_splits)
      then show ?thesis using 1(1)[OF True nech t0] le 1(5) by simp
    next
      case False
      then show ?thesis using 1(2)[OF True nech False] rest le 1(5) by simp
    qed
    then obtain es where es: "drop (cursor + (4 + len)) xs = encode_extensions es" "exts_ok es" by blast
    have pos: "cursor + 2 + 2 = cursor + 4" "cursor + 4 + len = cursor + (4 + len)" by simp_all
    have "drop cursor xs = be16 t @ be16 len @ d @ encode_extensions es" "t < 65536" "len < 65536" "length d = len"
      using drop_be16[OF t 1(5)] drop_be16[OF l 1(5), unfolded pos(1)] drop_range[OF d, unfolded pos(2)] es(1) by simp_all
    then show ?thesis using es(2)
      by (intro exI[of _ "(t, d) # es"]) (auto simp: encode_extensions_def exts_ok_def)
  qed
qed

lemma walk_extensions_some:
  "walk_extensions es (Some n) = Inr r \<longleftrightarrow> r = Some n \<and> (\<forall>e \<in> set es. fst e \<noteq> 0xfe0d \<and> fst e \<noteq> 0)"
  by (induction es "Some n" rule: walk_extensions.induct) auto

lemma walk_extensions_iff:
  "walk_extensions es None = Inr (Some sni) \<longleftrightarrow>
    (\<forall>e \<in> set es. fst e \<noteq> 0xfe0d) \<and> (\<exists>d. map snd (filter (\<lambda>e. fst e = 0) es) = [d] \<and> parse_sni d = Inr sni)"
proof (induction es)
  case (Cons e es)
  obtain t d where "e = (t, d)" by (cases e)
  then show ?case using Cons by (auto simp: res_simps walk_extensions_some filter_empty_conv)
qed simp


section \<open>The whole hello\<close>

definition hello_ok :: "client_hello \<Rightarrow> bool" where
  "hello_ok h \<longleftrightarrow> length (hl_head h) = 34 \<and> length (hl_session h) < 256 \<and> length (hl_ciphers h) < 65536
     \<and> length (hl_compression h) < 256 \<and> length (encode_extensions (hl_extensions h)) < 65536 \<and> exts_ok (hl_extensions h)"

text \<open>\<open>framed_hello\<close>: the fields before the extensions, with their lengths.\<close>

definition framed_hello :: "octets \<Rightarrow> octets \<Rightarrow> octets \<Rightarrow> octets \<Rightarrow> octets \<Rightarrow> octets" where
  "framed_hello head ss cs ms ex =
     head @ length ss # ss @ be16 (length cs) @ cs @ length ms # ms @ be16 (length ex) @ ex"

lemma hello_extensions_framed:
  assumes "length head = 34" "length cs < 65536" "length ex < 65536"
  shows "hello_extensions (framed_hello head ss cs ms ex) = Inr ex"
proof -
  let ?h = "framed_hello head ss cs ms ex"
  have s: "get_byte ?h (2 + 32) = Some (length ss)"
    using get_byte_append[of head "length ss"] assms(1) by (simp add: framed_hello_def)
  have c: "be_u16 ?h (2 + 32 + (1 + length ss)) = Inr (length cs)"
    using be_u16_append[OF assms(2), of "head @ length ss # ss"] assms(1) by (simp add: framed_hello_def add.assoc)
  have m: "get_byte ?h (2 + 32 + (1 + length ss) + (2 + length cs)) = Some (length ms)"
    using get_byte_append[of "head @ length ss # ss @ be16 (length cs) @ cs" "length ms"] assms(1)
    by (simp add: framed_hello_def add.assoc)
  have e: "be_u16 ?h (2 + 32 + (1 + length ss) + (2 + length cs) + (1 + length ms)) = Inr (length ex)"
    using be_u16_append[OF assms(3), of "head @ length ss # ss @ be16 (length cs) @ cs @ length ms # ms"] assms(1)
    by (simp add: framed_hello_def add.assoc)
  have len: "2 + 32 + (1 + length ss) + (2 + length cs) + (1 + length ms) + 2 + length ex = length ?h"
    using assms(1) by (simp add: framed_hello_def)
  have d: "get_range ?h (2 + 32 + (1 + length ss) + (2 + length cs) + (1 + length ms) + 2) (length ?h) = Some ex"
    using get_range_append[of "head @ length ss # ss @ be16 (length cs) @ cs @ length ms # ms @ be16 (length ex)" ex "[]"] assms(1)
    by (simp add: framed_hello_def add.assoc)
  show ?thesis
    unfolding hello_extensions_def Let_def s ok_or_simps rbind_simps c m e len d by simp
qed

lemma framed_of_extensions:
  assumes "hello_extensions hello = Inr ex" "octet_list hello"
  shows "\<exists>head ss cs ms. hello = framed_hello head ss cs ms ex \<and> length head = 34 \<and> length ss < 256 \<and> length cs < 65536
    \<and> length ms < 256 \<and> length ex < 65536"
proof -
  obtain sl cl ml el where s: "get_byte hello 34 = Some sl" and c: "be_u16 hello (34 + (1 + sl)) = Inr cl"
    and m: "get_byte hello (34 + (1 + sl) + (2 + cl)) = Some ml"
    and e: "be_u16 hello (34 + (1 + sl) + (2 + cl) + (1 + ml)) = Inr el"
    and d: "get_range hello (34 + (1 + sl) + (2 + cl) + (1 + ml) + 2) (34 + (1 + sl) + (2 + cl) + (1 + ml) + 2 + el) = Some ex"
    and all: "34 + (1 + sl) + (2 + cl) + (1 + ml) + 2 + el = length hello"
    using assms(1) by (auto simp: hello_extensions_def Let_def res_simps split: if_splits)
  let ?ss = "take sl (drop 35 hello)" and ?cs = "take cl (drop (35 + sl + 2) hello)" and ?ms = "take ml (drop (35 + sl + 2 + cl + 1) hello)"
  have lens: "length ?ss = sl" "length ?cs = cl" "length ?ms = ml" using all by auto
  have split: "drop i hello = take n (drop i hello) @ drop (i + n) hello" for i n
    by (metis append_take_drop_id drop_drop add.commute)
  have "hello = take 34 hello @ drop 34 hello" by simp
  also have "drop 34 hello = sl # drop 35 hello" using drop_byte[OF s] by simp
  also have "drop 35 hello = ?ss @ drop (35 + sl) hello" by (rule split)
  also have "drop (35 + sl) hello = be16 cl @ drop (35 + sl + 2) hello"
    using drop_be16[OF c assms(2)] by (simp add: algebra_simps)
  also have "drop (35 + sl + 2) hello = ?cs @ drop (35 + sl + 2 + cl) hello" by (rule split)
  also have "drop (35 + sl + 2 + cl) hello = ml # drop (35 + sl + 2 + cl + 1) hello"
    using drop_byte[OF m] by (simp add: algebra_simps)
  also have "drop (35 + sl + 2 + cl + 1) hello = ?ms @ drop (35 + sl + 2 + cl + 1 + ml) hello" by (rule split)
  also have "drop (35 + sl + 2 + cl + 1 + ml) hello = be16 el @ drop (35 + sl + 2 + cl + 1 + ml + 2) hello"
    using drop_be16[OF e assms(2)] by (simp add: algebra_simps)
  also have "drop (35 + sl + 2 + cl + 1 + ml + 2) hello = ex"
    using drop_range[OF d] all by (simp add: algebra_simps)
  finally have "hello = framed_hello (take 34 hello) ?ss ?cs ?ms ex"
    unfolding framed_hello_def lens using drop_range[OF d] by (simp only: append_Cons append_assoc)
  moreover have "sl < 256" "ml < 256" using s m assms(2) by (auto simp: get_byte_def split: if_splits)
  moreover have "cl < 65536" "el < 65536" using drop_be16[OF c assms(2)] drop_be16[OF e assms(2)] by simp_all
  moreover have "length ex = el" using drop_range[OF d] by simp
  ultimately show ?thesis using lens all by (metis (no_types, lifting) length_take min.absorb2 le_add1 add.assoc)
qed

lemma octets_of_extensions:
  "octet_list (encode_extensions es) \<Longrightarrow> (t, d) \<in> set es \<Longrightarrow> octet_list d"
  by (auto simp: encode_extensions_def)

lemma single_extension: "map snd (filter P es) = [d] \<Longrightarrow> \<exists>t. (t, d) \<in> set es"
proof -
  assume "map snd (filter P es) = [d]"
  then have "d \<in> set (map snd (filter P es))" by simp
  then show ?thesis by auto
qed

lemma validate_hello_iff:
  assumes "octet_list hello"
  shows "validate_hello url_parse hello origin = Inr () \<longleftrightarrow>
    (\<exists>h. hello = encode_hello h \<and> hello_ok h \<and> names_origin url_parse origin h)"
proof
  assume "validate_hello url_parse hello origin = Inr ()"
  then obtain ex sni where ex: "hello_extensions hello = Inr ex" and lp: "extensions_loop ex 0 None = Inr (Some sni)"
    and sm: "sni_matches url_parse sni origin"
    by (auto simp: validate_hello_def res_simps split: if_splits)
  obtain head ss cs ms where f: "hello = framed_hello head ss cs ms ex" and ok: "length head = 34" "length ss < 256"
    "length cs < 65536" "length ms < 256" "length ex < 65536"
    using framed_of_extensions[OF ex assms] by blast
  have ol: "octet_list ex" using assms f by (simp add: framed_hello_def)
  obtain es where es: "ex = encode_extensions es" "exts_ok es"
    using extensions_loop_decode[OF lp _ ol] by auto
  have "walk_extensions es None = Inr (Some sni)"
    using extensions_loop_encode[OF es(2), of "[]" None] lp es(1) by simp
  then obtain d where d: "\<forall>e \<in> set es. fst e \<noteq> 0xfe0d" "map snd (filter (\<lambda>e. fst e = 0) es) = [d]" "parse_sni d = Inr sni"
    unfolding walk_extensions_iff by (elim conjE exE) (rule that)
  have "octet_list d" using single_extension[OF d(2)] ol es(1) octets_of_extensions[of es] by blast
  then obtain name rest where "d = sni_body name rest" "from_utf8 name = Some sni" using parse_sni_iff d(3) by blast
  then have "names_origin url_parse origin \<lparr>hl_head = head, hl_session = ss, hl_ciphers = cs, hl_compression = ms, hl_extensions = es\<rparr>"
    using d sm by (auto simp: names_origin_def)
  then show "\<exists>h. hello = encode_hello h \<and> hello_ok h \<and> names_origin url_parse origin h"
    using f ok es
    by (intro exI[of _ "\<lparr>hl_head = head, hl_session = ss, hl_ciphers = cs, hl_compression = ms, hl_extensions = es\<rparr>"])
      (simp add: encode_hello_def framed_hello_def hello_ok_def)
next
  assume "\<exists>h. hello = encode_hello h \<and> hello_ok h \<and> names_origin url_parse origin h"
  then obtain h where h: "hello = encode_hello h" "hello_ok h" "names_origin url_parse origin h" by blast
  let ?es = "hl_extensions h"
  have f: "hello = framed_hello (hl_head h) (hl_session h) (hl_ciphers h) (hl_compression h) (encode_extensions ?es)"
    by (simp add: h(1) encode_hello_def framed_hello_def)
  have ex: "hello_extensions hello = Inr (encode_extensions ?es)"
    unfolding f using h(2) by (intro hello_extensions_framed) (auto simp: hello_ok_def)
  have ol: "octet_list (encode_extensions ?es)" using assms by (simp add: f framed_hello_def)
  obtain name rest sni where n: "\<forall>e \<in> set ?es. fst e \<noteq> 0xfe0d" "map snd (filter (\<lambda>e. fst e = 0) ?es) = [sni_body name rest]"
    "from_utf8 name = Some sni" "sni_matches url_parse sni origin"
    using h(3) by (auto simp: names_origin_def)
  have od: "octet_list (sni_body name rest)" using octets_of_extensions[OF ol] single_extension[OF n(2)] by blast
  have "hd (sni_body name rest) < 256" using od by (simp add: sni_body_def be16_def)
  then have "length name + 3 < 65536" by (simp add: sni_body_def be16_def)
  then have "parse_sni (sni_body name rest) = Inr sni" using parse_sni_iff[OF od] n(3) by blast
  then have "walk_extensions ?es None = Inr (Some sni)"
    unfolding walk_extensions_iff using n by auto
  then have "extensions_loop (encode_extensions ?es) 0 None = Inr (Some sni)"
    using extensions_loop_encode[of ?es "[]" None] h(2) by (simp add: hello_ok_def)
  then show "validate_hello url_parse hello origin = Inr ()"
    using ex n(4) by (simp add: validate_hello_def)
qed


section \<open>Records\<close>

text \<open>What the loop does once the handshake has grown to \<open>hs\<close>.\<close>

definition after_record :: "url_parser \<Rightarrow> website_origin \<Rightarrow> octets \<Rightarrow> (inspect, proxy_error) result \<Rightarrow> (inspect, proxy_error) result" where
  "after_record url_parse origin hs next_step =
     (if 4 \<le> length hs then
        (if hs ! 0 \<noteq> 1 then Inl TlsClientHello
         else let n = hs ! 1 * 65536 + hs ! 2 * 256 + hs ! 3 in
              if n + 4 \<le> length hs then rbind (validate_hello url_parse (take n (drop 4 hs)) origin) (\<lambda>_. Inr InspectComplete)
              else next_step)
      else next_step)"

lemma records_loop_whole:
  assumes "i + 5 + n \<le> length xs" "xs ! i = 22" "xs ! (i + 1) = 3" "n = xs ! (i + 3) * 256 + xs ! (i + 4)"
  shows "records_loop u og xs i hs =
    after_record u og (hs @ take n (drop (i + 5) xs)) (records_loop u og xs (i + 5 + n) (hs @ take n (drop (i + 5) xs)))"
proof -
  have "i < length xs" "\<not> length xs - i < 5" "\<not> length xs < i + 5 + n" "i + 5 + n - (i + 5) = n" using assms(1) by auto
  then show ?thesis
    unfolding after_record_def by (subst records_loop.simps) (simp only: assms(2,3) assms(4)[symmetric] Let_def if_True if_False simp_thms)
qed

lemma records_loop_record:
  assumes "length p < 65536"
  shows "records_loop u og (pre @ encode_record m p @ rest) (length pre) hs =
    after_record u og (hs @ p) (records_loop u og (pre @ encode_record m p @ rest) (length (pre @ encode_record m p)) (hs @ p))"
proof -
  let ?xs = "pre @ encode_record m p @ rest"
  have at: "?xs ! length pre = 22" "?xs ! (length pre + 1) = 3" "?xs ! (length pre + 3) = length p div 256" "?xs ! (length pre + 4) = length p mod 256"
    by (simp_all add: encode_record_def be16_def nth_append)
  have len: "length pre + 5 + length p \<le> length ?xs" "length (pre @ encode_record m p) = length pre + 5 + length p"
    by (simp_all add: encode_record_def)
  have pay: "take (length p) (drop (length pre + 5) ?xs) = p"
    by (simp add: encode_record_def be16_def)
  have n: "length p = ?xs ! (length pre + 3) * 256 + ?xs ! (length pre + 4)" unfolding at by simp
  show ?thesis unfolding len(2) using records_loop_whole[OF len(1) at(1,2) n, of u og hs] unfolding pay .
qed

lemma records_loop_done: "records_loop u og xs (length xs) hs = Inr InspectIncomplete"
  by (subst records_loop.simps) simp

lemma records_loop_cases:
  assumes "records_loop u og xs i hs = Inr InspectComplete" "octet_list xs" "i \<le> length xs"
  obtains m p where "drop i xs = encode_record m p @ drop (i + 5 + length p) xs" "i + 5 + length p \<le> length xs"
    "after_record u og (hs @ p) (records_loop u og xs (i + 5 + length p) (hs @ p)) = Inr InspectComplete"
proof -
  let ?n = "xs ! (i + 3) * 256 + xs ! (i + 4)"
  have i: "i < length xs" "5 \<le> length xs - i" "xs ! i = 22" "xs ! (i + 1) = 3" "i + 5 + ?n \<le> length xs"
    and next_step: "after_record u og (hs @ take ?n (drop (i + 5) xs)) (records_loop u og xs (i + 5 + ?n) (hs @ take ?n (drop (i + 5) xs))) = Inr InspectComplete"
    using assms(1) by (subst (asm) records_loop.simps, simp add: after_record_def Let_def split: if_splits)+
  let ?p = "take ?n (drop (i + 5) xs)"
  have lp: "length ?p = ?n" using i(5) by simp
  have b: "xs ! (i + 3) < 256" "xs ! (i + 4) < 256" using assms(2) i(2) by simp_all
  have "drop i xs = xs ! i # xs ! (i + 1) # xs ! (i + 2) # xs ! (i + 3) # xs ! (i + 4) # drop (i + 5) xs"
    using i(1,2) by (simp add: Cons_nth_drop_Suc eval_nat_numeral)
  moreover have "drop (i + 5) xs = ?p @ drop (i + 5 + ?n) xs" by (metis append_take_drop_id drop_drop add.commute)
  moreover have "be16 (length ?p) = [xs ! (i + 3), xs ! (i + 4)]" unfolding lp using b by (simp add: be16_def)
  ultimately have "drop i xs = encode_record (xs ! (i + 2)) ?p @ drop (i + 5 + length ?p) xs"
    using i(3,4) lp by (simp add: encode_record_def)
  with that[of "xs ! (i + 2)" ?p] i(5) next_step lp show thesis by simp
qed

lemma three_bytes: "n div 65536 * 65536 + n div 256 mod 256 * 256 + n mod 256 = (n::nat)"
proof -
  have "n div 65536 = n div 256 div 256" by (simp add: div_mult2_eq[symmetric])
  then show ?thesis using div_mult_mod_eq[of n 256] div_mult_mod_eq[of "n div 256" 256] by linarith
qed

lemma three_digits:
  "(b::nat) < 256 \<Longrightarrow> c < 256 \<Longrightarrow> d < 256 \<Longrightarrow> (b * 65536 + c * 256 + d) div 65536 = b
     \<and> (b * 65536 + c * 256 + d) div 256 mod 256 = c \<and> (b * 65536 + c * 256 + d) mod 256 = d"
proof -
  assume lt: "b < 256" "c < 256" "d < 256"
  have e: "b * 65536 + c * 256 + d = d + 256 * (c + 256 * b)" by simp
  have "(d + 256 * k) div 256 = k" "(d + 256 * k) mod 256 = d" for k using lt(3) by simp_all
  note d = this[of "c + 256 * b"]
  have "(d + 256 * (c + 256 * b)) div 65536 = (d + 256 * (c + 256 * b)) div 256 div 256" by (simp add: div_mult2_eq[symmetric])
  then show ?thesis unfolding e d using lt(2) by simp
qed

lemma take_handshake:
  assumes "octet_list hs" "4 \<le> length hs" "hs ! 0 = 1" "n = hs ! 1 * 65536 + hs ! 2 * 256 + hs ! 3" "n + 4 \<le> length hs"
  shows "hs = handshake_of (take n (drop 4 hs)) @ drop (4 + n) hs"
proof -
  have b: "hs ! 1 < 256" "hs ! 2 < 256" "hs ! 3 < 256" using assms(1,2) by simp_all
  obtain c0 c1 c2 c3 cs where "hs = c0 # c1 # c2 # c3 # cs"
    using assms(2) by (auto simp: numeral_eq_Suc Suc_le_length_iff)
  then have "hs = hs ! 0 # hs ! 1 # hs ! 2 # hs ! 3 # drop 4 hs" by simp
  moreover have "length (take n (drop 4 hs)) = n" using assms(5) by simp
  moreover have "n div 65536 = hs ! 1" "n div 256 mod 256 = hs ! 2" "n mod 256 = hs ! 3"
    using three_digits[OF b] assms(4) by simp_all
  moreover have "drop 4 hs = take n (drop 4 hs) @ drop (4 + n) hs" by (metis append_take_drop_id drop_drop add.commute)
  ultimately show ?thesis using assms(3) unfolding handshake_of_def by (metis append_Cons append_Nil append_assoc)
qed

lemma records_sound:
  "records_loop u og xs i hs = Inr InspectComplete \<Longrightarrow> octet_list xs \<Longrightarrow> octet_list hs \<Longrightarrow> i \<le> length xs \<Longrightarrow>
   \<exists>rs junk hello extra. drop i xs = encode_records rs @ junk
     \<and> hs @ concat (map snd rs) = handshake_of hello @ extra \<and> validate_hello u hello og = Inr ()"
proof (induction "length xs - i" arbitrary: i hs rule: less_induct)
  case less
  obtain m p where r: "drop i xs = encode_record m p @ drop (i + 5 + length p) xs" "i + 5 + length p \<le> length xs"
    "after_record u og (hs @ p) (records_loop u og xs (i + 5 + length p) (hs @ p)) = Inr InspectComplete"
    using records_loop_cases[OF less.prems(1,2,4)] by blast
  have "set p \<subseteq> set (drop i xs)" using r(1) by (auto simp: encode_record_def)
  then have "set p \<subseteq> set xs" using set_drop_subset[of i xs] by blast
  with less.prems(2,3) have ol: "octet_list (hs @ p)" by auto
  let ?hs = "hs @ p" and ?n = "(hs @ p) ! 1 * 65536 + (hs @ p) ! 2 * 256 + (hs @ p) ! 3"
  show ?case
  proof (cases "4 \<le> length ?hs \<and> ?n + 4 \<le> length ?hs")
    case True
    then have f: "?hs ! 0 = 1" "validate_hello u (take ?n (drop 4 ?hs)) og = Inr ()"
      using r(3) by (auto simp: after_record_def Let_def res_simps split: if_splits)
    note hs = take_handshake[OF ol _ f(1) refl] 
    have "?hs = handshake_of (take ?n (drop 4 ?hs)) @ drop (4 + ?n) ?hs" using hs True by blast
    then show ?thesis using r(1) f(2)
      by (intro exI[of _ "[(m, p)]"] exI[of _ "drop (i + 5 + length p) xs"]
          exI[of _ "take ?n (drop 4 ?hs)"] exI[of _ "drop (4 + ?n) ?hs"])
        (simp add: encode_records_def)
  next
    case False
    then have go: "records_loop u og xs (i + 5 + length p) ?hs = Inr InspectComplete"
      using r(3) by (auto simp: after_record_def Let_def split: if_splits)
    have smaller: "length xs - (i + 5 + length p) < length xs - i" using r(2) by linarith
    obtain rs junk hello extra where IH: "drop (i + 5 + length p) xs = encode_records rs @ junk"
      "?hs @ concat (map snd rs) = handshake_of hello @ extra" "validate_hello u hello og = Inr ()"
      using less.hyps[OF smaller go less.prems(2) ol r(2)] by blast
    then show ?thesis using r(1)
      by (intro exI[of _ "(m, p) # rs"] exI[of _ junk] exI[of _ hello] exI[of _ extra]) (simp add: encode_records_def)
  qed
qed

lemma records_complete:
  assumes "hs @ concat (map snd rs) = handshake_of hello" "length hs < length (handshake_of hello)"
    and "\<forall>(m, p) \<in> set rs. length p < 65536"
  shows "records_loop u og (pre @ encode_records rs @ junk) (length pre) hs =
    rbind (validate_hello u hello og) (\<lambda>_. Inr InspectComplete)"
  using assms
proof (induction rs arbitrary: pre hs)
  case Nil
  then show ?case by simp
next
  case (Cons r rs)
  obtain m p where r: "r = (m, p)" by (cases r)
  let ?M = "handshake_of hello" and ?hs = "hs @ p"
  have M: "?hs @ concat (map snd rs) = ?M" using Cons.prems(1) by (simp add: r)
  have nth: "?hs ! k = ?M ! k" if "k < length ?hs" for k using M that by (metis nth_append)
  have head: "?M ! 0 = 1" "?M ! 1 * 65536 + ?M ! 2 * 256 + ?M ! 3 = length hello" "length ?M = length hello + 4"
    using three_bytes[of "length hello"] by (simp_all add: handshake_of_def)
  have step: "records_loop u og (pre @ encode_records (r # rs) @ junk) (length pre) hs =
      after_record u og ?hs (records_loop u og ((pre @ encode_record m p) @ encode_records rs @ junk) (length (pre @ encode_record m p)) ?hs)"
    using records_loop_record[of p u og pre m "encode_records rs @ junk" hs] Cons.prems(3) by (simp add: r encode_records_def)
  show ?case
  proof (cases "length ?hs = length ?M")
    case True
    then have "?hs = ?M" using M by (metis append_Nil2 append_eq_append_conv length_append length_0_conv add_cancel_left_right)
    then show ?thesis unfolding step after_record_def using head by (simp add: handshake_of_def Let_def)
  next
    case False
    have lt: "length ?hs < length ?M" using False M by (metis length_append le_add1 le_neq_implies_less)
    have "after_record u og ?hs R = R" for R
    proof (cases "4 \<le> length ?hs")
      case True
      then have "?hs ! 0 = ?M ! 0" "?hs ! 1 = ?M ! 1" "?hs ! 2 = ?M ! 2" "?hs ! 3 = ?M ! 3"
        by (intro nth; linarith)+
      then show ?thesis unfolding after_record_def Let_def using head lt True by simp
    qed (simp add: after_record_def)
    then show ?thesis unfolding step using Cons.IH[OF M lt, of "pre @ encode_record m p"] Cons.prems(3) by simp
  qed
qed


section \<open>The tunnel's first bytes\<close>

lemma hello_loop_sound:
  "fst (hello_loop u og cap pre s) = Inr bytes \<Longrightarrow>
     inspect_records u bytes og = Inr InspectComplete \<and> prefix bytes (pre @ data s) \<and> (length pre \<le> cap \<longrightarrow> length bytes \<le> cap)"
proof (induction u og cap pre s rule: hello_loop.induct)
  case (1 u og cap pre s)
  show ?case
  proof (cases "inspect_records u pre og")
    case (Inl e)
    then show ?thesis using 1(2) by (subst (asm) hello_loop.simps) simp
  next
    case (Inr r)
    show ?thesis
    proof (cases r)
      case InspectComplete
      then show ?thesis using 1(2) Inr by (subst (asm) hello_loop.simps) (auto simp: prefix_def)
    next
      case InspectIncomplete
      note inc = Inr[unfolded InspectIncomplete]
      have lt: "\<not> cap \<le> length pre" using 1(2) inc by (subst (asm) hello_loop.simps) (auto split: if_splits)
      obtain x s' where rd: "stream_read (min (cap - length pre) 4096) s = (x, s')" by fastforce
      then have e: "hello_loop u og cap pre s = (case x of Inl _ \<Rightarrow> (Inl DownstreamIo, s')
          | Inr got \<Rightarrow> (if got = [] then (Inl TlsClientHello, s') else hello_loop u og cap (pre @ got) s'))"
        using inc lt by (subst hello_loop.simps) (simp split: sum.split)
      then obtain got where got: "x = Inr got" "got \<noteq> []" and go: "hello_loop u og cap pre s = hello_loop u og cap (pre @ got) s'"
        using 1(2) by (cases x) (auto split: if_splits)
      have d: "length got \<le> cap - length pre" "data s = got @ data s'" using stream_read_data[OF _ rd] lt got by auto
      show ?thesis
        using 1(1)[OF inc refl lt rd[symmetric] got(1) got(2)] 1(2) d lt unfolding go by simp
    qed
  qed
qed

text \<open>
  C17: A tunnel names the origin it was opened for. When the ClientHello check lets a CONNECT tunnel proceed,
  the bytes it will send upstream are a prefix of what the client sent, within the limit, and begin with
  records whose payloads carry a ClientHello with no encrypted hello and exactly one server name, which
  normalizes to the host of the admitted origin.
\<close>

theorem tunnel_names_origin:
  fixes url_parse :: url_parser and s :: stream and pre bytes :: octets
  assumes "fst (read_client_hello url_parse s pre cap late origin) = Inr bytes"
    and "\<forall>b \<in> set (pre @ data s). b < 256" "length pre \<le> cap"
  shows "prefix bytes (pre @ data s) \<and> length bytes \<le> cap
    \<and> (\<exists>rs junk h extra. bytes = encode_records rs @ junk \<and> concat (map snd rs) = handshake_of (encode_hello h) @ extra
         \<and> names_origin url_parse origin h)"
proof -
  have l: "inspect_records url_parse bytes origin = Inr InspectComplete" "prefix bytes (pre @ data s)" "length bytes \<le> cap"
    using hello_loop_sound[of url_parse origin cap pre s bytes] assms(1,3) by (auto simp: read_client_hello_def split: if_splits)
  have ol: "octet_list bytes" using set_mono_prefix[OF l(2)] assms(2) by blast
  obtain rs junk hello extra where r: "bytes = encode_records rs @ junk" "concat (map snd rs) = handshake_of hello @ extra"
    "validate_hello url_parse hello origin = Inr ()"
    using records_sound[of url_parse origin bytes 0 "[]"] l(1) ol unfolding inspect_records_def by auto
  have "set (concat (map snd rs)) \<subseteq> set bytes" by (auto simp: r(1) encode_records_def encode_record_def)
  then have "octet_list (concat (map snd rs))" using ol by blast
  then have "octet_list hello" unfolding r(2) by (simp add: handshake_of_def)
  then obtain h where "hello = encode_hello h" "names_origin url_parse origin h"
    using validate_hello_iff r(3) by blast
  then show ?thesis using l r by blast
qed

lemmas sample_eval = encode_hello_def encode_extensions_def sni_body_def be16_def str_def handshake_of_def
  encode_records_def encode_record_def hello_ok_def exts_ok_def

text \<open>A URL parser for the examples: scheme, host and port of \<open>http(s)://host[:port]\<close>.\<close>

definition plain_url :: url_parser where
  "plain_url v =
     (let https = starts_with (str ''https://'') v;
          rest = drop (if https then 8 else 7) v;
          hp = split_host_port rest
      in Some \<lparr>uv_scheme = (if https then str ''https'' else str ''http''), uv_host = Some (HostDomain (fst hp)),
               uv_port = (case snd hp of Some p \<Rightarrow> parse_u16 p | None \<Rightarrow> Some (if https then 443 else 80))\<rparr>)"

definition sample_origin :: website_origin where
  "sample_origin = \<lparr>wo_scheme = str ''https'', wo_hostname = str ''a.io'', wo_port = 443\<rparr>"

definition sample_hello :: octets where
  "sample_hello = encode_hello \<lparr>hl_head = replicate 34 3, hl_session = [], hl_ciphers = [19, 1], hl_compression = [0],
     hl_extensions = [(10, [1]), (0, sni_body (str ''A.io'') [])]\<rparr>"

definition sample_records :: "(nat \<times> octets) list" where
  "sample_records = [(1, take 3 (handshake_of sample_hello)), (3, drop 3 (handshake_of sample_hello))]"

lemma plain_url_443: "plain_url (str ''https://A.io:443'') =
    Some \<lparr>uv_scheme = str ''https'', uv_host = Some (HostDomain (str ''A.io'')), uv_port = Some 443\<rparr>"
proof -
  have "split_host_port (str ''A.io:443'') = (str ''A.io'', Some (str ''443''))" by code_simp
  moreover have "drop 8 (str ''https://A.io:443'') = str ''A.io:443''" "starts_with (str ''https://'') (str ''https://A.io:443'')" by code_simp+
  moreover have "parse_u16 (str ''443'') = Some 443"
    by (simp add: parse_u16_def parse_u64_def digits_value_def str_def is_ascii_digit_def)
  ultimately show ?thesis by (simp add: plain_url_def)
qed

lemma sample_name: "sni_matches plain_url (str ''A.io'') sample_origin"
proof -
  have "str ''https://'' @ str ''A.io'' @ str '':'' @ show_nat (wo_port sample_origin) = str ''https://A.io:443''"
    "validate_raw_origin (str ''https://A.io:443'') = Inr ()"
    "drop_last_char (ch CHR ''.'') (str ''A.io'') = str ''A.io''" "lower_ascii (str ''A.io'') = wo_hostname sample_origin"
    "valid_dns_hostname (wo_hostname sample_origin)" "\<not> parses_as_ip (wo_hostname sample_origin)"
    by code_simp+
  then show ?thesis by (simp add: sni_matches_def WebsiteOrigin_parse_def plain_url_443 Let_def)
qed

lemma sample_valid: "validate_hello plain_url sample_hello sample_origin = Inr ()"
proof -
  have "octet_list sample_hello" by (simp add: sample_hello_def sample_eval)
  moreover have "hello_ok \<lparr>hl_head = replicate 34 3, hl_session = [], hl_ciphers = [19, 1], hl_compression = [0],
      hl_extensions = [(10, [1]), (0, sni_body (str ''A.io'') [])]\<rparr>" (is "hello_ok ?h")
    by (simp add: sample_eval)
  moreover have "from_utf8 (str ''A.io'') = Some (str ''A.io'')" by (simp add: str_def)
  then have "names_origin plain_url sample_origin ?h" using sample_name by (auto simp: names_origin_def)
  ultimately show ?thesis using validate_hello_iff[of sample_hello] by (auto simp: sample_hello_def)
qed

lemma sample_pieces: "concat (map snd sample_records) = handshake_of sample_hello" "\<forall>(m, p) \<in> set sample_records. length p < 65536"
proof -
  show "concat (map snd sample_records) = handshake_of sample_hello" by (simp add: sample_records_def)
  show "\<forall>(m, p) \<in> set sample_records. length p < 65536"
    by (simp add: sample_records_def sample_hello_def sample_eval)
qed

theorem tunnel_names_origin_witness:
  "\<exists>rs junk h extra. encode_records sample_records = encode_records rs @ junk
     \<and> concat (map snd rs) = handshake_of (encode_hello h) @ extra \<and> names_origin plain_url sample_origin h"
proof -
  let ?b = "encode_records sample_records"
  have "inspect_records plain_url ?b sample_origin = Inr InspectComplete"
    using records_complete[of "[]" sample_records sample_hello plain_url sample_origin "[]" "[]"] sample_pieces sample_valid
    by (simp add: inspect_records_def handshake_of_def)
  then have "fst (read_client_hello plain_url [] ?b 65536 False sample_origin) = Inr ?b"
    by (simp add: read_client_hello_def hello_loop.simps[of _ _ _ ?b])
  moreover have "\<forall>b \<in> set (?b @ data []). b < 256" "length ?b \<le> 65536"
    by (simp_all add: sample_records_def sample_hello_def sample_eval)
  ultimately show ?thesis
    using tunnel_names_origin[of plain_url "[]" ?b 65536 False sample_origin ?b] by blast
qed

text \<open>
  Fragmentation changes nothing. However a ClientHello is split over records of any version, and
  whatever follows them, the verdict is the verdict on the hello itself.
\<close>

theorem hello_fragmentation:
  fixes url_parse :: url_parser and rs :: "(nat \<times> octets) list" and hello junk :: octets
  assumes "concat (map snd rs) = handshake_of hello" "\<forall>(m, p) \<in> set rs. length p < 65536"
  shows "inspect_records url_parse (encode_records rs @ junk) origin =
    rbind (validate_hello url_parse hello origin) (\<lambda>_. Inr InspectComplete)"
  using records_complete[of "[]" rs hello url_parse origin "[]" junk] assms
  by (simp add: inspect_records_def handshake_of_def)

theorem hello_fragmentation_witness:
  "inspect_records plain_url (encode_records sample_records @ [9]) sample_origin = Inr InspectComplete"
  using hello_fragmentation[OF sample_pieces, of plain_url "[9]" sample_origin] by (simp add: sample_valid)

lemma hello_loop_flowing:
  assumes "flowing p" "cap \<le> length pre + length (data p)"
  shows "\<exists>r p'. \<forall>rest. hello_loop url_parse origin cap pre (p @ rest) = (r, p' @ rest)"
  using assms
proof (induction "cap - length pre" arbitrary: pre p rule: less_induct)
  case less
  show ?case
  proof (cases "inspect_records url_parse pre origin \<noteq> Inr InspectIncomplete \<or> cap \<le> length pre")
    case True
    then have "hello_loop url_parse origin cap pre (p @ rest) = (fst (hello_loop url_parse origin cap pre p), p @ rest)" for rest
      by (auto simp: hello_loop.simps[of url_parse origin cap pre] split: sum.splits inspect.splits)
    then show ?thesis by blast
  next
    case False
    let ?n = "min (cap - length pre) 4096"
    have "p \<noteq> []" "0 < ?n" using False less.prems(2) by auto
    then obtain got p' where g: "got \<noteq> []" "flowing p'" "data p = got @ data p'" "\<And>rest. stream_read ?n (p @ rest) = (Inr got, p' @ rest)"
      using stream_read_flowing[OF less.prems(1)] by metis
    have "\<exists>r p''. \<forall>rest. hello_loop url_parse origin cap (pre @ got) (p' @ rest) = (r, p'' @ rest)"
      by (rule less.hyps) (use False g less.prems(2) in \<open>auto intro!: diff_less_mono2\<close>)
    then show ?thesis using False g by (subst hello_loop.simps) auto
  qed
qed

text \<open>
  A client cannot keep the proxy reading. Against a client that never stops sending, the reader of the head
  and the reader of the ClientHello both return after at most their limit in bytes: once that much has been
  delivered, whatever would follow is neither read nor waited for, and the result does not depend on it.
\<close>

theorem readers_return:
  fixes p :: stream and cap :: nat
  assumes "flowing p" "cap \<le> length (data p)"
  shows "(\<exists>r p'. \<forall>rest. read_head cap (p @ rest) = (r, p' @ rest))
    \<and> (\<exists>r p'. \<forall>rest. read_client_hello url_parse (p @ rest) pre cap late origin = (r, p' @ rest))"
proof
  show "\<exists>r p'. \<forall>rest. read_head cap (p @ rest) = (r, p' @ rest)"
    unfolding read_head_def using read_head_loop_flowing[of p cap "[]"] assms by simp
  have "\<exists>r p'. \<forall>rest. hello_loop url_parse origin cap pre (p @ rest) = (r, p' @ rest)"
    using hello_loop_flowing[of p cap pre] assms by simp
  then show "\<exists>r p'. \<forall>rest. read_client_hello url_parse (p @ rest) pre cap late origin = (r, p' @ rest)"
    by (cases late) (auto simp: read_client_hello_def)
qed

theorem readers_return_witness:
  "\<exists>r p'. \<forall>rest. read_head 3 ([Arrives [71, 69], Arrives [84, 32]] @ rest) = (r, p' @ rest)"
  using readers_return[of "[Arrives [71, 69], Arrives [84, 32]]" 3] by (simp add: flowing_def)

end
