(* ===== verification/Egress_Admit_Props.thy ===== *)
theory Egress_Admit_Props
  imports Egress_Admit
begin

text \<open>
  Credentials live from their mint to their replacement or revocation, holds stay within both budgets and
  never leak a slot, and an origin is opened only with everyone's consent.
\<close>


section \<open>The life of a credential\<close>

datatype cred_op = OpMint command_tag ustring | OpRevoke command_tag | OpRevokeExact proxy_credential

fun cred_step :: "credential_registry \<Rightarrow> cred_op \<Rightarrow> credential_registry" where
  "cred_step r (OpMint tag token) = snd (mint tag token r)"
| "cred_step r (OpRevoke tag) = snd (revoke tag r)"
| "cred_step r (OpRevokeExact c) = snd (revoke_exact c r)"

fun ends_credential :: "command_tag \<Rightarrow> ustring \<Rightarrow> cred_op \<Rightarrow> bool" where
  "ends_credential tag token (OpMint t _) \<longleftrightarrow> t = tag"
| "ends_credential tag token (OpRevoke t) \<longleftrightarrow> t = tag"
| "ends_credential tag token (OpRevokeExact c) \<longleftrightarrow> c = \<lparr>cr_tag = tag, cr_token = token\<rparr>"

definition live_after :: "cred_op list \<Rightarrow> command_tag \<Rightarrow> ustring \<Rightarrow> bool" where
  "live_after ops tag token \<longleftrightarrow> (\<exists>ops1 ops2. ops = ops1 @ OpMint tag token # ops2 \<and> \<not> list_ex (ends_credential tag token) ops2)"

fun minted :: "cred_op \<Rightarrow> ustring list" where
  "minted (OpMint _ token) = [token]"
| "minted _ = []"

lemma live_after_snoc:
  "live_after (ops @ [op]) tag token \<longleftrightarrow> op = OpMint tag token \<or> live_after ops tag token \<and> \<not> ends_credential tag token op"
proof
  assume "live_after (ops @ [op]) tag token"
  then obtain ops1 ops2 where o: "ops @ [op] = ops1 @ OpMint tag token # ops2" "\<not> list_ex (ends_credential tag token) ops2"
    by (auto simp: live_after_def)
  show "op = OpMint tag token \<or> live_after ops tag token \<and> \<not> ends_credential tag token op"
  proof (cases ops2 rule: rev_cases)
    case Nil
    then show ?thesis using o(1) by simp
  next
    case (snoc os x)
    then have "ops = ops1 @ OpMint tag token # os" "op = x" using o(1) by (metis append.assoc append_Cons butlast_snoc, metis append.assoc append_Cons last_snoc)
    then show ?thesis using o(2) snoc by (auto simp: live_after_def)
  qed
next
  assume "op = OpMint tag token \<or> live_after ops tag token \<and> \<not> ends_credential tag token op"
  then show "live_after (ops @ [op]) tag token"
  proof
    assume "op = OpMint tag token"
    then show ?thesis unfolding live_after_def by (intro exI[of _ ops] exI[of _ "[]"]) simp
  next
    assume a: "live_after ops tag token \<and> \<not> ends_credential tag token op"
    then obtain ops1 ops2 where "ops = ops1 @ OpMint tag token # ops2" "\<not> list_ex (ends_credential tag token) ops2"
      by (auto simp: live_after_def)
    then show ?thesis using a unfolding live_after_def by (intro exI[of _ ops1] exI[of _ "ops2 @ [op]"]) simp
  qed
qed

lemma registry_calls:
  "c \<in> set (rg_calls (foldl cred_step (credentials_new st) ops)) \<longleftrightarrow> live_after ops (cr_tag c) (cr_token c)"
proof (induction ops rule: rev_induct)
  case Nil
  then show ?case by (simp add: credentials_new_def live_after_def)
next
  case (snoc op ops)
  show ?case
    unfolding live_after_snoc foldl_append foldl.simps
    using snoc by (cases op) (auto simp: mint_def revoke_def revoke_exact_def Let_def)
qed

lemma registry_session: "rg_session_token (foldl cred_step (credentials_new st) ops) = st"
proof (induction ops rule: rev_induct)
  case (snoc op ops)
  then show ?case by (cases op) (simp_all add: mint_def revoke_def revoke_exact_def Let_def)
qed (simp add: credentials_new_def)

lemma minted_once:
  assumes "distinct (concat (map minted ops))" "live_after ops t token" "live_after ops t' token"
  shows "t = t'"
proof -
  obtain a b where o: "ops = a @ OpMint t token # b" using assms(2) by (auto simp: live_after_def)
  then have "token \<notin> set (concat (map minted a))" "token \<notin> set (concat (map minted b))" using assms(1) by auto
  moreover have "OpMint t' token \<in> set ops" using assms(3) by (auto simp: live_after_def)
  ultimately show ?thesis using o by force
qed

text \<open>
  A call credential works exactly while it is live. After any sequence of mints and revocations with
  pairwise different tokens, a presented token is the session's if it is the session token, is accepted
  for a tag if it was minted for that tag and since then neither replaced by a later mint for the tag nor
  revoked, and is refused otherwise.
\<close>

theorem credential_lifecycle:
  fixes st token :: ustring and ops :: "cred_op list"
  assumes "distinct (concat (map minted ops))" "st \<noteq> token"
  defines "r \<equiv> foldl cred_step (credentials_new st) ops"
  shows "authenticate_token r st = Inr None
    \<and> (\<forall>tag. authenticate_token r token = Inr (Some tag) \<longleftrightarrow> live_after ops tag token)
    \<and> (authenticate_token r token = Inl Authentication \<longleftrightarrow> (\<nexists>tag. live_after ops tag token))"
proof -
  have s: "rg_session_token r = st" unfolding r_def by (rule registry_session)
  have calls: "c \<in> set (rg_calls r) \<longleftrightarrow> live_after ops (cr_tag c) (cr_token c)" for c unfolding r_def by (rule registry_calls)
  have auth: "authenticate_token r token = (case find (\<lambda>c. cr_token c = token) (rg_calls r) of
      Some c \<Rightarrow> Inr (Some (cr_tag c)) | None \<Rightarrow> Inl Authentication)"
    using assms(2) by (simp add: authenticate_token_def s)
  show ?thesis
  proof (cases "find (\<lambda>c. cr_token c = token) (rg_calls r)")
    case None
    then have "\<not> live_after ops tag token" for tag
      using calls[of "\<lparr>cr_tag = tag, cr_token = token\<rparr>"] by (auto simp: find_None_iff)
    then show ?thesis using None by (simp add: auth authenticate_token_def[of r st] s)
  next
    case (Some c)
    then have "c \<in> set (rg_calls r)" "cr_token c = token" by (auto simp: find_Some_iff)
    then have "live_after ops (cr_tag c) token" using calls by auto
    then have "live_after ops tag token \<longleftrightarrow> cr_tag c = tag" for tag using minted_once[OF assms(1)] by blast
    then show ?thesis using Some by (simp add: auth authenticate_token_def[of r st] s)
  qed
qed

theorem credential_lifecycle_witness:
  "authenticate_token (foldl cred_step (credentials_new [0]) [OpMint [1] [7], OpMint [2] [8], OpRevoke [2]]) [7] = Inr (Some [1])
   \<and> authenticate_token (foldl cred_step (credentials_new [0]) [OpMint [1] [7], OpMint [2] [8], OpRevoke [2]]) [8] = Inl Authentication"
proof -
  let ?ops = "[OpMint [1] [7], OpMint [2] [8], OpRevoke [2]]"
  have "live_after ?ops [1] [7]"
    unfolding live_after_def by (intro exI[of _ "[]"] exI[of _ "[OpMint [2] [8], OpRevoke [2]]"]) simp
  moreover have "\<not> live_after ?ops tag [8]" for tag
    using live_after_snoc[of "[OpMint [1] [7], OpMint [2] [8]]" "OpRevoke [2]" tag "[8]"]
      live_after_snoc[of "[OpMint [1] [7]]" "OpMint [2] [8]" tag "[8]"] live_after_snoc[of "[]" "OpMint [1] [7]" tag "[8]"]
    by (auto simp: live_after_def)
  ultimately show ?thesis
    using credential_lifecycle[of ?ops "[0]" "[7]"] credential_lifecycle[of ?ops "[0]" "[8]"] by simp
qed


section \<open>The hold budget\<close>

definition held_count :: "hold_budget \<Rightarrow> command_tag option \<Rightarrow> nat" where
  "held_count b call = (case hm_get (hb_held b) call of Some n \<Rightarrow> n | None \<Rightarrow> 0)"

lemma try_take_spec:
  "fst (try_take call b) \<longleftrightarrow> held_count b call < hb_per_call b"
  "hb_per_call (snd (try_take call b)) = hb_per_call b"
  "held_count (snd (try_take call b)) c =
     held_count b c + (if c = call \<and> held_count b call < hb_per_call b then 1 else 0)"
  by (auto simp: try_take_def held_count_def Let_def hmap_simps split: option.splits)

lemma permit_drop_spec:
  "hb_per_call (permit_drop call b) = hb_per_call b"
  "held_count (permit_drop call b) c = held_count b c - (if c = call then 1 else 0)"
  by (auto simp: permit_drop_def held_count_def hmap_simps split: option.splits)

text \<open>
  Parked requests as a machine: a request parks if both budgets allow, and any parked one may finish. The
  second component lists the credentials of the requests that are parked.
\<close>

datatype hold_op = OpPark "command_tag option" | OpFinish nat

fun hold_step :: "hold_state \<times> command_tag option list \<Rightarrow> hold_op \<Rightarrow> hold_state \<times> command_tag option list" where
  "hold_step (st, cs) (OpPark call) = (let (ok, st') = park call st in (st', if ok then call # cs else cs))"
| "hold_step (st, cs) (OpFinish i) =
     (if i < length cs then (unpark (cs ! i) st, take i cs @ drop (Suc i) cs) else (st, cs))"

definition hold_inv :: "nat \<Rightarrow> nat \<Rightarrow> hold_state \<times> command_tag option list \<Rightarrow> bool" where
  "hold_inv max_held per_call s \<longleftrightarrow> (case s of (st, cs) \<Rightarrow>
     hb_per_call (hs_budget st) = per_call \<and> hs_permits st + length cs = max_held
     \<and> (\<forall>c. held_count (hs_budget st) c = count_list cs c \<and> count_list cs c \<le> per_call))"

lemma park_spec:
  "fst (park call st) \<longleftrightarrow> held_count (hs_budget st) call < hb_per_call (hs_budget st) \<and> 0 < hs_permits st"
  "hb_per_call (hs_budget (snd (park call st))) = hb_per_call (hs_budget st)"
  "hs_permits (snd (park call st)) = hs_permits st - (if fst (park call st) then 1 else 0)"
  "held_count (hs_budget (snd (park call st))) c = held_count (hs_budget st) c + (if fst (park call st) \<and> c = call then 1 else 0)"
  "hs_blocked (snd (park call st)) = hs_blocked st"
  using try_take_spec[of call "hs_budget st"]
  by (auto simp: park_def Let_def permit_drop_spec case_prod_beta)

lemma unpark_spec:
  "hb_per_call (hs_budget (unpark call st)) = hb_per_call (hs_budget st)"
  "hs_permits (unpark call st) = hs_permits st + 1"
  "held_count (hs_budget (unpark call st)) c = held_count (hs_budget st) c - (if c = call then 1 else 0)"
  "hs_blocked (unpark call st) = hs_blocked st"
  by (simp_all add: unpark_def permit_drop_spec)

lemma count_list_remove:
  "i < length cs \<Longrightarrow> count_list (take i cs) c + count_list (drop (Suc i) cs) c = count_list cs c - (if c = cs ! i then 1 else 0)"
proof -
  assume i: "i < length cs"
  have "count_list cs c = count_list (take i cs @ cs ! i # drop (Suc i) cs) c" using id_take_nth_drop[OF i] by simp
  then show ?thesis by (simp add: count_list_append)
qed

interpretation holds: state_machine hold_step "hold_inv max_held per_call" for max_held per_call
proof
  fix s op assume inv: "hold_inv max_held per_call s"
  obtain st cs where s: "s = (st, cs)" by (cases s)
  show "hold_inv max_held per_call (hold_step s op)"
  proof (cases op)
    case (OpPark call)
    have p: "hold_step (st, cs) op = (snd (park call st), if fst (park call st) then call # cs else cs)"
      by (simp add: OpPark case_prod_beta)
    show ?thesis
      using inv unfolding s p unfolding hold_inv_def case_prod_conv park_spec(2,3,4)
      by (auto simp: park_spec(1) Suc_le_eq)
  next
    case (OpFinish i)
    then show ?thesis
      using inv by (auto simp: s hold_inv_def unpark_spec count_list_remove intro: le_trans[OF diff_le_self])
  qed
qed

text \<open>
  C29: Holds stay within both budgets and never leak. Along every sequence of asks and endings, the requests
  parked at once are at most \<open>max_held\<close>, those of one credential at most its share, and a further ask is
  parked exactly when both have room left, so every slot an ended hold had is free again.
\<close>

theorem hold_budget_exact:
  fixes max_held per_call :: nat and ops :: "hold_op list"
  defines "run \<equiv> foldl hold_step (hold_state_new max_held per_call, []) ops"
  shows "length (snd run) \<le> max_held \<and> count_list (snd run) call \<le> min per_call max_held
    \<and> (fst (park call (fst run)) \<longleftrightarrow> count_list (snd run) call < min per_call max_held \<and> length (snd run) < max_held)"
proof -
  have "hold_inv max_held (min per_call max_held) (hold_state_new max_held per_call, [])"
    by (simp add: hold_inv_def hold_state_new_def budget_new_def held_count_def)
  then have inv: "hold_inv max_held (min per_call max_held) run" unfolding run_def by (rule holds.run_inv)
  obtain st cs where "run = (st, cs)" by (cases run)
  then show ?thesis using inv by (auto simp: hold_inv_def park_spec(1))
qed


section \<open>Admission\<close>

text \<open>The events of a hold that was answered yes: reads within the cap, then the answer.\<close>

lemma hold_allowed:
  "hold es buffered = (Inr OutcomeAllowed, out) \<Longrightarrow>
     \<exists>reads rest. es = map (\<lambda>b. ClientRead (Some b)) reads @ Answered (Some True) # rest \<and> out = buffered @ concat reads
       \<and> (reads \<noteq> [] \<longrightarrow> length out \<le> MAX_HELD_CLIENT_BYTES)"
proof (induction es buffered rule: hold.induct)
  case (2 a es buffered)
  then show ?case by (intro exI[of _ "[]"] exI[of _ es]) (auto split: if_splits)
next
  case (5 r es buffered)
  then obtain bytes where r: "r = Some bytes" "bytes \<noteq> []" "\<not> MAX_HELD_CLIENT_BYTES < length buffered + length bytes"
    "hold es (buffered @ bytes) = (Inr OutcomeAllowed, out)"
    by (auto split: option.splits if_splits)
  then obtain reads rest where IH: "es = map (\<lambda>b. ClientRead (Some b)) reads @ Answered (Some True) # rest"
    "out = (buffered @ bytes) @ concat reads" "reads \<noteq> [] \<longrightarrow> length out \<le> MAX_HELD_CLIENT_BYTES"
    using 5(1)[OF r(1,2,3)] by blast
  then show ?case using r(1,3) by (intro exI[of _ "bytes # reads"] exI[of _ rest]) (cases reads; simp)
qed auto

text \<open>A request that had to ask: parked, held and unparked again.\<close>

lemma admit_origin_held:
  assumes "admit_origin e origin call buffered st = (result, buffered', st')" "park call st = (True, st1)"
    and "\<not> is_refused_host (ae_upstream_hosts e) (wo_hostname origin)" "policy_evaluate (ae_policy e) origin = WebAllow"
    and "ae_decide e origin call = Some DecideAsk"
  obtains held where "held = (if ae_hold_late e then (Inr OutcomeTimeout, buffered) else hold (ae_hold_events e) buffered)"
    "result = snd (settle_hold (fst held))" "buffered' = snd held"
    "st' = unpark call (publish origin call (fst (settle_hold (fst held))) (ae_hold_ms e) (Some (ae_deadline_unix e)) st1)"
  using assms that by (auto simp: admit_origin_def Let_def case_prod_beta)

lemma admit_origin_consent:
  assumes a: "admit_origin e origin call buffered st = (Inr (), buffered', st')"
  shows "\<not> is_refused_host (ae_upstream_hosts e) (wo_hostname origin) \<and> policy_evaluate (ae_policy e) origin = WebAllow
    \<and> (ae_decide e origin call = Some DecideAllow \<or> (\<exists>w. ae_decide e origin call = Some (AllowAndRecord w))
       \<or> ae_decide e origin call = Some DecideAsk
         \<and> (\<exists>reads rest. ae_hold_events e = map (\<lambda>b. ClientRead (Some b)) reads @ Answered (Some True) # rest
              \<and> buffered' = buffered @ concat reads))"
proof -
  have ok: "\<not> is_refused_host (ae_upstream_hosts e) (wo_hostname origin)" "policy_evaluate (ae_policy e) origin = WebAllow"
    using a by (auto simp: admit_origin_def split: if_splits)
  show ?thesis
  proof (cases "ae_decide e origin call = Some DecideAsk")
    case False
    then show ?thesis using ok a by (auto simp: admit_origin_def split: option.splits decider_decision.splits)
  next
    case True
    obtain st1 where p: "park call st = (True, st1)"
      using ok a True by (cases "park call st"; cases "fst (park call st)") (auto simp: admit_origin_def)
    from admit_origin_held[OF a p ok True] obtain held
      where h: "held = (if ae_hold_late e then (Inr OutcomeTimeout, buffered) else hold (ae_hold_events e) buffered)"
        "Inr () = snd (settle_hold (fst held))" "buffered' = snd held" by blast
    have "fst held = Inr OutcomeAllowed"
      using h(2) by (auto simp: settle_hold_def split: sum.splits decider_outcome.splits)
    then have "hold (ae_hold_events e) buffered = (Inr OutcomeAllowed, buffered')"
      using h(1,3) by (auto split: if_splits) (metis prod.collapse)
    then show ?thesis using ok True hold_allowed by blast
  qed
qed

lemma admit_origin_releases:
  assumes a: "admit_origin e origin call buffered st = (result, buffered', st')"
  shows "hs_permits st' = hs_permits st \<and> (\<forall>c. held_count (hs_budget st') c = held_count (hs_budget st) c)"
proof (cases "ae_decide e origin call = Some DecideAsk \<and> fst (park call st)
    \<and> \<not> is_refused_host (ae_upstream_hosts e) (wo_hostname origin) \<and> policy_evaluate (ae_policy e) origin = WebAllow")
  case True
  then obtain st1 where p: "park call st = (True, st1)" by (cases "park call st") auto
  note ps = park_spec[of call st, unfolded p fst_conv snd_conv]
  have ok: "\<not> is_refused_host (ae_upstream_hosts e) (wo_hostname origin)" "policy_evaluate (ae_policy e) origin = WebAllow"
    "ae_decide e origin call = Some DecideAsk" using True by simp_all
  obtain held where h: "held = (if ae_hold_late e then (Inr OutcomeTimeout, buffered) else hold (ae_hold_events e) buffered)"
    "result = snd (settle_hold (fst held))" "buffered' = snd held"
    "st' = unpark call (publish origin call (fst (settle_hold (fst held))) (ae_hold_ms e) (Some (ae_deadline_unix e)) st1)"
    by (rule admit_origin_held[OF a p ok])
  show ?thesis using ps unfolding h(4) by (auto simp: unpark_spec publish_def)
next
  case False
  note ps = park_spec[of call st]
  from False show ?thesis using a ps
    by (auto simp: admit_origin_def publish_def split: option.splits decider_decision.splits if_splits prod.splits bool.splits)
qed

text \<open>
  An origin is opened only by consent, and an admission leaves no slot taken. If a request is admitted,
  the vendor guard does not refuse the host, the policy allows exactly this origin, and the decider allowed
  it, or asked and the held request was answered yes, with nothing but reads of the client before the
  answer. Whatever the outcome, the hold budget and the free permits are what they were before.
\<close>

theorem admission_by_consent:
  fixes e :: admit_env and origin :: website_origin and st st' :: hold_state
  assumes "admit_origin e origin call buffered st = (result, buffered', st')"
  shows "(result = Inr () \<longrightarrow> \<not> is_refused_host (ae_upstream_hosts e) (wo_hostname origin)
        \<and> policy_evaluate (ae_policy e) origin = WebAllow
        \<and> (ae_decide e origin call = Some DecideAllow \<or> (\<exists>w. ae_decide e origin call = Some (AllowAndRecord w))
           \<or> ae_decide e origin call = Some DecideAsk
             \<and> (\<exists>reads rest. ae_hold_events e = map (\<lambda>b. ClientRead (Some b)) reads @ Answered (Some True) # rest
                  \<and> buffered' = buffered @ concat reads)))
    \<and> hs_permits st' = hs_permits st
    \<and> (\<forall>c. held_count (hs_budget st') c = held_count (hs_budget st) c)"
using admit_origin_releases[OF assms(1)] admit_origin_consent[of e origin call buffered st buffered' st'] assms(1) by blast

definition asking_env :: admit_env where
  "asking_env = \<lparr>ae_upstream_hosts = None, ae_policy = \<lparr>wp_default = WebAllow, wp_allow = [], wp_deny = []\<rparr>,
     ae_decide = (\<lambda>_ _. Some DecideAsk), ae_hold_late = False,
     ae_hold_events = [ClientRead (Some [1]), Answered (Some True)], ae_hold_ms = 7, ae_deadline_unix = 600\<rparr>"

definition asked_origin :: website_origin where
  "asked_origin = \<lparr>wo_scheme = str ''https'', wo_hostname = str ''a.io'', wo_port = 443\<rparr>"

theorem admission_by_consent_witness:
  "\<exists>buffered' st'. admit_origin asking_env asked_origin None [] (hold_state_new 16 8) = (Inr (), buffered', st')
     \<and> policy_evaluate (ae_policy asking_env) asked_origin = WebAllow \<and> hs_permits st' = 16"
proof -
  have "\<not> is_refused_host None (str ''a.io'')" by code_simp
  then have r: "fst (admit_origin asking_env asked_origin None [] (hold_state_new 16 8)) = Inr ()"
    by (simp add: admit_origin_def asking_env_def asked_origin_def policy_evaluate_def park_def try_take_def hold_state_new_def
        budget_new_def hmap_simps settle_hold_def MAX_HELD_CLIENT_BYTES_def)
  obtain b st where a: "admit_origin asking_env asked_origin None [] (hold_state_new 16 8) = (Inr (), b, st)"
    using r by (metis prod.collapse)
  show ?thesis using admission_by_consent[OF a] a by (auto simp: hold_state_new_def)
qed

end
