(* ===== verification/Egress_Server_Props.thy ===== *)
theory Egress_Server_Props
  imports Egress_Server Egress_Request_Props Egress_Tls_Props Egress_Admit_Props Interfaces "HOL-Library.Sublist"
begin

text \<open>
  What the proxy as a whole guarantees: bytes reach an upstream only for a request that was authenticated and
  consented to, at a public address, naming the checked origin; every connection is counted once and an error
  page is sent only to a client that has received nothing; a body is copied exactly; and the accept loop never
  serves more connections than configured.
\<close>


section \<open>What the steps leave alone\<close>

lemma write_all_prefix: "write_all room sent bytes = (ok, out) \<Longrightarrow> \<exists>k. out = sent @ take k bytes \<and> (ok \<longrightarrow> out = sent @ bytes)"
  by (auto simp: write_all_def split: option.splits intro: exI[of _ "length bytes"])

definition same_egress :: "wire \<Rightarrow> wire \<Rightarrow> bool" where
  "same_egress w w' \<longleftrightarrow> wr_connected w' = wr_connected w \<and> wr_to_upstream w' = wr_to_upstream w"

definition same_client :: "wire \<Rightarrow> wire \<Rightarrow> bool" where
  "same_client w w' \<longleftrightarrow> wr_to_client w' = wr_to_client w \<and> wr_metrics w' = wr_metrics w \<and> wr_tunnel w' = wr_tunnel w"

lemma same_trans:
  "same_egress a b \<Longrightarrow> same_egress b c \<Longrightarrow> same_egress a c" "same_client a b \<Longrightarrow> same_client b c \<Longrightarrow> same_client a c"
  "same_egress a a" "same_client a a"
  by (simp_all add: same_egress_def same_client_def)

lemma admit_wire_keeps: "admit_wire x origin call buffered w = (r, b, w') \<Longrightarrow> same_egress w w' \<and> same_client w w'"
  by (auto simp: admit_wire_def same_egress_def same_client_def split: prod.splits)

lemma connect_keeps:
  "connect_addresses x addresses w = (r, w') \<Longrightarrow>
     wr_connected w' = Some addresses \<and> wr_to_upstream w' = wr_to_upstream w \<and> same_client w w'"
  by (auto simp: connect_addresses_def same_client_def Let_def split: option.splits)

lemma write_committed_keeps:
  "write_committed x bytes w = (r, w') \<Longrightarrow> same_egress w w' \<and> wr_metrics w' = wr_metrics w \<and> wr_upstream w' = wr_upstream w"
  by (auto simp: write_committed_def same_egress_def split: prod.splits)

lemma write_committed_error: "write_committed x bytes w = (Inl e, w') \<Longrightarrow> e = Committed DownstreamIo"
  by (auto simp: write_committed_def split: prod.splits if_splits)

lemma write_upstream_keeps:
  "write_upstream x bytes w = (r, w') \<Longrightarrow> wr_connected w' = wr_connected w \<and> same_client w w'
     \<and> (\<exists>sent. wr_to_upstream w' = wr_to_upstream w @ sent \<and> prefix sent bytes)"
  by (auto simp: write_upstream_def same_client_def take_is_prefix dest!: write_all_prefix split: prod.splits)

lemma write_error_keeps: "same_egress w (write_error x e w) \<and> wr_metrics (write_error x e w) = wr_metrics w"
proof -
  have k: "same_egress w (snd (write_committed x b w)) \<and> wr_metrics (snd (write_committed x b w)) = wr_metrics w" for b
    using write_committed_keeps[of x b w] by (cases "write_committed x b w") simp
  show ?thesis unfolding write_error_def Let_def by (cases "error_status e") (simp only: prod.case k)
qed

lemma record_metric_keeps [simp]: "same_egress w (record_metric out w)" "wr_metrics (record_metric out w) = metrics_record out (wr_metrics w)"
  by (simp_all add: record_metric_def same_egress_def)

lemma copy_exact_keeps:
  "copy_exact x late n w = (r, w') \<Longrightarrow> same_egress w w' \<and> wr_metrics w' = wr_metrics w \<and> (\<forall>e. r = Inl e \<longrightarrow> (\<exists>p. e = Committed p))"
proof (induction x late n w arbitrary: r w' rule: copy_exact.induct)
  case (1 x late n w)
  obtain got up where s: "stream_read (min n 16384) (wr_upstream w) = (got, up)" by (cases "stream_read (min n 16384) (wr_upstream w)")
  let ?w1 = "w\<lparr>wr_upstream := up\<rparr>"
  have e1: "same_egress w ?w1" by (simp add: same_egress_def)
  show ?case
  proof (cases "n = 0 \<or> late = Some 0 \<or> (\<exists>u. got = Inl u) \<or> got = Inr []")
    case True
    then show ?thesis using 1(2) s by (auto simp: copy_exact.simps[of x late n w] same_egress_def split: if_splits)
  next
    case False
    then obtain bytes where g: "got = Inr bytes" "bytes \<noteq> []" by (cases got) auto
    obtain r2 w2 where c: "write_committed x bytes ?w1 = (r2, w2)" by (cases "write_committed x bytes ?w1")
    note k = write_committed_keeps[OF c]
    show ?thesis
    proof (cases r2)
      case (Inl e)
      then show ?thesis using 1(2) s g c False k write_committed_error[of x bytes ?w1 e w2]
        by (auto simp: copy_exact.simps[of x late n w] same_egress_def)
    next
      case (Inr u)
      then have "copy_exact x (map_option (\<lambda>n. n - 1) late) (n - length bytes) w2 = (r, w')"
        using 1(2) s g c False by (simp add: copy_exact.simps[of x late n w])
      from 1(1)[OF _ _ refl s[symmetric] refl refl g(1) g(2) c[symmetric] Inr this] False k e1 show ?thesis
        by (auto simp: same_egress_def)
    qed
  qed
qed


section \<open>One outcome per connection\<close>

text \<open>How a handler reports: success has counted itself, a failure before the commit has sent nothing to the
  client, and no failure has counted anything yet.\<close>

definition accounted :: "wire \<Rightarrow> (unit, connection_error) result \<Rightarrow> wire \<Rightarrow> bool" where
  "accounted w r w' \<longleftrightarrow> (case r of
       Inr _ \<Rightarrow> wr_metrics w' = metrics_record OutOk (wr_metrics w)
     | Inl (Precommit e) \<Rightarrow> same_client w w'
     | Inl (Committed e) \<Rightarrow> wr_metrics w' = wr_metrics w)"

lemma accounted_after: "same_client w w1 \<Longrightarrow> accounted w1 r w' \<Longrightarrow> accounted w r w'"
  by (auto simp: accounted_def same_client_def split: sum.splits connection_error.splits)

lemma accounted_cases [simp]:
  "accounted w (Inl (Precommit e)) w' \<longleftrightarrow> same_client w w'"
  "accounted w (Inl (Committed e)) w' \<longleftrightarrow> wr_metrics w' = wr_metrics w"
  "accounted w (Inr u) w' \<longleftrightarrow> wr_metrics w' = metrics_record OutOk (wr_metrics w)"
  by (simp_all add: accounted_def)

lemma accounted_from_admit: "same_client w w' \<Longrightarrow> accounted w (Inl (from_admit e)) w'"
  by (simp add: from_admit_def same_client_def)

lemma write_committed_accounted: "write_committed x bytes w = (Inl e, w') \<Longrightarrow> accounted w (Inl e) w'"
  using write_committed_keeps[of x bytes w "Inl e" w'] write_committed_error[of x bytes w e w'] by simp

definition send_body :: "proxy_env \<Rightarrow> response_body \<Rightarrow> octets \<Rightarrow> wire \<Rightarrow> (unit, connection_error) result \<times> wire" where
  "send_body x body buffered w2 = (case body of
     BodyNone _ \<Rightarrow> (Inr (), record_metric OutOk w2)
   | BodyReset False \<Rightarrow> (Inr (), record_metric OutOk w2)
   | BodyReset True \<Rightarrow> (Inl (Committed Connect), w2)
   | BodyLength len \<Rightarrow>
       (if len < length buffered then (Inl (Committed Malformed), w2)
        else case write_committed x buffered w2 of
            (Inl e, w3) \<Rightarrow> (Inl e, w3)
          | (Inr _, w3) \<Rightarrow>
              (case copy_exact x (px_copy_late x) (len - length buffered) w3 of
                 (Inl e, w4) \<Rightarrow> (Inl e, w4)
               | (Inr _, w4) \<Rightarrow> (Inr (), record_metric OutOk w4))))"

lemma send_body_spec: "send_body x body buffered w = (r, w') \<Longrightarrow> same_egress w w' \<and> accounted w r w' \<and> (\<forall>e. r \<noteq> Inl (Precommit e))"
proof (cases body)
  case (BodyLength len)
  obtain r3 w3 where w3: "write_committed x buffered w = (r3, w3)" by (cases "write_committed x buffered w")
  obtain r4 w4 where w4: "copy_exact x (px_copy_late x) (len - length buffered) w3 = (r4, w4)"
    by (cases "copy_exact x (px_copy_late x) (len - length buffered) w3")
  assume a: "send_body x body buffered w = (r, w')"
  show ?thesis
  proof (cases "len < length buffered")
    case True
    then show ?thesis using a BodyLength by (auto simp: send_body_def same_egress_def)
  next
    case False
    show ?thesis
      using a write_committed_keeps[OF w3] write_committed_error[of x buffered w _ w3] copy_exact_keeps[OF w4] BodyLength False w3 w4
      by (cases r3; cases r4) (auto simp: send_body_def intro: same_trans(1))
  qed
qed (auto simp: send_body_def same_egress_def record_metric_def split: bool.splits)

lemma forward_response_spec: "forward_response x m w = (r, w') \<Longrightarrow> same_egress w w' \<and> accounted w r w'"
proof -
  assume a: "forward_response x m w = (r, w')"
  obtain got up where g: "read_head (px_max_header_bytes x) (wr_upstream w) = (got, up)"
    by (cases "read_head (px_max_header_bytes x) (wr_upstream w)")
  let ?w1 = "w\<lparr>wr_upstream := up\<rparr>"
  have s1: "same_egress w ?w1" "same_client w ?w1" by (simp_all add: same_egress_def same_client_def)
  show ?thesis
  proof (cases "px_response_late x \<or> (\<exists>e. got = Inl e)")
    case True
    then show ?thesis using a g s1 by (auto simp: forward_response_def same_trans split: if_splits)
  next
    case False
    then obtain head buffered where got: "got = Inr (head, buffered)" by (cases got) auto
    let ?p = "rbind (ParsedResponse_parse (px_http_response x) head (px_max_headers x)) (\<lambda>response.
                    rbind (body_mode response m (buffered \<noteq> [])) (\<lambda>body.
                      rbind (response_headers response body) (\<lambda>headers. Inr (response, body, headers))))"
    show ?thesis
    proof (cases ?p)
      case (Inl e)
      then show ?thesis using a g got False s1 by (auto simp: forward_response_def)
    next
      case (Inr t)
      then obtain response body headers where t: "?p = Inr (response, body, headers)" by (cases t) auto
      let ?h = "as_bytes (response_head response headers)"
      obtain r2 w2 where c: "write_committed x ?h ?w1 = (r2, w2)" by (cases "write_committed x ?h ?w1")
      have e: "(r, w') = (case r2 of Inl e \<Rightarrow> (Inl e, w2) | Inr _ \<Rightarrow> send_body x body buffered w2)"
        using a g got t c False unfolding forward_response_def send_body_def by (auto split: sum.splits)
      show ?thesis
      proof (cases r2)
        case (Inl er)
        then show ?thesis using e c s1 write_committed_keeps[OF c] write_committed_accounted[of x ?h ?w1 er w2]
          by (auto intro: same_trans accounted_after)
      next
        case Inr2: (Inr u)
        then have "send_body x body buffered w2 = (r, w')" using e by simp
        from send_body_spec[OF this] have b: "same_egress w2 w'" "accounted w2 r w'" "\<forall>e. r \<noteq> Inl (Precommit e)" by auto
        have k: "same_egress ?w1 w2" "wr_metrics w2 = wr_metrics ?w1" using write_committed_keeps[OF c] by auto
        have "accounted w r w'" using b(2,3) k(2)
          by (auto simp: accounted_def split: sum.splits connection_error.splits)
        then show ?thesis using s1(1) b(1) k(1) same_trans(1) by blast
      qed
    qed
  qed
qed


section \<open>Egress by consent\<close>

definition consented :: "proxy_env \<Rightarrow> website_origin \<Rightarrow> command_tag option \<Rightarrow> bool" where
  "consented x origin call \<longleftrightarrow>
     \<not> is_refused_host (ae_upstream_hosts (px_admit x)) (wo_hostname origin)
     \<and> policy_evaluate (ae_policy (px_admit x)) origin = WebAllow
     \<and> (case ae_decide (px_admit x) origin call of
          Some DecideAllow \<Rightarrow> True | Some (AllowAndRecord _) \<Rightarrow> True
        | Some DecideAsk \<Rightarrow> Answered (Some True) \<in> set (ae_hold_events (px_admit x))
        | _ \<Rightarrow> False)"

definition public_addresses :: "proxy_env \<Rightarrow> website_origin \<Rightarrow> socket_addr list \<Rightarrow> bool" where
  "public_addresses x origin addrs \<longleftrightarrow>
     px_resolve x (wo_hostname origin) (wo_port origin) = Some (Some addrs) \<and> addrs \<noteq> [] \<and> (\<forall>a \<in> set addrs. is_public_ip (fst a))"

text \<open>
  What a plain request may put on the wire, and what a tunnel may: with \<open>after_head\<close> what the client sends after
  its request head (bytes read along with the head, bytes sent while the request was held, and the rest of its
  stream), the tunnel's bytes are those bytes in order, starting with records that pass the ClientHello check.
\<close>

definition plain_egress :: "proxy_env \<Rightarrow> parsed_request \<Rightarrow> website_origin \<Rightarrow> octets \<Rightarrow> bool" where
  "plain_egress x request origin sent \<longleftrightarrow> (\<exists>authority target len.
     parse_http_target (px_url x) (rq_target request) = Inr (authority, target)
     \<and> WebsiteOrigin_parse (px_url x) (str ''http://'' @ authority) = Inr origin
     \<and> (len = None \<or> len = Some 0)
     \<and> (sent = [] \<or> (\<exists>headers. sanitized_headers request authority len = Inr headers
          \<and> prefix sent (as_bytes (request_head request target @ concat (map header_line headers) @ [13, 10])))))"

definition after_head :: "proxy_env \<Rightarrow> website_origin \<Rightarrow> command_tag option \<Rightarrow> octets \<Rightarrow> wire \<Rightarrow> octets" where
  "after_head x origin call buffered w =
     fst (snd (admit_origin (px_admit x) origin call buffered (wr_holds w))) @ data (wr_client w)"

definition tunnel_egress ::
    "proxy_env \<Rightarrow> parsed_request \<Rightarrow> command_tag option \<Rightarrow> octets \<Rightarrow> wire \<Rightarrow> website_origin \<Rightarrow> octets \<Rightarrow> bool" where
  "tunnel_egress x request call buffered w origin sent \<longleftrightarrow> (\<exists>authority.
     strict_connect_authority (px_url x) (rq_target request) = Inr authority
     \<and> WebsiteOrigin_parse (px_url x) (str ''https://'' @ authority) = Inr origin
     \<and> (sent = [] \<or> (\<exists>hello. inspect_records (px_url x) hello origin = Inr InspectComplete
          \<and> (prefix sent hello \<or> prefix hello sent) \<and> prefix hello (after_head x origin call buffered w)
          \<and> prefix sent (after_head x origin call buffered w))))"

lemma outbound_loop_bytes: "outbound_loop cap hs out = Inr res \<Longrightarrow> res = out @ concat (map header_line hs)"
  by (induction hs arbitrary: out) (fastforce simp: Let_def split: if_splits)+

lemma resolve_public_sound: "resolve_public x origin = Inr addrs \<Longrightarrow> public_addresses x origin addrs"
  by (auto simp: resolve_public_def public_addresses_def list_ex_iff split: option.splits if_splits)

lemma admitted_consented:
  assumes "admit_wire x origin call buffered w = (Inr (), b, w')"
  shows "consented x origin call"
proof -
  obtain st where a: "admit_origin (px_admit x) origin call buffered (wr_holds w) = (Inr (), b, st)"
    using assms by (auto simp: admit_wire_def split: prod.splits)
  show ?thesis using admit_origin_consent[OF a] by (auto simp: consented_def)
qed


text \<open>What a handler may have done to the upstream side: nothing, or a connection to the public addresses of a
  consented origin, with only the bytes \<open>may_send\<close> accepts.\<close>

definition egress_ok ::
    "proxy_env \<Rightarrow> command_tag option \<Rightarrow> (website_origin \<Rightarrow> octets \<Rightarrow> bool) \<Rightarrow> wire \<Rightarrow> wire \<Rightarrow> bool" where
  "egress_ok x call may_send w w' \<longleftrightarrow> same_egress w w' \<or>
     (\<exists>origin addrs sent. consented x origin call \<and> public_addresses x origin addrs \<and> wr_connected w' = Some addrs
        \<and> wr_to_upstream w' = wr_to_upstream w @ sent \<and> may_send origin sent)"

lemma egress_ok_later: "egress_ok x call may_send w w1 \<Longrightarrow> same_egress w1 w' \<Longrightarrow> egress_ok x call may_send w w'"
  by (auto simp: egress_ok_def same_egress_def)

lemma egress_ok_earlier: "same_egress w w1 \<Longrightarrow> egress_ok x call may_send w1 w' \<Longrightarrow> egress_ok x call may_send w w'"
  by (auto simp: egress_ok_def same_egress_def)

lemma http_request_originD:
  assumes "http_request_origin x request buffered = Inr (authority, target, origin, len)"
  shows "parse_http_target (px_url x) (rq_target request) = Inr (authority, target)"
    "WebsiteOrigin_parse (px_url x) (str ''http://'' @ authority) = Inr origin" "len = None \<or> len = Some 0" "buffered = []"
  using assms by (auto simp: http_request_origin_def rbind_def map_err_def ok_or_def split: sum.splits prod.splits option.splits if_splits)

text \<open>The part of both handlers that reaches out: resolve, check, connect.\<close>

lemma reach_out:
  assumes "admit_wire x origin call buffered w = (Inr (), b, w1)" "resolve_public x origin = Inr addrs"
    "connect_addresses x addrs w1 = (r, w2)"
  shows "same_client w w2" "wr_to_upstream w2 = wr_to_upstream w" "wr_connected w2 = Some addrs"
    "consented x origin call" "public_addresses x origin addrs"
  using admit_wire_keeps[OF assms(1)] connect_keeps[OF assms(3)] admitted_consented[OF assms(1)] resolve_public_sound[OF assms(2)]
  by (auto simp: same_egress_def same_client_def)

lemma http_handle_spec:
  assumes h: "http_handle x request buffered call w = (r, w')"
  shows "egress_ok x call (plain_egress x request) w w' \<and> accounted w r w'"
proof (cases "http_request_origin x request buffered")
  case (Inl e)
  then show ?thesis using h by (auto simp: http_handle_def egress_ok_def same_trans)
next
  case (Inr t)
  then obtain authority target origin len where t: "http_request_origin x request buffered = Inr (authority, target, origin, len)"
    by (cases t) auto
  note q = http_request_originD[OF t]
  obtain r1 b w1 where a: "admit_wire x origin call buffered w = (r1, b, w1)" by (cases "admit_wire x origin call buffered w")
  note ka = admit_wire_keeps[OF a]
  show ?thesis
  proof (cases "(\<exists>e. r1 = Inl e) \<or> b \<noteq> [] \<or> (\<exists>e. resolve_public x origin = Inl e)")
    case True
    then show ?thesis using h t a ka accounted_from_admit[of w w1]
      by (auto simp: http_handle_def egress_ok_def split: sum.splits if_splits)
  next
    case False
    then obtain addrs where ok: "r1 = Inr ()" "b = []" and rs: "resolve_public x origin = Inr addrs"
      by (cases r1; cases "resolve_public x origin") auto
    obtain r2 w2 where c: "connect_addresses x addrs w1 = (r2, w2)" by (cases "connect_addresses x addrs w1")
    note ro = reach_out[OF a[unfolded ok] rs c]
    have quiet: "plain_egress x request origin []" 
      using q(1-3) unfolding plain_egress_def by blast
    have at2: "egress_ok x call (plain_egress x request) w w2" 
      using ro(2-5) quiet unfolding egress_ok_def by (metis append_Nil2)
    let ?hs = "rbind (sanitized_headers request authority len) (\<lambda>headers.
                  outbound_loop (px_max_header_bytes x) headers (request_head request target))"
    show ?thesis
    proof (cases "(\<exists>e. r2 = Inl e) \<or> (\<exists>e. ?hs = Inl e)")
      case True
      then show ?thesis using h t a ok rs c at2 ro(1) by (auto simp: http_handle_def split: sum.splits)
    next
      case False
      then obtain out where o: "r2 = Inr ()" "?hs = Inr out" by (cases r2; cases ?hs) auto
      then obtain headers where hd: "sanitized_headers request authority len = Inr headers"
        "out = request_head request target @ concat (map header_line headers)"
        by (auto simp: rbind_def split: sum.splits dest: outbound_loop_bytes)
      let ?b = "as_bytes (out @ [13, 10])"
      obtain r3 w3 where u: "write_upstream x ?b w2 = (r3, w3)" by (cases "write_upstream x ?b w2")
      from write_upstream_keeps[OF u] obtain sent
        where s: "wr_to_upstream w3 = wr_to_upstream w2 @ sent" "prefix sent ?b" "wr_connected w3 = wr_connected w2" "same_client w2 w3"
        by blast
      have may: "plain_egress x request origin sent"
        using q(1-3) hd(1) s(2) unfolding plain_egress_def hd(2) append_assoc by blast
      have at3: "egress_ok x call (plain_egress x request) w w3"
        using s(1,3) ro(2-5) may unfolding egress_ok_def by metis
      have c3: "same_client w w3" using ro(1) s(4) by (rule same_trans(2))
      show ?thesis
      proof (cases r3)
        case (Inl e)
        then show ?thesis using h t a ok rs c o u at3 c3 by (auto simp: http_handle_def)
      next
        case (Inr v)
        then have "forward_response x (rq_method request) w3 = (r, w')" using h t a ok rs c o u by (simp add: http_handle_def)
        from forward_response_spec[OF this] show ?thesis using egress_ok_later[OF at3] accounted_after[OF c3] by blast
      qed
    qed
  qed
qed


lemma hello_loop_rest: "hello_loop u og cap pre s = (Inr bytes, s') \<Longrightarrow> bytes @ data s' = pre @ data s"
proof (induction u og cap pre s rule: hello_loop.induct)
  case (1 u og cap pre s)
  show ?case
  proof (cases "inspect_records u pre og = Inr InspectIncomplete \<and> \<not> cap \<le> length pre")
    case False
    then show ?thesis using 1(2) by (subst (asm) hello_loop.simps) (auto split: sum.splits inspect.splits if_splits)
  next
    case True
    obtain x s1 where rd: "stream_read (min (cap - length pre) 4096) s = (x, s1)" by fastforce
    then obtain got where got: "x = Inr got" "got \<noteq> []" "hello_loop u og cap (pre @ got) s1 = (Inr bytes, s')"
      using 1(2) True by (subst (asm) hello_loop.simps) (auto split: sum.splits if_splits)
    have "data s = got @ data s1" using stream_read_data[OF _ rd] True got by auto
    then show ?thesis using 1(1)[OF _ refl _ rd[symmetric] got(1,2)] got(3) True by simp
  qed
qed

text \<open>What the relay sends: the rest of the client's stream, or a first part of it.\<close>

lemma relay_tunnel_spec:
  assumes "relay_tunnel x w = (r, w')"
  shows "wr_connected w' = wr_connected w \<and> (\<exists>sent. wr_to_upstream w' = wr_to_upstream w @ sent \<and> prefix sent (data (wr_client w)))
    \<and> accounted w r w'"
proof -
  let ?w0 = "w\<lparr>wr_tunnel := True, wr_client := [], wr_upstream := []\<rparr>"
  obtain ended up down where b: "relay_bytes (px_relay x) (wr_client w) (wr_upstream w) = (ended, up, down)"
    by (cases "relay_bytes (px_relay x) (wr_client w) (wr_upstream w)")
  then have up: "prefix up (data (wr_client w))" by (auto simp: relay_bytes_def take_is_prefix split: relay_end.splits)
  obtain r1 w1 where u: "write_upstream x up ?w0 = (r1, w1)" by (cases "write_upstream x up ?w0")
  obtain r2 w2 where d: "write_committed x down w1 = (r2, w2)" by (cases "write_committed x down w1")
  have e: "(r, w') = (if ended \<and> r1 = Inr () \<and> r2 = Inr () then (Inr (), record_metric OutOk w2) else (Inl (Committed Connect), w2))"
    using assms b u d by (simp add: relay_tunnel_def)
  show ?thesis
    using e write_upstream_keeps[OF u] write_committed_keeps[OF d] up
    by (auto simp: same_egress_def same_client_def record_metric_def split: if_splits intro: prefix_order.trans)
qed

lemma relay_forwards_all:
  assumes "px_relay x = RelayClosed" "ends_cleanly (wr_client w)" "ends_cleanly (wr_upstream w)"
    "px_client_room x = None" "px_upstream_room x = None"
  shows "fst (relay_tunnel x w) = Inr ()"
    "wr_to_upstream (snd (relay_tunnel x w)) = wr_to_upstream w @ data (wr_client w)"
    "wr_to_client (snd (relay_tunnel x w)) = wr_to_client w @ data (wr_upstream w)"
  using assms by (simp_all add: relay_tunnel_def relay_bytes_def write_upstream_def write_committed_def write_all_def record_metric_def)

lemma relay_committed: "relay_tunnel x w = (r, w') \<Longrightarrow> r \<noteq> Inl (Precommit e)"
  by (auto simp: relay_tunnel_def split: prod.splits if_splits)

lemma keeps_client_stream:
  "admit_wire x origin call buffered w = (r1, b, w1) \<Longrightarrow>
     wr_client w1 = wr_client w \<and> b = fst (snd (admit_origin (px_admit x) origin call buffered (wr_holds w)))"
  "connect_addresses x addrs w = (r2, w2) \<Longrightarrow> wr_client w2 = wr_client w"
  "write_committed x bytes w = (r3, w3) \<Longrightarrow> wr_client w3 = wr_client w"
  "write_upstream x bytes w = (r4, w4) \<Longrightarrow> wr_client w4 = wr_client w"
  by (auto simp: admit_wire_def connect_addresses_def write_committed_def write_upstream_def Let_def split: prod.splits option.splits)

lemma write_upstream_all: "write_upstream x bytes w = (Inr u, w') \<Longrightarrow> wr_to_upstream w' = wr_to_upstream w @ bytes"
  by (auto simp: write_upstream_def dest: write_all_prefix split: prod.splits if_splits)

lemma connect_request_originD:
  assumes "connect_request_origin x request = Inr origin"
  obtains authority where "strict_connect_authority (px_url x) (rq_target request) = Inr authority"
    "WebsiteOrigin_parse (px_url x) (str ''https://'' @ authority) = Inr origin"
  using assms by (auto simp: connect_request_origin_def rbind_def map_err_def split: sum.splits if_splits)

lemma read_client_hello_inspected:
  "read_client_hello url_parse s pre cap late origin = (Inr bytes, s') \<Longrightarrow> inspect_records url_parse bytes origin = Inr InspectComplete"
  using hello_loop_sound[of url_parse origin cap pre s bytes] by (auto simp: read_client_hello_def split: if_splits)

lemma connect_handle_spec:
  assumes h: "connect_handle x request buffered call w = (r, w')"
  shows "egress_ok x call (tunnel_egress x request call buffered w) w w' \<and> accounted w r w'"
proof (cases "connect_request_origin x request")
  case (Inl e)
  then show ?thesis using h by (auto simp: connect_handle_def egress_ok_def same_trans)
next
  case t: (Inr origin)
  obtain authority where q: "strict_connect_authority (px_url x) (rq_target request) = Inr authority"
    "WebsiteOrigin_parse (px_url x) (str ''https://'' @ authority) = Inr origin"
    using connect_request_originD[OF t] .
  obtain r1 b w1 where a: "admit_wire x origin call buffered w = (r1, b, w1)" by (cases "admit_wire x origin call buffered w")
  note ka = admit_wire_keeps[OF a]
  show ?thesis
  proof (cases "(\<exists>e. r1 = Inl e) \<or> (\<exists>e. resolve_public x origin = Inl e)")
    case True
    then show ?thesis using h t a ka accounted_from_admit[of w w1]
      by (auto simp: connect_handle_def egress_ok_def split: sum.splits)
  next
    case False
    then obtain addrs where ok: "r1 = Inr ()" and rs: "resolve_public x origin = Inr addrs"
      by (cases r1; cases "resolve_public x origin") auto
    obtain r2 w2 where c: "connect_addresses x addrs w1 = (r2, w2)" by (cases "connect_addresses x addrs w1")
    note ro = reach_out[OF a[unfolded ok] rs c]
    let ?may = "tunnel_egress x request call buffered w"
    have at2: "egress_ok x call ?may w w2"
      using ro(2-5) q unfolding egress_ok_def tunnel_egress_def by (metis append_Nil2)
    obtain r3 w3 where e: "write_committed x established w2 = (r3, w3)" by (cases "write_committed x established w2")
    note ke = write_committed_keeps[OF e]
    have at3: "egress_ok x call ?may w w3" using egress_ok_later[OF at2] ke by blast
    have m3: "wr_metrics w3 = wr_metrics w" using ke ro(1) by (simp add: same_client_def)
    obtain hr s where rh: "read_client_hello (px_url x) (wr_client w3) b (px_max_tls_client_hello_bytes x) (px_hello_late x) origin = (hr, s)"
      by (cases "read_client_hello (px_url x) (wr_client w3) b (px_max_tls_client_hello_bytes x) (px_hello_late x) origin")
    let ?w3 = "w3\<lparr>wr_client := s\<rparr>"
    have at3': "egress_ok x call ?may w ?w3" by (rule egress_ok_later[OF at3]) (simp add: same_egress_def)
    show ?thesis
    proof (cases "(\<exists>e. r2 = Inl e) \<or> (\<exists>e. r3 = Inl e) \<or> (\<exists>e. hr = Inl e)")
      case True
      then show ?thesis using h t a ok rs c e rh at2 at3 at3' ro(1) m3 write_committed_error[of x established w2 _ w3]
        by (auto simp: connect_handle_def split: sum.splits)
    next
      case False
      then obtain pre where o: "r2 = Inr ()" "r3 = Inr ()" "hr = Inr pre" by (cases r2; cases r3; cases hr) auto
      obtain r4 w4 where u: "write_upstream x pre ?w3 = (r4, w4)" by (cases "write_upstream x pre ?w3")
      from write_upstream_keeps[OF u] obtain sent
        where s: "wr_to_upstream w4 = wr_to_upstream w3 @ sent" "prefix sent pre" "wr_connected w4 = wr_connected w3" "same_client ?w3 w4"
        by auto
      have "pre @ data s = b @ data (wr_client w)"
        using hello_loop_rest[of "px_url x" origin "px_max_tls_client_hello_bytes x" b "wr_client w3" pre s] rh[unfolded o(3)]
          keeps_client_stream(1)[OF a] keeps_client_stream(2)[OF c] keeps_client_stream(3)[OF e]
        by (simp add: read_client_hello_def split: if_splits)
      then have stream: "pre @ data s = after_head x origin call buffered w"
        using keeps_client_stream(1)[OF a] by (simp add: after_head_def)
      have may: "?may origin bytes" if "prefix bytes pre \<or> (\<exists>more. bytes = pre @ more \<and> prefix more (data s))" for bytes
      proof -
        have "prefix bytes (pre @ data s) \<and> (prefix bytes pre \<or> prefix pre bytes)" using that by auto
        moreover have "prefix pre (pre @ data s)" by simp
        ultimately show ?thesis
          using q read_client_hello_inspected[OF rh[unfolded o]] unfolding tunnel_egress_def stream[symmetric] by blast
      qed
      have at4: "egress_ok x call ?may w w4"
        using s(1,3) may[of sent] s(2) ke ro(2-5) unfolding egress_ok_def same_egress_def by metis
      have m4: "wr_metrics w4 = wr_metrics w" using s(4) m3 by (simp add: same_client_def)
      show ?thesis
      proof (cases r4)
        case (Inl ee)
        then show ?thesis using h t a ok rs c e rh o u at4 m4 by (auto simp: connect_handle_def)
      next
        case (Inr v)
        then have "relay_tunnel x w4 = (r, w')" using h t a ok rs c e rh o u by (simp add: connect_handle_def)
        from relay_tunnel_spec[OF this] obtain more where m: "wr_connected w' = wr_connected w4" "accounted w4 r w'"
          "wr_to_upstream w' = wr_to_upstream w4 @ more" "prefix more (data (wr_client w4))" by blast
        have "wr_to_upstream w' = wr_to_upstream w3 @ pre @ more" "prefix more (data s)"
          using m(3,4) write_upstream_all[OF u[unfolded Inr]] keeps_client_stream(4)[OF u] by simp_all
        then have "egress_ok x call ?may w w'"
          using may[of "pre @ more"] m(1) s(3) ke ro(2-5) unfolding egress_ok_def same_egress_def by (metis append_assoc)
        moreover have "accounted w r w'" 
          using m(2) m4 relay_committed[OF \<open>relay_tunnel x w4 = (r, w')\<close>] by (auto simp: accounted_def split: sum.splits connection_error.splits)
        ultimately show ?thesis by blast
      qed
    qed
  qed
qed


text \<open>Who a request comes from: a live credential it presents, or nobody when the decider lets such requests in.\<close>

definition authenticated :: "proxy_env \<Rightarrow> parsed_request \<Rightarrow> command_tag option \<Rightarrow> bool" where
  "authenticated x request call \<longleftrightarrow>
     (\<exists>header. single_header Malformed (rq_headers request) (str ''proxy-authorization'') = Inr (Some header)
        \<and> authenticate (px_b64 x) (px_credentials x) header = Inr call)
     \<or> px_admits_unauthenticated x \<and> call = None"

lemma authenticate_request_sound: "authenticate_request x request = Inr call \<Longrightarrow> authenticated x request call"
  by (auto simp: authenticate_request_def authenticated_def rbind_def ok_or_def
      split: sum.splits option.splits proxy_error.splits if_splits)

text \<open>The request a connection starts with.\<close>

definition reads_request :: "proxy_env \<Rightarrow> wire \<Rightarrow> parsed_request \<Rightarrow> bool" where
  "reads_request x w request \<longleftrightarrow> (\<exists>head buffered.
     fst (read_head (px_max_header_bytes x) (wr_client w)) = Inr (head, buffered)
     \<and> ParsedRequest_parse (px_http_request x) head (px_max_headers x) = Inr request)"

definition request_egress ::
    "proxy_env \<Rightarrow> wire \<Rightarrow> parsed_request \<Rightarrow> command_tag option \<Rightarrow> website_origin \<Rightarrow> octets \<Rightarrow> bool" where
  "request_egress x w request call origin sent =
     (if eq_ignore_ascii_case (rq_method request) (str ''CONNECT'')
      then \<exists>head buffered s. read_head (px_max_header_bytes x) (wr_client w) = (Inr (head, buffered), s)
        \<and> tunnel_egress x request call buffered (w\<lparr>wr_client := s\<rparr>) origin sent
      else plain_egress x request origin sent)"

lemma egress_ok_mono:
  "egress_ok x call may_send w w' \<Longrightarrow> (\<And>origin sent. may_send origin sent \<Longrightarrow> may_send' origin sent) \<Longrightarrow> egress_ok x call may_send' w w'"
  unfolding egress_ok_def by blast

lemma handle_connection_spec:
  assumes h: "handle_connection x w = (r, w')"
  shows "accounted w r w' \<and> (same_egress w w' \<or>
    (\<exists>request call. reads_request x w request \<and> authenticated x request call \<and> egress_ok x call (request_egress x w request call) w w'))"
proof -
  obtain got s where g: "read_head (px_max_header_bytes x) (wr_client w) = (got, s)"
    by (cases "read_head (px_max_header_bytes x) (wr_client w)")
  let ?w1 = "w\<lparr>wr_client := s\<rparr>"
  have w1: "same_egress w ?w1" "same_client w ?w1" by (simp_all add: same_egress_def same_client_def)
  let ?p = "rbind got (\<lambda>(head, buffered).
               rbind (ParsedRequest_parse (px_http_request x) head (px_max_headers x)) (\<lambda>request.
                 rbind (authenticate_request x request) (\<lambda>call. Inr (request, buffered, call))))"
  show ?thesis
  proof (cases "px_head_late x \<or> (\<exists>e. ?p = Inl e)")
    case True
    then show ?thesis using h g w1 by (auto simp: handle_connection_def same_trans split: if_splits)
  next
    case False
    then obtain request buffered call where p: "?p = Inr (request, buffered, call)" by (cases ?p) auto
    then obtain head where q: "got = Inr (head, buffered)" "ParsedRequest_parse (px_http_request x) head (px_max_headers x) = Inr request"
      "authenticate_request x request = Inr call"
      by (auto simp: rbind_def split: sum.splits prod.splits)
    have rq: "reads_request x w request" using g q unfolding reads_request_def by auto
    note au = authenticate_request_sound[OF q(3)]
    have e: "(r, w') = (if eq_ignore_ascii_case (rq_method request) (str ''CONNECT'') then connect_handle x request buffered call ?w1
             else if eq_ignore_ascii_case (rq_method request) (str ''TRACE'') then (Inl (Precommit Malformed), ?w1)
             else http_handle x request buffered call ?w1)"
      using h[symmetric] g p False unfolding handle_connection_def Let_def by simp
    show ?thesis
    proof (cases "\<not> eq_ignore_ascii_case (rq_method request) (str ''CONNECT'') \<and> eq_ignore_ascii_case (rq_method request) (str ''TRACE'')")
      case True
      then show ?thesis using e w1 by simp
    next
      case False
      have rd: "read_head (px_max_header_bytes x) (wr_client w) = (Inr (head, buffered), s)" using g q(1) by simp
      have "egress_ok x call (request_egress x w request call) ?w1 w' \<and> accounted ?w1 r w'"
      proof (cases "eq_ignore_ascii_case (rq_method request) (str ''CONNECT'')")
        case c: True
        then have "connect_handle x request buffered call ?w1 = (r, w')" using e by simp
        from connect_handle_spec[OF this] show ?thesis
          using egress_ok_mono[of x call "tunnel_egress x request call buffered ?w1" ?w1 w' "request_egress x w request call"] rd c
          by (auto simp: request_egress_def)
      next
        case c: False
        then have "http_handle x request buffered call ?w1 = (r, w')" using e False by simp
        from http_handle_spec[OF this] show ?thesis
          using egress_ok_mono[of x call "plain_egress x request" ?w1 w' "request_egress x w request call"] c
          by (auto simp: request_egress_def)
      qed
      then show ?thesis using rq au egress_ok_earlier[OF w1(1)] accounted_after[OF w1(2)] by blast
    qed
  qed
qed

lemma serve_connection_egress: "handle_connection x w = (r, w1) \<Longrightarrow> same_egress w1 (serve_connection x w)"
  using write_error_keeps[of "record_metric _ w1" x]
  by (auto simp: serve_connection_def same_egress_def record_metric_def split: sum.splits connection_error.splits)

lemma egress_consent:
  assumes "wr_connected w = None" "wr_to_upstream w = []"
  shows "wr_connected (serve_connection x w) = None \<and> wr_to_upstream (serve_connection x w) = [] \<or>
    (\<exists>request call origin addrs. reads_request x w request \<and> authenticated x request call
       \<and> consented x origin call \<and> public_addresses x origin addrs \<and> wr_connected (serve_connection x w) = Some addrs
       \<and> request_egress x w request call origin (wr_to_upstream (serve_connection x w)))"
proof -
  obtain r w1 where h: "handle_connection x w = (r, w1)" by (cases "handle_connection x w")
  have s: "wr_connected (serve_connection x w) = wr_connected w1" "wr_to_upstream (serve_connection x w) = wr_to_upstream w1"
    using serve_connection_egress[OF h] by (auto simp: same_egress_def)
  show ?thesis using handle_connection_spec[OF h] assms unfolding s egress_ok_def same_egress_def by auto
qed

text \<open>
  C5: Nothing leaves but by consent. On a fresh connection, if the proxy connects anywhere, then the client's
  bytes hold one well-formed request, which presents a live credential (or the decider lets requests without
  one in); the origin it names is not refused by the vendor guard, is allowed by the policy and was allowed by
  the decider or answered yes while held; the connection is to the resolved addresses of that origin and every
  one of them is public. What has been sent there is at most the rewritten request for that origin or, in a
  tunnel, a first part of what the client sent after its request head, in order and unchanged, which begins with
  bytes that passed the ClientHello check for that origin (or is a first part of them): a tunnel relays whatever
  follows its ClientHello without looking at it. If the proxy connects nowhere, nothing has been sent.
\<close>

theorem egress_by_consent:
  fixes x :: proxy_env and w :: wire
  assumes "wr_connected w = None" "wr_to_upstream w = []"
  defines "w' \<equiv> serve_connection x w"
  shows "wr_connected w' = None \<and> wr_to_upstream w' = [] \<or>
    (\<exists>request call origin addrs. reads_request x w request \<and> authenticated x request call
       \<and> consented x origin call \<and> public_addresses x origin addrs \<and> wr_connected w' = Some addrs
       \<and> request_egress x w request call origin (wr_to_upstream w'))"
  unfolding w'_def by (rule egress_consent[OF assms(1,2)])

text \<open>A plain request with the session token, asked about and answered yes.\<close>

definition sample_view :: http_request_view where
  "sample_view = \<lparr>hq_complete = True, hq_version = Some 1, hq_method = Some (str ''GET''), hq_path = Some (str ''http://a.io/x''),
     hq_headers = [(str ''Host'', str ''a.io''), (str ''Proxy-Authorization'', str ''Bearer k'')]\<rparr>"

definition sample_env :: proxy_env where
  "sample_env = \<lparr>px_url = plain_url, px_http_request = (\<lambda>_ _. Inr sample_view),
     px_http_response = (\<lambda>_ _. Inl TooManyHeaders), px_b64 = (\<lambda>_. None), px_credentials = credentials_new (str ''k''),
     px_admits_unauthenticated = False, px_admit = asking_env\<lparr>ae_hold_events := [Answered (Some True)]\<rparr>,
     px_resolve = (\<lambda>_ _. Some (Some [(V4 (Ipv4 93 184 216 34), 80)])), px_connect = (\<lambda>_. Some (Some [])),
     px_relay = RelayClosed, px_max_header_bytes = 999, px_max_headers = 9, px_max_tls_client_hello_bytes = 999,
     px_head_late = False, px_hello_late = False, px_response_late = True, px_copy_late = None,
     px_client_room = None, px_upstream_room = None\<rparr>"

definition sample_wire :: wire where
  "sample_wire = \<lparr>wr_client = [Arrives (str ''GET'' @ CRLF2)], wr_upstream = [], wr_connected = None, wr_to_upstream = [], wr_to_client = [],
     wr_tunnel = False, wr_holds = hold_state_new 16 8, wr_metrics = (\<lambda>_. 0)\<rparr>"

lemma http_handle_connects:
  assumes t: "http_request_origin x request buffered = Inr (authority, target, origin, len)"
    and a: "admit_wire x origin call buffered w = (Inr (), [], w1)" and rs: "resolve_public x origin = Inr addrs"
  shows "wr_connected (snd (http_handle x request buffered call w)) = Some addrs"
proof -
  obtain r2 w2 where c: "connect_addresses x addrs w1 = (r2, w2)" by (cases "connect_addresses x addrs w1")
  note k = connect_keeps[OF c]
  have up: "wr_connected (snd (write_upstream x b w2)) = Some addrs" for b
    using k write_upstream_keeps[of x b w2] by (cases "write_upstream x b w2") auto
  have fw: "wr_connected (snd (forward_response x m w3)) = wr_connected w3" for m w3
    using forward_response_spec[of x m w3] by (cases "forward_response x m w3") (auto simp: same_egress_def)
  show ?thesis using t a rs c k up fw unfolding http_handle_def
    by (auto split: sum.splits prod.splits) (metis snd_conv)+
qed

lemma sample_http_urls:
  "plain_url (str ''http://a.io'') = Some \<lparr>uv_scheme = str ''http'', uv_host = Some (HostDomain (str ''a.io'')), uv_port = Some 80\<rparr>"
  "plain_url (str ''http://a.io:80'') = Some \<lparr>uv_scheme = str ''http'', uv_host = Some (HostDomain (str ''a.io'')), uv_port = Some 80\<rparr>"
proof -
  have s: "split_host_port (str ''a.io:80'') = (str ''a.io'', Some (str ''80''))" "split_host_port (str ''a.io'') = (str ''a.io'', None)"
    "drop 7 (str ''http://a.io:80'') = str ''a.io:80''" "\<not> starts_with (str ''https://'') (str ''http://a.io:80'')"
    "drop 7 (str ''http://a.io'') = str ''a.io''" "\<not> starts_with (str ''https://'') (str ''http://a.io'')" by code_simp+
  moreover have "parse_u16 (str ''80'') = Some 80"
    by (simp add: parse_u16_def parse_u64_def digits_value_def str_def is_ascii_digit_def)
  ultimately show "plain_url (str ''http://a.io'') = Some \<lparr>uv_scheme = str ''http'', uv_host = Some (HostDomain (str ''a.io'')), uv_port = Some 80\<rparr>"
    "plain_url (str ''http://a.io:80'') = Some \<lparr>uv_scheme = str ''http'', uv_host = Some (HostDomain (str ''a.io'')), uv_port = Some 80\<rparr>"
    by (simp_all add: plain_url_def)
qed

definition http_origin :: website_origin where
  "http_origin = \<lparr>wo_scheme = str ''http'', wo_hostname = str ''a.io'', wo_port = 80\<rparr>"

lemma sample_http_origins:
  "WebsiteOrigin_parse plain_url (str ''http://a.io'') = Inr http_origin" "WebsiteOrigin_parse plain_url (str ''http://a.io:80'') = Inr http_origin"
proof -
  have "validate_raw_origin (str ''http://a.io'') = Inr ()" "validate_raw_origin (str ''http://a.io:80'') = Inr ()"
    "drop_last_char (ch CHR ''.'') (str ''a.io'') = str ''a.io''" "lower_ascii (str ''a.io'') = str ''a.io''"
    "valid_dns_hostname (str ''a.io'')" "\<not> parses_as_ip (str ''a.io'')"
    by code_simp+
  then show "WebsiteOrigin_parse plain_url (str ''http://a.io'') = Inr http_origin" "WebsiteOrigin_parse plain_url (str ''http://a.io:80'') = Inr http_origin"
    by (simp_all add: WebsiteOrigin_parse_def sample_http_urls Let_def http_origin_def)
qed

definition sample_get :: parsed_request where
  "sample_get = \<lparr>rq_method = str ''GET'', rq_target = str ''http://a.io/x'',
     rq_headers = [(str ''Host'', str ''a.io''), (str ''Proxy-Authorization'', str ''Bearer k'')]\<rparr>"

lemma sample_get_origin: "http_request_origin sample_env sample_get [] = Inr (str ''a.io:80'', str ''/x'', http_origin, None)"
proof -
  have n: "normalize_authority plain_url (str ''a.io'') (str ''http'') = Inr (str ''a.io:80'')"
  proof -
    have "str ''http'' @ str ''://'' @ str ''a.io'' = str ''http://a.io''" "wo_hostname http_origin @ str '':'' @ show_nat (wo_port http_origin) = str ''a.io:80''"
      by code_simp+
    then show ?thesis by (simp only: normalize_authority_def sample_http_origins map_err_simps rbind_simps)
  qed
  have "strip_prefix (str ''http://'') (str ''http://a.io/x'') = Some (str ''a.io/x'')"
    "ch CHR ''#'' \<notin> set (str ''a.io/x'')" "ch CHR ''@'' \<notin> set (str ''a.io/x'')" "ch CHR 0x5C \<notin> set (str ''a.io/x'')" "\<not> starts_with (str '':'') (str ''a.io/x'')"
    "takeWhile (\<lambda>c. c \<noteq> ch CHR ''/'' \<and> c \<noteq> ch CHR ''?'') (str ''a.io/x'') = str ''a.io''"
    "drop (length (str ''a.io'')) (str ''a.io/x'') = str ''/x''" "str ''a.io'' \<noteq> []" "str ''/x'' \<noteq> []" "\<not> starts_with (str ''?'') (str ''/x'')"
    by code_simp+
  then have "parse_http_target plain_url (str ''http://a.io/x'') = Inr (str ''a.io:80'', str ''/x'')"
    by (simp add: parse_http_target_def n Let_def)
  moreover have "single_header Malformed (rq_headers sample_get) (str ''host'') = Inr (Some (str ''a.io''))" "framing sample_get = Inr None"
    "str ''http://'' @ str ''a.io:80'' = str ''http://a.io:80''" by code_simp+
  ultimately show ?thesis by (simp add: http_request_origin_def sample_env_def n sample_http_origins sample_get_def)
qed

lemma sample_admitted:
  "admit_wire sample_env http_origin None [] w0 = (Inr (), [], w1)" if "w0 = sample_wire\<lparr>wr_client := []\<rparr>"
    "w1 = snd (snd (admit_wire sample_env http_origin None [] w0))" for w0 w1
proof -
  have "\<not> is_refused_host None (str ''a.io'')" by code_simp
  then have "fst (admit_origin (px_admit sample_env) http_origin None [] (hold_state_new 16 8)) = Inr ()"
    "fst (snd (admit_origin (px_admit sample_env) http_origin None [] (hold_state_new 16 8))) = []"
    by (simp_all add: admit_origin_def asking_env_def sample_env_def http_origin_def policy_evaluate_def park_def try_take_def hold_state_new_def
        budget_new_def hmap_simps settle_hold_def MAX_HELD_CLIENT_BYTES_def)
  then show ?thesis unfolding that(2) that(1) sample_wire_def by (auto simp: admit_wire_def case_prod_beta prod_eq_iff)
qed

text \<open>The same connection under any admission that lets it through.\<close>

lemma sample_connects:
  assumes "admit_wire (sample_env\<lparr>px_admit := e\<rparr>) http_origin None [] (sample_wire\<lparr>wr_client := []\<rparr>) = (Inr (), [], w1)"
  shows "wr_connected (serve_connection (sample_env\<lparr>px_admit := e\<rparr>) sample_wire) = Some [(V4 (Ipv4 93 184 216 34), 80)]"
proof -
  let ?x = "sample_env\<lparr>px_admit := e\<rparr>" and ?head = "str ''GET'' @ CRLF2" and ?addrs = "[(V4 (Ipv4 93 184 216 34), 80 :: nat)]"
  let ?w0 = "sample_wire\<lparr>wr_client := []\<rparr>"
  have "find_sub CRLF2 ?head = Some 3" "find_sub CRLF2 [] = None" "length ?head = 7" "str ''GET'' \<noteq> []" by code_simp+
  then have rd: "read_head 999 (wr_client sample_wire) = (Inr (?head, []), [])"
    by (simp add: sample_wire_def read_head_def read_head_loop.simps)
  have pr: "ParsedRequest_parse (px_http_request sample_env) ?head 9 = Inr sample_get" by code_simp
  have "authenticate_request ?x sample_get = authenticate_request sample_env sample_get" by (simp add: authenticate_request_def)
  also have "\<dots> = Inr None" by code_simp
  finally have au: "authenticate_request ?x sample_get = Inr None" .
  have m: "\<not> eq_ignore_ascii_case (rq_method sample_get) (str ''CONNECT'')" "\<not> eq_ignore_ascii_case (rq_method sample_get) (str ''TRACE'')"
    by code_simp+
  have "is_public_ip (V4 (Ipv4 93 184 216 34))" by code_simp
  then have rs: "resolve_public ?x http_origin = Inr ?addrs" by (simp add: resolve_public_def sample_env_def)
  have "http_request_origin ?x sample_get [] = http_request_origin sample_env sample_get []" by (simp add: http_request_origin_def)
  then have og: "http_request_origin ?x sample_get [] = Inr (str ''a.io:80'', str ''/x'', http_origin, None)" by (simp add: sample_get_origin)
  have hc: "handle_connection ?x sample_wire = http_handle ?x sample_get [] None ?w0"
    using rd pr au m by (simp add: handle_connection_def sample_env_def)
  have "wr_connected (snd (handle_connection ?x sample_wire)) = Some ?addrs"
    unfolding hc using http_handle_connects[OF og assms rs] .
  then show ?thesis
    using serve_connection_egress[of ?x sample_wire] by (cases "handle_connection ?x sample_wire") (simp add: same_egress_def)
qed

theorem egress_by_consent_witness:
  "wr_connected (serve_connection sample_env sample_wire) = Some [(V4 (Ipv4 93 184 216 34), 80)]
   \<and> (\<exists>request call origin addrs. reads_request sample_env sample_wire request \<and> authenticated sample_env request call
       \<and> consented sample_env origin call \<and> public_addresses sample_env origin addrs
       \<and> request_egress sample_env sample_wire request call origin (wr_to_upstream (serve_connection sample_env sample_wire)))"
proof -
  have "sample_env\<lparr>px_admit := px_admit sample_env\<rparr> = sample_env" by simp
  then have "wr_connected (serve_connection sample_env sample_wire) = Some [(V4 (Ipv4 93 184 216 34), 80)]"
    using sample_connects[of "px_admit sample_env"] sample_admitted[OF refl refl] by simp
  then show ?thesis using egress_by_consent[of sample_wire sample_env] by (auto simp: sample_wire_def)
qed

text \<open>
  Every connection is counted once, and no response is spoiled. A served connection adds exactly one
  outcome to the counters: \<open>Ok\<close> when its handler succeeded, the outcome of its error otherwise, which is never
  \<open>Ok\<close>. An error page is written only to a client that had been sent nothing, and then it is all that is sent.
\<close>

theorem connection_accounts:
  fixes x :: proxy_env and w :: wire
  shows "case handle_connection x w of
      (Inr _, w1) \<Rightarrow> serve_connection x w = w1 \<and> wr_metrics w1 = metrics_record OutOk (wr_metrics w)
    | (Inl (Committed e), w1) \<Rightarrow> wr_to_client (serve_connection x w) = wr_to_client w1
        \<and> wr_metrics (serve_connection x w) = metrics_record (outcome_of e) (wr_metrics w) \<and> outcome_of e \<noteq> OutOk
    | (Inl (Precommit e), w1) \<Rightarrow> wr_to_client w1 = wr_to_client w
        \<and> wr_to_client (serve_connection x w) = wr_to_client (write_error x e w)
        \<and> wr_metrics (serve_connection x w) = metrics_record (outcome_of e) (wr_metrics w) \<and> outcome_of e \<noteq> OutOk"
proof -
  obtain r w1 where h: "handle_connection x w = (r, w1)" by (cases "handle_connection x w")
  have a: "accounted w r w1" using handle_connection_spec[OF h] by blast
  have ne: "outcome_of e \<noteq> OutOk" for e by (cases e) (simp_all add: outcome_of_def)
  have we: "wr_to_client (write_error x e (record_metric m w1)) = wr_to_client (write_error x e w)"
    if "wr_to_client w1 = wr_to_client w" for e m
    using that by (simp add: write_error_def write_committed_def record_metric_def case_prod_beta Let_def)
  show ?thesis
    using h a ne we write_error_keeps by (auto simp: serve_connection_def same_client_def record_metric_def
        split: sum.splits connection_error.splits)
qed



section \<open>Bodies\<close>

lemma write_committed_bytes:
  "write_committed x bytes w = (r, w') \<Longrightarrow> \<exists>k \<le> length bytes. wr_to_client w' = wr_to_client w @ take k bytes \<and> (r = Inr () \<longrightarrow> k = length bytes)"
proof -
  assume a: "write_committed x bytes w = (r, w')"
  obtain ok sent where e: "write_all (px_client_room x) (wr_to_client w) bytes = (ok, sent)" by (cases "write_all (px_client_room x) (wr_to_client w) bytes")
  obtain k where k: "sent = wr_to_client w @ take k bytes" "ok \<longrightarrow> sent = wr_to_client w @ bytes" using write_all_prefix[OF e] by blast
  have "sent = wr_to_client w @ take (min k (length bytes)) bytes" using k(1) by (simp add: min_def)
  then show ?thesis using a e k
    by (cases ok) (auto simp: write_committed_def intro: exI[of _ "length bytes"] exI[of _ "min k (length bytes)"])
qed

text \<open>
  A body is copied exactly. Whatever the sizes in which the upstream's bytes arrive, the client receives a
  prefix of them, never more than the announced length; if the copy succeeds it is exactly that many bytes,
  and it does succeed when the upstream sends them, the client takes them and no deadline passes.
\<close>

theorem body_copied_exactly:
  fixes x :: proxy_env and n :: nat and w :: wire
  shows "(\<exists>k \<le> n. wr_to_client (snd (copy_exact x late n w)) = wr_to_client w @ take k (data (wr_upstream w))
        \<and> (fst (copy_exact x late n w) = Inr () \<longrightarrow> k = n \<and> n \<le> length (data (wr_upstream w))))
    \<and> (n \<le> length (data (wr_upstream w)) \<and> late = None \<and> px_client_room x = None \<longrightarrow> fst (copy_exact x late n w) = Inr ())"
proof (induction x late n w rule: copy_exact.induct)
  case (1 x late n w)
  obtain got up where s: "stream_read (min n 16384) (wr_upstream w) = (got, up)" by (cases "stream_read (min n 16384) (wr_upstream w)")
  let ?w1 = "w\<lparr>wr_upstream := up\<rparr>" and ?d = "data (wr_upstream w)"
  show ?case
  proof (cases "n = 0 \<or> late = Some 0")
    case True
    then have "copy_exact x late n w = (if n = 0 then Inr () else Inl (Committed Timeout), w)"
      by (auto simp: copy_exact.simps[of x late n w])
    then show ?thesis using True by auto
  next
    case n: False
    then have d: "case got of Inl _ \<Rightarrow> ?d = [] | Inr g \<Rightarrow> length g \<le> min n 16384 \<and> (if g = [] then ?d = [] else ?d = g @ data up)"
      using stream_read_data[OF _ s] by simp
    show ?thesis
    proof (cases "(\<exists>u. got = Inl u) \<or> got = Inr []")
      case True
      then show ?thesis using d n s by (auto simp: copy_exact.simps[of x late n w])
    next
      case False
      then obtain g where g: "got = Inr g" "g \<noteq> []" by (cases got) auto
      then have dg: "length g \<le> n" "?d = g @ data up" using d by auto
      obtain r2 w2 where c: "write_committed x g ?w1 = (r2, w2)" by (cases "write_committed x g ?w1")
      obtain k where k: "k \<le> length g" "wr_to_client w2 = wr_to_client w @ take k g" "r2 = Inr () \<longrightarrow> k = length g"
        using write_committed_bytes[OF c] by auto
      show ?thesis
      proof (cases r2)
        case (Inl e)
        have "px_client_room x \<noteq> None" using c Inl by (cases "px_client_room x") (auto simp: write_committed_def write_all_def)
        moreover have "take k ?d = take k g" using k(1) dg(2) by simp
        ultimately show ?thesis using Inl s g c n k dg by (auto simp: copy_exact.simps[of x late n w] intro!: exI[of _ k])
      next
        case (Inr u)
        let ?late = "map_option (\<lambda>n. n - 1) late" and ?n = "n - length g"
        have e: "copy_exact x late n w = copy_exact x ?late ?n w2" using s g c n Inr by (simp add: copy_exact.simps[of x late n w])
        have u2: "wr_upstream w2 = up" using write_committed_keeps[OF c] by simp
        note IH = 1[OF _ _ refl s[symmetric] refl refl g(1) g(2) c[symmetric] Inr]
        have "n \<noteq> 0" "late \<noteq> Some 0" using n by auto
        note IH = IH[OF this, unfolded u2]
        then obtain j where j: "j \<le> ?n" "wr_to_client (snd (copy_exact x ?late ?n w2)) = wr_to_client w2 @ take j (data up)"
          "fst (copy_exact x ?late ?n w2) = Inr () \<longrightarrow> j = ?n \<and> ?n \<le> length (data up)" by blast
        have "wr_to_client w2 = wr_to_client w @ g" using k Inr by simp
        then show ?thesis unfolding e using j IH dg by (intro conjI exI[of _ "length g + j"]) auto
      qed
    qed
  qed
qed

theorem body_copied_exactly_witness:
  "wr_to_client (snd (copy_exact sample_env None 2 (sample_wire\<lparr>wr_upstream := [Arrives [7], Arrives [8, 9]]\<rparr>))) = [7, 8]"
  using body_copied_exactly[of 2 sample_env None "sample_wire\<lparr>wr_upstream := [Arrives [7], Arrives [8, 9]]\<rparr>"]
  by (auto simp: sample_env_def sample_wire_def numeral_2_eq_2)


section \<open>The accept loop\<close>

definition server_inv :: "nat \<Rightarrow> server \<Rightarrow> bool" where
  "server_inv n sv \<longleftrightarrow> sv_permits sv + sv_running sv = n \<and> (sv_stopping sv \<longleftrightarrow> sv_mode sv \<noteq> None)
     \<and> (sv_mode sv = Some Abort \<longrightarrow> sv_running sv = 0)"

interpretation acceptor: state_machine "\<lambda>sv (x, e). serve_step x e sv" "server_inv n" for n
  by unfold_locales
    (auto simp: server_inv_def serve_step_def serve_stop_def admit_connection_def Let_def split: serve_event.splits shutdown_mode.splits option.splits)

text \<open>
  The accept loop is bounded and stops. However accepts, endings, joins and shutdown messages arrive, the
  connections being served and the free permits always make up the configured number; a connection is turned
  away only when all of them are in use; once the loop has been left nothing more is accepted, every hold has
  been told to stop, and after an abort nothing is being served.
\<close>

theorem accept_loop_bounded:
  fixes es :: "(proxy_env \<times> serve_event) list" and n :: nat and m :: metrics
  defines "run \<equiv> \<lambda>es. foldl (\<lambda>sv (x, e). serve_step x e sv) (server_new n m) es"
  shows "sv_running (run es) + sv_permits (run es) = n
    \<and> (sv_refused (run (es @ [e])) \<noteq> sv_refused (run es) \<longrightarrow> sv_running (run es) = n)
    \<and> (sv_mode (run es) \<noteq> None \<longrightarrow> sv_stopping (run es) \<and> sv_running (run (es @ [e])) \<le> sv_running (run es))
    \<and> (sv_mode (run es) = Some Abort \<longrightarrow> sv_running (run es) = 0)"
proof -
  have i: "server_inv n (run es)" unfolding run_def
    by (rule acceptor.run_inv) (simp add: server_inv_def server_new_def)
  have st: "run (es @ [e]) = serve_step (fst e) (snd e) (run es)" by (simp add: run_def case_prod_beta)
  show ?thesis using i unfolding st
    by (auto simp: server_inv_def serve_step_def serve_stop_def admit_connection_def Let_def
        split: serve_event.splits shutdown_mode.splits option.splits if_splits)
qed

theorem accept_loop_bounded_witness:
  "sv_running (foldl (\<lambda>sv (x, e). serve_step x e sv) (server_new 1 (\<lambda>_. 0)) [(sample_env, AcceptedFrom True sample_wire)]) = 1"
  using accept_loop_bounded[of 1 "\<lambda>_. 0" "[(sample_env, AcceptedFrom True sample_wire)]" "(sample_env, AcceptedFrom True sample_wire)"]
  by (simp add: serve_step_def admit_connection_def server_new_def)

end
