(* ===== verification/Net_Enforced.thy ===== *)
theory Net_Enforced
  imports Net_Decider_Props Grant_Store_Props Egress_Server_Props
begin

text \<open>
  The egress proxy with the network decider behind it: what a connection that leaves under \<open>enforce\<close> rests on.
\<close>


section \<open>The decision\<close>

lemma decide_enforced:
  assumes "mode_for v call = ModeEnforce"
  shows "fst (decide v fresh origin call d) =
     (if permits v (domains_verdict v (wo_hostname origin)) call (wo_hostname origin) (wo_port origin) then DecideAllow
      else if refuses v (domains_verdict v (wo_hostname origin)) call (wo_hostname origin) (wo_port origin) \<or> \<not> nv_sink v then DecideDeny
      else DecideAsk)"
proof -
  let ?w = "would_be_of (rows_verdict v (wo_hostname origin) (wo_port origin) call) (domains_verdict v (wo_hostname origin))"
  note iff = would_be_iff[of v "wo_hostname origin" "wo_port origin" call "domains_verdict v (wo_hostname origin)"]
  have n: "\<not> permits v dv c h p" if "refuses v dv c h p" for dv c h p using that by (simp add: permits_def)
  show ?thesis
  proof (cases ?w)
    case (WouldDenied s)
    then have "refuses v (domains_verdict v (wo_hostname origin)) call (wo_hostname origin) (wo_port origin)" using iff(2) by blast
    then show ?thesis using WouldDenied assms n by (cases s) (simp_all add: decide_def case_prod_beta Let_def)
  next
    case WouldAsked
    then have "\<not> permits v (domains_verdict v (wo_hostname origin)) call (wo_hostname origin) (wo_port origin)"
      "\<not> refuses v (domains_verdict v (wo_hostname origin)) call (wo_hostname origin) (wo_port origin)"
      using iff by auto
    then show ?thesis using WouldAsked assms by (simp add: decide_def)
  qed (use assms iff in \<open>simp add: decide_def\<close>)
qed


section \<open>The proxy behind the decider\<close>

text \<open>
  The admission's environment is the decider: it decides as \<open>decide\<close> does on \<open>v\<close> (or too late), and a yes while held
  is the answer the decider's history \<open>es\<close> has given to the connection \<open>n\<close> that parked for this very origin and call.
\<close>

definition decided_by :: "admit_env \<Rightarrow> net_view \<Rightarrow> ustring \<Rightarrow> decider \<Rightarrow> net_event list \<Rightarrow> nat \<Rightarrow> bool" where
  "decided_by e v fresh d es n \<longleftrightarrow> (\<forall>origin call. case ae_decide e origin call of
       None \<Rightarrow> True
     | Some decision \<Rightarrow> decision = fst (decide v fresh origin call d)
         \<and> (decision = DecideAsk \<and> Answered (Some True) \<in> set (ae_hold_events e) \<longrightarrow>
              nm_asked (net_run es) ! n = (call, wo_hostname origin, wo_port origin)
              \<and> (n, Some True) \<in> set (dc_answers (nm_dec (net_run es)))))"

text \<open>Consent to an origin at some step of a history.\<close>

definition consented_in :: "net_event list \<Rightarrow> command_tag option \<Rightarrow> website_origin \<Rightarrow> bool" where
  "consented_in es call origin \<longleftrightarrow> (\<exists>before ev after host. es = before @ ev # after
     \<and> eq_ignore_ascii_case host (wo_hostname origin) \<and> consent (net_run before) ev call host (wo_port origin))"

lemma asked_consented_in:
  assumes "nm_asked (net_run es) ! n = (call, wo_hostname origin, wo_port origin)"
    "(n, Some True) \<in> set (dc_answers (nm_dec (net_run es)))"
  shows "consented_in es call origin"
proof -
  have "books_ok machine_new" using run_books_ok[of "[]"] by simp
  moreover have "(n, Some True) \<notin> set (dc_answers (nm_dec machine_new))" by (simp add: machine_new_def decider_new_def)
  ultimately obtain before ev after call' asked_host port host where "es = before @ ev # after"
    and a: "nm_asked (net_run es) ! n = (call', asked_host, port)" and "eq_ignore_ascii_case host asked_host" "consent (net_run before) ev call' host port"
    using run_yes[OF _ assms(2)] by blast
  moreover have "call' = call" "asked_host = wo_hostname origin" "port = wo_port origin" using a assms(1) by simp_all
  ultimately show ?thesis unfolding consented_in_def by blast
qed

text \<open>
  C6: Under \<open>enforce\<close> nothing leaves without a row, a list entry or the user. Behind the network decider, a fresh
  connection that the proxy opens is for a request read from the client, by an authenticated caller, to the public
  addresses of its origin; and if that caller is decided under \<open>enforce\<close>, then at the decision a live allow row or
  an allow-list entry permitted the origin with no live deny row and no deny-list entry against it, or, in the
  decider's history, its waiting card was allowed by the rows or by the user's answer, and nothing refused it then.
\<close>

theorem enforced_egress:
  fixes x :: proxy_env and w :: wire
  assumes "wr_connected w = None" "wr_to_upstream w = []" and decider: "decided_by (px_admit x) v fresh d es n"
    and c: "wr_connected (serve_connection x w) = Some addrs"
  shows "\<exists>request call origin. reads_request x w request \<and> authenticated x request call \<and> public_addresses x origin addrs
    \<and> (mode_for v call = ModeEnforce \<longrightarrow>
         permits v (domains_verdict v (wo_hostname origin)) call (wo_hostname origin) (wo_port origin) \<or> consented_in es call origin)"
proof -
  obtain request call origin where r: "reads_request x w request" "authenticated x request call" "consented x origin call" "public_addresses x origin addrs"
    using egress_consent[OF assms(1,2)] c by (metis option.distinct(1) option.inject)
  have "permits v (domains_verdict v (wo_hostname origin)) call (wo_hostname origin) (wo_port origin) \<or> consented_in es call origin"
    if m: "mode_for v call = ModeEnforce"
  proof (cases "ae_decide (px_admit x) origin call")
    case None
    then show ?thesis using r(3) by (simp add: consented_def)
  next
    case (Some decision)
    have dec: "decision = fst (decide v fresh origin call d)"
      and yes: "decision = DecideAsk \<Longrightarrow> Answered (Some True) \<in> set (ae_hold_events (px_admit x)) \<Longrightarrow>
        nm_asked (net_run es) ! n = (call, wo_hostname origin, wo_port origin) \<and> (n, Some True) \<in> set (dc_answers (nm_dec (net_run es)))"
      using decider[unfolded decided_by_def, rule_format, of origin call] Some by auto
    show ?thesis
      using r(3) Some yes asked_consented_in unfolding dec decide_enforced[OF m] consented_def by (auto split: if_splits)
  qed
  then show ?thesis using r by blast
qed

text \<open>A request the decider asks about, whose card the user allows.\<close>

definition asked_http :: "net_event list" where
  "asked_http = [EvPark quiet_view (str ''k'') (str ''a.io'') 80 None no_verdict, EvPost quiet_view (str ''k''),
     EvSettle quiet_view (str ''k'') HoldAllow]"

definition decided_env :: admit_env where
  "decided_env = asking_env\<lparr>ae_hold_events := [Answered (Some True)],
     ae_decide := (\<lambda>origin call. if origin = http_origin \<and> call = None then Some (fst (decide quiet_view (str ''l'') origin call decider_new)) else None)\<rparr>"

lemma asked_http_answers: "dc_answers (nm_dec (net_run asked_http)) = [(0, Some True)]"
  unfolding asked_http_def by code_simp

lemma asked_http_asked: "nm_asked (net_run asked_http) ! 0 = (None, wo_hostname http_origin, wo_port http_origin)"
  by (simp add: asked_http_def net_step_def machine_new_def http_origin_def)

lemma decided_env_decides: "decided_by decided_env quiet_view (str ''l'') decider_new asked_http 0"
  using asked_http_answers asked_http_asked unfolding decided_by_def by (simp add: decided_env_def)

lemma decided_env_asks: "ae_decide decided_env http_origin None = Some DecideAsk"
  by code_simp

theorem enforced_egress_witness:
  "\<exists>request call origin. reads_request (sample_env\<lparr>px_admit := decided_env\<rparr>) sample_wire request
    \<and> authenticated (sample_env\<lparr>px_admit := decided_env\<rparr>) request call
    \<and> public_addresses (sample_env\<lparr>px_admit := decided_env\<rparr>) origin [(V4 (Ipv4 93 184 216 34), 80)]
    \<and> (mode_for quiet_view call = ModeEnforce \<longrightarrow>
         permits quiet_view (domains_verdict quiet_view (wo_hostname origin)) call (wo_hostname origin) (wo_port origin)
         \<or> consented_in asked_http call origin)"
proof (rule enforced_egress)
  let ?w0 = "sample_wire\<lparr>wr_client := []\<rparr>" and ?x = "sample_env\<lparr>px_admit := decided_env\<rparr>"
  show "wr_connected sample_wire = None" "wr_to_upstream sample_wire = []" by (simp_all add: sample_wire_def)
  show "decided_by (px_admit ?x) quiet_view (str ''l'') decider_new asked_http 0" using decided_env_decides by simp
  have "\<not> is_refused_host None (str ''a.io'')" by code_simp
  then have "admit_origin decided_env http_origin None [] (hold_state_new 16 8) = (Inr (), [], snd (snd (admit_origin decided_env http_origin None [] (hold_state_new 16 8))))"
    using decided_env_asks
    by (simp add: admit_origin_def asking_env_def decided_env_def http_origin_def policy_evaluate_def park_def try_take_def hold_state_new_def
        budget_new_def hmap_simps settle_hold_def MAX_HELD_CLIENT_BYTES_def)
  then have "admit_wire ?x http_origin None [] ?w0 = (Inr (), [], snd (snd (admit_wire ?x http_origin None [] ?w0)))"
    by (auto simp: admit_wire_def sample_wire_def case_prod_beta prod_eq_iff)
  then show "wr_connected (serve_connection ?x sample_wire) = Some [(V4 (Ipv4 93 184 216 34), 80)]" by (rule sample_connects)
qed

end
