(* ===== verification/Call_Table.thy ===== *)
theory Call_Table
  imports Net_Decider
begin

text \<open>
  The table of sandboxed calls, \<^verbatim>\<open>fuigo-workspace/src/sandbox/calls.rs\<close>, and the spelling of call ids and tags of
  \<^verbatim>\<open>fuigo-sandbox/src/command/backend.rs\<close>. One entry per call holds its owner, its open spawn, what its next spawn
  inherits, the refusals for its result and its epoch. Every method is one function on the table, which it changes
  under one lock; what it lets go of is returned as \<open>released\<close>. Of an owner the session and the command are kept, of a
  spawn record what the table reads; epochs are natural numbers.
\<close>


section \<open>Call ids and tags\<close>

datatype call_kind = KindTool | KindShellInit

record call_id =
  ci_kind :: call_kind
  ci_id :: ustring

definition SHELL_INIT_PREFIX :: ustring where "SHELL_INIT_PREFIX = str ''shell-init:''"
definition TOOL_PREFIX :: ustring where "TOOL_PREFIX = str ''tool:''"
definition TAG_PREFIX :: ustring where "TAG_PREFIX = str ''fuigo-''"

definition call_display :: "call_id \<Rightarrow> ustring" where
  "call_display c = (case ci_kind c of
       KindTool \<Rightarrow> (if starts_with SHELL_INIT_PREFIX (ci_id c) \<or> starts_with TOOL_PREFIX (ci_id c) then TOOL_PREFIX @ ci_id c else ci_id c)
     | KindShellInit \<Rightarrow> SHELL_INIT_PREFIX @ ci_id c)"

definition call_parse :: "ustring \<Rightarrow> call_id" where
  "call_parse spelling = (case strip_prefix TOOL_PREFIX spelling of
       Some i \<Rightarrow> \<lparr>ci_kind = KindTool, ci_id = i\<rparr>
     | None \<Rightarrow> (case strip_prefix SHELL_INIT_PREFIX spelling of
           Some label \<Rightarrow> \<lparr>ci_kind = KindShellInit, ci_id = label\<rparr>
         | None \<Rightarrow> \<lparr>ci_kind = KindTool, ci_id = spelling\<rparr>))"

definition tag_for_call :: "call_id \<Rightarrow> command_tag" where
  "tag_for_call c = TAG_PREFIX @ call_display c"

definition tag_call_id :: "command_tag \<Rightarrow> call_id option" where
  "tag_call_id tag = map_option call_parse (strip_prefix TAG_PREFIX tag)"


section \<open>Modes are ordered\<close>

text \<open>\<open>Off < Observe < Enforce\<close>, as derived.\<close>

definition mode_rank :: "sandbox_mode \<Rightarrow> nat" where
  "mode_rank m = (case m of ModeOff \<Rightarrow> 0 | ModeObserve \<Rightarrow> 1 | ModeEnforce \<Rightarrow> 2)"

instantiation sandbox_mode :: linorder
begin

definition less_eq_sandbox_mode :: "sandbox_mode \<Rightarrow> sandbox_mode \<Rightarrow> bool" where
  "less_eq_sandbox_mode a b \<longleftrightarrow> mode_rank a \<le> mode_rank b"

definition less_sandbox_mode :: "sandbox_mode \<Rightarrow> sandbox_mode \<Rightarrow> bool" where
  "less_sandbox_mode a b \<longleftrightarrow> mode_rank a < mode_rank b"

instance
  by standard (auto simp: less_eq_sandbox_mode_def less_sandbox_mode_def mode_rank_def split: sandbox_mode.splits)

end


section \<open>Entries\<close>

record call_owner =
  co_session_id :: ustring
  co_command :: "ustring option"

record call_record =
  cr_mode :: sandbox_mode
  cr_sandboxed :: bool
  cr_replayed_under :: "grant_subject option"
  cr_inherited_once :: "grant list"

record settling =
  sg_once :: "grant list"
  sg_replayed_under :: "grant_subject option"
  sg_mode :: "sandbox_mode option"

definition settling_default :: settling where
  "settling_default = \<lparr>sg_once = [], sg_replayed_under = None, sg_mode = None\<rparr>"

definition record_settling :: "call_record \<Rightarrow> settling" where
  "record_settling r = \<lparr>sg_once = cr_inherited_once r, sg_replayed_under = cr_replayed_under r, sg_mode = Some (cr_mode r)\<rparr>"

record call_entry =
  ce_owner :: "call_owner option"
  ce_spawn :: "call_record option"
  ce_next :: "settling option"
  ce_net_denials :: "ustring list"
  ce_net_denials_dropped :: nat
  ce_detached :: "ustring option"
  ce_epoch :: nat

definition entry_new :: "nat \<Rightarrow> call_entry" where
  "entry_new epoch = \<lparr>ce_owner = None, ce_spawn = None, ce_next = None, ce_net_denials = [], ce_net_denials_dropped = 0,
     ce_detached = None, ce_epoch = epoch\<rparr>"

definition entry_is_empty :: "call_entry \<Rightarrow> bool" where
  "entry_is_empty e \<longleftrightarrow> ce_owner e = None \<and> ce_spawn e = None \<and> ce_next e = None \<and> ce_net_denials e = []
     \<and> ce_net_denials_dropped e = 0 \<and> ce_detached e = None"

definition pin_waiting :: "call_entry \<Rightarrow> bool" where
  "pin_waiting e \<longleftrightarrow> (case ce_next e of Some next \<Rightarrow> sg_mode next \<noteq> None | None \<Rightarrow> False)"

definition evictable :: "call_entry \<Rightarrow> bool" where
  "evictable e \<longleftrightarrow> ce_owner e = None \<and> ce_spawn e = None \<and> ce_detached e = None \<and> \<not> pin_waiting e"

definition entry_mode :: "call_entry \<Rightarrow> sandbox_mode option" where
  "entry_mode e = (case ce_spawn e of Some spawn \<Rightarrow> Some (cr_mode spawn) | None \<Rightarrow> Option.bind (ce_next e) sg_mode)"

definition get_or_default :: "settling option \<Rightarrow> settling" where
  "get_or_default next = (case next of Some s \<Rightarrow> s | None \<Rightarrow> settling_default)"

definition dropped_note :: "nat \<Rightarrow> ustring" where
  "dropped_note n = show_nat n @ str '' more connections were refused while the command ran''"

definition entry_take_denials :: "call_entry \<Rightarrow> ustring list \<times> call_entry" where
  "entry_take_denials e =
     (ce_net_denials e @ (if 0 < ce_net_denials_dropped e then [dropped_note (ce_net_denials_dropped e)] else []),
      e\<lparr>ce_net_denials := [], ce_net_denials_dropped := 0\<rparr>)"


section \<open>The table\<close>

definition MAX_OPEN_CALLS :: nat where "MAX_OPEN_CALLS = 512"
definition MAX_TOMBSTONES :: nat where "MAX_TOMBSTONES = 2048"
definition MAX_NET_DENIAL_NOTES :: nat where "MAX_NET_DENIAL_NOTES = 8"

record call_table =
  ct_calls :: "(call_id, call_entry) hmap"
  ct_next_epoch :: nat
  ct_tombstones :: "call_id list"
  ct_floors :: "(call_id, sandbox_mode) hmap"

definition table_new :: call_table where
  "table_new = \<lparr>ct_calls = [], ct_next_epoch = 0, ct_tombstones = [], ct_floors = []\<rparr>"

record released =
  rl_credentials :: "call_id list"
  rl_epochs :: "(call_id \<times> nat option) list"

definition released_none :: released where
  "released_none = \<lparr>rl_credentials = [], rl_epochs = []\<rparr>"

definition released_one :: "call_id \<Rightarrow> nat option \<Rightarrow> released" where
  "released_one c epoch = \<lparr>rl_credentials = [c], rl_epochs = [(c, epoch)]\<rparr>"

definition released_epoch :: "call_id \<Rightarrow> nat \<Rightarrow> released" where
  "released_epoch c epoch = \<lparr>rl_credentials = [], rl_epochs = [(c, Some epoch)]\<rparr>"

definition released_extend :: "released \<Rightarrow> released \<Rightarrow> released" where
  "released_extend a b = \<lparr>rl_credentials = rl_credentials a @ rl_credentials b, rl_epochs = rl_epochs a @ rl_epochs b\<rparr>"

datatype call_refused = TableFull | CallReleased

abbreviation entry_of :: "call_table \<Rightarrow> call_id \<Rightarrow> call_entry option" where
  "entry_of t c \<equiv> hm_get (ct_calls t) c"

definition upd_entry :: "call_id \<Rightarrow> (call_entry \<Rightarrow> call_entry) \<Rightarrow> call_table \<Rightarrow> call_table" where
  "upd_entry c f t = t\<lparr>ct_calls := hm_modify c f (ct_calls t)\<rparr>"

definition prepared :: "call_table \<Rightarrow> nat" where
  "prepared t = length (filter (\<lambda>(_, e). ce_spawn e \<noteq> None) (ct_calls t))"

definition prepared_record :: "call_id \<Rightarrow> call_table \<Rightarrow> call_record option" where
  "prepared_record c t = Option.bind (entry_of t c) ce_spawn"

text \<open>The entry goes without a tombstone; and with nothing released when it is empty.\<close>

definition table_remove :: "call_id \<Rightarrow> call_table \<Rightarrow> released \<times> call_table" where
  "table_remove c t = (released_one c (map_option ce_epoch (entry_of t c)), t\<lparr>ct_calls := hm_remove c (ct_calls t)\<rparr>)"

definition drop_if_empty :: "call_id \<Rightarrow> call_table \<Rightarrow> call_table" where
  "drop_if_empty c t = (case entry_of t c of
       Some e \<Rightarrow> if entry_is_empty e then t\<lparr>ct_calls := hm_remove c (ct_calls t)\<rparr> else t
     | None \<Rightarrow> t)"

definition insert_entry :: "call_id \<Rightarrow> call_table \<Rightarrow> call_table" where
  "insert_entry c t = t\<lparr>ct_calls := hm_insert c (entry_new (ct_next_epoch t)) (ct_calls t), ct_next_epoch := ct_next_epoch t + 1\<rparr>"

text \<open>The entry of a call, created if absent, with the one rule of eviction.\<close>

definition table_entry :: "call_id \<Rightarrow> call_table \<Rightarrow> (released, call_refused) result \<times> call_table" where
  "table_entry c t = (case entry_of t c of
       Some _ \<Rightarrow> (Inr released_none, t)
     | None \<Rightarrow>
         (if c \<in> set (ct_tombstones t) then (Inl CallReleased, t)
          else if length (ct_calls t) < MAX_OPEN_CALLS then (Inr released_none, insert_entry c t)
          else case filter (\<lambda>(_, e). evictable e) (ct_calls t) of
              [] \<Rightarrow> (Inl TableFull, t)
            | es \<Rightarrow>
                (let (evicted, t1) = table_remove (fst (arg_min_list (\<lambda>(_, e). ce_epoch e) es)) t
                 in (Inr evicted, insert_entry c t1))))"

definition dispatched :: "call_id \<Rightarrow> call_table \<Rightarrow> (released, call_refused) result \<times> call_table" where
  "dispatched c t = table_entry c (t\<lparr>ct_tombstones := filter (\<lambda>r. r \<noteq> c) (ct_tombstones t)\<rparr>)"

text \<open>What a caller of \<open>entry\<close> does with the entry it got.\<close>

definition on_entry :: "(released, call_refused) result \<times> call_table \<Rightarrow> call_id \<Rightarrow> (call_entry \<Rightarrow> call_entry) \<Rightarrow> (released, call_refused) result \<times> call_table" where
  "on_entry r c f = (case r of (Inl e, t) \<Rightarrow> (Inl e, t) | (Inr evicted, t) \<Rightarrow> (Inr evicted, upd_entry c f t))"

definition bind_owner :: "call_id \<Rightarrow> call_owner \<Rightarrow> call_table \<Rightarrow> (released, call_refused) result \<times> call_table" where
  "bind_owner c owner t = on_entry (dispatched c t) c (\<lambda>e. e\<lparr>ce_owner := Some owner\<rparr>)"

definition bind_pinned_owner :: "call_id \<Rightarrow> call_owner \<Rightarrow> call_table \<Rightarrow> bool \<times> call_table" where
  "bind_pinned_owner c owner t = (case entry_of t c of
       Some e \<Rightarrow> if pin_waiting e then (True, upd_entry c (\<lambda>e. e\<lparr>ce_owner := Some owner\<rparr>) t) else (False, t)
     | None \<Rightarrow> (False, t))"

definition drain_denials :: "call_id \<Rightarrow> call_table \<Rightarrow> ustring list \<times> call_table" where
  "drain_denials c t = (case entry_of t c of
       Some e \<Rightarrow> (fst (entry_take_denials e), upd_entry c (snd \<circ> entry_take_denials) t)
     | None \<Rightarrow> ([], t))"

definition table_release :: "call_id \<Rightarrow> call_table \<Rightarrow> ustring list \<times> released \<times> call_table" where
  "table_release c t =
     (let (notes, t1) = drain_denials c t;
          t2 = t1\<lparr>ct_floors := hm_remove c (ct_floors t1)\<rparr>;
          (rel, t3) = table_remove c t2;
          t4 = (if c \<in> set (ct_tombstones t3) then t3
                else t3\<lparr>ct_tombstones := (if MAX_TOMBSTONES \<le> length (ct_tombstones t3) then tl (ct_tombstones t3) else ct_tombstones t3) @ [c]\<rparr>)
      in (notes, rel, t4))"

definition owner_of :: "call_id \<Rightarrow> call_table \<Rightarrow> call_owner option" where
  "owner_of c t = Option.bind (entry_of t c) ce_owner"

definition session_of :: "call_id \<Rightarrow> call_table \<Rightarrow> ustring option" where
  "session_of c t = Option.bind (entry_of t c) (\<lambda>e. case ce_owner e of Some owner \<Rightarrow> Some (co_session_id owner) | None \<Rightarrow> ce_detached e)"

definition epoch_of :: "call_id \<Rightarrow> call_table \<Rightarrow> nat option" where
  "epoch_of c t = map_option ce_epoch (entry_of t c)"

definition push_denial :: "call_id \<Rightarrow> ustring \<Rightarrow> call_table \<Rightarrow> call_table" where
  "push_denial c model_text t = upd_entry c (\<lambda>e.
     if model_text \<in> set (ce_net_denials e) then e
     else if length (ce_net_denials e) < MAX_NET_DENIAL_NOTES then e\<lparr>ce_net_denials := ce_net_denials e @ [model_text]\<rparr>
     else e\<lparr>ce_net_denials_dropped := ce_net_denials_dropped e + 1\<rparr>) t"

definition take_denials :: "call_id \<Rightarrow> call_table \<Rightarrow> ustring list \<times> call_table" where
  "take_denials c t = (let (denials, t1) = drain_denials c t in (denials, drop_if_empty c t1))"

definition pin_mode :: "call_id \<Rightarrow> sandbox_mode \<Rightarrow> call_table \<Rightarrow> (released, call_refused) result \<times> call_table" where
  "pin_mode c mode t = on_entry (dispatched c t) c (\<lambda>e. case entry_mode e of
       None \<Rightarrow> e\<lparr>ce_next := Some ((get_or_default (ce_next e))\<lparr>sg_mode := Some mode\<rparr>)\<rparr>
     | Some _ \<Rightarrow> e)"

definition held_mode :: "call_id \<Rightarrow> call_table \<Rightarrow> sandbox_mode option" where
  "held_mode c t = Option.bind (entry_of t c) entry_mode"

definition floor_mode :: "call_id \<Rightarrow> sandbox_mode \<Rightarrow> call_table \<Rightarrow> bool \<times> call_table" where
  "floor_mode c mode t =
     (if hm_get (ct_floors t) c = None \<and> MAX_OPEN_CALLS \<le> length (ct_floors t) then (False, t)
      else (True, t\<lparr>ct_floors := hm_insert c (case hm_get (ct_floors t) c of Some f \<Rightarrow> max f mode | None \<Rightarrow> mode) (ct_floors t)\<rparr>))"

definition floor_of :: "call_id \<Rightarrow> call_table \<Rightarrow> sandbox_mode option" where
  "floor_of c t = hm_get (ct_floors t) c"

definition floors_in_force :: "call_table \<Rightarrow> sandbox_mode list" where
  "floors_in_force t = map snd (filter (\<lambda>(c, _). held_mode c t = None) (ct_floors t))"

definition any_runs_enforced :: "call_table \<Rightarrow> bool" where
  "any_runs_enforced t \<longleftrightarrow> list_ex (\<lambda>(_, e). entry_mode e = Some ModeEnforce) (ct_calls t) \<or> list_ex (\<lambda>f. f = ModeEnforce) (floors_in_force t)"

definition running_under_another_mode :: "sandbox_mode \<Rightarrow> call_table \<Rightarrow> nat" where
  "running_under_another_mode mode t =
     length (filter (\<lambda>(_, e). case entry_mode e of Some held \<Rightarrow> held \<noteq> mode | None \<Rightarrow> False) (ct_calls t))
     + length (filter (\<lambda>f. mode < f) (floors_in_force t))"

definition attempt_settling :: "call_id \<Rightarrow> call_table \<Rightarrow> settling" where
  "attempt_settling c t = (case entry_of t c of
       None \<Rightarrow> settling_default
     | Some e \<Rightarrow> (case ce_spawn e of Some spawn \<Rightarrow> record_settling spawn | None \<Rightarrow> get_or_default (ce_next e)))"

text \<open>What is left for a later spawn once a record has copied its part.\<close>

definition settling_left :: "call_record \<Rightarrow> settling \<Rightarrow> settling option" where
  "settling_left r next =
     (let left = \<lparr>sg_once = filter (\<lambda>g. \<not> list_ex (\<lambda>copied. gr_id copied = gr_id g) (cr_inherited_once r)) (sg_once next),
                  sg_replayed_under = (case sg_replayed_under next of Some mark \<Rightarrow> if cr_replayed_under r \<noteq> Some mark then Some mark else None | None \<Rightarrow> None),
                  sg_mode = (case sg_mode next of Some pinned \<Rightarrow> if pinned \<noteq> cr_mode r then Some pinned else None | None \<Rightarrow> None)\<rparr>
      in if sg_once left \<noteq> [] \<or> sg_replayed_under left \<noteq> None \<or> sg_mode left \<noteq> None then Some left else None)"

definition remember :: "call_id \<Rightarrow> call_record \<Rightarrow> call_table \<Rightarrow> (released, call_refused) result \<times> call_table" where
  "remember c r t = on_entry (table_entry c t) c (\<lambda>e.
     e\<lparr>ce_next := (if ce_spawn e = None then Option.bind (ce_next e) (settling_left r) else ce_next e), ce_spawn := Some r\<rparr>)"

definition take_prepared :: "call_id \<Rightarrow> call_table \<Rightarrow> call_record option \<times> released \<times> call_table" where
  "take_prepared c t = (prepared_record c t, released_one c (epoch_of c t), upd_entry c (\<lambda>e. e\<lparr>ce_spawn := None\<rparr>) t)"

definition open_settlement :: "call_id \<Rightarrow> sandbox_mode \<Rightarrow> call_table \<Rightarrow> (released, call_refused) result \<times> call_table" where
  "open_settlement c mode t = on_entry (table_entry c t) c (\<lambda>e.
     let next = get_or_default (ce_next e) in
     e\<lparr>ce_next := Some (if ce_owner e \<noteq> None \<and> sg_mode next = None then next\<lparr>sg_mode := Some mode\<rparr> else next)\<rparr>)"

definition close_settlement :: "call_id \<Rightarrow> call_table \<Rightarrow> call_table" where
  "close_settlement c t = drop_if_empty c (upd_entry c (\<lambda>e. e\<lparr>ce_next := None\<rparr>) t)"

definition stash_once :: "call_id \<Rightarrow> nat option \<Rightarrow> grant \<Rightarrow> call_table \<Rightarrow> bool \<times> call_table" where
  "stash_once c epoch g t = (case entry_of t c of
       Some e \<Rightarrow>
         (if epoch = None \<or> epoch = Some (ce_epoch e)
          then (True, upd_entry c (\<lambda>e. let next = get_or_default (ce_next e) in e\<lparr>ce_next := Some (next\<lparr>sg_once := sg_once next @ [g]\<rparr>)\<rparr>) t)
          else (False, t))
     | None \<Rightarrow> (False, t))"

definition mark_replay :: "call_id \<Rightarrow> grant_subject \<Rightarrow> call_table \<Rightarrow> call_table" where
  "mark_replay c granted t =
     upd_entry c (\<lambda>e. e\<lparr>ce_next := Some ((get_or_default (ce_next e))\<lparr>sg_replayed_under := Some granted\<rparr>)\<rparr>) t"

definition once_rows :: "call_id \<Rightarrow> call_table \<Rightarrow> grant list" where
  "once_rows c t = (case entry_of t c of
       None \<Rightarrow> []
     | Some e \<Rightarrow> (case ce_spawn e of Some spawn \<Rightarrow> cr_inherited_once spawn | None \<Rightarrow> [])
                @ (case ce_next e of Some next \<Rightarrow> sg_once next | None \<Rightarrow> []))"

definition clear_once :: "call_entry \<Rightarrow> call_entry" where
  "clear_once e = e\<lparr>ce_next := map_option (\<lambda>next. next\<lparr>sg_once := []\<rparr>) (ce_next e)\<rparr>"

definition bump_epoch :: "call_table \<Rightarrow> call_table" where
  "bump_epoch t = t\<lparr>ct_next_epoch := ct_next_epoch t + 1\<rparr>"

definition table_detach :: "call_id \<Rightarrow> ustring \<Rightarrow> call_table \<Rightarrow> ustring list \<times> released \<times> call_table" where
  "table_detach c session t = (case entry_of t c of
       None \<Rightarrow> ([], released_none, t)
     | Some e \<Rightarrow>
         (if ce_spawn e = None then table_release c t
          else
            let moved = (clear_once e)\<lparr>ce_spawn := map_option (\<lambda>s. s\<lparr>cr_inherited_once := []\<rparr>) (ce_spawn e), ce_owner := None,
                  ce_detached := Some session, ce_epoch := ct_next_epoch t\<rparr>;
                (denials, e') = entry_take_denials moved;
                t1 = bump_epoch (upd_entry c (\<lambda>_. e') t)
            in (denials, released_epoch c (ce_epoch e), t1\<lparr>ct_floors := hm_remove c (ct_floors t1)\<rparr>)))"

definition table_exited :: "call_id \<Rightarrow> call_table \<Rightarrow> released \<times> call_table" where
  "table_exited c t = (case entry_of t c of
       None \<Rightarrow> (released_none, t)
     | Some e \<Rightarrow>
         (if ce_owner e = None then snd (table_release c t)
          else if ce_spawn e = None then (released_none, t)
          else (released_one c (Some (ce_epoch e)),
                bump_epoch (upd_entry c (\<lambda>e. (clear_once e)\<lparr>ce_spawn := None, ce_epoch := ct_next_epoch t\<rparr>) t))))"

fun release_each :: "call_id list \<Rightarrow> call_table \<Rightarrow> released \<times> call_table" where
  "release_each [] t = (released_none, t)"
| "release_each (c # cs) t =
     (let (_, released, t1) = table_release c t; (others, t2) = release_each cs t1 in (released_extend released others, t2))"

definition table_end_session :: "ustring \<Rightarrow> call_table \<Rightarrow> released \<times> call_table" where
  "table_end_session session t = release_each (map fst (filter (\<lambda>(_, e). ce_detached e = Some session) (ct_calls t))) t"

end
