(* ===== verification/Sandbox_Folder.thy ===== *)
theory Sandbox_Folder
  imports Call_Table
begin

text \<open>
  One served folder, \<^verbatim>\<open>fuigo-workspace/src/sandbox/\<close>: the live rows and the grants of \<^verbatim>\<open>grants.rs\<close>, the spawns of
  \<^verbatim>\<open>launch.rs\<close>, the proxy side of \<^verbatim>\<open>network.rs\<close> and the ends of calls of \<^verbatim>\<open>calls.rs\<close> and \<^verbatim>\<open>mod.rs\<close>. What a call's
  end lets go of is revoked under the table's lock and queued in \<open>fo_ended\<close> until the decider's lock is taken to refuse
  its holds. The policy build, the backend's wrapping and the output decoder are arguments.
\<close>


section \<open>Live rows\<close>

record live_rows =
  lr_shared :: "grant list"
  lr_sessions :: "(ustring \<times> grant) list"

definition live_rows_for :: "live_rows \<Rightarrow> ustring option \<Rightarrow> grant list" where
  "live_rows_for lr session = lr_shared lr @ map snd (filter (\<lambda>(owner, _). Some owner = session) (lr_sessions lr))"

record engaged =
  en_store :: grant_store
  en_live :: live_rows

definition refresh_live :: "int \<Rightarrow> engaged \<Rightarrow> engaged" where
  "refresh_live now en = en\<lparr>en_live := \<lparr>lr_shared = live_shared now (en_store en), lr_sessions = live_session_rows now (en_store en)\<rparr>\<rparr>"


section \<open>The folder and its proxy side\<close>

text \<open>
  \<open>ns_guards\<close> are the credentials minted for a spawn whose record does not hold them yet; \<open>ns_parking\<close> is the call and
  the epoch a park under way has read, while it holds the decider's lock.
\<close>

record network_side =
  ns_creds :: credential_registry
  ns_guards :: "proxy_credential list"
  ns_decider :: decider
  ns_asked :: nat
  ns_parking :: "(call_id option \<times> nat option) option"

record folder =
  fo_calls :: call_table
  fo_engaged :: "engaged option"
  fo_side :: "network_side option"
  fo_ended :: "(call_id \<times> nat option) list"
  fo_mode :: sandbox_mode
  fo_closed :: bool

definition folder_new :: "sandbox_mode \<Rightarrow> folder" where
  "folder_new mode = \<lparr>fo_calls = table_new, fo_engaged = None, fo_side = None, fo_ended = [], fo_mode = mode, fo_closed = False\<rparr>"

definition side_new :: "ustring \<Rightarrow> network_side" where
  "side_new session_token =
     \<lparr>ns_creds = credentials_new session_token, ns_guards = [], ns_decider = decider_new, ns_asked = 0, ns_parking = None\<rparr>"

definition on_side :: "(network_side \<Rightarrow> network_side) \<Rightarrow> folder \<Rightarrow> folder" where
  "on_side f fo = fo\<lparr>fo_side := map_option f (fo_side fo)\<rparr>"

datatype sandbox_error =
    ErrPolicy
  | ErrGrant grant_error
  | ErrWrap
  | ErrCallFinished
  | ErrDeniedByRow
  | ErrSessionDirUnsafe
  | ErrCallTableFull
  | ErrNotEngaged
  | ErrCallReleased
  | ErrNoCallCredential

definition refused_error :: "call_refused \<Rightarrow> sandbox_error" where
  "refused_error r = (case r of TableFull \<Rightarrow> ErrCallTableFull | CallReleased \<Rightarrow> ErrCallReleased)"


section \<open>What a call's end lets go of\<close>

definition U64_MAX :: nat where "U64_MAX = 2 ^ 64 - 1"

definition revoke_call_credential :: "call_id \<Rightarrow> folder \<Rightarrow> folder" where
  "revoke_call_credential c = on_side (\<lambda>s. s\<lparr>ns_creds := snd (revoke (tag_for_call c) (ns_creds s))\<rparr>)"

definition revoke_released :: "released \<Rightarrow> folder \<Rightarrow> folder" where
  "revoke_released rel fo = foldl (\<lambda>f c. revoke_call_credential c f) fo (rl_credentials rel)"

text \<open>Under the table's lock: its new state, the credentials revoked, the epochs queued.\<close>

definition let_go :: "released \<times> call_table \<Rightarrow> folder \<Rightarrow> folder" where
  "let_go r fo = (let fo1 = revoke_released (fst r) (fo\<lparr>fo_calls := snd r\<rparr>) in fo1\<lparr>fo_ended := fo_ended fo1 @ rl_epochs (fst r)\<rparr>)"

text \<open>Off that lock, under the decider's.\<close>

definition release_ended_hold :: "call_id \<times> nat option \<Rightarrow> folder \<Rightarrow> folder" where
  "release_ended_hold ended fo =
     (let fo1 = on_side (\<lambda>s. s\<lparr>ns_decider := release_call_holds (tag_for_call (fst ended)) (case snd ended of Some n \<Rightarrow> n | None \<Rightarrow> U64_MAX) (ns_decider s)\<rparr>) fo
      in fo1\<lparr>fo_ended := remove1 ended (fo_ended fo1)\<rparr>)"

definition release_ended_holds :: "released \<Rightarrow> folder \<Rightarrow> folder" where
  "release_ended_holds rel fo = foldl (\<lambda>f ended. release_ended_hold ended f) fo (rl_epochs rel)"

definition bind_call :: "call_id \<Rightarrow> call_owner \<Rightarrow> folder \<Rightarrow> (unit, sandbox_error) result \<times> folder" where
  "bind_call c owner fo = (case bind_owner c owner (fo_calls fo) of
       (Inl refused, t) \<Rightarrow> (Inl (refused_error refused), fo\<lparr>fo_calls := t\<rparr>)
     | (Inr evicted, t) \<Rightarrow> (Inr (), release_ended_holds evicted (let_go (evicted, t) fo)))"

definition bind_pinned_call :: "call_id \<Rightarrow> call_owner \<Rightarrow> folder \<Rightarrow> bool \<times> folder" where
  "bind_pinned_call c owner fo = (let (bound, t) = bind_pinned_owner c owner (fo_calls fo) in (bound, fo\<lparr>fo_calls := t\<rparr>))"

definition folder_pin_mode :: "call_id \<Rightarrow> sandbox_mode \<Rightarrow> folder \<Rightarrow> (unit, sandbox_error) result \<times> folder" where
  "folder_pin_mode c mode fo = (case pin_mode c mode (fo_calls fo) of
       (Inl refused, t) \<Rightarrow> (Inl (refused_error refused), fo\<lparr>fo_calls := t\<rparr>)
     | (Inr evicted, t) \<Rightarrow> (Inr (), release_ended_holds evicted (let_go (evicted, t) fo)))"

text \<open>
  A call's end with the proxy kept running for it: a sync is scheduled when nothing runs under \<open>enforce\<close> any more and the
  folder does not either. The first component tells so.
\<close>

definition resync_unless_enforced :: "bool \<Rightarrow> folder \<Rightarrow> bool" where
  "resync_unless_enforced enforced fo \<longleftrightarrow> \<not> enforced \<and> fo_side fo \<noteq> None \<and> fo_mode fo \<noteq> ModeEnforce"

definition release_call :: "call_id \<Rightarrow> folder \<Rightarrow> (ustring list \<times> bool) \<times> folder" where
  "release_call c fo =
     (let (notes, rel, t) = table_release c (fo_calls fo);
          fo1 = release_ended_holds rel (let_go (rel, t) fo)
      in ((notes, resync_unless_enforced (any_runs_enforced t) fo1), fo1))"

definition detach_call :: "call_id \<Rightarrow> ustring \<Rightarrow> folder \<Rightarrow> (ustring list \<times> bool) \<times> folder" where
  "detach_call c session fo =
     (let (notes, rel, t) = table_detach c session (fo_calls fo);
          fo1 = release_ended_holds rel (let_go (rel, t) fo)
      in ((notes, resync_unless_enforced (any_runs_enforced t) fo1), fo1))"

definition call_exited :: "call_id \<Rightarrow> folder \<Rightarrow> bool \<times> folder" where
  "call_exited c fo =
     (let (rel, t) = table_exited c (fo_calls fo);
          fo1 = release_ended_holds rel (let_go (rel, t) fo)
      in (resync_unless_enforced (any_runs_enforced t) fo1, fo1))"


section \<open>The command is over\<close>

datatype finished = FinRan | FinViolation | FinRefusedUnderGrant

text \<open>\<open>decode\<close> and \<open>refused\<close> are the decoder's findings on the output for the spawn's record.\<close>

definition finished_of :: "(call_record \<Rightarrow> bool) \<Rightarrow> (call_record \<Rightarrow> bool) \<Rightarrow> call_record \<Rightarrow> finished" where
  "finished_of decode refused r = (case cr_mode r of
       ModeOff \<Rightarrow> FinRan
     | ModeObserve \<Rightarrow> FinRan
     | ModeEnforce \<Rightarrow>
         (if decode r then FinViolation
          else if cr_replayed_under r \<noteq> None \<and> refused r then FinRefusedUnderGrant
          else FinRan))"

definition settle_finished :: "call_id \<Rightarrow> sandbox_mode \<Rightarrow> finished \<Rightarrow> folder \<Rightarrow> folder" where
  "settle_finished c mode fin fo =
     (if fin = FinViolation then
        (case open_settlement c mode (fo_calls fo) of
           (Inl _, t) \<Rightarrow> fo\<lparr>fo_calls := t\<rparr>
         | (Inr evicted, t) \<Rightarrow> release_ended_holds evicted (let_go (evicted, t) fo))
      else fo\<lparr>fo_calls := close_settlement c (fo_calls fo)\<rparr>)"

definition finish_call :: "(call_record \<Rightarrow> bool) \<Rightarrow> (call_record \<Rightarrow> bool) \<Rightarrow> call_id \<Rightarrow> folder \<Rightarrow> finished \<times> folder" where
  "finish_call decode refused c fo =
     (let (r, rel, t) = take_prepared c (fo_calls fo);
          fo1 = release_ended_holds rel (let_go (rel, t) fo)
      in case r of
           None \<Rightarrow> (FinRan, fo1)
         | Some r \<Rightarrow> (let fin = finished_of decode refused r in (fin, settle_finished c (cr_mode r) fin fo1)))"


section \<open>Rows a call sees\<close>

definition folder_rows_for :: "ustring option \<Rightarrow> folder \<Rightarrow> grant list" where
  "folder_rows_for session fo = (case fo_engaged fo of Some en \<Rightarrow> live_rows_for (en_live en) session | None \<Rightarrow> [])"

definition live_allows_now :: "int \<Rightarrow> ustring option \<Rightarrow> folder \<Rightarrow> grant list" where
  "live_allows_now now session fo =
     (let live = filter (is_live now) (folder_rows_for session fo)
      in filter (\<lambda>g. gr_decision g = GrantAllow) (allows_not_denied live) @ filter (\<lambda>g. gr_decision g = GrantDeny) live)"

definition probe_allow :: "grant_subject \<Rightarrow> grant" where
  "probe_allow subject = \<lparr>gr_id = [], gr_subject = subject, gr_scope = ScopeCall, gr_expires = ExpireNever, gr_decision = GrantAllow,
     gr_granted_at = 0, gr_granted_by = [], gr_via = None\<rparr>"

definition deny_row_covers :: "row_rules \<Rightarrow> int \<Rightarrow> ustring option \<Rightarrow> grant_subject \<Rightarrow> folder \<Rightarrow> bool" where
  "deny_row_covers rules now session subject fo =
     (let denies = filter (\<lambda>g. gr_decision g = GrantDeny) (live_allows_now now session fo)
      in list_ex (\<lambda>candidate. \<not> list_ex (\<lambda>g. gr_decision g = GrantAllow) (allows_not_denied (denies @ [probe_allow candidate])))
           [subject, canonical_subject (rr_fs rules) subject])"

definition is_net :: "grant \<Rightarrow> bool" where
  "is_net g \<longleftrightarrow> (case gr_subject g of NetHost _ _ \<Rightarrow> True | _ \<Rightarrow> False)"

definition net_rows :: "int \<Rightarrow> ustring option \<Rightarrow> folder \<Rightarrow> grant list" where
  "net_rows now session fo = filter (\<lambda>g. is_live now g \<and> is_net g) (folder_rows_for session fo)"

definition net_rows_for :: "int \<Rightarrow> command_tag option \<Rightarrow> folder \<Rightarrow> grant list" where
  "net_rows_for now call fo = (case Option.bind call tag_call_id of
       None \<Rightarrow> net_rows now None fo
     | Some c \<Rightarrow> net_rows now (session_of c (fo_calls fo)) fo @ filter is_net (once_rows c (fo_calls fo)))"

text \<open>The decider's window onto the folder.\<close>

definition view_call_mode :: "folder \<Rightarrow> command_tag option \<Rightarrow> sandbox_mode option" where
  "view_call_mode fo call = Option.bind (Option.bind call tag_call_id) (\<lambda>c. held_mode c (fo_calls fo))"

definition view_call_epoch :: "folder \<Rightarrow> command_tag option \<Rightarrow> nat option" where
  "view_call_epoch fo call = Option.bind (Option.bind call tag_call_id) (\<lambda>c. epoch_of c (fo_calls fo))"

definition view_call_runs :: "folder \<Rightarrow> command_tag \<Rightarrow> bool" where
  "view_call_runs fo call = (case tag_call_id call of None \<Rightarrow> False | Some c \<Rightarrow> prepared_record c (fo_calls fo) \<noteq> None)"

definition folder_view :: "net_view \<Rightarrow> folder \<Rightarrow> net_view" where
  "folder_view v fo = v\<lparr>nv_rows := \<lambda>call. net_rows_for (nv_now v) call fo, nv_call_mode := view_call_mode fo, nv_call_epoch := view_call_epoch fo,
     nv_call_runs := view_call_runs fo, nv_any_enforced := any_runs_enforced (fo_calls fo), nv_mode := fo_mode fo\<rparr>"


section \<open>Grants\<close>

text \<open>The store's files and the row rules, and the clock, behind every change of the store.\<close>

record grant_env =
  ge_store :: store_env
  ge_rules :: row_rules
  ge_now :: int

definition engage :: "grant_env \<Rightarrow> grant_disk \<Rightarrow> folder \<Rightarrow> folder" where
  "engage e d fo = (case fo_engaged fo of
       Some _ \<Rightarrow> fo
     | None \<Rightarrow> fo\<lparr>fo_engaged := Some (refresh_live (ge_now e) \<lparr>en_store = open_in (ge_store e) (ge_rules e) (ge_now e) d, en_live = \<lparr>lr_shared = [], lr_sessions = []\<rparr>\<rparr>)\<rparr>)"

definition set_store :: "int \<Rightarrow> grant_store \<Rightarrow> folder \<Rightarrow> folder" where
  "set_store now st fo = fo\<lparr>fo_engaged := map_option (\<lambda>en. refresh_live now (en\<lparr>en_store := st\<rparr>)) (fo_engaged fo)\<rparr>"

text \<open>A store that failed is kept as it is left, without a new snapshot of its rows.\<close>

definition keep_store :: "grant_store \<Rightarrow> folder \<Rightarrow> folder" where
  "keep_store st fo = fo\<lparr>fo_engaged := map_option (\<lambda>en. en\<lparr>en_store := st\<rparr>) (fo_engaged fo)\<rparr>"

definition stored_grant ::
    "grant_env \<Rightarrow> (ustring, grant_error) result \<times> grant_store \<Rightarrow> folder \<Rightarrow> (ustring, sandbox_error) result \<times> folder" where
  "stored_grant e r fo = (case fst r of
       Inl err \<Rightarrow> (Inl (ErrGrant err), keep_store (snd r) fo)
     | Inr gid \<Rightarrow> (Inr gid, set_store (ge_now e) (snd r) fo))"

definition record_grant ::
    "grant_env \<Rightarrow> call_id \<Rightarrow> nat option \<Rightarrow> ustring \<Rightarrow> grant \<Rightarrow> folder \<Rightarrow> grant_disk \<Rightarrow> (ustring, sandbox_error) result \<times> folder \<times> grant_disk" where
  "record_grant e c epoch session_id g fo0 d =
     (let fo = engage e d fo0; st = en_store (the (fo_engaged fo)) in
      if gr_decision g = GrantAllow \<and> deny_row_covers (ge_rules e) (ge_now e) (Some session_id) (gr_subject g) fo then (Inl ErrDeniedByRow, fo, d)
      else case gr_scope g of
          ScopeCall \<Rightarrow>
            (case refused_subject (ge_rules e) (gr_subject g) of
               Some err \<Rightarrow> (Inl (ErrGrant err), fo, d)
             | None \<Rightarrow>
                 (let (stashed, t) = stash_once c epoch g (fo_calls fo) in
                  if \<not> stashed then (Inl ErrCallFinished, fo\<lparr>fo_calls := t\<rparr>, d)
                  else (Inr (gr_id g), set_store (ge_now e) st (fo\<lparr>fo_calls := t\<rparr>), d)))
        | ScopeSession \<Rightarrow> (let (r, fo1) = stored_grant e (add_session (ge_rules e) (ge_now e) session_id g st) fo in (r, fo1, d))
        | _ \<Rightarrow>
            (let (added, st1, d1) = store_add (ge_store e) (ge_rules e) (ge_now e) g st d;
                 (r, fo1) = stored_grant e (added, st1) fo
             in (r, fo1, d1)))"

definition revoke_grant :: "grant_env \<Rightarrow> ustring \<Rightarrow> folder \<Rightarrow> grant_disk \<Rightarrow> (unit, sandbox_error) result \<times> folder \<times> grant_disk" where
  "revoke_grant e gid fo0 d =
     (let fo = engage e d fo0; (r, st, d1) = store_revoke (ge_store e) (ge_rules e) (ge_now e) gid (en_store (the (fo_engaged fo))) d
      in case r of
           Inl err \<Rightarrow> (Inl (ErrGrant err), keep_store st fo, d1)
         | Inr _ \<Rightarrow> (Inr (), set_store (ge_now e) st fo, d1))"

text \<open>The holds a reloaded row covers are released by a step of the decider; whether to is the first component.\<close>

definition refresh_grants :: "grant_env \<Rightarrow> folder \<Rightarrow> grant_disk \<Rightarrow> bool \<times> folder" where
  "refresh_grants e fo d = (case fo_engaged fo of
       None \<Rightarrow> (False, fo)
     | Some en \<Rightarrow>
         (let (reloaded, st) = reload_if_changed (ge_store e) (ge_rules e) (ge_now e) (en_store en) d
          in (reloaded, if reloaded then set_store (ge_now e) st fo else keep_store st fo)))"

definition live_grants :: "grant_env \<Rightarrow> folder \<Rightarrow> grant_disk \<Rightarrow> (grant list \<times> bool) \<times> folder" where
  "live_grants e fo0 d =
     (let (reloaded, fo) = refresh_grants e (engage e d fo0) d
      in ((store_live (ge_now e) (en_store (the (fo_engaged fo))), reloaded), fo))"

definition end_session :: "int \<Rightarrow> ustring \<Rightarrow> folder \<Rightarrow> bool \<times> folder" where
  "end_session now session_id fo =
     (let (rel, t) = table_end_session session_id (fo_calls fo);
          fo1 = release_ended_holds rel (let_go (rel, t) fo);
          resync = resync_unless_enforced (any_runs_enforced t) fo1
      in case fo_engaged fo1 of
           None \<Rightarrow> (resync, fo1)
         | Some en \<Rightarrow>
             (let (dropped, st) = clear_session session_id (en_store en)
              in (resync, if 0 < dropped then set_store now st fo1 else keep_store st fo1)))"


section \<open>Spawns\<close>

text \<open>A credential is minted under a guard, which revokes that one credential unless the spawn's record holds it.\<close>

definition mint_guarded :: "command_tag \<Rightarrow> ustring \<Rightarrow> folder \<Rightarrow> folder" where
  "mint_guarded tag token = on_side (\<lambda>s. let (credential, r) = mint tag token (ns_creds s) in s\<lparr>ns_creds := r, ns_guards := ns_guards s @ [credential]\<rparr>)"

definition drop_minted :: "proxy_credential option \<Rightarrow> folder \<Rightarrow> folder" where
  "drop_minted minted fo = (case minted of
       None \<Rightarrow> fo
     | Some credential \<Rightarrow> on_side (\<lambda>s. s\<lparr>ns_creds := snd (revoke_exact credential (ns_creds s)), ns_guards := remove1 credential (ns_guards s)\<rparr>) fo)"

definition keep_minted :: "proxy_credential option \<Rightarrow> folder \<Rightarrow> folder" where
  "keep_minted minted fo = (case minted of
       None \<Rightarrow> fo
     | Some credential \<Rightarrow> on_side (\<lambda>s. s\<lparr>ns_guards := remove1 credential (ns_guards s)\<rparr>) fo)"

record prepare_env =
  pe_mode :: sandbox_mode
  pe_now :: int
  pe_session_dir_safe :: bool
  pe_policy_ok :: "grant list \<Rightarrow> bool"
  pe_side_running :: bool   \<comment> \<open>when the spawn reads the side\<close>
  pe_token :: "ustring option"
  pe_still_current :: bool   \<comment> \<open>when the mint is checked\<close>
  pe_wrap :: "(bool, unit) result"   \<comment> \<open>whether the backend gave a receipt, or its refusal\<close>

definition mint_call_credential :: "prepare_env \<Rightarrow> command_tag \<Rightarrow> folder \<Rightarrow> (proxy_credential option, sandbox_error) result \<times> folder" where
  "mint_call_credential e tag fo = (case pe_token e of
       None \<Rightarrow> (Inl ErrNoCallCredential, fo)
     | Some token \<Rightarrow>
         (let credential = \<lparr>cr_tag = tag, cr_token = token\<rparr>; fo1 = mint_guarded tag token fo in
          if pe_still_current e then (Inr (Some credential), fo1) else (Inr None, drop_minted (Some credential) fo1)))"

definition point_at_proxy :: "prepare_env \<Rightarrow> call_id \<Rightarrow> sandbox_mode \<Rightarrow> folder \<Rightarrow> (proxy_credential option, sandbox_error) result \<times> folder" where
  "point_at_proxy e c mode fo =
     (if ci_kind c \<noteq> KindTool \<or> mode \<noteq> ModeEnforce then (Inr None, fo)
      else if fo_side fo = None \<or> \<not> pe_side_running e then (Inr None, fo)
      else mint_call_credential e (tag_for_call c) fo)"

definition spawn_mode :: "sandbox_mode \<Rightarrow> call_id \<Rightarrow> folder \<Rightarrow> sandbox_mode" where
  "spawn_mode folder_mode c fo = (case held_mode c (fo_calls fo) of
       Some m \<Rightarrow> m
     | None \<Rightarrow> max folder_mode (case floor_of c (fo_calls fo) of Some f \<Rightarrow> f | None \<Rightarrow> ModeOff))"

text \<open>The record is kept or the spawn refused; nobody but the spawn reads its guard, so it is settled with the record.\<close>

definition keep_record :: "call_id \<Rightarrow> call_record \<Rightarrow> proxy_credential option \<Rightarrow> folder \<Rightarrow> (released, call_refused) result \<times> folder" where
  "keep_record c r minted fo = (case remember c r (fo_calls fo) of
       (Inl refused, t) \<Rightarrow> (Inl refused, drop_minted minted (fo\<lparr>fo_calls := t\<rparr>))
     | (Inr evicted, t) \<Rightarrow> (Inr evicted, keep_minted minted (let_go (evicted, t) fo)))"

definition prepare_inner :: "prepare_env \<Rightarrow> call_id \<Rightarrow> folder \<Rightarrow> (bool option, sandbox_error) result \<times> folder" where
  "prepare_inner e c fo0 =
     (let mode = spawn_mode (pe_mode e) c fo0;
          settling = attempt_settling c (fo_calls fo0);
          fo = (if held_mode c (fo_calls fo0) = None then fo0\<lparr>fo_mode := pe_mode e\<rparr> else fo0) in
      if mode = ModeOff then (Inr None, fo)
      else if fo_engaged fo = None then (if mode = ModeObserve then Inr None else Inl ErrNotEngaged, fo)
      else if mode = ModeEnforce \<and> \<not> pe_session_dir_safe e then (Inl ErrSessionDirUnsafe, fo)
      else if \<not> pe_policy_ok e (live_allows_now (pe_now e) (session_of c (fo_calls fo)) fo @ sg_once settling) then (Inl ErrPolicy, fo)
      else case point_at_proxy e c mode fo of
          (Inl err, fo1) \<Rightarrow> (Inl err, fo1)
        | (Inr minted, fo1) \<Rightarrow>
            (case pe_wrap e of
               Inl _ \<Rightarrow> (Inl ErrWrap, drop_minted minted fo1)
             | Inr receipt \<Rightarrow>
                 (let sandboxed = (mode = ModeEnforce \<and> receipt);
                      r = \<lparr>cr_mode = mode, cr_sandboxed = sandboxed, cr_replayed_under = sg_replayed_under settling, cr_inherited_once = sg_once settling\<rparr> in
                  if ci_kind c \<noteq> KindTool then (Inr (Some sandboxed), drop_minted minted fo1)
                  else case keep_record c r minted fo1 of
                      (Inl refused, fo2) \<Rightarrow> (Inl (refused_error refused), fo2)
                    | (Inr evicted, fo2) \<Rightarrow> (Inr (Some sandboxed), release_ended_holds evicted fo2))))"


section \<open>The proxy follows the mode\<close>

text \<open>\<open>alive\<close>: the accept loop of the running side still runs; \<open>bound\<close>: the session token of a proxy that bound, if one does.\<close>

definition start_network :: "ustring option \<Rightarrow> folder \<Rightarrow> (bool, unit) result \<times> folder" where
  "start_network bound fo = (case bound of None \<Rightarrow> (Inl (), fo) | Some token \<Rightarrow> (Inr True, fo\<lparr>fo_side := Some (side_new token)\<rparr>))"

definition stop_network_locked :: "folder \<Rightarrow> folder" where
  "stop_network_locked fo = fo\<lparr>fo_side := None\<rparr>"

definition sync_network :: "sandbox_mode \<Rightarrow> bool \<Rightarrow> ustring option \<Rightarrow> folder \<Rightarrow> (bool, unit) result \<times> folder" where
  "sync_network mode alive bound fo0 =
     (if fo_closed fo0 then (Inr False, fo0)
      else
        let fo = fo0\<lparr>fo_mode := mode\<rparr> in
        if mode \<noteq> ModeEnforce then
          (if fo_side fo = None then (Inr False, fo)
           else if mode = ModeObserve \<and> any_runs_enforced (fo_calls fo) then (Inr True, fo)
           else (Inr False, stop_network_locked fo))
        else if fo_side fo \<noteq> None \<and> alive then (Inr True, fo)
        else start_network bound (stop_network_locked fo))"

definition stop_network :: "folder \<Rightarrow> folder" where
  "stop_network fo = stop_network_locked (fo\<lparr>fo_closed := True\<rparr>)"

end
