(* ===== verification/Card_Wire.thy ===== *)
theory Card_Wire
  imports Sandbox_Folder
begin

text \<open>
  The sandbox card and its answer, \<^verbatim>\<open>fuigo-workspace/src/permission/sandbox_wire.rs\<close> over the violations of
  \<^verbatim>\<open>fuigo-sandbox/src/command/violation.rs\<close>: what a card may offer under the tenant's ceiling, and what a reply amounts
  to once it is clamped to the offer and tied to the violation. JSON is read by serde: a reply is the record it yields.
  Paths are text, so every path is expressible on the wire.
\<close>


section \<open>Violations\<close>

datatype capability = CapPtrace | CapMount | CapSetUid

datatype blocked =
    BlFsWrite ustring
  | BlFsRead ustring
  | BlNet "ustring option" "nat option"
  | BlCapability capability
  | BlUnknown ustring

datatype informational_reason =
    ProtectedTarget | ProfileDeny | CapabilityReason | UnproxiedNetwork | PolicyDenylist | Unattributed | CardDecodeFailed

datatype violation_disposition = Grantable | Informational informational_reason

datatype replay_how = Rerun | Resume ustring

record violation =
  vi_blocked :: blocked
  vi_proposed :: "grant_subject option"
  vi_disposition :: violation_disposition
  vi_replay :: replay_how

definition is_grantable :: "violation \<Rightarrow> bool" where
  "is_grantable v \<longleftrightarrow> vi_disposition v = Grantable \<and> vi_proposed v \<noteq> None"

definition produces_card :: "violation \<Rightarrow> bool" where
  "produces_card v \<longleftrightarrow> (case vi_blocked v of BlUnknown _ \<Rightarrow> False | _ \<Rightarrow> True)"

text \<open>The violations the decider posts.\<close>

definition network_violation :: "ustring \<Rightarrow> nat \<Rightarrow> ustring \<Rightarrow> violation" where
  "network_violation host port hold_id =
     \<lparr>vi_blocked = BlNet (Some host) (Some port), vi_proposed = Some (NetHost host None), vi_disposition = Grantable, vi_replay = Resume hold_id\<rparr>"

definition denylist_violation :: "ustring \<Rightarrow> nat \<Rightarrow> ustring \<Rightarrow> violation" where
  "denylist_violation host port card_id =
     \<lparr>vi_blocked = BlNet (Some host) (Some port), vi_proposed = None, vi_disposition = Informational PolicyDenylist, vi_replay = Resume card_id\<rparr>"

record proposal_bounds =
  pb_workspace_root :: ustring
  pb_user_home :: "ustring option"

definition is_too_broad :: "ustring \<Rightarrow> proposal_bounds \<Rightarrow> bool" where
  "is_too_broad dir bounds \<longleftrightarrow> is_too_broad_anywhere dir (pb_user_home bounds)
     \<or> (\<not> is_same_path dir (pb_workspace_root bounds) \<and> is_within (pb_workspace_root bounds) dir)"

definition BUILD_CACHE_TREES :: "ustring list" where
  "BUILD_CACHE_TREES = map str [''.cargo/registry'', ''.cargo/git'', ''.npm'', ''.cache'', ''Library/Caches'', ''.pnpm-store'', ''go/pkg/mod'',
     ''.gradle/caches'', ''.m2/repository'']"


section \<open>The ceiling\<close>

datatype tool_approval_policy = AlwaysPrompt | GrantsAllowed | UnattendedAllowed

datatype offered_scope = OfferCall | OfferSession | OfferWorkspace | OfferGlobal

definition offer_rank :: "offered_scope \<Rightarrow> nat" where
  "offer_rank s = (case s of OfferCall \<Rightarrow> 0 | OfferSession \<Rightarrow> 1 | OfferWorkspace \<Rightarrow> 2 | OfferGlobal \<Rightarrow> 3)"

instantiation offered_scope :: linorder
begin

definition less_eq_offered_scope :: "offered_scope \<Rightarrow> offered_scope \<Rightarrow> bool" where
  "less_eq_offered_scope a b \<longleftrightarrow> offer_rank a \<le> offer_rank b"

definition less_offered_scope :: "offered_scope \<Rightarrow> offered_scope \<Rightarrow> bool" where
  "less_offered_scope a b \<longleftrightarrow> offer_rank a < offer_rank b"

instance
  by standard (auto simp: less_eq_offered_scope_def less_offered_scope_def offer_rank_def split: offered_scope.splits)

end

definition into_grant_scope :: "ustring \<Rightarrow> offered_scope \<Rightarrow> grant_scope" where
  "into_grant_scope workspace_root s = (case s of
       OfferCall \<Rightarrow> ScopeCall | OfferSession \<Rightarrow> ScopeSession | OfferWorkspace \<Rightarrow> ScopeWorkspace workspace_root | OfferGlobal \<Rightarrow> ScopeGlobal)"

definition MAX_PERSISTED_TTL_SECONDS :: nat where "MAX_PERSISTED_TTL_SECONDS = 7 * 24 * 3600"
definition OFFERED_TTLS_SECONDS :: "nat list" where "OFFERED_TTLS_SECONDS = [3600, 86400, MAX_PERSISTED_TTL_SECONDS]"
definition MAX_FOLLOWUP_CHARS :: nat where "MAX_FOLLOWUP_CHARS = 2000"

record ceiling =
  cl_scopes :: "offered_scope list"
  cl_expiries :: "expiry list"

definition deny_only :: ceiling where
  "deny_only = \<lparr>cl_scopes = [], cl_expiries = []\<rparr>"

definition for_violation :: "tool_approval_policy \<Rightarrow> violation \<Rightarrow> ceiling" where
  "for_violation policy v =
     (if \<not> is_grantable v then deny_only
      else
        let grants = (policy = GrantsAllowed \<or> policy = UnattendedAllowed) in
        \<lparr>cl_scopes = [OfferCall] @ (if grants then [OfferSession, OfferWorkspace] else []) @ (if policy = UnattendedAllowed then [OfferGlobal] else []),
         cl_expiries = (if grants then map ExpireTtl OFFERED_TTLS_SECONDS else []) @ (if policy = UnattendedAllowed then [ExpireNever] else [])\<rparr>)"

definition is_deny_only :: "ceiling \<Rightarrow> bool" where
  "is_deny_only cl \<longleftrightarrow> cl_scopes cl = []"

definition strongest_scope :: "ceiling \<Rightarrow> offered_scope option" where
  "strongest_scope cl = (case cl_scopes cl of [] \<Rightarrow> None | s # ss \<Rightarrow> Some (fold max ss s))"

definition offers_never :: "ceiling \<Rightarrow> bool" where
  "offers_never cl \<longleftrightarrow> ExpireNever \<in> set (cl_expiries cl)"


section \<open>Replies\<close>

datatype card_outcome = Approve | Reject | AlwaysApprove | AlwaysReject | CardCancelled

definition from_legacy_number :: "int \<Rightarrow> card_outcome option" where
  "from_legacy_number n =
     (if n = 1 then Some Approve else if n = 2 then Some Reject else if n = 3 then Some AlwaysApprove else if n = 4 then Some AlwaysReject else None)"

datatype reply_scope_kind = RsFsWriteRoot | RsFsRead | RsNetHost | RsNetAll | RsBuildCaches | RsBashCommand | RsOther

record sandbox_reply =
  sr_outcome :: "card_outcome option"
  sr_scope :: "(reply_scope_kind \<times> ustring option) option"
  sr_duration :: "offered_scope option"
  sr_expires :: "expiry option"
  sr_followup_message :: "ustring option"
  sr_reason :: "ustring option"

definition reply_default :: sandbox_reply where
  "reply_default = \<lparr>sr_outcome = None, sr_scope = None, sr_duration = None, sr_expires = None, sr_followup_message = None, sr_reason = None\<rparr>"

definition carries_sandbox_decision :: "sandbox_reply \<Rightarrow> bool" where
  "carries_sandbox_decision r \<longleftrightarrow> (case sr_scope r of Some (kind, _) \<Rightarrow> kind \<noteq> RsBashCommand \<and> kind \<noteq> RsOther | None \<Rightarrow> False)"

definition or_else :: "'a option \<Rightarrow> 'a option \<Rightarrow> 'a option" where
  "or_else a b = (case a of Some x \<Rightarrow> Some x | None \<Rightarrow> b)"

text \<open>
  \<open>outer\<close> is the reply as serde reads it, \<open>None\<close> when it is not an object or malformed; \<open>from_str\<close> reads an embedded one.
\<close>

definition reply_parse :: "(ustring \<Rightarrow> sandbox_reply option) \<Rightarrow> sandbox_reply option \<Rightarrow> sandbox_reply" where
  "reply_parse from_str outer =
     (let parsed = (case outer of Some r \<Rightarrow> r | None \<Rightarrow> reply_default) in
      case sr_scope parsed of
        Some (RsBashCommand, Some given0) \<Rightarrow>
          (let given = trim given0 in
           if \<not> starts_with (str ''{'') given then parsed\<lparr>sr_scope := None\<rparr>
           else case from_str given of
               Some embedded \<Rightarrow>
                 \<lparr>sr_outcome = or_else (sr_outcome embedded) (sr_outcome parsed), sr_scope = sr_scope embedded,
                  sr_duration = or_else (sr_duration embedded) (sr_duration parsed), sr_expires = or_else (sr_expires embedded) (sr_expires parsed),
                  sr_followup_message = or_else (sr_followup_message embedded) (sr_followup_message parsed),
                  sr_reason = or_else (sr_reason embedded) (sr_reason parsed)\<rparr>
             | None \<Rightarrow> parsed\<lparr>sr_scope := None\<rparr>)
      | _ \<Rightarrow> parsed)"


section \<open>What an answer amounts to\<close>

datatype sandbox_answer =
    AnswerAllow grant_subject grant_scope expiry
  | AnswerDeny "ustring option" bool
  | AnswerCancelled
  | AnswerDecodeFailed
  | AnswerNoSandboxDecision
  | AnswerSubjectRefused

definition clamp_expiry :: "expiry option \<Rightarrow> offered_scope \<Rightarrow> ceiling \<Rightarrow> int \<Rightarrow> expiry option" where
  "clamp_expiry asked scope cl now =
     (if scope = OfferCall \<or> scope = OfferSession then Some ExpireNever
      else
        let max_ttl = ExpireTtl MAX_PERSISTED_TTL_SECONDS in
        case asked of
          None \<Rightarrow> Some max_ttl
        | Some (ExpireTtl seconds) \<Rightarrow>
            (if seconds = 0 then None else if seconds \<le> MAX_PERSISTED_TTL_SECONDS then Some (ExpireTtl seconds) else Some max_ttl)
        | Some (ExpireAt unix) \<Rightarrow>
            (if unix \<le> now then None
             else if unix \<le> i64_sat_add now (int MAX_PERSISTED_TTL_SECONDS) then Some (ExpireAt unix) else Some max_ttl)
        | Some ExpireNever \<Rightarrow> (if offers_never cl then Some ExpireNever else Some max_ttl))"

definition net_host_value :: "ustring \<Rightarrow> nat option \<Rightarrow> ustring option" where
  "net_host_value given held_port = (case split_host_port given of
       (host, None) \<Rightarrow> Some host
     | (host, Some port) \<Rightarrow>
         (if host = [] then Some given
          else case Egress_Request.parse_u16 port of
              Some p \<Rightarrow> if Some p = held_port then Some host else None
            | None \<Rightarrow> Some given))"

text \<open>Whether an answered subject belongs to this violation and is no wider than what its card offered.\<close>

definition tied_to_violation :: "fs \<Rightarrow> grant_subject \<Rightarrow> violation \<Rightarrow> proposal_bounds \<Rightarrow> bool" where
  "tied_to_violation w answered v bounds =
     (let folder_tied = (\<lambda>root path. is_within (canonical_path w path) root \<and> (case vi_proposed v of
            Some (FsWriteRoot offered) \<Rightarrow> is_within root (fold_dots offered)
          | Some (FsRead offered) \<Rightarrow> is_within root (fold_dots offered)
          | Some BuildCaches \<Rightarrow> (case pb_user_home bounds of
                None \<Rightarrow> False
              | Some home \<Rightarrow> list_ex (\<lambda>tree. is_within root (path_join (canonical_path w home) tree)) BUILD_CACHE_TREES)
          | _ \<Rightarrow> False)) in
      case (answered, vi_blocked v) of
        (FsWriteRoot root, BlFsWrite path) \<Rightarrow> folder_tied root path
      | (FsWriteRoot root, BlFsRead path) \<Rightarrow> folder_tied root path
      | (FsRead root, BlFsWrite path) \<Rightarrow> folder_tied root path
      | (FsRead root, BlFsRead path) \<Rightarrow> folder_tied root path
      | (NetHost pattern _, BlNet host _) \<Rightarrow>
          (case host of Some h \<Rightarrow> host_matches pattern h | None \<Rightarrow> is_all pattern)
          \<and> (case vi_proposed v of Some (NetHost offered _) \<Rightarrow> is_covered_by pattern offered | _ \<Rightarrow> False)
      | (BuildCaches, _) \<Rightarrow> True
      | _ \<Rightarrow> False)"

datatype answered = AnsweredSubject grant_subject | AnsweredProposal | AnsweredRefused

definition held_to_violation :: "fs \<Rightarrow> proposal_bounds \<Rightarrow> violation \<Rightarrow> grant_subject \<Rightarrow> answered" where
  "held_to_violation w bounds v subject =
     (let root = (case subject of FsWriteRoot r \<Rightarrow> Some r | FsRead r \<Rightarrow> Some r | _ \<Rightarrow> None) in
      if (case root of Some r \<Rightarrow> \<not> is_absolute r | None \<Rightarrow> False) then AnsweredProposal
      else if (case root of Some r \<Rightarrow> is_too_broad r bounds | None \<Rightarrow> False) then AnsweredRefused
      else if tied_to_violation w subject v bounds then AnsweredSubject subject else AnsweredRefused)"

definition answered_subject :: "fs \<Rightarrow> sandbox_reply \<Rightarrow> violation \<Rightarrow> proposal_bounds \<Rightarrow> answered" where
  "answered_subject w r v bounds = (case sr_scope r of
       None \<Rightarrow> AnsweredProposal
     | Some (kind, raw) \<Rightarrow>
         (let given = (case raw of Some s \<Rightarrow> if s = [] then None else Some s | None \<Rightarrow> None) in
          case (kind, given, vi_blocked v) of
            (RsFsWriteRoot, Some path, BlFsWrite _) \<Rightarrow> held_to_violation w bounds v (FsWriteRoot (fold_dots path))
          | (RsFsRead, Some path, BlFsRead _) \<Rightarrow> held_to_violation w bounds v (FsRead (fold_dots path))
          | (RsNetHost, Some given, BlNet _ port) \<Rightarrow>
              (case net_host_value given port of
                 Some host \<Rightarrow> held_to_violation w bounds v (NetHost host port)
               | None \<Rightarrow> AnsweredRefused)
          | (RsNetAll, _, BlNet _ _) \<Rightarrow> held_to_violation w bounds v (NetHost (str ''*'') None)
          | (RsBuildCaches, _, BlFsWrite _) \<Rightarrow>
              (if vi_proposed v = Some BuildCaches then held_to_violation w bounds v BuildCaches else AnsweredProposal)
          | _ \<Rightarrow> AnsweredProposal))"

definition decode_reply :: "fs \<Rightarrow> sandbox_reply \<Rightarrow> violation \<Rightarrow> ceiling \<Rightarrow> proposal_bounds \<Rightarrow> int \<Rightarrow> sandbox_answer" where
  "decode_reply w r v cl bounds now =
     (let followup = map_option (take MAX_FOLLOWUP_CHARS) (case sr_followup_message r of Some message \<Rightarrow> if message = [] then None else Some message | None \<Rightarrow> None);
          allow = (\<lambda>outcome. case strongest_scope cl of
              None \<Rightarrow> AnswerDeny followup False
            | Some strongest \<Rightarrow>
                (if \<not> carries_sandbox_decision r then AnswerNoSandboxDecision
                 else
                   let granted = (\<lambda>subject.
                     let asked = (case sr_duration r of Some d \<Rightarrow> d | None \<Rightarrow> if outcome = AlwaysApprove then strongest else OfferCall);
                         scope = (if asked \<in> set (cl_scopes cl) then asked else min strongest asked) in
                     case clamp_expiry (sr_expires r) scope cl now of
                       None \<Rightarrow> AnswerDeny followup False
                     | Some expires \<Rightarrow> AnswerAllow subject (into_grant_scope (pb_workspace_root bounds) scope) expires) in
                   case answered_subject w r v bounds of
                     AnsweredSubject subject \<Rightarrow> granted subject
                   | AnsweredProposal \<Rightarrow> (case vi_proposed v of Some proposed \<Rightarrow> granted proposed | None \<Rightarrow> AnswerDeny followup False)
                   | AnsweredRefused \<Rightarrow> AnswerSubjectRefused))
      in case sr_outcome r of
           Some Approve \<Rightarrow> allow Approve
         | Some AlwaysApprove \<Rightarrow> allow AlwaysApprove
         | Some AlwaysReject \<Rightarrow> AnswerDeny followup True
         | Some CardCancelled \<Rightarrow> AnswerCancelled
         | Some Reject \<Rightarrow> (if sr_reason r = Some (str ''decode_failed'') then AnswerDecodeFailed else AnswerDeny followup False)
         | None \<Rightarrow> AnswerDeny followup False)"

end
