(* ===== verification/Card_Gate.thy ===== *)
theory Card_Gate
  imports Card_Wire
begin

text \<open>
  Settling a violation, \<^verbatim>\<open>fuigo-workspace/src/permission/sandbox_gate.rs\<close>, and driving a shell call through its runs,
  \<^verbatim>\<open>fuigo-workspace/src/sandbox/result_path.rs\<close>. While a card waits the folder moves on: settling is the part before the
  card and the part after its reply, each on the folder as it is then. The wording of the texts for the model is left
  out; each text is named by the case it is for. The folder has a sandbox, and the clock is read once when a reply is in.
\<close>


section \<open>Which calls meet the sandbox\<close>

datatype tool_namespace = FuigoBuild | FuigoBuildConcise | OpenCode | OtherNamespace

datatype sandbox_path = PathNone | PathShell | PathGated

definition shell_output_is_decodable :: "tool_namespace \<Rightarrow> bool" where
  "shell_output_is_decodable n \<longleftrightarrow> n = FuigoBuild \<or> n = FuigoBuildConcise \<or> n = OpenCode"

text \<open>The first argument: the tool's kind is \<open>Execute\<close>, and its namespace.\<close>

definition path_for_tool :: "(bool \<times> tool_namespace) option \<Rightarrow> sandbox_mode option \<Rightarrow> sandbox_path" where
  "path_for_tool t mode = (case t of
       Some (True, namespace) \<Rightarrow> (if mode = Some ModeEnforce \<and> shell_output_is_decodable namespace then PathGated else PathShell)
     | _ \<Rightarrow> PathNone)"

text \<open>A \<open>bash\<close> input as far as it says whether it asks for the background.\<close>

record bash_input =
  bi_is_background :: bool
  bi_block_until_ms :: "nat option"
  bi_timeout :: "nat option"

definition requests_background :: "bash_input option \<Rightarrow> bool" where
  "requests_background input = (case input of
       Some b \<Rightarrow> bi_is_background b \<or> bi_block_until_ms b = Some 0 \<or> bi_timeout b = Some 0
     | None \<Rightarrow> False)"

definition path_for_call :: "sandbox_path \<Rightarrow> bash_input option \<Rightarrow> sandbox_path" where
  "path_for_call p input = (if p \<noteq> PathGated then p else if requests_background input then PathShell else p)"

definition follows_result_path :: "sandbox_path \<Rightarrow> bool" where
  "follows_result_path p \<longleftrightarrow> p \<noteq> PathNone"


section \<open>Settling a violation\<close>

datatype denial =
    KeptBlocked "ustring option"
  | RejectedByRow
  | AllowedNotRecorded
  | AfterReplay grant_subject
  | NoTransport
  | TransportFailed
  | PromptCancelled
  | RendererFailed
  | NoDecision
  | NotGrantable

datatype settlement = SettledReplay grant | SettledDenied denial | SettledRecorded

record settle_context =
  sx_policy :: tool_approval_policy
  sx_call :: call_id
  sx_epoch :: "nat option"
  sx_session_id :: ustring
  sx_command :: ustring
  sx_replayed_under :: "grant_subject option"

definition PROVENANCE_COMMAND_MAX_CHARS :: nat where "PROVENANCE_COMMAND_MAX_CHARS = 200"

definition granted_by :: "settle_context \<Rightarrow> ustring" where
  "granted_by ctx = str ''hub:'' @ sx_session_id ctx"

definition provenance :: "settle_context \<Rightarrow> ustring \<times> ustring" where
  "provenance ctx = (take PROVENANCE_COMMAND_MAX_CHARS (sx_command ctx), ci_id (sx_call ctx))"

definition row_subject :: "violation \<Rightarrow> grant_subject option" where
  "row_subject v = (case vi_proposed v of
       Some proposed \<Rightarrow> Some proposed
     | None \<Rightarrow> (case vi_blocked v of BlFsWrite path \<Rightarrow> Some (FsWriteRoot path) | BlFsRead path \<Rightarrow> Some (FsRead path) | _ \<Rightarrow> None))"

text \<open>Up to the card: settled without asking, or the ceiling the card is posted under.\<close>

definition settle_before_card :: "row_rules \<Rightarrow> int \<Rightarrow> settle_context \<Rightarrow> violation \<Rightarrow> bool \<Rightarrow> folder \<Rightarrow> settlement + ceiling" where
  "settle_before_card rules now ctx v has_transport fo =
     (if \<not> produces_card v then Inl SettledRecorded
      else if (case row_subject v of Some subject \<Rightarrow> deny_row_covers rules now (Some (sx_session_id ctx)) subject fo | None \<Rightarrow> False)
        then Inl (SettledDenied RejectedByRow)
      else case sx_replayed_under ctx of
          Some granted \<Rightarrow> Inl (SettledDenied (AfterReplay granted))
        | None \<Rightarrow>
            (if \<not> has_transport then Inl (SettledDenied NoTransport)
             else
               let cl = for_violation (sx_policy ctx) v in
               if is_deny_only cl then Inl (SettledDenied NotGrantable) else Inr cl))"

definition new_grant :: "settle_context \<Rightarrow> ustring \<Rightarrow> grant_subject \<Rightarrow> grant_scope \<Rightarrow> expiry \<Rightarrow> grant_decision \<Rightarrow> int \<Rightarrow> grant" where
  "new_grant ctx fresh subject scope expires decision now =
     \<lparr>gr_id = fresh, gr_subject = subject, gr_scope = scope, gr_expires = expires, gr_decision = decision, gr_granted_at = now,
      gr_granted_by = granted_by ctx, gr_via = Some (provenance ctx)\<rparr>"

definition record_deny_row :: "grant_env \<Rightarrow> settle_context \<Rightarrow> violation \<Rightarrow> grant_scope \<Rightarrow> ustring \<Rightarrow> folder \<Rightarrow> grant_disk \<Rightarrow> folder \<times> grant_disk" where
  "record_deny_row e ctx v scope fresh fo d = (case vi_proposed v of
       None \<Rightarrow> (fo, d)
     | Some subject \<Rightarrow>
         (let expires = (if is_persisted scope then ExpireTtl MAX_PERSISTED_TTL_SECONDS else ExpireNever)
          in snd (record_grant e (sx_call ctx) (sx_epoch ctx) (sx_session_id ctx) (new_grant ctx fresh subject scope expires GrantDeny (ge_now e)) fo d)))"

definition deny_scope :: "proposal_bounds \<Rightarrow> violation \<Rightarrow> bool \<Rightarrow> grant_scope option" where
  "deny_scope bounds v always =
     (if always then Some (ScopeWorkspace (pb_workspace_root bounds))
      else case vi_replay v of Resume _ \<Rightarrow> Some ScopeCall | Rerun \<Rightarrow> None)"

text \<open>The answer, on the folder as it is when the reply is in.\<close>

definition settle_answer ::
    "grant_env \<Rightarrow> proposal_bounds \<Rightarrow> settle_context \<Rightarrow> violation \<Rightarrow> ustring \<Rightarrow> sandbox_answer \<Rightarrow> folder \<Rightarrow> grant_disk \<Rightarrow> settlement \<times> folder \<times> grant_disk" where
  "settle_answer e bounds ctx v fresh answer fo d = (case answer of
       AnswerAllow subject scope expires \<Rightarrow>
         (let g = new_grant ctx fresh subject scope expires GrantAllow (ge_now e) in
          case record_grant e (sx_call ctx) (sx_epoch ctx) (sx_session_id ctx) g fo d of
            (Inl _, fo1, d1) \<Rightarrow> (SettledDenied AllowedNotRecorded, fo1, d1)
          | (Inr _, fo1, d1) \<Rightarrow>
              (SettledReplay g,
               if vi_replay v = Rerun then fo1\<lparr>fo_calls := mark_replay (sx_call ctx) subject (fo_calls fo1)\<rparr> else fo1, d1))
     | AnswerDeny followup always \<Rightarrow>
         (let (fo1, d1) = (case deny_scope bounds v always of
              Some scope \<Rightarrow> if is_grantable v then record_deny_row e ctx v scope fresh fo d else (fo, d)
            | None \<Rightarrow> (fo, d))
          in (SettledDenied (KeptBlocked followup), fo1, d1))
     | AnswerCancelled \<Rightarrow> (SettledDenied PromptCancelled, fo, d)
     | AnswerSubjectRefused \<Rightarrow> (SettledDenied AllowedNotRecorded, fo, d)
     | AnswerDecodeFailed \<Rightarrow> (SettledDenied RendererFailed, fo, d)
     | AnswerNoSandboxDecision \<Rightarrow> (SettledDenied NoDecision, fo, d))"

text \<open>
  The whole of it: \<open>reply\<close> is what the transport returns (no transport, a failure, or serde's reading of a reply), \<open>meanwhile\<close>
  what others do to the folder and the files until then.
\<close>

datatype card_reply = CardNoTransport | CardTransportFailed | CardReplied "sandbox_reply option"

record card_env =
  ca_grants :: grant_env
  ca_now :: int   \<comment> \<open>when the violation is settled\<close>
  ca_bounds :: proposal_bounds
  ca_from_str :: "ustring \<Rightarrow> sandbox_reply option"
  ca_reply :: card_reply
  ca_fresh :: ustring
  ca_meanwhile :: "folder \<times> grant_disk \<Rightarrow> folder \<times> grant_disk"

definition settle_violation :: "card_env \<Rightarrow> settle_context \<Rightarrow> violation \<Rightarrow> folder \<Rightarrow> grant_disk \<Rightarrow> settlement \<times> folder \<times> grant_disk" where
  "settle_violation x ctx v fo d =
     (let e = ca_grants x in
      case settle_before_card (ge_rules e) (ca_now x) ctx v (ca_reply x \<noteq> CardNoTransport) fo of
        Inl settled \<Rightarrow> (settled, fo, d)
      | Inr cl \<Rightarrow>
          (let (fo1, d1) = ca_meanwhile x (fo, d) in
           case ca_reply x of
             CardReplied outer \<Rightarrow>
               settle_answer e (ca_bounds x) ctx v (ca_fresh x)
                 (decode_reply (rr_fs (ge_rules e)) (reply_parse (ca_from_str x) outer) v cl (ca_bounds x) (ge_now e)) fo1 d1
           | _ \<Rightarrow> (SettledDenied TransportFailed, fo1, d1)))"


section \<open>The runs of a shell call\<close>

datatype run_output =
    OutBash   \<comment> \<open>output the decoder reads\<close>
  | OutBackground
  | OutOther

datatype run_note = NoteDenial denial | NoteRefusedUnderGrant | NoteRefusal ustring

datatype after_run = KeepResult "run_note list" | ReplayRun

text \<open>What a run meets: its output, the decoder's findings, the violation it decodes and its card.\<close>

record run_env =
  re_output :: run_output
  re_command :: ustring   \<comment> \<open>the command as its output names it\<close>
  re_decode :: "call_record \<Rightarrow> bool"
  re_refused :: "call_record \<Rightarrow> bool"
  re_violation :: violation
  re_card :: card_env

definition run_context :: "tool_approval_policy \<Rightarrow> call_id \<Rightarrow> ustring \<Rightarrow> ustring \<Rightarrow> grant_subject option \<Rightarrow> settle_context" where
  "run_context policy c session command replayed_under =
     \<lparr>sx_policy = policy, sx_call = c, sx_epoch = None, sx_session_id = session, sx_command = command, sx_replayed_under = replayed_under\<rparr>"

definition after_shell_run ::
    "tool_approval_policy \<Rightarrow> call_id \<Rightarrow> ustring \<Rightarrow> run_env \<Rightarrow> folder \<Rightarrow> grant_disk \<Rightarrow> after_run \<times> folder \<times> grant_disk" where
  "after_shell_run policy c session x fo d = (case re_output x of
       OutBackground \<Rightarrow>
         (let ((notes, _), fo1) = detach_call c session fo in (KeepResult (map NoteRefusal notes), fo1, d))
     | OutOther \<Rightarrow>
         (let ((notes, _), fo1) = release_call c fo in (KeepResult (map NoteRefusal notes), fo1, d))
     | OutBash \<Rightarrow>
         (let replayed_under = Option.bind (prepared_record c (fo_calls fo)) cr_replayed_under;
              (fin, fo1) = finish_call (re_decode x) (re_refused x) c fo;
              keep = (\<lambda>notes fo2 d2. let ((refusals, _), fo3) = release_call c fo2 in (KeepResult (notes @ map NoteRefusal refusals), fo3, d2))
          in case fin of
               FinRan \<Rightarrow> keep [] fo1 d
             | FinRefusedUnderGrant \<Rightarrow> keep [NoteRefusedUnderGrant] fo1 d
             | FinViolation \<Rightarrow>
                 (case settle_violation (re_card x) (run_context policy c session (re_command x) replayed_under) (re_violation x) fo1 d of
                    (SettledReplay g, fo2, d2) \<Rightarrow> (ReplayRun, fo2, d2)
                  | (SettledDenied den, fo2, d2) \<Rightarrow> keep [NoteDenial den] fo2 d2
                  | (SettledRecorded, fo2, d2) \<Rightarrow> keep [] fo2 d2)))"

datatype replay_budget = BudgetOne | BudgetSpent

definition spend :: "replay_budget \<Rightarrow> bool \<times> replay_budget" where
  "spend b = (b = BudgetOne, BudgetSpent)"

datatype call_end = EndKept "run_note list" | EndError | EndThirdRunRefused | EndNoTerminal | EndPinLost

text \<open>
  One dispatch: its stream ends without a terminal item, with an error, or with an output. \<open>runs n\<close> is what the \<open>n\<close>-th
  dispatch meets, started by \<open>start\<close> on the folder; every end but a kept result releases the call with its guard.
\<close>

datatype dispatch = DispatchNoTerminal | DispatchError | DispatchOutput run_env

function shell_call_loop ::
    "(run_env \<Rightarrow> folder \<Rightarrow> grant_disk \<Rightarrow> after_run \<times> folder \<times> grant_disk) \<Rightarrow> (nat \<Rightarrow> folder \<Rightarrow> dispatch \<times> folder) \<Rightarrow> call_id
       \<Rightarrow> replay_budget \<Rightarrow> nat \<Rightarrow> folder \<Rightarrow> grant_disk \<Rightarrow> call_end \<times> nat \<times> folder \<times> grant_disk" where
  "shell_call_loop after runs c budget n fo d =
     (let (met, fo1) = runs n fo; k = n + 1; ended = (\<lambda>e fo2 d2. (e, k, snd (release_call c fo2), d2)) in
      case met of
        DispatchNoTerminal \<Rightarrow> ended EndNoTerminal fo1 d
      | DispatchError \<Rightarrow> ended EndError fo1 d
      | DispatchOutput x \<Rightarrow>
          (case after x fo1 d of
             (KeepResult notes, fo2, d2) \<Rightarrow> (EndKept notes, k, fo2, d2)
           | (ReplayRun, fo2, d2) \<Rightarrow>
               (let (more_runs, budget') = spend budget in
                if more_runs then shell_call_loop after runs c budget' k fo2 d2
                else ended EndThirdRunRefused fo2 d2)))"
  by pat_completeness auto

termination
  by (relation "measure (\<lambda>(_, _, _, budget, _). if budget = BudgetOne then 1 else 0)") (auto simp: spend_def)

text \<open>
  The call is bound before its first run, once the proxy, the mode and the rows are in line with the files: a pinned call
  runs only while the sandbox holds its pin. Each reading of the mode is a value of its own, since the files may change
  between them; \<open>mode()\<close> keeps what it read.
\<close>

definition bind_call_owner :: "bool \<Rightarrow> call_id \<Rightarrow> call_owner \<Rightarrow> folder \<Rightarrow> bool \<times> folder" where
  "bind_call_owner pinned c owner fo = (if pinned then bind_pinned_call c owner fo else (True, snd (bind_call c owner fo)))"

definition engage_unless_off :: "sandbox_mode \<Rightarrow> sandbox_mode \<Rightarrow> grant_env \<Rightarrow> folder \<Rightarrow> grant_disk \<Rightarrow> sandbox_mode \<times> folder" where
  "engage_unless_off mode mode_after e fo d =
     (let fo1 = fo\<lparr>fo_mode := mode\<rparr> in
      if mode = ModeOff then (ModeOff, fo1) else (mode_after, (engage e d fo1)\<lparr>fo_mode := mode_after\<rparr>))"

record start_env =
  st_sync_mode :: sandbox_mode
  st_alive :: bool
  st_bound :: "ustring option"
  st_mode :: sandbox_mode
  st_engage_mode :: sandbox_mode
  st_engaged_mode :: sandbox_mode
  st_grants :: grant_env

definition shell_call_start :: "start_env \<Rightarrow> call_id \<Rightarrow> ustring \<Rightarrow> ustring option \<Rightarrow> bool \<Rightarrow> folder \<Rightarrow> grant_disk \<Rightarrow> bool \<times> folder" where
  "shell_call_start x c session command pinned fo d =
     (let fo1 = snd (sync_network (st_sync_mode x) (st_alive x) (st_bound x) fo);
          held = (pinned \<or> floor_of c (fo_calls fo1) \<noteq> None);
          fo2 = (if held then fo1 else fo1\<lparr>fo_mode := st_mode x\<rparr>)
      in if held \<or> st_mode x \<noteq> ModeOff
         then
           let fo3 = snd (engage_unless_off (st_engage_mode x) (st_engaged_mode x) (st_grants x) fo2 d);
               fo4 = snd (refresh_grants (st_grants x) fo3 d)
           in bind_call_owner pinned c \<lparr>co_session_id = session, co_command = command\<rparr> fo4
         else (\<not> pinned, fo2))"

definition run_shell_call ::
    "tool_approval_policy \<Rightarrow> start_env \<Rightarrow> call_id \<Rightarrow> ustring \<Rightarrow> ustring option \<Rightarrow> bool \<Rightarrow> (nat \<Rightarrow> folder \<Rightarrow> dispatch \<times> folder) \<Rightarrow> folder \<Rightarrow> grant_disk
       \<Rightarrow> call_end \<times> nat \<times> folder \<times> grant_disk" where
  "run_shell_call policy x c session command pinned runs fo d =
     (let (bound, fo1) = shell_call_start x c session command pinned fo d in
      if \<not> bound then (EndPinLost, 0, snd (release_call c fo1), d)
      else shell_call_loop (after_shell_run policy c session) runs c BudgetOne 0 fo1 d)"

end
