(* ===== verification/Sandbox_Resolve.thy ===== *)
theory Sandbox_Resolve
  imports Card_Gate
begin

text \<open>
  Which mode a folder is in: the precedence of the layers, \<^verbatim>\<open>fuigo-config/src/sandbox_mode.rs\<close>; reading the three files
  a command could have planted, \<^verbatim>\<open>fuigo-workspace/src/sandbox_mode.rs\<close>; and the resolution a served folder keeps,
  \<^verbatim>\<open>ModeCache\<close> of \<^verbatim>\<open>fuigo-workspace/src/sandbox/mod.rs\<close>. TOML is read by the library: a document is what it says
  under \<open>[sandbox]\<close>. Opening a file without following a link and judging where a command may write are parameters.
\<close>


section \<open>Modes and layers\<close>

text \<open>\<open>FromStr\<close>: the snake-case names, in any ASCII case.\<close>

definition mode_from_str :: "ustring \<Rightarrow> sandbox_mode option" where
  "mode_from_str s =
     (if eq_ignore_ascii_case s (str ''off'') then Some ModeOff
      else if eq_ignore_ascii_case s (str ''observe'') then Some ModeObserve
      else if eq_ignore_ascii_case s (str ''enforce'') then Some ModeEnforce
      else None)"

datatype mode_source = SourceEnv | SourceManaged | SourceWorkspaceConfig | SourceUserConfig | SourceDefault

datatype mode_degradation = EnforceWithoutBackend | ConfigRefused

record resolved_sandbox_mode =
  rm_mode :: sandbox_mode
  rm_source :: mode_source
  rm_degraded :: "mode_degradation option"

record refused_layers =
  ry_managed :: bool
  ry_user :: bool
  ry_workspace :: bool

record sandbox_mode_layers =
  ly_env :: "ustring option"
  ly_managed :: "sandbox_mode option"
  ly_user :: "sandbox_mode option"
  ly_workspace :: "sandbox_mode option"
  ly_refused :: refused_layers

definition resolved_new :: "sandbox_mode \<Rightarrow> mode_source \<Rightarrow> resolved_sandbox_mode" where
  "resolved_new m source = \<lparr>rm_mode = m, rm_source = source, rm_degraded = None\<rparr>"

definition on_host :: "bool \<Rightarrow> resolved_sandbox_mode \<Rightarrow> resolved_sandbox_mode" where
  "on_host backend_available r =
     (if backend_available \<or> rm_mode r \<noteq> ModeEnforce then r
      else if rm_degraded r = Some ConfigRefused then r\<lparr>rm_mode := ModeOff\<rparr>
      else \<lparr>rm_mode = ModeOff, rm_source = rm_source r, rm_degraded = Some EnforceWithoutBackend\<rparr>)"

fun first_layer :: "(mode_source \<times> sandbox_mode option) list \<Rightarrow> resolved_sandbox_mode option" where
  "first_layer [] = None"
| "first_layer ((source, Some m) # _) = Some (resolved_new m source)"
| "first_layer ((_, None) # layers) = first_layer layers"

definition resolve_values :: "sandbox_mode_layers \<Rightarrow> resolved_sandbox_mode" where
  "resolve_values layers =
     (let env = Option.bind (ly_env layers) (\<lambda>given. mode_from_str (trim given));
          effective = (case first_layer [(SourceEnv, env), (SourceManaged, ly_managed layers), (SourceUserConfig, ly_user layers)] of
              Some r \<Rightarrow> r | None \<Rightarrow> resolved_new ModeOff SourceDefault)
      in case ly_workspace layers of
           None \<Rightarrow> effective
         | Some workspace \<Rightarrow>
             (case rm_source effective of
                SourceEnv \<Rightarrow> effective
              | SourceManaged \<Rightarrow> effective
              | SourceUserConfig \<Rightarrow>
                  (if workspace < rm_mode effective then effective
                   else if workspace = rm_mode effective then effective
                   else resolved_new workspace SourceWorkspaceConfig)
              | SourceDefault \<Rightarrow>
                  (if workspace < rm_mode effective then effective else resolved_new workspace SourceWorkspaceConfig)
              | SourceWorkspaceConfig \<Rightarrow> effective))"

definition resolve_on_host :: "sandbox_mode_layers \<Rightarrow> bool \<Rightarrow> resolved_sandbox_mode" where
  "resolve_on_host layers backend_available =
     (let refused = ly_refused layers;
          unless = (\<lambda>is_refused m. if is_refused then None else m);
          readable = resolve_values (layers\<lparr>ly_managed := unless (ry_managed refused) (ly_managed layers),
            ly_user := unless (ry_user refused) (ly_user layers), ly_workspace := unless (ry_workspace refused) (ly_workspace layers)\<rparr>);
          refusal_applies = (case rm_source readable of
              SourceEnv \<Rightarrow> False | SourceManaged \<Rightarrow> False
            | _ \<Rightarrow> ry_managed refused \<or> ry_user refused \<or> ry_workspace refused)
      in if \<not> refusal_applies \<or> rm_mode readable = ModeEnforce then on_host backend_available readable
         else \<lparr>rm_mode = (if backend_available then ModeEnforce else rm_mode readable),
           rm_source = (if ry_managed refused then SourceManaged else if ry_user refused then SourceUserConfig else SourceWorkspaceConfig),
           rm_degraded = Some ConfigRefused\<rparr>)"

definition resolve_mode :: "sandbox_mode_layers \<Rightarrow> resolved_sandbox_mode" where
  "resolve_mode layers = resolve_on_host layers True"


section \<open>Reading a layer\<close>

datatype io_kind = IoNotFound | IoNotADirectory | IoInvalidInput | IoInvalidData | IoOther

definition is_absent :: "io_kind \<Rightarrow> bool" where
  "is_absent e \<longleftrightarrow> e = IoNotFound \<or> e = IoNotADirectory"

datatype file_owner = OwnerAny | OwnerDaemon

datatype mode_field = FieldAbsent | FieldText ustring | FieldOther

datatype sandbox_entry = EntryAbsent | EntryNotTable | EntryTable mode_field

definition optional_sandbox_mode :: "mode_field \<Rightarrow> sandbox_mode option" where
  "optional_sandbox_mode f = (case f of FieldText s \<Rightarrow> mode_from_str (trim s) | _ \<Rightarrow> None)"

definition from_config_document :: "sandbox_entry \<Rightarrow> sandbox_mode option option" where
  "from_config_document root = (case root of EntryTable f \<Rightarrow> Some (optional_sandbox_mode f) | _ \<Rightarrow> None)"

text \<open>
  \<open>mi_holds\<close>: whether a command may write, or may have written, at a path. \<open>mi_read\<close>: a file through held directories.
  \<open>mi_toml\<close>: a document, \<open>None\<close> when it is not TOML. A link resolves when its path canonicalizes.
\<close>

record mode_inputs =
  mi_workspace_root :: ustring
  mi_fuigo_home :: ustring
  mi_env :: "ustring option"
  mi_backend_available :: bool
  mi_fs :: fs
  mi_holds :: "ustring \<Rightarrow> (bool, io_kind) result"
  mi_read :: "ustring \<Rightarrow> file_owner \<Rightarrow> (ustring, io_kind) result"
  mi_toml :: "ustring \<Rightarrow> sandbox_entry option"

definition ancestors_below :: "ustring \<Rightarrow> ustring \<Rightarrow> ustring list" where
  "ancestors_below path anchor = rev (takeWhile (\<lambda>at. \<not> is_same_path at anchor \<and> is_within at anchor) (Grant_Store.path_ancestors path))"

text \<open>The loop: whether a link was met, and the error that cut the path short.\<close>

fun link_scan :: "fs \<Rightarrow> ustring list \<Rightarrow> bool \<Rightarrow> (bool \<times> io_kind option, io_kind) result" where
  "link_scan w [] linked = Inr (linked, None)"
| "link_scan w (at # below) linked = (case fs_lstat w at of
       Link \<Rightarrow> if fs_canonicalize w at = None then Inl IoInvalidInput else link_scan w below True
     | NoLink \<Rightarrow> link_scan w below linked
     | NotFound \<Rightarrow> Inr (linked, Some IoNotFound)
     | NotADirectory \<Rightarrow> Inr (linked, Some IoNotADirectory)
     | OtherError \<Rightarrow> Inl IoOther)"

definition real_path_below :: "fs \<Rightarrow> ustring \<Rightarrow> ustring \<Rightarrow> (ustring \<Rightarrow> (bool, io_kind) result) \<Rightarrow> (ustring option, io_kind) result" where
  "real_path_below w path anchor holds =
     rbind (link_scan w (ancestors_below path anchor) False) (\<lambda>(linked, cut).
       if \<not> linked then (case cut of None \<Rightarrow> Inr None | Some e \<Rightarrow> Inl e)
       else
         let real = canonical_path w path in
         case holds real of
           Inl _ \<Rightarrow> Inl IoInvalidInput
         | Inr writable \<Rightarrow> if writable then Inl IoInvalidInput else (case cut of None \<Rightarrow> Inr (Some real) | Some e \<Rightarrow> Inl e))"

definition layer_file :: "fs \<Rightarrow> ustring \<Rightarrow> ustring \<Rightarrow> ustring" where
  "layer_file w path anchor = path_join (canonical_path w anchor)
     (case strip_components (components anchor) (components path) of Some rest \<Rightarrow> of_components rest | None \<Rightarrow> path)"

definition read_layer_text :: "mode_inputs \<Rightarrow> ustring \<Rightarrow> ustring \<Rightarrow> file_owner \<Rightarrow> (ustring, io_kind) result" where
  "read_layer_text x path anchor owner =
     rbind (real_path_below (mi_fs x) path anchor (mi_holds x)) (\<lambda>found.
       mi_read x (case found of Some real \<Rightarrow> real | None \<Rightarrow> layer_file (mi_fs x) path anchor) owner)"

definition read_layer_mode :: "mode_inputs \<Rightarrow> ustring \<Rightarrow> ustring \<Rightarrow> file_owner \<Rightarrow> (sandbox_mode option, io_kind) result" where
  "read_layer_mode x path anchor owner = (case read_layer_text x path anchor owner of
       Inl e \<Rightarrow> if is_absent e then Inr None else Inl e
     | Inr content \<Rightarrow>
         (case mi_toml x content of None \<Rightarrow> Inl IoInvalidData | Some root \<Rightarrow> Inr (Option.bind (from_config_document root) id)))"

definition user_config_path :: "ustring \<Rightarrow> ustring" where
  "user_config_path fuigo_home = path_join fuigo_home (str ''workspaced.toml'')"

definition workspace_config_path :: "ustring \<Rightarrow> ustring" where
  "workspace_config_path workspace_root = path_join (path_join workspace_root (str ''.fuigo'')) (str ''workspaced.toml'')"

definition managed_config_path :: "ustring \<Rightarrow> ustring" where
  "managed_config_path fuigo_home = path_join fuigo_home (str ''managed_config.toml'')"

definition home_anchor :: "mode_inputs \<Rightarrow> ustring" where
  "home_anchor x = (case path_parent (mi_fuigo_home x) of Some parent \<Rightarrow> parent | None \<Rightarrow> mi_fuigo_home x)"

definition managed_mode_layer :: "mode_inputs \<Rightarrow> (sandbox_mode option, io_kind) result" where
  "managed_mode_layer x = read_layer_mode x (managed_config_path (mi_fuigo_home x)) (home_anchor x) OwnerDaemon"

definition workspace_mode_layer :: "mode_inputs \<Rightarrow> (sandbox_mode option, io_kind) result" where
  "workspace_mode_layer x = read_layer_mode x (workspace_config_path (mi_workspace_root x)) (mi_workspace_root x) OwnerAny"

definition user_mode_layer :: "mode_inputs \<Rightarrow> (sandbox_mode option, io_kind) result" where
  "user_mode_layer x = read_layer_mode x (user_config_path (mi_fuigo_home x)) (home_anchor x) OwnerDaemon"

definition layer_named :: "(sandbox_mode option, io_kind) result \<Rightarrow> sandbox_mode option" where
  "layer_named r = (case r of Inl _ \<Rightarrow> None | Inr m \<Rightarrow> m)"

definition resolve_sandbox_mode_in :: "mode_inputs \<Rightarrow> resolved_sandbox_mode" where
  "resolve_sandbox_mode_in x =
     (let managed = managed_mode_layer x; workspace = workspace_mode_layer x; user = user_mode_layer x in
      resolve_on_host
        \<lparr>ly_env = mi_env x, ly_managed = layer_named managed, ly_user = layer_named user, ly_workspace = layer_named workspace,
         ly_refused = \<lparr>ry_managed = isl managed, ry_user = isl user, ry_workspace = isl workspace\<rparr>\<rparr>
        (mi_backend_available x))"


section \<open>The resolution a folder keeps\<close>

record mode_stamp =
  ms_env :: "ustring option"
  ms_workspace_file :: "(nat \<times> int \<times> nat) option"   \<comment> \<open>inode, time of change, length\<close>
  ms_user_file :: "(nat \<times> int \<times> nat) option"
  ms_managed_file :: "(nat \<times> int \<times> nat) option"

record mode_cache =
  mc_resolved :: "(mode_stamp \<times> resolved_sandbox_mode) option"
  mc_resolving :: bool
  mc_generation :: nat
  mc_resolutions :: nat
  mc_stamps :: nat

definition mode_cache_new :: mode_cache where
  "mode_cache_new = \<lparr>mc_resolved = None, mc_resolving = False, mc_generation = 0, mc_resolutions = 0, mc_stamps = 0\<rparr>"

text \<open>
  \<open>resolved_mode\<close> takes the lock twice and reads the layers in between: the answer from memory, or the generation the
  reading begins under; and what is kept of it. The reader's answer is what it read, kept or not.
\<close>

definition resolve_begin :: "mode_stamp \<Rightarrow> mode_cache \<Rightarrow> (resolved_sandbox_mode + nat) \<times> mode_cache" where
  "resolve_begin stamp cache =
     (let c = cache\<lparr>mc_stamps := mc_stamps cache + 1\<rparr>; reading = (Inr (mc_generation c), c\<lparr>mc_resolving := True\<rparr>) in
      case mc_resolved c of
        Some (cached, r) \<Rightarrow> if cached = stamp \<or> mc_resolving c then (Inl r, c) else reading
      | None \<Rightarrow> reading)"

definition resolve_end :: "mode_stamp \<Rightarrow> nat \<Rightarrow> resolved_sandbox_mode \<Rightarrow> mode_cache \<Rightarrow> mode_cache" where
  "resolve_end stamp generation r cache =
     (let c = cache\<lparr>mc_resolving := False, mc_resolutions := mc_resolutions cache + 1\<rparr> in
      if mc_generation c \<noteq> generation then c else c\<lparr>mc_resolved := Some (stamp, r)\<rparr>)"

definition forget_resolution :: "mode_cache \<Rightarrow> mode_cache" where
  "forget_resolution cache = cache\<lparr>mc_resolved := None, mc_generation := mc_generation cache + 1\<rparr>"

definition resolved_mode :: "mode_stamp \<Rightarrow> mode_inputs \<Rightarrow> mode_cache \<Rightarrow> resolved_sandbox_mode \<times> mode_cache" where
  "resolved_mode stamp x cache = (case resolve_begin stamp cache of
       (Inl r, c) \<Rightarrow> (r, c)
     | (Inr generation, c) \<Rightarrow>
         (let r = resolve_sandbox_mode_in (x\<lparr>mi_env := ms_env stamp\<rparr>) in (r, resolve_end stamp generation r c)))"

definition published_mode :: "mode_stamp \<Rightarrow> mode_inputs \<Rightarrow> mode_cache \<Rightarrow> sandbox_mode \<times> mode_cache" where
  "published_mode stamp x cache = (case mc_resolved cache of
       Some (_, r) \<Rightarrow> (rm_mode r, cache)
     | None \<Rightarrow> (let (r, c) = resolved_mode stamp x cache in (rm_mode r, c)))"


section \<open>Setting the mode\<close>

definition mode_str :: "sandbox_mode \<Rightarrow> ustring" where
  "mode_str m = (case m of ModeOff \<Rightarrow> str ''off'' | ModeObserve \<Rightarrow> str ''observe'' | ModeEnforce \<Rightarrow> str ''enforce'')"

datatype mode_write_error = WriteRead | WriteNotToml | WriteSandboxNotATable | WriteCreateDir | WriteFailed | WriteUserLayer | WriteNotADirectory

text \<open>
  What a write meets: the folder, its \<open>.fuigo\<close> held open and whether that is the fuigo home, the lock, the file as it is,
  the document with the mode set in it (\<open>None\<close>: not TOML; \<open>Some None\<close>: \<open>[sandbox]\<close> is not a table), and the replacement.
\<close>

record mode_writer =
  mw_root_is_dir :: bool
  mw_open :: "(bool, io_kind) result"
  mw_lock :: "(unit, io_kind) result"
  mw_existing :: "(ustring, io_kind) result"
  mw_set_mode :: "ustring \<Rightarrow> ustring \<Rightarrow> ustring option option"
  mw_replace :: "(unit, io_kind) result"

definition write_workspace_sandbox_mode_in :: "mode_writer \<Rightarrow> mode_inputs \<Rightarrow> sandbox_mode \<Rightarrow> (ustring \<times> ustring, mode_write_error) result" where
  "write_workspace_sandbox_mode_in wr x m =
     (let path = workspace_config_path (mi_workspace_root x) in
      if is_same_path (canonical_path (mi_fs x) (path_join (mi_workspace_root x) (str ''.fuigo''))) (canonical_path (mi_fs x) (mi_fuigo_home x))
      then Inl WriteUserLayer
      else case mw_open wr of
          Inl _ \<Rightarrow> Inl WriteCreateDir
        | Inr is_home \<Rightarrow>
            (if is_home then Inl WriteUserLayer
             else if isl (mw_lock wr) then Inl WriteFailed
             else case (case mw_existing wr of Inl e \<Rightarrow> if e = IoNotFound then Some [] else None | Inr content \<Rightarrow> Some content) of
                 None \<Rightarrow> Inl WriteRead
               | Some existing \<Rightarrow>
                   (case mw_set_mode wr existing (mode_str m) of
                      None \<Rightarrow> Inl WriteNotToml
                    | Some None \<Rightarrow> Inl WriteSandboxNotATable
                    | Some (Some document) \<Rightarrow> if isl (mw_replace wr) then Inl WriteFailed else Inr (path, document))))"

text \<open>The file replaced is the one the folder's layer is read from, so the inputs change there.\<close>

definition set_workspace_mode_in ::
    "mode_writer \<Rightarrow> sandbox_mode \<Rightarrow> mode_inputs \<Rightarrow> (ustring \<times> resolved_sandbox_mode \<times> mode_inputs, mode_write_error) result" where
  "set_workspace_mode_in wr m x =
     (if \<not> mw_root_is_dir wr then Inl WriteNotADirectory
      else rbind (write_workspace_sandbox_mode_in wr x m) (\<lambda>(path, document).
        let file = layer_file (mi_fs x) path (mi_workspace_root x);
            x1 = x\<lparr>mi_read := (mi_read x)(file := (\<lambda>_. Inr document))\<rparr>
        in Inr (path, resolve_sandbox_mode_in x1, x1)))"

definition set_workspace_mode ::
    "mode_writer \<Rightarrow> sandbox_mode \<Rightarrow> mode_stamp \<Rightarrow> mode_stamp \<Rightarrow> mode_inputs \<Rightarrow> mode_cache
       \<Rightarrow> (ustring \<times> resolved_sandbox_mode, mode_write_error) result \<times> mode_inputs \<times> mode_cache" where
  "set_workspace_mode wr m before after x cache =
     (let (_, c1) = published_mode before x cache in
      case set_workspace_mode_in wr m x of
        Inl e \<Rightarrow> (Inl e, x, c1)
      | Inr (path, _, x1) \<Rightarrow> (let (effective, c2) = resolved_mode after x1 (forget_resolution c1) in (Inr (path, effective), x1, c2)))"

end
