(* ===== verification/Call_Table_Props.thy ===== *)
theory Call_Table_Props
  imports Call_Table Interfaces
begin

text \<open>
  Correctness of the table of calls: a tag names one call; the table stays within its bounds with epochs that are never
  used twice; what may still run is never dropped to make room; and whatever ends a spawn hands its credential and
  its epoch over to be revoked and refused.
\<close>


section \<open>A tag names one call\<close>

lemma prefix_spellings [simp]:
  "strip_prefix TOOL_PREFIX (SHELL_INIT_PREFIX @ s) = None" "strip_prefix SHELL_INIT_PREFIX (TOOL_PREFIX @ s) = None"
  by (simp_all add: SHELL_INIT_PREFIX_def TOOL_PREFIX_def str_def)

lemma call_parse_display: "call_parse (call_display c) = c"
proof (cases "ci_kind c")
  case KindTool
  then have "c = \<lparr>ci_kind = KindTool, ci_id = ci_id c\<rparr>" by simp
  then show ?thesis using KindTool by (auto simp: call_display_def call_parse_def starts_with_def split: option.splits)
next
  case KindShellInit
  then have "c = \<lparr>ci_kind = KindShellInit, ci_id = ci_id c\<rparr>" by simp
  then show ?thesis using KindShellInit by (simp add: call_display_def call_parse_def)
qed

lemma tag_reads_back: "tag_call_id (tag_for_call c) = Some c"
  by (simp add: tag_call_id_def tag_for_call_def call_parse_display)

lemma tag_inj [simp]: "tag_for_call c = tag_for_call c' \<longleftrightarrow> c = c'"
  using tag_reads_back by (metis option.inject)


section \<open>The operations as one step\<close>

datatype call_op =
    CallBind call_id call_owner
  | CallBindPinned call_id call_owner
  | CallRelease call_id
  | CallPushDenial call_id ustring
  | CallTakeDenials call_id
  | CallPin call_id sandbox_mode
  | CallFloor call_id sandbox_mode
  | CallRemember call_id call_record
  | CallTakePrepared call_id
  | CallOpenSettlement call_id sandbox_mode
  | CallCloseSettlement call_id
  | CallStash call_id "nat option" grant
  | CallMarkReplay call_id grant_subject
  | CallDetach call_id ustring
  | CallExited call_id
  | CallEndSession ustring

definition outcome :: "(released, call_refused) result \<times> call_table \<Rightarrow> released \<times> call_table" where
  "outcome r = (case fst r of Inl _ \<Rightarrow> released_none | Inr rel \<Rightarrow> rel, snd r)"

fun table_op :: "call_op \<Rightarrow> call_table \<Rightarrow> released \<times> call_table" where
  "table_op (CallBind c owner) t = outcome (bind_owner c owner t)"
| "table_op (CallBindPinned c owner) t = (released_none, snd (bind_pinned_owner c owner t))"
| "table_op (CallRelease c) t = snd (table_release c t)"
| "table_op (CallPushDenial c model) t = (released_none, push_denial c model t)"
| "table_op (CallTakeDenials c) t = (released_none, snd (take_denials c t))"
| "table_op (CallPin c mode) t = outcome (pin_mode c mode t)"
| "table_op (CallFloor c mode) t = (released_none, snd (floor_mode c mode t))"
| "table_op (CallRemember c r) t = outcome (remember c r t)"
| "table_op (CallTakePrepared c) t = snd (take_prepared c t)"
| "table_op (CallOpenSettlement c mode) t = outcome (open_settlement c mode t)"
| "table_op (CallCloseSettlement c) t = (released_none, close_settlement c t)"
| "table_op (CallStash c epoch g) t = (released_none, snd (stash_once c epoch g t))"
| "table_op (CallMarkReplay c granted) t = (released_none, mark_replay c granted t)"
| "table_op (CallDetach c session) t = snd (table_detach c session t)"
| "table_op (CallExited c) t = table_exited c t"
| "table_op (CallEndSession session) t = table_end_session session t"

definition table_step :: "call_table \<Rightarrow> call_op \<Rightarrow> call_table" where
  "table_step t op = snd (table_op op t)"


section \<open>The invariant\<close>

definition entry_ok :: "call_entry \<Rightarrow> bool" where
  "entry_ok e \<longleftrightarrow> distinct (ce_net_denials e) \<and> length (ce_net_denials e) \<le> MAX_NET_DENIAL_NOTES"

definition table_ok :: "call_table \<Rightarrow> bool" where
  "table_ok t \<longleftrightarrow> hm_ok (ct_calls t) \<and> length (ct_calls t) \<le> MAX_OPEN_CALLS
     \<and> hm_ok (ct_floors t) \<and> length (ct_floors t) \<le> MAX_OPEN_CALLS
     \<and> distinct (ct_tombstones t) \<and> length (ct_tombstones t) \<le> MAX_TOMBSTONES
     \<and> (\<forall>c e. entry_of t c = Some e \<longrightarrow> ce_epoch e < ct_next_epoch t \<and> entry_ok e \<and> c \<notin> set (ct_tombstones t))
     \<and> (\<forall>c c' e e'. entry_of t c = Some e \<longrightarrow> entry_of t c' = Some e' \<longrightarrow> ce_epoch e = ce_epoch e' \<longrightarrow> c = c')"

lemma upd_entry_simps [simp]:
  "entry_of (upd_entry c f t) c' = (if c' = c then map_option f (entry_of t c) else entry_of t c')"
  "ct_next_epoch (upd_entry c f t) = ct_next_epoch t" "ct_tombstones (upd_entry c f t) = ct_tombstones t"
  "ct_floors (upd_entry c f t) = ct_floors t" "length (ct_calls (upd_entry c f t)) = length (ct_calls t)"
  "hm_ok (ct_calls (upd_entry c f t)) = hm_ok (ct_calls t)"
  by (simp_all add: upd_entry_def hmap_simps)

lemma bump_simps [simp]:
  "ct_calls (bump_epoch t) = ct_calls t" "ct_next_epoch (bump_epoch t) = Suc (ct_next_epoch t)"
  "ct_tombstones (bump_epoch t) = ct_tombstones t" "ct_floors (bump_epoch t) = ct_floors t"
  by (simp_all add: bump_epoch_def)

text \<open>An entry changed in place, its epoch kept or moved to the next unused one.\<close>

lemma table_ok_upd:
  assumes "table_ok t" "\<And>e. entry_of t c = Some e \<Longrightarrow> ce_epoch (f e) = ce_epoch e \<and> entry_ok (f e)"
  shows "table_ok (upd_entry c f t)"
  using assms unfolding table_ok_def by (auto split: if_splits)

lemma table_ok_moved:
  assumes "table_ok t" "\<And>e. entry_of t c = Some e \<Longrightarrow> ce_epoch (f e) = ct_next_epoch t \<and> entry_ok (f e)"
  shows "table_ok (bump_epoch (upd_entry c f t))"
  using assms unfolding table_ok_def by (auto simp: less_SucI split: if_splits) (metis nat_less_le)+

lemma table_ok_remove:
  assumes "table_ok t"
  shows "table_ok (t\<lparr>ct_calls := hm_remove c (ct_calls t)\<rparr>)"
  using assms length_hm_remove[of c "ct_calls t"] unfolding table_ok_def by (auto simp: hmap_simps split: if_splits)

lemma table_ok_floors:
  assumes "table_ok t" "hm_ok fs" "length fs \<le> MAX_OPEN_CALLS"
  shows "table_ok (t\<lparr>ct_floors := fs\<rparr>)"
  using assms unfolding table_ok_def by simp

lemma table_ok_floor_remove: "table_ok t \<Longrightarrow> table_ok (t\<lparr>ct_floors := hm_remove c (ct_floors t)\<rparr>)"
  using length_hm_remove[of c "ct_floors t"] by (intro table_ok_floors) (auto simp: table_ok_def hmap_simps)

lemma entry_ok_epoch: "table_ok t \<Longrightarrow> entry_of t c = Some e \<Longrightarrow> ce_epoch e < ct_next_epoch t \<and> entry_ok e"
  by (simp add: table_ok_def)

lemma table_ok_insert:
  assumes "table_ok t" "entry_of t c = None" "c \<notin> set (ct_tombstones t)" "length (ct_calls t) < MAX_OPEN_CALLS"
  shows "table_ok (insert_entry c t)"
proof -
  have "entry_ok (entry_new n)" for n by (simp add: entry_ok_def entry_new_def)
  then show ?thesis using assms unfolding table_ok_def insert_entry_def
    by (auto simp: hmap_simps length_hm_insert less_SucI entry_new_def split: if_splits) (metis nat_less_le)+
qed

text \<open>What getting an entry may do: nothing, make one, or make one in place of one that may be evicted.\<close>

lemma table_entry_cases:
  obtains (present) e where "entry_of t c = Some e" "table_entry c t = (Inr released_none, t)"
  | (refused) r where "entry_of t c = None" "table_entry c t = (Inl r, t)"
  | (fresh) "entry_of t c = None" "c \<notin> set (ct_tombstones t)" "length (ct_calls t) < MAX_OPEN_CALLS"
      "table_entry c t = (Inr released_none, insert_entry c t)"
  | (evicting) old e where "entry_of t c = None" "c \<notin> set (ct_tombstones t)" "(old, e) \<in> set (ct_calls t)" "evictable e" "old \<noteq> c"
      "table_entry c t = (Inr (released_one old (map_option ce_epoch (entry_of t old))), insert_entry c (t\<lparr>ct_calls := hm_remove old (ct_calls t)\<rparr>))"
proof (cases "entry_of t c")
  case (Some e)
  then show ?thesis using present by (simp add: table_entry_def)
next
  case None
  show ?thesis
  proof (cases "c \<in> set (ct_tombstones t)")
    case True
    then show ?thesis using None refused by (simp add: table_entry_def)
  next
    case nt: False
    show ?thesis
    proof (cases "length (ct_calls t) < MAX_OPEN_CALLS")
      case True
      then show ?thesis using None nt fresh by (simp add: table_entry_def)
    next
      case full: False
      let ?es = "filter (\<lambda>(_, e). evictable e) (ct_calls t)"
      show ?thesis
      proof (cases "?es = []")
        case True
        then show ?thesis using None nt full refused by (simp add: table_entry_def)
      next
        case False
        obtain old e where o: "arg_min_list (\<lambda>(_, e). ce_epoch e) ?es = (old, e)" by (cases "arg_min_list (\<lambda>(_, e). ce_epoch e) ?es")
        then have m: "(old, e) \<in> set (ct_calls t)" "evictable e" using arg_min_list_in[OF False, of "\<lambda>(_, e). ce_epoch e"] by auto
        moreover have "old \<noteq> c" using None m(1) by (metis option.distinct(1) weak_map_of_SomeI)
        moreover have "table_entry c t = (Inr (released_one old (map_option ce_epoch (entry_of t old))), insert_entry c (t\<lparr>ct_calls := hm_remove old (ct_calls t)\<rparr>))"
          using None nt full False o by (auto simp: table_entry_def table_remove_def split: list.splits)
        ultimately show ?thesis using evicting None nt by blast
      qed
    qed
  qed
qed

lemma table_ok_entry: "table_ok t \<Longrightarrow> table_ok (snd (table_entry c t))"
proof (cases rule: table_entry_cases[of t c])
  case (evicting old e)
  assume ok: "table_ok t"
  have "length (hm_remove old (ct_calls t)) < length (ct_calls t)"
    using evicting(3) ok length_hm_remove_present[of "ct_calls t" old e] by (simp add: table_ok_def hm_ok_def)
  then have "length (hm_remove old (ct_calls t)) < MAX_OPEN_CALLS" using ok by (simp add: table_ok_def)
  then show ?thesis using table_ok_insert[OF table_ok_remove[OF ok]] evicting by (simp add: hmap_simps)
qed (simp_all add: table_ok_insert)

lemma table_ok_tombstones: "table_ok t \<Longrightarrow> table_ok (t\<lparr>ct_tombstones := filter P (ct_tombstones t)\<rparr>)"
  unfolding table_ok_def by (auto intro: le_trans[OF length_filter_le])

lemma table_ok_dispatched: "table_ok t \<Longrightarrow> table_ok (snd (dispatched c t))"
  unfolding dispatched_def by (intro table_ok_entry table_ok_tombstones)

lemma table_ok_on_entry:
  assumes "table_ok (snd r)" "\<And>e. entry_ok e \<Longrightarrow> ce_epoch (f e) = ce_epoch e \<and> entry_ok (f e)"
  shows "table_ok (snd (outcome (on_entry r c f)))"
proof -
  have "table_ok (upd_entry c f (snd r))" using assms entry_ok_epoch by (intro table_ok_upd) blast+
  then show ?thesis using assms(1) by (cases r) (auto simp: outcome_def on_entry_def split: sum.splits)
qed

lemma entry_ok_fields [simp]:
  "entry_ok (e\<lparr>ce_owner := a\<rparr>) = entry_ok e" "entry_ok (e\<lparr>ce_spawn := b\<rparr>) = entry_ok e" "entry_ok (e\<lparr>ce_next := n\<rparr>) = entry_ok e"
  "entry_ok (e\<lparr>ce_detached := d\<rparr>) = entry_ok e" "entry_ok (e\<lparr>ce_epoch := k\<rparr>) = entry_ok e" "entry_ok (clear_once e) = entry_ok e"
  "entry_ok (snd (entry_take_denials e))" "ce_epoch (snd (entry_take_denials e)) = ce_epoch e" "ce_spawn (snd (entry_take_denials e)) = ce_spawn e"
  "ce_epoch (clear_once e) = ce_epoch e" "ce_spawn (clear_once e) = ce_spawn e"
  by (simp_all add: entry_ok_def clear_once_def entry_take_denials_def)

lemma table_ok_drop: "table_ok t \<Longrightarrow> table_ok (drop_if_empty c t)"
  by (auto simp: drop_if_empty_def table_ok_remove split: option.splits)

lemma table_ok_drain: "table_ok t \<Longrightarrow> table_ok (snd (drain_denials c t))"
  by (auto simp: drain_denials_def split: option.splits intro!: table_ok_upd)

lemma table_ok_set_tombstones:
  assumes "table_ok t" "distinct ts" "length ts \<le> MAX_TOMBSTONES" "\<And>c e. entry_of t c = Some e \<Longrightarrow> c \<notin> set ts"
  shows "table_ok (t\<lparr>ct_tombstones := ts\<rparr>)"
  using assms by (simp add: table_ok_def)

lemma push_tombstone:
  assumes "distinct ts" "length ts \<le> MAX_TOMBSTONES" "c \<notin> set ts"
  shows "distinct ((if MAX_TOMBSTONES \<le> length ts then tl ts else ts) @ [c])"
    "length ((if MAX_TOMBSTONES \<le> length ts then tl ts else ts) @ [c]) \<le> MAX_TOMBSTONES"
    "set ((if MAX_TOMBSTONES \<le> length ts then tl ts else ts) @ [c]) \<subseteq> insert c (set ts)"
  using assms by (cases ts; auto simp: MAX_TOMBSTONES_def)+

lemma table_ok_release:
  assumes "table_ok t"
  shows "table_ok (snd (snd (table_release c t)))"
proof -
  let ?t = "snd (drain_denials c t)"
  define u where "u = ?t\<lparr>ct_floors := hm_remove c (ct_floors ?t), ct_calls := hm_remove c (ct_calls ?t)\<rparr>"
  have u: "table_ok u" using table_ok_remove[OF table_ok_floor_remove[OF table_ok_drain[OF assms, of c], of c], of c] by (simp add: u_def)
  let ?ts = "(if MAX_TOMBSTONES \<le> length (ct_tombstones u) then tl (ct_tombstones u) else ct_tombstones u) @ [c]"
  have "table_ok (u\<lparr>ct_tombstones := ?ts\<rparr>)" if "c \<notin> set (ct_tombstones u)"
  proof -
    have n: "entry_of u c = None" by (simp add: hmap_simps u_def)
    have p: "distinct ?ts" "length ?ts \<le> MAX_TOMBSTONES" "set ?ts \<subseteq> insert c (set (ct_tombstones u))"
      using push_tombstone[of "ct_tombstones u" c] u that unfolding table_ok_def by blast+
    have "d \<notin> set ?ts" if d: "entry_of u d = Some e" for d e
    proof -
      have "d \<noteq> c" using d n by auto
      moreover have "d \<notin> set (ct_tombstones u)" using u d unfolding table_ok_def by blast
      ultimately show ?thesis using p(3) by blast
    qed
    then show ?thesis using table_ok_set_tombstones[OF u p(1,2)] by blast
  qed
  moreover have "snd (snd (table_release c t)) = (if c \<in> set (ct_tombstones u) then u else u\<lparr>ct_tombstones := ?ts\<rparr>)"
    unfolding u_def by (simp add: table_release_def table_remove_def case_prod_beta Let_def)
  ultimately show ?thesis using u by simp
qed

lemma table_ok_release_each: "table_ok t \<Longrightarrow> table_ok (snd (release_each cs t))"
  by (induction cs arbitrary: t) (simp_all add: case_prod_beta Let_def table_ok_release)

lemma table_ok_op: "table_ok t \<Longrightarrow> table_ok (snd (table_op op t))"
proof (cases op)
  case (CallBindPinned c owner)
  assume "table_ok t"
  then show ?thesis using CallBindPinned entry_ok_epoch by (auto simp: bind_pinned_owner_def split: option.splits intro!: table_ok_upd)
next
  case (CallPushDenial c model)
  assume "table_ok t"
  then show ?thesis using CallPushDenial entry_ok_epoch[of t c]
    by (auto simp: push_denial_def entry_ok_def intro!: table_ok_upd)
next
  case (CallFloor c mode)
  assume ok: "table_ok t"
  then show ?thesis using CallFloor
    by (auto simp: floor_mode_def table_ok_def hmap_simps length_hm_insert split: option.splits)
next
  case (CallTakePrepared c)
  assume "table_ok t"
  then show ?thesis using CallTakePrepared entry_ok_epoch by (auto simp: take_prepared_def intro!: table_ok_upd)
next
  case (CallCloseSettlement c)
  assume "table_ok t"
  then show ?thesis using CallCloseSettlement entry_ok_epoch by (auto simp: close_settlement_def intro!: table_ok_upd table_ok_drop)
next
  case (CallStash c epoch g)
  assume "table_ok t"
  then show ?thesis using CallStash entry_ok_epoch by (auto simp: stash_once_def Let_def split: option.splits intro!: table_ok_upd)
next
  case (CallMarkReplay c granted)
  assume "table_ok t"
  then show ?thesis using CallMarkReplay entry_ok_epoch by (auto simp: mark_replay_def intro!: table_ok_upd)
next
  case (CallDetach c session)
  assume ok: "table_ok t"
  show ?thesis
  proof (cases "entry_of t c")
    case (Some e)
    show ?thesis
    proof (cases "ce_spawn e")
      case None
      then show ?thesis using Some CallDetach ok by (simp add: table_detach_def table_ok_release)
    next
      case sp: (Some s)
      let ?e = "snd (entry_take_denials ((clear_once e)\<lparr>ce_spawn := Some (s\<lparr>cr_inherited_once := []\<rparr>), ce_owner := None, ce_detached := Some session, ce_epoch := ct_next_epoch t\<rparr>))"
      have "table_ok (bump_epoch (upd_entry c (\<lambda>_. ?e) t))" by (rule table_ok_moved[OF ok]) simp
      from table_ok_floor_remove[OF this, of c] show ?thesis
        using Some sp CallDetach by (simp add: table_detach_def case_prod_beta Let_def)
    qed
  qed (use ok CallDetach in \<open>simp add: table_detach_def\<close>)
next
  case (CallExited c)
  assume ok: "table_ok t"
  have "table_ok (bump_epoch (upd_entry c (\<lambda>e. (clear_once e)\<lparr>ce_spawn := None, ce_epoch := ct_next_epoch t\<rparr>) t))"
    using ok entry_ok_epoch by (intro table_ok_moved) auto
  then show ?thesis using ok CallExited by (auto simp: table_exited_def table_ok_release split: option.splits)
qed (auto simp: bind_owner_def pin_mode_def remember_def open_settlement_def take_denials_def table_end_session_def case_prod_beta Let_def
    table_ok_release table_ok_release_each split: option.splits
    intro!: table_ok_on_entry table_ok_dispatched table_ok_entry table_ok_drop table_ok_drain)

interpretation calls: state_machine table_step table_ok
  by unfold_locales (simp add: table_step_def table_ok_op)

lemma table_ok_new [simp]: "table_ok table_new"
  by (simp add: table_ok_def table_new_def)


section \<open>What an operation does to one call\<close>

fun op_call :: "call_op \<Rightarrow> call_id option" where
  "op_call (CallBind c _) = Some c" | "op_call (CallBindPinned c _) = Some c" | "op_call (CallRelease c) = Some c"
| "op_call (CallPushDenial c _) = Some c" | "op_call (CallTakeDenials c) = Some c" | "op_call (CallPin c _) = Some c"
| "op_call (CallFloor c _) = Some c" | "op_call (CallRemember c _) = Some c" | "op_call (CallTakePrepared c) = Some c"
| "op_call (CallOpenSettlement c _) = Some c" | "op_call (CallCloseSettlement c) = Some c" | "op_call (CallStash c _ _) = Some c"
| "op_call (CallMarkReplay c _) = Some c" | "op_call (CallDetach c _) = Some c" | "op_call (CallExited c) = Some c"
| "op_call (CallEndSession _) = None"

lemma entry_of_insert [simp]: "entry_of (insert_entry c t) c' = (if c' = c then Some (entry_new (ct_next_epoch t)) else entry_of t c')"
  by (simp add: insert_entry_def hmap_simps)

lemma entry_of_removed [simp]: "hm_get (hm_remove c m) c' = (if c' = c then None else hm_get m c')"
  by (simp add: hmap_simps)

lemma entry_other:
  assumes "hm_ok (ct_calls t)" "c' \<noteq> c"
  shows "entry_of (snd (table_entry c t)) c' = entry_of t c'
    \<or> (entry_of (snd (table_entry c t)) c' = None \<and> (\<exists>e. entry_of t c' = Some e \<and> evictable e))"
proof (cases rule: table_entry_cases[of t c])
  case (evicting old e)
  have "entry_of t old = Some e" using evicting(3) assms(1) by (simp add: hm_ok_def)
  then show ?thesis using evicting assms(2) by auto
qed (use assms(2) in auto)

lemma entry_same:
  "entry_of (snd (table_entry c t)) c = (case fst (table_entry c t) of Inl _ \<Rightarrow> None
     | Inr _ \<Rightarrow> (case entry_of t c of Some e \<Rightarrow> Some e | None \<Rightarrow> Some (entry_new (ct_next_epoch t))))"
  by (cases rule: table_entry_cases[of t c]) auto

lemma outcome_on_entry:
  "entry_of (snd (outcome (on_entry r c f))) c' = (case fst r of Inl _ \<Rightarrow> entry_of (snd r) c'
     | Inr _ \<Rightarrow> if c' = c then map_option f (entry_of (snd r) c) else entry_of (snd r) c')"
  "fst (outcome (on_entry r c f)) = (case fst r of Inl _ \<Rightarrow> released_none | Inr rel \<Rightarrow> rel)"
  by (cases r; auto simp: outcome_def on_entry_def split: sum.splits)+

lemma dispatched_other:
  assumes "hm_ok (ct_calls t)" "c' \<noteq> c"
  shows "entry_of (snd (dispatched c t)) c' = entry_of t c' \<or> (entry_of (snd (dispatched c t)) c' = None \<and> (\<exists>e. entry_of t c' = Some e \<and> evictable e))"
  using entry_other[of "t\<lparr>ct_tombstones := filter (\<lambda>r. r \<noteq> c) (ct_tombstones t)\<rparr>" c' c] assms by (simp add: dispatched_def)

lemma drop_entry: "entry_of (drop_if_empty c t) c' = (if c' = c \<and> (\<exists>e. entry_of t c = Some e \<and> entry_is_empty e) then None else entry_of t c')"
  by (auto simp: drop_if_empty_def split: option.splits)

lemma drain_entry: "entry_of (snd (drain_denials c t)) c' = (if c' = c then map_option (snd \<circ> entry_take_denials) (entry_of t c) else entry_of t c')"
  by (auto simp: drain_denials_def split: option.splits)

lemma release_entry:
  "entry_of (snd (snd (table_release c t))) c' = (if c' = c then None else entry_of t c')"
  "fst (snd (table_release c t)) = released_one c (epoch_of c t)"
  by (auto simp: table_release_def table_remove_def case_prod_beta Let_def drain_entry epoch_of_def option.map_comp comp_def)

lemma release_each_entry:
  "entry_of (snd (release_each cs t)) c = (if c \<in> set cs then None else entry_of t c)"
  by (induction cs arbitrary: t) (simp_all add: case_prod_beta Let_def release_entry)

text \<open>Another call is left as it is, unless it can be evicted or its session ends.\<close>

lemma op_other:
  assumes ok: "hm_ok (ct_calls t)" and n: "op_call op \<noteq> Some c"
  shows "entry_of (snd (table_op op t)) c = entry_of t c
    \<or> (entry_of (snd (table_op op t)) c = None \<and> (\<exists>e. entry_of t c = Some e
        \<and> (evictable e \<or> (\<exists>s. op = CallEndSession s \<and> ce_detached e = Some s))))"
proof (cases op)
  case (CallEndSession s)
  have "entry_of t c = Some e" if "(c, e) \<in> set (ct_calls t)" for e using that ok by (simp add: hm_ok_def)
  then show ?thesis using CallEndSession by (auto simp: table_end_session_def release_each_entry)
next
  case (CallDetach d s)
  then show ?thesis using n by (auto simp: table_detach_def case_prod_beta Let_def release_entry split: option.splits)
next
  case (CallExited d)
  then show ?thesis using n by (auto simp: table_exited_def release_entry split: option.splits)
qed (use n dispatched_other[OF ok, of c] entry_other[OF ok, of c] in
    \<open>auto simp: bind_owner_def pin_mode_def remember_def open_settlement_def outcome_on_entry bind_pinned_owner_def push_denial_def
       take_denials_def case_prod_beta Let_def drop_entry drain_entry floor_mode_def take_prepared_def close_settlement_def stash_once_def
       mark_replay_def release_entry split: sum.splits option.splits\<close>)


text \<open>Getting the entry of a call keeps its epoch and its spawn; a new one has the next epoch and no spawn.\<close>

definition spawn_epoch :: "call_table \<Rightarrow> call_id \<Rightarrow> nat option" where
  "spawn_epoch t c = (case entry_of t c of Some e \<Rightarrow> if ce_spawn e = None then None else Some (ce_epoch e) | None \<Rightarrow> None)"

lemma dispatched_same:
  "entry_of (snd (dispatched c t)) c = (case fst (dispatched c t) of Inl _ \<Rightarrow> None
     | Inr _ \<Rightarrow> (case entry_of t c of Some e \<Rightarrow> Some e | None \<Rightarrow> Some (entry_new (ct_next_epoch t))))"
  by (auto simp: dispatched_def entry_same split: sum.split option.split)

lemma present_entry: "entry_of t c = Some e \<Longrightarrow> table_entry c t = (Inr released_none, t)"
  by (simp add: table_entry_def)

lemma present_dispatched:
  "entry_of t c = Some e \<Longrightarrow> dispatched c t = (Inr released_none, t\<lparr>ct_tombstones := filter (\<lambda>r. r \<noteq> c) (ct_tombstones t)\<rparr>)"
  by (simp add: dispatched_def table_entry_def)

lemmas op_defs = bind_owner_def pin_mode_def remember_def open_settlement_def outcome_on_entry bind_pinned_owner_def push_denial_def
  take_denials_def drop_entry drain_entry floor_mode_def take_prepared_def close_settlement_def stash_once_def mark_replay_def release_entry

text \<open>
  What an operation on a call does to an open spawn of it: it stays open under its epoch, or its epoch is handed over
  to be ended, with the call's credential unless the spawn goes on under a fresh epoch.
\<close>

lemma not_empty_spawn: "ce_spawn e \<noteq> None \<Longrightarrow> \<not> entry_is_empty (snd (entry_take_denials e))" "ce_spawn e \<noteq> None \<Longrightarrow> \<not> entry_is_empty (e\<lparr>ce_next := n\<rparr>)"
  by (auto simp: entry_is_empty_def entry_take_denials_def)

definition handed_over :: "call_id \<Rightarrow> nat \<Rightarrow> released \<times> call_table \<Rightarrow> bool" where
  "handed_over c n r \<longleftrightarrow> (c, Some n) \<in> set (rl_epochs (fst r))
     \<and> (c \<in> set (rl_credentials (fst r)) \<or> (\<exists>m. n < m \<and> spawn_epoch (snd r) c = Some m))"

lemma own_spawn:
  assumes ok: "table_ok t" and e: "entry_of t c = Some e" and s: "ce_spawn e = Some s" and op: "op_call op = Some c"
  shows "spawn_epoch (snd (table_op op t)) c = Some (ce_epoch e) \<or> handed_over c (ce_epoch e) (table_op op t)"
proof -
  have lt: "ce_epoch e < ct_next_epoch t" using entry_ok_epoch[OF ok e] by simp
  show ?thesis
    using e s op lt not_empty_spawn[of e] present_entry[OF e] present_dispatched[OF e]
    by (cases op)
      (auto simp: op_defs case_prod_beta Let_def spawn_epoch_def handed_over_def table_detach_def table_exited_def
        epoch_of_def released_one_def released_epoch_def split: option.splits)
qed


lemma release_each_hands_over:
  "c \<in> set cs \<Longrightarrow> (c, epoch_of c t) \<in> set (rl_epochs (fst (release_each cs t))) \<and> c \<in> set (rl_credentials (fst (release_each cs t)))"
proof (induction cs arbitrary: t)
  case (Cons d cs)
  let ?t = "snd (snd (table_release d t))"
  have r: "fst (release_each (d # cs) t) = released_extend (released_one d (epoch_of d t)) (fst (release_each cs ?t))"
    by (simp add: case_prod_beta Let_def release_entry)
  have "c \<noteq> d \<Longrightarrow> epoch_of c ?t = epoch_of c t" by (simp add: epoch_of_def release_entry)
  then show ?case using Cons.IH[of ?t] Cons.prems unfolding r by (cases "c = d") (auto simp: released_extend_def released_one_def)
qed simp

lemma spawn_hm: "spawn_epoch t c = Some n \<longleftrightarrow> (\<exists>e s. entry_of t c = Some e \<and> ce_spawn e = Some s \<and> ce_epoch e = n)"
  by (auto simp: spawn_epoch_def split: option.splits)

lemma other_spawn:
  assumes ok: "table_ok t" and e: "entry_of t c = Some e" and s: "ce_spawn e = Some s" and op: "op_call op \<noteq> Some c"
  shows "spawn_epoch (snd (table_op op t)) c = Some (ce_epoch e) \<or> handed_over c (ce_epoch e) (table_op op t)"
proof -
  have hm: "hm_ok (ct_calls t)" using ok by (simp add: table_ok_def)
  have ne: "\<not> evictable e" using s by (simp add: evictable_def)
  consider (same) "entry_of (snd (table_op op t)) c = entry_of t c" | (gone) ses where "op = CallEndSession ses" "ce_detached e = Some ses"
    using op_other[OF hm op] e ne by auto
  then show ?thesis
  proof cases
    case same
    then show ?thesis using e s by (simp add: spawn_hm)
  next
    case gone
    have "c \<in> set (map fst (filter (\<lambda>(_, e). ce_detached e = Some ses) (ct_calls t)))"
      using map_of_SomeD[OF e] gone(2) by force
    from release_each_hands_over[OF this, of t] show ?thesis
      using gone(1) e by (simp add: handed_over_def table_end_session_def epoch_of_def)
  qed
qed

lemma spawn_kept:
  assumes ok: "table_ok t" and n: "spawn_epoch t c = Some n"
  shows "spawn_epoch (snd (table_op op t)) c = Some n \<or> handed_over c n (table_op op t)"
  using own_spawn[OF ok] other_spawn[OF ok] n unfolding spawn_hm by metis

text \<open>An epoch is never used again: an entry keeps its own or has one nobody had.\<close>

lemma next_epoch_entry: "ct_next_epoch t \<le> ct_next_epoch (snd (table_entry c t))"
  by (cases rule: table_entry_cases[of t c]) (auto simp: insert_entry_def)

lemma next_epoch_release: "ct_next_epoch (snd (snd (table_release c t))) = ct_next_epoch t"
  by (simp add: table_release_def table_remove_def drain_denials_def case_prod_beta Let_def split: option.splits)

lemma next_epoch_release_each: "ct_next_epoch (snd (release_each cs t)) = ct_next_epoch t"
  by (induction cs arbitrary: t) (simp_all add: case_prod_beta Let_def next_epoch_release)

lemma next_epoch_on_entry: "ct_next_epoch (snd (outcome (on_entry r c f))) = ct_next_epoch (snd r)"
  by (cases r) (auto simp: outcome_def on_entry_def split: sum.splits)

lemma next_epoch_dispatched: "ct_next_epoch t \<le> ct_next_epoch (snd (dispatched c t))"
  using next_epoch_entry[of "t\<lparr>ct_tombstones := filter (\<lambda>r. r \<noteq> c) (ct_tombstones t)\<rparr>" c] by (simp add: dispatched_def)

lemma next_epoch_op: "ct_next_epoch t \<le> ct_next_epoch (snd (table_op op t))"
  by (cases op) (auto simp: bind_owner_def pin_mode_def remember_def open_settlement_def next_epoch_on_entry next_epoch_dispatched next_epoch_entry
      bind_pinned_owner_def push_denial_def take_denials_def drop_if_empty_def drain_denials_def floor_mode_def take_prepared_def close_settlement_def
      stash_once_def mark_replay_def next_epoch_release next_epoch_release_each table_detach_def table_exited_def table_end_session_def
      case_prod_beta Let_def split: option.splits)

lemma op_epochs:
  assumes ok: "table_ok t" and e: "epoch_of c (snd (table_op op t)) = Some n"
  shows "epoch_of c t = Some n \<or> ct_next_epoch t \<le> n"
proof (cases "op_call op = Some c")
  case False
  have "hm_ok (ct_calls t)" using ok by (simp add: table_ok_def)
  from op_other[OF this False] show ?thesis using e by (auto simp: epoch_of_def)
next
  case True
  then show ?thesis using e entry_same[of c t] dispatched_same[of c t]
    by (cases op)
      (auto simp: op_defs case_prod_beta Let_def epoch_of_def table_detach_def table_exited_def entry_new_def
        split: option.splits sum.splits if_splits)
qed

lemma ended_stays_ended:
  assumes "table_ok t" "n < ct_next_epoch t" "epoch_of c t \<noteq> Some n"
  shows "epoch_of c (foldl table_step t ops) \<noteq> Some n"
  using assms
proof (induction ops arbitrary: t)
  case (Cons op ops)
  have "epoch_of c (table_step t op) \<noteq> Some n" using op_epochs[OF Cons.prems(1), of c op n] Cons.prems(2,3) by (auto simp: table_step_def)
  moreover have "n < ct_next_epoch (table_step t op)" using Cons.prems(2) next_epoch_op[of t op] by (simp add: table_step_def)
  ultimately show ?case using Cons.IH[of "table_step t op"] table_ok_op[OF Cons.prems(1), of op] by (simp add: table_step_def)
qed simp

text \<open>Only \<open>remember\<close> opens a spawn.\<close>

lemma isl_on_entry: "isl (fst (on_entry r c f)) = isl (fst r)"
  by (cases r) (auto simp: on_entry_def split: sum.splits)

lemma spawn_opened:
  assumes ok: "table_ok t" and n: "spawn_epoch (snd (table_op op t)) c \<noteq> None" "spawn_epoch t c = None"
  shows "\<exists>r. op = CallRemember c r \<and> \<not> isl (fst (remember c r t))"
proof (cases "op_call op = Some c")
  case False
  have "hm_ok (ct_calls t)" using ok by (simp add: table_ok_def)
  from op_other[OF this False] show ?thesis using n by (auto simp: spawn_epoch_def)
next
  case True
  then show ?thesis using n entry_same[of c t] dispatched_same[of c t]
    by (cases op)
      (auto simp: op_defs case_prod_beta Let_def spawn_epoch_def table_detach_def table_exited_def entry_new_def isl_on_entry
        split: option.splits sum.splits if_splits)
qed



section \<open>The properties\<close>

text \<open>
  C25: The table stays in order. After any sequence of operations it holds at most 512 calls and 512 floors and remembers at
  most 2048 released calls, each once and none with an entry; a call keeps at most eight distinct refusals for its
  result; every epoch is below the next one to be given and no two calls share one.
\<close>

theorem table_in_order:
  fixes ops :: "call_op list"
  defines "t \<equiv> foldl table_step table_new ops"
  shows "length (ct_calls t) \<le> 512 \<and> length (ct_floors t) \<le> 512 \<and> length (ct_tombstones t) \<le> 2048 \<and> distinct (ct_tombstones t)
    \<and> distinct (map fst (ct_calls t)) \<and> distinct (map (ce_epoch \<circ> snd) (ct_calls t))
    \<and> list_all (\<lambda>(c, e). c \<notin> set (ct_tombstones t) \<and> ce_epoch e < ct_next_epoch t \<and> distinct (ce_net_denials e)
        \<and> length (ce_net_denials e) \<le> 8) (ct_calls t)"
proof -
  have ok: "table_ok t" unfolding t_def by (rule calls.run_inv) simp
  then have hm: "hm_ok (ct_calls t)" by (simp add: table_ok_def)
  have e: "entry_of t c = Some e" if "(c, e) \<in> set (ct_calls t)" for c e using that hm by (simp add: hm_ok_def)
  have "inj_on (ce_epoch \<circ> snd) (set (ct_calls t))"
    using ok e unfolding table_ok_def inj_on_def by (clarsimp) (metis option.inject)
  then have "distinct (map (ce_epoch \<circ> snd) (ct_calls t))" using hm by (simp add: distinct_map hm_ok_def)
  moreover have "list_all (\<lambda>(c, e). c \<notin> set (ct_tombstones t) \<and> ce_epoch e < ct_next_epoch t \<and> entry_ok e) (ct_calls t)"
    using ok e unfolding table_ok_def list_all_iff by blast
  ultimately show ?thesis using ok hm
    by (auto simp: table_ok_def hm_ok_def entry_ok_def MAX_OPEN_CALLS_def MAX_TOMBSTONES_def MAX_NET_DENIAL_NOTES_def list_all_iff)
qed

text \<open>
  C26: One call's operations leave the others alone. A call that has an owner, a spawn, a pinned mode or a child left
  running keeps its entry unchanged through every operation on another call, however full the table is; only the end of
  the session its child was left running for lets go of it.
\<close>

theorem calls_isolated:
  fixes ops :: "call_op list"
  defines "t \<equiv> foldl table_step table_new ops"
  assumes "entry_of t c = Some e" "\<not> evictable e" "op_call op \<noteq> Some c" "\<And>s. op = CallEndSession s \<Longrightarrow> ce_detached e \<noteq> Some s"
  shows "entry_of (table_step t op) c = Some e"
proof -
  have "table_ok t" unfolding t_def by (rule calls.run_inv) simp
  then have "hm_ok (ct_calls t)" by (simp add: table_ok_def)
  from op_other[OF this assms(4)] show ?thesis using assms(2,3,5) by (auto simp: table_step_def)
qed

definition tool :: "string \<Rightarrow> call_id" where
  "tool s = \<lparr>ci_kind = KindTool, ci_id = str s\<rparr>"

theorem calls_isolated_witness:
  "entry_of (table_step (foldl table_step table_new [CallPin (tool ''a'') ModeEnforce]) (CallRelease (tool ''b''))) (tool ''a'')
     = Some ((entry_new 0)\<lparr>ce_next := Some (settling_default\<lparr>sg_mode := Some ModeEnforce\<rparr>)\<rparr>)"
proof (rule calls_isolated)
  show "entry_of (foldl table_step table_new [CallPin (tool ''a'') ModeEnforce]) (tool ''a'')
      = Some ((entry_new 0)\<lparr>ce_next := Some (settling_default\<lparr>sg_mode := Some ModeEnforce\<rparr>)\<rparr>)"
    by (simp add: table_step_def pin_mode_def dispatched_def table_entry_def table_new_def outcome_def on_entry_def MAX_OPEN_CALLS_def
        insert_entry_def upd_entry_def hmap_simps entry_mode_def entry_new_def get_or_default_def)
  show "\<not> evictable ((entry_new 0)\<lparr>ce_next := Some (settling_default\<lparr>sg_mode := Some ModeEnforce\<rparr>)\<rparr>)"
    by (simp add: evictable_def pin_waiting_def)
  show "op_call (CallRelease (tool ''b'')) \<noteq> Some (tool ''a'')" by (simp add: tool_def str_def)
qed simp

text \<open>
  C27: A "once" answer is good for the epoch its card was raised under, and no longer. When a call's result is in, when its
  child is left running in the background, or when that child exits, a grant for the call that was asked for before is
  refused, then and after any sequence of later operations, even if the same call is dispatched again.
\<close>

theorem late_once_refused:
  fixes ops :: "call_op list"
  defines "t \<equiv> foldl table_step table_new ops"
  assumes "epoch_of c t = Some n"
    and "op = CallRelease c \<or> (\<exists>s. op = CallDetach c s) \<or> (op = CallExited c \<and> prepared_record c t \<noteq> None)"
  shows "fst (stash_once c (Some n) g (foldl table_step (table_step t op) later)) = False"
proof -
  have ok: "table_ok t" unfolding t_def by (rule calls.run_inv) simp
  obtain e where e: "entry_of t c = Some e" "ce_epoch e = n" using assms(2) by (auto simp: epoch_of_def)
  have lt: "n < ct_next_epoch t" using entry_ok_epoch[OF ok e(1)] e(2) by simp
  have "epoch_of c (table_step t op) \<noteq> Some n"
    using assms(3) e lt by (cases "ce_spawn e") (auto simp: table_step_def epoch_of_def release_entry table_detach_def table_exited_def
        prepared_record_def case_prod_beta Let_def split: if_splits)
  moreover have "n < ct_next_epoch (table_step t op)" using lt next_epoch_op[of t op] by (simp add: table_step_def)
  moreover have "table_ok (table_step t op)" using table_ok_op[OF ok] by (simp add: table_step_def)
  ultimately have "epoch_of c (foldl table_step (table_step t op) later) \<noteq> Some n" by (intro ended_stays_ended)
  then show ?thesis by (auto simp: stash_once_def epoch_of_def split: option.splits)
qed

definition once_allow :: grant where
  "once_allow = \<lparr>gr_id = str ''g'', gr_subject = NetHost (str ''a.io'') None, gr_scope = ScopeCall, gr_expires = ExpireNever,
     gr_decision = GrantAllow, gr_granted_at = 0, gr_granted_by = [], gr_via = None\<rparr>"

theorem late_once_refused_witness:
  "fst (stash_once (tool ''a'') (Some 0) once_allow
     (foldl table_step (table_step (foldl table_step table_new [CallPin (tool ''a'') ModeEnforce]) (CallRelease (tool ''a'')))
       [CallPin (tool ''a'') ModeEnforce])) = False"
proof (rule late_once_refused)
  show "epoch_of (tool ''a'') (foldl table_step table_new [CallPin (tool ''a'') ModeEnforce]) = Some 0"
    by (simp add: table_step_def pin_mode_def dispatched_def table_entry_def table_new_def outcome_def on_entry_def MAX_OPEN_CALLS_def
        insert_entry_def upd_entry_def hmap_simps entry_mode_def entry_new_def get_or_default_def epoch_of_def)
qed simp

end
