(* ===== verification/Sandbox_Folder_Props.thy ===== *)
theory Sandbox_Folder_Props
  imports Sandbox_Folder Call_Table_Props Net_Decider_Props
begin

text \<open>
  Correctness of a served folder under every interleaving of its critical sections: a credential that authenticates
  belongs to a running command or one about to start; a connection waits for an answer only while its command runs; the
  rows a call is decided under are the folder's, its own session's and its own; and a grant is recorded only where no
  deny row covers it.
\<close>


section \<open>Critical sections\<close>

text \<open>
  A park holds the decider's lock from \<open>FoParkRead\<close>, where it reads the call's epoch, to \<open>FoPark\<close>, where it reads whether the
  call runs and books its card; the table may change in between. The guard of a spawn is settled with its record.
\<close>

datatype folder_event =
    FoTable call_op
  | FoEnded "call_id \<times> nat option"
  | FoMint call_id ustring
  | FoKeep call_id call_record "ustring option"
  | FoDropMinted call_id ustring
  | FoParkRead "call_id option"
  | FoPark net_view ustring ustring nat verdict
  | FoDecider net_event
  | FoStart ustring
  | FoStop
  | FoClose
  | FoMode sandbox_mode
  | FoGrants "engaged option"

abbreviation credential_of :: "call_id \<Rightarrow> ustring \<Rightarrow> proxy_credential" where
  "credential_of c token \<equiv> \<lparr>cr_tag = tag_for_call c, cr_token = token\<rparr>"

definition unlocked :: "folder \<Rightarrow> bool" where
  "unlocked fo \<longleftrightarrow> (case fo_side fo of Some s \<Rightarrow> ns_parking s = None | None \<Rightarrow> True)"

definition park_read :: "call_id option \<Rightarrow> folder \<Rightarrow> folder" where
  "park_read c fo = on_side (\<lambda>s. s\<lparr>ns_parking := Some (c, Option.bind c (\<lambda>c. epoch_of c (fo_calls fo)))\<rparr>) fo"

definition park_book :: "net_view \<Rightarrow> ustring \<Rightarrow> ustring \<Rightarrow> nat \<Rightarrow> verdict \<Rightarrow> folder \<Rightarrow> folder" where
  "park_book v fresh host port domains fo = on_side (\<lambda>s. case ns_parking s of
       None \<Rightarrow> s
     | Some (c, epoch) \<Rightarrow> s\<lparr>ns_parking := None, ns_asked := ns_asked s + 1,
         ns_decider := dec_step (ns_asked s) (ns_decider s)
           (EvPark (v\<lparr>nv_call_epoch := \<lambda>_. epoch, nv_call_runs := view_call_runs fo\<rparr>) fresh host port (map_option tag_for_call c) domains)\<rparr>) fo"

fun folder_step :: "folder \<Rightarrow> folder_event \<Rightarrow> folder" where
  "folder_step fo (FoTable op) = let_go (table_op op (fo_calls fo)) fo"
| "folder_step fo (FoEnded ended) = (if unlocked fo then release_ended_hold ended fo else fo)"
| "folder_step fo (FoMint c token) = mint_guarded (tag_for_call c) token fo"
| "folder_step fo (FoKeep c r token) = snd (keep_record c r (map_option (credential_of c) token) fo)"
| "folder_step fo (FoDropMinted c token) = drop_minted (Some (credential_of c token)) fo"
| "folder_step fo (FoParkRead c) = (if unlocked fo then park_read c fo else fo)"
| "folder_step fo (FoPark v fresh host port domains) = park_book v fresh host port domains fo"
| "folder_step fo (FoDecider ev) = (if unlocked fo \<and> asks ev = [] then on_side (\<lambda>s. s\<lparr>ns_decider := dec_step (ns_asked s) (ns_decider s) ev\<rparr>) fo else fo)"
| "folder_step fo (FoStart token) = (if fo_closed fo then fo else fo\<lparr>fo_side := Some (side_new token)\<rparr>)"
| "folder_step fo FoStop = stop_network_locked fo"
| "folder_step fo FoClose = stop_network fo"
| "folder_step fo (FoMode mode) = fo\<lparr>fo_mode := mode\<rparr>"
| "folder_step fo (FoGrants en) = fo\<lparr>fo_engaged := en\<rparr>"


section \<open>The epochs connections wait under\<close>

definition hold_epochs :: "decider \<Rightarrow> (command_tag \<times> nat) set" where
  "hold_epochs d = {(tag, n). \<exists>i h. (i, h) \<in> set (dc_holds d) \<and> is_hold (ph_parked h) \<and> ph_call h = Some tag \<and> ph_epoch h = Some n}"

lemma hold_epochs_new [simp]: "hold_epochs decider_new = {}"
  by (simp add: hold_epochs_def decider_new_def)

lemma hold_epochs_send [simp]: "hold_epochs (send_answer a ns d) = hold_epochs d"
  by (simp add: hold_epochs_def)

lemma hold_epochs_sweep: "hold_epochs (sweep_expired v d) \<subseteq> hold_epochs d"
proof -
  have "ph_epoch (live_waiters v h) = ph_epoch h" for h by (simp add: live_waiters_def split: parked.splits)
  then show ?thesis by (force simp: hold_epochs_def swept_def hm_retain_def)
qed

lemma hold_epochs_insert: "hold_epochs (book_card v i call host port p d)
    \<subseteq> hold_epochs d \<union> {(tag, n). is_hold p \<and> call = Some tag \<and> nv_call_epoch v call = Some n}"
proof -
  have "set (hm_insert i h hs) \<subseteq> insert (i, h) (set hs)" for h and hs :: "(ustring \<times> pending_hold) list"
    unfolding hm_insert_def by (induction hs) auto
  then show ?thesis unfolding hold_epochs_def book_card_simps by fastforce
qed

lemma hold_epochs_ended: "hold_epochs (release_call_holds tag n d) \<subseteq> hold_epochs d - {(t, m). t = tag \<and> m \<le> n}"
  unfolding hold_epochs_def release_call_holds_def by (auto simp: hm_retain_def split: if_splits option.splits)

text \<open>A park books a card under the epoch it read, and only for a call it saw running.\<close>

lemma hold_epochs_park:
  assumes "books_at asked d"
  shows "hold_epochs (snd (park_lists v n fresh host port call domains d))
    \<subseteq> hold_epochs d \<union> {(tag, m). call = Some tag \<and> nv_call_epoch v call = Some m \<and> nv_call_runs v tag}"
    (is "?new \<subseteq> _")
proof (cases "\<exists>tag. call = Some tag \<and> \<not> nv_call_runs v tag")
  case True
  then have "?new \<subseteq> hold_epochs (sweep_expired v d) \<union> hold_epochs d"
    by (auto simp: park_lists_def Let_def split: would_be.splits deny_source.splits)
  then show ?thesis using hold_epochs_sweep[of v d] by blast
next
  case runs: False
  show ?thesis using assms
  proof (cases rule: park_cases[where v = v and n = n and fresh = fresh and host = host and port = port and call = call and domains = domains, consumes 1])
    case (answered a d1)
    then show ?thesis using hold_epochs_sweep[of v d] by auto
  next
    case (joined i h)
    have ok: "hm_ok (swept v (dc_holds d))" using books_at_ok[OF books_at_sweep[OF assms]] by simp
    have "is_hold (ph_parked h')" if "(i, h') \<in> set (swept v (dc_holds d))" for h' using that joined(2,3) ok by (simp add: hm_ok_def)
    then have "hold_epochs (add_waiter i n (sweep_expired v d)) \<subseteq> hold_epochs (sweep_expired v d)"
      using joined(2) by (fastforce simp: hold_epochs_def add_waiter_holds[of _ i h] is_hold_def split: if_splits)
    then show ?thesis using joined(1) hold_epochs_sweep[of v d] by auto
  next
    case booked
    then show ?thesis using runs hold_epochs_sweep[of v d] hold_epochs_insert[of v fresh call host port "ParkedHold [n]" "sweep_expired v d"] by auto
  qed
qed

lemma hold_epochs_other:
  assumes "asks ev = []"
  shows "hold_epochs (dec_step n d ev) \<subseteq> hold_epochs d"
proof -
  have sub: "hold_epochs d' \<subseteq> hold_epochs d" if "set (dc_holds d') \<subseteq> set (dc_holds d)" for d' using that by (auto simp: hold_epochs_def)
  show ?thesis
  proof (cases ev)
    case (EvInform v fresh host port call)
    have "hold_epochs (book_card v fresh call host port ParkedInformational (sweep_expired v d)) \<subseteq> hold_epochs d"
      using hold_epochs_insert[of v fresh call host port ParkedInformational "sweep_expired v d"] hold_epochs_sweep[of v d] by (auto simp: is_hold_def)
    then show ?thesis using EvInform hold_epochs_sweep[of v d] by (simp add: inform_book_def Let_def)
  next
    case (EvSettle v i answer)
    then show ?thesis by (intro sub) (auto simp: settle_taken_def Let_def release_hold_def hm_remove_def split: option.splits)
  qed (use assms in \<open>auto intro!: sub simp: hm_remove_def hm_retain_def post_card_def drain_def post_inform_def release_holds_now_covered_def release_call_holds_def
      release_all_def mark_closed_def split: option.splits\<close>)
qed



section \<open>The invariant\<close>

definition creds_ok :: "call_table \<Rightarrow> network_side \<Rightarrow> bool" where
  "creds_ok t s \<longleftrightarrow> (\<forall>cr \<in> set (rg_calls (ns_creds s)). \<exists>c. cr_tag cr = tag_for_call c
     \<and> (cr \<in> set (ns_guards s) \<or> spawn_epoch t c \<noteq> None))"

definition ending :: "call_table \<Rightarrow> (call_id \<times> nat option) list \<Rightarrow> call_id \<Rightarrow> nat \<Rightarrow> bool" where
  "ending t ended c n \<longleftrightarrow> (\<exists>m \<ge> n. spawn_epoch t c = Some m \<or> (c, Some m) \<in> set ended)"

definition holds_ok :: "call_table \<Rightarrow> (call_id \<times> nat option) list \<Rightarrow> network_side \<Rightarrow> bool" where
  "holds_ok t ended s \<longleftrightarrow> (\<forall>(tag, n) \<in> hold_epochs (ns_decider s). \<exists>c. tag = tag_for_call c \<and> ending t ended c n)"

definition parking_ok :: "call_table \<Rightarrow> network_side \<Rightarrow> bool" where
  "parking_ok t s \<longleftrightarrow> (case ns_parking s of
       Some (Some c, Some n) \<Rightarrow> n < ct_next_epoch t \<and> (\<forall>m. epoch_of c t = Some m \<longrightarrow> n \<le> m)
     | _ \<Rightarrow> True)"

definition side_ok :: "call_table \<Rightarrow> (call_id \<times> nat option) list \<Rightarrow> network_side \<Rightarrow> bool" where
  "side_ok t ended s \<longleftrightarrow> creds_ok t s \<and> holds_ok t ended s \<and> parking_ok t s
     \<and> (\<exists>asked. length asked = ns_asked s \<and> books_at asked (ns_decider s))"

definition folder_ok :: "folder \<Rightarrow> bool" where
  "folder_ok fo \<longleftrightarrow> table_ok (fo_calls fo) \<and> (\<forall>s. fo_side fo = Some s \<longrightarrow> side_ok (fo_calls fo) (fo_ended fo) s)"

lemma on_side_simps [simp]:
  "fo_calls (on_side f fo) = fo_calls fo" "fo_ended (on_side f fo) = fo_ended fo" "fo_side (on_side f fo) = map_option f (fo_side fo)"
  "fo_engaged (on_side f fo) = fo_engaged fo" "fo_mode (on_side f fo) = fo_mode fo" "fo_closed (on_side f fo) = fo_closed fo"
  by (simp_all add: on_side_def)

lemma folder_ok_on_side:
  assumes "folder_ok fo" "\<And>s. fo_side fo = Some s \<Longrightarrow> side_ok (fo_calls fo) (fo_ended fo) s \<Longrightarrow> side_ok (fo_calls fo) (fo_ended fo) (f s)"
  shows "folder_ok (on_side f fo)"
  using assms by (auto simp: folder_ok_def)

text \<open>What the table lets go of is revoked and queued.\<close>

lemma revoke_all:
  "foldl (\<lambda>f c. revoke_call_credential c f) fo cs
     = on_side (\<lambda>s. s\<lparr>ns_creds := (ns_creds s)\<lparr>rg_calls := filter (\<lambda>cr. cr_tag cr \<notin> tag_for_call ` set cs) (rg_calls (ns_creds s))\<rparr>\<rparr>) fo"
proof (induction cs arbitrary: fo)
  case Nil
  show ?case by (cases "fo_side fo") (simp_all add: on_side_def)
next
  case (Cons c cs)
  show ?case using Cons.IH[of "revoke_call_credential c fo"]
    by (cases "fo_side fo") (auto simp: on_side_def revoke_call_credential_def revoke_def Let_def intro!: filter_cong)
qed

lemma let_go_simps:
  "fo_calls (let_go r fo) = snd r" "fo_ended (let_go r fo) = fo_ended fo @ rl_epochs (fst r)"
  "fo_side (let_go r fo) = map_option (\<lambda>s. s\<lparr>ns_creds := (ns_creds s)\<lparr>rg_calls :=
     filter (\<lambda>cr. cr_tag cr \<notin> tag_for_call ` set (rl_credentials (fst r))) (rg_calls (ns_creds s))\<rparr>\<rparr>) (fo_side fo)"
  "fo_engaged (let_go r fo) = fo_engaged fo" "fo_closed (let_go r fo) = fo_closed fo"
  by (simp_all add: let_go_def Let_def revoke_released_def revoke_all)

lemma ending_op:
  assumes "table_ok t" "ending t ended c n"
  shows "ending (snd (table_op op t)) (ended @ rl_epochs (fst (table_op op t))) c n"
proof -
  obtain m where m: "n \<le> m" "spawn_epoch t c = Some m \<or> (c, Some m) \<in> set ended" using assms(2) by (auto simp: ending_def)
  have "spawn_epoch (snd (table_op op t)) c = Some m \<or> (c, Some m) \<in> set (rl_epochs (fst (table_op op t)))" if "spawn_epoch t c = Some m"
    using spawn_kept[OF assms(1) that, of op] by (auto simp: handed_over_def)
  then show ?thesis using m by (auto simp: ending_def)
qed

lemma parking_op: "table_ok t \<Longrightarrow> parking_ok t s \<Longrightarrow> parking_ok (snd (table_op op t)) s"
  using next_epoch_op[of t op] op_epochs[of t _ op] unfolding parking_ok_def
  by (auto split: option.splits prod.splits dest!: less_imp_le intro: order_trans) (meson le_trans less_imp_le)+


lemma creds_op:
  assumes "table_ok t" "creds_ok t s"
  shows "creds_ok (snd (table_op op t)) (s\<lparr>ns_creds := (ns_creds s)\<lparr>rg_calls :=
    filter (\<lambda>cr. cr_tag cr \<notin> tag_for_call ` set (rl_credentials (fst (table_op op t)))) (rg_calls (ns_creds s))\<rparr>\<rparr>)"
proof -
  have "spawn_epoch (snd (table_op op t)) c \<noteq> None"
    if "spawn_epoch t c = Some n" "c \<notin> set (rl_credentials (fst (table_op op t)))" for c n
    using spawn_kept[OF assms(1) that(1), of op] that(2) by (auto simp: handed_over_def)
  then show ?thesis using assms(2) unfolding creds_ok_def by fastforce
qed

lemma folder_ok_table: "folder_ok fo \<Longrightarrow> folder_ok (let_go (table_op op (fo_calls fo)) fo)"
proof -
  let ?t = "fo_calls fo" and ?r = "table_op op (fo_calls fo)"
  assume ok: "folder_ok fo"
  then have t: "table_ok ?t" by (simp add: folder_ok_def)
  have "side_ok (snd ?r) (fo_ended fo @ rl_epochs (fst ?r)) (s\<lparr>ns_creds := (ns_creds s)\<lparr>rg_calls :=
      filter (\<lambda>cr. cr_tag cr \<notin> tag_for_call ` set (rl_credentials (fst ?r))) (rg_calls (ns_creds s))\<rparr>\<rparr>)" if "fo_side fo = Some s" for s
  proof -
    have s: "side_ok ?t (fo_ended fo) s" using ok that by (simp add: folder_ok_def)
    have "holds_ok (snd ?r) (fo_ended fo @ rl_epochs (fst ?r)) s" using s ending_op[OF t, of "fo_ended fo" _ _ op] unfolding side_ok_def holds_ok_def by blast
    then show ?thesis using s creds_op[OF t, of s op] parking_op[OF t, of s op] by (simp add: side_ok_def holds_ok_def parking_ok_def)
  qed
  then show ?thesis using table_ok_op[OF t, of op] by (auto simp: folder_ok_def let_go_simps)
qed

lemma let_go_none: "let_go (released_none, t) fo = fo\<lparr>fo_calls := t\<rparr>"
  by (simp add: let_go_def Let_def revoke_released_def released_none_def)

lemma keep_record_is:
  "snd (keep_record c r minted fo) = (let fo1 = let_go (table_op (CallRemember c r) (fo_calls fo)) fo in
     if isl (fst (remember c r (fo_calls fo))) then drop_minted minted fo1 else keep_minted minted fo1)"
  by (cases "remember c r (fo_calls fo)") (auto simp: keep_record_def outcome_def let_go_none split: sum.splits)

lemma remember_opens: "\<not> isl (fst (remember c r t)) \<Longrightarrow> spawn_epoch (snd (table_op (CallRemember c r) t)) c \<noteq> None"
  using entry_same[of c t] by (auto simp: remember_def isl_on_entry outcome_on_entry spawn_epoch_def split: sum.splits option.splits)

lemma folder_ok_drop: "folder_ok fo \<Longrightarrow> folder_ok (drop_minted minted fo)"
proof (cases minted)
  case (Some cr)
  assume "folder_ok fo"
  then show ?thesis unfolding drop_minted_def Some option.case
    by (rule folder_ok_on_side) (auto simp: side_ok_def creds_ok_def holds_ok_def parking_ok_def revoke_exact_def Let_def)
qed (simp add: drop_minted_def)

lemma folder_ok_keep:
  assumes "folder_ok fo" "\<And>cr. minted = Some cr \<Longrightarrow> \<exists>c. cr_tag cr = tag_for_call c \<and> spawn_epoch (fo_calls fo) c \<noteq> None"
  shows "folder_ok (keep_minted minted fo)"
proof (cases minted)
  case (Some cr)
  have "creds_ok (fo_calls fo) (s\<lparr>ns_guards := remove1 cr (ns_guards s)\<rparr>)" if "creds_ok (fo_calls fo) s" for s
    using that assms(2)[OF Some] unfolding creds_ok_def by (metis in_set_remove1 network_side.select_convs(1,2) network_side.surjective network_side.update_convs(2))
  then show ?thesis unfolding keep_minted_def Some option.case
    by (intro folder_ok_on_side[OF assms(1)]) (auto simp: side_ok_def holds_ok_def parking_ok_def)
qed (simp add: keep_minted_def assms(1))

lemma folder_ok_ended:
  assumes ok: "folder_ok fo"
  shows "folder_ok (release_ended_hold ended fo)"
proof -
  obtain c epoch where e: "ended = (c, epoch)" by (cases ended)
  let ?n = "case epoch of Some n \<Rightarrow> n | None \<Rightarrow> U64_MAX"
  have "side_ok (fo_calls fo) (remove1 ended (fo_ended fo)) (s\<lparr>ns_decider := release_call_holds (tag_for_call c) ?n (ns_decider s)\<rparr>)"
    if "fo_side fo = Some s" for s
  proof -
    let ?d = "release_call_holds (tag_for_call c) ?n (ns_decider s)"
    have s: "side_ok (fo_calls fo) (fo_ended fo) s" using ok that by (simp add: folder_ok_def)
    obtain asked where b: "length asked = ns_asked s" "books_at asked (ns_decider s)" using s by (auto simp: side_ok_def)
    have "books_at asked ?d" using books_at_step[OF b(2), of "EvCallEnded (tag_for_call c) ?n"] by simp
    moreover have "ending (fo_calls fo) (remove1 ended (fo_ended fo)) c' m"
      if h: "(tag_for_call c', m) \<in> hold_epochs ?d" and g: "ending (fo_calls fo) (fo_ended fo) c' m" for c' m
    proof -
      have "\<not> (c' = c \<and> m \<le> ?n)" using hold_epochs_ended[of "tag_for_call c" ?n "ns_decider s"] h by auto
      moreover obtain k where k: "m \<le> k" "spawn_epoch (fo_calls fo) c' = Some k \<or> (c', Some k) \<in> set (fo_ended fo)"
        using g by (auto simp: ending_def)
      ultimately have "(c', Some k) \<noteq> ended" unfolding e by auto
      then show ?thesis using k by (auto simp: ending_def in_set_remove1)
    qed
    then have "holds_ok (fo_calls fo) (remove1 ended (fo_ended fo)) (s\<lparr>ns_decider := ?d\<rparr>)"
      using s hold_epochs_ended[of "tag_for_call c" ?n "ns_decider s"] unfolding side_ok_def holds_ok_def by fastforce
    ultimately show ?thesis using s b(1) unfolding side_ok_def creds_ok_def parking_ok_def by auto
  qed
  then show ?thesis using ok unfolding e by (auto simp: folder_ok_def release_ended_hold_def Let_def)
qed


lemma folder_ok_park_read: "folder_ok fo \<Longrightarrow> folder_ok (park_read c fo)"
proof -
  assume ok: "folder_ok fo"
  have "parking_ok (fo_calls fo) (s\<lparr>ns_parking := Some (c, Option.bind c (\<lambda>c. epoch_of c (fo_calls fo)))\<rparr>)" for s
    using ok entry_ok_epoch[of "fo_calls fo"] by (auto simp: parking_ok_def folder_ok_def epoch_of_def split: option.splits)
  then show ?thesis unfolding park_read_def using ok
    by (intro folder_ok_on_side) (auto simp: side_ok_def creds_ok_def holds_ok_def)
qed

lemma view_runs_spawn: "view_call_runs fo (tag_for_call c) \<longleftrightarrow> spawn_epoch (fo_calls fo) c \<noteq> None"
  by (auto simp: view_call_runs_def tag_reads_back prepared_record_def spawn_epoch_def split: option.splits)

lemma spawn_is_epoch: "spawn_epoch t c = Some n \<Longrightarrow> epoch_of c t = Some n"
  by (auto simp: spawn_hm epoch_of_def)

lemma folder_ok_park_book: "folder_ok fo \<Longrightarrow> folder_ok (park_book v fresh host port domains fo)"
  unfolding park_book_def
proof (erule folder_ok_on_side)
  fix s
  assume s: "side_ok (fo_calls fo) (fo_ended fo) s"
  let ?v = "\<lambda>epoch. v\<lparr>nv_call_epoch := \<lambda>_. epoch, nv_call_runs := view_call_runs fo\<rparr>"
  let ?p = "\<lambda>c epoch. EvPark (?v epoch) fresh host port (map_option tag_for_call c) domains"
  let ?s = "\<lambda>c epoch. s\<lparr>ns_parking := None, ns_asked := ns_asked s + 1, ns_decider := dec_step (ns_asked s) (ns_decider s) (?p c epoch)\<rparr>"
  have "side_ok (fo_calls fo) (fo_ended fo) (?s c epoch)" if p: "ns_parking s = Some (c, epoch)" for c epoch
  proof -
    obtain asked where b: "length asked = ns_asked s" "books_at asked (ns_decider s)" using s by (auto simp: side_ok_def)
    have b': "books_at (asked @ asks (?p c epoch)) (dec_step (ns_asked s) (ns_decider s) (?p c epoch))"
      using books_at_step[OF b(2), of "?p c epoch"] b(1) by simp
    have "ending (fo_calls fo) (fo_ended fo) d n" if "c = Some d" "epoch = Some n" and r: "view_call_runs fo (tag_for_call d)" for d n
    proof -
      obtain m where m: "spawn_epoch (fo_calls fo) d = Some m" using r by (auto simp: view_runs_spawn)
      then have "n \<le> m" using s p that spawn_is_epoch[OF m] by (auto simp: side_ok_def parking_ok_def)
      then show ?thesis using m by (auto simp: ending_def)
    qed
    then have "holds_ok (fo_calls fo) (fo_ended fo) (?s c epoch)"
      using s hold_epochs_park[OF b(2), of "?v epoch" "ns_asked s" fresh host port "map_option tag_for_call c" domains]
      unfolding side_ok_def holds_ok_def by fastforce
    moreover have "length (asked @ asks (?p c epoch)) = ns_asked s + 1" using b(1) by simp
    ultimately show ?thesis using s b' unfolding side_ok_def creds_ok_def parking_ok_def by (auto intro!: exI[of _ "asked @ asks (?p c epoch)"])
  qed
  then show "side_ok (fo_calls fo) (fo_ended fo) (case ns_parking s of None \<Rightarrow> s | Some (c, epoch) \<Rightarrow> ?s c epoch)"
    using s by (simp split: option.splits prod.splits)
qed

lemma folder_ok_decider:
  assumes "folder_ok fo" "asks ev = []"
  shows "folder_ok (on_side (\<lambda>s. s\<lparr>ns_decider := dec_step (ns_asked s) (ns_decider s) ev\<rparr>) fo)"
proof (rule folder_ok_on_side[OF assms(1)])
  fix s
  assume s: "side_ok (fo_calls fo) (fo_ended fo) s"
  obtain asked where b: "length asked = ns_asked s" "books_at asked (ns_decider s)" using s by (auto simp: side_ok_def)
  have "books_at asked (dec_step (ns_asked s) (ns_decider s) ev)" using books_at_step[OF b(2), of ev] b(1) assms(2) by simp
  moreover have "holds_ok (fo_calls fo) (fo_ended fo) (s\<lparr>ns_decider := dec_step (ns_asked s) (ns_decider s) ev\<rparr>)"
    using s hold_epochs_other[OF assms(2), of "ns_asked s" "ns_decider s"] unfolding side_ok_def holds_ok_def by auto
  ultimately show "side_ok (fo_calls fo) (fo_ended fo) (s\<lparr>ns_decider := dec_step (ns_asked s) (ns_decider s) ev\<rparr>)"
    using s b(1) unfolding side_ok_def creds_ok_def parking_ok_def by auto
qed

lemma folder_ok_mint: "folder_ok fo \<Longrightarrow> folder_ok (mint_guarded (tag_for_call c) token fo)"
  unfolding mint_guarded_def by (erule folder_ok_on_side) (auto simp: mint_def Let_def side_ok_def creds_ok_def holds_ok_def parking_ok_def)

lemma side_ok_new: "side_ok t ended (side_new token)"
proof -
  have "books_at [] decider_new" using run_books_ok[of "[]"] by (simp add: books_ok_def machine_new_def)
  then show ?thesis by (simp add: side_ok_def side_new_def creds_ok_def credentials_new_def holds_ok_def parking_ok_def)
qed

lemma folder_ok_step: "folder_ok fo \<Longrightarrow> folder_ok (folder_step fo e)"
proof (cases e)
  case (FoKeep c r token)
  assume ok: "folder_ok fo"
  let ?fo = "let_go (table_op (CallRemember c r) (fo_calls fo)) fo"
  have "folder_ok ?fo" by (rule folder_ok_table[OF ok])
  moreover have "spawn_epoch (fo_calls ?fo) c \<noteq> None" if "\<not> isl (fst (remember c r (fo_calls fo)))"
    unfolding let_go_simps by (rule remember_opens[OF that])
  ultimately show ?thesis unfolding FoKeep folder_step.simps keep_record_is Let_def
    by (auto intro!: folder_ok_drop folder_ok_keep simp del: table_op.simps)
next
  case (FoStart token)
  assume "folder_ok fo"
  then show ?thesis using FoStart side_ok_new by (simp add: folder_ok_def)
next
  case FoStop
  assume "folder_ok fo"
  then show ?thesis using FoStop by (simp add: folder_ok_def stop_network_locked_def)
next
  case FoClose
  assume "folder_ok fo"
  then show ?thesis using FoClose by (simp add: folder_ok_def stop_network_def stop_network_locked_def)
next
  case (FoMode mode)
  assume "folder_ok fo"
  then show ?thesis using FoMode by (simp add: folder_ok_def)
next
  case (FoGrants en)
  assume "folder_ok fo"
  then show ?thesis using FoGrants by (simp add: folder_ok_def)
qed (simp_all del: table_op.simps add: folder_ok_table folder_ok_ended folder_ok_mint folder_ok_drop folder_ok_park_read folder_ok_park_book folder_ok_decider)

interpretation folders: state_machine folder_step folder_ok
  by unfold_locales (rule folder_ok_step)

lemma folder_ok_new [simp]: "folder_ok (folder_new mode)"
  by (simp add: folder_ok_def folder_new_def)

abbreviation folder_run :: "sandbox_mode \<Rightarrow> folder_event list \<Rightarrow> folder" where
  "folder_run mode es \<equiv> foldl folder_step (folder_new mode) es"

lemma run_side_ok: "fo_side (folder_run mode es) = Some s \<Longrightarrow> side_ok (fo_calls (folder_run mode es)) (fo_ended (folder_run mode es)) s"
  using folders.run_inv[OF folder_ok_new, of mode es] by (simp add: folder_ok_def)



section \<open>Credentials and waiting connections follow the command\<close>

definition ran :: call_record where
  "ran = \<lparr>cr_mode = ModeEnforce, cr_sandboxed = True, cr_replayed_under = None, cr_inherited_once = []\<rparr>"

definition started :: "folder_event list" where
  "started = [FoStart (str ''s''), FoMint (tool ''a'') (str ''t''), FoKeep (tool ''a'') ran (Some (str ''t''))]"

text \<open>
  C8: A credential never outlives its command. Whatever interleaving of spawns, results, exits, evictions and session
  ends has happened, a token that the folder's proxy still authenticates as a call's is that of a call whose command is
  running, or the one credential minted for a spawn that is being prepared and revoked if that spawn does not start.
\<close>

theorem credential_follows_command:
  assumes "fo_side (folder_run mode es) = Some s" "authenticate_token (ns_creds s) token = Inr (Some tag)"
  shows "\<exists>c. tag = tag_for_call c \<and> (view_call_runs (folder_run mode es) tag \<or> credential_of c token \<in> set (ns_guards s))"
proof -
  obtain cr where cr: "cr \<in> set (rg_calls (ns_creds s))" "cr_tag cr = tag" "cr_token cr = token"
    using assms(2) by (auto simp: authenticate_token_def dest!: find_SomeD split: if_splits option.splits)
  have "creds_ok (fo_calls (folder_run mode es)) s" using run_side_ok[OF assms(1)] by (simp add: side_ok_def)
  then obtain c where c: "tag = tag_for_call c" "cr \<in> set (ns_guards s) \<or> spawn_epoch (fo_calls (folder_run mode es)) c \<noteq> None"
    using cr unfolding creds_ok_def by blast
  have "cr = credential_of c token" using cr c(1) by simp
  then show ?thesis using c by (auto simp: view_runs_spawn)
qed

lemmas run_simps = started_def folder_new_def side_new_def on_side_def mint_guarded_def mint_def credentials_new_def keep_record_def
  remember_def table_entry_def table_new_def on_entry_def insert_entry_def upd_entry_def hmap_simps MAX_OPEN_CALLS_def entry_new_def
  let_go_def revoke_released_def released_none_def keep_minted_def hm_insert_def hm_modify_def Let_def

theorem credential_follows_command_witness:
  "\<exists>c. tag_for_call (tool ''a'') = tag_for_call c \<and> (view_call_runs (folder_run ModeEnforce started) (tag_for_call (tool ''a''))
     \<or> credential_of c (str ''t'') \<in> set (ns_guards (the (fo_side (folder_run ModeEnforce started)))))"
proof (rule credential_follows_command)
  show "fo_side (folder_run ModeEnforce started) = Some (the (fo_side (folder_run ModeEnforce started)))"
    by (simp add: run_simps)
  show "authenticate_token (ns_creds (the (fo_side (folder_run ModeEnforce started)))) (str ''t'') = Inr (Some (tag_for_call (tool ''a'')))"
    by (simp add: run_simps authenticate_token_def str_def)
qed

text \<open>
  C9: No connection waits for a command that is over. A connection held for a call, under an epoch the park read, belongs
  to a call whose command is running, or its refusal is already on the way: the call's end has queued an epoch at least
  as late, which refuses it as soon as the decider's lock is free. With nothing queued, the command runs. This holds
  although a park reads the epoch and whether the call runs at different moments, with the table free to change between.
\<close>

theorem waits_only_while_running:
  assumes "fo_side (folder_run mode es) = Some s" "(i, h) \<in> set (dc_holds (ns_decider s))" "is_hold (ph_parked h)"
    "ph_call h = Some tag" "ph_epoch h = Some n"
  shows "\<exists>c. tag = tag_for_call c
    \<and> (view_call_runs (folder_run mode es) tag \<or> (\<exists>m. n \<le> m \<and> (c, Some m) \<in> set (fo_ended (folder_run mode es))))"
proof -
  have "holds_ok (fo_calls (folder_run mode es)) (fo_ended (folder_run mode es)) s" using run_side_ok[OF assms(1)] by (simp add: side_ok_def)
  moreover have "(tag, n) \<in> hold_epochs (ns_decider s)" using assms(2-5) by (auto simp: hold_epochs_def)
  ultimately obtain c where "tag = tag_for_call c" "ending (fo_calls (folder_run mode es)) (fo_ended (folder_run mode es)) c n"
    unfolding holds_ok_def by blast
  then show ?thesis by (auto simp: ending_def view_runs_spawn)
qed


definition parked_run :: "folder_event list" where
  "parked_run = started @ [FoParkRead (Some (tool ''a'')), FoPark quiet_view (str ''k'') (str ''a.io'') 80 no_verdict]"

definition parked_card :: pending_hold where
  "parked_card = \<lparr>ph_call = Some (tag_for_call (tool ''a'')), ph_epoch = Some 0, ph_host = str ''a.io'', ph_port = 80,
     ph_posted_unix = nv_now quiet_view, ph_parked = ParkedHold [0]\<rparr>"

lemma parked_run_holds: "map_option (\<lambda>s. dc_holds (ns_decider s)) (fo_side (folder_run ModeEnforce parked_run)) = Some [(str ''k'', parked_card)]"
  unfolding parked_run_def started_def by code_simp

theorem waits_only_while_running_witness:
  "\<exists>c. tag_for_call (tool ''a'') = tag_for_call c
    \<and> (view_call_runs (folder_run ModeEnforce parked_run) (tag_for_call (tool ''a''))
       \<or> (\<exists>m. 0 \<le> m \<and> (c, Some m) \<in> set (fo_ended (folder_run ModeEnforce parked_run))))"
proof (rule waits_only_while_running)
  show "fo_side (folder_run ModeEnforce parked_run) = Some (the (fo_side (folder_run ModeEnforce parked_run)))"
    using parked_run_holds by (auto simp del: folder_step.simps)
  then show "(str ''k'', parked_card) \<in> set (dc_holds (ns_decider (the (fo_side (folder_run ModeEnforce parked_run)))))"
    using parked_run_holds by (auto simp del: folder_step.simps)
  show "is_hold (ph_parked parked_card)" "ph_call parked_card = Some (tag_for_call (tool ''a''))" "ph_epoch parked_card = Some 0"
    by (simp_all add: parked_card_def is_hold_def)
qed

end
