(* ===== verification/Sandbox_Handlers_Props.thy ===== *)
theory Sandbox_Handlers_Props
  imports Sandbox_Folder_Props Net_Enforced
begin

text \<open>
  The handlers of a served folder: each is a sequence of the critical sections of which every interleaving keeps the
  invariant; a spawn never runs under less than its call's pin or floor; and what recording a grant changes.
\<close>


section \<open>Handlers are sequences of critical sections\<close>

datatype handler =
    HBind call_id call_owner
  | HBindPinned call_id call_owner
  | HPin call_id sandbox_mode
  | HPrepare prepare_env call_id
  | HFinish "call_record \<Rightarrow> bool" "call_record \<Rightarrow> bool" call_id
  | HRelease call_id
  | HDetach call_id ustring
  | HExited call_id
  | HEndSession int ustring
  | HRecordGrant grant_env grant_disk call_id "nat option" ustring grant
  | HRevokeGrant grant_env grant_disk ustring
  | HRefresh grant_env grant_disk
  | HSync sandbox_mode bool "ustring option"
  | HStop
  | HEngage grant_env grant_disk
  | HPark "call_id option" net_view ustring ustring nat verdict
  | HDecider net_event

fun run_handler :: "handler \<Rightarrow> folder \<Rightarrow> folder" where
  "run_handler (HBind c owner) fo = snd (bind_call c owner fo)"
| "run_handler (HBindPinned c owner) fo = snd (bind_pinned_call c owner fo)"
| "run_handler (HPin c mode) fo = snd (folder_pin_mode c mode fo)"
| "run_handler (HPrepare e c) fo = snd (prepare_inner e c fo)"
| "run_handler (HFinish decode refused c) fo = snd (finish_call decode refused c fo)"
| "run_handler (HRelease c) fo = snd (release_call c fo)"
| "run_handler (HDetach c session) fo = snd (detach_call c session fo)"
| "run_handler (HExited c) fo = snd (call_exited c fo)"
| "run_handler (HEndSession now session) fo = snd (end_session now session fo)"
| "run_handler (HRecordGrant e d c epoch session g) fo = fst (snd (record_grant e c epoch session g fo d))"
| "run_handler (HRevokeGrant e d gid) fo = fst (snd (revoke_grant e gid fo d))"
| "run_handler (HRefresh e d) fo = snd (refresh_grants e fo d)"
| "run_handler (HSync mode alive bound) fo = snd (sync_network mode alive bound fo)"
| "run_handler HStop fo = stop_network fo"
| "run_handler (HEngage e d) fo = engage e d fo"
| "run_handler (HPark c v fresh host port domains) fo = (if unlocked fo then park_book v fresh host port domains (park_read c fo) else fo)"
| "run_handler (HDecider ev) fo = folder_step fo (FoDecider ev)"

definition reaches :: "folder \<Rightarrow> folder \<Rightarrow> bool" where
  "reaches fo fo' \<longleftrightarrow> (\<exists>es. fo' = foldl folder_step fo es) \<and> (unlocked fo \<longrightarrow> unlocked fo')"

lemma reaches_refl [intro, simp]: "reaches fo fo"
  unfolding reaches_def by (metis foldl_Nil)

lemma reaches_trans [trans]: "reaches a b \<Longrightarrow> reaches b c \<Longrightarrow> reaches a c"
  unfolding reaches_def by (metis foldl_append)

lemma reaches_step: "fo' = folder_step fo e \<Longrightarrow> (unlocked fo \<Longrightarrow> unlocked fo') \<Longrightarrow> reaches fo fo'"
  unfolding reaches_def by (metis foldl_Cons foldl_Nil)

lemma unlocked_let_go [simp]: "unlocked (let_go r fo) = unlocked fo"
  by (simp add: unlocked_def let_go_simps option.case_eq_if option.map_sel)

lemma unlocked_on_side: "(\<And>s. ns_parking (f s) = ns_parking s) \<Longrightarrow> unlocked (on_side f fo) = unlocked fo"
  by (simp add: unlocked_def option.case_eq_if option.map_sel)

lemma unlocked_updates [simp]:
  "unlocked (fo\<lparr>fo_calls := t\<rparr>) = unlocked fo" "unlocked (fo\<lparr>fo_engaged := en\<rparr>) = unlocked fo" "unlocked (fo\<lparr>fo_ended := q\<rparr>) = unlocked fo"
  "unlocked (fo\<lparr>fo_mode := mode\<rparr>) = unlocked fo" "unlocked (release_ended_hold ended fo) = unlocked fo"
  by (simp_all add: unlocked_def release_ended_hold_def Let_def option.case_eq_if option.map_sel)

lemma reaches_table: "reaches fo (let_go (table_op op (fo_calls fo)) fo)"
  by (rule reaches_step[where e = "FoTable op"]) simp_all

lemma reaches_quiet: "fst (table_op op (fo_calls fo)) = released_none \<Longrightarrow> reaches fo (fo\<lparr>fo_calls := snd (table_op op (fo_calls fo))\<rparr>)"
  using reaches_table[of fo op] let_go_none[of "snd (table_op op (fo_calls fo))" fo] by (cases "table_op op (fo_calls fo)") simp

lemma reaches_ended: "unlocked fo \<Longrightarrow> reaches fo (release_ended_holds rel fo)"
  unfolding release_ended_holds_def
proof (induction "rl_epochs rel" arbitrary: rel fo)
  case (Cons x xs)
  have "reaches fo (release_ended_hold x fo)" by (rule reaches_step[where e = "FoEnded x"]) (use Cons.prems in simp_all)
  moreover have "reaches (release_ended_hold x fo) (foldl (\<lambda>f e. release_ended_hold e f) (release_ended_hold x fo) xs)"
    using Cons.hyps(1)[of "rel\<lparr>rl_epochs := xs\<rparr>" "release_ended_hold x fo"] Cons.prems by simp
  ultimately show ?case using Cons.hyps(2)[symmetric] reaches_trans by auto
qed simp

text \<open>An operation of the table whose result is let go of and delivered.\<close>

lemma reaches_op:
  assumes "unlocked fo"
  shows "reaches fo (release_ended_holds (fst (table_op op (fo_calls fo))) (let_go (table_op op (fo_calls fo)) fo))"
  using reaches_trans[OF reaches_table reaches_ended] assms by simp

lemma reaches_engaged: "reaches fo (fo\<lparr>fo_engaged := en\<rparr>)"
  by (rule reaches_step[where e = "FoGrants en"]) simp_all

lemma reaches_engage: "reaches fo (engage e d fo)"
  by (auto simp: engage_def reaches_engaged split: option.splits)

lemma reaches_drop: "(\<And>cr. cred = Some cr \<Longrightarrow> \<exists>token. cr = credential_of c token) \<Longrightarrow> reaches fo (drop_minted cred fo)"
proof (cases cred)
  case (Some cr)
  assume "\<And>cr. cred = Some cr \<Longrightarrow> \<exists>token. cr = credential_of c token"
  then obtain token where "cr = credential_of c token" using Some by blast
  then show ?thesis using Some by (intro reaches_step[where e = "FoDropMinted c token"]) (simp_all add: drop_minted_def unlocked_on_side)
qed (simp add: drop_minted_def)


lemma reaches_result:
  assumes "unlocked fo" "table_op op (fo_calls fo) = outcome r"
  shows "reaches fo (case r of (Inl _, t) \<Rightarrow> fo\<lparr>fo_calls := t\<rparr> | (Inr evicted, t) \<Rightarrow> release_ended_holds evicted (let_go (evicted, t) fo))"
  using reaches_op[OF assms(1), of op] reaches_quiet[of op fo] assms(2) by (cases r) (auto simp: outcome_def split: sum.splits)

definition guarded_for :: "call_id \<Rightarrow> proxy_credential option \<Rightarrow> bool" where
  "guarded_for c cred \<longleftrightarrow> (\<forall>cr. cred = Some cr \<longrightarrow> (\<exists>token. cr = credential_of c token))"

lemma reaches_mint: "reaches fo (mint_guarded (tag_for_call c) token fo)"
  by (rule reaches_step[where e = "FoMint c token"]) (simp_all add: mint_guarded_def unlocked_on_side mint_def Let_def)

lemma reaches_point_at_proxy:
  "reaches fo (snd (point_at_proxy e c mode fo))"
  "fst (point_at_proxy e c mode fo) = Inr cred \<Longrightarrow> guarded_for c cred"
proof -
  have "reaches fo (drop_minted (Some (credential_of c token)) (mint_guarded (tag_for_call c) token fo))" for token
    using reaches_trans[OF reaches_mint reaches_drop[where c = c]] by blast
  then show "reaches fo (snd (point_at_proxy e c mode fo))"
    by (auto simp: point_at_proxy_def mint_call_credential_def Let_def reaches_mint split: option.splits)
  show "fst (point_at_proxy e c mode fo) = Inr cred \<Longrightarrow> guarded_for c cred"
    by (auto simp: point_at_proxy_def mint_call_credential_def guarded_for_def Let_def split: option.splits if_splits)
qed

lemma reaches_keep_record: "guarded_for c cred \<Longrightarrow> reaches fo (snd (keep_record c r cred fo))"
proof -
  assume "guarded_for c cred"
  then obtain token where m: "cred = map_option (credential_of c) token"
    unfolding guarded_for_def by (cases cred) (metis option.simps(8), metis option.simps(9))
  have "unlocked (drop_minted cred fo) = unlocked fo" "unlocked (keep_minted cred fo) = unlocked fo" for cred fo
    by (auto simp: drop_minted_def keep_minted_def unlocked_on_side split: option.splits)
  then show ?thesis using m by (intro reaches_step[where e = "FoKeep c r token"]) (auto simp: keep_record_is Let_def simp del: table_op.simps)
qed

lemma unlocked_reaches: "reaches fo fo' \<Longrightarrow> unlocked fo \<Longrightarrow> unlocked fo'"
  by (simp add: reaches_def)

lemma reaches_prepare:
  assumes "unlocked fo"
  shows "reaches fo (snd (prepare_inner e c fo))"
proof -
  let ?mode = "spawn_mode (pe_mode e) c fo" and ?s = "attempt_settling c (fo_calls fo)"
  define fo0 where "fo0 = (if held_mode c (fo_calls fo) = None then fo\<lparr>fo_mode := pe_mode e\<rparr> else fo)"
  have m: "reaches fo fo0" unfolding fo0_def by (auto intro!: reaches_step[where e = "FoMode (pe_mode e)"])
  let ?p = "point_at_proxy e c ?mode fo0"
  have p: "reaches fo (snd ?p)" using reaches_trans[OF m reaches_point_at_proxy(1)] .
  have g: "fst ?p = Inr cred \<Longrightarrow> guarded_for c cred" for cred by (rule reaches_point_at_proxy(2))
  have d: "reaches fo (drop_minted cred (snd ?p))" if "fst ?p = Inr cred" for cred
    using reaches_trans[OF p reaches_drop[of cred c]] g[OF that] by (auto simp: guarded_for_def)
  have k: "reaches fo (snd (keep_record c r cred (snd ?p)))" if "fst ?p = Inr cred" for r cred
    using reaches_trans[OF p reaches_keep_record[OF g[OF that]]] .
  have ke: "reaches fo (release_ended_holds ev (snd (keep_record c r cred (snd ?p))))" if "fst ?p = Inr cred" for r cred ev
    using reaches_trans[OF k[OF that] reaches_ended] unlocked_reaches[OF k[OF that] assms] by blast
  show ?thesis unfolding prepare_inner_def fo0_def[symmetric] Let_def
    using m p d k ke by (auto split: sum.splits prod.splits) (metis fst_conv snd_conv)+
qed

lemma reaches_sync: "reaches fo (snd (sync_network mode alive bound fo))"
proof -
  have m: "reaches fo (fo\<lparr>fo_mode := mode\<rparr>)" by (rule reaches_step[where e = "FoMode mode"]) simp_all
  have st: "reaches fo (stop_network_locked fo)" for fo by (rule reaches_step[where e = FoStop]) (simp_all add: stop_network_locked_def unlocked_def)
  have start: "\<not> fo_closed fo \<Longrightarrow> reaches fo (snd (start_network bound fo))" for fo
    by (cases bound) (auto simp: start_network_def unlocked_def side_new_def intro!: reaches_step[where e = "FoStart (the bound)"])
  have "\<not> fo_closed fo \<Longrightarrow> reaches fo (snd (start_network bound (stop_network_locked (fo\<lparr>fo_mode := mode\<rparr>))))"
    using reaches_trans[OF reaches_trans[OF m st] start] by (simp add: stop_network_locked_def)
  then show ?thesis unfolding sync_network_def Let_def using m reaches_trans[OF m st] by auto
qed


lemma reaches_finish:
  assumes "unlocked fo"
  shows "reaches fo (snd (finish_call decode refused c fo))"
proof -
  let ?fo = "release_ended_holds (fst (snd (take_prepared c (fo_calls fo)))) (let_go (snd (take_prepared c (fo_calls fo))) fo)"
  have f: "reaches fo ?fo" using reaches_op[OF assms, of "CallTakePrepared c"] by simp
  have u: "unlocked ?fo" by (rule unlocked_reaches[OF f assms])
  have "reaches ?fo (settle_finished c mode fin ?fo)" for mode fin
    using reaches_result[OF u, of "CallOpenSettlement c mode"] reaches_quiet[of "CallCloseSettlement c" ?fo] by (simp add: settle_finished_def)
  then show ?thesis using f reaches_trans[OF f]
    by (cases "take_prepared c (fo_calls fo)") (auto simp: finish_call_def Let_def split: option.splits prod.splits)
qed

lemma reaches_stored: "reaches fo (snd (stored_grant e r fo))"
  by (auto simp: stored_grant_def keep_store_def set_store_def reaches_engaged split: sum.splits)

lemma reaches_record_grant: "reaches fo (fst (snd (record_grant e c epoch session g fo d)))"
proof -
  let ?fo = "engage e d fo"
  have e: "reaches fo ?fo" by (rule reaches_engage)
  have s: "reaches ?fo (?fo\<lparr>fo_calls := snd (stash_once c epoch g (fo_calls ?fo))\<rparr>)" using reaches_quiet[of "CallStash c epoch g" ?fo] by simp
  have "reaches ?fo (set_store now st (?fo\<lparr>fo_calls := snd (stash_once c epoch g (fo_calls ?fo))\<rparr>))" for now st
    unfolding set_store_def by (rule reaches_trans[OF s reaches_engaged])
  then have "reaches ?fo (fst (snd (record_grant e c epoch session g fo d)))"
    using s reaches_stored[of ?fo e] unfolding record_grant_def Let_def
    by (auto simp: case_prod_beta split: grant_scope.splits option.splits)
  then show ?thesis by (rule reaches_trans[OF e])
qed

lemma reaches_end_session:
  assumes "unlocked fo"
  shows "reaches fo (snd (end_session now session fo))"
proof -
  let ?r = "table_end_session session (fo_calls fo)"
  have f: "reaches fo (release_ended_holds (fst ?r) (let_go ?r fo))" using reaches_op[OF assms, of "CallEndSession session"] by simp
  then show ?thesis using reaches_trans[OF f reaches_engaged]
    by (auto simp: end_session_def Let_def case_prod_beta set_store_def keep_store_def split: option.splits)
qed

lemma handler_reaches:
  assumes "unlocked fo"
  shows "reaches fo (run_handler h fo)"
proof (cases h)
  case (HBind c owner)
  then show ?thesis using reaches_result[OF assms table_op.simps(1), of c owner]
    by (cases "bind_owner c owner (fo_calls fo)") (auto simp: bind_call_def split: sum.splits)
next
  case (HPin c mode)
  then show ?thesis using reaches_result[OF assms table_op.simps(6), of c mode]
    by (cases "pin_mode c mode (fo_calls fo)") (auto simp: folder_pin_mode_def split: sum.splits)
next
  case (HBindPinned c owner)
  then show ?thesis using reaches_quiet[of "CallBindPinned c owner" fo] by (simp add: bind_pinned_call_def case_prod_beta)
next
  case (HRelease c)
  then show ?thesis using reaches_op[OF assms, of "CallRelease c"] by (simp add: release_call_def Let_def case_prod_beta)
next
  case (HDetach c session)
  then show ?thesis using reaches_op[OF assms, of "CallDetach c session"] by (simp add: detach_call_def Let_def case_prod_beta)
next
  case (HExited c)
  then show ?thesis using reaches_op[OF assms, of "CallExited c"] by (simp add: call_exited_def Let_def case_prod_beta)
next
  case (HRevokeGrant e d gid)
  have "reaches (engage e d fo) (run_handler h fo)"
    unfolding HRevokeGrant by (auto simp: revoke_grant_def Let_def case_prod_beta set_store_def keep_store_def reaches_engaged split: sum.splits)
  then show ?thesis by (rule reaches_trans[OF reaches_engage])
next
  case (HRefresh e d)
  then show ?thesis by (auto simp: refresh_grants_def Let_def case_prod_beta set_store_def keep_store_def reaches_engaged split: option.splits)
next
  case HStop
  then show ?thesis by (intro reaches_step[where e = FoClose]) (simp_all add: stop_network_def stop_network_locked_def unlocked_def)
next
  case (HPark c v fresh host port domains)
  have "park_book v fresh host port domains (park_read c fo) = foldl folder_step fo [FoParkRead c, FoPark v fresh host port domains]"
    using assms by simp
  moreover have "unlocked (park_book v fresh host port domains (park_read c fo))"
    by (cases "fo_side fo") (auto simp: unlocked_def park_book_def park_read_def)
  ultimately show ?thesis using HPark assms unfolding reaches_def by (metis run_handler.simps(16))
next
  case (HDecider ev)
  show ?thesis unfolding HDecider run_handler.simps by (rule reaches_step[OF refl]) (simp add: unlocked_on_side)
qed (simp_all add: reaches_engage reaches_prepare[OF assms] reaches_finish[OF assms] reaches_end_session[OF assms] reaches_record_grant reaches_sync)

lemma handlers_refine_steps:
  assumes "unlocked fo"
  shows "\<exists>es. run_handler h fo = foldl folder_step fo es \<and> unlocked (foldl folder_step fo es)"
  using handler_reaches[OF assms, of h] assms by (auto simp: reaches_def)


section \<open>Between handlers\<close>

text \<open>What a handler under way leaves on the proxy side, and what no finished one does.\<close>

definition side_tasks :: "folder \<Rightarrow> (proxy_credential list \<times> (call_id option \<times> nat option) option) option" where
  "side_tasks fo = map_option (\<lambda>s. (ns_guards s, ns_parking s)) (fo_side fo)"

definition at_rest :: "folder \<Rightarrow> bool" where
  "at_rest fo \<longleftrightarrow> fo_ended fo = [] \<and> (fo_closed fo \<longrightarrow> side_tasks fo = None) \<and> side_tasks fo \<in> {None, Some ([], None)}"

lemma side_tasks_on_side: "side_tasks (on_side f fo) = map_option (\<lambda>s. (ns_guards (f s), ns_parking (f s))) (fo_side fo)"
  by (cases "fo_side fo") (simp_all add: side_tasks_def)

lemma side_tasks_updates [simp]:
  "side_tasks (fo\<lparr>fo_calls := t\<rparr>) = side_tasks fo" "side_tasks (fo\<lparr>fo_engaged := en\<rparr>) = side_tasks fo"
  "side_tasks (fo\<lparr>fo_ended := q\<rparr>) = side_tasks fo" "side_tasks (fo\<lparr>fo_mode := mode\<rparr>) = side_tasks fo"
  "side_tasks (let_go r fo) = side_tasks fo"
  by (simp_all add: side_tasks_def let_go_simps option.map_comp comp_def)

lemma settled_updates [simp]:
  "at_rest (fo\<lparr>fo_calls := t\<rparr>) = at_rest fo" "at_rest (fo\<lparr>fo_engaged := en\<rparr>) = at_rest fo" "at_rest (fo\<lparr>fo_mode := mode\<rparr>) = at_rest fo"
  by (simp_all add: at_rest_def)

lemma ended_hold_fields:
  "side_tasks (release_ended_hold ended fo) = side_tasks fo" "fo_closed (release_ended_hold ended fo) = fo_closed fo"
  "fo_ended (release_ended_hold ended fo) = remove1 ended (fo_ended fo)"
  by (simp_all add: release_ended_hold_def Let_def side_tasks_on_side) (simp add: side_tasks_def)

lemma ended_holds_fields:
  "side_tasks (release_ended_holds rel fo) = side_tasks fo" "fo_closed (release_ended_holds rel fo) = fo_closed fo"
  "fo_ended fo = rl_epochs rel \<Longrightarrow> fo_ended (release_ended_holds rel fo) = []"
proof -
  have "side_tasks (foldl (\<lambda>f e. release_ended_hold e f) fo es) = side_tasks fo
      \<and> fo_closed (foldl (\<lambda>f e. release_ended_hold e f) fo es) = fo_closed fo
      \<and> (fo_ended fo = es \<longrightarrow> fo_ended (foldl (\<lambda>f e. release_ended_hold e f) fo es) = [])" for es
    by (induction es arbitrary: fo) (simp_all add: ended_hold_fields)
  then show "side_tasks (release_ended_holds rel fo) = side_tasks fo" "fo_closed (release_ended_holds rel fo) = fo_closed fo"
    "fo_ended fo = rl_epochs rel \<Longrightarrow> fo_ended (release_ended_holds rel fo) = []"
    unfolding release_ended_holds_def by blast+
qed

lemma settled_let_go:
  "at_rest fo \<Longrightarrow> at_rest (release_ended_holds rel (let_go (rel, t) fo))"
  "at_rest fo \<Longrightarrow> at_rest (release_ended_holds (fst r) (let_go r fo))"
  by (simp_all add: at_rest_def ended_holds_fields let_go_simps)

text \<open>The one credential of a spawn under way.\<close>

lemma settled_drop:
  assumes "fo_ended fo = []" "\<not> fo_closed fo" "side_tasks fo = Some ([cr], None)"
  shows "at_rest (drop_minted (Some cr) fo)"
proof -
  obtain s where s: "fo_side fo = Some s" "ns_guards s = [cr]" "ns_parking s = None" using assms(3) by (auto simp: side_tasks_def)
  then show ?thesis using assms(1,2) by (simp add: at_rest_def drop_minted_def side_tasks_on_side)
qed

definition minted_ok :: "proxy_credential option \<Rightarrow> folder \<Rightarrow> bool" where
  "minted_ok cred fo \<longleftrightarrow> (case cred of None \<Rightarrow> at_rest fo
     | Some cr \<Rightarrow> fo_ended fo = [] \<and> \<not> fo_closed fo \<and> side_tasks fo = Some ([cr], None))"

lemma minted_drop: "minted_ok cred fo \<Longrightarrow> at_rest (drop_minted cred fo)"
  using settled_drop by (cases cred) (auto simp: minted_ok_def drop_minted_def[of None])

lemma point_minted:
  assumes "at_rest fo" "point_at_proxy e c mode fo = (r, fo1)"
  shows "case r of Inl _ \<Rightarrow> at_rest fo1 | Inr cred \<Rightarrow> minted_ok cred fo1"
proof -
  let ?cr = "\<lambda>token. \<lparr>cr_tag = tag_for_call c, cr_token = token\<rparr>"
  have m: "minted_ok (Some (?cr token)) (mint_guarded (tag_for_call c) token fo)" if "fo_side fo = Some s" for token s
    using assms(1) that by (auto simp: minted_ok_def at_rest_def mint_guarded_def mint_def Let_def side_tasks_on_side) (simp_all add: side_tasks_def)
  show ?thesis
    using assms m minted_drop[OF m]
    by (auto simp: point_at_proxy_def mint_call_credential_def minted_ok_def[of None] Let_def split: if_splits option.splits)
qed

lemma settled_keep_record:
  assumes "minted_ok cred fo" "keep_record c r cred fo = (res, fo')"
  shows "case res of Inl _ \<Rightarrow> at_rest fo' | Inr evicted \<Rightarrow> at_rest (release_ended_holds evicted fo')"
proof -
  obtain x t where x: "remember c r (fo_calls fo) = (x, t)" by (cases "remember c r (fo_calls fo)")
  have "minted_ok cred (fo\<lparr>fo_calls := t\<rparr>)" using assms(1) by (simp add: minted_ok_def split: option.splits)
  then have "at_rest (drop_minted cred (fo\<lparr>fo_calls := t\<rparr>))" by (rule minted_drop)
  moreover have "at_rest (release_ended_holds ev (keep_minted cred (let_go (ev, t) fo)))" for ev
  proof (cases cred)
    case None
    then show ?thesis using assms(1) settled_let_go by (simp add: minted_ok_def keep_minted_def)
  next
    case (Some cr)
    then obtain s where s: "fo_side fo = Some s" "ns_guards s = [cr]" "ns_parking s = None" and f: "fo_ended fo = []" "\<not> fo_closed fo"
      using assms(1) by (auto simp: minted_ok_def side_tasks_def)
    then have "side_tasks (keep_minted cred (let_go (ev, t) fo)) = Some ([], None)"
      using Some by (simp add: keep_minted_def side_tasks_on_side let_go_simps)
    moreover have "fo_ended (keep_minted cred (let_go (ev, t) fo)) = rl_epochs ev" "\<not> fo_closed (keep_minted cred (let_go (ev, t) fo))"
      using f Some by (simp_all add: keep_minted_def let_go_simps)
    ultimately show ?thesis by (simp add: at_rest_def ended_holds_fields)
  qed
  ultimately show ?thesis using assms(2) x by (auto simp: keep_record_def split: sum.splits)
qed

lemma settled_prepare: "at_rest fo \<Longrightarrow> at_rest (snd (prepare_inner e c fo))"
proof -
  assume ok: "at_rest fo"
  define fo0 where "fo0 = (if held_mode c (fo_calls fo) = None then fo\<lparr>fo_mode := pe_mode e\<rparr> else fo)"
  have fo0: "at_rest fo0" using ok by (simp add: fo0_def)
  obtain pr fo1 where p: "point_at_proxy e c (spawn_mode (pe_mode e) c fo) fo0 = (pr, fo1)" by fastforce
  note m = point_minted[OF fo0 p]
  have k: "at_rest (snd (case keep_record c r cred fo1 of (Inl refused, fo2) \<Rightarrow> (Inl (refused_error refused), fo2)
      | (Inr evicted, fo2) \<Rightarrow> (Inr x, release_ended_holds evicted fo2)))" if "pr = Inr cred" for r cred and x :: "bool option"
    using m that settled_keep_record[of cred fo1 c r] by (cases "keep_record c r cred fo1") (auto split: sum.splits)
  show ?thesis unfolding prepare_inner_def fo0_def[symmetric] Let_def p prod.case
    using fo0 m k minted_drop[of _ fo1] by (cases pr) (auto split: sum.splits)
qed

lemma settled_finish: "at_rest fo \<Longrightarrow> at_rest (snd (finish_call decode refused c fo))"
proof -
  assume ok: "at_rest fo"
  obtain r rel t where t: "take_prepared c (fo_calls fo) = (r, rel, t)" by (cases "take_prepared c (fo_calls fo)") auto
  let ?fo = "release_ended_holds rel (let_go (rel, t) fo)"
  have s: "at_rest ?fo" by (rule settled_let_go(1)[OF ok])
  have "at_rest (settle_finished c mode fin ?fo)" for mode fin
    using s settled_let_go(1)[OF s] by (auto simp: settle_finished_def split: prod.splits sum.splits)
  then show ?thesis using s t by (auto simp: finish_call_def Let_def split: option.splits)
qed

lemma settled_engage: "at_rest fo \<Longrightarrow> at_rest (engage e d fo)"
  by (auto simp: engage_def split: option.splits)

lemma settled_record: "at_rest fo \<Longrightarrow> at_rest (fst (snd (record_grant e c epoch session g fo d)))"
  using settled_engage[of fo e d]
  by (auto simp: record_grant_def Let_def stored_grant_def keep_store_def set_store_def split: if_splits grant_scope.splits option.splits prod.splits sum.splits)

lemma settled_sync: "at_rest fo \<Longrightarrow> at_rest (snd (sync_network mode alive bound fo))"
  by (auto simp: sync_network_def start_network_def stop_network_locked_def at_rest_def side_tasks_def side_new_def Let_def split: option.splits)

lemma settled_handler: "at_rest fo \<Longrightarrow> at_rest (run_handler h fo)"
proof (cases h)
  case (HPark c v fresh host port domains)
  assume "at_rest fo"
  then show ?thesis using HPark
    by (cases "fo_side fo") (auto simp: at_rest_def park_book_def park_read_def side_tasks_def)
next
  case (HDecider ev)
  assume "at_rest fo"
  then show ?thesis using HDecider by (cases "fo_side fo") (auto simp: at_rest_def side_tasks_def)
next
  case HStop
  assume "at_rest fo"
  then show ?thesis using HStop by (simp add: at_rest_def side_tasks_def stop_network_def stop_network_locked_def)
next
  case (HEndSession now session)
  assume "at_rest fo"
  then show ?thesis using HEndSession settled_let_go(2)[of fo]
    by (auto simp: end_session_def Let_def case_prod_beta set_store_def keep_store_def split: option.splits)
qed (auto simp: bind_call_def bind_pinned_call_def folder_pin_mode_def release_call_def detach_call_def call_exited_def revoke_grant_def
    refresh_grants_def set_store_def keep_store_def case_prod_beta Let_def
    settled_prepare settled_finish settled_engage settled_record settled_sync settled_let_go split: sum.splits option.splits prod.splits)

definition handler_ok :: "folder \<Rightarrow> bool" where
  "handler_ok fo \<longleftrightarrow> folder_ok fo \<and> at_rest fo"

lemma settled_unlocked: "at_rest fo \<Longrightarrow> unlocked fo"
  by (auto simp: at_rest_def unlocked_def side_tasks_def split: option.splits)

interpretation handlers: state_machine "\<lambda>fo h. run_handler h fo" handler_ok
proof unfold_locales
  fix fo h assume ok: "handler_ok fo"
  then obtain es where "run_handler h fo = foldl folder_step fo es"
    using handlers_refine_steps[of fo h] settled_unlocked by (auto simp: handler_ok_def)
  then have "folder_ok (run_handler h fo)" using folders.run_inv[of fo es] ok by (simp add: handler_ok_def)
  then show "handler_ok (run_handler h fo)" using settled_handler ok by (simp add: handler_ok_def)
qed

abbreviation handlers_run :: "sandbox_mode \<Rightarrow> handler list \<Rightarrow> folder" where
  "handlers_run mode hs \<equiv> foldl (\<lambda>fo h. run_handler h fo) (folder_new mode) hs"

lemma folder_closed_step: "fo_closed fo \<Longrightarrow> fo_closed (folder_step fo e)"
  by (cases e) (auto simp: let_go_simps ended_hold_fields mint_guarded_def keep_record_def drop_minted_def keep_minted_def park_read_def park_book_def
      stop_network_def stop_network_locked_def case_prod_beta split: option.splits sum.splits)

lemma folder_closed_steps: "fo_closed fo \<Longrightarrow> fo_closed (foldl folder_step fo es)"
  by (induction es arbitrary: fo) (auto simp del: folder_step.simps intro: folder_closed_step)

lemma folder_closed_run:
  assumes "handler_ok fo"
  shows "fo_closed fo \<or> HStop \<in> set hs \<Longrightarrow> fo_closed (foldl (\<lambda>fo h. run_handler h fo) fo hs)"
  using assms
proof (induction hs arbitrary: fo)
  case (Cons h hs)
  have "fo_closed (run_handler h fo)" if "fo_closed fo \<or> h = HStop"
  proof (cases "h = HStop")
    case False
    obtain es where "run_handler h fo = foldl folder_step fo es"
      using handlers_refine_steps[of fo h] settled_unlocked Cons.prems(2) by (auto simp: handler_ok_def)
    then show ?thesis using that False folder_closed_steps by auto
  qed (simp add: stop_network_def stop_network_locked_def)
  then show ?case using Cons.IH[of "run_handler h fo"] handlers.step_inv[OF Cons.prems(2)] Cons.prems(1) by auto
qed simp

text \<open>
  C34: Between handlers nothing is left over. After any sequence of handlers of a served folder (calls bound, pinned,
  prepared, finished, released, detached and exited, sessions ended, grants recorded, revoked and reloaded, the proxy
  synced and stopped, connections parked and answered), whatever each of them came to: no spawn's credential is left
  without its record and no ended call's epoch waits to be delivered; a token the proxy authenticates as a call's is
  that of a call whose command runs; a connection waiting under an epoch waits for a call whose command runs; and once the
  folder's network has been stopped for good, no handler brings a proxy back.
\<close>

theorem settled_between_handlers:
  fixes hs :: "handler list" and mode :: sandbox_mode
  defines "fo \<equiv> handlers_run mode hs"
  shows "(HStop \<in> set hs \<longrightarrow> fo_side fo = None) \<and> fo_ended fo = []
    \<and> (\<forall>s. fo_side fo = Some s \<longrightarrow> ns_guards s = [] \<and> ns_parking s = None
         \<and> (\<forall>token tag. authenticate_token (ns_creds s) token = Inr (Some tag) \<longrightarrow> view_call_runs fo tag)
         \<and> (\<forall>i h tag n. (i, h) \<in> set (dc_holds (ns_decider s)) \<and> is_hold (ph_parked h) \<and> ph_call h = Some tag \<and> ph_epoch h = Some n
              \<longrightarrow> view_call_runs fo tag))"
proof (intro conjI allI impI)
  have new: "handler_ok (folder_new mode)"
    by (simp add: handler_ok_def at_rest_def side_tasks_def) (simp add: folder_new_def)
  have ok: "folder_ok fo" "at_rest fo" using new handlers.run_inv[of "folder_new mode" hs] by (simp_all add: fo_def handler_ok_def)
  show "fo_ended fo = []" using ok(2) by (simp add: at_rest_def)
  show "fo_side fo = None" if "HStop \<in> set hs"
    using ok(2) folder_closed_run[OF new, of hs] that by (simp add: at_rest_def side_tasks_def fo_def)
  fix s assume s: "fo_side fo = Some s"
  show g: "ns_guards s = []" and "ns_parking s = None" using ok(2) s by (simp_all add: at_rest_def side_tasks_def)
  have so: "creds_ok (fo_calls fo) s" "holds_ok (fo_calls fo) [] s"
    using ok s by (auto simp: folder_ok_def side_ok_def at_rest_def)
  show "view_call_runs fo tag" if auth: "authenticate_token (ns_creds s) token = Inr (Some tag)" for token tag
  proof -
    obtain cr where "cr \<in> set (rg_calls (ns_creds s))" "cr_tag cr = tag"
      using auth by (auto simp: authenticate_token_def dest!: find_SomeD split: if_splits option.splits)
    then show ?thesis using so(1) g by (auto simp: creds_ok_def view_runs_spawn)
  qed
  show "view_call_runs fo tag"
    if "(i, h) \<in> set (dc_holds (ns_decider s)) \<and> is_hold (ph_parked h) \<and> ph_call h = Some tag \<and> ph_epoch h = Some n" for i h tag n
  proof -
    have "(tag, n) \<in> hold_epochs (ns_decider s)" using that by (auto simp: hold_epochs_def)
    then show ?thesis using so(2) by (auto simp: holds_ok_def ending_def view_runs_spawn)
  qed
qed

text \<open>A folder engaged under \<open>enforce\<close> and a call prepared in it; then the folder is left.\<close>

definition spawning :: prepare_env where
  "spawning = \<lparr>pe_mode = ModeEnforce, pe_now = 5, pe_session_dir_safe = True, pe_policy_ok = (\<lambda>_. True), pe_side_running = True,
     pe_token = Some (str ''t''), pe_still_current = True, pe_wrap = Inr True\<rparr>"

definition one_spawn :: "handler list" where
  "one_spawn = [HEngage \<lparr>ge_store = sample_store_env, ge_rules = empty_rules, ge_now = 5\<rparr>
       \<lparr>gd_workspace = \<lparr>rf_read = ReadNotFound, rf_signature = None\<rparr>, gd_global = \<lparr>rf_read = ReadNotFound, rf_signature = None\<rparr>\<rparr>,
     HSync ModeEnforce False (Some (str ''s'')), HPrepare spawning (tool ''a'')]"

lemma one_spawn_authenticates:
  "map_option (\<lambda>s. authenticate_token (ns_creds s) (str ''t'')) (fo_side (handlers_run ModeEnforce one_spawn))
     = Some (Inr (Some (tag_for_call (tool ''a''))))"
  unfolding one_spawn_def by code_simp

theorem settled_between_handlers_witness:
  "view_call_runs (handlers_run ModeEnforce one_spawn) (tag_for_call (tool ''a''))
   \<and> fo_side (handlers_run ModeEnforce (one_spawn @ [HStop, HSync ModeEnforce False (Some (str ''s''))])) = None"
proof
  obtain s where "fo_side (handlers_run ModeEnforce one_spawn) = Some s"
    "authenticate_token (ns_creds s) (str ''t'') = Inr (Some (tag_for_call (tool ''a'')))"
    using one_spawn_authenticates by auto
  then show "view_call_runs (handlers_run ModeEnforce one_spawn) (tag_for_call (tool ''a''))"
    using settled_between_handlers[of one_spawn ModeEnforce] by blast
  show "fo_side (handlers_run ModeEnforce (one_spawn @ [HStop, HSync ModeEnforce False (Some (str ''s''))])) = None"
    using settled_between_handlers[of "one_spawn @ [HStop, HSync ModeEnforce False (Some (str ''s''))]" ModeEnforce] by simp
qed


section \<open>Spawns\<close>

lemma spawn_mode_at_least: "mode_held = held_mode c (fo_calls fo) \<Longrightarrow> (case mode_held of Some m \<Rightarrow> spawn_mode folder_mode c fo = m
    | None \<Rightarrow> folder_mode \<le> spawn_mode folder_mode c fo \<and> (\<forall>f. floor_of c (fo_calls fo) = Some f \<longrightarrow> f \<le> spawn_mode folder_mode c fo))"
  by (auto simp: spawn_mode_def split: option.splits)

lemma point_calls [simp]: "fo_calls (snd (point_at_proxy e c mode fo)) = fo_calls fo"
  by (auto simp: point_at_proxy_def mint_call_credential_def mint_guarded_def drop_minted_def Let_def split: option.splits)

lemma minted_calls [simp]: "fo_calls (drop_minted cred fo) = fo_calls fo" "fo_calls (keep_minted cred fo) = fo_calls fo"
  by (auto simp: drop_minted_def keep_minted_def split: option.splits)

lemma ended_calls [simp]: "fo_calls (release_ended_holds rel fo) = fo_calls fo"
proof -
  have "fo_calls (foldl (\<lambda>f e. release_ended_hold e f) fo es) = fo_calls fo" for es
    by (induction es arbitrary: fo) (simp_all add: release_ended_hold_def Let_def)
  then show ?thesis by (simp add: release_ended_holds_def)
qed

lemma remember_records: "remember c r t = (Inr ev, t') \<Longrightarrow> prepared_record c t' = Some r"
  using entry_same[of c t]
  by (cases "table_entry c t") (auto simp: remember_def on_entry_def prepared_record_def split: sum.splits option.splits)

lemma remember_refuses: "remember c r t = (Inl x, t') \<Longrightarrow> t' = t"
  by (cases rule: table_entry_cases[of t c]) (auto simp: remember_def on_entry_def)

lemma prepared_held: "prepared_record c t = Some r \<Longrightarrow> held_mode c t = Some (cr_mode r)"
  by (cases "entry_of t c") (auto simp: prepared_record_def held_mode_def entry_mode_def)

text \<open>
  C11: A spawn runs under its call's mode or not at all. Preparing a tool call's command answers with an error and leaves
  the table of calls as it was; or lets the command run unprepared, which happens only when the mode it is due is \<open>off\<close>, or
  \<open>observe\<close> in a folder not yet engaged; or records it under the mode it is due, engaged and, under \<open>enforce\<close>, with
  the session directory safe. The mode due is the one the call holds; without one, at least the folder's and the call's
  floor. So no change of the folder's mode weakens a call that was pinned or floored.
\<close>

theorem spawn_under_its_mode:
  fixes c :: call_id and e :: prepare_env and fo :: folder
  assumes "ci_kind c = KindTool"
  defines "mode \<equiv> spawn_mode (pe_mode e) c fo" and "fo' \<equiv> snd (prepare_inner e c fo)"
  shows "(case held_mode c (fo_calls fo) of Some m \<Rightarrow> mode = m
      | None \<Rightarrow> pe_mode e \<le> mode \<and> (\<forall>f. floor_of c (fo_calls fo) = Some f \<longrightarrow> f \<le> mode))
    \<and> (case fst (prepare_inner e c fo) of
         Inl _ \<Rightarrow> fo_calls fo' = fo_calls fo
       | Inr None \<Rightarrow> fo_calls fo' = fo_calls fo \<and> (mode = ModeOff \<or> mode = ModeObserve \<and> fo_engaged fo = None)
       | Inr (Some sandboxed) \<Rightarrow> mode \<noteq> ModeOff \<and> fo_engaged fo \<noteq> None \<and> (mode = ModeEnforce \<longrightarrow> pe_session_dir_safe e)
           \<and> held_mode c (fo_calls fo') = Some mode
           \<and> prepared_record c (fo_calls fo') \<noteq> None \<and> (sandboxed \<longleftrightarrow> mode = ModeEnforce \<and> pe_wrap e = Inr True))"
proof
  show "case held_mode c (fo_calls fo) of Some m \<Rightarrow> mode = m
      | None \<Rightarrow> pe_mode e \<le> mode \<and> (\<forall>f. floor_of c (fo_calls fo) = Some f \<longrightarrow> f \<le> mode)"
    using spawn_mode_at_least[of _ c fo "pe_mode e"] unfolding mode_def by simp
  define fo0 where "fo0 = (if held_mode c (fo_calls fo) = None then fo\<lparr>fo_mode := pe_mode e\<rparr> else fo)"
  have fo0: "fo_calls fo0 = fo_calls fo" "fo_engaged fo0 = fo_engaged fo" by (simp_all add: fo0_def)
  obtain pr fo1 where p: "point_at_proxy e c mode fo0 = (pr, fo1)" by (cases "point_at_proxy e c mode fo0")
  have fo1: "fo_calls fo1 = fo_calls fo" using point_calls[of e c mode fo0] p fo0 by simp
  have keep: "fo_calls (snd (keep_record c r cred fo1)) = fo_calls fo" if "fst (keep_record c r cred fo1) = Inl x" for r cred x
    using that fo1 remember_refuses[of c r "fo_calls fo1"]
    by (cases "remember c r (fo_calls fo1)") (auto simp: keep_record_def split: sum.splits)
  have rec: "prepared_record c (fo_calls (snd (keep_record c r cred fo1))) = Some r" if "fst (keep_record c r cred fo1) = Inr x" for r cred x
    using that remember_records[of c r "fo_calls fo1"]
    by (cases "remember c r (fo_calls fo1)") (auto simp: keep_record_def let_go_simps split: sum.splits)
  show "case fst (prepare_inner e c fo) of
         Inl _ \<Rightarrow> fo_calls fo' = fo_calls fo
       | Inr None \<Rightarrow> fo_calls fo' = fo_calls fo \<and> (mode = ModeOff \<or> mode = ModeObserve \<and> fo_engaged fo = None)
       | Inr (Some sandboxed) \<Rightarrow> mode \<noteq> ModeOff \<and> fo_engaged fo \<noteq> None \<and> (mode = ModeEnforce \<longrightarrow> pe_session_dir_safe e)
           \<and> held_mode c (fo_calls fo') = Some mode
           \<and> prepared_record c (fo_calls fo') \<noteq> None \<and> (sandboxed \<longleftrightarrow> mode = ModeEnforce \<and> pe_wrap e = Inr True)"
  proof (cases "mode = ModeOff \<or> fo_engaged fo = None \<or> (mode = ModeEnforce \<and> \<not> pe_session_dir_safe e)
      \<or> \<not> pe_policy_ok e (live_allows_now (pe_now e) (session_of c (fo_calls fo0)) fo0 @ sg_once (attempt_settling c (fo_calls fo))) \<or> isl pr \<or> isl (pe_wrap e)")
    case True
    then show ?thesis using fo0 fo1 p unfolding fo'_def prepare_inner_def Let_def mode_def[symmetric] fo0_def[symmetric]
      by (auto split: sum.splits)
  next
    case False
    then obtain cred receipt where pr: "pr = Inr cred" "pe_wrap e = Inr receipt" by (metis sum.collapse(2))
    let ?r = "\<lparr>cr_mode = mode, cr_sandboxed = (mode = ModeEnforce \<and> receipt), cr_replayed_under = sg_replayed_under (attempt_settling c (fo_calls fo)),
      cr_inherited_once = sg_once (attempt_settling c (fo_calls fo))\<rparr>"
    have i: "prepare_inner e c fo = (case keep_record c ?r cred fo1 of
        (Inl refused, fo2) \<Rightarrow> (Inl (refused_error refused), fo2)
      | (Inr evicted, fo2) \<Rightarrow> (Inr (Some (mode = ModeEnforce \<and> receipt)), release_ended_holds evicted fo2))"
      using False p pr fo0 assms(1) unfolding prepare_inner_def Let_def mode_def[symmetric] fo0_def[symmetric] by auto
    obtain kr fo2 where k: "keep_record c ?r cred fo1 = (kr, fo2)" by (cases "keep_record c ?r cred fo1")
    then show ?thesis using False pr keep[of ?r cred] rec[of ?r cred] prepared_held[of c "fo_calls fo2" ?r]
      unfolding fo'_def i k by (cases kr) auto
  qed
qed


definition no_grants :: engaged where
  "no_grants = \<lparr>en_store = \<lparr>gs_workspace = \<lparr>pr_signature = None, pr_rows = Some []\<rparr>, gs_global = \<lparr>pr_signature = None, pr_rows = Some []\<rparr>, gs_session = []\<rparr>,
     en_live = \<lparr>lr_shared = [], lr_sessions = []\<rparr>\<rparr>"

definition pinned_run :: "folder_event list" where
  "pinned_run = [FoGrants (Some no_grants), FoTable (CallPin (tool ''a'') ModeEnforce)]"

definition switched_off :: prepare_env where
  "switched_off = \<lparr>pe_mode = ModeOff, pe_now = 5, pe_session_dir_safe = True, pe_policy_ok = (\<lambda>_. True), pe_side_running = True,
     pe_token = None, pe_still_current = True, pe_wrap = Inr True\<rparr>"

lemma pinned_run_prepares:
  "fst (prepare_inner switched_off (tool ''a'') (folder_run ModeOff pinned_run)) = Inr (Some True)"
  "held_mode (tool ''a'') (fo_calls (folder_run ModeOff pinned_run)) = Some ModeEnforce"
  unfolding pinned_run_def by code_simp+

text \<open>A call pinned under \<open>enforce\<close> in a folder that has been switched off since.\<close>

theorem spawn_under_its_mode_witness:
  "held_mode (tool ''a'') (fo_calls (snd (prepare_inner switched_off (tool ''a'') (folder_run ModeOff pinned_run)))) = Some ModeEnforce"
proof -
  have "ci_kind (tool ''a'') = KindTool" by (simp add: tool_def)
  from spawn_under_its_mode[OF this, of switched_off "folder_run ModeOff pinned_run"] show ?thesis
    using pinned_run_prepares by (simp del: folder_step.simps)
qed


section \<open>Rows\<close>

text \<open>The rows that concern a call: every session's, its own session's, and those given for it alone.\<close>

definition concerns :: "call_id \<Rightarrow> folder \<Rightarrow> grant \<Rightarrow> bool" where
  "concerns c fo g \<longleftrightarrow> g \<in> set (once_rows c (fo_calls fo))
     \<or> (\<exists>en. fo_engaged fo = Some en \<and> (g \<in> set (lr_shared (en_live en))
          \<or> (\<exists>s. session_of c (fo_calls fo) = Some s \<and> (s, g) \<in> set (lr_sessions (en_live en)))))"

lemma rows_for_call:
  "g \<in> set (net_rows_for now (Some (tag_for_call c)) fo) \<longleftrightarrow> is_net g
     \<and> (g \<in> set (once_rows c (fo_calls fo)) \<or> is_live now g \<and> g \<in> set (folder_rows_for (session_of c (fo_calls fo)) fo))"
  by (auto simp: net_rows_for_def tag_reads_back net_rows_def)

lemma concerns_rows: "concerns c fo g \<longleftrightarrow> g \<in> set (once_rows c (fo_calls fo)) \<or> g \<in> set (folder_rows_for (session_of c (fo_calls fo)) fo)"
  by (force simp: concerns_def folder_rows_for_def live_rows_for_def split: option.splits)

lemma says_for_call:
  "row_says dec (folder_view v fo) (Some (tag_for_call c)) host port
     \<longleftrightarrow> (\<exists>g. concerns c fo g \<and> row_applies (nv_now v) host port g \<and> gr_decision g = dec)"
proof -
  have "row_applies now host port g \<Longrightarrow> is_live now g \<and> is_net g" for now g by (auto simp: row_applies_def is_net_def split: grant_subject.splits)
  then show ?thesis by (auto simp: row_says_def folder_view_def rows_for_call concerns_rows)
qed

text \<open>
  C10: A call under \<open>enforce\<close> is decided by the rows that concern it. With the folder behind the decider, a connection of a
  call that holds \<open>enforce\<close> is let through at once exactly when a live row that is shared by every session, or given for
  the call's own session, or given once for this very call, allows the host and port, or the allow-list has the host,
  while no such row denies it and the deny-list does not; rows of another session or another call never count, and
  the folder's present mode does not matter.
\<close>

theorem decided_by_own_rows:
  assumes "held_mode c (fo_calls fo) = Some ModeEnforce"
  shows "fst (decide (folder_view v fo) fresh origin (Some (tag_for_call c)) d) = DecideAllow \<longleftrightarrow>
     ((\<exists>g. concerns c fo g \<and> row_applies (nv_now v) (wo_hostname origin) (wo_port origin) g \<and> gr_decision g = GrantAllow)
        \<or> vd_allow (domains_verdict v (wo_hostname origin)))
     \<and> \<not> (\<exists>g. concerns c fo g \<and> row_applies (nv_now v) (wo_hostname origin) (wo_port origin) g \<and> gr_decision g = GrantDeny)
     \<and> \<not> vd_deny (domains_verdict v (wo_hostname origin))"
proof -
  have m: "mode_for (folder_view v fo) (Some (tag_for_call c)) = ModeEnforce"
    using assms by (simp add: mode_for_def folder_view_def view_call_mode_def tag_reads_back)
  have "domains_verdict (folder_view v fo) h = domains_verdict v h" for h by (simp add: domains_verdict_def folder_view_def)
  then show ?thesis unfolding decide_enforced[OF m] by (auto simp: permits_def refuses_def says_for_call)
qed

definition once_run :: "folder_event list" where
  "once_run = pinned_run @ [FoTable (CallStash (tool ''a'') (Some 0) once_allow)]"

theorem decided_by_own_rows_witness:
  "fst (decide (folder_view quiet_view (folder_run ModeOff once_run)) (str ''k'') http_origin (Some (tag_for_call (tool ''a''))) decider_new) = DecideAllow"
proof -
  have "held_mode (tool ''a'') (fo_calls (folder_run ModeOff once_run)) = Some ModeEnforce" unfolding once_run_def pinned_run_def by code_simp
  note it = decided_by_own_rows[OF this, of quiet_view "str ''k''" http_origin decider_new]
  have "once_rows (tool ''a'') (fo_calls (folder_run ModeOff once_run)) = [once_allow]"
    "map_option en_live (fo_engaged (folder_run ModeOff once_run)) = Some \<lparr>lr_shared = [], lr_sessions = []\<rparr>"
    unfolding once_run_def pinned_run_def by code_simp+
  then have "concerns (tool ''a'') (folder_run ModeOff once_run) g \<longleftrightarrow> g = once_allow" for g
    by (auto simp: concerns_def simp del: folder_step.simps)
  moreover have "host_matches (str ''a.io'') (str ''a.io'')"
    by (subst matches_exact) (auto simp: str_def is_all_def split: option.splits)
  then have "row_applies (nv_now quiet_view) (wo_hostname http_origin) (wo_port http_origin) once_allow"
    by (simp add: row_applies_def once_allow_def http_origin_def is_live_def expires_at_def)
  moreover have "gr_decision once_allow = GrantAllow" by (simp add: once_allow_def)
  moreover have "\<not> vd_deny (domains_verdict quiet_view (wo_hostname http_origin))"
    by (simp add: domains_verdict_def domains_verdict_in_def quiet_view_def denied_web_fetch_domain_def)
  ultimately show ?thesis using it by (simp del: folder_step.simps)
qed



section \<open>Recording a grant\<close>

lemma engage_some: "\<exists>en. fo_engaged (engage e d fo) = Some en" and engage_calls [simp]: "fo_calls (engage e d fo) = fo_calls fo"
  by (auto simp: engage_def split: option.splits)

lemma once_upd: "once_rows c (upd_entry c' f t) = (if c = c' then (case entry_of t c of None \<Rightarrow> []
     | Some e \<Rightarrow> (case ce_spawn (f e) of Some spawn \<Rightarrow> cr_inherited_once spawn | None \<Rightarrow> []) @ (case ce_next (f e) of Some next \<Rightarrow> sg_once next | None \<Rightarrow> []))
   else once_rows c t)"
  by (auto simp: once_rows_def split: option.splits)

lemma stashed_rows:
  assumes "stash_once c epoch g t = (True, t')"
  shows "epoch = None \<or> epoch = epoch_of c t" "once_rows c' t' = once_rows c' t @ (if c' = c then [g] else [])"
proof -
  let ?f = "\<lambda>e. let next = get_or_default (ce_next e) in e\<lparr>ce_next := Some (next\<lparr>sg_once := sg_once next @ [g]\<rparr>)\<rparr>"
  obtain e where e: "entry_of t c = Some e" "epoch = None \<or> epoch = Some (ce_epoch e)" "t' = upd_entry c ?f t"
    using assms by (auto simp: stash_once_def split: option.splits if_splits)
  show "epoch = None \<or> epoch = epoch_of c t" using e by (auto simp: epoch_of_def)
  show "once_rows c' t' = once_rows c' t @ (if c' = c then [g] else [])"
    unfolding e(3) once_upd using e(1) by (cases "ce_next e") (simp_all add: once_rows_def Let_def get_or_default_def settling_default_def)
qed

lemma stash_refused: "stash_once c epoch g t = (False, t') \<Longrightarrow> t' = t"
  by (auto simp: stash_once_def split: option.splits if_splits)

lemma edit_error: "edit_rows_locked e rules now mode edit p f = (Inl err, p', f') \<Longrightarrow> p' = p \<and> f' = f"
  by (auto simp: edit_rows_locked_def Let_def split: if_splits sum.splits prod.splits bool.splits option.splits)

text \<open>
  A row in a rows file: the rows the store reads there, the granted row in its stored form after them, those that
  are live written back as the file and kept as the store's copy of it.
\<close>

definition stored_form :: "row_rules \<Rightarrow> int \<Rightarrow> grant \<Rightarrow> grant" where
  "stored_form rules now g = clamp_granted_at now (g\<lparr>gr_subject := canonical_subject (rr_fs rules) (gr_subject g)\<rparr>)"

definition row_appended :: "store_env \<Rightarrow> row_rules \<Rightarrow> int \<Rightarrow> grant \<Rightarrow> rows_file \<Rightarrow> persisted_rows \<Rightarrow> rows_file \<Rightarrow> bool" where
  "row_appended e rules now g f p' f' \<longleftrightarrow> (\<exists>rows contents.
     parse_grant_rows e rules now (rf_read f) = Inr rows
     \<and> se_toml_print e (filter (is_live now) (rows @ [stored_form rules now g])) = Some contents
     \<and> p' = \<lparr>pr_signature = se_new_signature e, pr_rows = Some (filter (is_live now) (rows @ [stored_form rules now g]))\<rparr>
     \<and> f' = \<lparr>rf_read = ReadText contents, rf_signature = se_new_signature e\<rparr>)"

lemma edit_push:
  "edit_rows_locked e rules now StoreCreate (\<lambda>rows. (True, rows @ [stored_form rules now g])) p f = (Inr b, p', f')
    \<Longrightarrow> row_appended e rules now g f p' f'"
  by (auto simp: edit_rows_locked_def row_appended_def Let_def split: if_splits sum.splits option.splits)

lemma store_add_result:
  assumes "store_add e rules now g st d = (r, st', d')"
  shows "case r of Inl _ \<Rightarrow> st' = st \<and> d' = d
    | Inr gid \<Rightarrow> gid = gr_id g \<and> refused_subject rules (gr_subject g) = None
        \<and> (case gr_scope g of
             ScopeWorkspace _ \<Rightarrow> (\<exists>p f. st' = st\<lparr>gs_workspace := p\<rparr> \<and> d' = d\<lparr>gd_workspace := f\<rparr>
               \<and> row_appended e rules now g (gd_workspace d) p f)
           | ScopeGlobal \<Rightarrow> (\<exists>p f. st' = st\<lparr>gs_global := p\<rparr> \<and> d' = d\<lparr>gd_global := f\<rparr>
               \<and> row_appended e rules now g (gd_global d) p f)
           | _ \<Rightarrow> False)"
proof (cases "refused_subject rules (gr_subject g)")
  case None
  have sc: "gr_scope (stored_form rules now g) = gr_scope g" "gr_id (stored_form rules now g) = gr_id g"
    by (simp_all add: stored_form_def clamp_granted_at_def)
  show ?thesis
    using assms None sc unfolding store_add_def stored_form_def[symmetric] Let_def
    by (auto split: grant_scope.splits prod.splits sum.splits dest!: edit_error edit_push)
qed (use assms in \<open>auto simp: store_add_def\<close>)

lemma add_session_result:
  "add_session rules now session g st = (r, st') \<Longrightarrow> (case r of Inl _ \<Rightarrow> st' = st
     | Inr gid \<Rightarrow> gid = gr_id g \<and> refused_subject rules (gr_subject g) = None
         \<and> st' = st\<lparr>gs_session := gs_session st @ [(session, stored_form rules now g)]\<rparr>)"
  by (auto simp: add_session_def stored_form_def Let_def clamp_granted_at_def split: option.splits if_splits)

lemma record_grant_cases:
  fixes e :: grant_env and fo :: folder and d :: grant_disk
  defines "fo0 \<equiv> engage e d fo"
  shows "case record_grant e c epoch session g fo d of
     (Inl _, fo', d') \<Rightarrow> fo' = fo0 \<and> d' = d
   | (Inr gid, fo', d') \<Rightarrow> gid = gr_id g \<and> refused_subject (ge_rules e) (gr_subject g) = None
       \<and> \<not> (gr_decision g = GrantAllow \<and> deny_row_covers (ge_rules e) (ge_now e) (Some session) (gr_subject g) fo0)
       \<and> (case gr_scope g of
            ScopeCall \<Rightarrow> d' = d \<and> (epoch = None \<or> epoch = epoch_of c (fo_calls fo))
              \<and> (\<forall>c'. once_rows c' (fo_calls fo') = once_rows c' (fo_calls fo) @ (if c' = c then [g] else []))
              \<and> map_option en_store (fo_engaged fo') = map_option en_store (fo_engaged fo0)
          | ScopeSession \<Rightarrow> d' = d \<and> fo_calls fo' = fo_calls fo
              \<and> (\<exists>en. fo_engaged fo0 = Some en \<and> fo_engaged fo' = Some (refresh_live (ge_now e) (en\<lparr>en_store :=
                    (en_store en)\<lparr>gs_session := gs_session (en_store en) @ [(session, stored_form (ge_rules e) (ge_now e) g)]\<rparr>\<rparr>)))
          | ScopeWorkspace _ \<Rightarrow> fo_calls fo' = fo_calls fo
              \<and> (\<exists>en p f. d' = d\<lparr>gd_workspace := f\<rparr> \<and> fo_engaged fo0 = Some en
                  \<and> fo_engaged fo' = Some (refresh_live (ge_now e) (en\<lparr>en_store := (en_store en)\<lparr>gs_workspace := p\<rparr>\<rparr>))
                  \<and> row_appended (ge_store e) (ge_rules e) (ge_now e) g (gd_workspace d) p f)
          | ScopeGlobal \<Rightarrow> fo_calls fo' = fo_calls fo
              \<and> (\<exists>en p f. d' = d\<lparr>gd_global := f\<rparr> \<and> fo_engaged fo0 = Some en
                  \<and> fo_engaged fo' = Some (refresh_live (ge_now e) (en\<lparr>en_store := (en_store en)\<lparr>gs_global := p\<rparr>\<rparr>))
                  \<and> row_appended (ge_store e) (ge_rules e) (ge_now e) g (gd_global d) p f))"
proof -
  obtain en where en: "fo_engaged fo0 = Some en" using engage_some[of e d fo] by (auto simp: fo0_def)
  have calls: "fo_calls fo0 = fo_calls fo" by (simp add: fo0_def)
  have kept: "keep_store (en_store en) fo0 = fo0" using en by (simp add: keep_store_def)
  obtain added st1 d1 where a: "store_add (ge_store e) (ge_rules e) (ge_now e) g (en_store en) d = (added, st1, d1)" by (metis prod.collapse)
  obtain ses st2 where b: "add_session (ge_rules e) (ge_now e) session g (en_store en) = (ses, st2)" by (metis prod.collapse)
  obtain stashed t where s: "stash_once c epoch g (fo_calls fo0) = (stashed, t)" by (metis prod.collapse)
  show ?thesis
  proof (cases "gr_decision g = GrantAllow \<and> deny_row_covers (ge_rules e) (ge_now e) (Some session) (gr_subject g) fo0")
    case True
    then show ?thesis by (simp add: record_grant_def Let_def flip: fo0_def)
  next
    case nd: False
    show ?thesis
    proof (cases "gr_scope g")
      case ScopeCall
      show ?thesis
      proof (cases stashed)
        case True
        then show ?thesis using nd ScopeCall s en calls stashed_rows[of c epoch g "fo_calls fo0" t]
          by (auto simp: record_grant_def Let_def set_store_def refresh_live_def simp flip: fo0_def split: option.splits)
      next
        case False
        then show ?thesis using nd ScopeCall s stash_refused[of c epoch g "fo_calls fo0" t]
          by (auto simp: record_grant_def Let_def simp flip: fo0_def split: option.splits)
      qed
    next
      case ScopeSession
      then show ?thesis using nd b en calls kept add_session_result[OF b]
        by (auto simp: record_grant_def Let_def stored_grant_def set_store_def refresh_live_def simp flip: fo0_def split: sum.splits)
    next
      case (ScopeWorkspace w)
      then show ?thesis using nd a en calls kept store_add_result[OF a]
        by (auto simp: record_grant_def Let_def stored_grant_def set_store_def refresh_live_def simp flip: fo0_def split: sum.splits)
    next
      case ScopeGlobal
      then show ?thesis using nd a en calls kept store_add_result[OF a]
        by (auto simp: record_grant_def Let_def stored_grant_def set_store_def refresh_live_def simp flip: fo0_def split: sum.splits)
    qed
  qed
qed

text \<open>
  C12: A grant is recorded in full or not at all. When recording is refused, the calls, the rows in effect, the store and
  the files are as they were. When it succeeds, its subject passes the store's own rules, no live deny row of the
  session covers an allow, and it took effect where its scope says and nowhere else: once, for this call alone and
  only if the call is still in the epoch the card was raised under; for the session, as a row of that session; for
  the workspace or for every folder, as the last of the live rows of that scope's file, which is written out anew and
  whose rows the store now holds, with the other file, every session's rows and every call's rows untouched. A row
  is stored with its path in canonical spelling and a grant time that is not in the future, and the rows in
  effect are recomputed from the changed store.
\<close>

theorem grant_recorded_or_refused:
  fixes e :: grant_env and fo :: folder and d :: grant_disk
  defines "fo0 \<equiv> engage e d fo"
  shows "case record_grant e c epoch session g fo d of
     (Inl _, fo', d') \<Rightarrow> fo' = fo0 \<and> d' = d
   | (Inr gid, fo', d') \<Rightarrow> gid = gr_id g \<and> refused_subject (ge_rules e) (gr_subject g) = None
       \<and> \<not> (gr_decision g = GrantAllow \<and> deny_row_covers (ge_rules e) (ge_now e) (Some session) (gr_subject g) fo0)
       \<and> (case gr_scope g of
            ScopeCall \<Rightarrow> d' = d \<and> (epoch = None \<or> epoch = epoch_of c (fo_calls fo))
              \<and> (\<forall>c'. once_rows c' (fo_calls fo') = once_rows c' (fo_calls fo) @ (if c' = c then [g] else []))
              \<and> map_option en_store (fo_engaged fo') = map_option en_store (fo_engaged fo0)
          | ScopeSession \<Rightarrow> d' = d \<and> fo_calls fo' = fo_calls fo
              \<and> (\<exists>en. fo_engaged fo0 = Some en \<and> fo_engaged fo' = Some (refresh_live (ge_now e) (en\<lparr>en_store :=
                    (en_store en)\<lparr>gs_session := gs_session (en_store en) @ [(session, stored_form (ge_rules e) (ge_now e) g)]\<rparr>\<rparr>)))
          | ScopeWorkspace _ \<Rightarrow> fo_calls fo' = fo_calls fo
              \<and> (\<exists>en p f. d' = d\<lparr>gd_workspace := f\<rparr> \<and> fo_engaged fo0 = Some en
                  \<and> fo_engaged fo' = Some (refresh_live (ge_now e) (en\<lparr>en_store := (en_store en)\<lparr>gs_workspace := p\<rparr>\<rparr>))
                  \<and> row_appended (ge_store e) (ge_rules e) (ge_now e) g (gd_workspace d) p f)
          | ScopeGlobal \<Rightarrow> fo_calls fo' = fo_calls fo
              \<and> (\<exists>en p f. d' = d\<lparr>gd_global := f\<rparr> \<and> fo_engaged fo0 = Some en
                  \<and> fo_engaged fo' = Some (refresh_live (ge_now e) (en\<lparr>en_store := (en_store en)\<lparr>gs_global := p\<rparr>\<rparr>))
                  \<and> row_appended (ge_store e) (ge_rules e) (ge_now e) g (gd_global d) p f))"
  unfolding fo0_def by (rule record_grant_cases)

end
