(* ===== verification/Card_Props.thy ===== *)
theory Card_Props
  imports Card_Gate Sandbox_Handlers_Props
begin

text \<open>
  Cards and their answers: a reply never gives more than its card offered, a settlement lets a command run again only on
  an allow that was recorded, and a shell call is dispatched at most twice.
\<close>


section \<open>What an answer can give\<close>

text \<open>
  A subject no wider than the one a card offered for what was blocked. A host answer is for the port the blocked
  connection used; only an answer for the whole network, to a card that offered every host, is for every port.
\<close>

definition folder_no_wider :: "fs \<Rightarrow> proposal_bounds \<Rightarrow> grant_subject \<Rightarrow> ustring \<Rightarrow> ustring \<Rightarrow> bool" where
  "folder_no_wider w bounds offered path root \<longleftrightarrow> is_absolute root \<and> \<not> is_too_broad root bounds \<and> is_within (canonical_path w path) root
     \<and> (case offered of
          FsWriteRoot dir \<Rightarrow> is_within root (fold_dots dir)
        | FsRead dir \<Rightarrow> is_within root (fold_dots dir)
        | BuildCaches \<Rightarrow> (\<exists>home tree. pb_user_home bounds = Some home \<and> tree \<in> set BUILD_CACHE_TREES \<and> is_within root (path_join (canonical_path w home) tree))
        | NetHost _ _ \<Rightarrow> False)"

definition host_no_wider :: "grant_subject \<Rightarrow> ustring option \<Rightarrow> host_pattern \<Rightarrow> bool" where
  "host_no_wider offered host pattern \<longleftrightarrow> (case host of Some h \<Rightarrow> host_matches pattern h | None \<Rightarrow> is_all pattern)
     \<and> (\<exists>q port. offered = NetHost q port \<and> (\<forall>h. 42 \<notin> set h \<longrightarrow> host_matches pattern h \<longrightarrow> host_matches q h))"

definition no_wider :: "fs \<Rightarrow> proposal_bounds \<Rightarrow> blocked \<Rightarrow> grant_subject \<Rightarrow> grant_subject \<Rightarrow> bool" where
  "no_wider w bounds b offered subject \<longleftrightarrow> subject = offered \<or> (case (subject, b) of
       (FsWriteRoot root, BlFsWrite path) \<Rightarrow> folder_no_wider w bounds offered path root
     | (FsRead root, BlFsRead path) \<Rightarrow> folder_no_wider w bounds offered path root
     | (NetHost pattern port, BlNet host held) \<Rightarrow> host_no_wider offered host pattern
         \<and> (port = held \<or> port = None \<and> is_all pattern \<and> (\<exists>offered_port. offered = NetHost (str ''*'') offered_port))
     | _ \<Rightarrow> False)"

lemma held_to_violation_subject: "held_to_violation w bounds v s = AnsweredSubject s' \<Longrightarrow> s' = s \<and> tied_to_violation w s v bounds
     \<and> (case s of FsWriteRoot r \<Rightarrow> is_absolute r \<and> \<not> is_too_broad r bounds | FsRead r \<Rightarrow> is_absolute r \<and> \<not> is_too_broad r bounds | _ \<Rightarrow> True)"
  by (auto simp: held_to_violation_def Let_def split: if_splits grant_subject.splits)

lemma tied_folder:
  assumes "tied_to_violation w s v bounds" "vi_proposed v = Some offered" "is_absolute root" "\<not> is_too_broad root bounds"
    "s = FsWriteRoot root \<and> vi_blocked v = BlFsWrite path \<or> s = FsRead root \<and> vi_blocked v = BlFsRead path"
  shows "folder_no_wider w bounds offered path root"
  using assms by (auto simp: tied_to_violation_def folder_no_wider_def Let_def list_ex_iff split: grant_subject.splits option.splits)

lemma tied_host:
  assumes "tied_to_violation w (NetHost pattern port) v bounds" "vi_proposed v = Some offered" "vi_blocked v = BlNet host held"
  shows "host_no_wider offered host pattern" "is_all pattern \<Longrightarrow> \<exists>p. offered = NetHost (str ''*'') p"
proof -
  show "host_no_wider offered host pattern"
    using assms covered_matches[of pattern]
    by (auto simp: tied_to_violation_def host_no_wider_def Let_def split: grant_subject.splits option.splits)
  obtain q p where "offered = NetHost q p" "is_covered_by pattern q"
    using assms by (auto simp: tied_to_violation_def Let_def split: grant_subject.splits)
  then show "is_all pattern \<Longrightarrow> \<exists>p. offered = NetHost (str ''*'') p" by (auto simp: is_covered_by_def is_all_def split: if_splits)
qed

lemma answered_cases:
  assumes "answered_subject w r v bounds = AnsweredSubject s"
  obtains (Write) root path where "s = FsWriteRoot root" "vi_blocked v = BlFsWrite path" "tied_to_violation w s v bounds"
      "is_absolute root" "\<not> is_too_broad root bounds"
    | (Read) root path where "s = FsRead root" "vi_blocked v = BlFsRead path" "tied_to_violation w s v bounds"
      "is_absolute root" "\<not> is_too_broad root bounds"
    | (Net) pattern port host held where "s = NetHost pattern port" "vi_blocked v = BlNet host held" "tied_to_violation w s v bounds"
      "port = held \<or> port = None \<and> is_all pattern"
    | (Caches) "s = BuildCaches" "vi_proposed v = Some BuildCaches"
proof -
  have "is_all (str ''*'')" by (simp add: is_all_def)
  then show thesis using assms Write Read Net Caches
    by (auto simp: answered_subject_def Let_def split: option.splits reply_scope_kind.splits blocked.splits if_splits dest!: held_to_violation_subject)
qed

lemma answered_no_wider:
  assumes "answered_subject w r v bounds = AnsweredSubject s" "vi_proposed v = Some offered"
  shows "no_wider w bounds (vi_blocked v) offered s"
  using assms(1)
proof (cases rule: answered_cases)
  case (Write root path)
  then show ?thesis using tied_folder[OF Write(3) assms(2) Write(4,5)] by (simp add: no_wider_def)
next
  case (Read root path)
  then show ?thesis using tied_folder[OF Read(3) assms(2) Read(4,5)] by (simp add: no_wider_def)
next
  case (Net pattern port host held)
  then show ?thesis using tied_host[OF _ assms(2) Net(2), of w pattern port bounds] by (auto simp: no_wider_def)
qed (use assms(2) in \<open>simp add: no_wider_def\<close>)

lemma clamped:
  assumes "clamp_expiry asked scope cl now = Some expires"
  shows "if scope = OfferCall \<or> scope = OfferSession then expires = ExpireNever
     else (case expires of ExpireTtl s \<Rightarrow> 0 < s \<and> s \<le> MAX_PERSISTED_TTL_SECONDS
       | ExpireAt t \<Rightarrow> now < t \<and> t \<le> now + int MAX_PERSISTED_TTL_SECONDS | ExpireNever \<Rightarrow> offers_never cl)"
  using assms by (auto simp: clamp_expiry_def Let_def MAX_PERSISTED_TTL_SECONDS_def i64_sat_add_def split: option.splits expiry.splits if_splits)

lemma strongest_offered:
  assumes "strongest_scope cl = Some s"
  shows "s \<in> set (cl_scopes cl)"
proof -
  have "fold max ss s \<in> set (s # ss)" for s :: offered_scope and ss
    by (induction ss arbitrary: s) (auto simp: max_def split: if_splits)
  then show ?thesis using assms by (auto simp: strongest_scope_def simp del: set_simps split: list.splits)
qed

lemma ceiling_scopes:
  assumes "s \<in> set (cl_scopes (for_violation policy v))"
  shows "is_grantable v" "policy = AlwaysPrompt \<Longrightarrow> s = OfferCall" "s = OfferGlobal \<Longrightarrow> policy = UnattendedAllowed"
  using assms by (auto simp: for_violation_def deny_only_def Let_def split: if_splits)

lemma ceiling_never: "offers_never (for_violation policy v) \<Longrightarrow> policy = UnattendedAllowed"
  by (auto simp: for_violation_def offers_never_def deny_only_def Let_def split: if_splits)

lemma into_scope_simps [simp]:
  "into_grant_scope root s = ScopeCall \<longleftrightarrow> s = OfferCall" "into_grant_scope root s = ScopeSession \<longleftrightarrow> s = OfferSession"
  "into_grant_scope root s = ScopeWorkspace x \<longleftrightarrow> s = OfferWorkspace \<and> x = root" "into_grant_scope root s = ScopeGlobal \<longleftrightarrow> s = OfferGlobal"
  "is_persisted (into_grant_scope root s) \<longleftrightarrow> \<not> (s = OfferCall \<or> s = OfferSession)"
  by (auto simp: into_grant_scope_def is_persisted_def split: offered_scope.splits)

text \<open>Every scope weaker than an offered one is offered.\<close>

lemma ceiling_down: "a \<in> set (cl_scopes (for_violation policy v)) \<Longrightarrow> b \<le> a \<Longrightarrow> b \<in> set (cl_scopes (for_violation policy v))"
  by (cases a; cases b; cases policy) (auto simp: for_violation_def deny_only_def less_eq_offered_scope_def offer_rank_def Let_def split: if_splits)

lemma clamped_scope:
  assumes "strongest_scope (for_violation policy v) = Some strongest"
  shows "(if asked \<in> set (cl_scopes (for_violation policy v)) then asked else min strongest asked) \<in> set (cl_scopes (for_violation policy v))"
  using ceiling_down[OF strongest_offered[OF assms], of "min strongest asked"] by simp

definition allow_of :: "sandbox_reply \<Rightarrow> card_outcome \<Rightarrow> ceiling \<Rightarrow> offered_scope \<Rightarrow> offered_scope" where
  "allow_of r oc cl strongest = (let asked = (case sr_duration r of Some x \<Rightarrow> x | None \<Rightarrow> if oc = AlwaysApprove then strongest else OfferCall)
     in if asked \<in> set (cl_scopes cl) then asked else min strongest asked)"

lemma decoded_allow:
  assumes "decode_reply w r v cl bounds now = AnswerAllow subject scope expires"
  shows "\<exists>strongest oc. strongest_scope cl = Some strongest \<and> sr_outcome r = Some oc \<and> oc \<in> {Approve, AlwaysApprove}
     \<and> scope = into_grant_scope (pb_workspace_root bounds) (allow_of r oc cl strongest)
     \<and> clamp_expiry (sr_expires r) (allow_of r oc cl strongest) cl now = Some expires \<and> carries_sandbox_decision r
     \<and> (answered_subject w r v bounds = AnsweredSubject subject \<or> vi_proposed v = Some subject)"
proof -
  have "sr_outcome r = Some Approve \<or> sr_outcome r = Some AlwaysApprove"
    using assms unfolding decode_reply_def Let_def by (simp split: option.splits card_outcome.splits if_splits)
  then show ?thesis using assms unfolding decode_reply_def Let_def allow_of_def
    by (elim disjE) (simp_all split: option.splits if_splits answered.splits)
qed

text \<open>
  C13: What an allow can give. When a reply decodes to an allow, it said so outright and named a sandbox scope; the
  violation was grantable; the subject is the one offered, or a folder that is absolute, not too broad, holds the
  blocked path and lies inside the folder offered (or in a build-cache tree), or a host pattern that matches the
  blocked host and no host the offer does not, on the port of the blocked connection; the scope is one the tenant's
  policy lets a card offer; and a persisted row lasts for at least a moment and at most a week, unless the policy
  allows unattended grants. The port an offer names is not looked at: to a card that offers every host, on whatever
  port, an answer for the whole network gives every port.
\<close>

theorem answer_within_offer:
  assumes "decode_reply w r v (for_violation policy v) bounds now = AnswerAllow subject scope expires"
  shows "(sr_outcome r = Some Approve \<or> sr_outcome r = Some AlwaysApprove) \<and> carries_sandbox_decision r
    \<and> vi_disposition v = Grantable \<and> (\<exists>offered. vi_proposed v = Some offered \<and> no_wider w bounds (vi_blocked v) offered subject)
    \<and> (policy = AlwaysPrompt \<longrightarrow> scope = ScopeCall) \<and> (scope = ScopeGlobal \<longrightarrow> policy = UnattendedAllowed)
    \<and> (\<forall>root. scope = ScopeWorkspace root \<longrightarrow> root = pb_workspace_root bounds)
    \<and> (if is_persisted scope
       then (case expires of ExpireTtl seconds \<Rightarrow> 0 < seconds \<and> seconds \<le> MAX_PERSISTED_TTL_SECONDS
              | ExpireAt t \<Rightarrow> now < t \<and> t \<le> now + int MAX_PERSISTED_TTL_SECONDS
              | ExpireNever \<Rightarrow> policy = UnattendedAllowed)
       else expires = ExpireNever)"
proof -
  obtain strongest oc where d: "strongest_scope (for_violation policy v) = Some strongest" "sr_outcome r = Some oc" "oc \<in> {Approve, AlwaysApprove}"
      "scope = into_grant_scope (pb_workspace_root bounds) (allow_of r oc (for_violation policy v) strongest)"
      "clamp_expiry (sr_expires r) (allow_of r oc (for_violation policy v) strongest) (for_violation policy v) now = Some expires"
      "carries_sandbox_decision r" "answered_subject w r v bounds = AnsweredSubject subject \<or> vi_proposed v = Some subject"
    using decoded_allow[OF assms] by blast
  define s where "s = allow_of r oc (for_violation policy v) strongest"
  have "s \<in> set (cl_scopes (for_violation policy v))" unfolding s_def allow_of_def Let_def by (rule clamped_scope[OF d(1)])
  note c = ceiling_scopes[OF this]
  obtain offered where o: "vi_proposed v = Some offered" "vi_disposition v = Grantable" using c(1) by (auto simp: is_grantable_def)
  have n: "no_wider w bounds (vi_blocked v) offered subject"
    using d(7) answered_no_wider[OF _ o(1)] o(1) by (auto simp: no_wider_def)
  have "if is_persisted scope
       then (case expires of ExpireTtl seconds \<Rightarrow> 0 < seconds \<and> seconds \<le> MAX_PERSISTED_TTL_SECONDS
              | ExpireAt t \<Rightarrow> now < t \<and> t \<le> now + int MAX_PERSISTED_TTL_SECONDS
              | ExpireNever \<Rightarrow> policy = UnattendedAllowed)
       else expires = ExpireNever"
    using clamped[OF d(5)] ceiling_never unfolding d(4) by (auto split: expiry.splits if_splits)
  then show ?thesis using d(2,3,6) o n c(2,3) unfolding d(4) s_def[symmetric] by auto
qed

definition held_card :: violation where
  "held_card = network_violation (str ''a.io'') 443 (str ''h'')"

definition week_reply :: sandbox_reply where
  "week_reply = reply_default\<lparr>sr_outcome := Some AlwaysApprove, sr_scope := Some (RsNetHost, Some (str ''a.io:443'')), sr_duration := Some OfferGlobal,
     sr_expires := Some ExpireNever\<rparr>"

definition card_bounds :: proposal_bounds where
  "card_bounds = \<lparr>pb_workspace_root = str ''/w'', pb_user_home = None\<rparr>"

lemma host_answer_tied:
  assumes "sr_scope r = Some (RsNetHost, Some (str ''a.io:443''))" "vi_blocked v = vi_blocked held_card" "vi_proposed v = vi_proposed held_card"
  shows "answered_subject w r v bounds = AnsweredSubject (NetHost (str ''a.io'') (Some 443))"
proof -
  have port: "net_host_value (str ''a.io:443'') (Some 443) = Some (str ''a.io'')"
    by (simp add: net_host_value_def split_host_port_def split_once_def str_def parse_u16_def parse_u64_def digits_value_def is_ascii_digit_def)
  have m: "host_matches (str ''a.io'') (str ''a.io'')" by (subst matches_exact) (auto simp: str_def is_all_def split: option.splits)
  have c: "is_covered_by (str ''a.io'') (str ''a.io'')" using m by (simp add: is_covered_by_def is_all_def str_def)
  show ?thesis using assms port m c
    by (simp add: answered_subject_def held_card_def network_violation_def held_to_violation_def tied_to_violation_def Let_def str_def)
qed

lemma week_reply_allows:
  "decode_reply w week_reply held_card (for_violation GrantsAllowed held_card) card_bounds 5
     = AnswerAllow (NetHost (str ''a.io'') (Some 443)) (ScopeWorkspace (str ''/w'')) (ExpireTtl MAX_PERSISTED_TTL_SECONDS)"
proof -
  have cl: "for_violation GrantsAllowed held_card = \<lparr>cl_scopes = [OfferCall, OfferSession, OfferWorkspace], cl_expiries = map ExpireTtl OFFERED_TTLS_SECONDS\<rparr>"
    by (simp add: for_violation_def held_card_def network_violation_def is_grantable_def Let_def)
  have "strongest_scope (for_violation GrantsAllowed held_card) = Some OfferWorkspace" "min OfferWorkspace OfferGlobal = OfferWorkspace"
    by (simp_all add: cl strongest_scope_def min_def max_def less_eq_offered_scope_def offer_rank_def)
  then show ?thesis using host_answer_tied[of week_reply held_card w card_bounds]
    by (simp add: decode_reply_def Let_def cl week_reply_def carries_sandbox_decision_def clamp_expiry_def offers_never_def into_grant_scope_def
        card_bounds_def OFFERED_TTLS_SECONDS_def)
qed

text \<open>A reply that asks for every folder and for good gets the folder served, for a week.\<close>

theorem answer_within_offer_witness:
  "no_wider (rr_fs empty_rules) card_bounds (vi_blocked held_card) (NetHost (str ''a.io'') None) (NetHost (str ''a.io'') (Some 443))"
  using answer_within_offer[OF week_reply_allows[of "rr_fs empty_rules"]] by (simp add: held_card_def network_violation_def)


section \<open>Settling\<close>

text \<open>What a card's reply decodes to.\<close>

definition card_answer :: "card_env \<Rightarrow> settle_context \<Rightarrow> violation \<Rightarrow> sandbox_reply option \<Rightarrow> sandbox_answer" where
  "card_answer x ctx v outer = decode_reply (rr_fs (ge_rules (ca_grants x))) (reply_parse (ca_from_str x) outer) v (for_violation (sx_policy ctx) v)
     (ca_bounds x) (ge_now (ca_grants x))"

lemma before_card_settled: "settle_before_card rules now ctx v transport fo = Inl s \<Longrightarrow> \<exists>den. s = SettledDenied den \<or> s = SettledRecorded"
  by (auto simp: settle_before_card_def Let_def split: if_splits option.splits)

lemma before_card_asks:
  "settle_before_card rules now ctx v transport fo = Inr cl \<Longrightarrow> cl = for_violation (sx_policy ctx) v \<and> produces_card v \<and> transport
     \<and> sx_replayed_under ctx = None \<and> (\<forall>subject. row_subject v = Some subject \<longrightarrow> \<not> deny_row_covers rules now (Some (sx_session_id ctx)) subject fo)"
  by (auto simp: settle_before_card_def Let_def split: if_splits option.splits)

text \<open>The folder after a settlement that did not allow: untouched, with its rows read from the
  files at most, or with the refusal recorded as a deny row.\<close>

definition refusal_kept :: "card_env \<Rightarrow> settle_context \<Rightarrow> violation \<Rightarrow> folder \<times> grant_disk \<Rightarrow> folder \<times> grant_disk \<Rightarrow> bool" where
  "refusal_kept x ctx v now after \<longleftrightarrow> after = now \<or> after = (engage (ca_grants x) (snd now) (fst now), snd now)
     \<or> (\<exists>g. gr_decision g = GrantDeny \<and> vi_proposed v = Some (gr_subject g)
     \<and> gr_scope g \<in> {ScopeCall, ScopeWorkspace (pb_workspace_root (ca_bounds x))}
     \<and> after = snd (record_grant (ca_grants x) (sx_call ctx) (sx_epoch ctx) (sx_session_id ctx) g (fst now) (snd now)))"

lemma deny_row_kept:
  assumes "scope \<in> {ScopeCall, ScopeWorkspace (pb_workspace_root (ca_bounds x))}"
  shows "refusal_kept x ctx v (fo, d) (record_deny_row (ca_grants x) ctx v scope fresh fo d)"
proof (cases "vi_proposed v")
  case (Some subject)
  let ?g = "new_grant ctx fresh subject scope (if is_persisted scope then ExpireTtl MAX_PERSISTED_TTL_SECONDS else ExpireNever) GrantDeny (ge_now (ca_grants x))"
  have "gr_decision ?g = GrantDeny" "gr_subject ?g = subject" "gr_scope ?g = scope" by (simp_all add: new_grant_def)
  then show ?thesis using assms Some unfolding refusal_kept_def record_deny_row_def Let_def by (metis fst_conv option.simps(5) snd_conv)
qed (simp add: refusal_kept_def record_deny_row_def)

lemma deny_scope_is: "deny_scope bounds v always = Some scope \<Longrightarrow> scope \<in> {ScopeCall, ScopeWorkspace (pb_workspace_root bounds)}"
  by (auto simp: deny_scope_def split: if_splits replay_how.splits)

lemma refusal_refl [simp]: "refusal_kept x ctx v at_card at_card"
  by (simp add: refusal_kept_def)

lemma settle_allow:
  fixes x :: card_env and ctx :: settle_context and fo :: folder and d :: grant_disk
  defines "e \<equiv> ca_grants x"
  assumes "settle_answer e (ca_bounds x) ctx v fresh (AnswerAllow subject scope expires) fo d = (s, fo', d')"
  shows "case s of SettledReplay g \<Rightarrow> g = new_grant ctx fresh subject scope expires GrantAllow (ge_now e)
        \<and> (\<exists>fo2. record_grant e (sx_call ctx) (sx_epoch ctx) (sx_session_id ctx) g fo d = (Inr (gr_id g), fo2, d')
             \<and> fo' = (if vi_replay v = Rerun then fo2\<lparr>fo_calls := mark_replay (sx_call ctx) subject (fo_calls fo2)\<rparr> else fo2))
     | _ \<Rightarrow> refusal_kept x ctx v (fo, d) (fo', d')"
proof -
  let ?g = "new_grant ctx fresh subject scope expires GrantAllow (ge_now e)"
  obtain r fo1 d1 where r: "record_grant e (sx_call ctx) (sx_epoch ctx) (sx_session_id ctx) ?g fo d = (r, fo1, d1)" by (metis prod.collapse)
  then show ?thesis using record_grant_cases[where e = e and c = "sx_call ctx" and epoch = "sx_epoch ctx" and session = "sx_session_id ctx" and g = ?g and fo = fo and d = d] assms(2)
    by (cases r) (auto simp: settle_answer_def Let_def refusal_kept_def e_def)
qed

lemma settle_refused:
  assumes "settle_answer (ca_grants x) (ca_bounds x) ctx v fresh answer fo d = (s, fo', d')" "\<nexists>subject scope expires. answer = AnswerAllow subject scope expires"
  shows "(\<exists>den. s = SettledDenied den) \<and> refusal_kept x ctx v (fo, d) (fo', d')"
proof (cases answer)
  case (AnswerDeny followup always)
  show ?thesis
  proof (cases "deny_scope (ca_bounds x) v always")
    case (Some scope)
    then show ?thesis using assms(1) AnswerDeny deny_row_kept[OF deny_scope_is[OF Some], of ctx v fo d fresh]
      by (auto simp: settle_answer_def split: if_splits prod.splits)
  qed (use assms(1) AnswerDeny in \<open>auto simp: settle_answer_def\<close>)
qed (use assms in \<open>auto simp: settle_answer_def\<close>)

lemma settlement_cases:
  fixes x :: card_env and ctx :: settle_context and v :: violation and fo :: folder and d :: grant_disk
  defines "e \<equiv> ca_grants x" and "at_reply \<equiv> ca_meanwhile x (fo, d)"
  shows "case settle_violation x ctx v fo d of
     (SettledReplay g, fo', d') \<Rightarrow>
       sx_replayed_under ctx = None
       \<and> (case row_subject v of Some subject \<Rightarrow> \<not> deny_row_covers (ge_rules e) (ca_now x) (Some (sx_session_id ctx)) subject fo | None \<Rightarrow> True)
       \<and> (\<exists>outer. ca_reply x = CardReplied outer \<and> card_answer x ctx v outer = AnswerAllow (gr_subject g) (gr_scope g) (gr_expires g))
       \<and> gr_decision g = GrantAllow
       \<and> (\<exists>fo2. record_grant e (sx_call ctx) (sx_epoch ctx) (sx_session_id ctx) g (fst at_reply) (snd at_reply) = (Inr (gr_id g), fo2, d')
            \<and> fo' = (if vi_replay v = Rerun then fo2\<lparr>fo_calls := mark_replay (sx_call ctx) (gr_subject g) (fo_calls fo2)\<rparr> else fo2))
   | (_, fo', d') \<Rightarrow> (fo', d') = (fo, d) \<or> refusal_kept x ctx v at_reply (fo', d')"
proof (cases "settle_before_card (ge_rules e) (ca_now x) ctx v (ca_reply x \<noteq> CardNoTransport) fo")
  case (Inl s)
  then show ?thesis using before_card_settled[OF Inl] by (auto simp: settle_violation_def e_def)
next
  case (Inr cl)
  note b = before_card_asks[OF Inr]
  obtain fo1 d1 where m: "at_reply = (fo1, d1)" by (cases at_reply)
  show ?thesis
  proof (cases "ca_reply x")
    case (CardReplied outer)
    let ?a = "card_answer x ctx v outer"
    obtain s fo' d' where r: "settle_answer e (ca_bounds x) ctx v (ca_fresh x) ?a fo1 d1 = (s, fo', d')" by (metis prod.collapse)
    have sv: "settle_violation x ctx v fo d = (s, fo', d')"
      using Inr CardReplied b r m by (simp add: settle_violation_def card_answer_def Let_def flip: e_def at_reply_def)
    show ?thesis
    proof (cases "\<exists>subject scope expires. ?a = AnswerAllow subject scope expires")
      case True
      then obtain subject scope expires where a: "?a = AnswerAllow subject scope expires" by blast
      show ?thesis using settle_allow[OF r[unfolded a e_def]] b a sv m CardReplied
        by (cases s) (auto simp: new_grant_def e_def split: option.splits)
    next
      case False
      then show ?thesis using settle_refused[OF r[unfolded e_def]] sv m by auto
    qed
  qed (use Inr m in \<open>auto simp: settle_violation_def Let_def simp flip: e_def at_reply_def\<close>)
qed

lemma replay_marks:
  assumes "settle_violation x ctx v fo d = (SettledReplay g, fo', d')" "vi_replay v = Rerun"
  shows "\<exists>fo2 :: folder. fo_calls fo' = mark_replay (sx_call ctx) (gr_subject g) (fo_calls fo2)"
  using settlement_cases[where x = x and ctx = ctx and v = v and fo = fo and d = d] assms by auto

text \<open>
  C14: A command runs again only with consent. Settling a violation ends in a replay only when nothing ran under a grant
  before, no deny row of the session covered what was blocked, the transport returned a reply that decodes to an allow
  within the offer, and recording exactly that allow succeeded on the folder as it was then, which is marked for
  the rerun. In every other case the folder and its files are as the others left them, its rows read at most, or hold
  one deny row more, for what the card offered; no allow is ever added. So a card that fails, is cancelled, or is
  answered with anything else leaves the command blocked.
\<close>

theorem replay_needs_consent:
  fixes x :: card_env and ctx :: settle_context and v :: violation and fo :: folder and d :: grant_disk
  defines "e \<equiv> ca_grants x" and "at_reply \<equiv> ca_meanwhile x (fo, d)"
  shows "case settle_violation x ctx v fo d of
     (SettledReplay g, fo', d') \<Rightarrow>
       sx_replayed_under ctx = None
       \<and> (case row_subject v of Some subject \<Rightarrow> \<not> deny_row_covers (ge_rules e) (ca_now x) (Some (sx_session_id ctx)) subject fo | None \<Rightarrow> True)
       \<and> (\<exists>outer. ca_reply x = CardReplied outer \<and> card_answer x ctx v outer = AnswerAllow (gr_subject g) (gr_scope g) (gr_expires g))
       \<and> gr_decision g = GrantAllow
       \<and> (\<exists>fo2. record_grant e (sx_call ctx) (sx_epoch ctx) (sx_session_id ctx) g (fst at_reply) (snd at_reply) = (Inr (gr_id g), fo2, d')
            \<and> fo' = (if vi_replay v = Rerun then fo2\<lparr>fo_calls := mark_replay (sx_call ctx) (gr_subject g) (fo_calls fo2)\<rparr> else fo2))
   | (_, fo', d') \<Rightarrow> (fo', d') = (fo, d) \<or> refusal_kept x ctx v at_reply (fo', d')"
  unfolding e_def at_reply_def by (rule settlement_cases)


section \<open>The runs of a call\<close>

lemma released_gone: "entry_of (fo_calls (snd (release_call c fo))) c = None"
  by (simp add: release_call_def Let_def case_prod_beta let_go_simps release_entry)

text \<open>What a call that is over leaves behind: no entry, or one that waits detached for its background command.\<close>

definition call_over :: "call_id \<Rightarrow> ustring \<Rightarrow> folder \<Rightarrow> bool" where
  "call_over c session fo \<longleftrightarrow> (case entry_of (fo_calls fo) c of
       None \<Rightarrow> True
     | Some en \<Rightarrow> ce_detached en = Some session \<and> ce_owner en = None \<and> once_rows c (fo_calls fo) = [])"

lemma call_over_release [simp]: "call_over c session (snd (release_call c fo))"
  by (simp add: call_over_def released_gone)

lemma call_over_detach: "call_over c session (snd (detach_call c session fo))"
  by (cases "entry_of (fo_calls fo) c")
    (auto simp: call_over_def detach_call_def table_detach_def Let_def case_prod_beta let_go_simps bump_epoch_def once_rows_def clear_once_def
      entry_take_denials_def release_entry split: option.splits)

lemma kept_over:
  assumes "after_shell_run policy c session x fo d = (KeepResult notes, fo', d')"
  shows "call_over c session fo'"
  using assms call_over_detach[of c session fo] call_over_release[of c session]
  by (auto simp: after_shell_run_def Let_def case_prod_beta split: run_output.splits finished.splits settlement.splits prod.splits)

lemma loop_spent:
  assumes "\<And>x fo d notes fo' d'. after x fo d = (KeepResult notes, fo', d') \<Longrightarrow> call_over c session fo'"
    and "shell_call_loop after runs c BudgetSpent n fo d = (e, k, fo', d')"
  shows "k = n + 1 \<and> e \<noteq> EndPinLost \<and> call_over c session fo'"
  using assms by (auto simp: shell_call_loop.simps[of _ _ _ BudgetSpent] spend_def Let_def split: prod.splits dispatch.splits after_run.splits)

lemma loop_over:
  assumes after: "\<And>x fo d notes fo' d'. after x fo d = (KeepResult notes, fo', d') \<Longrightarrow> call_over c session fo'"
    and "shell_call_loop after runs c BudgetOne n fo d = (e, k, fo', d')"
  shows "n < k \<and> k \<le> n + 2 \<and> e \<noteq> EndPinLost \<and> call_over c session fo'"
  using assms(2) loop_spent[where after = after, OF after] after
  by (auto simp: shell_call_loop.simps[of _ _ _ BudgetOne] spend_def Let_def split: prod.splits dispatch.splits after_run.splits)

lemma start_calls [simp]:
  "fo_calls (snd (sync_network mode alive token fo)) = fo_calls fo" "fo_calls (snd (engage_unless_off m m' e fo d)) = fo_calls fo"
  "fo_calls (snd (refresh_grants e fo d)) = fo_calls fo"
  by (auto simp: sync_network_def start_network_def stop_network_locked_def engage_unless_off_def refresh_grants_def keep_store_def set_store_def
      Let_def case_prod_beta split: option.splits)

lemma start_bound:
  "fst (shell_call_start x c session command pinned fo d)
     \<longleftrightarrow> \<not> (pinned \<and> \<not> (case entry_of (fo_calls fo) c of Some en \<Rightarrow> pin_waiting en | None \<Rightarrow> False))"
  by (auto simp: shell_call_start_def bind_call_owner_def bind_pinned_call_def bind_pinned_owner_def Let_def case_prod_beta split: option.splits)

text \<open>
  C24: A shell call is dispatched at most twice and cleans up after itself. Whatever its runs do to the folder and whatever
  the cards answer, a call that is bound is dispatched once, and once more only after a settlement that replays; it
  ends without a dispatch exactly when it was pinned and its pin is gone. Afterwards the table holds no entry for the
  call, or only one that waits for a background command, detached for its session, without an owner and with no once
  row left.
\<close>

theorem at_most_one_replay:
  "case run_shell_call policy x c session command pinned runs fo d of
     (e, k, fo', d') \<Rightarrow> k \<le> 2 \<and> (k = 0 \<longleftrightarrow> e = EndPinLost) \<and> call_over c session fo'
       \<and> (e = EndPinLost \<longleftrightarrow> pinned \<and> \<not> (case entry_of (fo_calls fo) c of Some en \<Rightarrow> pin_waiting en | None \<Rightarrow> False))"
proof -
  let ?loop = "shell_call_loop (after_shell_run policy c session) runs c BudgetOne 0"
  have k: "0 < fst (snd (?loop fo1 d)) \<and> fst (snd (?loop fo1 d)) \<le> 2 \<and> fst (?loop fo1 d) \<noteq> EndPinLost \<and> call_over c session (fst (snd (snd (?loop fo1 d))))" for fo1
  proof -
    obtain e k fo' d' where l: "?loop fo1 d = (e, k, fo', d')" by (metis prod.collapse)
    have "0 < k \<and> k \<le> 0 + 2 \<and> e \<noteq> EndPinLost \<and> call_over c session fo'" by (rule loop_over[OF _ l]) (erule kept_over)
    then show ?thesis unfolding l by simp
  qed
  obtain bound fo1 where b: "shell_call_start x c session command pinned fo d = (bound, fo1)" by (metis prod.collapse)
  show ?thesis using k[of fo1] start_bound[of x c session command pinned fo d] b
    unfolding run_shell_call_def b case_prod_beta by (cases bound) (simp_all del: shell_call_loop.simps)
qed

text \<open>The record of a spawn carries what its attempt was replayed under.\<close>

lemma spawn_replayed:
  assumes "ci_kind c = KindTool" "prepared_record c (fo_calls fo) = None" "sg_replayed_under (attempt_settling c (fo_calls fo)) = Some granted"
  shows "prepared_record c (fo_calls (snd (prepare_inner e c fo))) = None
     \<or> Option.bind (prepared_record c (fo_calls (snd (prepare_inner e c fo)))) cr_replayed_under = Some granted"
proof -
  have same: "fo_calls (snd (keep_record c r cred fo1)) = fo_calls fo1 \<or> prepared_record c (fo_calls (snd (keep_record c r cred fo1))) = Some r" for r cred fo1
    using remember_refuses[of c r "fo_calls fo1"] remember_records[of c r "fo_calls fo1"]
    by (cases "remember c r (fo_calls fo1)") (auto simp: keep_record_def let_go_simps split: sum.splits)
  define fo0 where "fo0 = (if held_mode c (fo_calls fo) = None then fo\<lparr>fo_mode := pe_mode e\<rparr> else fo)"
  have fo0: "fo_calls fo0 = fo_calls fo" by (simp add: fo0_def)
  have p: "fo_calls fo1 = fo_calls fo" if "point_at_proxy e c mode fo0 = (pr, fo1)" for mode pr fo1
    using point_calls[of e c mode fo0] that fo0 by simp
  show ?thesis unfolding prepare_inner_def Let_def fo0_def[symmetric] using assms fo0
    by (auto split: sum.splits prod.splits dest!: p) (metis (no_types, lifting) same bind.bind_lunit call_record.select_convs(3) snd_conv)+
qed

text \<open>Whether the result of a run is settled by posting a card.\<close>

definition posts_card :: "tool_approval_policy \<Rightarrow> call_id \<Rightarrow> ustring \<Rightarrow> run_env \<Rightarrow> folder \<Rightarrow> bool" where
  "posts_card policy c session x fo \<longleftrightarrow>
     (let (fin, fo1) = finish_call (re_decode x) (re_refused x) c fo;
          ctx = run_context policy c session (re_command x) (Option.bind (prepared_record c (fo_calls fo)) cr_replayed_under)
      in re_output x = OutBash \<and> fin = FinViolation
         \<and> \<not> isl (settle_before_card (ge_rules (ca_grants (re_card x))) (ca_now (re_card x)) ctx (re_violation x)
                    (ca_reply (re_card x) \<noteq> CardNoTransport) fo1))"

lemma unprepared_ran: "prepared_record c (fo_calls fo) = None \<Longrightarrow> fst (finish_call decode refused c fo) = FinRan"
  by (simp add: finish_call_def take_prepared_def Let_def case_prod_beta)

lemma replayed_posts_no_card:
  assumes "prepared_record c (fo_calls fo) = None \<or> Option.bind (prepared_record c (fo_calls fo)) cr_replayed_under = Some granted"
  shows "\<not> posts_card policy c session x fo"
  using assms unprepared_ran[of c fo "re_decode x" "re_refused x"]
  by (auto simp: posts_card_def run_context_def settle_before_card_def Let_def case_prod_beta split: if_splits option.splits)

text \<open>Without a card, what a reply would be and what happens until it is in make no difference.\<close>

lemma no_card_no_reply:
  assumes "prepared_record c (fo_calls fo) = None \<or> Option.bind (prepared_record c (fo_calls fo)) cr_replayed_under = Some granted"
  shows "after_shell_run policy c session (x\<lparr>re_card := (re_card x)\<lparr>ca_reply := reply, ca_meanwhile := meanwhile\<rparr>\<rparr>) fo d
    = after_shell_run policy c session x fo d"
proof (cases "prepared_record c (fo_calls fo)")
  case None
  then show ?thesis using unprepared_ran[OF None] by (simp add: after_shell_run_def Let_def case_prod_beta split: run_output.split)
next
  case (Some r)
  then have "cr_replayed_under r = Some granted" using assms by simp
  then have "settle_violation ((re_card x)\<lparr>ca_reply := reply, ca_meanwhile := meanwhile\<rparr>)
        (run_context policy c session (re_command x) (cr_replayed_under r)) (re_violation x) fo1 d
      = settle_violation (re_card x) (run_context policy c session (re_command x) (cr_replayed_under r)) (re_violation x) fo1 d" for fo1
    by (simp add: settle_violation_def settle_before_card_def run_context_def Let_def)
  then show ?thesis using Some by (simp add: after_shell_run_def Let_def case_prod_beta split: run_output.split finished.split)
qed

lemma replayed_keeps:
  assumes "prepared_record c (fo_calls fo) = None \<or> Option.bind (prepared_record c (fo_calls fo)) cr_replayed_under = Some granted"
  shows "fst (after_shell_run policy c session x fo d) \<noteq> ReplayRun"
proof (cases "prepared_record c (fo_calls fo)")
  case None
  then show ?thesis by (auto simp: after_shell_run_def finish_call_def take_prepared_def Let_def case_prod_beta split: run_output.splits)
next
  case (Some r)
  then have "Option.bind (prepared_record c (fo_calls fo)) cr_replayed_under = Some granted" using assms by simp
  moreover have denied: "\<exists>den. settled = SettledDenied den \<or> settled = SettledRecorded"
    if "settle_violation y (run_context policy c session command (Some granted)) v fo1 d = (settled, fo2, d2)" for y v fo1 settled fo2 d2 command
    using that before_card_asks[of _ _ "run_context policy c session command (Some granted)"] before_card_settled
    by (fastforce simp: settle_violation_def run_context_def Let_def split: sum.splits)
  moreover obtain settled fo2 d2 where "settle_violation (re_card x) (run_context policy c session (re_command x) (Some granted)) (re_violation x)
      (snd (finish_call (re_decode x) (re_refused x) c fo)) d = (settled, fo2, d2)" by (metis prod.collapse)
  moreover from denied[OF this] obtain den where "settled = SettledDenied den \<or> settled = SettledRecorded" by blast
  ultimately show ?thesis
    by (auto simp: after_shell_run_def Let_def case_prod_beta split: run_output.splits finished.splits)
qed

text \<open>
  C15: The result of the command that runs again is settled without a card. When a violation settles in a replay and the
  call's command is prepared again, then whatever that run meets, settling its result posts no card: what a reply
  would be, and what happens until one is in, make no difference to the outcome, and the run is the last. What it was
  replayed under travels from the settlement to the call's entry, from there to the spawn's record, and from there to the
  next settlement, which refuses before it asks. A connection the rerun makes may still be held and asked about while it
  runs; those cards are the network decider's and are settled on their own.
\<close>

theorem rerun_never_asks_again:
  fixes ctx :: settle_context and fo1 :: folder
  defines "c \<equiv> sx_call ctx" and "t1 \<equiv> fo_calls fo1" and "rerun \<equiv> \<lambda>e. snd (prepare_inner e (sx_call ctx) fo1)"
  assumes "settle_violation x ctx v fo d = (SettledReplay g, fo1, d1)" "vi_replay v = Rerun" "ci_kind c = KindTool"
    "entry_of t1 c \<noteq> None" "prepared_record c t1 = None"
  shows "\<not> posts_card policy c session y (rerun e)
    \<and> fst (after_shell_run policy c session y (rerun e) d2) \<noteq> ReplayRun
    \<and> after_shell_run policy c session (y\<lparr>re_card := (re_card y)\<lparr>ca_reply := reply, ca_meanwhile := meanwhile\<rparr>\<rparr>) (rerun e) d2
        = after_shell_run policy c session y (rerun e) d2"
proof -
  obtain fo2 :: folder where "t1 = mark_replay c (gr_subject g) (fo_calls fo2)"
    using replay_marks[OF assms(4,5)] unfolding c_def t1_def by blast
  then have "sg_replayed_under (attempt_settling c t1) = Some (gr_subject g)"
    using assms(7,8) by (auto simp: mark_replay_def attempt_settling_def prepared_record_def get_or_default_def)
  then have h: "prepared_record c (fo_calls (rerun e)) = None
      \<or> Option.bind (prepared_record c (fo_calls (rerun e))) cr_replayed_under = Some (gr_subject g)"
    using spawn_replayed[OF assms(6), of fo1 "gr_subject g" e] assms(8) unfolding t1_def rerun_def c_def[symmetric] by blast
  show ?thesis using replayed_posts_no_card[OF h] replayed_keeps[OF h] no_card_no_reply[OF h] by simp
qed

definition rerun_card :: violation where
  "rerun_card = held_card\<lparr>vi_replay := Rerun\<rparr>"

definition once_reply :: sandbox_reply where
  "once_reply = week_reply\<lparr>sr_duration := Some OfferCall\<rparr>"

definition rerun_context :: settle_context where
  "rerun_context = \<lparr>sx_policy = AlwaysPrompt, sx_call = tool ''a'', sx_epoch = None, sx_session_id = str ''s'', sx_command = str ''curl'', sx_replayed_under = None\<rparr>"

definition rerun_env :: card_env where
  "rerun_env = \<lparr>ca_grants = \<lparr>ge_store = sample_store_env, ge_rules = empty_rules, ge_now = 5\<rparr>, ca_now = 4, ca_bounds = card_bounds, ca_from_str = (\<lambda>_. None),
     ca_reply = CardReplied (Some once_reply), ca_fresh = str ''g'', ca_meanwhile = id\<rparr>"

lemma no_rows_deny: "fo_engaged fo = Some no_grants \<Longrightarrow> \<not> deny_row_covers rules now session subject fo"
  by (auto simp: deny_row_covers_def live_allows_now_def folder_rows_for_def no_grants_def live_rows_for_def allows_not_denied_def probe_allow_def Let_def
      split: option.splits)

lemma pinned_folder:
  "fo_engaged (folder_run ModeOff pinned_run) = Some no_grants" "prepared_record (tool ''a'') (fo_calls (folder_run ModeOff pinned_run)) = None"
  "entry_of (fo_calls (folder_run ModeOff pinned_run)) (tool ''a'') \<noteq> None"
  unfolding pinned_run_def by code_simp+

lemma once_reply_allows:
  "decode_reply w once_reply rerun_card (for_violation AlwaysPrompt rerun_card) card_bounds 5 = AnswerAllow (NetHost (str ''a.io'') (Some 443)) ScopeCall ExpireNever"
proof -
  have cl: "for_violation AlwaysPrompt rerun_card = \<lparr>cl_scopes = [OfferCall], cl_expiries = []\<rparr>"
    by (simp add: for_violation_def rerun_card_def held_card_def network_violation_def is_grantable_def Let_def)
  have "strongest_scope (for_violation AlwaysPrompt rerun_card) = Some OfferCall" by (simp add: cl strongest_scope_def)
  then show ?thesis using host_answer_tied[of once_reply rerun_card w card_bounds]
    by (simp add: decode_reply_def Let_def cl once_reply_def week_reply_def rerun_card_def carries_sandbox_decision_def clamp_expiry_def into_grant_scope_def)
qed

lemma rerun_settles:
  assumes "fo_engaged fo = Some no_grants" "prepared_record (tool ''a'') (fo_calls fo) = None" "entry_of (fo_calls fo) (tool ''a'') \<noteq> None"
  shows "\<exists>g fo1. settle_violation rerun_env rerun_context rerun_card fo d = (SettledReplay g, fo1, d)
    \<and> entry_of (fo_calls fo1) (tool ''a'') \<noteq> None \<and> prepared_record (tool ''a'') (fo_calls fo1) = None"
proof -
  have cl: "\<not> is_deny_only (for_violation AlwaysPrompt rerun_card)" "produces_card rerun_card" "vi_replay rerun_card = Rerun"
    by (simp_all add: for_violation_def rerun_card_def held_card_def network_violation_def is_grantable_def is_deny_only_def produces_card_def Let_def)
  have r: "reply_parse f (Some once_reply) = once_reply" for f by (simp add: reply_parse_def once_reply_def week_reply_def)
  have e: "engage e d fo = fo" for e using assms(1) by (simp add: engage_def)
  show ?thesis using assms cl r no_rows_deny[OF assms(1)] once_reply_allows
    by (auto simp: settle_violation_def settle_before_card_def rerun_env_def rerun_context_def Let_def settle_answer_def record_grant_def e new_grant_def
        refused_subject_def stash_once_def set_store_def mark_replay_def prepared_record_def split: option.splits)
qed

theorem rerun_never_asks_again_witness:
  "\<forall>d y. \<exists>g fo1. settle_violation rerun_env rerun_context rerun_card (folder_run ModeOff pinned_run) d = (SettledReplay g, fo1, d)
     \<and> \<not> posts_card AlwaysPrompt (tool ''a'') [] y (snd (prepare_inner switched_off (tool ''a'') fo1))
     \<and> fst (after_shell_run AlwaysPrompt (tool ''a'') [] y (snd (prepare_inner switched_off (tool ''a'') fo1)) d) \<noteq> ReplayRun"
proof (intro allI)
  fix d y
  obtain g fo1 where s: "settle_violation rerun_env rerun_context rerun_card (folder_run ModeOff pinned_run) d = (SettledReplay g, fo1, d)"
    "entry_of (fo_calls fo1) (tool ''a'') \<noteq> None" "prepared_record (tool ''a'') (fo_calls fo1) = None"
    using rerun_settles[OF pinned_folder] by blast
  have "vi_replay rerun_card = Rerun" "sx_call rerun_context = tool ''a''" "ci_kind (tool ''a'') = KindTool"
    by (simp_all add: rerun_card_def rerun_context_def tool_def)
  then show "\<exists>g fo1. settle_violation rerun_env rerun_context rerun_card (folder_run ModeOff pinned_run) d = (SettledReplay g, fo1, d)
     \<and> \<not> posts_card AlwaysPrompt (tool ''a'') [] y (snd (prepare_inner switched_off (tool ''a'') fo1))
     \<and> fst (after_shell_run AlwaysPrompt (tool ''a'') [] y (snd (prepare_inner switched_off (tool ''a'') fo1)) d) \<noteq> ReplayRun"
    using rerun_never_asks_again[OF s(1)] s by metis
qed

text \<open>A card for a held connection offers its exact host, so an answer for the whole network is refused.\<close>

lemma held_network_refuses_all:
  assumes "sr_scope r = Some (RsNetAll, given)" "\<not> is_all host"
  shows "answered_subject w r (network_violation host port hold_id) bounds = AnsweredRefused"
  using assms by (cases given)
    (auto simp: answered_subject_def network_violation_def held_to_violation_def tied_to_violation_def is_covered_by_def is_all_def Let_def)

text \<open>A card that offers every host on one port, answered for the whole network, gives every port.\<close>

lemma all_network_drops_port:
  assumes "vi_blocked v = BlNet host held" "vi_proposed v = Some (NetHost (str ''*'') (Some port))" "sr_scope r = Some (RsNetAll, given)"
  shows "answered_subject w r v bounds = AnsweredSubject (NetHost (str ''*'') None)"
proof -
  have all: "is_all (str ''*'')" "is_all [42]" by (simp_all add: is_all_def)
  have "host_matches (str ''*'') h" for h by (simp add: host_matches_def all)
  then show ?thesis using assms all by (cases given; cases host)
    (auto simp: answered_subject_def held_to_violation_def tied_to_violation_def is_covered_by_def Let_def)
qed

end
