(* ===== verification/Sandbox_Resolve_Props.thy ===== *)
theory Sandbox_Resolve_Props
  imports Sandbox_Resolve Card_Props
begin

text \<open>
  The mode of a folder: the precedence of its layers against a reference definition, that a folder's own file only
  tightens and is never read through a link a command could have planted, that setting the mode takes effect, and that
  the resolution a folder keeps was begun after the last change it was told of.
\<close>


section \<open>Precedence\<close>

text \<open>The mode the layers' values name, and what the files that cannot be trusted add to it.\<close>

definition env_mode :: "sandbox_mode_layers \<Rightarrow> sandbox_mode option" where
  "env_mode l = Option.bind (ly_env l) (\<lambda>given. mode_from_str (trim given))"

definition trusted :: "bool \<Rightarrow> sandbox_mode option \<Rightarrow> sandbox_mode option" where
  "trusted is_refused m = (if is_refused then None else m)"

definition or_off :: "sandbox_mode option \<Rightarrow> sandbox_mode" where
  "or_off m = (case m of Some x \<Rightarrow> x | None \<Rightarrow> ModeOff)"

definition files_mode :: "sandbox_mode_layers \<Rightarrow> sandbox_mode" where
  "files_mode l = (let r = ly_refused l in max (or_off (trusted (ry_user r) (ly_user l))) (or_off (trusted (ry_workspace r) (ly_workspace l))))"

definition any_refused :: "sandbox_mode_layers \<Rightarrow> bool" where
  "any_refused l \<longleftrightarrow> ry_managed (ly_refused l) \<or> ry_user (ly_refused l) \<or> ry_workspace (ly_refused l)"

definition mode_due :: "bool \<Rightarrow> sandbox_mode_layers \<Rightarrow> sandbox_mode" where
  "mode_due backend l =
     (let named = (case env_mode l of Some m \<Rightarrow> m
        | None \<Rightarrow> (case trusted (ry_managed (ly_refused l)) (ly_managed l) of Some m \<Rightarrow> m
        | None \<Rightarrow> if backend \<and> any_refused l then ModeEnforce else files_mode l))
      in if \<not> backend \<and> named = ModeEnforce then ModeOff else named)"

lemma mode_order [simp]: "ModeOff \<le> m" "m \<le> ModeEnforce" "m \<le> ModeOff \<longleftrightarrow> m = ModeOff" "ModeEnforce \<le> m \<longleftrightarrow> m = ModeEnforce" "\<not> m < ModeOff" "max ModeOff m = m" "max m ModeOff = m"
  by (cases m; simp add: less_eq_sandbox_mode_def less_sandbox_mode_def mode_rank_def max_def)+

lemma values_mode:
  "rm_mode (resolve_values l) = (case env_mode l of Some m \<Rightarrow> m | None \<Rightarrow> (case ly_managed l of Some m \<Rightarrow> m
     | None \<Rightarrow> max (or_off (ly_user l)) (or_off (ly_workspace l))))"
  by (auto simp: resolve_values_def env_mode_def or_off_def resolved_new_def max_def Let_def split: option.splits)

lemma values_source:
  "rm_source (resolve_values l) \<in> {SourceEnv, SourceManaged} \<longleftrightarrow> env_mode l \<noteq> None \<or> ly_managed l \<noteq> None"
  "rm_degraded (resolve_values l) = None"
  by (cases "env_mode l"; cases "ly_managed l"; cases "ly_user l"; cases "ly_workspace l"; simp add: resolve_values_def env_mode_def resolved_new_def Let_def)+

definition trusted_layers :: "sandbox_mode_layers \<Rightarrow> sandbox_mode_layers" where
  "trusted_layers l = (let r = ly_refused l in l\<lparr>ly_managed := trusted (ry_managed r) (ly_managed l),
     ly_user := trusted (ry_user r) (ly_user l), ly_workspace := trusted (ry_workspace r) (ly_workspace l)\<rparr>)"

lemma resolve_on_host_cases:
  fixes l :: sandbox_mode_layers
  defines "v \<equiv> resolve_values (trusted_layers l)" and "rf \<equiv> ly_refused l"
  shows "resolve_on_host l backend =
    (if rm_source v \<in> {SourceEnv, SourceManaged} \<or> \<not> any_refused l \<or> rm_mode v = ModeEnforce then on_host backend v
     else \<lparr>rm_mode = (if backend then ModeEnforce else rm_mode v),
       rm_source = (if ry_managed rf then SourceManaged else if ry_user rf then SourceUserConfig else SourceWorkspaceConfig), rm_degraded = Some ConfigRefused\<rparr>)"
proof -
  have v: "v = resolve_values (l\<lparr>ly_managed := if ry_managed rf then None else ly_managed l, ly_user := if ry_user rf then None else ly_user l,
      ly_workspace := if ry_workspace rf then None else ly_workspace l\<rparr>)"
    by (simp add: v_def rf_def trusted_layers_def trusted_def Let_def)
  show ?thesis unfolding resolve_on_host_def Let_def rf_def[symmetric] v[symmetric] any_refused_def by (cases "rm_source v") auto
qed

text \<open>
  C22: The layers resolve to the mode due. On a host with a backend the mode is the environment's when it names one, else
  the managed file's, else the strictest of the user's file, the folder's file and, when any file is there but refused
  or unreadable, \<open>enforce\<close>; a missing file counts as \<open>off\<close>. On a host with no backend a refused file adds nothing and
  \<open>enforce\<close> runs as \<open>off\<close>.
\<close>

theorem mode_resolution_exact: "rm_mode (resolve_on_host l backend) = mode_due backend l"
proof -
  let ?t = "trusted_layers l" and ?named = "trusted (ry_managed (ly_refused l)) (ly_managed l)"
  have e: "env_mode ?t = env_mode l" by (simp add: trusted_layers_def env_mode_def Let_def)
  have m: "rm_mode (resolve_values ?t) = (case env_mode l of Some m \<Rightarrow> m | None \<Rightarrow> (case ?named of Some m \<Rightarrow> m | None \<Rightarrow> files_mode l))"
    unfolding values_mode e by (simp add: trusted_layers_def files_mode_def Let_def split: option.split)
  have s: "rm_source (resolve_values ?t) \<in> {SourceEnv, SourceManaged} \<longleftrightarrow> env_mode l \<noteq> None \<or> ?named \<noteq> None"
    unfolding values_source(1) e by (simp add: trusted_layers_def Let_def)
  have h: "rm_mode (on_host b q) = (if \<not> b \<and> rm_mode q = ModeEnforce then ModeOff else rm_mode q)" for b q
    by (simp add: on_host_def)
  show ?thesis unfolding resolve_on_host_cases using s m by (auto simp: h mode_due_def Let_def split: option.splits)
qed


lemma values_workspace:
  assumes "rm_source (resolve_values l) = SourceWorkspaceConfig"
  shows "env_mode l = None" "ly_managed l = None" "ly_workspace l = Some (rm_mode (resolve_values l))" "or_off (ly_user l) \<le> rm_mode (resolve_values l)"
  using assms
  by (cases "env_mode l"; cases "ly_managed l"; cases "ly_user l"; cases "ly_workspace l";
      auto simp: resolve_values_def env_mode_def resolved_new_def or_off_def Let_def split: if_splits)+


section \<open>Files\<close>

lemma link_scan_read:
  assumes "link_scan w below linked = Inr (linked', None)"
  shows "linked' = (linked \<or> (\<exists>at \<in> set below. fs_lstat w at = Link)) \<and> (\<forall>at \<in> set below. fs_lstat w at = NoLink \<or> fs_lstat w at = Link \<and> fs_canonicalize w at \<noteq> None)"
  using assms by (induction w below linked rule: link_scan.induct) (auto split: lstat.splits if_splits)

text \<open>A file a layer may be read from: reached through no link, or where no command may write.\<close>

definition unplanted :: "mode_inputs \<Rightarrow> ustring \<Rightarrow> ustring \<Rightarrow> ustring \<Rightarrow> bool" where
  "unplanted x path anchor file \<longleftrightarrow>
     file = layer_file (mi_fs x) path anchor \<and> (\<forall>at \<in> set (ancestors_below path anchor). fs_lstat (mi_fs x) at = NoLink)
     \<or> file = canonical_path (mi_fs x) path \<and> mi_holds x file = Inr False"

lemma layer_text_unplanted:
  assumes "read_layer_text x path anchor owner = Inr content"
  shows "\<exists>file. mi_read x file owner = Inr content \<and> unplanted x path anchor file"
proof -
  obtain linked cut where sc: "link_scan (mi_fs x) (ancestors_below path anchor) False = Inr (linked, cut)"
    using assms by (cases "link_scan (mi_fs x) (ancestors_below path anchor) False") (auto simp: read_layer_text_def real_path_below_def)
  then have "cut = None" using assms by (auto simp: read_layer_text_def real_path_below_def Let_def split: option.splits sum.splits if_splits)
  then show ?thesis using assms sc link_scan_read[of "mi_fs x" "ancestors_below path anchor" False linked]
    by (auto simp: read_layer_text_def real_path_below_def unplanted_def Let_def split: sum.splits if_splits)
qed

lemma layer_mode_unplanted:
  assumes "read_layer_mode x path anchor owner = Inr (Some m)"
  shows "\<exists>file content s. mi_read x file owner = Inr content \<and> unplanted x path anchor file
    \<and> mi_toml x content = Some (EntryTable (FieldText s)) \<and> mode_from_str (trim s) = Some m"
proof -
  obtain content root where c: "read_layer_text x path anchor owner = Inr content" "mi_toml x content = Some root"
      "Option.bind (from_config_document root) id = Some m"
    using assms by (auto simp: read_layer_mode_def split: sum.splits option.splits if_splits)
  then show ?thesis using layer_text_unplanted[OF c(1)]
    by (fastforce simp: from_config_document_def optional_sandbox_mode_def split: sandbox_entry.splits mode_field.splits)
qed

text \<open>The folder's own file names a mode, and is trusted to.\<close>

definition folder_file_names :: "mode_inputs \<Rightarrow> sandbox_mode \<Rightarrow> bool" where
  "folder_file_names x m \<longleftrightarrow> (\<exists>file content s. mi_read x file OwnerAny = Inr content
     \<and> unplanted x (workspace_config_path (mi_workspace_root x)) (mi_workspace_root x) file
     \<and> mi_toml x content = Some (EntryTable (FieldText s)) \<and> mode_from_str (trim s) = Some m)"

lemma workspace_layer_names: "workspace_mode_layer x = Inr (Some m) \<Longrightarrow> folder_file_names x m"
  unfolding workspace_mode_layer_def folder_file_names_def by (rule layer_mode_unplanted)

lemma folder_decides:
  assumes "rm_source (resolve_on_host l backend) = SourceWorkspaceConfig" "trusted_layers l = l"
  shows "env_mode l = None \<and> ly_managed l = None
    \<and> (case rm_degraded (resolve_on_host l backend) of
         None \<Rightarrow> ly_workspace l = Some (rm_mode (resolve_on_host l backend)) \<and> or_off (ly_user l) \<le> rm_mode (resolve_on_host l backend)
           \<and> (any_refused l \<longrightarrow> rm_mode (resolve_on_host l backend) = ModeEnforce)
       | Some EnforceWithoutBackend \<Rightarrow> \<not> backend \<and> ly_workspace l = Some ModeEnforce \<and> rm_mode (resolve_on_host l backend) = ModeOff
       | Some ConfigRefused \<Rightarrow> ly_refused l = \<lparr>ry_managed = False, ry_user = False, ry_workspace = True\<rparr>
           \<and> rm_mode (resolve_on_host l backend) = (if backend then ModeEnforce else or_off (ly_user l)))"
proof (cases "rm_source (resolve_values l) \<in> {SourceEnv, SourceManaged} \<or> \<not> any_refused l \<or> rm_mode (resolve_values l) = ModeEnforce")
  case True
  then have r: "resolve_on_host l backend = on_host backend (resolve_values l)" unfolding resolve_on_host_cases assms(2) by simp
  then have "rm_source (resolve_values l) = SourceWorkspaceConfig" using assms(1) by (simp add: on_host_def split: if_splits)
  note w = values_workspace[OF this]
  show ?thesis using True w \<open>rm_source (resolve_values l) = SourceWorkspaceConfig\<close> values_source(2)[of l] unfolding r by (auto simp: on_host_def)
next
  case False
  then have e: "env_mode l = None" "ly_managed l = None" "any_refused l" using values_source(1)[of l] by auto
  have rf: "ly_refused l = \<lparr>ry_managed = False, ry_user = False, ry_workspace = True\<rparr>"
    using assms(1) e(3) False unfolding resolve_on_host_cases assms(2) any_refused_def by (cases "ly_refused l") (auto split: if_splits)
  then have "ly_workspace l = None" using assms(2) by (metis refused_layers.select_convs(3) sandbox_mode_layers.select_convs(4)
        sandbox_mode_layers.surjective sandbox_mode_layers.update_convs(4) trusted_def trusted_layers_def)
  then have "rm_mode (resolve_values l) = or_off (ly_user l)" unfolding values_mode using e by (simp add: or_off_def)
  then show ?thesis using False e rf unfolding resolve_on_host_cases assms(2) by simp
qed

text \<open>
  C16: What a folder's own file can do. When the folder's file decides the mode, the environment and the managed file
  name none. Unmarked, the file names that mode itself, reached through no link or lying where no command may write, the
  mode is at least the user's, and if another layer's file was refused it is \<open>enforce\<close>. Marked as enforcing without a
  backend, the file names \<open>enforce\<close>, the host has no backend, and the mode is \<open>off\<close>, even for a user who observes.
  Marked as refused, it is the folder's file alone that was refused, and the mode is \<open>enforce\<close> where there is a backend
  and the user's where there is none. So on a host with a backend a folder's file never lowers the user's mode.
\<close>

theorem folder_file_only_tightens:
  fixes x :: mode_inputs
  defines "r \<equiv> resolve_sandbox_mode_in x"
  assumes "rm_source r = SourceWorkspaceConfig"
  shows "Option.bind (mi_env x) (\<lambda>given. mode_from_str (trim given)) = None \<and> layer_named (managed_mode_layer x) = None
    \<and> (case rm_degraded r of
         None \<Rightarrow> folder_file_names x (rm_mode r) \<and> or_off (layer_named (user_mode_layer x)) \<le> rm_mode r
           \<and> (isl (managed_mode_layer x) \<or> isl (user_mode_layer x) \<longrightarrow> rm_mode r = ModeEnforce)
       | Some EnforceWithoutBackend \<Rightarrow> \<not> mi_backend_available x \<and> folder_file_names x ModeEnforce \<and> rm_mode r = ModeOff
       | Some ConfigRefused \<Rightarrow> isl (workspace_mode_layer x) \<and> \<not> isl (managed_mode_layer x) \<and> \<not> isl (user_mode_layer x)
           \<and> rm_mode r = (if mi_backend_available x then ModeEnforce else or_off (layer_named (user_mode_layer x))))
    \<and> (mi_backend_available x \<longrightarrow> or_off (layer_named (user_mode_layer x)) \<le> rm_mode r)"
proof -
  let ?m = "managed_mode_layer x" and ?u = "user_mode_layer x" and ?w = "workspace_mode_layer x"
  define l where "l = \<lparr>ly_env = mi_env x, ly_managed = layer_named ?m, ly_user = layer_named ?u, ly_workspace = layer_named ?w,
     ly_refused = \<lparr>ry_managed = isl ?m, ry_user = isl ?u, ry_workspace = isl ?w\<rparr>\<rparr>"
  have named: "trusted (isl q) (layer_named q) = layer_named q" for q by (cases q) (simp_all add: trusted_def layer_named_def)
  have t: "trusted_layers l = l" by (simp add: trusted_layers_def l_def named Let_def)
  have r: "r = resolve_on_host l (mi_backend_available x)" by (simp add: r_def resolve_sandbox_mode_in_def l_def Let_def)
  have w: "layer_named ?w = Some m \<Longrightarrow> folder_file_names x m" for m
    by (rule workspace_layer_names) (simp add: layer_named_def split: sum.splits)
  show ?thesis using folder_decides[OF assms(2)[unfolded r] t] w unfolding r[symmetric]
    by (auto simp: l_def env_mode_def any_refused_def split: option.splits mode_degradation.splits)
qed

lemma plain_read:
  assumes "\<forall>at \<in> set (ancestors_below path anchor). fs_lstat (mi_fs x) at = NoLink"
  shows "read_layer_text x path anchor owner = mi_read x (layer_file (mi_fs x) path anchor) owner"
proof -
  have "link_scan w below linked = Inr (linked, None)" if "\<forall>at \<in> set below. fs_lstat w at = NoLink" for w below linked
    using that by (induction below) simp_all
  then show ?thesis using assms by (simp add: read_layer_text_def real_path_below_def)
qed

lemma mode_str_reads_back [simp]: "mode_from_str (trim (mode_str m)) = Some m"
proof -
  have "mode_from_str (trim (mode_str ModeOff)) = Some ModeOff" "mode_from_str (trim (mode_str ModeObserve)) = Some ModeObserve"
    "mode_from_str (trim (mode_str ModeEnforce)) = Some ModeEnforce" by code_simp+
  then show ?thesis by (cases m) simp_all
qed

definition plain_inputs :: mode_inputs where
  "plain_inputs = \<lparr>mi_workspace_root = str ''/w'', mi_fuigo_home = str ''/h/.fuigo'', mi_env = None, mi_backend_available = True,
     mi_fs = \<lparr>fs_canonicalize = Some, fs_lstat = (\<lambda>_. NoLink), fs_read_link = (\<lambda>_. None)\<rparr>, mi_holds = (\<lambda>_. Inr False),
     mi_read = (\<lambda>_ owner. if owner = OwnerAny then Inr [1] else Inl IoNotFound),
     mi_toml = (\<lambda>t. if t = [1] then Some (EntryTable (FieldText (mode_str ModeObserve))) else if t = [2] then Some (EntryTable (FieldText (mode_str ModeEnforce))) else None)\<rparr>"

lemma plain_layers:
  "managed_mode_layer plain_inputs = Inr None" "user_mode_layer plain_inputs = Inr None" "workspace_mode_layer plain_inputs = Inr (Some ModeObserve)"
  by (simp_all add: managed_mode_layer_def user_mode_layer_def workspace_mode_layer_def read_layer_mode_def plain_read plain_inputs_def is_absent_def
      from_config_document_def optional_sandbox_mode_def)

theorem folder_file_only_tightens_witness:
  "rm_mode (resolve_sandbox_mode_in plain_inputs) = ModeObserve
     \<and> folder_file_names plain_inputs ModeObserve
     \<and> rm_mode (resolve_sandbox_mode_in (plain_inputs\<lparr>mi_toml := \<lambda>_. None\<rparr>)) = ModeEnforce"
proof -
  let ?torn = "plain_inputs\<lparr>mi_toml := \<lambda>_. None\<rparr>"
  have "managed_mode_layer ?torn = Inr None" "user_mode_layer ?torn = Inr None" "workspace_mode_layer ?torn = Inl IoInvalidData"
    by (simp_all add: managed_mode_layer_def user_mode_layer_def workspace_mode_layer_def read_layer_mode_def plain_read plain_inputs_def is_absent_def)
  moreover have env: "mi_env ?torn = None" "mi_backend_available ?torn" by (simp_all add: plain_inputs_def)
  ultimately have "resolve_sandbox_mode_in ?torn = \<lparr>rm_mode = ModeEnforce, rm_source = SourceWorkspaceConfig, rm_degraded = Some ConfigRefused\<rparr>"
    using env by (simp add: resolve_sandbox_mode_in_def layer_named_def resolve_on_host_def resolve_values_def resolved_new_def Let_def)
  then have torn: "rm_source (resolve_sandbox_mode_in ?torn) = SourceWorkspaceConfig" "rm_degraded (resolve_sandbox_mode_in ?torn) = Some ConfigRefused"
    by simp_all
  have "resolve_sandbox_mode_in plain_inputs = resolved_new ModeObserve SourceWorkspaceConfig"
  proof -
    have "mi_env plain_inputs = None" "mi_backend_available plain_inputs" by (simp_all add: plain_inputs_def)
    then show ?thesis by (simp add: resolve_sandbox_mode_in_def plain_layers layer_named_def resolve_on_host_def resolve_values_def on_host_def resolved_new_def Let_def)
  qed
  then have r: "rm_source (resolve_sandbox_mode_in plain_inputs) = SourceWorkspaceConfig" "rm_degraded (resolve_sandbox_mode_in plain_inputs) = None"
    "rm_mode (resolve_sandbox_mode_in plain_inputs) = ModeObserve" by (simp_all add: resolved_new_def)
  have "rm_mode (resolve_sandbox_mode_in ?torn) = ModeEnforce"
    using folder_file_only_tightens[OF torn(1)] torn(2) env(2) by simp
  then show ?thesis using folder_file_only_tightens[OF r(1)] r(2,3) by simp
qed


section \<open>Setting the mode\<close>

lemma layers_of_env [simp]:
  "managed_mode_layer (x\<lparr>mi_env := env\<rparr>) = managed_mode_layer x" "user_mode_layer (x\<lparr>mi_env := env\<rparr>) = user_mode_layer x"
  "workspace_mode_layer (x\<lparr>mi_env := env\<rparr>) = workspace_mode_layer x"
proof -
  have t: "read_layer_mode (x\<lparr>mi_env := env\<rparr>) path anchor owner = read_layer_mode x path anchor owner" for path anchor owner
    by (simp add: read_layer_mode_def read_layer_text_def cong: option.case_cong sum.case_cong)
  have "home_anchor (x\<lparr>mi_env := env\<rparr>) = home_anchor x" by (simp add: home_anchor_def cong: option.case_cong)
  then show "managed_mode_layer (x\<lparr>mi_env := env\<rparr>) = managed_mode_layer x" "user_mode_layer (x\<lparr>mi_env := env\<rparr>) = user_mode_layer x"
    "workspace_mode_layer (x\<lparr>mi_env := env\<rparr>) = workspace_mode_layer x"
    by (simp_all add: managed_mode_layer_def user_mode_layer_def workspace_mode_layer_def t)
qed

lemma resolved_after_forget:
  "resolved_mode stamp x (forget_resolution cache) = (r, c) \<Longrightarrow> r = resolve_sandbox_mode_in (x\<lparr>mi_env := ms_env stamp\<rparr>) \<and> mc_resolved c = Some (stamp, r)"
  by (auto simp: resolved_mode_def resolve_begin_def resolve_end_def forget_resolution_def Let_def)

lemma set_mode_writes:
  assumes "set_workspace_mode_in wr m x = Inr (path, r, x1)"
  shows "\<exists>existing document. mw_set_mode wr existing (mode_str m) = Some (Some document) \<and> path = workspace_config_path (mi_workspace_root x)
     \<and> x1 = x\<lparr>mi_read := (mi_read x)(layer_file (mi_fs x) path (mi_workspace_root x) := (\<lambda>_. Inr document))\<rparr>"
  using assms by (auto simp: set_workspace_mode_in_def write_workspace_sandbox_mode_in_def Let_def res_simps split: if_splits sum.splits option.splits)

text \<open>
  C39: A mode that is set becomes the folder's layer. After a mode is set in a folder whose file is reached through no link,
  and given that the TOML library reads back the mode it set, the folder's layer names it; the answer, which the folder
  then keeps, is the mode due from all the layers as they are then, with the folder's own naming the mode set. So the
  environment and the managed file still decide over it, a refused file still means \<open>enforce\<close>, and a host with no
  backend still runs \<open>enforce\<close> as \<open>off\<close>; when none of these applies the answer is the stricter of the mode set and the
  user's, which is never lowered.
\<close>

theorem mode_set_takes_effect:
  fixes m :: sandbox_mode and u :: "sandbox_mode option"
  assumes set: "set_workspace_mode wr m before after x cache = (Inr (path, r), x1, c1)"
    and toml: "\<forall>existing document. mw_set_mode wr existing (mode_str m) = Some (Some document) \<longrightarrow> mi_toml x document = Some (EntryTable (FieldText (mode_str m)))"
    and links: "\<forall>at \<in> set (ancestors_below path (mi_workspace_root x)). fs_lstat (mi_fs x) at = NoLink"
  shows "workspace_mode_layer x1 = Inr (Some m) \<and> mc_resolved c1 = Some (after, r)
    \<and> rm_mode r = mode_due (mi_backend_available x)
        \<lparr>ly_env = ms_env after, ly_managed = layer_named (managed_mode_layer x1), ly_user = layer_named (user_mode_layer x1), ly_workspace = Some m,
         ly_refused = \<lparr>ry_managed = isl (managed_mode_layer x1), ry_user = isl (user_mode_layer x1), ry_workspace = False\<rparr>\<rparr>
    \<and> (ms_env after = None \<and> managed_mode_layer x1 = Inr None \<and> user_mode_layer x1 = Inr u \<and> mi_backend_available x
         \<longrightarrow> rm_mode r = max (or_off u) m)"
proof -
  obtain q0 c0 where sm: "set_workspace_mode_in wr m x = Inr (path, q0, x1)" "resolved_mode after x1 (forget_resolution c0) = (r, c1)"
    using set by (auto simp: set_workspace_mode_def Let_def split: prod.splits sum.splits)
  obtain existing document where w: "mw_set_mode wr existing (mode_str m) = Some (Some document)" "path = workspace_config_path (mi_workspace_root x)"
      "x1 = x\<lparr>mi_read := (mi_read x)(layer_file (mi_fs x) path (mi_workspace_root x) := (\<lambda>_. Inr document))\<rparr>"
    using set_mode_writes[OF sm(1)] by blast
  have "read_layer_text x1 path (mi_workspace_root x) OwnerAny = Inr document" using plain_read[of path "mi_workspace_root x" x1] links w(3) by simp
  moreover have "mi_toml x1 document = Some (EntryTable (FieldText (mode_str m)))" using toml w(1,3) by simp
  ultimately have layer: "workspace_mode_layer x1 = Inr (Some m)"
    using w(2,3) by (simp add: workspace_mode_layer_def read_layer_mode_def from_config_document_def optional_sandbox_mode_def)
  note k = resolved_after_forget[OF sm(2)]
  have due: "rm_mode r = mode_due (mi_backend_available x)
        \<lparr>ly_env = ms_env after, ly_managed = layer_named (managed_mode_layer x1), ly_user = layer_named (user_mode_layer x1), ly_workspace = Some m,
         ly_refused = \<lparr>ry_managed = isl (managed_mode_layer x1), ry_user = isl (user_mode_layer x1), ry_workspace = False\<rparr>\<rparr>"
    using conjunct1[OF k] layer w(3) by (simp add: resolve_sandbox_mode_in_def mode_resolution_exact layer_named_def[of "Inr (Some m)"] Let_def)
  have "rm_mode r = max (or_off u) m"
    if "ms_env after = None" "managed_mode_layer x1 = Inr None" "user_mode_layer x1 = Inr u" "mi_backend_available x"
    using due that by (simp add: layer_named_def mode_due_def env_mode_def trusted_def any_refused_def files_mode_def or_off_def Let_def)
  then show ?thesis using layer due k by simp
qed

definition enforce_writer :: mode_writer where
  "enforce_writer = \<lparr>mw_root_is_dir = True, mw_open = Inr False, mw_lock = Inr (), mw_existing = Inr [1],
     mw_set_mode = (\<lambda>_ name. if name = mode_str ModeEnforce then Some (Some [2]) else None), mw_replace = Inr ()\<rparr>"

definition no_stamp :: mode_stamp where
  "no_stamp = \<lparr>ms_env = None, ms_workspace_file = None, ms_user_file = None, ms_managed_file = None\<rparr>"

text \<open>A folder that observes, set to \<open>enforce\<close>.\<close>

theorem mode_set_takes_effect_witness:
  "\<exists>path r x1 c1. set_workspace_mode enforce_writer ModeEnforce no_stamp no_stamp plain_inputs mode_cache_new = (Inr (path, r), x1, c1) \<and> rm_mode r = ModeEnforce"
proof -
  let ?x = plain_inputs and ?path = "workspace_config_path (str ''/w'')"
  let ?file = "layer_file (mi_fs ?x) ?path (str ''/w'')"
  define x1 where "x1 = ?x\<lparr>mi_read := (mi_read ?x)(?file := (\<lambda>_. Inr [2]))\<rparr>"
  have other: "\<not> is_same_path (canonical_path (mi_fs ?x) (path_join (str ''/w'') (str ''.fuigo''))) (canonical_path (mi_fs ?x) (mi_fuigo_home ?x))"
    "?file \<noteq> layer_file (mi_fs ?x) (managed_config_path (mi_fuigo_home ?x)) (home_anchor ?x)"
    "?file \<noteq> layer_file (mi_fs ?x) (user_config_path (mi_fuigo_home ?x)) (home_anchor ?x)"
    by code_simp+
  have "set_workspace_mode_in enforce_writer ModeEnforce ?x = Inr (?path, resolve_sandbox_mode_in x1, x1)"
    using other(1) by (simp add: set_workspace_mode_in_def write_workspace_sandbox_mode_in_def enforce_writer_def x1_def Let_def plain_inputs_def)
  then obtain r c1 where s: "set_workspace_mode enforce_writer ModeEnforce no_stamp no_stamp ?x mode_cache_new = (Inr (?path, r), x1, c1)"
    by (simp add: set_workspace_mode_def Let_def case_prod_beta)
  have "managed_mode_layer x1 = Inr None" "user_mode_layer x1 = Inr None"
  proof -
    have absent: "read_layer_mode x1 path anchor OwnerDaemon = Inr None" if "?file \<noteq> layer_file (mi_fs ?x) path anchor" for path anchor
      using that plain_read[of path anchor x1] by (simp add: read_layer_mode_def x1_def) (simp add: plain_inputs_def is_absent_def)
    have "home_anchor x1 = home_anchor ?x" "mi_fuigo_home x1 = mi_fuigo_home ?x" by (simp_all add: x1_def home_anchor_def cong: option.case_cong)
    then show "managed_mode_layer x1 = Inr None" "user_mode_layer x1 = Inr None"
      using other(2,3) absent by (simp_all add: managed_mode_layer_def user_mode_layer_def)
  qed
  moreover have "ms_env no_stamp = None" "mi_backend_available ?x" by (simp_all add: no_stamp_def plain_inputs_def)
  moreover have "\<forall>existing document. mw_set_mode enforce_writer existing (mode_str ModeEnforce) = Some (Some document)
      \<longrightarrow> mi_toml ?x document = Some (EntryTable (FieldText (mode_str ModeEnforce)))"
    "\<forall>at \<in> set (ancestors_below ?path (mi_workspace_root ?x)). fs_lstat (mi_fs ?x) at = NoLink"
    by (simp_all add: enforce_writer_def plain_inputs_def)
  ultimately have "rm_mode r = max (or_off None) ModeEnforce"
    using mode_set_takes_effect[OF s, of None] by blast
  then show ?thesis using s by (auto simp: or_off_def)
qed


section \<open>The resolution a folder keeps\<close>

text \<open>Readers and writers of the cache, in any order: each locked section is an event, reader \<open>i\<close> between its two is in flight.\<close>

datatype cache_event = ReadBegin nat mode_stamp | ReadEnd nat resolved_sandbox_mode | Forget

record cache_run =
  cu_cache :: mode_cache
  cu_readers :: "(nat \<times> mode_stamp \<times> nat) list"

fun cache_step :: "cache_run \<Rightarrow> cache_event \<Rightarrow> cache_run" where
  "cache_step u (ReadBegin i stamp) = (case resolve_begin stamp (cu_cache u) of
       (Inl _, c) \<Rightarrow> u\<lparr>cu_cache := c\<rparr>
     | (Inr generation, c) \<Rightarrow> u\<lparr>cu_cache := c, cu_readers := (i, stamp, generation) # cu_readers u\<rparr>)"
| "cache_step u (ReadEnd i r) = (case map_of (cu_readers u) i of
       None \<Rightarrow> u
     | Some (stamp, generation) \<Rightarrow> u\<lparr>cu_cache := resolve_end stamp generation r (cu_cache u), cu_readers := filter (\<lambda>(j, _). j \<noteq> i) (cu_readers u)\<rparr>)"
| "cache_step u Forget = u\<lparr>cu_cache := forget_resolution (cu_cache u)\<rparr>"

definition cache_run_of :: "cache_event list \<Rightarrow> cache_run" where
  "cache_run_of evs = foldl cache_step \<lparr>cu_cache = mode_cache_new, cu_readers = []\<rparr> evs"

definition begun_since_forget :: "nat \<Rightarrow> mode_stamp \<Rightarrow> cache_event list \<Rightarrow> bool" where
  "begun_since_forget i stamp evs \<longleftrightarrow> (\<exists>before mid. evs = before @ ReadBegin i stamp # mid \<and> Forget \<notin> set mid)"

definition kept_since_forget :: "mode_stamp \<Rightarrow> resolved_sandbox_mode \<Rightarrow> cache_event list \<Rightarrow> bool" where
  "kept_since_forget stamp r evs \<longleftrightarrow> (\<exists>i before mid after. evs = before @ ReadBegin i stamp # mid @ ReadEnd i r # after \<and> Forget \<notin> set mid \<union> set after)"

lemma begun_more: "begun_since_forget i stamp evs \<Longrightarrow> ev \<noteq> Forget \<Longrightarrow> begun_since_forget i stamp (evs @ [ev])"
  by (fastforce simp: begun_since_forget_def)

lemma kept_more: "kept_since_forget stamp r evs \<Longrightarrow> ev \<noteq> Forget \<Longrightarrow> kept_since_forget stamp r (evs @ [ev])"
  unfolding kept_since_forget_def by (elim exE conjE) (metis Un_iff append.assoc append_Cons set_append set_ConsD set_empty2 empty_iff append_Nil2 self_append_conv)

definition cache_fresh :: "cache_event list \<Rightarrow> cache_run \<Rightarrow> bool" where
  "cache_fresh evs u \<longleftrightarrow>
     (\<forall>(i, stamp, g) \<in> set (cu_readers u). g \<le> mc_generation (cu_cache u) \<and> (g = mc_generation (cu_cache u) \<longrightarrow> begun_since_forget i stamp evs))
     \<and> (\<forall>stamp r. mc_resolved (cu_cache u) = Some (stamp, r) \<longrightarrow> kept_since_forget stamp r evs)"

lemma begin_keeps: "resolve_begin stamp c = (res, c') \<Longrightarrow> mc_generation c' = mc_generation c \<and> mc_resolved c' = mc_resolved c \<and> (case res of Inl _ \<Rightarrow> True | Inr g \<Rightarrow> g = mc_generation c)"
  by (auto simp: resolve_begin_def Let_def split: option.splits if_splits)

lemma cache_fresh_step:
  assumes "cache_fresh evs u"
  shows "cache_fresh (evs @ [ev]) (cache_step u ev)"
proof (cases ev)
  case (ReadBegin i stamp)
  obtain res c where b: "resolve_begin stamp (cu_cache u) = (res, c)" by (metis prod.collapse)
  have "begun_since_forget i stamp (evs @ [ReadBegin i stamp])" unfolding begun_since_forget_def by (metis append_Nil2 empty_iff list.set(1))
  then show ?thesis using assms begin_keeps[OF b] b ReadBegin
    by (cases res) (auto simp: cache_fresh_def begun_more kept_more)
next
  case (ReadEnd i r)
  show ?thesis
  proof (cases "map_of (cu_readers u) i")
    case None
    then show ?thesis using assms ReadEnd by (auto simp: cache_fresh_def begun_more kept_more)
  next
    case (Some sg)
    obtain stamp g where sg: "sg = (stamp, g)" by (cases sg)
    then have i: "(i, stamp, g) \<in> set (cu_readers u)" using Some by (auto dest: map_of_SomeD)
    have "kept_since_forget stamp r (evs @ [ReadEnd i r])" if "g = mc_generation (cu_cache u)"
    proof -
      have "begun_since_forget i stamp evs" using assms i that unfolding cache_fresh_def by fastforce
      then obtain before mid where "evs = before @ ReadBegin i stamp # mid" "Forget \<notin> set mid"
        by (auto simp: begun_since_forget_def)
      then have "evs @ [ReadEnd i r] = before @ ReadBegin i stamp # mid @ ReadEnd i r # [] \<and> Forget \<notin> set mid \<union> set []" by simp
      then show ?thesis unfolding kept_since_forget_def by blast
    qed
    then show ?thesis using assms ReadEnd Some sg by (auto simp: cache_fresh_def begun_more kept_more resolve_end_def Let_def)
  qed
next
  case Forget
  then show ?thesis using assms by (fastforce simp: cache_fresh_def forget_resolution_def)
qed

lemma cache_run_fresh: "cache_fresh evs (cache_run_of evs)"
proof (induction evs rule: rev_induct)
  case (snoc ev evs)
  then show ?case using cache_fresh_step[of evs "cache_run_of evs" ev] by (simp add: cache_run_of_def)
qed (simp add: cache_run_of_def cache_fresh_def mode_cache_new_def)

text \<open>
  C23: The mode a folder keeps is never older than the last change it was told of. However readers and writers of the mode
  interleave, the resolution in the cache was read by a reader that began after the last time the cache was told to
  forget: one that was in flight when a mode was set, or when the host turned out to have no backend, answers its own
  caller and is not kept.
\<close>

theorem kept_resolution_is_fresh:
  assumes "mc_resolved (cu_cache (cache_run_of evs)) = Some (stamp, r)"
  shows "\<exists>i before mid after. evs = before @ ReadBegin i stamp # mid @ ReadEnd i r # after \<and> Forget \<notin> set mid \<union> set after"
  using cache_run_fresh[of evs] assms by (auto simp: cache_fresh_def kept_since_forget_def)

definition raced_reads :: "cache_event list" where
  "raced_reads = [ReadBegin 0 no_stamp, Forget, ReadBegin 1 no_stamp, ReadEnd 1 (resolved_new ModeEnforce SourceWorkspaceConfig),
     ReadEnd 0 (resolved_new ModeOff SourceDefault)]"

text \<open>A slow reader from before the change loses to a quick one from after it.\<close>

theorem kept_resolution_is_fresh_witness:
  "\<exists>i before mid after. raced_reads = before @ ReadBegin i no_stamp # mid @ ReadEnd i (resolved_new ModeEnforce SourceWorkspaceConfig) # after
     \<and> Forget \<notin> set mid \<union> set after"
proof -
  have "mc_resolved (cu_cache (cache_run_of raced_reads)) = Some (no_stamp, resolved_new ModeEnforce SourceWorkspaceConfig)" by code_simp
  then show ?thesis by (rule kept_resolution_is_fresh)
qed

text \<open>
  On a host with no backend a folder's file that asks for \<open>enforce\<close> takes a user who observes to \<open>off\<close>: tightening the
  file loosens the mode.
\<close>

lemma folder_enforce_lowers_observe:
  "rm_mode (resolve_on_host \<lparr>ly_env = None, ly_managed = None, ly_user = Some ModeObserve, ly_workspace = None, ly_refused = \<lparr>ry_managed = False, ry_user = False, ry_workspace = False\<rparr>\<rparr> False) = ModeObserve"
  "rm_mode (resolve_on_host \<lparr>ly_env = None, ly_managed = None, ly_user = Some ModeObserve, ly_workspace = Some ModeEnforce, ly_refused = \<lparr>ry_managed = False, ry_user = False, ry_workspace = False\<rparr>\<rparr> False) = ModeOff"
  by code_simp+

end
