(* ===== verification/Spec2Isabelle.thy ===== *)
theory Spec2Isabelle
  imports Breaker_Props Breaker_Race Retry Peer_Ingress_Props Peer_Locator_Props Peer_Host
    Perm_Paths_Props Perm_Rules_Props Perm_Modes Net_Enforced Sandbox_Resolve_Props
begin

text \<open>
  A verification of the core logic of \<^verbatim>\<open>fuigo\<close>, a coding agent written in Rust: what decides whether the agent
  may act (permissions), whether its commands may reach the network (the egress proxy), what other sessions may
  send it (peer messages), and when it stops calling a failing service (circuit breaker and retries). Paths below
  are relative to \<^verbatim>\<open>src/crates/codegen\<close>, except \<^verbatim>\<open>fuigo-circuit-breaker\<close>, which is in \<^verbatim>\<open>src/crates/common\<close>.

  \<^bold>\<open>The parts and how they interact.\<close> A tool call becomes an access (a command, a path, a URL, a tool name). The
  permission policy, compiled from the user's and the administrator's rules, answers allow, ask, deny or nothing;
  for a shell script it works on the commands of the script, on what is behind wrappers such as \<open>env\<close> or
  \<open>timeout\<close>, and on inline scripts. A command that is allowed to run reaches the network only through the egress
  proxy, which authenticates the command, asks a decider about the origin, checks the resolved addresses, and
  relays. The decider reads the live rows of the grant store and the web-fetch lists; what they leave open it asks the
  user, holding the connection under a card. Each served folder keeps a table of its calls; a command's start, result,
  background start and exit move the call through it, and what they let go of (a proxy credential, an epoch of held
  connections) is revoked and refused. Sessions on one machine send each other messages through a host, which bounds sizes, rates, hops and
  turns and remembers what it has answered. Calls to model providers go through a circuit breaker and a retry
  policy.

  \<^bold>\<open>Shared layers.\<close>
  \<^item> \<^verbatim>\<open>Prelude\<close>: results and the \<open>?\<close> operator, saturating and wrapping integers, \<open>str\<close> as a list of Unicode
    scalar values, decimal numbers, hash maps as association lists; the simp bundles the other theories use.
  \<^item> \<^verbatim>\<open>Interfaces\<close>: the contracts as locales (\<open>state_machine\<close>, \<open>time_window\<close>, \<open>ranked_combine\<close>, \<open>codec\<close>), each
    interpreted on the definitions that provide it.
  \<^item> \<^verbatim>\<open>Float64\<close>: the part of binary64 arithmetic the error rate uses.

  \<^bold>\<open>Permissions\<close> (\<^verbatim>\<open>fuigo-workspace/src/permission\<close>).
  \<^item> \<^verbatim>\<open>Perm_Rules\<close>: the data of \<^verbatim>\<open>types.rs\<close> and the rule parser of \<^verbatim>\<open>rules.rs\<close>; \<^verbatim>\<open>Perm_Rules_Props\<close>: rules written
    with the documented escapes parse back.
  \<^item> \<^verbatim>\<open>Perm_Paths\<close>: normalization, match forms and the bounded symlink walk (\<^verbatim>\<open>fuigo-paths\<close>,
    \<^verbatim>\<open>fuigo-tools/src/util/path_match.rs\<close>, \<^verbatim>\<open>policy.rs\<close>); \<^verbatim>\<open>Perm_Paths_Props\<close>: normal forms, inside-the-workspace forms.
  \<^item> \<^verbatim>\<open>Shell_Words\<close>: wrapper peeling and inline \<open>-c\<close> scripts (\<^verbatim>\<open>bash_command_splitting.rs\<close>, \<^verbatim>\<open>policy.rs\<close>);
    \<^verbatim>\<open>Shell_Words_Props\<close>: each peel drops a prefix, a clean normalization has peeled everything.
  \<^item> \<^verbatim>\<open>Glob_Meet\<close>: the worklist test that two globs can match the same text, exact for their languages.
  \<^item> \<^verbatim>\<open>Perm_Policy\<close>: \<open>CompiledPolicy\<close>, its evaluation and the Bash command gate (\<^verbatim>\<open>policy.rs\<close>);
    \<^verbatim>\<open>Perm_Policy_Props\<close>, \<^verbatim>\<open>Perm_Access_Props\<close>: deny over ask over allow whatever the order of rules, a denied command
    is found behind wrappers and in nested scripts, an allow needs every command of a chain, silence of the gate means
    everything was read, following a link only escalates.
  \<^item> \<^verbatim>\<open>Perm_Modes\<close>: default modes and the mode reported to peers.

  \<^bold>\<open>Egress proxy\<close> (\<^verbatim>\<open>fuigo-egress-proxy/src\<close>, \<^verbatim>\<open>fuigo-sandbox/src/network_policy.rs\<close>, \<^verbatim>\<open>fuigo-extra-ca/src/egress.rs\<close>).
  \<^item> \<^verbatim>\<open>Egress_Addr\<close>: public addresses; the octet tests are the table of special-purpose blocks.
  \<^item> \<^verbatim>\<open>Egress_Origin\<close>: website origins, the policy, the vendor guard.
  \<^item> \<^verbatim>\<open>Egress_Request\<close>, \<^verbatim>\<open>Egress_Request_Props\<close>: heads read exactly, headers rewritten so that nothing is smuggled.
  \<^item> \<^verbatim>\<open>Egress_Tls\<close>, \<^verbatim>\<open>Egress_Tls_Props\<close>: the ClientHello check against an encoder.
  \<^item> \<^verbatim>\<open>Egress_Admit\<close>, \<^verbatim>\<open>Egress_Admit_Props\<close>: credentials, the decider's answers, held requests and their budget.
  \<^item> \<^verbatim>\<open>Egress_Server\<close>, \<^verbatim>\<open>Egress_Server_Props\<close>: a whole connection and the accept loop, with a tunnel's relay of the bytes
    after its ClientHello in both directions (how and when tokio's \<open>copy_bidirectional\<close> ends is an argument); nothing
    leaves but by consent, what leaves through a tunnel is what the client sent, after a checked ClientHello, and
    every connection is counted once.

  \<^bold>\<open>Sandbox grants and the network decider\<close> (\<^verbatim>\<open>fuigo-sandbox/src/command\<close>,
  \<^verbatim>\<open>fuigo-workspace/src/permission/sandbox_network.rs\<close>).
  \<^item> \<^verbatim>\<open>Grant_Hosts\<close>, \<^verbatim>\<open>Grant_Hosts_Props\<close>: rows, host patterns and expiry (\<^verbatim>\<open>grants.rs\<close>); coverage of patterns is
    sound, and patterns that meet are ordered.
  \<^item> \<^verbatim>\<open>Grant_Store\<close>, \<^verbatim>\<open>Grant_Store_Props\<close>: the store over its two files and the checks of a row's root
    (\<^verbatim>\<open>grant_store.rs\<close>, \<^verbatim>\<open>canonical.rs\<close>, \<^verbatim>\<open>protected.rs\<close>, \<^verbatim>\<open>policy/apply.rs\<close>, \<^verbatim>\<open>violation/propose.rs\<close>); no writer loses
    another's row that its own rules accept, and no row the store hands out names a protected root.
  \<^item> \<^verbatim>\<open>Net_Decider\<close>, \<^verbatim>\<open>Net_Decider_Props\<close>: the decision and the books of pending cards, one function per critical
    section, as a state machine; every yes is justified when it is given, the books stay in order, and a stop answers
    everyone. \<^verbatim>\<open>Net_Enforced\<close>: the proxy with this decider behind it.

  \<^bold>\<open>Served folders\<close> (\<^verbatim>\<open>fuigo-workspace/src/sandbox\<close>, \<^verbatim>\<open>fuigo-sandbox/src/command/backend.rs\<close>).
  \<^item> \<^verbatim>\<open>Call_Table\<close>: call ids, tags and the table of calls (\<^verbatim>\<open>calls.rs\<close>), one function per method;
    \<^verbatim>\<open>Call_Table_Props\<close>: its invariant along every run, a frame property for other calls, epochs that are never used
    again, and that ending a spawn hands its credential and epoch over.
  \<^item> \<^verbatim>\<open>Sandbox_Folder\<close>: the folder's live rows and grants (\<^verbatim>\<open>grants.rs\<close>), spawns (\<^verbatim>\<open>launch.rs\<close>), proxy side
    (\<^verbatim>\<open>network.rs\<close>) and results (\<^verbatim>\<open>mod.rs\<close>), over the call table, the credential registry, the decider and the grant store.
  \<^item> \<^verbatim>\<open>Sandbox_Folder_Props\<close>: the critical sections of the folder as the steps of one machine, and what every interleaving
    keeps: credentials and waiting connections follow the command. \<^verbatim>\<open>Sandbox_Handlers_Props\<close>: each handler is a
    sequence of those steps, and between handlers nothing is left over; the mode a spawn runs under, the rows a call is
    decided by, what recording a grant does to the files, the store and the calls.
  \<^item> \<^verbatim>\<open>Card_Wire\<close>: violations, the tenant's ceiling and what a card's reply amounts to (\<^verbatim>\<open>permission/sandbox_wire.rs\<close>);
    \<^verbatim>\<open>Card_Gate\<close>: settling a violation (\<^verbatim>\<open>permission/sandbox_gate.rs\<close>) and the runs of a shell call
    (\<^verbatim>\<open>sandbox/result_path.rs\<close>); \<^verbatim>\<open>Card_Props\<close>: what an answer can give, a command runs again only with
    recorded consent and at most once, and the result of that run is settled without a card.
  \<^item> \<^verbatim>\<open>Sandbox_Resolve\<close>: the layers a folder's mode comes from (\<^verbatim>\<open>fuigo-config/src/sandbox_mode.rs\<close>), reading their
    files (\<^verbatim>\<open>fuigo-workspace/src/sandbox_mode.rs\<close>) and the resolution a folder keeps (\<^verbatim>\<open>sandbox/mod.rs\<close>);
    \<^verbatim>\<open>Sandbox_Resolve_Props\<close>: the precedence against a reference definition, what a folder's file can do, setting the mode,
    and freshness of the kept resolution under every interleaving of readers and writers.

  \<^bold>\<open>Peer messages\<close> (\<^verbatim>\<open>fuigo-peer/src\<close>).
  \<^item> \<^verbatim>\<open>Peer_Address\<close>, \<^verbatim>\<open>Peer_Wire\<close>: addresses, modes, envelopes and the caps they are checked against.
  \<^item> \<^verbatim>\<open>Peer_Ingress\<close>, \<^verbatim>\<open>Peer_Ingress_Props\<close>: the ledger, rate windows and replay memory, along every run.
  \<^item> \<^verbatim>\<open>Peer_Locator\<close>, \<^verbatim>\<open>Peer_Locator_Props\<close>, \<^verbatim>\<open>Peer_Host\<close>: locator files, socket paths, shown texts, name resolution.

  \<^bold>\<open>Circuit breaker and retries\<close> (\<^verbatim>\<open>fuigo-circuit-breaker/src\<close>).
  \<^item> \<^verbatim>\<open>Breaker_Window\<close>, \<^verbatim>\<open>Breaker\<close>, \<^verbatim>\<open>Breaker_Props\<close>: the sliding window and the state machine, one call at a time;
    \<^verbatim>\<open>Breaker_Race\<close>: the same methods as interleaved atomic actions of several threads.
  \<^item> \<^verbatim>\<open>Retry\<close>: retry presets, gRPC codes and the registry of breakers.

  \<^bold>\<open>Code outside the repository\<close> is an argument of the definitions that use it: the glob, url, httparse and base64
  crates, TOML and globset, Unicode lower-casing, the file system (three queries), DNS and connect, the user's answers,
  the random tokens and card identifiers, and the two decompositions of a script that rest on the tree-sitter grammar. Theorems hold for every such
  argument; where one has a hypothesis about them, its witness instantiates them with concrete functions.
  Clocks are arguments as well; a deadline is a flag or the event that ends a list. The byte slice of
  the \<open>nice\<close> arm (\<^verbatim>\<open>bash_command_splitting.rs\<close>, line 500) panics on a word that starts with a character of several bytes:
  \<open>nice_slice_panics\<close> is that case, \<open>normalize_panics\<close> and \<open>gate_may_panic\<close> follow it through the loops, and the
  functions of \<^verbatim>\<open>Shell_Words\<close> and \<^verbatim>\<open>Perm_Policy\<close> describe the calls that return. Where a theorem says that such a call
  gives a certain answer, the panic is excluded by hypothesis; the others say what holds of an answer once it is given.
  Other panics of the modelled code are a branch of their own or ruled out by an invariant. Arithmetic is that of a
  release build: counters that may overflow wrap in the model as in the source (\<open>wrap_add64\<close>, \<open>metrics_record\<close>), but a call's epochs, which the code counts in 64 bits, are natural numbers.

  \<^bold>\<open>Bounds and fuel.\<close> Loops the code bounds keep its bound as their fuel: 40 links of a symlink walk, 8 levels of
  inline scripts and of wrappers, 16 rounds of normalization; the theorems say what holds when the bound is reached
  (the gate asks). All other loops are total functions with a measure: bytes left, words left, unread input, unvisited
  pairs of glob positions, replays left. A held request ends with the last event of its list, which the deadline always provides.

  \<^bold>\<open>Not modelled.\<close> The permission manager's prompts, the tree-sitter walks, reading of settings
  files other than the sandbox mode's, kernel sandboxing, sockets and processes, the terminal interface, model APIs, tools, MCP, the hub's transport,
  chat state, compaction, the hunk tracker: they are effects around the decisions modelled here, or work on data of
  third-party libraries. Within the modelled parts: the time-bounded alias resolver, the JSON snapshot of the
  network policy, the lists of protected paths, file locks and atomic replacement, the start and shutdown of the
  proxy's handle, the build of the kernel policy for a spawn, the decoding of a command's output,
  the cards' payload and transport, held directories. In \<^verbatim>\<open>Sandbox_Folder\<close> a reading of the mode is an argument: what it
  returns is the subject of \<^verbatim>\<open>Sandbox_Resolve\<close>.
\<close>

end
